(* ===== verification/Prelude.thy ===== *)
theory Prelude
  imports Main "HOL-Library.Word"
begin

text \<open>
  Shared vocabulary of the development: the machine integers the C++ code uses, bytes and
  byte strings (\<open>std::string\<close> and \<open>Slice\<close> are both byte sequences), the collections of
  facts the components contribute to, and the generic lemmas on lists and words that the
  component proofs share.
\<close>

unbundle bit_operations_syntax

type_synonym byte = "8 word"
type_synonym u16 = "16 word"
type_synonym u32 = "32 word"
type_synonym u64 = "64 word"
type_synonym bytes = "byte list"

named_theorems codec_simps \<open>round-trip equations of the on-disk encodings\<close>
named_theorems zone_simps \<open>frame and effect equations of the zone operations\<close>
named_theorems addr_simps \<open>arithmetic of the RAID address translations\<close>

text \<open>A string literal as the byte string the C++ compiler stores for it.\<close>

definition str :: "string \<Rightarrow> bytes" where
  "str s = map of_char s"

subsection \<open>Lists\<close>

lemma take_append_exact [simp]: "n = length xs \<Longrightarrow> take n (xs @ ys) = xs"
  by simp

lemma drop_append_exact [simp]: "n = length xs \<Longrightarrow> drop n (xs @ ys) = ys"
  by simp

lemma nth_list_update_same_or: "i < length xs \<Longrightarrow> xs[i := y] ! j = (if i = j then y else xs ! j)"
  by simp

lemma sum_list_update_diff:
  fixes f :: "'a \<Rightarrow> 'b::ab_group_add"
  assumes "i < length xs"
  shows "sum_list (map f (xs[i := y])) = sum_list (map f xs) - f (xs ! i) + f y"
  using assms by (induction xs arbitrary: i) (auto split: nat.splits simp: algebra_simps)

subsection \<open>Words\<close>

lemma unat_lt: "unat (w :: 'a::len word) < 2 ^ LENGTH('a)"
  by (rule unsigned_less)

lemma unat_of_nat_small: "n < 2 ^ LENGTH('a) \<Longrightarrow> unat (of_nat n :: 'a::len word) = n"
  by (simp add: unat_of_nat)

lemma unat_ucast_u64 [simp]: "unat (ucast (x :: u32) :: u64) = unat x"
  using unat_lt [of x] by (simp add: unsigned_ucast_eq take_bit_nat_eq_self)

lemma word_of_int_nat: "0 \<le> r \<Longrightarrow> (word_of_int r :: 'a::len word) = of_nat (nat r)"
  by simp

lemma unat_add_no_wrap:
  fixes a b :: "'a::len word"
  assumes "unat a + unat b < 2 ^ LENGTH('a)"
  shows "unat (a + b) = unat a + unat b"
  using assms by (simp add: unat_word_ariths)

lemma unat_sub_no_wrap:
  fixes a b :: "'a::len word"
  assumes "unat b \<le> unat a"
  shows "unat (a - b) = unat a - unat b"
  using assms by (simp add: unat_sub word_le_nat_alt)

lemma unat_drop_bit_less [termination_simp]:
  fixes v :: "64 word"
  assumes "128 \<le> v"
  shows "unat (drop_bit 7 v) < unat v"
proof -
  have "unat (drop_bit 7 v) = unat v div 128"
    by (simp add: drop_bit_eq_div unat_div)
  moreover have "128 \<le> unat v"
    using assms by (simp add: word_le_nat_alt)
  ultimately show ?thesis by simp
qed

lemma unat_mult_no_wrap:
  fixes a b :: "'a::len word"
  assumes "unat a * unat b < 2 ^ LENGTH('a)"
  shows "unat (a * b) = unat a * unat b"
  using assms by (simp add: unat_word_ariths)

subsection \<open>Bits and masks\<close>

lemma mask7: "(127 :: 'a::len word) = mask 7"
  by (simp add: mask_eq_exp_minus_1)

lemma bit_128_int: "bit (128 :: int) n \<longleftrightarrow> n = 7"
proof -
  have *: "(128 :: int) = 2 ^ 7" by simp
  show ?thesis unfolding * by (auto simp only: bit_exp_iff) auto
qed

lemma ucast_and_255: "(ucast (v AND 0xff) :: byte) = ucast (v :: 'a::len word)"
proof -
  have *: "(0xff :: 'a word) = mask 8" by (simp add: mask_eq_exp_minus_1)
  show ?thesis unfolding *
    by (rule bit_word_eqI) (auto simp: bit_simps dest: bit_imp_le_length)
qed

lemma and128:
  fixes b :: "'a::len word"
  assumes "8 \<le> LENGTH('a)"
  shows "b AND 128 = 0 \<longleftrightarrow> \<not> bit b 7"
proof
  assume "b AND 128 = 0"
  then have "bit (b AND 128) 7 = bit (0::'a word) 7" by simp
  then show "\<not> bit b 7" using assms by (simp add: bit_simps bit_128_int)
next
  assume "\<not> bit b 7"
  then show "b AND 128 = 0"
    by (auto intro!: bit_word_eqI simp: bit_simps bit_128_int)
qed

lemma mask_acc:
  "(v AND mask s) OR push_bit s (drop_bit s v AND mask 7) = v AND mask (s + 7)"
  for v :: "'a::len word"
  by (rule bit_word_eqI) (auto simp: bit_simps dest: bit_imp_le_length)

lemma mask_last: "(v AND mask s) OR push_bit s (drop_bit s v) = v" for v :: "'a::len word"
proof (rule bit_word_eqI)
  fix n
  show "bit (v AND mask s OR push_bit s (drop_bit s v)) n = bit v n"
    by (cases "n < s") (auto simp: bit_simps dest: bit_imp_le_length)
qed

lemma unat_pow2: "n < LENGTH('a) \<Longrightarrow> unat (2 ^ n :: 'a::len word) = 2 ^ n"
  using unat_of_nat [of "2 ^ n", where 'a = 'a] by simp

lemma drop_bit_less_128:
  fixes v :: "'a::len word"
  assumes "unat v < 2 ^ (s + 7)" "8 \<le> LENGTH('a)"
  shows "drop_bit s v < 128"
proof -
  have "unat v div 2 ^ s < 128"
    using assms(1) by (simp add: power_add less_mult_imp_div_less mult.commute)
  moreover have "unat (128 :: 'a word) = 128"
    using unat_pow2 [of 7, where 'a = 'a] assms(2) by simp
  ultimately show ?thesis by (simp add: word_less_nat_alt unat_drop_bit_eq drop_bit_nat_def)
qed

end
