(* ===== verification/Status.thy ===== *)
theory Status
  imports Prelude
begin

text \<open>
  The result type of every fallible operation: \<open>Status\<close> and its subclass \<open>IOStatus\<close>
  (\<open>AquaZFS/base/status.h\<close>, \<open>status.cc\<close>, \<open>io_status.h\<close>), and the small enumerations of
  \<open>file_system.h\<close> that the file system branches on.  A status carries a code, a subcode,
  a severity, the two flags and the scope of \<open>IOStatus\<close> and an optional message.  Errors
  are values of this record throughout the development.

  Equality of statuses in C++ (\<open>operator==\<close>) compares the codes only; it is the definition
  \<open>status_eq\<close> below, distinct from equality of the records.
\<close>

subsection \<open>Codes\<close>

datatype Code =
    kOk | kNotFound | kCorruption | kNotSupported | kInvalidArgument | kIOError
  | kMergeInProgress | kIncomplete | kShutdownInProgress | kTimedOut | kAborted | kBusy
  | kExpired | kTryAgain | kCompactionTooLarge | kColumnFamilyDropped | kMaxCode

datatype SubCode =
    kNone | kMutexTimeout | kLockTimeout | kLockLimit | kNoSpace | kDeadlock | kStaleFile
  | kMemoryLimit | kSpaceLimit | kPathNotFound | KMergeOperandsInsufficientCapacity
  | kManualCompactionPaused | kOverwritten | kTxnNotPrepared | kIOFenced | kMergeOperatorFailed
  | kMaxSubCode

datatype Severity =
    kNoError | kSoftError | kHardError | kFatalError | kUnrecoverableError | kMaxSeverity

datatype IOErrorScope =
    kIOErrorScopeFileSystem | kIOErrorScopeFile | kIOErrorScopeRange | kIOErrorScopeMax

record status =
  st_code :: Code
  st_subcode :: SubCode
  st_sev :: Severity
  st_retryable :: bool
  st_data_loss :: bool
  st_scope :: byte
  st_state :: "bytes option"

subsection \<open>Constructors\<close>

text \<open>The constructor without a message, and the one that joins two slices with \<open>": "\<close>.\<close>

definition mk_status :: "Code \<Rightarrow> SubCode \<Rightarrow> status" where
  "mk_status c sc = \<lparr> st_code = c, st_subcode = sc, st_sev = kNoError, st_retryable = False,
     st_data_loss = False, st_scope = 0, st_state = None \<rparr>"

definition status_message :: "bytes \<Rightarrow> bytes \<Rightarrow> bytes" where
  "status_message msg msg2 = msg @ (if msg2 \<noteq> [] then str '': '' @ msg2 else [])"

definition mk_status_msg :: "Code \<Rightarrow> SubCode \<Rightarrow> bytes \<Rightarrow> bytes \<Rightarrow> Severity \<Rightarrow> status" where
  "mk_status_msg c sc msg msg2 sev = \<lparr> st_code = c, st_subcode = sc, st_sev = sev,
     st_retryable = False, st_data_loss = False, st_scope = 0,
     st_state = Some (status_message msg msg2) \<rparr>"

text \<open>
  The message is kept in a C string: whatever follows a NUL byte is lost when it is copied
  or printed.
\<close>

definition c_str :: "bytes \<Rightarrow> bytes" where
  "c_str b = takeWhile (\<lambda>x. x \<noteq> 0) b"

definition CopyState :: "bytes option \<Rightarrow> bytes option" where
  "CopyState s = map_option c_str s"

definition status_copy :: "status \<Rightarrow> status" where
  "status_copy s = s\<lparr> st_state := CopyState (st_state s) \<rparr>"

definition status_with_severity :: "status \<Rightarrow> Severity \<Rightarrow> status" where
  "status_with_severity s sev = (status_copy s)\<lparr> st_sev := sev \<rparr>"

definition CopyAppendMessage :: "status \<Rightarrow> bytes \<Rightarrow> bytes \<Rightarrow> status" where
  "CopyAppendMessage s delim msg =
     mk_status_msg (st_code s) (st_subcode s)
       (c_str (case st_state s of None \<Rightarrow> [] | Some b \<Rightarrow> b) @ delim @ msg) [] (st_sev s)"

text \<open>A move assignment hands the value over and leaves an OK status behind.\<close>

definition status_move :: "status \<Rightarrow> status \<times> status" where
  "status_move s = (s, mk_status kOk kNone)"

definition OK :: status where
  "OK = mk_status kOk kNone"

definition OkOverwritten :: status where
  "OkOverwritten = mk_status kOk kOverwritten"

text \<open>The factory functions: with a subcode only, and with messages.\<close>

definition NotFound_sc :: "SubCode \<Rightarrow> status" where
  "NotFound_sc sc = mk_status kNotFound sc"

definition NotFound :: "bytes \<Rightarrow> bytes \<Rightarrow> status" where
  "NotFound msg msg2 = mk_status_msg kNotFound kNone msg msg2 kNoError"

definition Corruption_sc :: "SubCode \<Rightarrow> status" where
  "Corruption_sc sc = mk_status kCorruption sc"

definition Corruption :: "bytes \<Rightarrow> bytes \<Rightarrow> status" where
  "Corruption msg msg2 = mk_status_msg kCorruption kNone msg msg2 kNoError"

definition NotSupported_sc :: "SubCode \<Rightarrow> status" where
  "NotSupported_sc sc = mk_status kNotSupported sc"

definition NotSupported :: "bytes \<Rightarrow> bytes \<Rightarrow> status" where
  "NotSupported msg msg2 = mk_status_msg kNotSupported kNone msg msg2 kNoError"

definition InvalidArgument_sc :: "SubCode \<Rightarrow> status" where
  "InvalidArgument_sc sc = mk_status kInvalidArgument sc"

definition InvalidArgument :: "bytes \<Rightarrow> bytes \<Rightarrow> status" where
  "InvalidArgument msg msg2 = mk_status_msg kInvalidArgument kNone msg msg2 kNoError"

definition IOError_sc :: "SubCode \<Rightarrow> status" where
  "IOError_sc sc = mk_status kIOError sc"

definition IOError :: "bytes \<Rightarrow> bytes \<Rightarrow> status" where
  "IOError msg msg2 = mk_status_msg kIOError kNone msg msg2 kNoError"

definition MergeInProgress_sc :: "SubCode \<Rightarrow> status" where
  "MergeInProgress_sc sc = mk_status kMergeInProgress sc"

definition MergeInProgress :: "bytes \<Rightarrow> bytes \<Rightarrow> status" where
  "MergeInProgress msg msg2 = mk_status_msg kMergeInProgress kNone msg msg2 kNoError"

definition Incomplete_sc :: "SubCode \<Rightarrow> status" where
  "Incomplete_sc sc = mk_status kIncomplete sc"

definition Incomplete :: "bytes \<Rightarrow> bytes \<Rightarrow> status" where
  "Incomplete msg msg2 = mk_status_msg kIncomplete kNone msg msg2 kNoError"

definition ShutdownInProgress_sc :: "SubCode \<Rightarrow> status" where
  "ShutdownInProgress_sc sc = mk_status kShutdownInProgress sc"

definition ShutdownInProgress :: "bytes \<Rightarrow> bytes \<Rightarrow> status" where
  "ShutdownInProgress msg msg2 = mk_status_msg kShutdownInProgress kNone msg msg2 kNoError"

definition Aborted_sc :: "SubCode \<Rightarrow> status" where
  "Aborted_sc sc = mk_status kAborted sc"

definition Aborted :: "bytes \<Rightarrow> bytes \<Rightarrow> status" where
  "Aborted msg msg2 = mk_status_msg kAborted kNone msg msg2 kNoError"

definition Busy_sc :: "SubCode \<Rightarrow> status" where
  "Busy_sc sc = mk_status kBusy sc"

definition Busy :: "bytes \<Rightarrow> bytes \<Rightarrow> status" where
  "Busy msg msg2 = mk_status_msg kBusy kNone msg msg2 kNoError"

definition TimedOut_sc :: "SubCode \<Rightarrow> status" where
  "TimedOut_sc sc = mk_status kTimedOut sc"

definition TimedOut :: "bytes \<Rightarrow> bytes \<Rightarrow> status" where
  "TimedOut msg msg2 = mk_status_msg kTimedOut kNone msg msg2 kNoError"

definition Expired_sc :: "SubCode \<Rightarrow> status" where
  "Expired_sc sc = mk_status kExpired sc"

definition Expired :: "bytes \<Rightarrow> bytes \<Rightarrow> status" where
  "Expired msg msg2 = mk_status_msg kExpired kNone msg msg2 kNoError"

definition TryAgain_sc :: "SubCode \<Rightarrow> status" where
  "TryAgain_sc sc = mk_status kTryAgain sc"

definition TryAgain :: "bytes \<Rightarrow> bytes \<Rightarrow> status" where
  "TryAgain msg msg2 = mk_status_msg kTryAgain kNone msg msg2 kNoError"

definition CompactionTooLarge_sc :: "SubCode \<Rightarrow> status" where
  "CompactionTooLarge_sc sc = mk_status kCompactionTooLarge sc"

definition CompactionTooLarge :: "bytes \<Rightarrow> bytes \<Rightarrow> status" where
  "CompactionTooLarge msg msg2 = mk_status_msg kCompactionTooLarge kNone msg msg2 kNoError"

definition ColumnFamilyDropped_sc :: "SubCode \<Rightarrow> status" where
  "ColumnFamilyDropped_sc sc = mk_status kColumnFamilyDropped sc"

definition ColumnFamilyDropped :: "bytes \<Rightarrow> bytes \<Rightarrow> status" where
  "ColumnFamilyDropped msg msg2 = mk_status_msg kColumnFamilyDropped kNone msg msg2 kNoError"

definition NotFound_sc_msg :: "SubCode \<Rightarrow> bytes \<Rightarrow> bytes \<Rightarrow> status" where
  "NotFound_sc_msg sc msg msg2 = mk_status_msg kNotFound sc msg msg2 kNoError"

definition NoSpace :: status where
  "NoSpace = mk_status kIOError kNoSpace"

definition NoSpace_msg :: "bytes \<Rightarrow> bytes \<Rightarrow> status" where
  "NoSpace_msg msg msg2 = mk_status_msg kIOError kNoSpace msg msg2 kNoError"

definition MemoryLimit :: status where
  "MemoryLimit = mk_status kAborted kMemoryLimit"

definition MemoryLimit_msg :: "bytes \<Rightarrow> bytes \<Rightarrow> status" where
  "MemoryLimit_msg msg msg2 = mk_status_msg kAborted kMemoryLimit msg msg2 kNoError"

definition SpaceLimit :: status where
  "SpaceLimit = mk_status kIOError kSpaceLimit"

definition SpaceLimit_msg :: "bytes \<Rightarrow> bytes \<Rightarrow> status" where
  "SpaceLimit_msg msg msg2 = mk_status_msg kIOError kSpaceLimit msg msg2 kNoError"

definition PathNotFound :: status where
  "PathNotFound = mk_status kIOError kPathNotFound"

definition PathNotFound_msg :: "bytes \<Rightarrow> bytes \<Rightarrow> status" where
  "PathNotFound_msg msg msg2 = mk_status_msg kIOError kPathNotFound msg msg2 kNoError"

definition TxnNotPrepared :: status where
  "TxnNotPrepared = mk_status kInvalidArgument kTxnNotPrepared"

definition TxnNotPrepared_msg :: "bytes \<Rightarrow> bytes \<Rightarrow> status" where
  "TxnNotPrepared_msg msg msg2 = mk_status_msg kInvalidArgument kTxnNotPrepared msg msg2 kNoError"

definition IOFenced :: status where
  "IOFenced = mk_status kIOError kIOFenced"

definition IOFenced_msg :: "bytes \<Rightarrow> bytes \<Rightarrow> status" where
  "IOFenced_msg msg msg2 = mk_status_msg kIOError kIOFenced msg msg2 kNoError"

subsection \<open>Predicates\<close>

definition ok :: "status \<Rightarrow> bool" where
  "ok s = (st_code s = kOk)"

definition IsOkOverwritten :: "status \<Rightarrow> bool" where
  "IsOkOverwritten s = (st_code s = kOk \<and> st_subcode s = kOverwritten)"

definition IsNotFound :: "status \<Rightarrow> bool" where
  "IsNotFound s = (st_code s = kNotFound)"

definition IsCorruption :: "status \<Rightarrow> bool" where
  "IsCorruption s = (st_code s = kCorruption)"

definition IsNotSupported :: "status \<Rightarrow> bool" where
  "IsNotSupported s = (st_code s = kNotSupported)"

definition IsInvalidArgument :: "status \<Rightarrow> bool" where
  "IsInvalidArgument s = (st_code s = kInvalidArgument)"

definition IsIOError :: "status \<Rightarrow> bool" where
  "IsIOError s = (st_code s = kIOError)"

definition IsMergeInProgress :: "status \<Rightarrow> bool" where
  "IsMergeInProgress s = (st_code s = kMergeInProgress)"

definition IsIncomplete :: "status \<Rightarrow> bool" where
  "IsIncomplete s = (st_code s = kIncomplete)"

definition IsShutdownInProgress :: "status \<Rightarrow> bool" where
  "IsShutdownInProgress s = (st_code s = kShutdownInProgress)"

definition IsTimedOut :: "status \<Rightarrow> bool" where
  "IsTimedOut s = (st_code s = kTimedOut)"

definition IsAborted :: "status \<Rightarrow> bool" where
  "IsAborted s = (st_code s = kAborted)"

definition IsLockLimit :: "status \<Rightarrow> bool" where
  "IsLockLimit s = (st_code s = kAborted \<and> st_subcode s = kLockLimit)"

definition IsBusy :: "status \<Rightarrow> bool" where
  "IsBusy s = (st_code s = kBusy)"

definition IsDeadlock :: "status \<Rightarrow> bool" where
  "IsDeadlock s = (st_code s = kBusy \<and> st_subcode s = kDeadlock)"

definition IsExpired :: "status \<Rightarrow> bool" where
  "IsExpired s = (st_code s = kExpired)"

definition IsTryAgain :: "status \<Rightarrow> bool" where
  "IsTryAgain s = (st_code s = kTryAgain)"

definition IsCompactionTooLarge :: "status \<Rightarrow> bool" where
  "IsCompactionTooLarge s = (st_code s = kCompactionTooLarge)"

definition IsColumnFamilyDropped :: "status \<Rightarrow> bool" where
  "IsColumnFamilyDropped s = (st_code s = kColumnFamilyDropped)"

definition IsNoSpace :: "status \<Rightarrow> bool" where
  "IsNoSpace s = (st_code s = kIOError \<and> st_subcode s = kNoSpace)"

definition IsMemoryLimit :: "status \<Rightarrow> bool" where
  "IsMemoryLimit s = (st_code s = kAborted \<and> st_subcode s = kMemoryLimit)"

definition IsPathNotFound :: "status \<Rightarrow> bool" where
  "IsPathNotFound s = ((st_code s = kIOError \<or> st_code s = kNotFound) \<and> st_subcode s = kPathNotFound)"

definition IsManualCompactionPaused :: "status \<Rightarrow> bool" where
  "IsManualCompactionPaused s = (st_code s = kIncomplete \<and> st_subcode s = kManualCompactionPaused)"

definition IsTxnNotPrepared :: "status \<Rightarrow> bool" where
  "IsTxnNotPrepared s = (st_code s = kInvalidArgument \<and> st_subcode s = kTxnNotPrepared)"

definition IsIOFenced :: "status \<Rightarrow> bool" where
  "IsIOFenced s = (st_code s = kIOError \<and> st_subcode s = kIOFenced)"

text \<open>The C++ equality: codes only.\<close>

definition status_eq :: "status \<Rightarrow> status \<Rightarrow> bool" where
  "status_eq a b = (st_code a = st_code b)"

definition status_neq :: "status \<Rightarrow> status \<Rightarrow> bool" where
  "status_neq a b = (\<not> status_eq a b)"

subsection \<open>Printing\<close>

fun msgs :: "SubCode \<Rightarrow> bytes" where
  "msgs kNone = str ''''"
| "msgs kMutexTimeout = str ''Timeout Acquiring Mutex''"
| "msgs kLockTimeout = str ''Timeout waiting to lock key''"
| "msgs kLockLimit = str ''Failed to acquire lock due to max_num_locks limit''"
| "msgs kNoSpace = str ''No space left on device''"
| "msgs kDeadlock = str ''Deadlock''"
| "msgs kStaleFile = str ''Stale file handle''"
| "msgs kMemoryLimit = str ''Memory limit reached''"
| "msgs kSpaceLimit = str ''Space limit reached''"
| "msgs kPathNotFound = str ''No such file or directory''"
| "msgs KMergeOperandsInsufficientCapacity = str ''Insufficient capacity for merge operands''"
| "msgs kManualCompactionPaused = str ''Manual compaction paused''"
| "msgs kOverwritten = str '' (overwritten)''"
| "msgs kTxnNotPrepared = str ''Txn not prepared''"
| "msgs kIOFenced = str ''IO fenced off''"
| "msgs kMergeOperatorFailed = str ''Merge operator failed''"
| "msgs kMaxSubCode = str ''''"

fun code_type :: "Code \<Rightarrow> bytes" where
  "code_type kOk = str ''OK''"
| "code_type kNotFound = str ''NotFound: ''"
| "code_type kCorruption = str ''Corruption: ''"
| "code_type kNotSupported = str ''Not implemented: ''"
| "code_type kInvalidArgument = str ''Invalid argument: ''"
| "code_type kIOError = str ''IO error: ''"
| "code_type kMergeInProgress = str ''Merge in progress: ''"
| "code_type kIncomplete = str ''Result incomplete: ''"
| "code_type kShutdownInProgress = str ''Shutdown in progress: ''"
| "code_type kTimedOut = str ''Operation timed out: ''"
| "code_type kAborted = str ''Operation aborted: ''"
| "code_type kBusy = str ''Resource busy: ''"
| "code_type kExpired = str ''Operation expired: ''"
| "code_type kTryAgain = str ''Operation failed. Try again.: ''"
| "code_type kCompactionTooLarge = str ''Compaction too large: ''"
| "code_type kColumnFamilyDropped = str ''Column family dropped: ''"
| "code_type kMaxCode = str ''Unknown code(16): ''"

definition ToString :: "status \<Rightarrow> bytes" where
  "ToString s =
     (if st_code s = kOk then str ''OK''
      else code_type (st_code s)
        @ (if st_subcode s \<noteq> kNone then msgs (st_subcode s) else [])
        @ (case st_state s of None \<Rightarrow> []
           | Some m \<Rightarrow> (if st_subcode s \<noteq> kNone then str '': '' else []) @ c_str m))"

subsection \<open>The flags and the scope of an \<open>IOStatus\<close>\<close>

definition SetRetryable :: "status \<Rightarrow> bool \<Rightarrow> status" where
  "SetRetryable s r = s\<lparr> st_retryable := r \<rparr>"

definition SetDataLoss :: "status \<Rightarrow> bool \<Rightarrow> status" where
  "SetDataLoss s d = s\<lparr> st_data_loss := d \<rparr>"

fun scope_byte :: "IOErrorScope \<Rightarrow> byte" where
  "scope_byte kIOErrorScopeFileSystem = 0"
| "scope_byte kIOErrorScopeFile = 1"
| "scope_byte kIOErrorScopeRange = 2"
| "scope_byte kIOErrorScopeMax = 3"

definition SetScope :: "status \<Rightarrow> IOErrorScope \<Rightarrow> status" where
  "SetScope s sc = s\<lparr> st_scope := scope_byte sc \<rparr>"

text \<open>
  \<open>IOStatus\<close> copies do not carry the severity, and its move assignment leaves the source's
  flags alone.  \<open>status_to_io_status\<close> moves through the base class and keeps everything.
\<close>

definition io_status_copy :: "status \<Rightarrow> status" where
  "io_status_copy s = (status_copy s)\<lparr> st_sev := kNoError \<rparr>"

definition io_status_assign :: "status \<Rightarrow> status \<Rightarrow> status" where
  "io_status_assign this s = (status_copy s)\<lparr> st_sev := st_sev this \<rparr>"

definition io_status_move :: "status \<Rightarrow> status \<Rightarrow> status \<times> status" where
  "io_status_move this s = (s\<lparr> st_sev := st_sev this \<rparr>,
     s\<lparr> st_code := kOk, st_subcode := kNone, st_scope := 0, st_state := None \<rparr>)"

definition status_to_io_status :: "status \<Rightarrow> status" where
  "status_to_io_status s = fst (status_move s)"

subsection \<open>Enumerations of the file-system interface\<close>

datatype IOType =
    kData | kFilter | kIndex | kMetadata | kWAL | kManifest | kLog | kUnknown | kInvalid

text \<open>
  \<open>Env::WriteLifeTimeHint\<close>.  The code converts it to and from integers freely (the hint of
  a file is stored on disk as a 32-bit integer and cast back unchecked), so it is kept as the
  integer with the names of the enumerators.
\<close>

type_synonym WriteLifeTimeHint = u32

definition WLTH_NOT_SET :: WriteLifeTimeHint where "WLTH_NOT_SET = 0"
definition WLTH_NONE :: WriteLifeTimeHint where "WLTH_NONE = 1"
definition WLTH_SHORT :: WriteLifeTimeHint where "WLTH_SHORT = 2"
definition WLTH_MEDIUM :: WriteLifeTimeHint where "WLTH_MEDIUM = 3"
definition WLTH_LONG :: WriteLifeTimeHint where "WLTH_LONG = 4"
definition WLTH_EXTREME :: WriteLifeTimeHint where "WLTH_EXTREME = 5"

lemmas WLTH_defs =
  WLTH_NOT_SET_def WLTH_NONE_def WLTH_SHORT_def WLTH_MEDIUM_def WLTH_LONG_def WLTH_EXTREME_def

subsection \<open>Facts\<close>

lemma st_code_mk [simp]:
  "st_code (mk_status c sc) = c" "st_subcode (mk_status c sc) = sc"
  "st_code (mk_status_msg c sc m m2 sev) = c" "st_subcode (mk_status_msg c sc m m2 sev) = sc"
  by (simp_all add: mk_status_def mk_status_msg_def)

lemma ok_OK [simp]: "ok OK"
  by (simp add: ok_def OK_def)

lemma not_ok_errors [simp]:
  "\<not> ok (NotFound_sc sc)"
  "\<not> ok (NotFound m m2)"
  "\<not> ok (Corruption_sc sc)"
  "\<not> ok (Corruption m m2)"
  "\<not> ok (NotSupported_sc sc)"
  "\<not> ok (NotSupported m m2)"
  "\<not> ok (InvalidArgument_sc sc)"
  "\<not> ok (InvalidArgument m m2)"
  "\<not> ok (IOError_sc sc)"
  "\<not> ok (IOError m m2)"
  "\<not> ok (MergeInProgress_sc sc)"
  "\<not> ok (MergeInProgress m m2)"
  "\<not> ok (Incomplete_sc sc)"
  "\<not> ok (Incomplete m m2)"
  "\<not> ok (ShutdownInProgress_sc sc)"
  "\<not> ok (ShutdownInProgress m m2)"
  "\<not> ok (Aborted_sc sc)"
  "\<not> ok (Aborted m m2)"
  "\<not> ok (Busy_sc sc)"
  "\<not> ok (Busy m m2)"
  "\<not> ok (TimedOut_sc sc)"
  "\<not> ok (TimedOut m m2)"
  "\<not> ok (Expired_sc sc)"
  "\<not> ok (Expired m m2)"
  "\<not> ok (TryAgain_sc sc)"
  "\<not> ok (TryAgain m m2)"
  "\<not> ok (CompactionTooLarge_sc sc)"
  "\<not> ok (CompactionTooLarge m m2)"
  "\<not> ok (ColumnFamilyDropped_sc sc)"
  "\<not> ok (ColumnFamilyDropped m m2)"
  "\<not> ok (NotFound_sc_msg sc m m2)"
  "\<not> ok NoSpace"
  "\<not> ok (NoSpace_msg m m2)"
  "\<not> ok MemoryLimit"
  "\<not> ok (MemoryLimit_msg m m2)"
  "\<not> ok SpaceLimit"
  "\<not> ok (SpaceLimit_msg m m2)"
  "\<not> ok PathNotFound"
  "\<not> ok (PathNotFound_msg m m2)"
  "\<not> ok TxnNotPrepared"
  "\<not> ok (TxnNotPrepared_msg m m2)"
  "\<not> ok IOFenced"
  "\<not> ok (IOFenced_msg m m2)"
  by (simp_all add: ok_def NotFound_sc_def NotFound_def Corruption_sc_def Corruption_def NotSupported_sc_def NotSupported_def InvalidArgument_sc_def InvalidArgument_def IOError_sc_def IOError_def MergeInProgress_sc_def MergeInProgress_def Incomplete_sc_def Incomplete_def ShutdownInProgress_sc_def ShutdownInProgress_def Aborted_sc_def Aborted_def Busy_sc_def Busy_def TimedOut_sc_def TimedOut_def Expired_sc_def Expired_def TryAgain_sc_def TryAgain_def CompactionTooLarge_sc_def CompactionTooLarge_def ColumnFamilyDropped_sc_def ColumnFamilyDropped_def NotFound_sc_msg_def NoSpace_def NoSpace_msg_def MemoryLimit_def MemoryLimit_msg_def SpaceLimit_def SpaceLimit_msg_def PathNotFound_def PathNotFound_msg_def TxnNotPrepared_def TxnNotPrepared_msg_def IOFenced_def IOFenced_msg_def)

lemma st_code_errors [simp]:
  "st_code OK = kOk" "st_code (IOError m m2) = kIOError" "st_code NoSpace = kIOError"
  "st_code (NoSpace_msg m m2) = kIOError" "st_code (Corruption m m2) = kCorruption"
  "st_code (NotFound m m2) = kNotFound" "st_code (NotSupported m m2) = kNotSupported"
  "st_code (InvalidArgument m m2) = kInvalidArgument" "st_code (Aborted m m2) = kAborted"
  "st_code (Busy m m2) = kBusy"
  by (simp_all add: OK_def IOError_def NoSpace_def NoSpace_msg_def Corruption_def NotFound_def
      NotSupported_def InvalidArgument_def Aborted_def Busy_def)

text \<open>
  A comparison with \<open>NoSpace()\<close> by \<open>operator==\<close> cannot tell "out of space" from any other
  I/O error, while \<open>IsNoSpace\<close> can.
\<close>

lemma status_eq_NoSpace: "status_eq s NoSpace = IsIOError s"
  by (simp add: status_eq_def IsIOError_def)

lemma status_eq_equivp: "equivp status_eq"
  by (rule equivpI) (auto simp: reflp_def symp_def transp_def status_eq_def)

lemma c_str_idem [simp]: "c_str (c_str b) = c_str b"
  unfolding c_str_def by (induction b) (auto dest: set_takeWhileD)

lemma ToString_copy: "ToString (status_copy s) = ToString s"
  by (simp add: ToString_def status_copy_def CopyState_def split: option.splits)

end
