(* ===== verification/Backend.thy ===== *)
theory Backend
  imports Status
begin

text \<open>
  The zoned-device interface of \<open>fs/zbd_aquafs.h\<close> (class \<open>ZonedBlockDeviceBackend\<close>) and its
  implementation for real devices, \<open>ZbdlibBackend\<close> (\<open>fs/zbdlib_aquafs.h\<close>, \<open>.cc\<close>).

  A backend is a record of operations over a state \<open>'b\<close>, the fields of the C++ object together
  with the device behind it; every operation that changes the object or the device returns the
  new state.  Integers the C++ interface calls \<open>int\<close> are integers here, with the narrowing of a
  wider result written out.

  \<open>ZbdlibBackend\<close> calls libzbd and the kernel (\<open>zbd_open\<close>, \<open>zbd_reset_zones\<close>, \<open>pread\<close>,
  \<open>pwrite\<close>, ...), which are not part of the repository: they are the record parameter
  \<open>'d libzbd\<close>.  What the file system relies on of them is the locale \<open>libzbd_contract\<close>, the
  documented behaviour of \<open>pread\<close> and \<open>pwrite\<close>; from it follows the locale \<open>data_device\<close>, the
  contract that every layer above uses.  A simulated zoned device instantiates the parameter.
\<close>

subsection \<open>Zone descriptors\<close>

datatype zone_cond =
    COND_NOT_WP | COND_EMPTY | COND_IMP_OPEN | COND_EXP_OPEN | COND_CLOSED | COND_READONLY
  | COND_FULL | COND_OFFLINE

datatype zone_type = TYPE_CNV | TYPE_SWR | TYPE_SWP

record zbd_zone =
  z_start :: u64
  z_len :: u64
  z_capacity :: u64
  z_wp :: u64
  z_flags :: u32
  z_type :: zone_type
  z_cond :: zone_cond

type_synonym ZoneList = "zbd_zone list"

text \<open>The descriptor of a zone list's element; the C++ code indexes a raw array, and an index
  out of range (which the callers never use) reads an arbitrary descriptor.\<close>

definition zone_at :: "ZoneList \<Rightarrow> nat \<Rightarrow> zbd_zone" where
  "zone_at zones idx = zones ! idx"

subsection \<open>The backend interface\<close>

text \<open>The zone queries take the zone list and the object: a RAID backend answers them by asking
  its members again.\<close>

record 'b backend =
  be_Open :: "bool \<Rightarrow> bool \<Rightarrow> 'b \<Rightarrow> (status \<times> u32 \<times> u32) \<times> 'b"
  be_ListZones :: "'b \<Rightarrow> ZoneList option"
  be_Reset :: "u64 \<Rightarrow> 'b \<Rightarrow> (status \<times> bool \<times> u64) \<times> 'b"
  be_Finish :: "u64 \<Rightarrow> 'b \<Rightarrow> status \<times> 'b"
  be_Close :: "u64 \<Rightarrow> 'b \<Rightarrow> status \<times> 'b"
  be_Read :: "int \<Rightarrow> u64 \<Rightarrow> bool \<Rightarrow> 'b \<Rightarrow> (int \<times> bytes) \<times> 'b"
  be_Write :: "bytes \<Rightarrow> u64 \<Rightarrow> 'b \<Rightarrow> int \<times> 'b"
  be_InvalidateCache :: "u64 \<Rightarrow> u64 \<Rightarrow> 'b \<Rightarrow> int \<times> 'b"
  be_ZoneIsSwr :: "ZoneList \<Rightarrow> nat \<Rightarrow> 'b \<Rightarrow> bool"
  be_ZoneIsOffline :: "ZoneList \<Rightarrow> nat \<Rightarrow> 'b \<Rightarrow> bool"
  be_ZoneIsWritable :: "ZoneList \<Rightarrow> nat \<Rightarrow> 'b \<Rightarrow> bool"
  be_ZoneIsActive :: "ZoneList \<Rightarrow> nat \<Rightarrow> 'b \<Rightarrow> bool"
  be_ZoneIsOpen :: "ZoneList \<Rightarrow> nat \<Rightarrow> 'b \<Rightarrow> bool"
  be_ZoneStart :: "ZoneList \<Rightarrow> nat \<Rightarrow> 'b \<Rightarrow> u64"
  be_ZoneMaxCapacity :: "ZoneList \<Rightarrow> nat \<Rightarrow> 'b \<Rightarrow> u64"
  be_ZoneWp :: "ZoneList \<Rightarrow> nat \<Rightarrow> 'b \<Rightarrow> u64"
  be_GetFilename :: "'b \<Rightarrow> bytes"
  be_block_sz :: "'b \<Rightarrow> u32"
  be_zone_sz :: "'b \<Rightarrow> u64"
  be_nr_zones :: "'b \<Rightarrow> u32"
  be_IsRAIDEnabled :: bool
  be_setZoneOffline :: "u32 \<Rightarrow> u32 \<Rightarrow> bool \<Rightarrow> 'b \<Rightarrow> 'b"
  be_errno :: "'b \<Rightarrow> int"
  be_strerror :: "int \<Rightarrow> bytes"

subsection \<open>libzbd and the system calls\<close>

datatype open_flags = O_RDONLY_EXCL | O_RDONLY | O_RDONLY_DIRECT | O_WRONLY_DIRECT

record zbd_info =
  zi_host_managed :: bool
  zi_pblock_size :: u32
  zi_zone_size :: u64
  zi_nr_zones :: u32
  zi_max_nr_active_zones :: u32
  zi_max_nr_open_zones :: u32

record 'd libzbd =
  lz_open :: "bytes \<Rightarrow> open_flags \<Rightarrow> 'd \<Rightarrow> (int \<times> zbd_info) \<times> 'd"
  lz_list_zones :: "int \<Rightarrow> u64 \<Rightarrow> u64 \<Rightarrow> 'd \<Rightarrow> int \<times> ZoneList"
  lz_report_zones :: "int \<Rightarrow> u64 \<Rightarrow> u64 \<Rightarrow> 'd \<Rightarrow> int \<times> ZoneList"
  lz_reset_zones :: "int \<Rightarrow> u64 \<Rightarrow> u64 \<Rightarrow> 'd \<Rightarrow> int \<times> 'd"
  lz_finish_zones :: "int \<Rightarrow> u64 \<Rightarrow> u64 \<Rightarrow> 'd \<Rightarrow> int \<times> 'd"
  lz_close_zones :: "int \<Rightarrow> u64 \<Rightarrow> u64 \<Rightarrow> 'd \<Rightarrow> int \<times> 'd"
  lz_pread :: "int \<Rightarrow> int \<Rightarrow> u64 \<Rightarrow> 'd \<Rightarrow> (int \<times> bytes) \<times> 'd"
  lz_pwrite :: "int \<Rightarrow> bytes \<Rightarrow> u64 \<Rightarrow> 'd \<Rightarrow> int \<times> 'd"
  lz_fadvise_dontneed :: "int \<Rightarrow> u64 \<Rightarrow> u64 \<Rightarrow> 'd \<Rightarrow> int \<times> 'd"
  lz_scheduler :: "bytes \<Rightarrow> 'd \<Rightarrow> bytes option"
  lz_errno :: "'d \<Rightarrow> int"
  lz_strerror :: "int \<Rightarrow> bytes"

text \<open>A \<open>ssize_t\<close> returned through an \<open>int\<close>.\<close>

definition to_int32 :: "int \<Rightarrow> int" where
  "to_int32 r = sint (word_of_int r :: 32 word)"

lemma to_int32_id: "- (2 ^ 31) \<le> r \<Longrightarrow> r < 2 ^ 31 \<Longrightarrow> to_int32 r = r"
  by (simp add: to_int32_def sint_sbintrunc' signed_take_bit_int_eq_self)

lemma to_int32_nat: "k < 2 ^ 31 \<Longrightarrow> to_int32 (int k) = int k"
  by (rule to_int32_id) simp_all

subsection \<open>\<open>ZbdlibBackend\<close>\<close>

record 'd zbdlib =
  zl_filename :: bytes
  zl_read_f :: int
  zl_read_direct_f :: int
  zl_write_f :: int
  zl_block_sz :: u32
  zl_zone_sz :: u64
  zl_nr_zones :: u32
  zl_sim_offline :: "u32 list"
  zl_dev :: 'd

definition ZbdlibBackend :: "bytes \<Rightarrow> 'd \<Rightarrow> 'd zbdlib" where
  "ZbdlibBackend bdevname d = \<lparr> zl_filename = str ''/dev/'' @ bdevname, zl_read_f = -1,
     zl_read_direct_f = -1, zl_write_f = -1, zl_block_sz = 0, zl_zone_sz = 0, zl_nr_zones = 0,
     zl_sim_offline = [], zl_dev = d \<rparr>"

fun contains_substring :: "bytes \<Rightarrow> bytes \<Rightarrow> bool" where
  "contains_substring [] pat = (pat = [])"
| "contains_substring (b # bs) pat =
     (take (length pat) (b # bs) = pat \<or> contains_substring bs pat)"

definition CheckScheduler :: "'d libzbd \<Rightarrow> 'd zbdlib \<Rightarrow> status" where
  "CheckScheduler lz b =
     (let path = str ''/sys/block/'' @ drop 5 (zl_filename b) @ str ''/queue/scheduler'' in
      case lz_scheduler lz path (zl_dev b) of
        None \<Rightarrow> InvalidArgument (str ''Failed to open '' @ path) []
      | Some buf \<Rightarrow>
          if \<not> contains_substring buf (str ''[mq-deadline]'')
          then InvalidArgument
            (str ''Current ZBD scheduler is not mq-deadline, set it to mq-deadline.'') []
          else OK)"

definition zbdlib_open_error :: "'d libzbd \<Rightarrow> string \<Rightarrow> 'd \<Rightarrow> status" where
  "zbdlib_open_error lz what d =
     InvalidArgument (str ''Failed to open zoned block device for '' @ str what @ str '': ''
       @ lz_strerror lz (lz_errno lz d)) []"

text \<open>The part of \<open>Open\<close> after the file descriptors: check the model and the scheduler, then
  read the geometry.\<close>

definition zbdlib_Open_info ::
  "'d libzbd \<Rightarrow> zbd_info \<Rightarrow> 'd zbdlib \<Rightarrow> (status \<times> u32 \<times> u32) \<times> 'd zbdlib" where
  "zbdlib_Open_info lz info b =
     (if \<not> zi_host_managed info
      then ((NotSupported (str ''Not a host managed block device'') [], 0, 0), b)
      else let ios = CheckScheduler lz b in
        if status_neq ios OK then ((ios, 0, 0), b)
        else ((OK, zi_max_nr_active_zones info, zi_max_nr_open_zones info),
              b\<lparr> zl_block_sz := zi_pblock_size info, zl_zone_sz := zi_zone_size info,
                 zl_nr_zones := zi_nr_zones info \<rparr>))"

definition zbdlib_Open ::
  "'d libzbd \<Rightarrow> bool \<Rightarrow> bool \<Rightarrow> 'd zbdlib \<Rightarrow> (status \<times> u32 \<times> u32) \<times> 'd zbdlib" where
  "zbdlib_Open lz readonly exclusive b =
     (let ((fd, info), d) = lz_open lz (zl_filename b)
            (if exclusive then O_RDONLY_EXCL else O_RDONLY) (zl_dev b);
          b = b\<lparr> zl_read_f := fd, zl_dev := d \<rparr> in
      if fd < 0 then ((zbdlib_open_error lz ''read'' d, 0, 0), b)
      else let ((fd, info), d) = lz_open lz (zl_filename b) O_RDONLY_DIRECT (zl_dev b);
               b = b\<lparr> zl_read_direct_f := fd, zl_dev := d \<rparr> in
        if fd < 0 then ((zbdlib_open_error lz ''direct read'' d, 0, 0), b)
        else if readonly then zbdlib_Open_info lz info (b\<lparr> zl_write_f := -1 \<rparr>)
        else let ((fd, info), d) = lz_open lz (zl_filename b) O_WRONLY_DIRECT (zl_dev b);
                 b = b\<lparr> zl_write_f := fd, zl_dev := d \<rparr> in
          if fd < 0 then ((zbdlib_open_error lz ''write'' d, 0, 0), b)
          else zbdlib_Open_info lz info b)"

text \<open>\<open>ListZones\<close> marks the zones simulated as offline.\<close>

definition mark_offline :: "u32 \<Rightarrow> u32 \<Rightarrow> ZoneList \<Rightarrow> ZoneList" where
  "mark_offline nr_zones idx zones =
     (if idx < nr_zones then zones[unat idx := (zones ! unat idx)\<lparr> z_cond := COND_OFFLINE \<rparr>]
      else zones)"

definition zbdlib_ListZones :: "'d libzbd \<Rightarrow> 'd zbdlib \<Rightarrow> ZoneList option" where
  "zbdlib_ListZones lz b =
     (let (ret, zones) = lz_list_zones lz (zl_read_f b) 0 (zl_zone_sz b * ucast (zl_nr_zones b))
            (zl_dev b) in
      if ret \<noteq> 0 then None
      else Some (fold (mark_offline (zl_nr_zones b)) (zl_sim_offline b) zones))"

definition zbdlib_Reset ::
  "'d libzbd \<Rightarrow> u64 \<Rightarrow> 'd zbdlib \<Rightarrow> (status \<times> bool \<times> u64) \<times> 'd zbdlib" where
  "zbdlib_Reset lz start b =
     (let (ret, d) = lz_reset_zones lz (zl_write_f b) start (zl_zone_sz b) (zl_dev b);
          b = b\<lparr> zl_dev := d \<rparr> in
      if ret \<noteq> 0 then ((IOError (str ''Zone reset failed'' @ [10]) [], False, 0), b)
      else let (ret, zs) = lz_report_zones lz (zl_read_f b) start (zl_zone_sz b) d in
        if ret \<noteq> 0 \<or> length zs \<noteq> 1
        then ((IOError (str ''Zone report failed'' @ [10]) [], False, 0), b)
        else if z_cond (hd zs) = COND_OFFLINE then ((OK, True, 0), b)
        else ((OK, False, z_capacity (hd zs)), b))"

definition zbdlib_Finish :: "'d libzbd \<Rightarrow> u64 \<Rightarrow> 'd zbdlib \<Rightarrow> status \<times> 'd zbdlib" where
  "zbdlib_Finish lz start b =
     (let (ret, d) = lz_finish_zones lz (zl_write_f b) start (zl_zone_sz b) (zl_dev b) in
      (if ret \<noteq> 0 then IOError (str ''Zone finish failed'' @ [10]) [] else OK,
       b\<lparr> zl_dev := d \<rparr>))"

definition zbdlib_Close :: "'d libzbd \<Rightarrow> u64 \<Rightarrow> 'd zbdlib \<Rightarrow> status \<times> 'd zbdlib" where
  "zbdlib_Close lz start b =
     (let (ret, d) = lz_close_zones lz (zl_write_f b) start (zl_zone_sz b) (zl_dev b) in
      (if ret \<noteq> 0 then IOError (str ''Zone close failed'' @ [10]) [] else OK,
       b\<lparr> zl_dev := d \<rparr>))"

definition zbdlib_InvalidateCache ::
  "'d libzbd \<Rightarrow> u64 \<Rightarrow> u64 \<Rightarrow> 'd zbdlib \<Rightarrow> int \<times> 'd zbdlib" where
  "zbdlib_InvalidateCache lz pos sz b =
     (let (ret, d) = lz_fadvise_dontneed lz (zl_read_f b) pos sz (zl_dev b) in
      (ret, b\<lparr> zl_dev := d \<rparr>))"

definition zbdlib_Read ::
  "'d libzbd \<Rightarrow> int \<Rightarrow> u64 \<Rightarrow> bool \<Rightarrow> 'd zbdlib \<Rightarrow> (int \<times> bytes) \<times> 'd zbdlib" where
  "zbdlib_Read lz sz pos direct b =
     (let ((r, bs), d) = lz_pread lz (if direct then zl_read_direct_f b else zl_read_f b)
            sz pos (zl_dev b) in
      ((to_int32 r, bs), b\<lparr> zl_dev := d \<rparr>))"

definition zbdlib_Write :: "'d libzbd \<Rightarrow> bytes \<Rightarrow> u64 \<Rightarrow> 'd zbdlib \<Rightarrow> int \<times> 'd zbdlib" where
  "zbdlib_Write lz data pos b =
     (let (r, d) = lz_pwrite lz (zl_write_f b) data pos (zl_dev b) in
      (to_int32 r, b\<lparr> zl_dev := d \<rparr>))"

text \<open>The base class's \<open>setZoneOffline\<close>: the zone is closed when it is taken offline, and the
  status of that close is dropped.\<close>

definition zbdlib_setZoneOffline ::
  "'d libzbd \<Rightarrow> u32 \<Rightarrow> u32 \<Rightarrow> bool \<Rightarrow> 'd zbdlib \<Rightarrow> 'd zbdlib" where
  "zbdlib_setZoneOffline lz idx idx2 offline b =
     (if offline
      then snd (zbdlib_Close lz (ucast idx * zl_zone_sz b)
             (b\<lparr> zl_sim_offline := List.insert idx (zl_sim_offline b) \<rparr>))
      else b\<lparr> zl_sim_offline := removeAll idx (zl_sim_offline b) \<rparr>)"

definition ZoneIsSwr :: "ZoneList \<Rightarrow> nat \<Rightarrow> bool" where
  "ZoneIsSwr zones idx = (z_type (zone_at zones idx) = TYPE_SWR)"

definition ZoneIsOffline :: "ZoneList \<Rightarrow> nat \<Rightarrow> bool" where
  "ZoneIsOffline zones idx = (z_cond (zone_at zones idx) = COND_OFFLINE)"

definition ZoneIsWritable :: "ZoneList \<Rightarrow> nat \<Rightarrow> bool" where
  "ZoneIsWritable zones idx = (\<not> (z_cond (zone_at zones idx) = COND_FULL
     \<or> z_cond (zone_at zones idx) = COND_OFFLINE \<or> z_cond (zone_at zones idx) = COND_READONLY))"

definition ZoneIsActive :: "ZoneList \<Rightarrow> nat \<Rightarrow> bool" where
  "ZoneIsActive zones idx = (z_cond (zone_at zones idx) = COND_IMP_OPEN
     \<or> z_cond (zone_at zones idx) = COND_EXP_OPEN \<or> z_cond (zone_at zones idx) = COND_CLOSED)"

definition ZoneIsOpen :: "ZoneList \<Rightarrow> nat \<Rightarrow> bool" where
  "ZoneIsOpen zones idx = (z_cond (zone_at zones idx) = COND_IMP_OPEN
     \<or> z_cond (zone_at zones idx) = COND_EXP_OPEN)"

definition ZoneStart :: "ZoneList \<Rightarrow> nat \<Rightarrow> u64" where
  "ZoneStart zones idx = z_start (zone_at zones idx)"

definition ZoneMaxCapacity :: "ZoneList \<Rightarrow> nat \<Rightarrow> u64" where
  "ZoneMaxCapacity zones idx = z_capacity (zone_at zones idx)"

definition ZoneWp :: "ZoneList \<Rightarrow> nat \<Rightarrow> u64" where
  "ZoneWp zones idx = z_wp (zone_at zones idx)"

definition zbdlib_backend :: "'d libzbd \<Rightarrow> 'd zbdlib backend" where
  "zbdlib_backend lz = \<lparr> be_Open = zbdlib_Open lz, be_ListZones = zbdlib_ListZones lz,
     be_Reset = zbdlib_Reset lz, be_Finish = zbdlib_Finish lz, be_Close = zbdlib_Close lz,
     be_Read = zbdlib_Read lz, be_Write = zbdlib_Write lz,
     be_InvalidateCache = zbdlib_InvalidateCache lz,
     be_ZoneIsSwr = (\<lambda>zones i b. ZoneIsSwr zones i),
     be_ZoneIsOffline = (\<lambda>zones i b. ZoneIsOffline zones i),
     be_ZoneIsWritable = (\<lambda>zones i b. ZoneIsWritable zones i),
     be_ZoneIsActive = (\<lambda>zones i b. ZoneIsActive zones i),
     be_ZoneIsOpen = (\<lambda>zones i b. ZoneIsOpen zones i),
     be_ZoneStart = (\<lambda>zones i b. ZoneStart zones i),
     be_ZoneMaxCapacity = (\<lambda>zones i b. ZoneMaxCapacity zones i),
     be_ZoneWp = (\<lambda>zones i b. ZoneWp zones i),
     be_GetFilename = zl_filename, be_block_sz = zl_block_sz, be_zone_sz = zl_zone_sz, be_nr_zones = zl_nr_zones,
     be_IsRAIDEnabled = False, be_setZoneOffline = zbdlib_setZoneOffline lz,
     be_errno = (\<lambda>b. lz_errno lz (zl_dev b)), be_strerror = lz_strerror lz \<rparr>"

subsection \<open>Contracts\<close>

text \<open>
  The contract of a device that stores bytes: \<open>cont\<close> is the byte at every address.  A write that
  returns \<open>r \<ge> 0\<close> has stored the first \<open>r\<close> bytes of its buffer at \<open>pos\<close>; whatever it returns, no
  byte outside the range it was asked to write has changed.  A read that returns \<open>r \<ge> 0\<close> has
  delivered the \<open>r\<close> bytes at \<open>pos\<close> and changes nothing.  What is promised of the bytes holds of
  requests that do not run past the last 64-bit address.
\<close>

locale data_device =
  fixes be :: "'b backend"
    and cont :: "'b \<Rightarrow> nat \<Rightarrow> byte"
    and inv :: "'b \<Rightarrow> bool"
  assumes write_inv: "inv b \<Longrightarrow> inv (snd (be_Write be data pos b))"
    and write_result: "inv b \<Longrightarrow> fst (be_Write be data pos b) \<le> int (length data)"
    and write_frame: "inv b \<Longrightarrow> unat pos + length data < 2 ^ 64 \<Longrightarrow> a < unat pos \<or> unat pos + length data \<le> a
      \<Longrightarrow> cont (snd (be_Write be data pos b)) a = cont b a"
    and write_stored: "inv b \<Longrightarrow> unat pos + length data < 2 ^ 64 \<Longrightarrow> int i < fst (be_Write be data pos b)
      \<Longrightarrow> cont (snd (be_Write be data pos b)) (unat pos + i) = data ! i"
    and read_inv: "inv b \<Longrightarrow> inv (snd (be_Read be n pos direct b))"
    and read_cont: "inv b \<Longrightarrow> cont (snd (be_Read be n pos direct b)) = cont b"
    and read_result: "inv b \<Longrightarrow> 0 \<le> n \<Longrightarrow> fst (fst (be_Read be n pos direct b)) \<le> n"
    and read_data: "inv b \<Longrightarrow> 0 \<le> n \<Longrightarrow> unat pos + nat n < 2 ^ 64
      \<Longrightarrow> 0 \<le> fst (fst (be_Read be n pos direct b))
      \<Longrightarrow> snd (fst (be_Read be n pos direct b))
        = map (\<lambda>i. cont b (unat pos + i)) [0..<nat (fst (fst (be_Read be n pos direct b)))]"

lemma data_device_and:
  assumes "data_device be cont I"
    and "\<And>b data pos. I b \<Longrightarrow> J b \<Longrightarrow> J (snd (be_Write be data pos b))"
    and "\<And>b n pos direct. I b \<Longrightarrow> J b \<Longrightarrow> J (snd (be_Read be n pos direct b))"
  shows "data_device be cont (\<lambda>b. I b \<and> J b)"
  using assms by (auto simp: data_device_def)

text \<open>A device on which a write that returns success makes progress.\<close>

locale progress_device = data_device +
  assumes write_progress: "inv b \<Longrightarrow> data \<noteq> [] \<Longrightarrow> fst (be_Write be data pos b) \<noteq> 0"

text \<open>
  A zoned device: data, and zone management that keeps it.  A reset of a zone, named by its start,
  changes no byte outside the zone and reports a capacity that fits the zone; finishing and closing a zone change no byte;
  no operation changes the geometry.
\<close>

locale zoned_device = data_device +
  assumes reset_inv: "inv b \<Longrightarrow> inv (snd (be_Reset be pos b))"
    and reset_frame: "inv b \<Longrightarrow> unat (be_zone_sz be b) dvd unat pos \<Longrightarrow> a < unat pos \<or> unat pos + unat (be_zone_sz be b) \<le> a
      \<Longrightarrow> cont (snd (be_Reset be pos b)) a = cont b a"
    and reset_capacity: "inv b \<Longrightarrow> ok (fst (fst (be_Reset be pos b)))
      \<Longrightarrow> unat (snd (snd (fst (be_Reset be pos b)))) \<le> unat (be_zone_sz be b)"
    and finish_inv: "inv b \<Longrightarrow> inv (snd (be_Finish be pos b))"
    and finish_cont: "inv b \<Longrightarrow> cont (snd (be_Finish be pos b)) = cont b"
    and close_inv: "inv b \<Longrightarrow> inv (snd (be_Close be pos b))"
    and close_cont: "inv b \<Longrightarrow> cont (snd (be_Close be pos b)) = cont b"
    and geometry: "be_zone_sz be (snd (be_Write be data pos b)) = be_zone_sz be b"
      "be_block_sz be (snd (be_Write be data pos b)) = be_block_sz be b"
      "be_zone_sz be (snd (be_Read be n pos direct b)) = be_zone_sz be b"
      "be_block_sz be (snd (be_Read be n pos direct b)) = be_block_sz be b"
      "be_zone_sz be (snd (be_Reset be pos b)) = be_zone_sz be b"
      "be_block_sz be (snd (be_Reset be pos b)) = be_block_sz be b"
      "be_zone_sz be (snd (be_Finish be pos b)) = be_zone_sz be b"
      "be_block_sz be (snd (be_Finish be pos b)) = be_block_sz be b"
      "be_zone_sz be (snd (be_Close be pos b)) = be_zone_sz be b"
      "be_block_sz be (snd (be_Close be pos b)) = be_block_sz be b"

text \<open>
  What the code relies on of \<open>pread\<close> and \<open>pwrite\<close>, as their manual pages state it: a transfer
  is never longer than asked for nor than 0x7ffff000 bytes.
\<close>

locale libzbd_contract =
  fixes lz :: "'d libzbd"
    and dcont :: "'d \<Rightarrow> nat \<Rightarrow> byte"
    and dinv :: "'d \<Rightarrow> bool"
  assumes pwrite_inv: "dinv d \<Longrightarrow> dinv (snd (lz_pwrite lz fd data pos d))"
    and pwrite_result: "dinv d \<Longrightarrow> - 1 \<le> fst (lz_pwrite lz fd data pos d)
      \<and> fst (lz_pwrite lz fd data pos d) \<le> min (int (length data)) 0x7ffff000"
    and pwrite_frame: "dinv d \<Longrightarrow> a < unat pos \<or> unat pos + length data \<le> a
      \<Longrightarrow> dcont (snd (lz_pwrite lz fd data pos d)) a = dcont d a"
    and pwrite_stored: "dinv d \<Longrightarrow> int i < fst (lz_pwrite lz fd data pos d)
      \<Longrightarrow> dcont (snd (lz_pwrite lz fd data pos d)) (unat pos + i) = data ! i"
    and pread_inv: "dinv d \<Longrightarrow> dinv (snd (lz_pread lz fd n pos d))"
    and pread_cont: "dinv d \<Longrightarrow> dcont (snd (lz_pread lz fd n pos d)) = dcont d"
    and pread_result: "dinv d \<Longrightarrow> - 1 \<le> fst (fst (lz_pread lz fd n pos d))
      \<and> fst (fst (lz_pread lz fd n pos d)) \<le> 0x7ffff000
      \<and> (0 \<le> n \<longrightarrow> fst (fst (lz_pread lz fd n pos d)) \<le> n)"
    and pread_data: "dinv d \<Longrightarrow> 0 \<le> fst (fst (lz_pread lz fd n pos d))
      \<Longrightarrow> snd (fst (lz_pread lz fd n pos d))
        = map (\<lambda>i. dcont d (unat pos + i)) [0..<nat (fst (fst (lz_pread lz fd n pos d)))]"
begin

lemma write_int32: "dinv d \<Longrightarrow> to_int32 (fst (lz_pwrite lz fd data pos d)) = fst (lz_pwrite lz fd data pos d)"
  using pwrite_result [of d fd data pos] by (intro to_int32_id) auto

lemma read_int32:
  "dinv d \<Longrightarrow> to_int32 (fst (fst (lz_pread lz fd n pos d))) = fst (fst (lz_pread lz fd n pos d))"
  using pread_result [of d fd n pos] by (intro to_int32_id) auto

end

sublocale libzbd_contract \<subseteq> data_device "zbdlib_backend lz" "\<lambda>b. dcont (zl_dev b)" "\<lambda>b. dinv (zl_dev b)"
proof
  fix b :: "'d zbdlib" and data :: bytes and pos :: u64
  assume b: "dinv (zl_dev b)"
  show "dinv (zl_dev (snd (be_Write (zbdlib_backend lz) data pos b)))"
    using pwrite_inv [OF b] by (simp add: zbdlib_backend_def zbdlib_Write_def split_beta)
  show "fst (be_Write (zbdlib_backend lz) data pos b) \<le> int (length data)"
    using pwrite_result [OF b] write_int32 [OF b]
    by (auto simp: zbdlib_backend_def zbdlib_Write_def split_beta)
next
  fix b :: "'d zbdlib" and a :: nat and pos :: u64 and data :: bytes
  assume b: "dinv (zl_dev b)" and a: "a < unat pos \<or> unat pos + length data \<le> a"
  show "dcont (zl_dev (snd (be_Write (zbdlib_backend lz) data pos b))) a = dcont (zl_dev b) a"
    using pwrite_frame [OF b a] by (simp add: zbdlib_backend_def zbdlib_Write_def split_beta)
next
  fix b :: "'d zbdlib" and i :: nat and pos :: u64 and data :: bytes
  assume b: "dinv (zl_dev b)" and i: "int i < fst (be_Write (zbdlib_backend lz) data pos b)"
  show "dcont (zl_dev (snd (be_Write (zbdlib_backend lz) data pos b))) (unat pos + i) = data ! i"
    using pwrite_stored [OF b] i write_int32 [OF b]
    by (simp add: zbdlib_backend_def zbdlib_Write_def split_beta)
next
  fix b :: "'d zbdlib" and n :: int and pos :: u64 and direct :: bool
  assume b: "dinv (zl_dev b)"
  show "dinv (zl_dev (snd (be_Read (zbdlib_backend lz) n pos direct b)))"
    using pread_inv [OF b] by (simp add: zbdlib_backend_def zbdlib_Read_def split_beta)
  show "dcont (zl_dev (snd (be_Read (zbdlib_backend lz) n pos direct b))) = dcont (zl_dev b)"
    using pread_cont [OF b] by (simp add: zbdlib_backend_def zbdlib_Read_def split_beta)
  show "fst (fst (be_Read (zbdlib_backend lz) n pos direct b)) \<le> n" if "0 \<le> n"
    using pread_result [OF b] read_int32 [OF b] that
    by (simp add: zbdlib_backend_def zbdlib_Read_def split_beta)
  show "snd (fst (be_Read (zbdlib_backend lz) n pos direct b)) = map (\<lambda>i. dcont (zl_dev b) (unat pos + i))
      [0..<nat (fst (fst (be_Read (zbdlib_backend lz) n pos direct b)))]"
    if "0 \<le> fst (fst (be_Read (zbdlib_backend lz) n pos direct b))"
    using pread_data [OF b] read_int32 [OF b] that
    by (simp add: zbdlib_backend_def zbdlib_Read_def split_beta)
qed

subsection \<open>A simulated zoned device\<close>

text \<open>
  An instance of the parameter: a device whose zones must be written sequentially, one write at
  the write pointer at a time, of at most 0x7ffff000 bytes.
\<close>

record simdev =
  sd_zones :: ZoneList
  sd_mem :: "nat \<Rightarrow> byte"
  sd_block :: u32
  sd_zone_size :: u64

definition sim_info :: "simdev \<Rightarrow> zbd_info" where
  "sim_info d = \<lparr> zi_host_managed = True, zi_pblock_size = sd_block d,
     zi_zone_size = sd_zone_size d, zi_nr_zones = of_nat (length (sd_zones d)),
     zi_max_nr_active_zones = 14, zi_max_nr_open_zones = 14 \<rparr>"

definition sim_idx :: "simdev \<Rightarrow> u64 \<Rightarrow> nat" where
  "sim_idx d pos = unat (pos div sd_zone_size d)"

definition store_bytes :: "nat \<Rightarrow> bytes \<Rightarrow> (nat \<Rightarrow> byte) \<Rightarrow> nat \<Rightarrow> byte" where
  "store_bytes pos data m a = (if pos \<le> a \<and> a < pos + length data then data ! (a - pos) else m a)"

definition sim_can_write :: "simdev \<Rightarrow> bytes \<Rightarrow> u64 \<Rightarrow> bool" where
  "sim_can_write d data pos =
     (let i = sim_idx d pos in
      i < length (sd_zones d) \<and> z_wp (sd_zones d ! i) = pos
      \<and> z_cond (sd_zones d ! i) \<notin> {COND_FULL, COND_OFFLINE, COND_READONLY}
      \<and> unat pos + length data \<le> unat (z_start (sd_zones d ! i)) + unat (z_capacity (sd_zones d ! i))
      \<and> int (length data) \<le> 0x7ffff000)"

definition sim_pwrite :: "int \<Rightarrow> bytes \<Rightarrow> u64 \<Rightarrow> simdev \<Rightarrow> int \<times> simdev" where
  "sim_pwrite fd data pos d =
     (if 0 \<le> fd \<and> sim_can_write d data pos
      then (int (length data),
            d\<lparr> sd_mem := store_bytes (unat pos) data (sd_mem d),
               sd_zones := (sd_zones d)[sim_idx d pos := (sd_zones d ! sim_idx d pos)
                 \<lparr> z_wp := pos + of_nat (length data), z_cond := COND_IMP_OPEN \<rparr>] \<rparr>)
      else (- 1, d))"

definition sim_pread :: "int \<Rightarrow> int \<Rightarrow> u64 \<Rightarrow> simdev \<Rightarrow> (int \<times> bytes) \<times> simdev" where
  "sim_pread fd n pos d =
     (if 0 \<le> fd \<and> 0 \<le> n \<and> n \<le> 0x7ffff000
      then ((n, map (\<lambda>i. sd_mem d (unat pos + i)) [0..<nat n]), d) else ((- 1, []), d))"

definition sim_set_zone :: "(zbd_zone \<Rightarrow> zbd_zone) \<Rightarrow> u64 \<Rightarrow> simdev \<Rightarrow> int \<times> simdev" where
  "sim_set_zone f pos d =
     (if sim_idx d pos < length (sd_zones d)
      then (0, d\<lparr> sd_zones := (sd_zones d)[sim_idx d pos := f (sd_zones d ! sim_idx d pos)] \<rparr>)
      else (- 1, d))"

definition sim_libzbd :: "simdev libzbd" where
  "sim_libzbd = \<lparr> lz_open = (\<lambda>name flags d. ((3, sim_info d), d)),
     lz_list_zones = (\<lambda>fd ofst len d. (0, sd_zones d)),
     lz_report_zones = (\<lambda>fd ofst len d. (0, take 1 (drop (sim_idx d ofst) (sd_zones d)))),
     lz_reset_zones = (\<lambda>fd ofst len d.
       sim_set_zone (\<lambda>z. z\<lparr> z_wp := z_start z, z_cond := COND_EMPTY \<rparr>) ofst d),
     lz_finish_zones = (\<lambda>fd ofst len d.
       sim_set_zone (\<lambda>z. z\<lparr> z_wp := z_start z + z_len z, z_cond := COND_FULL \<rparr>) ofst d),
     lz_close_zones = (\<lambda>fd ofst len d. sim_set_zone (\<lambda>z. z\<lparr> z_cond := COND_CLOSED \<rparr>) ofst d),
     lz_pread = sim_pread, lz_pwrite = sim_pwrite,
     lz_fadvise_dontneed = (\<lambda>fd pos n d. (0, d)),
     lz_scheduler = (\<lambda>path d. Some (str ''[mq-deadline] none'')),
     lz_errno = (\<lambda>d. 5), lz_strerror = (\<lambda>e. str ''Input/output error'') \<rparr>"

text \<open>A fresh device of \<open>n\<close> zones.\<close>

definition sim_zone :: "u64 \<Rightarrow> u64 \<Rightarrow> nat \<Rightarrow> zbd_zone" where
  "sim_zone zs cap i = \<lparr> z_start = of_nat i * zs, z_len = zs, z_capacity = cap,
     z_wp = of_nat i * zs, z_flags = 0, z_type = TYPE_SWR, z_cond = COND_EMPTY \<rparr>"

definition sim_new :: "nat \<Rightarrow> u64 \<Rightarrow> u64 \<Rightarrow> u32 \<Rightarrow> simdev" where
  "sim_new n zs cap bs = \<lparr> sd_zones = map (sim_zone zs cap) [0..<n], sd_mem = (\<lambda>_. 0),
     sd_block = bs, sd_zone_size = zs \<rparr>"

interpretation sim: libzbd_contract sim_libzbd sd_mem "\<lambda>_. True"
proof (unfold_locales, goal_cases)
  case (2 d fd data pos)
  then show ?case by (auto simp: sim_libzbd_def sim_pwrite_def sim_can_write_def Let_def)
next
  case (3 d a pos data fd)
  then show ?case by (auto simp: sim_libzbd_def sim_pwrite_def store_bytes_def)
next
  case (4 d i fd data pos)
  then show ?case by (auto simp: sim_libzbd_def sim_pwrite_def store_bytes_def split: if_splits)
next
  case (7 d fd n pos)
  then show ?case by (auto simp: sim_libzbd_def sim_pread_def)
next
  case (8 d fd n pos)
  then show ?case by (auto simp: sim_libzbd_def sim_pread_def split: if_splits)
qed (auto simp: sim_libzbd_def sim_pread_def)

interpretation sim_progress: progress_device "zbdlib_backend sim_libzbd"
  "\<lambda>b. sd_mem (zl_dev b)" "\<lambda>b. True"
  by unfold_locales (auto simp: zbdlib_backend_def zbdlib_Write_def sim_libzbd_def sim_pwrite_def
      sim_can_write_def to_int32_id Let_def)

text \<open>On the simulated device every zone has a capacity of at most the zone size.\<close>

definition sim_ok :: "simdev zbdlib \<Rightarrow> bool" where
  "sim_ok b = (\<forall>z\<in>set (sd_zones (zl_dev b)). unat (z_capacity z) \<le> unat (zl_zone_sz b))"

lemma sim_ok_set_zone:
  assumes "\<And>z. z_capacity (f z) = z_capacity z" "sim_ok b"
  shows "sim_ok (b\<lparr> zl_dev := snd (sim_set_zone f pos (zl_dev b)) \<rparr>)"
  using assms by (auto simp: sim_ok_def sim_set_zone_def dest!: set_update_subset_insert [THEN subsetD])

lemma sim_ok_write: "sim_ok b \<Longrightarrow> sim_ok (snd (zbdlib_Write sim_libzbd data pos b))"
  by (auto simp: sim_ok_def zbdlib_Write_def sim_libzbd_def sim_pwrite_def sim_can_write_def Let_def
      dest!: set_update_subset_insert [THEN subsetD])

lemma hd_report: "length (take 1 (drop i xs)) = 1 \<Longrightarrow> hd (take 1 (drop i xs)) \<in> set xs"
proof (cases "drop i xs")
  case (Cons y ys)
  then have "y \<in> set xs" by (metis in_set_dropD list.set_intros(1))
  with Cons show ?thesis by simp
qed simp

lemmas sim_ops = zbdlib_backend_def zbdlib_Reset_def zbdlib_Finish_def zbdlib_Close_def
  zbdlib_Read_def sim_libzbd_def Let_def split_beta

interpretation sim_zoned: zoned_device "zbdlib_backend sim_libzbd" "\<lambda>b. sd_mem (zl_dev b)" sim_ok
proof (unfold_locales, goal_cases)
  case (1 b data pos)
  then show ?case by (simp add: zbdlib_backend_def sim_ok_write)
next
  case (9 b pos)
  have "sim_ok (b\<lparr> zl_dev := snd (sim_set_zone (\<lambda>z. z\<lparr> z_wp := z_start z, z_cond := COND_EMPTY \<rparr>) pos (zl_dev b)) \<rparr>)"
    by (rule sim_ok_set_zone [OF _ 9]) simp
  then show ?case by (simp add: sim_ops)
next
  case (11 b pos)
  let ?d = "snd (sim_set_zone (\<lambda>z. z\<lparr> z_wp := z_start z, z_cond := COND_EMPTY \<rparr>) pos (zl_dev b))"
  have "sim_ok (b\<lparr> zl_dev := ?d \<rparr>)"
    by (rule sim_ok_set_zone [OF _ 11(1)]) simp
  then have "unat (z_capacity (hd (take 1 (drop (sim_idx ?d pos) (sd_zones ?d))))) \<le> unat (zl_zone_sz b)"
    if "length (take 1 (drop (sim_idx ?d pos) (sd_zones ?d))) = 1"
    using hd_report [OF that] by (simp add: sim_ok_def)
  then show ?case by (auto simp: sim_ops)
next
  case (12 b pos)
  have "sim_ok (b\<lparr> zl_dev := snd (sim_set_zone (\<lambda>z. z\<lparr> z_wp := z_start z + z_len z, z_cond := COND_FULL \<rparr>) pos (zl_dev b)) \<rparr>)"
    by (rule sim_ok_set_zone [OF _ 12]) simp
  then show ?case by (simp add: sim_ops)
next
  case (14 b pos)
  have "sim_ok (b\<lparr> zl_dev := snd (sim_set_zone (\<lambda>z. z\<lparr> z_cond := COND_CLOSED \<rparr>) pos (zl_dev b)) \<rparr>)"
    by (rule sim_ok_set_zone [OF _ 14]) simp
  then show ?case by (simp add: sim_ops)
qed (use sim.write_result sim.write_frame sim.write_stored sim.read_cont sim.read_result sim.read_data in
    \<open>auto simp: sim_ops sim_set_zone_def sim_pread_def zbdlib_Write_def\<close>)

end
