(* ===== verification/Zone.thy ===== *)
theory Zone
  imports Backend
begin

text \<open>
  Class \<open>Zone\<close> of \<open>fs/zbd_aquafs.h\<close> and \<open>.cc\<close>: the fields of a zone, its state tests, the
  atomic \<open>busy\<close> flag and the operations that reach the device.  The two back pointers
  (\<open>zbd_\<close>, \<open>zbd_be_\<close>) are the backend argument and its state.  The append loop may call the
  device forever when a write keeps returning 0, so it is a partial function whose result is
  \<open>None\<close> when it does not return; that it returns on a device that makes progress is a theorem.
  Metrics and the debug-build assertions are not modelled; the asserted facts are lemmas.
\<close>

subsection \<open>The zone\<close>

record zone =
  busy :: bool
  start :: u64
  capacity :: u64
  max_capacity :: u64
  wp :: u64
  lifetime :: WriteLifeTimeHint
  used_capacity :: u64

definition new_Zone :: "'b backend \<Rightarrow> ZoneList \<Rightarrow> nat \<Rightarrow> 'b \<Rightarrow> zone" where
  "new_Zone be zones idx b =
     (let st = be_ZoneStart be zones idx b; mc = be_ZoneMaxCapacity be zones idx b;
          w = be_ZoneWp be zones idx b in
      \<lparr> busy = False, start = st,
        capacity = (if be_ZoneIsWritable be zones idx b then mc - (w - st) else 0),
        max_capacity = mc, wp = w, lifetime = WLTH_NOT_SET, used_capacity = 0 \<rparr>)"

definition IsUsed :: "zone \<Rightarrow> bool" where "IsUsed z = (used_capacity z > 0)"

definition GetCapacityLeft :: "zone \<Rightarrow> u64" where "GetCapacityLeft z = capacity z"

definition IsFull :: "zone \<Rightarrow> bool" where "IsFull z = (capacity z = 0)"

definition IsEmpty :: "zone \<Rightarrow> bool" where "IsEmpty z = (wp z = start z)"

definition GetZoneNr :: "u64 \<Rightarrow> zone \<Rightarrow> u64" where "GetZoneNr zone_sz z = start z div zone_sz"

subsection \<open>The busy flag\<close>

definition IsBusyZone :: "zone \<Rightarrow> bool" where "IsBusyZone z = busy z"

text \<open>\<open>compare_exchange_strong\<close>: whether the flag had the expected value, and the new flag.\<close>

definition Acquire :: "zone \<Rightarrow> bool \<times> zone" where
  "Acquire z = (if \<not> busy z then (True, z\<lparr> busy := True \<rparr>) else (False, z))"

definition Release :: "zone \<Rightarrow> bool \<times> zone" where
  "Release z = (if busy z then (True, z\<lparr> busy := False \<rparr>) else (False, z))"

fun digits :: "nat \<Rightarrow> string" where
  "digits n = (if n < 10 then [char_of (48 + n)] else digits (n div 10) @ [char_of (48 + n mod 10)])"

declare digits.simps [simp del]

definition to_string :: "nat \<Rightarrow> bytes" where "to_string n = str (digits n)"

definition CheckRelease :: "u64 \<Rightarrow> zone \<Rightarrow> status \<times> zone" where
  "CheckRelease zone_sz z =
     (let (r, z') = Release z in
      if \<not> r then (Corruption (str ''Failed to unset busy flag of zone ''
                     @ to_string (unat (GetZoneNr zone_sz z))) [], z')
      else (OK, z'))"

subsection \<open>Device operations\<close>

definition Reset :: "'b backend \<Rightarrow> zone \<Rightarrow> 'b \<Rightarrow> status \<times> zone \<times> 'b" where
  "Reset be z b =
     (let ((ios, offline, mc), b') = be_Reset be (start z) b in
      if status_neq ios OK then (ios, z, b')
      else let z1 = (if offline then z\<lparr> capacity := 0 \<rparr>
                     else z\<lparr> max_capacity := mc, capacity := mc \<rparr>) in
        (OK, z1\<lparr> wp := start z, lifetime := WLTH_NOT_SET \<rparr>, b'))"

definition Finish :: "'b backend \<Rightarrow> zone \<Rightarrow> 'b \<Rightarrow> status \<times> zone \<times> 'b" where
  "Finish be z b =
     (let (ios, b') = be_Finish be (start z) b in
      if status_neq ios OK then (ios, z, b')
      else (OK, z\<lparr> capacity := 0, wp := start z + be_zone_sz be b' \<rparr>, b'))"

definition Close :: "'b backend \<Rightarrow> zone \<Rightarrow> 'b \<Rightarrow> status \<times> zone \<times> 'b" where
  "Close be z b =
     (if \<not> (IsEmpty z \<or> IsFull z)
      then let (ios, b') = be_Close be (start z) b in
        if status_neq ios OK then (ios, z, b') else (OK, z, b')
      else (OK, z, b))"

text \<open>
  The loop of \<open>Append\<close>: \<open>ptr\<close> is the rest of the buffer, \<open>left\<close> the bytes still to write,
  \<open>n\<close> the sum of the \<open>AddBytesWritten\<close> calls.  A negative result ends it with the text of \<open>errno\<close>.
\<close>

partial_function (option) append_loop ::
  "'b backend \<Rightarrow> bytes \<Rightarrow> u32 \<Rightarrow> zone \<Rightarrow> 'b \<Rightarrow> u64 \<Rightarrow> (status \<times> zone \<times> 'b \<times> u64) option" where
  "append_loop be ptr left z b n =
     (if left = 0 then Some (OK, z, b, n)
      else let (ret, b') = be_Write be (take (unat left) ptr) (wp z) b in
        if ret < 0 then Some (IOError (be_strerror be (be_errno be b')) [], z, b', n)
        else append_loop be (drop (nat ret) ptr) (left - word_of_int ret)
               (z\<lparr> wp := wp z + word_of_int ret, capacity := capacity z - word_of_int ret \<rparr>)
               b' (n + word_of_int ret))"

declare append_loop.simps [code]

text \<open>\<open>Append\<close> of a buffer whose length is the 32-bit size argument.\<close>

definition Append :: "'b backend \<Rightarrow> bytes \<Rightarrow> zone \<Rightarrow> 'b \<Rightarrow> (status \<times> zone \<times> 'b \<times> u64) option" where
  "Append be data z b =
     (let sz = (of_nat (length data) :: u32) in
      if capacity z < ucast sz
      then Some (NoSpace_msg (str ''Not enough capacity for append'') [], z, b, 0)
      else append_loop be data sz z b 0)"

subsection \<open>JSON\<close>

definition json_field :: "string \<Rightarrow> nat \<Rightarrow> bytes" where
  "json_field name n = str [CHR 0x22] @ str name @ str [CHR 0x22] @ str '':'' @ to_string n"

definition zone_EncodeJson :: "zone \<Rightarrow> bytes" where
  "zone_EncodeJson z =
     str ''{'' @ json_field ''start'' (unat (start z)) @ str '',''
     @ json_field ''capacity'' (unat (capacity z)) @ str '',''
     @ json_field ''max_capacity'' (unat (max_capacity z)) @ str '',''
     @ json_field ''wp'' (unat (wp z)) @ str '',''
     @ json_field ''lifetime'' (unat (lifetime z)) @ str '',''
     @ json_field ''used_capacity'' (unat (used_capacity z)) @ str ''}''"

subsection \<open>The zone invariant\<close>

text \<open>
  A zone of a device with zones of \<open>zs\<close> bytes: it does not reach past the address space, the
  write pointer lies in it, and a zone that is not full has exactly the capacity that is left
  between the write pointer and its maximal capacity.
\<close>

definition zone_ok :: "u64 \<Rightarrow> zone \<Rightarrow> bool" where
  "zone_ok zs z = (unat (start z) + unat zs < 2 ^ 64
     \<and> unat (start z) \<le> unat (wp z) \<and> unat (wp z) \<le> unat (start z) + unat zs
     \<and> unat (max_capacity z) \<le> unat zs
     \<and> (capacity z = 0 \<or> unat (wp z) + unat (capacity z) = unat (start z) + unat (max_capacity z)))"

lemma zone_ok_room: "zone_ok zs z \<Longrightarrow> unat (wp z) + unat (capacity z) < 2 ^ 64"
  by (auto simp: zone_ok_def)

definition advance :: "nat \<Rightarrow> zone \<Rightarrow> zone" where
  "advance k z = z\<lparr> wp := wp z + of_nat k, capacity := capacity z - of_nat k \<rparr>"

lemma advance_simps [simp]:
  "start (advance k z) = start z" "max_capacity (advance k z) = max_capacity z"
  "busy (advance k z) = busy z" "lifetime (advance k z) = lifetime z"
  "used_capacity (advance k z) = used_capacity z"
  "wp (advance k z) = wp z + of_nat k" "capacity (advance k z) = capacity z - of_nat k"
  by (simp_all add: advance_def)

lemma advance_0 [simp]: "advance 0 z = z"
  by (simp add: advance_def)

lemma advance_advance: "advance i (advance j z) = advance (j + i) z"
  by (simp add: advance_def algebra_simps)

lemma advance_word:
  "0 \<le> r \<Longrightarrow> z\<lparr> wp := wp z + word_of_int r, capacity := capacity z - word_of_int r \<rparr> = advance (nat r) z"
  by (simp add: advance_def)

lemma unat_advance:
  assumes "k \<le> unat (capacity z)" "unat (wp z) + unat (capacity z) < 2 ^ 64"
  shows "unat (wp (advance k z)) = unat (wp z) + k"
    "unat (capacity (advance k z)) = unat (capacity z) - k"
proof -
  have k: "unat (of_nat k :: u64) = k"
    using assms unat_lt [of "capacity z"] by (intro unat_of_nat_small) simp
  then show "unat (wp (advance k z)) = unat (wp z) + k"
    using assms by (simp add: unat_add_no_wrap)
  show "unat (capacity (advance k z)) = unat (capacity z) - k"
    using assms k by (simp add: unat_sub_no_wrap)
qed

lemma zone_ok_advance:
  assumes "zone_ok zs z" "k \<le> unat (capacity z)"
  shows "zone_ok zs (advance k z)"
proof (cases "capacity z = 0")
  case False
  then have "unat (wp z) + unat (capacity z) = unat (start z) + unat (max_capacity z)"
    using assms(1) by (simp add: zone_ok_def)
  then show ?thesis
    using assms unat_advance [OF assms(2) zone_ok_room [OF assms(1)]]
    unfolding zone_ok_def by simp
qed (use assms in simp)

lemma unat_left_minus:
  fixes left :: u32
  assumes "0 \<le> r" "nat r \<le> unat left"
  shows "unat (left - word_of_int r) = unat left - nat r"
proof -
  have "nat r < 2 ^ LENGTH(32)" using assms(2) unat_lt [of left] by linarith
  then have "unat (word_of_int r :: u32) = nat r"
    using assms(1) by (simp only: word_of_int_nat unat_of_nat_small)
  then show ?thesis
    using assms(2) by (simp add: unat_sub_no_wrap)
qed

subsection \<open>Append on a data device\<close>

context data_device
begin

text \<open>What a run of the append loop does: it advances the zone by the \<open>k\<close> bytes the device
  accepted, which are the first \<open>k\<close> of the buffer, and touches nothing but the range asked for.\<close>

definition appended :: "bytes \<Rightarrow> nat \<Rightarrow> zone \<Rightarrow> 'b \<Rightarrow> u64 \<Rightarrow> status \<times> zone \<times> 'b \<times> u64 \<Rightarrow> bool" where
  "appended data len z b n r = (case r of (st, z', b', n') \<Rightarrow>
     inv b' \<and> (\<exists>k \<le> len. z' = advance k z \<and> n' = n + of_nat k \<and> (ok st \<longrightarrow> k = len)
       \<and> (\<forall>i < k. cont b' (unat (wp z) + i) = data ! i)
       \<and> (\<forall>a. a < unat (wp z) \<or> unat (wp z) + len \<le> a \<longrightarrow> cont b' a = cont b a)))"

lemma appended_step:
  assumes b: "inv b" and w: "be_Write be (take len data) (wp z) b = (ret, b')" "0 \<le> ret"
    and len: "length data = len"
    and room: "len \<le> unat (capacity z)" "unat (wp z) + unat (capacity z) < 2 ^ 64"
    and rest: "appended (drop (nat ret) data) (len - nat ret) (advance (nat ret) z) b'
      (n + of_nat (nat ret)) r"
  shows "appended data len z b n r"
proof -
  obtain st z' b'' n' where r: "r = (st, z', b'', n')" by (cases r) auto
  have d: "take len data = data" using len by simp
  have ret: "nat ret \<le> len"
    using write_result [OF b, of data "wp z"] w d len by simp
  have b': "inv b'" using write_inv [OF b, of data "wp z"] w d by simp
  have wp': "unat (wp (advance (nat ret) z)) = unat (wp z) + nat ret"
    using unat_advance ret room by (meson le_trans)
  obtain k where k: "k \<le> len - nat ret" "z' = advance k (advance (nat ret) z)"
    "n' = n + of_nat (nat ret) + of_nat k" "ok st \<longrightarrow> k = len - nat ret" "inv b''"
    and stored: "\<And>i. i < k \<Longrightarrow> cont b'' (unat (wp z) + nat ret + i) = drop (nat ret) data ! i"
    and frame: "\<And>a. a < unat (wp z) + nat ret \<or> unat (wp z) + nat ret + (len - nat ret) \<le> a
      \<Longrightarrow> cont b'' a = cont b' a"
    using rest unfolding appended_def r wp' by auto
  have "cont b'' (unat (wp z) + i) = data ! i" if i: "i < nat ret + k" for i
  proof (cases "i < nat ret")
    case True
    then have "cont b' (unat (wp z) + i) = data ! i"
      using write_stored [OF b, of "wp z" data i] w d len room by simp
    with True show ?thesis using frame by simp
  next
    case False
    with i stored [of "i - nat ret"] ret len show ?thesis by simp
  qed
  moreover have "cont b'' a = cont b a" if "a < unat (wp z) \<or> unat (wp z) + len \<le> a" for a
    using that frame [of a] ret write_frame [OF b, of "wp z" data a] w d len room by auto
  ultimately show ?thesis
    unfolding appended_def r using k ret
    by (auto simp: advance_advance algebra_simps intro!: exI [of _ "nat ret + k"])
qed

lemma append_loop_appended:
  assumes "append_loop be ptr left z b n = Some r"
    and "inv b" "length ptr = unat left" "unat left \<le> unat (capacity z)"
    and "unat (wp z) + unat (capacity z) < 2 ^ 64"
  shows "appended ptr (unat left) z b n r"
proof -
  let ?P = "\<lambda>be' ptr left z b n r. be' = be \<longrightarrow> inv b \<longrightarrow> length ptr = unat left
      \<longrightarrow> unat left \<le> unat (capacity z) \<longrightarrow> unat (wp z) + unat (capacity z) < 2 ^ 64
      \<longrightarrow> appended ptr (unat left) z b n r"
  have "?P be ptr left z b n r"
  proof (rule append_loop.raw_induct [where P = ?P, OF _ assms(1)], intro impI)
    fix loop be' ptr and left :: u32 and z b n r
    assume IH: "\<And>be' ptr left z b n r. loop be' ptr left z b n = Some r \<Longrightarrow> ?P be' ptr left z b n r"
      and body: "(if left = 0 then Some (OK, z, b, n)
        else let (ret, b') = be_Write be' (take (unat left) ptr) (wp z) b in
          if ret < 0 then Some (IOError (be_strerror be' (be_errno be' b')) [], z, b', n)
          else loop be' (drop (nat ret) ptr) (left - word_of_int ret)
            (z\<lparr> wp := wp z + word_of_int ret, capacity := capacity z - word_of_int ret \<rparr>)
            b' (n + word_of_int ret)) = Some r"
      and be: "be' = be" and b: "inv b" and len: "length ptr = unat left"
      and room: "unat left \<le> unat (capacity z)" "unat (wp z) + unat (capacity z) < 2 ^ 64"
    obtain ret b' where w: "be_Write be (take (unat left) ptr) (wp z) b = (ret, b')"
      by fastforce
    have w': "be_Write be ptr (wp z) b = (ret, b')" using w len by simp
    consider "left = 0" | "left \<noteq> 0" "ret < 0" | "left \<noteq> 0" "0 \<le> ret" by linarith
    then show "appended ptr (unat left) z b n r"
    proof cases
      case 1
      with body b show ?thesis by (auto simp: appended_def)
    next
      case 2
      then have "r = (IOError (be_strerror be (be_errno be b')) [], z, b', n)"
        using body w be by simp
      then show ?thesis
        using write_inv [OF b, of ptr "wp z"] write_frame [OF b, of "wp z" ptr] w' len room
        by (auto simp: appended_def)
    next
      case 3
      have le: "nat ret \<le> unat left"
        using write_result [OF b, of ptr "wp z"] w' len by (simp only: fst_conv nat_le_iff)
      have r_room: "nat ret \<le> unat (capacity z)" using le room by simp
      have left: "unat (left - word_of_int ret) = unat left - nat ret"
        by (rule unat_left_minus) (use 3 le in simp_all)
      have "loop be (drop (nat ret) ptr) (left - word_of_int ret) (advance (nat ret) z) b'
          (n + word_of_int ret) = Some r"
        using body w 3 be by (simp add: advance_word)
      from IH [OF this] have "appended (drop (nat ret) ptr) (unat left - nat ret)
          (advance (nat ret) z) b' (n + word_of_int ret) r"
        using left unat_advance [OF r_room room(2)] write_inv [OF b, of ptr "wp z"] w' len room r_room
        by (simp add: diff_le_mono)
      then show ?thesis
        using appended_step [OF b w] 3 len room by simp
    qed
  qed
  then show ?thesis using assms by blast
qed

lemma Append_cases:
  assumes "Append be data z b = Some r" "inv b" "zone_ok zs z" "length data < 2 ^ 32"
  shows "if unat (capacity z) < length data
    then r = (NoSpace_msg (str ''Not enough capacity for append'') [], z, b, 0)
    else appended data (length data) z b 0 r"
proof -
  have sz: "unat (of_nat (length data) :: u32) = length data"
    using assms(4) by (simp add: unat_of_nat_small)
  have "capacity z < ucast (of_nat (length data) :: u32) \<longleftrightarrow> unat (capacity z) < length data"
    by (simp add: word_less_nat_alt sz)
  then show ?thesis
    using assms append_loop_appended [of data "of_nat (length data)" z b 0 r] zone_ok_room
    by (auto simp: Append_def Let_def sz)
qed

lemma append_loop_not_NoSpace:
  assumes "append_loop be' ptr left z b n = Some r"
  shows "\<not> IsNoSpace (fst r)"
  using assms
proof (rule append_loop.raw_induct [where P = "\<lambda>_ _ _ _ _ _ r. \<not> IsNoSpace (fst r)", rotated])
qed (auto simp: IsNoSpace_def OK_def IOError_def Let_def split: if_splits prod.splits)

lemma Append_not_NoSpace:
  assumes "Append be data z b = Some (st, r)" "\<not> unat (capacity z) < length data" "length data < 2 ^ 32"
  shows "\<not> IsNoSpace st"
  using assms append_loop_not_NoSpace [of be data "of_nat (length data)" z b 0 "(st, r)"]
  by (auto simp: Append_def Let_def word_less_nat_alt unat_of_nat_small)

end

context progress_device
begin

lemma append_loop_returns:
  assumes "inv b" "length ptr = unat left"
  shows "\<exists>r. append_loop be ptr left z b n = Some r"
  using assms
proof (induction "unat left" arbitrary: ptr left z b n rule: less_induct)
  case less
  obtain ret b' where w: "be_Write be (take (unat left) ptr) (wp z) b = (ret, b')" by fastforce
  have w': "be_Write be ptr (wp z) b = (ret, b')" using w less by simp
  show ?case
  proof (cases "left = 0 \<or> ret < 0")
    case True
    then show ?thesis using w by (subst append_loop.simps) auto
  next
    case False
    then have pos: "0 < ret"
      using write_progress [OF less(2), of ptr "wp z"] w' less(3)
      by (cases "ptr = []") (auto simp: unat_eq_0)
    have le: "nat ret \<le> unat left"
      using write_result [OF less(2), of ptr "wp z"] w' less(3) by (simp only: fst_conv nat_le_iff)
    have left: "unat (left - word_of_int ret) = unat left - nat ret"
      by (rule unat_left_minus) (use pos le in simp_all)
    moreover have "inv b'" using write_inv [OF less(2), of ptr "wp z"] w' by simp
    ultimately show ?thesis
      using less(1) [of "left - word_of_int ret" b' "drop (nat ret) ptr"] pos le less(3) w False
      by (subst append_loop.simps) simp
  qed
qed

lemma Append_returns:
  assumes "inv b" "length data < 2 ^ 32"
  shows "\<exists>r. Append be data z b = Some r"
  using append_loop_returns [OF assms(1), of data "of_nat (length data)"] assms(2)
  by (simp add: Append_def Let_def unat_of_nat_small)

end

subsection \<open>Reset, finish and close\<close>

text \<open>The code compares statuses with \<open>operator!=\<close>, so any status with code \<open>kOk\<close> counts as OK.\<close>

lemma status_neq_OK [simp]: "status_neq s OK = (\<not> ok s)"
  by (simp add: status_neq_def status_eq_def ok_def)

lemma zone_ok_Reset:
  assumes "zone_ok zs z" "Reset be z b = (st, z', b')"
    and "unat (snd (snd (fst (be_Reset be (start z) b)))) \<le> unat zs"
  shows "zone_ok zs z'" "ok st \<Longrightarrow> IsEmpty z'" "start z' = start z" "busy z' = busy z"
    "used_capacity z' = used_capacity z"
  using assms by (auto simp: Reset_def Let_def zone_ok_def IsEmpty_def split: prod.splits if_splits)

lemma zone_ok_Finish:
  assumes "zone_ok zs z" "Finish be z b = (st, z', b')" "be_zone_sz be b' = zs"
  shows "zone_ok zs z'" "ok st \<Longrightarrow> IsFull z'" "start z' = start z" "busy z' = busy z"
    "used_capacity z' = used_capacity z"
  using assms
  by (auto simp: Finish_def Let_def zone_ok_def IsFull_def unat_add_no_wrap split: prod.splits if_splits)

lemma Close_zone [zone_simps]: "Close be z b = (st, z', b') \<Longrightarrow> z' = z"
  by (auto simp: Close_def Let_def split: prod.splits if_splits)

lemma zone_ok_new:
  assumes "unat (be_ZoneStart be zl i b) + unat zs < 2 ^ 64"
    "unat (be_ZoneMaxCapacity be zl i b) \<le> unat zs"
    "unat (be_ZoneStart be zl i b) \<le> unat (be_ZoneWp be zl i b)"
    "unat (be_ZoneWp be zl i b) \<le> unat (be_ZoneStart be zl i b) + unat zs"
    "be_ZoneIsWritable be zl i b
      \<Longrightarrow> unat (be_ZoneWp be zl i b) \<le> unat (be_ZoneStart be zl i b) + unat (be_ZoneMaxCapacity be zl i b)"
  shows "zone_ok zs (new_Zone be zl i b)"
  using assms by (auto simp: new_Zone_def zone_ok_def Let_def unat_sub_no_wrap)

lemma Acquire_simps [zone_simps]:
  "Acquire z = (r, z') \<Longrightarrow> r = (\<not> busy z) \<and> z' = z\<lparr> busy := True \<rparr>"
  by (cases z) (auto simp: Acquire_def split: if_splits)

lemma CheckRelease_busy [simp]: "busy z \<Longrightarrow> CheckRelease zs z = (OK, z\<lparr> busy := False \<rparr>)"
  by (simp add: CheckRelease_def Release_def)

lemma zone_ok_busy [simp]: "zone_ok zs (z\<lparr> busy := x \<rparr>) = zone_ok zs z"
  by (simp add: zone_ok_def)

subsection \<open>Properties\<close>

text \<open>
  C9: \<open>Zone::Append\<close> on a device that stores bytes.  It keeps the zone well formed; when it
  reports success the write pointer and the remaining capacity have moved by the size of the
  buffer, the bytes-written counter is increased by it and the buffer is on the device at the
  old write pointer; it reports out-of-space exactly when the buffer does not fit, and then
  nothing has changed; in every case no byte outside the range it was asked to write changes.
\<close>

theorem zone_append_correct:
  assumes "data_device be cont I" "I b" "zone_ok zs z" "length data < 2 ^ 32"
    and "Append be data z b = Some (st, z', b', n)"
  shows "zone_ok zs z' \<and> I b' \<and> start z' = start z \<and> used_capacity z' = used_capacity z
    \<and> (ok st \<longrightarrow> unat (wp z') = unat (wp z) + length data
        \<and> unat (capacity z') + length data = unat (capacity z)
        \<and> n = of_nat (length data)
        \<and> map (\<lambda>i. cont b' (unat (wp z) + i)) [0..<length data] = data)
    \<and> (IsNoSpace st \<longleftrightarrow> unat (capacity z) < length data)
    \<and> (IsNoSpace st \<longrightarrow> z' = z \<and> b' = b)
    \<and> (\<forall>a. a < unat (wp z) \<or> unat (wp z) + length data \<le> a \<longrightarrow> cont b' a = cont b a)"
proof (cases "unat (capacity z) < length data")
  case True
  then show ?thesis
    using data_device.Append_cases [OF assms(1) assms(5,2-4)] assms(2,3)
    by (simp add: IsNoSpace_def NoSpace_msg_def ok_def)
next
  case False
  then obtain k where k: "k \<le> length data" "z' = advance k z" "n = of_nat k" "I b'"
    "ok st \<longrightarrow> k = length data" "\<forall>i < k. cont b' (unat (wp z) + i) = data ! i"
    and frame: "\<forall>a. a < unat (wp z) \<or> unat (wp z) + length data \<le> a \<longrightarrow> cont b' a = cont b a"
    using data_device.Append_cases [OF assms(1) assms(5,2-4)]
    by (auto simp: data_device.appended_def [OF assms(1)])
  have kc: "k \<le> unat (capacity z)" using k False by simp
  have "\<not> IsNoSpace st"
    by (rule data_device.Append_not_NoSpace [OF assms(1) assms(5)]) (use False assms in auto)
  moreover have "map (\<lambda>i. cont b' (unat (wp z) + i)) [0..<length data] = data" if "ok st"
    using k(5,6) that by (intro nth_equalityI) auto
  ultimately show ?thesis
    using k frame kc zone_ok_advance [OF assms(3) kc] False
      unat_advance [OF kc zone_ok_room [OF assms(3)]] by auto
qed

text \<open>A zone of a simulated device, 4 zones of 64 bytes of which 48 are usable.\<close>

definition demo_dev :: "simdev zbdlib" where
  "demo_dev = \<lparr> zl_filename = str ''/dev/nvme0n1'', zl_read_f = 3, zl_read_direct_f = 3,
     zl_write_f = 3, zl_block_sz = 4, zl_zone_sz = 64, zl_nr_zones = 4, zl_sim_offline = [],
     zl_dev = sim_new 4 64 48 4 \<rparr>"

definition demo_zone :: zone where
  "demo_zone = \<lparr> busy = True, start = 64, capacity = 48, max_capacity = 48, wp = 64,
     lifetime = 0, used_capacity = 0 \<rparr>"

lemma demo_append:
  "Append (zbdlib_backend sim_libzbd) [1, 2, 3, 4] demo_zone demo_dev
   = Some (OK, advance 4 demo_zone, snd (zbdlib_Write sim_libzbd [1, 2, 3, 4] 64 demo_dev), 4)"
proof -
  have w: "fst (zbdlib_Write sim_libzbd [1, 2, 3, 4] 64 demo_dev) = 4"
    by (simp add: zbdlib_Write_def demo_dev_def sim_libzbd_def sim_pwrite_def sim_can_write_def
        sim_idx_def sim_new_def sim_zone_def to_int32_id Let_def upt_rec)
  have be: "be_Write (zbdlib_backend sim_libzbd) = zbdlib_Write sim_libzbd"
    by (simp add: zbdlib_backend_def)
  have one: "append_loop (zbdlib_backend sim_libzbd) [1, 2, 3, 4] 4 demo_zone demo_dev 0
      = append_loop (zbdlib_backend sim_libzbd) [] 0 (advance 4 demo_zone)
          (snd (zbdlib_Write sim_libzbd [1, 2, 3, 4] 64 demo_dev)) 4"
    by (subst append_loop.simps) (simp add: be w demo_zone_def advance_def split_beta)
  show ?thesis
    by (simp add: Append_def Let_def one) (simp add: append_loop.simps demo_zone_def)
qed

theorem zone_append_correct_witness:
  "map (\<lambda>i. sd_mem (zl_dev (snd (zbdlib_Write sim_libzbd [1, 2, 3, 4] 64 demo_dev))) (unat (64 :: u64) + i))
     [0..<4] = [1, 2, 3, 4]
   \<and> sd_mem (zl_dev (snd (zbdlib_Write sim_libzbd [1, 2, 3, 4] 64 demo_dev))) 68 = 0"
  using zone_append_correct [OF sim.data_device_axioms _ _ _ demo_append, where zs = 64]
  by (simp add: demo_zone_def zone_ok_def upt_rec demo_dev_def sim_new_def)

text \<open>
  C20: on a device where a successful write makes progress, the retry loop of \<open>Zone::Append\<close>
  always ends.
\<close>

theorem zone_append_terminates:
  assumes "progress_device be cont I" "I b" "length data < 2 ^ 32"
  shows "\<exists>st z' b' n. Append be data z b = Some (st, z', b', n)"
  using progress_device.Append_returns [OF assms, of z] by auto

theorem zone_append_terminates_witness:
  "\<exists>st z' b' n. Append (zbdlib_backend sim_libzbd) [1, 2, 3] demo_zone demo_dev = Some (st, z', b', n)"
  by (rule zone_append_terminates [OF sim_progress.progress_device_axioms]) simp_all

end
