(* ===== verification/ZonedBlockDevice.thy ===== *)
theory ZonedBlockDevice
  imports Zone
begin

text \<open>
  Class \<open>ZonedBlockDevice\<close> (\<open>fs/zbd_aquafs.h\<close>, \<open>.cc\<close>): the zones of a device, split into
  metadata and data zones, the open- and active-zone tokens, zone allocation by lifetime hint,
  finishing and resetting of zones, reads, and the statistics.

  A \<open>Zone *\<close> is the index of the zone in \<open>io_zones\<close> (or \<open>meta_zones\<close>); a null pointer is
  \<open>None\<close>.  Every loop over the zones is a recursion over their indices that returns early where
  the C++ loop does.  A call that waits on a condition variable returns \<open>None\<close> in a state where
  it would wait, and so does the token loop of \<open>AllocateIOZone\<close> when it spins.  Mutexes make
  each operation on the counters atomic; the interleaving of such steps is the subject of the
  theory \<open>Tokens\<close>.  Logging and metrics are not modelled.
\<close>

subsection \<open>State\<close>

record 'b zbd =
  zbd_be :: 'b
  io_zones :: "zone list"
  meta_zones :: "zone list"
  finish_threshold :: u32
  bytes_written :: u64
  gc_bytes_written :: u64
  active_io_zones :: int
  open_io_zones :: int
  zone_deferred_status :: status
  migrating :: bool
  max_nr_active_io_zones :: u32
  max_nr_open_io_zones :: u32

definition AQUAFS_META_ZONES :: nat where "AQUAFS_META_ZONES = 3 + 1"
definition AQUAFS_MIN_ZONES :: u32 where "AQUAFS_MIN_ZONES = 32"

definition new_ZonedBlockDevice :: "'b \<Rightarrow> 'b zbd" where
  "new_ZonedBlockDevice b = \<lparr> zbd_be = b, io_zones = [], meta_zones = [], finish_threshold = 0,
     bytes_written = 0, gc_bytes_written = 0, active_io_zones = 0, open_io_zones = 0,
     zone_deferred_status = OK, migrating = False, max_nr_active_io_zones = 0,
     max_nr_open_io_zones = 0 \<rparr>"

definition set_io :: "nat \<Rightarrow> zone \<Rightarrow> 'b zbd \<Rightarrow> 'b zbd" where
  "set_io i z s = s\<lparr> io_zones := (io_zones s)[i := z] \<rparr>"

definition set_meta :: "nat \<Rightarrow> zone \<Rightarrow> 'b zbd \<Rightarrow> 'b zbd" where
  "set_meta i z s = s\<lparr> meta_zones := (meta_zones s)[i := z] \<rparr>"

definition GetZoneSize :: "'b backend \<Rightarrow> 'b zbd \<Rightarrow> u64" where
  "GetZoneSize be s = be_zone_sz be (zbd_be s)"

definition GetBlockSize :: "'b backend \<Rightarrow> 'b zbd \<Rightarrow> u32" where
  "GetBlockSize be s = be_block_sz be (zbd_be s)"

definition GetNrZones :: "'b backend \<Rightarrow> 'b zbd \<Rightarrow> u32" where
  "GetNrZones be s = be_nr_zones be (zbd_be s)"

definition io_CheckRelease :: "'b backend \<Rightarrow> nat \<Rightarrow> 'b zbd \<Rightarrow> status \<times> 'b zbd" where
  "io_CheckRelease be i s =
     (let (st, z) = CheckRelease (GetZoneSize be s) (io_zones s ! i) in (st, set_io i z s))"

definition setFinishThreshold :: "u32 \<Rightarrow> 'b zbd \<Rightarrow> 'b zbd" where
  "setFinishThreshold t s = s\<lparr> finish_threshold := t \<rparr>"

definition AddBytesWritten :: "u64 \<Rightarrow> 'b zbd \<Rightarrow> 'b zbd" where
  "AddBytesWritten n s = s\<lparr> bytes_written := bytes_written s + n \<rparr>"

definition AddGCBytesWritten :: "u64 \<Rightarrow> 'b zbd \<Rightarrow> 'b zbd" where
  "AddGCBytesWritten n s = s\<lparr> gc_bytes_written := gc_bytes_written s + n \<rparr>"

definition GetUserBytesWritten :: "'b zbd \<Rightarrow> u64" where
  "GetUserBytesWritten s = bytes_written s - gc_bytes_written s"

definition GetTotalBytesWritten :: "'b zbd \<Rightarrow> u64" where
  "GetTotalBytesWritten s = bytes_written s"

subsection \<open>Zones by address\<close>

fun find_zone :: "u64 \<Rightarrow> u64 \<Rightarrow> zone list \<Rightarrow> nat \<Rightarrow> nat option" where
  "find_zone zs offset [] i = None"
| "find_zone zs offset (z # rest) i =
     (if start z \<le> offset \<and> offset < start z + zs then Some i
      else find_zone zs offset rest (Suc i))"

definition GetIOZone :: "'b backend \<Rightarrow> u64 \<Rightarrow> 'b zbd \<Rightarrow> nat option" where
  "GetIOZone be offset s = find_zone (GetZoneSize be s) offset (io_zones s) 0"

subsection \<open>Opening the device\<close>

text \<open>The first loop of \<open>Open\<close>: the first four sequential zones are metadata zones, offline ones
  counted but not used.  It returns the metadata zones and the indices it has not looked at.\<close>

fun open_meta_zones ::
  "'b backend \<Rightarrow> ZoneList \<Rightarrow> 'b \<Rightarrow> nat \<Rightarrow> nat list \<Rightarrow> zone list \<Rightarrow> zone list \<times> nat list" where
  "open_meta_zones be zl b m [] acc = (acc, [])"
| "open_meta_zones be zl b m (i # is) acc =
     (if m < AQUAFS_META_ZONES then
        if be_ZoneIsSwr be zl i b
        then open_meta_zones be zl b (m + 1) is
               (if \<not> be_ZoneIsOffline be zl i b then acc @ [new_Zone be zl i b] else acc)
        else open_meta_zones be zl b m is acc
      else (acc, i # is))"

text \<open>The second loop: the remaining sequential zones that are online become data zones; one that
  is active takes an active token, and one that is open is closed unless the device is opened
  read-only (the status of that close is dropped).\<close>

definition open_io_zone ::
  "'b backend \<Rightarrow> ZoneList \<Rightarrow> bool \<Rightarrow> nat \<Rightarrow> 'b zbd \<Rightarrow> status \<times> 'b zbd" where
  "open_io_zone be zl readonly i s =
     (let (acq, z) = Acquire (new_Zone be zl i (zbd_be s)) in
      if \<not> acq then (Corruption (str ''Failed to set busy flag of zone ''
                        @ to_string (unat (GetZoneNr (GetZoneSize be s) z))) [], s)
      else
        let k = length (io_zones s);
            s1 = s\<lparr> io_zones := io_zones s @ [z] \<rparr>;
            s2 = (if be_ZoneIsActive be zl i (zbd_be s)
                  then let s' = s1\<lparr> active_io_zones := active_io_zones s1 + 1 \<rparr> in
                    if be_ZoneIsOpen be zl i (zbd_be s) \<and> \<not> readonly
                    then let (st, z', b') = Close be z (zbd_be s') in
                      set_io k z' (s'\<lparr> zbd_be := b' \<rparr>)
                    else s'
                  else s1) in
        io_CheckRelease be k s2)"

fun open_io_zones_loop ::
  "'b backend \<Rightarrow> ZoneList \<Rightarrow> bool \<Rightarrow> nat list \<Rightarrow> 'b zbd \<Rightarrow> status \<times> 'b zbd" where
  "open_io_zones_loop be zl readonly [] s = (OK, s)"
| "open_io_zones_loop be zl readonly (i # is) s =
     (if be_ZoneIsSwr be zl i (zbd_be s) \<and> \<not> be_ZoneIsOffline be zl i (zbd_be s) then
        let (st, s') = open_io_zone be zl readonly i s in
        if \<not> ok st then (st, s') else open_io_zones_loop be zl readonly is s'
      else open_io_zones_loop be zl readonly is s)"

definition zone_limit :: "u32 \<Rightarrow> u32 \<Rightarrow> u32" where
  "zone_limit mx nr = (if mx = 0 then nr else mx - 2)"

definition Open :: "'b backend \<Rightarrow> bool \<Rightarrow> bool \<Rightarrow> 'b zbd \<Rightarrow> status \<times> 'b zbd" where
  "Open be readonly exclusive s =
     (if \<not> readonly \<and> \<not> exclusive
      then (InvalidArgument (str ''Write opens must be exclusive'') [], s)
      else let ((ios, max_active, max_open), b) = be_Open be readonly exclusive (zbd_be s);
               s = s\<lparr> zbd_be := b \<rparr> in
        if status_neq ios OK then (ios, s)
        else if GetNrZones be s < AQUAFS_MIN_ZONES
        then (NotSupported (str ''To few zones on zoned backend (''
                @ to_string (unat AQUAFS_MIN_ZONES) @ str '' required), now is ''
                @ to_string (unat (GetNrZones be s))) [], s)
        else let s = s\<lparr> max_nr_active_io_zones := zone_limit max_active (GetNrZones be s),
                        max_nr_open_io_zones := zone_limit max_open (GetNrZones be s) \<rparr> in
          case be_ListZones be b of
            None \<Rightarrow> (IOError (str ''Failed to list zones'') [], s)
          | Some zl \<Rightarrow>
              if length zl \<noteq> unat (GetNrZones be s)
              then (IOError (str ''Failed to list zones'') [], s)
              else let (mz, rest) = open_meta_zones be zl b 0 [0..<length zl] (meta_zones s);
                       s = s\<lparr> meta_zones := mz, active_io_zones := 0, open_io_zones := 0 \<rparr> in
                open_io_zones_loop be zl readonly rest s)"

subsection \<open>Space accounting\<close>

definition GetFreeSpace :: "'b zbd \<Rightarrow> u64" where
  "GetFreeSpace s = sum_list (map capacity (io_zones s))"

definition GetUsedSpace :: "'b zbd \<Rightarrow> u64" where
  "GetUsedSpace s = sum_list (map used_capacity (io_zones s))"

definition GetReclaimableSpace :: "'b zbd \<Rightarrow> u64" where
  "GetReclaimableSpace s =
     sum_list (map (\<lambda>z. if IsFull z then max_capacity z - used_capacity z else 0) (io_zones s))"

text \<open>The figures \<open>LogZoneStats\<close> prints: used, reclaimable, average reclaimable percentage and
  the number of active zones.\<close>

definition LogZoneStats :: "'b zbd \<Rightarrow> u64 \<times> u64 \<times> u64 \<times> u64" where
  "LogZoneStats s =
     (let used = sum_list (map used_capacity (io_zones s));
          recl = sum_list (map (\<lambda>z. if used_capacity z \<noteq> 0 then max_capacity z - used_capacity z else 0)
                   (io_zones s));
          rmax = sum_list (map (\<lambda>z. if used_capacity z \<noteq> 0 then max_capacity z else 0) (io_zones s));
          active = of_nat (length (filter (\<lambda>z. \<not> (IsFull z \<or> IsEmpty z)) (io_zones s)));
          rmax = (if rmax = 0 then 1 else rmax) in
      (used div 1048576, recl div 1048576, 100 * recl div rmax, active))"

definition LogZoneUsage :: "'b zbd \<Rightarrow> (u64 \<times> int) list" where
  "LogZoneUsage s = map (\<lambda>z. (start z, sint (used_capacity z)))
     (filter (\<lambda>z. sint (used_capacity z) > 0) (io_zones s))"

subsection \<open>Tokens\<close>

definition WaitForOpenIOZoneToken :: "bool \<Rightarrow> 'b zbd \<Rightarrow> 'b zbd option" where
  "WaitForOpenIOZoneToken prioritized s =
     (let limit = uint (if prioritized then max_nr_open_io_zones s
                        else max_nr_open_io_zones s - 1) in
      if open_io_zones s < limit then Some (s\<lparr> open_io_zones := open_io_zones s + 1 \<rparr>)
      else None)"

definition GetActiveIOZoneTokenIfAvailable :: "'b zbd \<Rightarrow> bool \<times> 'b zbd" where
  "GetActiveIOZoneTokenIfAvailable s =
     (if active_io_zones s < uint (max_nr_active_io_zones s)
      then (True, s\<lparr> active_io_zones := active_io_zones s + 1 \<rparr>) else (False, s))"

definition PutOpenIOZoneToken :: "'b zbd \<Rightarrow> 'b zbd" where
  "PutOpenIOZoneToken s = s\<lparr> open_io_zones := open_io_zones s - 1 \<rparr>"

definition PutActiveIOZoneToken :: "'b zbd \<Rightarrow> 'b zbd" where
  "PutActiveIOZoneToken s = s\<lparr> active_io_zones := active_io_zones s - 1 \<rparr>"

subsection \<open>Lifetime matching\<close>

definition LIFETIME_DIFF_NOT_GOOD :: u32 where "LIFETIME_DIFF_NOT_GOOD = 100"
definition LIFETIME_DIFF_COULD_BE_WORSE :: u32 where "LIFETIME_DIFF_COULD_BE_WORSE = 50"

definition GetLifeTimeDiff :: "WriteLifeTimeHint \<Rightarrow> WriteLifeTimeHint \<Rightarrow> u32" where
  "GetLifeTimeDiff zone_lifetime file_lifetime =
     (if file_lifetime = WLTH_NOT_SET \<or> file_lifetime = WLTH_NONE then
        if file_lifetime = zone_lifetime then 0 else LIFETIME_DIFF_NOT_GOOD
      else if zone_lifetime > file_lifetime then zone_lifetime - file_lifetime
      else if zone_lifetime = file_lifetime then LIFETIME_DIFF_COULD_BE_WORSE
      else LIFETIME_DIFF_NOT_GOOD)"

subsection \<open>Metadata zones\<close>

fun alloc_meta ::
  "'b backend \<Rightarrow> nat list \<Rightarrow> 'b zbd \<Rightarrow> status \<times> nat option \<times> 'b zbd" where
  "alloc_meta be [] s = (NoSpace_msg (str ''Out of metadata zones'') [], None, s)"
| "alloc_meta be (i # is) s =
     (let (acq, z) = Acquire (meta_zones s ! i); s1 = set_meta i z s in
      if \<not> acq then alloc_meta be is s
      else if IsUsed z then alloc_meta be is s1
      else if IsEmpty z then (OK, Some i, s1)
      else let (rst, z2, b2) = Reset be z (zbd_be s); s2 = set_meta i z2 (s1\<lparr> zbd_be := b2 \<rparr>) in
        if \<not> ok rst then
          let (st, z3) = CheckRelease (GetZoneSize be s2) z2; s3 = set_meta i z3 s2 in
          if \<not> ok st then (st, None, s3) else alloc_meta be is s3
        else (OK, Some i, s2))"

definition AllocateMetaZone :: "'b backend \<Rightarrow> 'b zbd \<Rightarrow> status \<times> nat option \<times> 'b zbd" where
  "AllocateMetaZone be s = alloc_meta be [0..<length (meta_zones s)] s"

subsection \<open>Resetting and finishing data zones\<close>

fun reset_unused :: "'b backend \<Rightarrow> nat list \<Rightarrow> 'b zbd \<Rightarrow> status \<times> 'b zbd" where
  "reset_unused be [] s = (OK, s)"
| "reset_unused be (i # is) s =
     (let (acq, z) = Acquire (io_zones s ! i) in
      if \<not> acq then reset_unused be is s
      else if \<not> IsEmpty z \<and> \<not> IsUsed z then
        let full = IsFull z;
            (reset_status, z1, b1) = Reset be z (zbd_be s);
            (release_status, s1) = io_CheckRelease be i (set_io i z1 (s\<lparr> zbd_be := b1 \<rparr>)) in
        if \<not> ok reset_status then (reset_status, s1)
        else if \<not> ok release_status then (release_status, s1)
        else reset_unused be is (if \<not> full then PutActiveIOZoneToken s1 else s1)
      else
        let (release_status, s1) = io_CheckRelease be i (set_io i z s) in
        if \<not> ok release_status then (release_status, s1) else reset_unused be is s1)"

definition ResetUnusedIOZones :: "'b backend \<Rightarrow> 'b zbd \<Rightarrow> status \<times> 'b zbd" where
  "ResetUnusedIOZones be s = reset_unused be [0..<length (io_zones s)] s"

definition within_finish_threshold :: "u32 \<Rightarrow> zone \<Rightarrow> bool" where
  "within_finish_threshold t z = (capacity z < max_capacity z * ucast t div 100)"

fun finish_threshold_loop :: "'b backend \<Rightarrow> nat list \<Rightarrow> 'b zbd \<Rightarrow> status \<times> 'b zbd" where
  "finish_threshold_loop be [] s = (OK, s)"
| "finish_threshold_loop be (i # is) s =
     (let (acq, z) = Acquire (io_zones s ! i) in
      if \<not> acq then finish_threshold_loop be is s
      else if \<not> (IsEmpty z \<or> IsFull z) \<and> within_finish_threshold (finish_threshold s) z then
        let (st, z1, b1) = Finish be z (zbd_be s); s1 = set_io i z1 (s\<lparr> zbd_be := b1 \<rparr>) in
        if \<not> ok st then (st, set_io i (snd (Release z1)) s1)
        else let (st, s2) = io_CheckRelease be i s1 in
          if \<not> ok st then (st, s2)
          else finish_threshold_loop be is (PutActiveIOZoneToken s2)
      else
        let (st, s1) = io_CheckRelease be i (set_io i z s) in
        if \<not> ok st then (st, s1) else finish_threshold_loop be is s1)"

definition ApplyFinishThreshold :: "'b backend \<Rightarrow> 'b zbd \<Rightarrow> status \<times> 'b zbd" where
  "ApplyFinishThreshold be s =
     (if finish_threshold s = 0 then (OK, s)
      else finish_threshold_loop be [0..<length (io_zones s)] s)"

text \<open>The search for a victim to finish: the victim is held busy.\<close>

fun cheapest_loop ::
  "'b backend \<Rightarrow> nat list \<Rightarrow> nat option \<Rightarrow> 'b zbd \<Rightarrow> status \<times> nat option \<times> 'b zbd" where
  "cheapest_loop be [] victim s = (OK, victim, s)"
| "cheapest_loop be (i # is) victim s =
     (let (acq, z) = Acquire (io_zones s ! i); s1 = set_io i z s in
      if \<not> acq then cheapest_loop be is victim s
      else if IsEmpty z \<or> IsFull z then
        let (st, s2) = io_CheckRelease be i s1 in
        if \<not> ok st then (st, victim, s2) else cheapest_loop be is victim s2
      else case victim of
        None \<Rightarrow> cheapest_loop be is (Some i) s1
      | Some v \<Rightarrow>
          if capacity (io_zones s1 ! v) > capacity z then
            let (st, s2) = io_CheckRelease be v s1 in
            if \<not> ok st then (st, victim, s2) else cheapest_loop be is (Some i) s2
          else
            let (st, s2) = io_CheckRelease be i s1 in
            if \<not> ok st then (st, victim, s2) else cheapest_loop be is victim s2)"

definition FinishCheapestIOZone :: "'b backend \<Rightarrow> 'b zbd \<Rightarrow> status \<times> 'b zbd" where
  "FinishCheapestIOZone be s =
     (let (st, victim, s1) = cheapest_loop be [0..<length (io_zones s)] None s in
      if \<not> ok st then (st, s1)
      else case victim of
        None \<Rightarrow> (OK, s1)
      | Some v \<Rightarrow>
          let (st, z1, b1) = Finish be (io_zones s1 ! v) (zbd_be s1);
              (release_status, s2) = io_CheckRelease be v (set_io v z1 (s1\<lparr> zbd_be := b1 \<rparr>));
              s3 = (if ok st then PutActiveIOZoneToken s2 else s2) in
          if \<not> ok release_status then (release_status, s3) else (st, s3))"

subsection \<open>Choosing a zone\<close>

fun best_match_loop ::
  "'b backend \<Rightarrow> WriteLifeTimeHint \<Rightarrow> u32 \<Rightarrow> nat list \<Rightarrow> u32 \<Rightarrow> nat option \<Rightarrow> 'b zbd
    \<Rightarrow> status \<times> u32 \<times> nat option \<times> 'b zbd" where
  "best_match_loop be lt min_cap [] best_diff alloc s = (OK, best_diff, alloc, s)"
| "best_match_loop be lt min_cap (i # is) best_diff alloc s =
     (let (acq, z) = Acquire (io_zones s ! i); s1 = set_io i z s in
      if \<not> acq then best_match_loop be lt min_cap is best_diff alloc s
      else if used_capacity z > 0 \<and> \<not> IsFull z \<and> capacity z \<ge> ucast min_cap then
        let diff = GetLifeTimeDiff (lifetime z) lt in
        if diff \<le> best_diff then
          case alloc of
            None \<Rightarrow> best_match_loop be lt min_cap is diff (Some i) s1
          | Some a \<Rightarrow>
              let (st, s2) = io_CheckRelease be a s1 in
              if \<not> ok st then
                let (st', s3) = io_CheckRelease be i s2 in
                if \<not> ok st' then (st', best_diff, None, s3) else (st, best_diff, None, s3)
              else best_match_loop be lt min_cap is diff (Some i) s2
        else
          let (st, s2) = io_CheckRelease be i s1 in
          if \<not> ok st then (st, best_diff, None, s2)
          else best_match_loop be lt min_cap is best_diff alloc s2
      else
        let (st, s2) = io_CheckRelease be i s1 in
        if \<not> ok st then (st, best_diff, None, s2)
        else best_match_loop be lt min_cap is best_diff alloc s2)"

definition GetBestOpenZoneMatch ::
  "'b backend \<Rightarrow> WriteLifeTimeHint \<Rightarrow> u32 \<Rightarrow> 'b zbd \<Rightarrow> status \<times> u32 \<times> nat option \<times> 'b zbd" where
  "GetBestOpenZoneMatch be lt min_cap s =
     best_match_loop be lt min_cap [0..<length (io_zones s)] LIFETIME_DIFF_NOT_GOOD None s"

fun empty_zone_loop ::
  "'b backend \<Rightarrow> nat list \<Rightarrow> 'b zbd \<Rightarrow> status \<times> nat option \<times> 'b zbd" where
  "empty_zone_loop be [] s = (OK, None, s)"
| "empty_zone_loop be (i # is) s =
     (let (acq, z) = Acquire (io_zones s ! i); s1 = set_io i z s in
      if \<not> acq then empty_zone_loop be is s
      else if IsEmpty z then (OK, Some i, s1)
      else let (st, s2) = io_CheckRelease be i s1 in
        if \<not> ok st then (st, None, s2) else empty_zone_loop be is s2)"

definition AllocateEmptyZone :: "'b backend \<Rightarrow> 'b zbd \<Rightarrow> status \<times> nat option \<times> 'b zbd" where
  "AllocateEmptyZone be s = empty_zone_loop be [0..<length (io_zones s)] s"

subsection \<open>The allocator\<close>

definition GetZoneDeferredStatus :: "'b zbd \<Rightarrow> status" where
  "GetZoneDeferredStatus s = zone_deferred_status s"

definition SetZoneDeferredStatus :: "status \<Rightarrow> 'b zbd \<Rightarrow> 'b zbd" where
  "SetZoneDeferredStatus st s =
     (if \<not> ok (zone_deferred_status s) then s\<lparr> zone_deferred_status := st \<rparr> else s)"

text \<open>The loop that finishes zones until an active token is free.\<close>

partial_function (option) active_token_loop ::
  "'b backend \<Rightarrow> 'b zbd \<Rightarrow> (status \<times> 'b zbd) option" where
  "active_token_loop be s =
     (let (got, s1) = GetActiveIOZoneTokenIfAvailable s in
      if got then Some (OK, s1)
      else let (st, s2) = FinishCheapestIOZone be s1 in
        if \<not> ok st then Some (st, s2) else active_token_loop be s2)"

declare active_token_loop.simps [code]

text \<open>The part of \<open>AllocateIOZone\<close> that opens a new zone; the open token is held.\<close>

definition allocate_new_zone ::
  "'b backend \<Rightarrow> WriteLifeTimeHint \<Rightarrow> bool \<Rightarrow> 'b zbd \<Rightarrow> (status \<times> nat option \<times> 'b zbd) option" where
  "allocate_new_zone be lt got_token s =
     (case (if got_token then Some (OK, s) else active_token_loop be s) of
        None \<Rightarrow> None
      | Some (st, s1) \<Rightarrow>
          if \<not> ok st then Some (st, None, PutOpenIOZoneToken s1)
          else let (st, a, s2) = AllocateEmptyZone be s1 in
            if \<not> ok st then Some (st, None, PutOpenIOZoneToken (PutActiveIOZoneToken s2))
            else case a of
              Some i \<Rightarrow> Some (OK, Some i, set_io i ((io_zones s2 ! i)\<lparr> lifetime := lt \<rparr>) s2)
            | None \<Rightarrow> Some (OK, None, PutOpenIOZoneToken (PutActiveIOZoneToken s2)))"

definition AllocateIOZone ::
  "'b backend \<Rightarrow> WriteLifeTimeHint \<Rightarrow> IOType \<Rightarrow> 'b zbd \<Rightarrow> (status \<times> nat option \<times> 'b zbd) option" where
  "AllocateIOZone be lt io_type s =
     (if \<not> ok (GetZoneDeferredStatus s) then Some (GetZoneDeferredStatus s, None, s)
      else let (st, s) = (if io_type \<noteq> kWAL then ApplyFinishThreshold be s else (OK, s)) in
      if \<not> ok st then Some (st, None, s)
      else case WaitForOpenIOZoneToken (io_type = kWAL) s of
        None \<Rightarrow> None
      | Some s \<Rightarrow>
        let (st, best_diff, allocated, s) = GetBestOpenZoneMatch be lt 0 s in
        if \<not> ok st then Some (st, None, PutOpenIOZoneToken s)
        else if best_diff \<ge> LIFETIME_DIFF_COULD_BE_WORSE then
          let (got_token, s) = GetActiveIOZoneTokenIfAvailable s in
          case allocated of
            Some a \<Rightarrow>
              if \<not> got_token \<and> best_diff = LIFETIME_DIFF_COULD_BE_WORSE then Some (OK, Some a, s)
              else let (st, s) = io_CheckRelease be a s in
                if \<not> ok st
                then let s = PutOpenIOZoneToken s in
                  Some (st, None, if got_token then PutActiveIOZoneToken s else s)
                else allocate_new_zone be lt got_token s
          | None \<Rightarrow> allocate_new_zone be lt got_token s
        else case allocated of
            Some a \<Rightarrow> Some (OK, Some a, s)
          | None \<Rightarrow> Some (OK, None, PutOpenIOZoneToken s))"

subsection \<open>Migration\<close>

definition ReleaseMigrateZone :: "'b backend \<Rightarrow> nat option \<Rightarrow> 'b zbd \<Rightarrow> status \<times> 'b zbd" where
  "ReleaseMigrateZone be zn s =
     (let s = s\<lparr> migrating := False \<rparr> in
      case zn of None \<Rightarrow> (OK, s) | Some i \<Rightarrow> io_CheckRelease be i s)"

definition TakeMigrateZone ::
  "'b backend \<Rightarrow> WriteLifeTimeHint \<Rightarrow> u32 \<Rightarrow> 'b zbd \<Rightarrow> (status \<times> nat option \<times> 'b zbd) option" where
  "TakeMigrateZone be lt min_cap s =
     (if migrating s then None
      else let (st, diff, zn, s) = GetBestOpenZoneMatch be lt min_cap (s\<lparr> migrating := True \<rparr>) in
        Some (st, zn, if ok st \<and> zn \<noteq> None then s else s\<lparr> migrating := False \<rparr>))"

subsection \<open>Reading\<close>

definition EINTR :: int where "EINTR = 4"

text \<open>The retry loop of \<open>Read\<close>: short reads are continued, an interrupted call is repeated, any
  other result below 1 ends it.  It returns the C++ result, the bytes placed in the buffer, and
  the device.\<close>

partial_function (option) zbd_read_loop ::
  "'b backend \<Rightarrow> u64 \<Rightarrow> int \<Rightarrow> bool \<Rightarrow> int \<Rightarrow> bytes \<Rightarrow> 'b \<Rightarrow> (int \<times> bytes \<times> 'b) option" where
  "zbd_read_loop be offset left direct ret buf b =
     (if left = 0 then Some (ret, buf, b)
      else let ((r, bs), b') = be_Read be left offset direct b in
        if r \<le> 0 then
          if r = - 1 \<and> be_errno be b' = EINTR then zbd_read_loop be offset left direct ret buf b'
          else Some (if r < 0 then r else ret, buf, b')
        else zbd_read_loop be (offset + word_of_int r) (left - r) direct (ret + r) (buf @ bs) b')"

declare zbd_read_loop.simps [code]

text \<open>With \<open>n = 0\<close> the loop body never runs and the initial \<open>r = -1\<close> is what is returned.\<close>

definition zbd_Read ::
  "'b backend \<Rightarrow> u64 \<Rightarrow> int \<Rightarrow> bool \<Rightarrow> 'b \<Rightarrow> (int \<times> bytes \<times> 'b) option" where
  "zbd_Read be offset n direct b =
     (if n = 0 then Some (- 1, [], b) else zbd_read_loop be offset n direct 0 [] b)"

definition zbd_InvalidateCache :: "'b backend \<Rightarrow> u64 \<Rightarrow> u64 \<Rightarrow> 'b zbd \<Rightarrow> status \<times> 'b zbd" where
  "zbd_InvalidateCache be pos n s =
     (let (ret, b) = be_InvalidateCache be pos n (zbd_be s); s = s\<lparr> zbd_be := b \<rparr> in
      if ret \<noteq> 0 then (IOError (str ''Failed to invalidate cache'') [], s) else (OK, s))"

subsection \<open>JSON and snapshots\<close>

fun EncodeJsonZone :: "zone list \<Rightarrow> bool \<Rightarrow> bytes" where
  "EncodeJsonZone [] first = []"
| "EncodeJsonZone (z # zs) first =
     (if first then [] else str '','') @ zone_EncodeJson z @ EncodeJsonZone zs False"

definition zbd_EncodeJson :: "'b zbd \<Rightarrow> bytes" where
  "zbd_EncodeJson s =
     str ''{'' @ str [CHR 0x22] @ str ''meta'' @ str [CHR 0x22] @ str '':''
     @ str ''['' @ EncodeJsonZone (meta_zones s) True @ str '']''
     @ str '','' @ str [CHR 0x22] @ str ''io'' @ str [CHR 0x22] @ str '':''
     @ str ''['' @ EncodeJsonZone (io_zones s) True @ str '']'' @ str ''}''"

record ZBDSnapshot =
  free_space :: u64
  used_space :: u64
  reclaimable_space :: u64

definition new_ZBDSnapshot :: "'b zbd \<Rightarrow> ZBDSnapshot" where
  "new_ZBDSnapshot s = \<lparr> free_space = GetFreeSpace s, used_space = GetUsedSpace s,
     reclaimable_space = GetReclaimableSpace s \<rparr>"

record ZoneSnapshot =
  zsn_start :: u64
  zsn_wp :: u64
  zsn_capacity :: u64
  zsn_used_capacity :: u64
  zsn_max_capacity :: u64

definition new_ZoneSnapshot :: "zone \<Rightarrow> ZoneSnapshot" where
  "new_ZoneSnapshot z = \<lparr> zsn_start = start z, zsn_wp = wp z, zsn_capacity = capacity z,
     zsn_used_capacity = used_capacity z, zsn_max_capacity = max_capacity z \<rparr>"

definition GetZoneSnapshot :: "'b zbd \<Rightarrow> ZoneSnapshot list" where
  "GetZoneSnapshot s = map new_ZoneSnapshot (io_zones s)"

subsection \<open>Holding a zone\<close>

text \<open>
  The zone list with one zone marked busy.  The search loops acquire zones one by one and give
  back all but the candidate; in terms of \<open>hold\<close> every search is a pure fold over the zones.
\<close>

definition hold :: "nat option \<Rightarrow> zone list \<Rightarrow> zone list" where
  "hold a zs = (case a of None \<Rightarrow> zs | Some i \<Rightarrow> zs[i := (zs ! i)\<lparr> busy := True \<rparr>])"

definition free_at :: "zone list \<Rightarrow> nat option \<Rightarrow> bool" where
  "free_at zs a = (case a of None \<Rightarrow> True | Some i \<Rightarrow> i < length zs \<and> \<not> busy (zs ! i))"

lemma hold_None [simp]: "hold None zs = zs" and free_at_None [simp]: "free_at zs None"
  by (simp_all add: hold_def free_at_def)

lemma free_at_Some [simp]: "free_at zs (Some i) = (i < length zs \<and> \<not> busy (zs ! i))"
  by (simp add: free_at_def)

lemma length_hold [simp]: "length (hold a zs) = length zs"
  by (simp add: hold_def split: option.splits)

lemma nth_hold_other [simp]: "a \<noteq> Some i \<Longrightarrow> hold a zs ! i = zs ! i"
  by (cases a) (simp_all add: hold_def)

lemma nth_hold_same [simp]: "i < length zs \<Longrightarrow> hold (Some i) zs ! i = (zs ! i)\<lparr> busy := True \<rparr>"
  by (simp add: hold_def)

lemma busy_False_id: "\<not> busy z \<Longrightarrow> z\<lparr> busy := False \<rparr> = z"
  by (cases z) simp

lemma io_release_acquired:
  assumes "i < length (io_zones s)" "busy (io_zones s ! i)"
  shows "io_CheckRelease be i s = (OK, set_io i ((io_zones s ! i)\<lparr> busy := False \<rparr>) s)"
  using assms by (simp add: io_CheckRelease_def Let_def)

lemma release_same:
  assumes "i < length zs" "\<not> busy (zs ! i)" "a \<noteq> Some i"
  shows "io_CheckRelease be i (set_io i ((zs ! i)\<lparr> busy := True \<rparr>) (s\<lparr> io_zones := hold a zs \<rparr>))
    = (OK, s\<lparr> io_zones := hold a zs \<rparr>)"
proof -
  have "(hold a zs)[i := (zs ! i)\<lparr> busy := False \<rparr>] = hold a zs"
    using assms by (metis busy_False_id list_update_id nth_hold_other)
  then show ?thesis
    using assms by (subst io_release_acquired) (auto simp: set_io_def)
qed

lemma release_other:
  assumes "i < length zs" "\<not> busy (zs ! i)" "a < length zs" "\<not> busy (zs ! a)" "a \<noteq> i"
  shows "io_CheckRelease be a (set_io i ((zs ! i)\<lparr> busy := True \<rparr>) (s\<lparr> io_zones := hold (Some a) zs \<rparr>))
    = (OK, s\<lparr> io_zones := hold (Some i) zs \<rparr>)"
proof -
  have "(hold (Some a) zs)[i := (zs ! i)\<lparr> busy := True \<rparr>, a := (zs ! a)\<lparr> busy := False \<rparr>]
      = zs[i := (zs ! i)\<lparr> busy := True \<rparr>, a := zs ! a]"
    using assms by (simp add: hold_def busy_False_id list_update_swap)
  also have "\<dots> = hold (Some i) zs"
    using assms by (simp add: hold_def list_update_swap)
  finally show ?thesis
    using assms by (subst io_release_acquired) (auto simp: set_io_def)
qed

lemma set_io_hold:
  "set_io i ((zs ! i)\<lparr> busy := True \<rparr>) (s\<lparr> io_zones := zs \<rparr>) = s\<lparr> io_zones := hold (Some i) zs \<rparr>"
  by (simp add: set_io_def hold_def)

lemma Acquire_free: "\<not> busy z \<Longrightarrow> Acquire z = (True, z\<lparr> busy := True \<rparr>)"
  and Acquire_busy: "busy z \<Longrightarrow> Acquire z = (False, z)"
  by (simp_all add: Acquire_def)

lemma zone_tests_busy [simp]:
  "IsEmpty (z\<lparr> busy := x \<rparr>) = IsEmpty z" "IsFull (z\<lparr> busy := x \<rparr>) = IsFull z"
  "IsUsed (z\<lparr> busy := x \<rparr>) = IsUsed z"
  by (simp_all add: IsEmpty_def IsFull_def IsUsed_def)

subsection \<open>The searches as folds\<close>

definition eligible :: "WriteLifeTimeHint \<Rightarrow> u32 \<Rightarrow> zone \<Rightarrow> bool" where
  "eligible lt min_cap z = (\<not> busy z \<and> used_capacity z > 0 \<and> \<not> IsFull z \<and> capacity z \<ge> ucast min_cap)"

definition best_step ::
  "WriteLifeTimeHint \<Rightarrow> u32 \<Rightarrow> zone list \<Rightarrow> u32 \<times> nat option \<Rightarrow> nat \<Rightarrow> u32 \<times> nat option" where
  "best_step lt mc zs acc i =
     (if eligible lt mc (zs ! i) \<and> GetLifeTimeDiff (lifetime (zs ! i)) lt \<le> fst acc
      then (GetLifeTimeDiff (lifetime (zs ! i)) lt, Some i) else acc)"

lemma best_step_take:
  "eligible lt mc (zs ! i) \<Longrightarrow> GetLifeTimeDiff (lifetime (zs ! i)) lt \<le> bd
    \<Longrightarrow> best_step lt mc zs (bd, a) i = (GetLifeTimeDiff (lifetime (zs ! i)) lt, Some i)"
  and best_step_skip:
  "\<not> (eligible lt mc (zs ! i) \<and> GetLifeTimeDiff (lifetime (zs ! i)) lt \<le> bd)
    \<Longrightarrow> best_step lt mc zs (bd, a) i = (bd, a)"
  by (auto simp: best_step_def)

lemma best_match_loop_fold:
  assumes "distinct is" "\<forall>i\<in>set is. i < length zs" "free_at zs a" "\<forall>i\<in>set is. a \<noteq> Some i"
  shows "best_match_loop be lt mc is bd a (s\<lparr> io_zones := hold a zs \<rparr>)
    = (case foldl (best_step lt mc zs) (bd, a) is of (bd', a') \<Rightarrow>
        (OK, bd', a', s\<lparr> io_zones := hold a' zs \<rparr>))"
  using assms
proof (induction "is" arbitrary: bd a)
  case (Cons i "is")
  then have i: "i < length zs" "a \<noteq> Some i" "hold a zs ! i = zs ! i" by auto
  have IH: "\<And>bd a. free_at zs a \<Longrightarrow> \<forall>i\<in>set is. a \<noteq> Some i \<Longrightarrow>
      best_match_loop be lt mc is bd a (s\<lparr> io_zones := hold a zs \<rparr>)
      = (case foldl (best_step lt mc zs) (bd, a) is of (bd', a') \<Rightarrow>
          (OK, bd', a', s\<lparr> io_zones := hold a' zs \<rparr>))"
    using Cons by auto
  have keep: "free_at zs a" "\<forall>i\<in>set is. a \<noteq> Some i" using Cons.prems by auto
  have new: "\<forall>j\<in>set is. Some i \<noteq> Some j" using Cons.prems by auto
  let ?z = "zs ! i" and ?d = "GetLifeTimeDiff (lifetime (zs ! i)) lt"
  consider (busy) "busy ?z" | (skip) "\<not> busy ?z" "\<not> (eligible lt mc ?z \<and> ?d \<le> bd)"
    | (take) "eligible lt mc ?z" "?d \<le> bd" by blast
  then show ?case
  proof cases
    case busy
    then have "\<not> (eligible lt mc ?z \<and> ?d \<le> bd)" by (simp add: eligible_def)
    with busy show ?thesis using i IH [OF keep] by (simp add: Acquire_busy best_step_skip)
  next
    case skip
    then show ?thesis
      using i IH [OF keep] best_step_skip [OF skip(2)]
      by (auto simp: Acquire_free eligible_def Let_def release_same)
  next
    case take
    then have nb: "\<not> busy ?z" by (simp add: eligible_def)
    show ?thesis
    proof (cases a)
      case None
      then show ?thesis
        using take nb i IH [of "Some i"] new best_step_take [OF take]
        by (simp add: Acquire_free eligible_def Let_def set_io_hold)
    next
      case (Some j)
      then show ?thesis
        using take nb i IH [of "Some i"] new keep best_step_take [OF take]
        by (simp add: Acquire_free eligible_def Let_def release_other)
    qed
  qed
qed simp

text \<open>What the fold finds: the last of the eligible zones with the least difference.\<close>

lemma best_fold_spec:
  assumes "foldl (best_step lt mc zs) (bd, a) is = (bd', a')"
  shows "bd' \<le> bd \<and> (a' = a \<and> bd' = bd \<or> (\<exists>i\<in>set is. a' = Some i \<and> eligible lt mc (zs ! i)
      \<and> bd' = GetLifeTimeDiff (lifetime (zs ! i)) lt))
    \<and> (\<forall>i\<in>set is. eligible lt mc (zs ! i) \<longrightarrow> bd' \<le> GetLifeTimeDiff (lifetime (zs ! i)) lt)
    \<and> (a' = None \<longrightarrow> (\<forall>i\<in>set is. eligible lt mc (zs ! i) \<longrightarrow> bd < GetLifeTimeDiff (lifetime (zs ! i)) lt))"
  using assms
proof (induction "is" arbitrary: bd a)
  case (Cons i "is")
  show ?case
  proof (cases "eligible lt mc (zs ! i) \<and> GetLifeTimeDiff (lifetime (zs ! i)) lt \<le> bd")
    case True
    then have f: "foldl (best_step lt mc zs) (GetLifeTimeDiff (lifetime (zs ! i)) lt, Some i) is = (bd', a')"
      using Cons.prems by (simp add: best_step_take)
    from Cons.IH [OF this] True show ?thesis by (auto intro: order_trans)
  next
    case False
    then have "foldl (best_step lt mc zs) (bd, a) is = (bd', a')"
      using Cons.prems best_step_skip [OF False] by simp
    from Cons.IH [OF this] False show ?thesis by (auto simp: not_le intro: order_trans less_imp_le)
  qed
qed simp

lemma GetLifeTimeDiff_le:
  assumes "zl \<le> WLTH_EXTREME"
  shows "GetLifeTimeDiff zl fl \<le> LIFETIME_DIFF_NOT_GOOD"
proof -
  have "zl - fl \<le> 100" if "fl < zl"
    using that assms by (simp add: WLTH_defs word_le_nat_alt word_less_nat_alt unat_sub_no_wrap)
  with assms show ?thesis
    by (auto simp: GetLifeTimeDiff_def WLTH_defs LIFETIME_DIFF_NOT_GOOD_def
        LIFETIME_DIFF_COULD_BE_WORSE_def intro: order_trans)
qed

lemma GetBestOpenZoneMatch_result:
  obtains bd a where
    "GetBestOpenZoneMatch be lt mc s = (OK, bd, a, s\<lparr> io_zones := hold a (io_zones s) \<rparr>)"
    "foldl (best_step lt mc (io_zones s)) (LIFETIME_DIFF_NOT_GOOD, None) [0..<length (io_zones s)] = (bd, a)"
    "free_at (io_zones s) a"
proof -
  obtain bd a where f: "foldl (best_step lt mc (io_zones s)) (LIFETIME_DIFF_NOT_GOOD, None)
      [0..<length (io_zones s)] = (bd, a)" by fastforce
  have "free_at (io_zones s) a"
    using best_fold_spec [OF f] by (auto simp: eligible_def)
  moreover have "s\<lparr> io_zones := hold None (io_zones s) \<rparr> = s" by simp
  ultimately show ?thesis
    using that [of bd a] f
      best_match_loop_fold [of "[0..<length (io_zones s)]" "io_zones s" None be lt mc LIFETIME_DIFF_NOT_GOOD s]
    by (simp add: GetBestOpenZoneMatch_def)
qed

text \<open>The victim of \<open>FinishCheapestIOZone\<close>, and the zone \<open>AllocateEmptyZone\<close> finds.\<close>

definition finishable :: "zone \<Rightarrow> bool" where
  "finishable z = (\<not> busy z \<and> \<not> (IsEmpty z \<or> IsFull z))"

definition cheapest_step :: "zone list \<Rightarrow> nat option \<Rightarrow> nat \<Rightarrow> nat option" where
  "cheapest_step zs v i =
     (if \<not> finishable (zs ! i) then v
      else case v of None \<Rightarrow> Some i
        | Some j \<Rightarrow> if capacity (zs ! j) > capacity (zs ! i) then Some i else Some j)"

lemma cheapest_loop_fold:
  assumes "distinct is" "\<forall>i\<in>set is. i < length zs" "free_at zs v" "\<forall>i\<in>set is. v \<noteq> Some i"
  shows "cheapest_loop be is v (s\<lparr> io_zones := hold v zs \<rparr>)
    = (OK, foldl (cheapest_step zs) v is,
       s\<lparr> io_zones := hold (foldl (cheapest_step zs) v is) zs \<rparr>)"
  using assms
proof (induction "is" arbitrary: v)
  case (Cons i "is")
  then have i: "i < length zs" "v \<noteq> Some i" "hold v zs ! i = zs ! i" by auto
  have keep: "free_at zs v" "\<forall>i\<in>set is. v \<noteq> Some i" using Cons.prems by auto
  have IH: "\<And>v. free_at zs v \<Longrightarrow> \<forall>i\<in>set is. v \<noteq> Some i \<Longrightarrow>
      cheapest_loop be is v (s\<lparr> io_zones := hold v zs \<rparr>) = (OK, foldl (cheapest_step zs) v is,
         s\<lparr> io_zones := hold (foldl (cheapest_step zs) v is) zs \<rparr>)"
    using Cons by auto
  have new: "\<forall>j\<in>set is. Some i \<noteq> Some j" using Cons.prems by auto
  show ?case
  proof (cases "finishable (zs ! i)")
    case False
    then have "cheapest_step zs v i = v" by (simp add: cheapest_step_def)
    with False show ?thesis
      using i IH [OF keep]
      by (cases "busy (zs ! i)") (auto simp: Acquire_busy Acquire_free finishable_def Let_def release_same)
  next
    case True
    then have nb: "\<not> busy (zs ! i)" "\<not> (IsEmpty (zs ! i) \<or> IsFull (zs ! i))"
      by (auto simp: finishable_def)
    show ?thesis
    proof (cases v)
      case None
      then have "cheapest_step zs v i = Some i" using True by (simp add: cheapest_step_def)
      with None nb show ?thesis
        using i IH [of "Some i"] new by (simp add: Acquire_free Let_def set_io_hold)
    next
      case (Some j)
      then have j: "j < length zs" "\<not> busy (zs ! j)" "j \<noteq> i" using Cons.prems by auto
      have cap: "capacity ((hold v zs)[i := (zs ! i)\<lparr> busy := True \<rparr>] ! j) = capacity (zs ! j)"
        using Some j by simp
      have step: "cheapest_step zs v i = (if capacity (zs ! j) > capacity (zs ! i) then Some i else Some j)"
        using True Some by (simp add: cheapest_step_def)
      show ?thesis
        using Some nb i j keep IH [of "Some i"] IH [of "Some j"] new step cap
        by (auto simp: Acquire_free Let_def release_other release_same) (auto simp: set_io_def)
    qed
  qed
qed simp

lemma cheapest_fold_spec:
  "foldl (cheapest_step zs) v is = v'
    \<Longrightarrow> (v' = v \<or> (\<exists>i\<in>set is. v' = Some i \<and> finishable (zs ! i)))
      \<and> (\<forall>i\<in>set is. finishable (zs ! i) \<longrightarrow> (\<exists>j. v' = Some j \<and> capacity (zs ! j) \<le> capacity (zs ! i)))
      \<and> (\<forall>j. v = Some j \<longrightarrow> (\<exists>k. v' = Some k \<and> capacity (zs ! k) \<le> capacity (zs ! j)))"
proof (induction "is" arbitrary: v)
  case (Cons i "is")
  from Cons.IH [of "cheapest_step zs v i"] Cons.prems
  have IH: "(v' = cheapest_step zs v i \<or> (\<exists>i\<in>set is. v' = Some i \<and> finishable (zs ! i)))
      \<and> (\<forall>i\<in>set is. finishable (zs ! i) \<longrightarrow> (\<exists>j. v' = Some j \<and> capacity (zs ! j) \<le> capacity (zs ! i)))
      \<and> (\<forall>j. cheapest_step zs v i = Some j
          \<longrightarrow> (\<exists>k. v' = Some k \<and> capacity (zs ! k) \<le> capacity (zs ! j)))" by simp
  show ?case
  proof (cases "finishable (zs ! i)")
    case False
    then have "cheapest_step zs v i = v" by (simp add: cheapest_step_def)
    with IH False show ?thesis by auto
  next
    case True
    show ?thesis
      using IH True
      by (cases v) (auto simp: cheapest_step_def not_less split: if_splits
          intro: order_trans less_imp_le)
  qed
qed simp

lemma empty_zone_loop_find:
  assumes "\<forall>i\<in>set is. i < length zs"
  shows "empty_zone_loop be is (s\<lparr> io_zones := zs \<rparr>)
    = (let a = List.find (\<lambda>i. \<not> busy (zs ! i) \<and> IsEmpty (zs ! i)) is in
       (OK, a, s\<lparr> io_zones := hold a zs \<rparr>))"
  using assms
proof (induction "is")
  case (Cons i "is")
  then have i: "i < length zs" by simp
  show ?case
  proof (cases "\<not> busy (zs ! i) \<and> \<not> IsEmpty (zs ! i)")
    case True
    then show ?thesis
      using Cons i release_same [of i zs None be s] by (simp add: Acquire_free Let_def)
  next
    case False
    then show ?thesis
      using Cons i by (cases "busy (zs ! i)") (auto simp: Acquire_free Acquire_busy Let_def set_io_hold)
  qed
qed simp

subsection \<open>Accounting of busy flags and tokens\<close>

text \<open>
  A zone is active when it is partly written.  \<open>slack\<close> is the number of active tokens that are
  not accounted for by an active zone: the tokens of zones that are about to be written.
\<close>

definition act :: "zone \<Rightarrow> int" where
  "act z = (if IsEmpty z \<or> IsFull z then 0 else 1)"

definition slack :: "'b zbd \<Rightarrow> int" where
  "slack s = active_io_zones s - sum_list (map act (io_zones s))"

text \<open>A step that moves no zone in or out of use and keeps the accounts balanced.\<close>

definition quiet :: "'b zbd \<Rightarrow> 'b zbd \<Rightarrow> bool" where
  "quiet s s' = (map busy (io_zones s') = map busy (io_zones s)
     \<and> map used_capacity (io_zones s') = map used_capacity (io_zones s)
     \<and> map start (io_zones s') = map start (io_zones s)
     \<and> open_io_zones s' = open_io_zones s \<and> slack s' = slack s
     \<and> meta_zones s' = meta_zones s \<and> migrating s' = migrating s
     \<and> max_nr_active_io_zones s' = max_nr_active_io_zones s
     \<and> max_nr_open_io_zones s' = max_nr_open_io_zones s)"

lemma quiet_refl [simp]: "quiet s s"
  by (simp add: quiet_def)

lemma quiet_trans: "quiet s1 s2 \<Longrightarrow> quiet s2 s3 \<Longrightarrow> quiet s1 s3"
  by (simp add: quiet_def)

lemma quiet_length: "quiet s s' \<Longrightarrow> length (io_zones s') = length (io_zones s)"
  unfolding quiet_def by (metis length_map)

lemma act_busy [simp]: "act (z\<lparr> busy := x \<rparr>) = act z"
  by (simp add: act_def)

lemma map_update_same: "i < length xs \<Longrightarrow> f y = f (xs ! i) \<Longrightarrow> map f (xs[i := y]) = map f xs"
  by (metis list_update_id map_update nth_map)

lemma quiet_update:
  assumes "i < length (io_zones s)" "busy z = busy (io_zones s ! i)"
    "used_capacity z = used_capacity (io_zones s ! i)" "start z = start (io_zones s ! i)"
    "act z - act (io_zones s ! i) = d"
  shows "quiet s (s\<lparr> zbd_be := b, io_zones := (io_zones s)[i := z], active_io_zones := active_io_zones s + d \<rparr>)"
  using assms sum_list_update_diff [OF assms(1), of act z]
  by (simp add: quiet_def slack_def map_update_same)

lemma quiet_hold_finish:
  assumes "i < length zs" "finishable (zs ! i)" "io_zones s = zs"
    and fin: "Finish be ((zs ! i)\<lparr> busy := True \<rparr>) b = (st, z1, b1)"
  defines "s1 \<equiv> s\<lparr> zbd_be := b1, io_zones := zs[i := z1\<lparr> busy := False \<rparr>] \<rparr>"
  shows "if ok st then quiet s (PutActiveIOZoneToken s1) else quiet s s1"
proof -
  have z1: "start z1 = start (zs ! i)" "used_capacity z1 = used_capacity (zs ! i)" "busy z1"
    "if ok st then IsFull z1 else z1 = (zs ! i)\<lparr> busy := True \<rparr>"
    using fin by (auto simp: Finish_def Let_def IsFull_def split: prod.splits if_splits)
  have "act (z1\<lparr> busy := False \<rparr>) - act (zs ! i) = (if ok st then - 1 else 0)"
    using assms(2) z1(4) by (auto simp: act_def finishable_def)
  then show ?thesis
    using quiet_update [of i s "z1\<lparr> busy := False \<rparr>" _ b1] assms(1-3) z1(1,2)
    by (auto simp: s1_def finishable_def PutActiveIOZoneToken_def)
qed

lemma FinishCheapestIOZone_result:
  obtains v where "foldl (cheapest_step (io_zones s)) None [0..<length (io_zones s)] = v"
    "case v of None \<Rightarrow> FinishCheapestIOZone be s = (OK, s)
     | Some i \<Rightarrow> i < length (io_zones s) \<and> finishable (io_zones s ! i)
         \<and> FinishCheapestIOZone be s = (case Finish be ((io_zones s ! i)\<lparr> busy := True \<rparr>) (zbd_be s) of
             (st, z1, b1) \<Rightarrow> let s1 = s\<lparr> zbd_be := b1, io_zones := (io_zones s)[i := z1\<lparr> busy := False \<rparr>] \<rparr> in
               (st, if ok st then PutActiveIOZoneToken s1 else s1))"
proof
  let ?v = "foldl (cheapest_step (io_zones s)) None [0..<length (io_zones s)]"
  have loop: "cheapest_loop be [0..<length (io_zones s)] None s
      = (OK, ?v, s\<lparr> io_zones := hold ?v (io_zones s) \<rparr>)"
    using cheapest_loop_fold [of "[0..<length (io_zones s)]" "io_zones s" None be s] by simp
  show "case ?v of None \<Rightarrow> FinishCheapestIOZone be s = (OK, s)
     | Some i \<Rightarrow> i < length (io_zones s) \<and> finishable (io_zones s ! i)
         \<and> FinishCheapestIOZone be s = (case Finish be ((io_zones s ! i)\<lparr> busy := True \<rparr>) (zbd_be s) of
             (st, z1, b1) \<Rightarrow> let s1 = s\<lparr> zbd_be := b1, io_zones := (io_zones s)[i := z1\<lparr> busy := False \<rparr>] \<rparr> in
               (st, if ok st then PutActiveIOZoneToken s1 else s1))"
  proof (cases ?v)
    case None
    then show ?thesis using loop by (simp add: FinishCheapestIOZone_def)
  next
    case (Some i)
    then have i: "i < length (io_zones s)" "finishable (io_zones s ! i)"
      using cheapest_fold_spec [OF refl, of "io_zones s" None "[0..<length (io_zones s)]"] by auto
    obtain st z1 b1 where fin: "Finish be ((io_zones s ! i)\<lparr> busy := True \<rparr>) (zbd_be s) = (st, z1, b1)"
      by (metis prod_cases3)
    then have "busy z1" by (auto simp: Finish_def Let_def split: prod.splits if_splits)
    then have "io_CheckRelease be i (set_io i z1 (s\<lparr> io_zones := hold (Some i) (io_zones s), zbd_be := b1 \<rparr>))
        = (OK, s\<lparr> zbd_be := b1, io_zones := (io_zones s)[i := z1\<lparr> busy := False \<rparr>] \<rparr>)"
      using i by (subst io_release_acquired) (auto simp: set_io_def hold_def)
    with i fin Some show ?thesis
      using loop by (simp add: FinishCheapestIOZone_def Let_def)
  qed
qed simp

lemma FinishCheapestIOZone_quiet: "FinishCheapestIOZone be s = (st, s') \<Longrightarrow> quiet s s'"
proof (rule FinishCheapestIOZone_result [of s be])
  fix v
  assume f: "FinishCheapestIOZone be s = (st, s')"
  assume r: "case v of None \<Rightarrow> FinishCheapestIOZone be s = (OK, s)
     | Some i \<Rightarrow> i < length (io_zones s) \<and> finishable (io_zones s ! i)
         \<and> FinishCheapestIOZone be s = (case Finish be ((io_zones s ! i)\<lparr> busy := True \<rparr>) (zbd_be s) of
             (st, z1, b1) \<Rightarrow> let s1 = s\<lparr> zbd_be := b1, io_zones := (io_zones s)[i := z1\<lparr> busy := False \<rparr>] \<rparr> in
               (st, if ok st then PutActiveIOZoneToken s1 else s1))"
  show "quiet s s'"
  proof (cases v)
    case (Some i)
    obtain st1 z1 b1 where fin: "Finish be ((io_zones s ! i)\<lparr> busy := True \<rparr>) (zbd_be s) = (st1, z1, b1)"
      by (metis prod_cases3)
    show ?thesis
      using quiet_hold_finish [of i "io_zones s" s be "zbd_be s" st1 z1 b1] r Some fin f
      by (auto simp: Let_def split: if_splits)
  qed (use f r in simp)
qed

lemma finish_threshold_loop_quiet:
  assumes "finish_threshold_loop be is s = (st, s')" "\<forall>i\<in>set is. i < length (io_zones s)"
  shows "quiet s s'"
  using assms
proof (induction "is" arbitrary: s)
  case (Cons i "is")
  let ?z = "io_zones s ! i"
  have i: "i < length (io_zones s)" using Cons.prems by simp
  have rest: "quiet s s'" if "quiet s s1" "finish_threshold_loop be is s1 = (st, s')" for s1
    using quiet_trans [OF that(1) Cons.IH [OF that(2)]] quiet_length [OF that(1)] Cons.prems(2) by auto
  have skip: "io_CheckRelease be i (set_io i (?z\<lparr> busy := True \<rparr>) s) = (OK, s)" if "\<not> busy ?z"
    using release_same [of i "io_zones s" None be s] i that by simp
  consider "busy ?z" | "\<not> busy ?z" "\<not> (finishable ?z \<and> within_finish_threshold (finish_threshold s) ?z)"
    | "finishable ?z" "within_finish_threshold (finish_threshold s) ?z" by blast
  then show ?case
  proof cases
    case 1
    then show ?thesis using rest [of s] Cons.prems by (simp add: Acquire_busy)
  next
    case 2
    then show ?thesis
      using rest [of s] Cons.prems(1) skip
      by (auto simp: Acquire_free finishable_def within_finish_threshold_def)
  next
    case 3
    obtain st1 z1 b1 where fin: "Finish be (?z\<lparr> busy := True \<rparr>) (zbd_be s) = (st1, z1, b1)"
      by (metis prod_cases3)
    then have bz: "busy z1" by (auto simp: Finish_def Let_def split: prod.splits if_splits)
    let ?s1 = "s\<lparr> zbd_be := b1, io_zones := (io_zones s)[i := z1\<lparr> busy := False \<rparr>] \<rparr>"
    have rel: "io_CheckRelease be i (set_io i z1 (s\<lparr> zbd_be := b1 \<rparr>)) = (OK, ?s1)"
      using i bz by (subst io_release_acquired) (auto simp: set_io_def)
    have q: "if ok st1 then quiet s (PutActiveIOZoneToken ?s1) else quiet s ?s1"
      by (rule quiet_hold_finish [OF i _ _ fin]) (use 3 in simp_all)
    show ?thesis
      using Cons.prems(1) 3 fin rel q bz rest [of "PutActiveIOZoneToken ?s1"]
      by (auto simp: Acquire_free finishable_def within_finish_threshold_def Release_def set_io_def
          split: if_splits)
  qed
qed simp

lemma ApplyFinishThreshold_quiet: "ApplyFinishThreshold be s = (st, s') \<Longrightarrow> quiet s s'"
  using finish_threshold_loop_quiet [of be "[0..<length (io_zones s)]" s st s']
  by (auto simp: ApplyFinishThreshold_def split: if_splits)

text \<open>Taking a token changes only the counter.\<close>

definition quiet_tok :: "int \<Rightarrow> int \<Rightarrow> 'b zbd \<Rightarrow> 'b zbd \<Rightarrow> bool" where
  "quiet_tok opn actv s s' = quiet s (s'\<lparr> open_io_zones := open_io_zones s' - opn,
     active_io_zones := active_io_zones s' - actv \<rparr>)"

lemma quiet_tok_trans:
  "quiet_tok o1 a1 s1 s2 \<Longrightarrow> quiet_tok o2 a2 s2 s3 \<Longrightarrow> quiet_tok (o1 + o2) (a1 + a2) s1 s3"
  by (simp add: quiet_tok_def quiet_def slack_def)

lemma quiet_tok_0: "quiet s s' = quiet_tok 0 0 s s'"
  by (simp add: quiet_tok_def)

lemma quiet_tok_puts [simp]:
  "quiet_tok o1 a1 s (PutOpenIOZoneToken s') = quiet_tok (o1 + 1) a1 s s'"
  "quiet_tok o1 a1 s (PutActiveIOZoneToken s') = quiet_tok o1 (a1 + 1) s s'"
  by (auto simp: quiet_tok_def quiet_def slack_def PutOpenIOZoneToken_def PutActiveIOZoneToken_def)

lemma quiet_tok_gets:
  "WaitForOpenIOZoneToken p s = Some s' \<Longrightarrow> quiet_tok 1 0 s s'"
  "GetActiveIOZoneTokenIfAvailable s = (g, s') \<Longrightarrow> quiet_tok 0 (if g then 1 else 0) s s'"
  by (auto simp: quiet_tok_def quiet_def slack_def WaitForOpenIOZoneToken_def Let_def
      GetActiveIOZoneTokenIfAvailable_def split: if_splits)

lemma active_token_loop_quiet:
  "active_token_loop be s = Some (st, s') \<Longrightarrow> quiet_tok 0 (if ok st then 1 else 0) s s'"
proof -
  let ?P = "\<lambda>be s r. quiet_tok 0 (if ok (fst r) then 1 else 0) s (snd r)"
  assume "active_token_loop be s = Some (st, s')"
  then have "?P be s (st, s')"
  proof (rule active_token_loop.raw_induct [where P = ?P, rotated])
    fix loop and be :: "'a backend" and s r
    assume IH: "\<And>(be :: 'a backend) s r. loop be s = Some r \<Longrightarrow> ?P be s r"
      and body: "(let (got, s1) = GetActiveIOZoneTokenIfAvailable s in if got then Some (OK, s1)
        else let (st, s2) = FinishCheapestIOZone be s1 in
          if \<not> ok st then Some (st, s2) else loop be s2) = Some r"
    obtain got s1 where g: "GetActiveIOZoneTokenIfAvailable s = (got, s1)" by fastforce
    obtain st2 s2 where f: "FinishCheapestIOZone be s1 = (st2, s2)" by fastforce
    have q1: "quiet_tok 0 (if got then 1 else 0) s s1" using quiet_tok_gets(2) [OF g] .
    have q2: "quiet_tok 0 0 s1 s2" using FinishCheapestIOZone_quiet [OF f] by (simp add: quiet_tok_0)
    show "?P be s r"
    proof (cases got)
      case True
      with body g q1 show ?thesis by auto
    next
      case False
      have q: "quiet_tok 0 0 s s2" using quiet_tok_trans [OF q1 q2] False by simp
      show ?thesis
      proof (cases "ok st2")
        case True
        then have "loop be s2 = Some r" using body g f False by simp
        from quiet_tok_trans [OF q IH [OF this]] show ?thesis by simp
      next
        case bad: False
        then have "r = (st2, s2)" using body g f False by simp
        with q bad show ?thesis by simp
      qed
    qed
  qed
  then show ?thesis by simp
qed

subsection \<open>The allocator\<close>

lemma AllocateEmptyZone_result:
  "AllocateEmptyZone be s = (let a = List.find (\<lambda>i. \<not> busy (io_zones s ! i) \<and> IsEmpty (io_zones s ! i))
      [0..<length (io_zones s)] in (OK, a, s\<lparr> io_zones := hold a (io_zones s) \<rparr>))"
  using empty_zone_loop_find [of "[0..<length (io_zones s)]" "io_zones s" be s]
  by (simp add: AllocateEmptyZone_def Let_def)

text \<open>The state after a zone has been handed out: \<open>s1\<close> with zone \<open>i\<close> marked busy.\<close>

definition handed_out :: "'b zbd \<Rightarrow> nat \<Rightarrow> zone \<Rightarrow> 'b zbd \<Rightarrow> bool" where
  "handed_out s1 i z s' = (i < length (io_zones s1) \<and> \<not> busy (io_zones s1 ! i)
     \<and> s' = s1\<lparr> io_zones := (io_zones s1)[i := z] \<rparr> \<and> busy z \<and> act z = act (io_zones s1 ! i)
     \<and> used_capacity z = used_capacity (io_zones s1 ! i) \<and> start z = start (io_zones s1 ! i))"

lemma handed_out_facts:
  assumes "quiet_tok opn actv s s1" "handed_out s1 i z s'"
  shows "i < length (io_zones s)" "\<not> busy (io_zones s ! i)" "io_zones s' ! i = z"
    "map busy (io_zones s') = (map busy (io_zones s))[i := True]"
    "open_io_zones s' = open_io_zones s + opn" "slack s' = slack s + actv"
proof -
  have b: "map busy (io_zones s1) = map busy (io_zones s)"
    using assms(1) by (simp add: quiet_tok_def quiet_def)
  then have len: "length (io_zones s1) = length (io_zones s)" by (metis length_map)
  show "i < length (io_zones s)" using assms(2) len by (simp add: handed_out_def)
  show "\<not> busy (io_zones s ! i)"
    using assms(2) b len unfolding handed_out_def by (metis nth_map)
  show "io_zones s' ! i = z" using assms(2) by (simp add: handed_out_def)
  show "map busy (io_zones s') = (map busy (io_zones s))[i := True]"
    using assms(2) b by (simp add: handed_out_def map_update)
  show "open_io_zones s' = open_io_zones s + opn"
    using assms by (simp add: handed_out_def quiet_tok_def quiet_def)
  show "slack s' = slack s + actv"
    using assms sum_list_update_diff [of i "io_zones s1" act z]
    by (simp add: handed_out_def quiet_tok_def quiet_def slack_def)
qed

lemma allocate_new_zone_result:
  assumes "allocate_new_zone be lt g s = Some (st, a, s')"
  shows "case a of None \<Rightarrow> quiet_tok (- 1) (if g then - 1 else 0) s s'
    | Some i \<Rightarrow> ok st \<and> (\<exists>s1 z. quiet_tok 0 (if g then 0 else 1) s s1 \<and> handed_out s1 i z s'
        \<and> IsEmpty z \<and> lifetime z = lt)"
proof -
  obtain st1 s1 where tok: "(if g then Some (OK, s) else active_token_loop be s) = Some (st1, s1)"
    using assms by (auto simp: allocate_new_zone_def split: option.splits)
  have q: "quiet_tok 0 (if ok st1 \<and> \<not> g then 1 else 0) s s1"
    using tok active_token_loop_quiet [of be s st1 s1]
    by (auto simp: quiet_tok_0 [symmetric] split: if_splits)
  obtain a2 where a2: "a2 = List.find (\<lambda>i. \<not> busy (io_zones s1 ! i) \<and> IsEmpty (io_zones s1 ! i))
      [0..<length (io_zones s1)]" by simp
  have alloc: "AllocateEmptyZone be s1 = (OK, a2, s1\<lparr> io_zones := hold a2 (io_zones s1) \<rparr>)"
    by (simp add: AllocateEmptyZone_result a2 Let_def)
  show ?thesis
  proof (cases "ok st1")
    case False
    then have "a = None" "s' = PutOpenIOZoneToken s1" "\<not> g"
      using assms tok by (auto simp: allocate_new_zone_def split: if_splits)
    with q False show ?thesis by simp
  next
    case okst: True
    show ?thesis
    proof (cases a2)
      case None
      then have "a = None" "s' = PutOpenIOZoneToken (PutActiveIOZoneToken s1)"
        using assms tok okst alloc by (auto simp: allocate_new_zone_def)
      with q okst show ?thesis by (cases g) auto
    next
      case (Some i)
      let ?z = "(io_zones s1 ! i)\<lparr> busy := True, lifetime := lt \<rparr>"
      have i: "i < length (io_zones s1)" "\<not> busy (io_zones s1 ! i)" "IsEmpty (io_zones s1 ! i)"
        using Some a2 by (auto simp: find_Some_iff)
      have r: "st = OK" "a = Some i" "s' = s1\<lparr> io_zones := (io_zones s1)[i := ?z] \<rparr>"
        using assms tok okst alloc Some i
        by (auto simp: allocate_new_zone_def set_io_def hold_def)
      have "handed_out s1 i ?z s'" "IsEmpty ?z" "lifetime ?z = lt"
        using i r by (simp_all add: handed_out_def act_def IsEmpty_def IsFull_def)
      moreover have "quiet_tok 0 (if g then 0 else 1) s s1" using q okst by (cases g) auto
      ultimately show ?thesis using r(1,2) by (auto intro!: exI [of _ s1] exI [of _ ?z])
    qed
  qed
qed

lemma handed_out_hold:
  "free_at (io_zones s) (Some i) \<Longrightarrow>
    handed_out s i ((io_zones s ! i)\<lparr> busy := True \<rparr>) (s\<lparr> io_zones := hold (Some i) (io_zones s) \<rparr>)"
  by (simp add: handed_out_def hold_def)

lemma handed_out_token:
  "GetActiveIOZoneTokenIfAvailable s = (False, s') \<Longrightarrow> s' = s"
  by (auto simp: GetActiveIOZoneTokenIfAvailable_def split: if_splits)

lemma GetActive_io_zones:
  "GetActiveIOZoneTokenIfAvailable (s\<lparr> io_zones := zs \<rparr>)
    = (case GetActiveIOZoneTokenIfAvailable s of (g, s') \<Rightarrow> (g, s'\<lparr> io_zones := zs \<rparr>))"
  by (simp add: GetActiveIOZoneTokenIfAvailable_def)

lemma release_hold:
  assumes "free_at (io_zones s) (Some i)" "io_zones s' = io_zones s"
  shows "io_CheckRelease be i (s'\<lparr> io_zones := hold (Some i) (io_zones s) \<rparr>) = (OK, s')"
proof -
  have "s'\<lparr> io_zones := io_zones s \<rparr> = s'" using assms(2) by (metis zbd.surjective zbd.update_convs(2))
  then show ?thesis
    using assms(1) by (subst io_release_acquired) (simp_all add: set_io_def hold_def busy_False_id)
qed

text \<open>What \<open>AllocateIOZone\<close> may return: no zone and balanced accounts, or a zone handed out.\<close>

definition alloc_result :: "WriteLifeTimeHint \<Rightarrow> 'b zbd \<Rightarrow> status \<times> nat option \<times> 'b zbd \<Rightarrow> bool" where
  "alloc_result lt s r = (case r of (st, a, s') \<Rightarrow>
     (case a of None \<Rightarrow> quiet s s'
      | Some i \<Rightarrow> ok st \<and> (\<exists>s1 z new. quiet_tok 1 (if new then 1 else 0) s s1 \<and> handed_out s1 i z s'
          \<and> (if new then IsEmpty z \<and> lifetime z = lt else IsUsed z \<and> \<not> IsFull z))))"

lemma alloc_result_new:
  assumes "allocate_new_zone be lt g s2 = Some r" "quiet_tok 1 (if g then 1 else 0) s s2"
  shows "alloc_result lt s r"
proof -
  obtain st a s' where r: "r = (st, a, s')" by (cases r) auto
  note res = allocate_new_zone_result [OF assms(1) [unfolded r]]
  show ?thesis
  proof (cases a)
    case None
    with res quiet_tok_trans [OF assms(2), of "- 1" "if g then - 1 else 0" s'] show ?thesis
      by (cases g) (simp_all add: r alloc_result_def quiet_tok_0)
  next
    case (Some i)
    then obtain s1 z where s1: "ok st" "quiet_tok 0 (if g then 0 else 1) s2 s1" "handed_out s1 i z s'"
      "IsEmpty z" "lifetime z = lt" using res by auto
    have "quiet_tok 1 1 s s1" using quiet_tok_trans [OF assms(2) s1(2)] by (cases g) auto
    with s1 Some show ?thesis
      unfolding r alloc_result_def by (auto intro!: exI [of _ s1] exI [of _ z] exI [of _ True])
  qed
qed

lemma alloc_result_used:
  assumes "quiet_tok 1 0 s s1" "free_at (io_zones s1) (Some i)" "IsUsed (io_zones s1 ! i)"
    "\<not> IsFull (io_zones s1 ! i)"
  shows "alloc_result lt s (OK, Some i, s1\<lparr> io_zones := hold (Some i) (io_zones s1) \<rparr>)"
  using assms handed_out_hold [OF assms(2)]
  unfolding alloc_result_def
  by (auto intro!: exI [of _ s1] exI [of _ "(io_zones s1 ! i)\<lparr> busy := True \<rparr>"] exI [of _ False])

lemma AllocateIOZone_result:
  assumes "AllocateIOZone be lt t s = Some r"
  shows "alloc_result lt s r"
proof -
  obtain st1 s1 where fin: "(if t \<noteq> kWAL then ApplyFinishThreshold be s else (OK, s)) = (st1, s1)"
    by fastforce
  have q1: "quiet s s1" using fin ApplyFinishThreshold_quiet [of be s st1 s1] by (auto split: if_splits)
  show ?thesis
  proof (cases "ok (GetZoneDeferredStatus s) \<and> ok st1")
    case False
    then have "fst (snd r) = None" "quiet s (snd (snd r))"
      using assms fin q1 by (auto simp: AllocateIOZone_def split: if_splits)
    then show ?thesis by (cases r) (simp add: alloc_result_def)
  next
    case oks: True
    then obtain s2 where tok: "WaitForOpenIOZoneToken (t = kWAL) s1 = Some s2"
      using assms fin by (auto simp: AllocateIOZone_def split: option.splits)
    have q2: "quiet_tok 1 0 s s2"
      using quiet_tok_trans [OF q1 [unfolded quiet_tok_0] quiet_tok_gets(1) [OF tok]] by simp
    obtain bd a where best: "GetBestOpenZoneMatch be lt 0 s2 = (OK, bd, a, s2\<lparr> io_zones := hold a (io_zones s2) \<rparr>)"
      and f: "foldl (best_step lt 0 (io_zones s2)) (LIFETIME_DIFF_NOT_GOOD, None)
        [0..<length (io_zones s2)] = (bd, a)" and fr: "free_at (io_zones s2) a"
      by (rule GetBestOpenZoneMatch_result)
    have used: "IsUsed (io_zones s2 ! i)" "\<not> IsFull (io_zones s2 ! i)" if "a = Some i" for i
      using best_fold_spec [OF f] that by (auto simp: eligible_def IsUsed_def)
    obtain g s3 where g: "GetActiveIOZoneTokenIfAvailable s2 = (g, s3)" by fastforce
    have q3: "quiet_tok 1 (if g then 1 else 0) s s3"
      using quiet_tok_trans [OF q2 quiet_tok_gets(2) [OF g]] by simp
    have z3: "io_zones s3 = io_zones s2"
      using g by (auto simp: GetActiveIOZoneTokenIfAvailable_def split: if_splits)
    have z3': "s3\<lparr> io_zones := io_zones s2 \<rparr> = s3"
      using z3 by (metis zbd.surjective zbd.update_convs(2))
    note alloc = assms [unfolded AllocateIOZone_def, simplified fin tok best GetActive_io_zones g Let_def
        prod.case option.case oks if_True not_True_eq_False if_False ok_OK]
    show ?thesis
    proof (cases a)
      case None
      then consider "allocate_new_zone be lt g s3 = Some r" | "r = (OK, None, PutOpenIOZoneToken s2)"
        using alloc z3' oks by (auto simp: fin tok best GetActive_io_zones g split: if_splits)
      then show ?thesis
      proof cases
        case 1
        then show ?thesis using alloc_result_new q3 by blast
      next
        case 2
        then show ?thesis using q2 by (simp add: alloc_result_def quiet_tok_0)
      qed
    next
      case (Some i)
      have rel: "io_CheckRelease be i (s3\<lparr> io_zones := hold (Some i) (io_zones s2) \<rparr>) = (OK, s3)"
        by (rule release_hold) (use fr Some z3 in simp_all)
      consider "r = (OK, Some i, s2\<lparr> io_zones := hold (Some i) (io_zones s2) \<rparr>)"
        | "\<not> g" "r = (OK, Some i, s3\<lparr> io_zones := hold (Some i) (io_zones s2) \<rparr>)"
        | "allocate_new_zone be lt g s3 = Some r"
        using alloc Some rel oks by (auto simp: fin tok best GetActive_io_zones g split: if_splits)
      then show ?thesis
      proof cases
        case 1
        then show ?thesis using alloc_result_used [OF q2] fr Some used by simp
      next
        case 2
        then have "s3 = s2" using handed_out_token g by simp
        with 2 show ?thesis using alloc_result_used [OF q2] fr Some used by simp
      next
        case 3
        then show ?thesis using alloc_result_new q3 by blast
      qed
    qed
  qed
qed

subsection \<open>Resetting unused zones\<close>

definition reset_done :: "zone \<Rightarrow> zone \<Rightarrow> bool" where
  "reset_done z z' = (if busy z \<or> IsUsed z \<or> IsEmpty z then z' = z else IsEmpty z' \<and> \<not> IsUsed z' \<and> \<not> busy z')"

lemma reset_one:
  assumes "i < length (io_zones s)" "\<not> busy (io_zones s ! i)" "\<not> IsEmpty (io_zones s ! i)"
    "\<not> IsUsed (io_zones s ! i)"
    and r: "Reset be ((io_zones s ! i)\<lparr> busy := True \<rparr>) (zbd_be s) = (st, z1, b1)"
  defines "s1 \<equiv> s\<lparr> zbd_be := b1, io_zones := (io_zones s)[i := z1\<lparr> busy := False \<rparr>] \<rparr>"
  shows "io_CheckRelease be i (set_io i z1 (s\<lparr> zbd_be := b1 \<rparr>)) = (OK, s1)"
    "if ok st then quiet s (if \<not> IsFull (io_zones s ! i) then PutActiveIOZoneToken s1 else s1)
       \<and> reset_done (io_zones s ! i) (z1\<lparr> busy := False \<rparr>)
     else quiet s s1"
proof -
  let ?z = "io_zones s ! i"
  have z1: "start z1 = start ?z" "used_capacity z1 = used_capacity ?z" "busy z1"
    "if ok st then IsEmpty z1 else z1 = ?z\<lparr> busy := True \<rparr>"
    using r by (auto simp: Reset_def Let_def IsEmpty_def split: prod.splits if_splits)
  show "io_CheckRelease be i (set_io i z1 (s\<lparr> zbd_be := b1 \<rparr>)) = (OK, s1)"
    using assms(1) z1(3) by (subst io_release_acquired) (auto simp: set_io_def s1_def)
  have "act (z1\<lparr> busy := False \<rparr>) - act ?z = (if ok st \<and> \<not> IsFull ?z then - 1 else 0)"
    using assms(3) z1(4) by (auto simp: act_def split: if_splits)
  then have "quiet s (if ok st \<and> \<not> IsFull ?z then PutActiveIOZoneToken s1 else s1)"
    using quiet_update [of i s "z1\<lparr> busy := False \<rparr>" _ b1] assms(1,2) z1(1,2)
    by (auto simp: s1_def PutActiveIOZoneToken_def)
  then show "if ok st then quiet s (if \<not> IsFull ?z then PutActiveIOZoneToken s1 else s1)
       \<and> reset_done ?z (z1\<lparr> busy := False \<rparr>) else quiet s s1"
    using assms(2-4) z1 by (auto simp: reset_done_def IsUsed_def split: if_splits)
qed

lemma reset_unused_result:
  assumes "reset_unused be is s = (st, s')" "distinct is" "\<forall>i\<in>set is. i < length (io_zones s)"
  shows "quiet s s' \<and> (\<forall>j. j \<notin> set is \<longrightarrow> io_zones s' ! j = io_zones s ! j)
    \<and> (ok st \<longrightarrow> (\<forall>j\<in>set is. reset_done (io_zones s ! j) (io_zones s' ! j)))"
  using assms
proof (induction "is" arbitrary: s)
  case (Cons i "is")
  let ?z = "io_zones s ! i"
  have i: "i < length (io_zones s)" "i \<notin> set is" using Cons.prems by auto
  have rest: ?case if "quiet s s1" "reset_unused be is s1 = (st, s')"
    and same: "\<And>j. j \<noteq> i \<Longrightarrow> io_zones s1 ! j = io_zones s ! j" and "reset_done ?z (io_zones s1 ! i)" for s1
  proof -
    have "\<forall>j\<in>set is. j < length (io_zones s1)"
      using Cons.prems(3) quiet_length [OF that(1)] by auto
    from Cons.IH [OF that(2) _ this] Cons.prems(2)
    have IH: "quiet s1 s'" "\<And>j. j \<notin> set is \<Longrightarrow> io_zones s' ! j = io_zones s1 ! j"
      "\<And>j. ok st \<Longrightarrow> j \<in> set is \<Longrightarrow> reset_done (io_zones s1 ! j) (io_zones s' ! j)" by auto
    have "reset_done (io_zones s ! j) (io_zones s' ! j)" if "ok st" "j \<in> set is" for j
    proof -
      have "j \<noteq> i" using that(2) i(2) by auto
      then show ?thesis using IH(3) [OF that] same by simp
    qed
    then show ?thesis
      using quiet_trans [OF \<open>quiet s s1\<close> IH(1)] IH(2) same \<open>reset_done ?z (io_zones s1 ! i)\<close> i(2) by auto
  qed
  consider "busy ?z" | "\<not> busy ?z" "IsEmpty ?z \<or> IsUsed ?z"
    | (reset) "\<not> busy ?z" "\<not> IsEmpty ?z" "\<not> IsUsed ?z" by blast
  then show ?case
  proof cases
    case 1
    then show ?thesis using rest [of s] Cons.prems(1) by (simp add: Acquire_busy reset_done_def)
  next
    case 2
    have "io_CheckRelease be i (set_io i (?z\<lparr> busy := True \<rparr>) s) = (OK, s)"
      using release_same [of i "io_zones s" None be s] i 2 by simp
    then show ?thesis
      using rest [of s] Cons.prems(1) 2 by (auto simp: Acquire_free reset_done_def)
  next
    case reset
    obtain st1 z1 b1 where r: "Reset be (?z\<lparr> busy := True \<rparr>) (zbd_be s) = (st1, z1, b1)"
      by (metis prod_cases3)
    let ?s1 = "s\<lparr> zbd_be := b1, io_zones := (io_zones s)[i := z1\<lparr> busy := False \<rparr>] \<rparr>"
    let ?s2 = "if \<not> IsFull ?z then PutActiveIOZoneToken ?s1 else ?s1"
    note one = reset_one [OF i(1) reset r]
    have zones: "io_zones ?s2 = (io_zones s)[i := z1\<lparr> busy := False \<rparr>]"
      by (simp add: PutActiveIOZoneToken_def)
    show ?thesis
    proof (cases "ok st1")
      case True
      have "reset_unused be is ?s2 = (st, s')"
        using Cons.prems(1) reset True r one(1) by (simp add: Acquire_free Let_def)
      moreover have "quiet s ?s2" "reset_done ?z (z1\<lparr> busy := False \<rparr>)"
        using one(2) True by simp_all
      ultimately show ?thesis using rest [of ?s2] zones i(1) by simp
    next
      case False
      then have "s' = ?s1" "st = st1"
        using Cons.prems(1) reset r one(1) by (auto simp: Acquire_free Let_def)
      with False one(2) show ?thesis by auto
    qed
  qed
qed simp

subsection \<open>Properties\<close>

text \<open>
  C14: the accounts of \<open>AllocateIOZone\<close>.  When it returns no zone, whether with an error or
  because the device is full, every busy flag is as before, no open token is kept and the active
  tokens balance.  When it returns a zone, the zone was free and is the only one whose busy flag
  has changed, exactly one open token is held for it, and it either is a partly written zone in
  use, with the active accounts unchanged, or an empty zone that now has the lifetime of the file
  and one extra active token.
\<close>

theorem allocate_io_zone_accounting:
  assumes "AllocateIOZone be lt t s = Some (st, a, s')"
  shows "case a of
      None \<Rightarrow> map busy (io_zones s') = map busy (io_zones s)
        \<and> open_io_zones s' = open_io_zones s \<and> slack s' = slack s
    | Some i \<Rightarrow> ok st \<and> i < length (io_zones s) \<and> \<not> busy (io_zones s ! i)
        \<and> map busy (io_zones s') = (map busy (io_zones s))[i := True]
        \<and> open_io_zones s' = open_io_zones s + 1
        \<and> (IsUsed (io_zones s' ! i) \<and> \<not> IsFull (io_zones s' ! i) \<and> slack s' = slack s
           \<or> IsEmpty (io_zones s' ! i) \<and> lifetime (io_zones s' ! i) = lt \<and> slack s' = slack s + 1)"
proof (cases a)
  case None
  then show ?thesis
    using AllocateIOZone_result [OF assms] by (simp add: alloc_result_def quiet_def)
next
  case (Some i)
  then obtain s1 z new where "ok st" and h: "quiet_tok 1 (if new then 1 else 0) s s1" "handed_out s1 i z s'"
    "if new then IsEmpty z \<and> lifetime z = lt else IsUsed z \<and> \<not> IsFull z"
    using AllocateIOZone_result [OF assms] by (auto simp: alloc_result_def)
  with Some handed_out_facts [OF h(1,2)] show ?thesis by (cases new) auto
qed

text \<open>
  C21: \<open>GetBestOpenZoneMatch\<close> is optimal and leaves no zone acquired but the one it returns.  A
  zone it returns is free, partly filled, has the requested capacity, and no other such zone has
  a smaller lifetime difference; when it returns none and the zones carry valid hints, there is
  no such zone.
\<close>

theorem best_open_zone_match_optimal:
  assumes "GetBestOpenZoneMatch be lt mc s = (st, bd, a, s')"
  shows "ok st \<and> s' = s\<lparr> io_zones := hold a (io_zones s) \<rparr>
    \<and> (\<forall>j < length (io_zones s). eligible lt mc (io_zones s ! j)
        \<longrightarrow> bd \<le> GetLifeTimeDiff (lifetime (io_zones s ! j)) lt)
    \<and> (case a of
        Some i \<Rightarrow> i < length (io_zones s) \<and> eligible lt mc (io_zones s ! i)
          \<and> bd = GetLifeTimeDiff (lifetime (io_zones s ! i)) lt
      | None \<Rightarrow> bd = LIFETIME_DIFF_NOT_GOOD
          \<and> (\<forall>j < length (io_zones s). lifetime (io_zones s ! j) \<le> WLTH_EXTREME
              \<longrightarrow> \<not> eligible lt mc (io_zones s ! j)))"
proof -
  obtain f: "foldl (best_step lt mc (io_zones s)) (LIFETIME_DIFF_NOT_GOOD, None)
      [0..<length (io_zones s)] = (bd, a)" and r: "st = OK" "s' = s\<lparr> io_zones := hold a (io_zones s) \<rparr>"
    using GetBestOpenZoneMatch_result [of be lt mc s] assms by (metis prod.inject)
  have "\<not> LIFETIME_DIFF_NOT_GOOD < GetLifeTimeDiff (lifetime (io_zones s ! j)) lt"
    if "lifetime (io_zones s ! j) \<le> WLTH_EXTREME" for j
    using GetLifeTimeDiff_le [OF that] by (simp add: not_less)
  then show ?thesis
    using best_fold_spec [OF f] r by (cases a) auto
qed

text \<open>
  \<open>ResetUnusedIOZones\<close>.  Zones in use or holding live data are untouched; when it
  succeeds, every other zone is empty; busy flags, open tokens and the active accounts are
  as before, also when a reset fails half-way.
\<close>

theorem reset_unused_io_zones:
  assumes "ResetUnusedIOZones be s = (st, s')"
  shows "map busy (io_zones s') = map busy (io_zones s) \<and> slack s' = slack s
    \<and> open_io_zones s' = open_io_zones s
    \<and> (ok st \<longrightarrow> (\<forall>j < length (io_zones s).
        (busy (io_zones s ! j) \<or> IsUsed (io_zones s ! j) \<longrightarrow> io_zones s' ! j = io_zones s ! j)
        \<and> (\<not> busy (io_zones s ! j) \<and> \<not> IsUsed (io_zones s ! j) \<longrightarrow> IsEmpty (io_zones s' ! j))))"
  using reset_unused_result [of be "[0..<length (io_zones s)]" s st s'] assms
  by (auto simp: ResetUnusedIOZones_def quiet_def reset_done_def split: if_splits)

text \<open>
  A deferred zone error is never recorded.  \<open>SetZoneDeferredStatus\<close> stores a status only
  when an error is stored already, so on a device that starts without one the error a destructor
  defers is lost and \<open>AllocateIOZone\<close> never sees it.
\<close>

theorem deferred_error_lost:
  assumes "ok (GetZoneDeferredStatus s)"
  shows "SetZoneDeferredStatus err s = s"
  using assms by (simp add: SetZoneDeferredStatus_def GetZoneDeferredStatus_def)

subsection \<open>Reads\<close>

lemma upt_map_append:
  "map f [0..<m] @ map (\<lambda>i. f (m + i)) [0..<n] = map f [0..<m + n]" for m n :: nat
  by (induction n) (auto simp: add.assoc [symmetric])

context data_device
begin

lemma read_loop_data:
  assumes "zbd_read_loop be offset left direct ret buf b = Some (r, buf', b')"
    and "inv b" "0 \<le> left" "0 \<le> ret" "unat base + nat (ret + left) < 2 ^ 64"
    and "offset = base + word_of_int ret" "buf = map (\<lambda>i. cont b (unat base + i)) [0..<nat ret]"
  shows "inv b' \<and> cont b' = cont b \<and> r \<le> ret + left
    \<and> (0 \<le> r \<longrightarrow> buf' = map (\<lambda>i. cont b (unat base + i)) [0..<nat r])"
proof -
  let ?P = "\<lambda>be' offset left direct ret buf b (r, buf', b'). be' = be \<longrightarrow> inv b \<longrightarrow> 0 \<le> left
      \<longrightarrow> 0 \<le> ret \<longrightarrow> unat base + nat (ret + left) < 2 ^ 64 \<longrightarrow> offset = base + word_of_int ret
      \<longrightarrow> buf = map (\<lambda>i. cont b (unat base + i)) [0..<nat ret]
      \<longrightarrow> inv b' \<and> cont b' = cont b \<and> r \<le> ret + left
        \<and> (0 \<le> r \<longrightarrow> buf' = map (\<lambda>i. cont b (unat base + i)) [0..<nat r])"
  have "?P be offset left direct ret buf b (r, buf', b')"
  proof (rule zbd_read_loop.raw_induct [where P = ?P, OF _ assms(1)])
    fix loop be' offset left direct ret buf b res
    assume IH: "\<And>be' offset left direct ret buf b res. loop be' offset left direct ret buf b = Some res
        \<Longrightarrow> ?P be' offset left direct ret buf b res"
      and body: "(if left = 0 then Some (ret, buf, b)
        else let ((r, bs), b') = be_Read be' left offset direct b in
          if r \<le> 0 then if r = - 1 \<and> be_errno be' b' = EINTR then loop be' offset left direct ret buf b'
            else Some (if r < 0 then r else ret, buf, b')
          else loop be' (offset + word_of_int r) (left - r) direct (ret + r) (buf @ bs) b') = Some res"
    obtain r1 bs b1 where rd: "be_Read be left offset direct b = ((r1, bs), b1)"
      by (metis prod.collapse)
    obtain r buf' b' where res: "res = (r, buf', b')" by (metis prod_cases3)
    show "?P be' offset left direct ret buf b res"
    proof (unfold res prod.case, intro impI)
      assume be: "be' = be" and b: "inv b" and left: "0 \<le> left" and ret: "0 \<le> ret"
        and room: "unat base + nat (ret + left) < 2 ^ 64" and off: "offset = base + word_of_int ret"
        and buf: "buf = map (\<lambda>i. cont b (unat base + i)) [0..<nat ret]"
      have b1: "inv b1" "cont b1 = cont b" and le: "r1 \<le> left"
        using read_inv [OF b, of left offset direct] read_cont [OF b, of left offset direct]
          read_result [OF b left, of offset direct] rd by simp_all
      have "nat ret < 2 ^ LENGTH(64)" using room ret left by simp
      then have "unat (word_of_int ret :: u64) = nat ret"
        using ret by (simp only: word_of_int_nat unat_of_nat_small)
      then have uoff: "unat offset = unat base + nat ret"
        using room ret left unfolding off by (simp add: unat_add_no_wrap)
      consider "left = 0" | "left \<noteq> 0" "r1 \<le> 0" "\<not> (r1 = - 1 \<and> be_errno be b1 = EINTR)"
        | "left \<noteq> 0" "r1 = - 1" "be_errno be b1 = EINTR" | "left \<noteq> 0" "0 < r1" by linarith
      then show "inv b' \<and> cont b' = cont b \<and> r \<le> ret + left
        \<and> (0 \<le> r \<longrightarrow> buf' = map (\<lambda>i. cont b (unat base + i)) [0..<nat r])"
      proof cases
        case 1
        then show ?thesis using body res b buf by auto
      next
        case 2
        then show ?thesis using body res rd be b1 buf left ret by (auto split: if_splits)
      next
        case 3
        then have "loop be offset left direct ret buf b1 = Some (r, buf', b')"
          using body res rd be by simp
        from IH [OF this] show ?thesis using b1 left ret room off buf by simp
      next
        case 4
        then have l: "loop be (offset + word_of_int r1) (left - r1) direct (ret + r1) (buf @ bs) b1
            = Some (r, buf', b')"
          using body res rd be by simp
        have "bs = map (\<lambda>i. cont b (unat base + (nat ret + i))) [0..<nat r1]"
          using read_data [OF b left, of offset direct] rd 4 uoff room ret left by (simp add: add.assoc)
        then have "buf @ bs = map (\<lambda>i. cont b1 (unat base + i)) [0..<nat (ret + r1)]"
          using upt_map_append [of "\<lambda>i. cont b (unat base + i)" "nat ret" "nat r1"] buf b1 ret 4
          by (simp add: nat_add_distrib)
        moreover have "ret + r1 + (left - r1) = ret + left" by simp
        ultimately show ?thesis
          using IH [OF l] b1 le ret 4 room off by (simp add: algebra_simps)
      qed
    qed
  qed
  then show ?thesis using assms by simp
qed

end

text \<open>
  \<open>ZonedBlockDevice::Read\<close> of \<open>n > 0\<close> bytes on a device that stores bytes.  Whatever short
  or interrupted reads happen below, a non-negative result is the number of bytes delivered, it
  is at most \<open>n\<close>, and they are the bytes on the device at the offset; the device is unchanged.
\<close>

theorem zbd_read_correct:
  assumes "data_device be cont I" "I b" "0 < n" "unat offset + nat n < 2 ^ 64"
    and "zbd_Read be offset n direct b = Some (r, buf, b')"
  shows "I b' \<and> cont b' = cont b \<and> r \<le> n
    \<and> (0 \<le> r \<longrightarrow> buf = map (\<lambda>i. cont b (unat offset + i)) [0..<nat r])"
  using data_device.read_loop_data [OF assms(1), of offset n direct 0 "[]" b r buf b' offset] assms(2-)
  by (simp add: zbd_Read_def)

lemma demo_read:
  "zbd_Read (zbdlib_backend sim_libzbd) 64 3 False demo_dev = Some (3, [0, 0, 0], demo_dev)"
proof -
  have "be_Read (zbdlib_backend sim_libzbd) 3 64 False demo_dev = ((3, [0, 0, 0]), demo_dev)"
    by (simp add: zbdlib_backend_def zbdlib_Read_def sim_libzbd_def sim_pread_def demo_dev_def
        sim_new_def to_int32_id upt_rec)
  then show ?thesis
    by (simp add: zbd_Read_def) (simp add: zbd_read_loop.simps)
qed

theorem zbd_read_correct_witness:
  "[0, 0, 0] = map (\<lambda>i. sd_mem (zl_dev demo_dev) (unat (64 :: u64) + i)) [0..<3]"
  using zbd_read_correct [OF sim.data_device_axioms _ _ _ demo_read] by simp

subsection \<open>Progress of the token loop\<close>

lemma Finish_zone_full: "Finish be z b = (st, z1, b1) \<Longrightarrow> ok st \<Longrightarrow> IsFull z1"
  by (auto simp: Finish_def Let_def IsFull_def split: prod.splits if_splits)

lemma active_token_loop_free:
  "active_io_zones s < uint (max_nr_active_io_zones s)
    \<Longrightarrow> active_token_loop be s = Some (OK, s\<lparr> active_io_zones := active_io_zones s + 1 \<rparr>)"
  by (subst active_token_loop.simps) (simp add: GetActiveIOZoneTokenIfAvailable_def)

text \<open>
  The loop of \<open>AllocateIOZone\<close> that waits for an active token ends after finishing at most
  one zone, provided the active counter is within its limit and some free zone is partly
  written.
\<close>

theorem active_token_loop_ends:
  assumes "active_io_zones s \<le> uint (max_nr_active_io_zones s)"
    and "j < length (io_zones s)" "finishable (io_zones s ! j)"
  shows "\<exists>st s'. active_token_loop be s = Some (st, s')"
proof (rule FinishCheapestIOZone_result [of s be])
  fix v
  assume v: "foldl (cheapest_step (io_zones s)) None [0..<length (io_zones s)] = v"
    and r: "case v of None \<Rightarrow> FinishCheapestIOZone be s = (OK, s)
     | Some i \<Rightarrow> i < length (io_zones s) \<and> finishable (io_zones s ! i)
         \<and> FinishCheapestIOZone be s = (case Finish be ((io_zones s ! i)\<lparr> busy := True \<rparr>) (zbd_be s) of
             (st, z1, b1) \<Rightarrow> let s1 = s\<lparr> zbd_be := b1, io_zones := (io_zones s)[i := z1\<lparr> busy := False \<rparr>] \<rparr> in
               (st, if ok st then PutActiveIOZoneToken s1 else s1))"
  obtain i where i: "v = Some i" using cheapest_fold_spec [OF v] assms(2,3) by auto
  obtain st z1 b1 where fin: "Finish be ((io_zones s ! i)\<lparr> busy := True \<rparr>) (zbd_be s) = (st, z1, b1)"
    by (metis prod_cases3)
  have f: "FinishCheapestIOZone be s = (let s1 = s\<lparr> zbd_be := b1,
      io_zones := (io_zones s)[i := z1\<lparr> busy := False \<rparr>] \<rparr> in
      (st, if ok st then PutActiveIOZoneToken s1 else s1))"
    using r i fin by simp
  show ?thesis
  proof (cases "active_io_zones s < uint (max_nr_active_io_zones s)")
    case True
    then show ?thesis using active_token_loop_free by blast
  next
    case False
    let ?s2 = "PutActiveIOZoneToken (s\<lparr> zbd_be := b1, io_zones := (io_zones s)[i := z1\<lparr> busy := False \<rparr>] \<rparr>)"
    have "active_token_loop be ?s2 = Some (OK, ?s2\<lparr> active_io_zones := active_io_zones ?s2 + 1 \<rparr>)"
      by (rule active_token_loop_free) (use assms(1) in \<open>simp add: PutActiveIOZoneToken_def\<close>)
    then show ?thesis
      using False f
      by (subst active_token_loop.simps) (simp add: GetActiveIOZoneTokenIfAvailable_def Let_def)
  qed
qed


subsection \<open>A device to try the properties on\<close>

text \<open>Four data zones: a full one, two partly written ones, the second without live data, and an
  empty one; the two partly written zones hold the two active tokens that are out.\<close>

definition demo_zones :: "zone list" where
  "demo_zones = [
    \<lparr> busy = False, start = 0, capacity = 0, max_capacity = 48, wp = 48, lifetime = 3, used_capacity = 40 \<rparr>,
    \<lparr> busy = False, start = 64, capacity = 16, max_capacity = 48, wp = 96, lifetime = 4, used_capacity = 20 \<rparr>,
    \<lparr> busy = False, start = 128, capacity = 8, max_capacity = 48, wp = 168, lifetime = 2, used_capacity = 0 \<rparr>,
    \<lparr> busy = False, start = 192, capacity = 48, max_capacity = 48, wp = 192, lifetime = 0, used_capacity = 0 \<rparr>]"

definition demo_zbd :: "simdev zbdlib zbd" where
  "demo_zbd = (new_ZonedBlockDevice demo_dev)\<lparr> io_zones := demo_zones, active_io_zones := 2,
     max_nr_active_io_zones := 3, max_nr_open_io_zones := 3 \<rparr>"

abbreviation demo_be :: "simdev zbdlib backend" where
  "demo_be \<equiv> zbdlib_backend sim_libzbd"

lemma demo_alloc:
  "map_option (\<lambda>(st, a, s'). a) (AllocateIOZone demo_be WLTH_MEDIUM kWAL demo_zbd) = Some (Some 1)"
  by code_simp

theorem allocate_io_zone_accounting_witness:
  "\<exists>st s'. AllocateIOZone demo_be WLTH_MEDIUM kWAL demo_zbd = Some (st, Some 1, s')
    \<and> open_io_zones s' = open_io_zones demo_zbd + 1
    \<and> map busy (io_zones s') = (map busy (io_zones demo_zbd))[1 := True]"
proof -
  obtain st s' where a: "AllocateIOZone demo_be WLTH_MEDIUM kWAL demo_zbd = Some (st, Some 1, s')"
    using demo_alloc by (auto simp: map_option_case split: option.splits)
  from allocate_io_zone_accounting [OF a] a show ?thesis by auto
qed

lemma demo_match: "fst (snd (snd (GetBestOpenZoneMatch demo_be WLTH_MEDIUM 0 demo_zbd))) = Some 1"
  by code_simp

theorem best_open_zone_match_optimal_witness:
  "eligible WLTH_MEDIUM 0 (io_zones demo_zbd ! 1)
    \<and> fst (snd (GetBestOpenZoneMatch demo_be WLTH_MEDIUM 0 demo_zbd)) = 1"
proof -
  obtain st bd s' where m: "GetBestOpenZoneMatch demo_be WLTH_MEDIUM 0 demo_zbd = (st, bd, Some 1, s')"
    using demo_match by (metis prod.collapse)
  have "GetLifeTimeDiff (lifetime (io_zones demo_zbd ! 1)) WLTH_MEDIUM = 1" by code_simp
  with best_open_zone_match_optimal [OF m] m show ?thesis by simp
qed

lemma demo_reset: "ok (fst (ResetUnusedIOZones demo_be demo_zbd))"
  by code_simp

lemma demo_zbd_facts:
  "length (io_zones demo_zbd) = 4" "\<not> busy (io_zones demo_zbd ! 2)" "\<not> IsUsed (io_zones demo_zbd ! 2)"
  "IsUsed (io_zones demo_zbd ! 1)" "finishable (io_zones demo_zbd ! 1)"
  by code_simp+

theorem reset_unused_io_zones_witness:
  "IsEmpty (io_zones (snd (ResetUnusedIOZones demo_be demo_zbd)) ! 2)
    \<and> io_zones (snd (ResetUnusedIOZones demo_be demo_zbd)) ! 1 = io_zones demo_zbd ! 1"
  using reset_unused_io_zones [of demo_be demo_zbd "fst (ResetUnusedIOZones demo_be demo_zbd)"
      "snd (ResetUnusedIOZones demo_be demo_zbd)"] demo_reset demo_zbd_facts by simp

theorem deferred_error_lost_witness:
  "ok (GetZoneDeferredStatus (SetZoneDeferredStatus (IOError (str ''lost'') []) demo_zbd))"
proof -
  have "ok (GetZoneDeferredStatus demo_zbd)" by code_simp
  with deferred_error_lost [OF this] show ?thesis by simp
qed

theorem active_token_loop_ends_witness:
  "\<exists>st s'. active_token_loop demo_be (demo_zbd\<lparr> active_io_zones := 3 \<rparr>) = Some (st, s')"
  by (rule active_token_loop_ends [where j = 1])
    (use demo_zbd_facts in \<open>simp_all add: demo_zbd_def new_ZonedBlockDevice_def\<close>)


end
