(* ===== verification/ZbdInvariant.thy ===== *)
theory ZbdInvariant
  imports ZonedBlockDevice
begin

text \<open>
  State predicates of a zoned block device that its zone-allocation code preserves.  The locale
  \<open>zbd_preserved\<close> lists the elementary steps that code is made of: setting a busy flag, setting
  the lifetime of a zone, moving the token counters, and finishing a zone.  A predicate closed
  under them is preserved by every operation of the allocator.  The locale is instantiated with
  the predicate \<open>grown\<close>, which says that a device has only grown since a reference state: its
  content and the starts of its zones are the same and no write pointer has moved back.
\<close>

locale zbd_preserved =
  fixes be :: "'b backend"
    and P :: "'b zbd \<Rightarrow> bool"
  assumes P_busy: "P s \<Longrightarrow> i < length (io_zones s)
      \<Longrightarrow> P (s\<lparr> io_zones := (io_zones s)[i := (io_zones s ! i)\<lparr> busy := x \<rparr>] \<rparr>)"
    and P_lifetime: "P s \<Longrightarrow> i < length (io_zones s)
      \<Longrightarrow> P (s\<lparr> io_zones := (io_zones s)[i := (io_zones s ! i)\<lparr> lifetime := lt \<rparr>] \<rparr>)"
    and P_open: "P s \<Longrightarrow> P (s\<lparr> open_io_zones := n \<rparr>)"
    and P_active: "P s \<Longrightarrow> P (s\<lparr> active_io_zones := n \<rparr>)"
    and P_finish: "P s \<Longrightarrow> i < length (io_zones s)
      \<Longrightarrow> Finish be (io_zones s ! i) (zbd_be s) = (st, z1, b1)
      \<Longrightarrow> P (s\<lparr> zbd_be := b1, io_zones := (io_zones s)[i := z1] \<rparr>)"
begin

lemma P_put: "P s \<Longrightarrow> P (PutOpenIOZoneToken s)" "P s \<Longrightarrow> P (PutActiveIOZoneToken s)"
  by (auto simp: PutOpenIOZoneToken_def PutActiveIOZoneToken_def P_open P_active)

lemma P_get:
  "P s \<Longrightarrow> WaitForOpenIOZoneToken p s = Some s' \<Longrightarrow> P s'"
  "P s \<Longrightarrow> GetActiveIOZoneTokenIfAvailable s = (g, s') \<Longrightarrow> P s'"
  by (auto simp: WaitForOpenIOZoneToken_def Let_def GetActiveIOZoneTokenIfAvailable_def
      P_open P_active split: if_splits)

lemma P_hold: "P s \<Longrightarrow> free_at (io_zones s) a \<Longrightarrow> P (s\<lparr> io_zones := hold a (io_zones s) \<rparr>)"
  by (cases a) (auto simp: hold_def P_busy)

lemma P_finish_busy:
  assumes "P s" "i < length (io_zones s)"
    "Finish be ((io_zones s ! i)\<lparr> busy := True \<rparr>) (zbd_be s) = (st, z1, b1)"
  shows "P (s\<lparr> zbd_be := b1, io_zones := (io_zones s)[i := z1\<lparr> busy := False \<rparr>] \<rparr>)"
proof -
  have "P (s\<lparr> io_zones := (io_zones s)[i := (io_zones s ! i)\<lparr> busy := True \<rparr>] \<rparr>)"
    by (rule P_busy [OF assms(1,2)])
  from P_finish [OF this, of i st z1 b1]
  have "P (s\<lparr> zbd_be := b1, io_zones := (io_zones s)[i := z1] \<rparr>)" using assms by simp
  from P_busy [OF this, of i False] show ?thesis using assms(2) by simp
qed

lemma P_FinishCheapest: "P s \<Longrightarrow> FinishCheapestIOZone be s = (st, s') \<Longrightarrow> P s'"
proof (rule FinishCheapestIOZone_result [of s be])
  fix v
  assume P: "P s" and f: "FinishCheapestIOZone be s = (st, s')"
    and r: "case v of None \<Rightarrow> FinishCheapestIOZone be s = (OK, s)
     | Some i \<Rightarrow> i < length (io_zones s) \<and> finishable (io_zones s ! i)
         \<and> FinishCheapestIOZone be s = (case Finish be ((io_zones s ! i)\<lparr> busy := True \<rparr>) (zbd_be s) of
             (st, z1, b1) \<Rightarrow> let s1 = s\<lparr> zbd_be := b1, io_zones := (io_zones s)[i := z1\<lparr> busy := False \<rparr>] \<rparr> in
               (st, if ok st then PutActiveIOZoneToken s1 else s1))"
  show "P s'"
  proof (cases v)
    case (Some i)
    obtain st1 z1 b1 where fin: "Finish be ((io_zones s ! i)\<lparr> busy := True \<rparr>) (zbd_be s) = (st1, z1, b1)"
      by (metis prod_cases3)
    from P_finish_busy [OF P _ fin] r Some fin f show ?thesis
      by (auto simp: Let_def P_put split: if_splits)
  qed (use P f r in simp)
qed

lemma P_finish_threshold_loop:
  assumes "finish_threshold_loop be is s = (st, s')" "\<forall>i\<in>set is. i < length (io_zones s)" "P s"
  shows "P s'"
  using assms
proof (induction "is" arbitrary: s)
  case (Cons i "is")
  let ?z = "io_zones s ! i"
  have i: "i < length (io_zones s)" using Cons.prems by simp
  have skip: "io_CheckRelease be i (set_io i (?z\<lparr> busy := True \<rparr>) s) = (OK, s)" if "\<not> busy ?z"
    using release_same [of i "io_zones s" None be s] i that by simp
  obtain st1 z1 b1 where fin: "Finish be (?z\<lparr> busy := True \<rparr>) (zbd_be s) = (st1, z1, b1)"
    by (metis prod_cases3)
  then have bz: "busy z1" by (auto simp: Finish_def Let_def split: prod.splits if_splits)
  let ?s1 = "s\<lparr> zbd_be := b1, io_zones := (io_zones s)[i := z1\<lparr> busy := False \<rparr>] \<rparr>"
  have rel: "io_CheckRelease be i (set_io i z1 (s\<lparr> zbd_be := b1 \<rparr>)) = (OK, ?s1)"
    using i bz by (subst io_release_acquired) (auto simp: set_io_def)
  have P1: "P ?s1" "P (PutActiveIOZoneToken ?s1)"
    using P_finish_busy [OF Cons.prems(3) i fin] P_put by auto
  have len: "length (io_zones (PutActiveIOZoneToken ?s1)) = length (io_zones s)"
    by (simp add: PutActiveIOZoneToken_def)
  consider "busy ?z" | "\<not> busy ?z" "\<not> (finishable ?z \<and> within_finish_threshold (finish_threshold s) ?z)"
    | "finishable ?z" "within_finish_threshold (finish_threshold s) ?z" by blast
  then show ?case
  proof cases
    case 1
    then show ?thesis using Cons by (simp add: Acquire_busy)
  next
    case 2
    then show ?thesis
      using Cons skip by (auto simp: Acquire_free finishable_def within_finish_threshold_def)
  next
    case 3
    show ?thesis
    proof (cases "ok st1")
      case True
      then have "finish_threshold_loop be is (PutActiveIOZoneToken ?s1) = (st, s')"
        using Cons.prems(1) 3 fin rel
        by (simp add: Acquire_free finishable_def within_finish_threshold_def)
      from Cons.IH [OF this _ P1(2)] show ?thesis using Cons.prems(2) len by simp
    next
      case False
      then have "s' = ?s1"
        using Cons.prems(1) 3 fin bz
        by (auto simp: Acquire_free finishable_def within_finish_threshold_def Release_def set_io_def)
      with P1 show ?thesis by simp
    qed
  qed
qed simp

lemma P_ApplyFinishThreshold: "P s \<Longrightarrow> ApplyFinishThreshold be s = (st, s') \<Longrightarrow> P s'"
  using P_finish_threshold_loop [of "[0..<length (io_zones s)]" s st s']
  by (auto simp: ApplyFinishThreshold_def split: if_splits)

lemma P_active_token_loop: "active_token_loop be s = Some (st, s') \<Longrightarrow> P s \<Longrightarrow> P s'"
proof -
  let ?Q = "\<lambda>be' s r. be' = be \<longrightarrow> P s \<longrightarrow> P (snd r)"
  assume a: "active_token_loop be s = Some (st, s')" and "P s"
  have "?Q be s (st, s')"
  proof (rule active_token_loop.raw_induct [where P = ?Q, OF _ a], intro impI)
    fix loop be' s r
    assume IH: "\<And>be' s r. loop be' s = Some r \<Longrightarrow> ?Q be' s r"
      and body: "(let (got, s1) = GetActiveIOZoneTokenIfAvailable s in if got then Some (OK, s1)
        else let (st, s2) = FinishCheapestIOZone be' s1 in
          if \<not> ok st then Some (st, s2) else loop be' s2) = Some r"
      and be: "be' = be" and P: "P s"
    obtain got s1 where g: "GetActiveIOZoneTokenIfAvailable s = (got, s1)" by fastforce
    obtain st2 s2 where f: "FinishCheapestIOZone be s1 = (st2, s2)" by fastforce
    have "P s1" "P s2" using P_get(2) [OF P g] P_FinishCheapest f by auto
    then show "P (snd r)"
      using body g f be IH [of be s2 r] by (cases got; cases "ok st2") auto
  qed
  with \<open>P s\<close> show ?thesis by simp
qed

lemma P_AllocateEmptyZone:
  assumes "P s" "AllocateEmptyZone be s = (st, a, s')"
  shows "P s'"
proof -
  have a: "a = List.find (\<lambda>i. \<not> busy (io_zones s ! i) \<and> IsEmpty (io_zones s ! i)) [0..<length (io_zones s)]"
    "s' = s\<lparr> io_zones := hold a (io_zones s) \<rparr>"
    using assms(2) by (auto simp: AllocateEmptyZone_result Let_def)
  have "free_at (io_zones s) a"
  proof (cases a)
    case (Some i)
    from a(1) [unfolded Some, symmetric] show ?thesis by (auto simp: find_Some_iff Some)
  qed simp
  with P_hold [OF assms(1)] a(2) show ?thesis by simp
qed

lemma P_allocate_new_zone:
  assumes "allocate_new_zone be lt g s = Some (st, a, s')" "P s"
  shows "P s'"
proof -
  obtain st1 s1 where tok: "(if g then Some (OK, s) else active_token_loop be s) = Some (st1, s1)"
    using assms by (auto simp: allocate_new_zone_def split: option.splits)
  have P1: "P s1" using tok assms(2) P_active_token_loop by (auto split: if_splits)
  obtain st2 a2 s2 where e: "AllocateEmptyZone be s1 = (st2, a2, s2)" by (metis prod_cases3)
  have P2: "P s2" by (rule P_AllocateEmptyZone [OF P1 e])
  have "i < length (io_zones s2)" if "a2 = Some i" for i
    using e that by (auto simp: AllocateEmptyZone_result Let_def find_Some_iff)
  then show ?thesis
    using assms(1) tok e P1 P2 P_lifetime [OF P2]
    by (auto simp: allocate_new_zone_def set_io_def P_put split: if_splits option.splits)
qed

lemma P_AllocateIOZone:
  assumes "AllocateIOZone be lt t s = Some (st, a, s')" "P s"
  shows "P s'"
proof -
  obtain st1 s1 where fin: "(if t \<noteq> kWAL then ApplyFinishThreshold be s else (OK, s)) = (st1, s1)"
    by fastforce
  have P1: "P s1" using fin assms(2) P_ApplyFinishThreshold by (auto split: if_splits)
  show ?thesis
  proof (cases "ok (GetZoneDeferredStatus s) \<and> ok st1")
    case False
    then show ?thesis using assms fin P1 by (auto simp: AllocateIOZone_def split: if_splits)
  next
    case oks: True
    then obtain s2 where tok: "WaitForOpenIOZoneToken (t = kWAL) s1 = Some s2"
      using assms fin by (auto simp: AllocateIOZone_def split: option.splits)
    have P2: "P s2" by (rule P_get(1) [OF P1 tok])
    obtain bd b where best: "GetBestOpenZoneMatch be lt 0 s2 = (OK, bd, b, s2\<lparr> io_zones := hold b (io_zones s2) \<rparr>)"
      and fr: "free_at (io_zones s2) b"
      by (rule GetBestOpenZoneMatch_result)
    have P3: "P (s2\<lparr> io_zones := hold b (io_zones s2) \<rparr>)" by (rule P_hold [OF P2 fr])
    obtain g s4 where g: "GetActiveIOZoneTokenIfAvailable (s2\<lparr> io_zones := hold b (io_zones s2) \<rparr>) = (g, s4)"
      by fastforce
    have P4: "P s4" by (rule P_get(2) [OF P3 g])
    have z4: "io_zones s4 = hold b (io_zones s2)"
      using g by (auto simp: GetActiveIOZoneTokenIfAvailable_def split: if_splits)
    have P5: "P (snd (io_CheckRelease be i s4))" "ok (fst (io_CheckRelease be i s4))" if "b = Some i" for i
      using that fr z4 io_release_acquired [of i s4 be] P_busy [OF P4, of i False] by (auto simp: set_io_def)
    show ?thesis
    proof (cases "bd \<ge> LIFETIME_DIFF_COULD_BE_WORSE")
      case False
      then show ?thesis
        using assms(1) fin tok best oks P2 P3
        by (cases b) (auto simp: AllocateIOZone_def P_put)
    next
      case True
      note alloc = assms(1) [unfolded AllocateIOZone_def]
      show ?thesis
      proof (cases b)
        case None
        then have "allocate_new_zone be lt g s4 = Some (st, a, s')"
          using alloc fin tok best oks True g by simp
        then show ?thesis using P_allocate_new_zone P4 by blast
      next
        case (Some i)
        obtain rst s5 where rel: "io_CheckRelease be i s4 = (rst, s5)" by fastforce
        then have "P s5" "ok rst" using P5 [OF Some] by simp_all
        moreover have "s' = s4 \<or> allocate_new_zone be lt g s5 = Some (st, a, s')"
          using alloc fin tok best oks True g Some rel \<open>ok rst\<close> by (simp split: if_splits)
        ultimately show ?thesis using P_allocate_new_zone P4 by blast
      qed
    qed
  qed
qed

end

subsection \<open>A device that only grows\<close>

text \<open>Zones of \<open>zs\<close> bytes starting at the given addresses do not overlap.\<close>

definition disjoint_zones :: "nat \<Rightarrow> u64 list \<Rightarrow> bool" where
  "disjoint_zones zs ss = (\<forall>i < length ss. \<forall>j < length ss. i \<noteq> j
     \<longrightarrow> unat (ss ! i) + zs \<le> unat (ss ! j) \<or> unat (ss ! j) + zs \<le> unat (ss ! i))"

lemma zone_ok_lifetime [simp]: "zone_ok zs (z\<lparr> lifetime := x \<rparr>) = zone_ok zs z"
  and zone_ok_used [simp]: "zone_ok zs (z\<lparr> used_capacity := u \<rparr>) = zone_ok zs z"
  by (simp_all add: zone_ok_def)

lemma Finish_wp:
  assumes "Finish be z b = (st, z1, b1)" "zone_ok (be_zone_sz be b1) z"
  shows "wp z \<le> wp z1"
  using assms
  by (auto simp: Finish_def Let_def zone_ok_def word_le_nat_alt unat_add_no_wrap split: prod.splits if_splits)

lemma list_update_all2:
  assumes "list_all2 R xs ys" "i < length ys" "\<And>x. R x (ys ! i) \<Longrightarrow> R x y"
  shows "list_all2 R xs (ys[i := y])"
  using assms by (auto simp: list_all2_conv_all_nth nth_list_update)

context zoned_device
begin

definition zbd_ok :: "'a zbd \<Rightarrow> bool" where
  "zbd_ok s = (inv (zbd_be s) \<and> (\<forall>z\<in>set (io_zones s). zone_ok (be_zone_sz be (zbd_be s)) z)
     \<and> disjoint_zones (unat (be_zone_sz be (zbd_be s))) (map start (io_zones s)))"

definition grown :: "'a zbd \<Rightarrow> 'a zbd \<Rightarrow> bool" where
  "grown s0 s = (zbd_ok s \<and> be_zone_sz be (zbd_be s) = be_zone_sz be (zbd_be s0)
     \<and> be_block_sz be (zbd_be s) = be_block_sz be (zbd_be s0)
     \<and> cont (zbd_be s) = cont (zbd_be s0) \<and> map start (io_zones s) = map start (io_zones s0)
     \<and> list_all2 (\<lambda>z0 z. wp z0 \<le> wp z) (io_zones s0) (io_zones s)
     \<and> meta_zones s = meta_zones s0)"

lemma zbd_ok_zone: "zbd_ok s \<Longrightarrow> i < length (io_zones s) \<Longrightarrow> zone_ok (be_zone_sz be (zbd_be s)) (io_zones s ! i)"
  by (simp add: zbd_ok_def)

lemma zbd_ok_disjoint:
  assumes "zbd_ok s" "i < length (io_zones s)" "j < length (io_zones s)" "i \<noteq> j"
  shows "unat (start (io_zones s ! i)) + unat (be_zone_sz be (zbd_be s)) \<le> unat (start (io_zones s ! j))
    \<or> unat (start (io_zones s ! j)) + unat (be_zone_sz be (zbd_be s)) \<le> unat (start (io_zones s ! i))"
  using assms by (simp add: zbd_ok_def disjoint_zones_def)

lemma grown_refl: "zbd_ok s \<Longrightarrow> grown s s"
  by (simp add: grown_def list_all2_refl)

lemma grown_trans:
  assumes "grown s0 s1" "grown s1 s2"
  shows "grown s0 s2"
proof -
  have "list_all2 (\<lambda>z0 z. wp z0 \<le> wp z) (io_zones s0) (io_zones s2)"
  proof (rule list_all2_trans [of "\<lambda>z0 z. wp z0 \<le> wp z" "\<lambda>z0 z. wp z0 \<le> wp z" _ _ "io_zones s1"])
    show "list_all2 (\<lambda>z0 z. wp z0 \<le> wp z) (io_zones s0) (io_zones s1)"
      "list_all2 (\<lambda>z0 z. wp z0 \<le> wp z) (io_zones s1) (io_zones s2)"
      using assms by (simp_all add: grown_def)
  qed (rule order_trans)
  with assms show ?thesis unfolding grown_def by simp
qed

lemma grown_update:
  assumes "grown s0 s" "i < length (io_zones s)" "start z = start (io_zones s ! i)"
    "wp (io_zones s ! i) \<le> wp z" "zone_ok (be_zone_sz be (zbd_be s)) z"
    "inv b" "cont b = cont (zbd_be s)" "be_zone_sz be b = be_zone_sz be (zbd_be s)"
    "be_block_sz be b = be_block_sz be (zbd_be s)"
  shows "grown s0 (s\<lparr> zbd_be := b, io_zones := (io_zones s)[i := z] \<rparr>)"
proof -
  have "map start ((io_zones s)[i := z]) = map start (io_zones s)"
    using assms(2,3) by (rule map_update_same)
  moreover have "list_all2 (\<lambda>z0 z. wp z0 \<le> wp z) (io_zones s0) ((io_zones s)[i := z])"
    using assms(1,2,4) by (intro list_update_all2) (auto simp: grown_def)
  ultimately show ?thesis
    using assms by (auto simp: grown_def zbd_ok_def dest: set_update_subset_insert [THEN subsetD])
qed

end

sublocale zoned_device \<subseteq> grow: zbd_preserved be "grown s0" for s0
proof
  fix s i x lt n st z1 b1
  assume g: "grown s0 s"
  then have okz: "zbd_ok s" by (simp add: grown_def)
  show "grown s0 (s\<lparr> open_io_zones := n \<rparr>)" "grown s0 (s\<lparr> active_io_zones := n \<rparr>)"
    using g unfolding grown_def zbd_ok_def by auto
  assume i: "i < length (io_zones s)"
  have z: "zone_ok (be_zone_sz be (zbd_be s)) (io_zones s ! i)" by (rule zbd_ok_zone [OF okz i])
  have b: "inv (zbd_be s)" using okz by (simp add: zbd_ok_def)
  show "grown s0 (s\<lparr> io_zones := (io_zones s)[i := (io_zones s ! i)\<lparr> busy := x \<rparr>] \<rparr>)"
    using grown_update [OF g i, of "(io_zones s ! i)\<lparr> busy := x \<rparr>" "zbd_be s"] z b by simp
  show "grown s0 (s\<lparr> io_zones := (io_zones s)[i := (io_zones s ! i)\<lparr> lifetime := lt \<rparr>] \<rparr>)"
    using grown_update [OF g i, of "(io_zones s ! i)\<lparr> lifetime := lt \<rparr>" "zbd_be s"] z b by simp
  assume fin: "Finish be (io_zones s ! i) (zbd_be s) = (st, z1, b1)"
  then have b1: "b1 = snd (be_Finish be (start (io_zones s ! i)) (zbd_be s))"
    by (auto simp: Finish_def Let_def split: prod.splits if_splits)
  have geo: "be_zone_sz be b1 = be_zone_sz be (zbd_be s)" "be_block_sz be b1 = be_block_sz be (zbd_be s)"
    by (simp_all add: b1 geometry)
  show "grown s0 (s\<lparr> zbd_be := b1, io_zones := (io_zones s)[i := z1] \<rparr>)"
  proof (rule grown_update [OF g i _ _ _ _ _ geo])
    show "start z1 = start (io_zones s ! i)" "zone_ok (be_zone_sz be (zbd_be s)) z1"
      using zone_ok_Finish(1,3) [OF z fin geo(1)] by simp_all
    show "wp (io_zones s ! i) \<le> wp z1" using Finish_wp [OF fin] z geo(1) by simp
    show "inv b1" "cont b1 = cont (zbd_be s)" using finish_inv [OF b] finish_cont [OF b] by (simp_all add: b1)
  qed
qed

end
