(* ===== verification/Tokens.thy ===== *)
theory Tokens
  imports ZonedBlockDevice
begin

text \<open>
  The open- and active-zone tokens with several writers at once.  Each of the four calls holds
  \<open>zone_resources_mtx_\<close> from its first to its last access of the counters, so that any run of the
  writers is an interleaving of these calls.  The step relation has one rule per call; a writer that
  would wait takes no step.  What a writer holds is ghost state: the tokens it has been given and
  has not returned.
\<close>

record holding =
  own_open :: nat
  own_wal :: nat
  own_active :: nat

type_synonym 'b writers = "'b zbd \<times> (nat \<Rightarrow> holding)"

text \<open>\<open>n\<close> writers; \<open>wal\<close> says that the request is for a write-ahead log, which is prioritized.\<close>

inductive token_step :: "nat \<Rightarrow> 'b writers \<Rightarrow> 'b writers \<Rightarrow> bool" for n where
  wait_open: "t < n \<Longrightarrow> WaitForOpenIOZoneToken False s = Some s'
    \<Longrightarrow> token_step n (s, own) (s', own(t := own t\<lparr> own_open := own_open (own t) + 1 \<rparr>))"
| wait_wal: "t < n \<Longrightarrow> WaitForOpenIOZoneToken True s = Some s'
    \<Longrightarrow> token_step n (s, own) (s', own(t := own t\<lparr> own_wal := own_wal (own t) + 1 \<rparr>))"
| get_active: "t < n \<Longrightarrow> GetActiveIOZoneTokenIfAvailable s = (True, s')
    \<Longrightarrow> token_step n (s, own) (s', own(t := own t\<lparr> own_active := own_active (own t) + 1 \<rparr>))"
| put_open: "t < n \<Longrightarrow> 0 < own_open (own t)
    \<Longrightarrow> token_step n (s, own) (PutOpenIOZoneToken s, own(t := own t\<lparr> own_open := own_open (own t) - 1 \<rparr>))"
| put_wal: "t < n \<Longrightarrow> 0 < own_wal (own t)
    \<Longrightarrow> token_step n (s, own) (PutOpenIOZoneToken s, own(t := own t\<lparr> own_wal := own_wal (own t) - 1 \<rparr>))"
| put_active: "t < n \<Longrightarrow> 0 < own_active (own t)
    \<Longrightarrow> token_step n (s, own) (PutActiveIOZoneToken s, own(t := own t\<lparr> own_active := own_active (own t) - 1 \<rparr>))"

inductive token_run :: "nat \<Rightarrow> 'b writers \<Rightarrow> 'b writers \<Rightarrow> bool" for n where
  run_start: "token_run n c c"
| run_step: "token_run n c c1 \<Longrightarrow> token_step n c1 c2 \<Longrightarrow> token_run n c c2"

inductive_cases token_stepE: "token_step n c c'"

definition no_tokens :: "nat \<Rightarrow> holding" where
  "no_tokens t = \<lparr> own_open = 0, own_wal = 0, own_active = 0 \<rparr>"

definition total :: "nat \<Rightarrow> (holding \<Rightarrow> nat) \<Rightarrow> (nat \<Rightarrow> holding) \<Rightarrow> nat" where
  "total n f own = (\<Sum>t<n. f (own t))"

text \<open>The counters are the tokens held, within the limits; tokens that are not for a log leave one.\<close>

definition tokens_ok :: "u32 \<Rightarrow> u32 \<Rightarrow> nat \<Rightarrow> 'b writers \<Rightarrow> bool" where
  "tokens_ok mo ma n c = (case c of (s, own) \<Rightarrow>
     max_nr_open_io_zones s = mo \<and> max_nr_active_io_zones s = ma
     \<and> open_io_zones s = int (total n own_open own + total n own_wal own)
     \<and> active_io_zones s = int (total n own_active own)
     \<and> open_io_zones s \<le> uint mo \<and> active_io_zones s \<le> uint ma
     \<and> int (total n own_open own) < uint mo)"

lemma total_upd:
  assumes "t < n"
  shows "total n f (own(t := h)) + f (own t) = total n f own + f h"
proof -
  have "total n f (own(t := h)) = f h + (\<Sum>u\<in>{..<n} - {t}. f (own u))"
    using assms by (simp add: total_def sum.remove [of "{..<n}" t])
  moreover have "total n f own = f (own t) + (\<Sum>u\<in>{..<n} - {t}. f (own u))"
    using assms by (simp add: total_def sum.remove [of "{..<n}" t])
  ultimately show ?thesis by simp
qed

lemma total_ge: "t < n \<Longrightarrow> f (own t) \<le> total n f own"
  unfolding total_def by (rule member_le_sum) auto

lemma total_steps:
  assumes "t < n"
  shows "f h = f (own t) \<Longrightarrow> total n f (own(t := h)) = total n f own"
    "f h = Suc (f (own t)) \<Longrightarrow> total n f (own(t := h)) = Suc (total n f own)"
    "0 < f (own t) \<Longrightarrow> f h = f (own t) - 1 \<Longrightarrow> total n f (own(t := h)) = total n f own - 1 \<and> 0 < total n f own"
  using total_upd [OF assms, of f own h] total_ge [OF assms, of f own] by auto

lemma uint_minus_1: "(w :: u32) \<noteq> 0 \<Longrightarrow> uint (w - 1) = uint w - 1 \<and> 0 < uint w"
proof -
  assume "w \<noteq> 0"
  then have "unat (w - 1) = unat w - 1" "0 < unat w" by (simp_all add: unat_minus_one unat_gt_0)
  then have "int (unat (w - 1)) = int (unat w) - 1" "0 < int (unat w)" by linarith+
  then show ?thesis by simp
qed

lemma token_step_ok:
  assumes "token_step n c c'" "tokens_ok mo ma n c" "mo \<noteq> 0"
  shows "tokens_ok mo ma n c'"
proof -
  note lim = uint_minus_1 [OF assms(3)]
  from assms(1) show ?thesis
  proof (cases rule: token_step.cases)
    case (wait_open t s s' own)
    then show ?thesis
      using assms(2) lim by (auto simp: tokens_ok_def WaitForOpenIOZoneToken_def Let_def total_steps split: if_splits)
  next
    case (wait_wal t s s' own)
    then show ?thesis
      using assms(2) by (auto simp: tokens_ok_def WaitForOpenIOZoneToken_def Let_def total_steps split: if_splits)
  next
    case (get_active t s s' own)
    then show ?thesis
      using assms(2) by (auto simp: tokens_ok_def GetActiveIOZoneTokenIfAvailable_def total_steps split: if_splits)
  next
    case (put_open t own s)
    then show ?thesis
      using assms(2) total_steps(3) [of t n own_open own "own t\<lparr> own_open := own_open (own t) - 1 \<rparr>"]
      by (auto simp: tokens_ok_def PutOpenIOZoneToken_def total_steps(1))
  next
    case (put_wal t own s)
    then show ?thesis
      using assms(2) total_steps(3) [of t n own_wal own "own t\<lparr> own_wal := own_wal (own t) - 1 \<rparr>"]
      by (auto simp: tokens_ok_def PutOpenIOZoneToken_def total_steps(1))
  next
    case (put_active t own s)
    then show ?thesis
      using assms(2) total_steps(3) [of t n own_active own "own t\<lparr> own_active := own_active (own t) - 1 \<rparr>"]
      by (auto simp: tokens_ok_def PutActiveIOZoneToken_def total_steps(1))
  qed
qed

lemma token_run_ok: "token_run n c c' \<Longrightarrow> tokens_ok mo ma n c \<Longrightarrow> mo \<noteq> 0 \<Longrightarrow> tokens_ok mo ma n c'"
  by (induction rule: token_run.induct) (auto intro: token_step_ok)

subsection \<open>Properties\<close>



end
