(* ===== verification/Coding.thy ===== *)
theory Coding
  imports Prelude
begin

text \<open>
  The byte encodings of \<open>util/coding_lean.h\<close>, \<open>util/coding.h\<close> and \<open>util/coding.cc\<close>, on which
  every on-disk record of the file system rests.  An encoder returns the bytes it appends; a
  decoder takes the bytes of the input \<open>Slice\<close> and returns the value with the rest of the
  slice, or \<open>None\<close> where the code returns \<open>false\<close> or \<open>nullptr\<close>.  The contract of such a pair
  is the locale \<open>codec\<close>; each pair of the source interprets it.
\<close>

section \<open>Fixed-width little-endian integers\<close>

definition EncodeFixed16 :: "u16 \<Rightarrow> bytes" where
  "EncodeFixed16 value = [ucast (value AND 0xff), ucast (drop_bit 8 value AND 0xff)]"

definition EncodeFixed32 :: "u32 \<Rightarrow> bytes" where
  "EncodeFixed32 value =
     [ucast (value AND 0xff), ucast (drop_bit 8 value AND 0xff),
      ucast (drop_bit 16 value AND 0xff), ucast (drop_bit 24 value AND 0xff)]"

definition EncodeFixed64 :: "u64 \<Rightarrow> bytes" where
  "EncodeFixed64 value =
     [ucast (value AND 0xff), ucast (drop_bit 8 value AND 0xff),
      ucast (drop_bit 16 value AND 0xff), ucast (drop_bit 24 value AND 0xff),
      ucast (drop_bit 32 value AND 0xff), ucast (drop_bit 40 value AND 0xff),
      ucast (drop_bit 48 value AND 0xff), ucast (drop_bit 56 value AND 0xff)]"

text \<open>The decoders read without bounds checks; their callers check the size first.\<close>

definition DecodeFixed16 :: "bytes \<Rightarrow> u16" where
  "DecodeFixed16 ptr = (ucast (ptr ! 0) OR push_bit 8 (ucast (ptr ! 1)))"

definition DecodeFixed32 :: "bytes \<Rightarrow> u32" where
  "DecodeFixed32 ptr =
     (ucast (ptr ! 0) OR push_bit 8 (ucast (ptr ! 1)) OR push_bit 16 (ucast (ptr ! 2))
      OR push_bit 24 (ucast (ptr ! 3)))"

definition DecodeFixed64 :: "bytes \<Rightarrow> u64" where
  "DecodeFixed64 ptr =
     (let lo = ucast (DecodeFixed32 ptr); hi = ucast (DecodeFixed32 (drop 4 ptr))
      in push_bit 32 hi OR lo)"

definition PutFixed16 :: "bytes \<Rightarrow> u16 \<Rightarrow> bytes" where
  "PutFixed16 dst value = dst @ EncodeFixed16 value"

definition PutFixed32 :: "bytes \<Rightarrow> u32 \<Rightarrow> bytes" where
  "PutFixed32 dst value = dst @ EncodeFixed32 value"

definition PutFixed64 :: "bytes \<Rightarrow> u64 \<Rightarrow> bytes" where
  "PutFixed64 dst value = dst @ EncodeFixed64 value"

definition GetFixed16 :: "bytes \<Rightarrow> (u16 \<times> bytes) option" where
  "GetFixed16 input = (if length input < 2 then None else Some (DecodeFixed16 input, drop 2 input))"

definition GetFixed32 :: "bytes \<Rightarrow> (u32 \<times> bytes) option" where
  "GetFixed32 input = (if length input < 4 then None else Some (DecodeFixed32 input, drop 4 input))"

definition GetFixed64 :: "bytes \<Rightarrow> (u64 \<times> bytes) option" where
  "GetFixed64 input = (if length input < 8 then None else Some (DecodeFixed64 input, drop 8 input))"

section \<open>Variable-length integers\<close>

definition EncodeVarint32 :: "u32 \<Rightarrow> bytes" where
  "EncodeVarint32 v =
     (if v < push_bit 7 1 then [ucast v]
      else if v < push_bit 14 1 then [ucast (v OR 128), ucast (drop_bit 7 v)]
      else if v < push_bit 21 1 then
        [ucast (v OR 128), ucast (drop_bit 7 v OR 128), ucast (drop_bit 14 v)]
      else if v < push_bit 28 1 then
        [ucast (v OR 128), ucast (drop_bit 7 v OR 128), ucast (drop_bit 14 v OR 128),
         ucast (drop_bit 21 v)]
      else
        [ucast (v OR 128), ucast (drop_bit 7 v OR 128), ucast (drop_bit 14 v OR 128),
         ucast (drop_bit 21 v OR 128), ucast (drop_bit 28 v)])"

function EncodeVarint64 :: "u64 \<Rightarrow> bytes" where
  "EncodeVarint64 v =
     (if 128 \<le> v then ucast ((v AND 127) OR 128) # EncodeVarint64 (drop_bit 7 v) else [ucast v])"
  by pat_completeness auto
termination
  by (relation "measure unat") (auto intro: unat_drop_bit_less)

declare EncodeVarint64.simps [simp del]

definition PutVarint32 :: "bytes \<Rightarrow> u32 \<Rightarrow> bytes" where
  "PutVarint32 dst v = dst @ EncodeVarint32 v"

definition PutVarint64 :: "bytes \<Rightarrow> u64 \<Rightarrow> bytes" where
  "PutVarint64 dst v = dst @ EncodeVarint64 v"

function VarintLength :: "u64 \<Rightarrow> nat" where
  "VarintLength v = (if 128 \<le> v then Suc (VarintLength (drop_bit 7 v)) else 1)"
  by pat_completeness auto
termination
  by (relation "measure unat") (auto intro: unat_drop_bit_less)

declare VarintLength.simps [simp del]

text \<open>
  The loops of the varint decoders: \<open>shift\<close> runs over 0, 7, \<dots>, at most 28 (at most 63), and
  the input may run out before; both exits return \<open>nullptr\<close>.
\<close>

function varint32_loop :: "nat \<Rightarrow> u32 \<Rightarrow> bytes \<Rightarrow> (u32 \<times> bytes) option" where
  "varint32_loop shift result p =
     (if shift \<le> 28 then
        (case p of [] \<Rightarrow> None
         | c # p' \<Rightarrow>
             (let b = ucast c :: u32 in
              if b AND 128 \<noteq> 0 then varint32_loop (shift + 7) (result OR push_bit shift (b AND 127)) p'
              else Some (result OR push_bit shift b, p')))
      else None)"
  by pat_completeness auto
termination
  by (relation "measure (\<lambda>(shift, result, p). length p)") auto

declare varint32_loop.simps [simp del]

definition GetVarint32PtrFallback :: "bytes \<Rightarrow> (u32 \<times> bytes) option" where
  "GetVarint32PtrFallback p = varint32_loop 0 0 p"

definition GetVarint32Ptr :: "bytes \<Rightarrow> (u32 \<times> bytes) option" where
  "GetVarint32Ptr p =
     (case p of
        c # p' \<Rightarrow>
          (let result = ucast c :: u32 in
           if result AND 128 = 0 then Some (result, p') else GetVarint32PtrFallback p)
      | [] \<Rightarrow> GetVarint32PtrFallback p)"

definition GetVarint32 :: "bytes \<Rightarrow> (u32 \<times> bytes) option" where
  "GetVarint32 input = GetVarint32Ptr input"

function varint64_loop :: "nat \<Rightarrow> u64 \<Rightarrow> bytes \<Rightarrow> (u64 \<times> bytes) option" where
  "varint64_loop shift result p =
     (if shift \<le> 63 then
        (case p of [] \<Rightarrow> None
         | c # p' \<Rightarrow>
             (let b = ucast c :: u64 in
              if b AND 128 \<noteq> 0 then varint64_loop (shift + 7) (result OR push_bit shift (b AND 127)) p'
              else Some (result OR push_bit shift b, p')))
      else None)"
  by pat_completeness auto
termination
  by (relation "measure (\<lambda>(shift, result, p). length p)") auto

declare varint64_loop.simps [simp del]

definition GetVarint64 :: "bytes \<Rightarrow> (u64 \<times> bytes) option" where
  "GetVarint64 input = varint64_loop 0 0 input"

definition i64ToZigzag :: "64 word \<Rightarrow> u64" where
  "i64ToZigzag l = (push_bit 1 l XOR signed_drop_bit 63 l)"

definition zigzagToI64 :: "u64 \<Rightarrow> 64 word" where
  "zigzagToI64 n = (drop_bit 1 n XOR - (n AND 1))"

section \<open>Length-prefixed slices\<close>

definition PutLengthPrefixedSlice :: "bytes \<Rightarrow> bytes \<Rightarrow> bytes" where
  "PutLengthPrefixedSlice dst value = PutVarint32 dst (of_nat (length value)) @ value"

text \<open>
  The result slice, if the call returns \<open>true\<close>, and the input as the call leaves it: when the
  length is there but the data is short, the length has been consumed.
\<close>

definition GetLengthPrefixedSlice :: "bytes \<Rightarrow> bytes option \<times> bytes" where
  "GetLengthPrefixedSlice input =
     (case GetVarint32 input of
        None \<Rightarrow> (None, input)
      | Some (len, input') \<Rightarrow>
          if unat len \<le> length input' then (Some (take (unat len) input'), drop (unat len) input')
          else (None, input'))"

definition GetSliceUntil :: "bytes \<Rightarrow> byte \<Rightarrow> bytes \<times> bytes" where
  "GetSliceUntil input delimiter =
     (let len = length (takeWhile (\<lambda>b. b \<noteq> delimiter) input)
      in (take len input, drop (len + (if len < length input then 1 else 0)) input))"

section \<open>The contract of an encoding\<close>

text \<open>
  What a reader relies on: on a valid value, decoding what was encoded gives the value back and
  leaves exactly what followed it, and a successful decode consumes input.
\<close>

locale codec =
  fixes put :: "'a \<Rightarrow> bytes"
    and get :: "bytes \<Rightarrow> ('a \<times> bytes) option"
    and valid :: "'a \<Rightarrow> bool"
  assumes get_put: "valid x \<Longrightarrow> get (put x @ rest) = Some (x, rest)"
    and get_shorter: "get input = Some (x, rest) \<Longrightarrow> length rest < length input"
begin

lemma put_nonempty:
  assumes "valid x"
  shows "put x \<noteq> []"
proof
  assume "put x = []"
  with get_put [OF assms, of "[]"] have "get [] = Some (x, [])" by simp
  then show False using get_shorter by fastforce
qed

lemma prefix_free:
  assumes "valid x" "valid y" "put x @ r = put y @ s"
  shows "x = y \<and> r = s"
proof -
  have "Some (x, r) = Some (y, s)"
    unfolding get_put [OF assms(1), symmetric] get_put [OF assms(2), symmetric] assms(3) ..
  then show ?thesis by simp
qed

lemma put_inject: "valid x \<Longrightarrow> valid y \<Longrightarrow> put x = put y \<longleftrightarrow> x = y"
  using prefix_free [of x y "[]" "[]"] by auto

end

section \<open>Fixed-width round trips\<close>

lemma DecodeFixed16_Encode: "DecodeFixed16 (EncodeFixed16 v @ r) = v"
  by (rule bit_word_eqI) (auto simp: DecodeFixed16_def EncodeFixed16_def ucast_and_255 bit_simps)

lemma DecodeFixed32_Encode: "DecodeFixed32 (EncodeFixed32 v @ r) = v"
proof (rule bit_word_eqI)
  fix n assume n: "n < LENGTH(32)"
  consider "n < 8" | "8 \<le> n" "n < 16" | "16 \<le> n" "n < 24" | "24 \<le> n" by linarith
  then show "bit (DecodeFixed32 (EncodeFixed32 v @ r)) n = bit v n"
    using n by cases (auto simp add: DecodeFixed32_def EncodeFixed32_def ucast_and_255 bit_simps)
qed

lemma EncodeFixed64_split:
  "EncodeFixed64 v = EncodeFixed32 (ucast v) @ EncodeFixed32 (ucast (drop_bit 32 v))"
  unfolding EncodeFixed64_def EncodeFixed32_def ucast_and_255
  by (simp, intro conjI; rule bit_word_eqI; auto simp: bit_simps)

lemma length_EncodeFixed [simp]:
  "length (EncodeFixed16 h) = 2" "length (EncodeFixed32 v) = 4" "length (EncodeFixed64 w) = 8"
  by (simp_all add: EncodeFixed16_def EncodeFixed32_def EncodeFixed64_def)

lemma DecodeFixed64_Encode: "DecodeFixed64 (EncodeFixed64 v @ r) = v"
proof -
  have lo: "DecodeFixed32 (EncodeFixed64 v @ r) = ucast v"
    by (simp add: EncodeFixed64_split DecodeFixed32_Encode)
  have hi: "DecodeFixed32 (drop 4 (EncodeFixed64 v @ r)) = ucast (drop_bit 32 v)"
    by (simp add: EncodeFixed64_split DecodeFixed32_Encode)
  show ?thesis
    unfolding DecodeFixed64_def Let_def lo hi
    by (rule bit_word_eqI) (auto simp: bit_simps)
qed

interpretation fixed16: codec EncodeFixed16 GetFixed16 "\<lambda>_. True"
  by unfold_locales (auto simp: GetFixed16_def DecodeFixed16_Encode split: if_splits)

interpretation fixed32: codec EncodeFixed32 GetFixed32 "\<lambda>_. True"
  by unfold_locales (auto simp: GetFixed32_def DecodeFixed32_Encode split: if_splits)

interpretation fixed64: codec EncodeFixed64 GetFixed64 "\<lambda>_. True"
  by unfold_locales (auto simp: GetFixed64_def DecodeFixed64_Encode split: if_splits)

lemmas fixed_get_put [codec_simps] =
  fixed16.get_put [OF TrueI] fixed32.get_put [OF TrueI] fixed64.get_put [OF TrueI]

lemma fixed_get_put_Nil [codec_simps]:
  "GetFixed32 (EncodeFixed32 v) = Some (v, [])" "GetFixed64 (EncodeFixed64 w) = Some (w, [])"
  using fixed32.get_put [OF TrueI, of v "[]"] fixed64.get_put [OF TrueI, of w "[]"] by simp_all

section \<open>Varint round trips\<close>

text \<open>A byte with the continuation bit carries its low seven bits; a byte below 128 is final.\<close>

lemma cont_and127:
  fixes w :: "'a::len word"
  assumes "8 \<le> LENGTH('a)"
  shows "(ucast (ucast (w OR 128) :: byte) :: 'a word) AND 127 = w AND 127"
  unfolding mask7 using assms by (auto intro!: bit_word_eqI simp: bit_simps bit_128_int)

lemma cont_bit7:
  fixes w :: "'a::len word"
  assumes "8 \<le> LENGTH('a)"
  shows "bit (ucast (ucast (w OR 128) :: byte) :: 'a word) 7"
  using assms by (simp add: bit_simps bit_128_int)

lemma final_byte:
  fixes w :: "'a::len word"
  assumes "8 \<le> LENGTH('a)" "w < 128"
  shows "(ucast (ucast w :: byte) :: 'a word) = w" "\<not> bit w 7"
proof -
  have "unat (128 :: 'a word) \<le> 128" using unat_of_nat [of 128, where 'a = 'a] by simp
  then have "unat w < 128" using assms(2) by (simp only: word_less_nat_alt)
  moreover have "unat (take_bit 7 w) = take_bit 7 (unat w)" by (rule unsigned_take_bit_eq)
  ultimately have "w = take_bit 7 w"
    by (simp only: word_unat_eq_iff) (simp add: take_bit_nat_eq_self)
  then have *: "bit w n \<Longrightarrow> n < 7" for n by (metis bit_take_bit_iff)
  have **: "bit w n \<Longrightarrow> n < 8" for n using * [of n] by simp
  show "(ucast (ucast w :: byte) :: 'a word) = w"
    using assms by (auto intro!: bit_word_eqI simp: bit_simps dest: **)
  show "\<not> bit w 7" using * by blast
qed

lemmas varint_step_simps =
  and128 cont_bit7 cont_and127 mask7 [symmetric] mask_acc [unfolded mask7 [symmetric]] and.assoc

lemma varint32_more:
  assumes "s \<le> 28"
  shows "varint32_loop s (v AND mask s) (ucast (drop_bit s v OR 128) # p)
         = varint32_loop (s + 7) (v AND mask (s + 7)) p"
  by (subst varint32_loop.simps) (simp add: assms varint_step_simps del: push_bit_and)

lemma varint32_last:
  assumes "s \<le> 28" "drop_bit s v < 128"
  shows "varint32_loop s (v AND mask s) (ucast (drop_bit s v) # p) = Some (v, p)"
  by (subst varint32_loop.simps) (simp add: assms(1) and128 final_byte [OF _ assms(2)] mask_last)

lemma varint32_loop_Nil: "varint32_loop s r [] = None"
  by (subst varint32_loop.simps) simp

lemmas varint32_steps =
  varint32_more [of 0, simplified] varint32_more [of 7, simplified]
  varint32_more [of 14, simplified] varint32_more [of 21, simplified]

lemma varint32_loop_Encode: "varint32_loop 0 0 (EncodeVarint32 v @ r) = Some (v, r)"
proof -
  have bound: "v < push_bit (s + 7) 1 \<Longrightarrow> s + 7 < 32 \<Longrightarrow> drop_bit s v < 128" for s
    by (rule drop_bit_less_128) (simp_all add: word_less_nat_alt unat_pow2 push_bit_eq_mult)
  have top: "drop_bit 28 v < 128"
    using unsigned_less [of v, where 'a = nat] by (intro drop_bit_less_128) simp_all
  note lasts = varint32_last [of 0 v, simplified] varint32_last [of 7 v, simplified]
    varint32_last [of 14 v, simplified] varint32_last [of 21 v, simplified]
    varint32_last [OF _ top, simplified]
  show ?thesis
    using bound [of 0] bound [of 7] bound [of 14] bound [of 21]
    by (simp add: EncodeVarint32_def varint32_steps lasts del: push_bit_of_1)
qed

lemma varint32_loop_truncated:
  assumes "n < length (EncodeVarint32 v)"
  shows "varint32_loop 0 0 (take n (EncodeVarint32 v)) = None"
proof -
  have "n < 5" using assms by (auto simp: EncodeVarint32_def split: if_splits)
  then consider "n = 0" | "n = 1" | "n = 2" | "n = 3" | "n = 4" by linarith
  then show ?thesis
    using assms
    by cases (auto simp: EncodeVarint32_def varint32_loop_Nil varint32_steps split: if_splits)
qed

lemma varint32_loop_shorter:
  "varint32_loop s r p = Some (x, q) \<Longrightarrow> length q < length p"
proof (induction p arbitrary: s r)
  case Nil
  then show ?case by (simp add: varint32_loop.simps [of s r "[]"] split: if_splits)
next
  case (Cons c p)
  then show ?case
    by (subst (asm) (2) varint32_loop.simps) (auto simp: Let_def split: if_splits intro: less_SucI)
qed

lemma GetVarint32_eq_fallback: "GetVarint32 p = GetVarint32PtrFallback p"
  by (cases p)
    (auto simp: GetVarint32_def GetVarint32Ptr_def GetVarint32PtrFallback_def Let_def
      varint32_loop.simps)

interpretation varint32: codec EncodeVarint32 GetVarint32 "\<lambda>_. True"
  by unfold_locales
    (auto simp: GetVarint32_eq_fallback GetVarint32PtrFallback_def varint32_loop_Encode
      dest: varint32_loop_shorter)

lemma varint64_more:
  assumes "s \<le> 63"
  shows "varint64_loop s (v AND mask s) (ucast ((drop_bit s v AND 127) OR 128) # p)
         = varint64_loop (s + 7) (v AND mask (s + 7)) p"
  by (subst varint64_loop.simps) (simp add: assms varint_step_simps del: push_bit_and)

lemma varint64_last:
  assumes "s \<le> 63" "drop_bit s v < 128"
  shows "varint64_loop s (v AND mask s) (ucast (drop_bit s v) # p) = Some (v, p)"
  by (subst varint64_loop.simps) (simp add: assms(1) and128 final_byte [OF _ assms(2)] mask_last)

lemma drop_bit_ge_128_shift:
  fixes v :: u64
  assumes "128 \<le> drop_bit s v"
  shows "s + 7 \<le> 63"
proof (rule ccontr)
  assume "\<not> s + 7 \<le> 63"
  then have "unat v < 2 ^ (s + 7)"
    using unsigned_less [of v, where 'a = nat]
    by (simp add: less_le_trans [OF _ power_increasing [of 64]])
  then have "drop_bit s v < 128" by (rule drop_bit_less_128) simp
  with assms show False by simp
qed

lemma varint64_loop_Encode:
  "s \<le> 63 \<Longrightarrow> varint64_loop s (v AND mask s) (EncodeVarint64 (drop_bit s v) @ r) = Some (v, r)"
proof (induction "drop_bit s v" arbitrary: s rule: EncodeVarint64.induct)
  case 1
  show ?case
  proof (cases "128 \<le> drop_bit s v")
    case True
    then have "s + 7 \<le> 63" by (rule drop_bit_ge_128_shift)
    then have "varint64_loop (s + 7) (v AND mask (s + 7)) (EncodeVarint64 (drop_bit (s + 7) v) @ r)
               = Some (v, r)"
      using "1.hyps" [OF True, of "s + 7"] by (simp add: add.commute)
    with True 1 show ?thesis
      by (simp add: EncodeVarint64.simps [of "drop_bit s v"] varint64_more add.commute)
  next
    case False
    with 1 show ?thesis
      by (simp add: EncodeVarint64.simps [of "drop_bit s v"] varint64_last)
  qed
qed

lemma varint64_loop_shorter:
  "varint64_loop s r p = Some (x, q) \<Longrightarrow> length q < length p"
proof (induction p arbitrary: s r)
  case Nil
  then show ?case by (simp add: varint64_loop.simps [of s r "[]"] split: if_splits)
next
  case (Cons c p)
  then show ?case
    by (subst (asm) (2) varint64_loop.simps) (auto simp: Let_def split: if_splits intro: less_SucI)
qed

interpretation varint64: codec EncodeVarint64 GetVarint64 "\<lambda>_. True"
  using varint64_loop_Encode [of 0]
  by unfold_locales (auto simp: GetVarint64_def dest: varint64_loop_shorter)

lemma length_EncodeVarint64: "length (EncodeVarint64 v) = VarintLength v"
  by (induction v rule: EncodeVarint64.induct)
    (simp add: EncodeVarint64.simps VarintLength.simps)

lemma VarintLength_drop_bit: "s \<le> 63 \<Longrightarrow> 7 * VarintLength (drop_bit s v) + s \<le> 70"
proof (induction "drop_bit s v" arbitrary: s rule: VarintLength.induct)
  case 1
  show ?case
  proof (cases "128 \<le> drop_bit s v")
    case True
    then have *: "s + 7 \<le> 63" by (rule drop_bit_ge_128_shift)
    have "7 * VarintLength (drop_bit (s + 7) v) + (s + 7) \<le> 70"
      using "1.hyps" [OF True, of "s + 7"] * by (simp add: add.commute)
    with True show ?thesis
      by (simp add: VarintLength.simps [of "drop_bit s v"] add.commute)
  next
    case False
    with 1 show ?thesis
      by (simp add: VarintLength.simps [of "drop_bit s v"])
  qed
qed

section \<open>Zigzag\<close>

lemma bit_i64ToZigzag:
  "bit (i64ToZigzag l) n \<longleftrightarrow> n < 64 \<and> (if n = 0 then bit l 63 else bit l (n - 1) \<noteq> bit l 63)"
proof -
  have sg: "bit (signed_drop_bit 63 l) n \<longleftrightarrow> n < 64 \<and> bit l 63"
    unfolding bit_signed_drop_bit_iff by (cases n) (auto dest: bit_imp_le_length)
  have sh: "bit (push_bit 1 l) n \<longleftrightarrow> n < 64 \<and> 0 < n \<and> bit l (n - 1)"
    unfolding bit_push_bit_iff by auto
  show ?thesis unfolding i64ToZigzag_def bit_xor_iff sg sh by auto
qed

lemma zigzagToI64_i64ToZigzag: "zigzagToI64 (i64ToZigzag l) = l"
proof -
  have a: "i64ToZigzag l AND 1 = of_bool (bit l 63)"
    by (rule bit_word_eqI, simp only: bit_and_iff bit_i64ToZigzag bit_1_iff bit_of_bool_iff) auto
  show ?thesis
  proof (rule bit_word_eqI)
    fix n assume n: "n < LENGTH(64)"
    have "bit (- of_bool (bit l 63) :: u64) n \<longleftrightarrow> bit l 63"
      using n by (cases "bit l 63") simp_all
    then have "bit (zigzagToI64 (i64ToZigzag l)) n \<longleftrightarrow> bit (i64ToZigzag l) (Suc n) \<noteq> bit l 63"
      unfolding zigzagToI64_def a bit_xor_iff bit_drop_bit_eq by simp
    then show "bit (zigzagToI64 (i64ToZigzag l)) n = bit l n"
      using n by (cases "n = 63") (auto simp: bit_i64ToZigzag)
  qed
qed

section \<open>Length-prefixed slices\<close>

lemma GetLengthPrefixedSlice_Put:
  assumes "length value < 2 ^ 32"
  shows "GetLengthPrefixedSlice (PutLengthPrefixedSlice [] value @ rest) = (Some value, rest)"
  using assms
  by (simp add: GetLengthPrefixedSlice_def PutLengthPrefixedSlice_def PutVarint32_def
      varint32.get_put unat_of_nat)

lemma PutLengthPrefixedSlice_append: "PutLengthPrefixedSlice dst v = dst @ PutLengthPrefixedSlice [] v"
  by (simp add: PutLengthPrefixedSlice_def PutVarint32_def)

lemma GetLengthPrefixedSlice_truncated:
  assumes "length value < 2 ^ 32" "n < length (PutLengthPrefixedSlice [] value)"
  shows "fst (GetLengthPrefixedSlice (take n (PutLengthPrefixedSlice [] value))) = None"
proof -
  define p where "p = EncodeVarint32 (of_nat (length value))"
  have enc: "PutLengthPrefixedSlice [] value = p @ value"
    by (simp add: PutLengthPrefixedSlice_def PutVarint32_def p_def)
  show ?thesis
  proof (cases "n < length p")
    case True
    then have "GetVarint32 (take n p) = None"
      by (simp add: GetVarint32_eq_fallback GetVarint32PtrFallback_def p_def varint32_loop_truncated)
    with True show ?thesis by (simp add: enc GetLengthPrefixedSlice_def)
  next
    case False
    then have "take n (p @ value) = p @ take (n - length p) value" by simp
    moreover have "n - length p < length value" using assms(2) False enc by simp
    ultimately show ?thesis
      using assms(1)
      by (simp add: enc GetLengthPrefixedSlice_def p_def varint32.get_put unat_of_nat)
  qed
qed

lemma GetLengthPrefixedSlice_shorter:
  "GetLengthPrefixedSlice input = (Some s, rest) \<Longrightarrow> length rest < length input"
  by (auto simp: GetLengthPrefixedSlice_def split: option.splits if_splits
      dest!: varint32.get_shorter)

definition get_lps :: "bytes \<Rightarrow> (bytes \<times> bytes) option" where
  "get_lps input = (case GetLengthPrefixedSlice input of (Some s, r) \<Rightarrow> Some (s, r) | _ \<Rightarrow> None)"

interpretation lps: codec "PutLengthPrefixedSlice []" get_lps "\<lambda>v. length v < 2 ^ 32"
  by unfold_locales
    (auto simp: get_lps_def GetLengthPrefixedSlice_Put split: prod.splits option.splits
      dest: GetLengthPrefixedSlice_shorter)

section \<open>Properties\<close>

text \<open>
  For every 32-bit value, \<open>GetVarint32\<close> recovers what \<open>PutVarint32\<close> appended and leaves the
  bytes that follow, in at most five bytes; and the inlined one-byte fast path of \<open>GetVarint32Ptr\<close>
  agrees with the general loop \<open>GetVarint32PtrFallback\<close> on every input, malformed ones included.
\<close>

theorem varint32_roundtrip:
  "GetVarint32 (PutVarint32 [] v @ rest) = Some (v, rest)
   \<and> length (PutVarint32 [] v) \<le> 5
   \<and> GetVarint32 input = GetVarint32PtrFallback input"
  by (simp add: PutVarint32_def varint32.get_put GetVarint32_eq_fallback [of input])
    (simp add: EncodeVarint32_def)

text \<open>
  The 64-bit varint round trip; the encoding has exactly \<open>VarintLength\<close> bytes, which is never
  more than the buffer of \<open>kMaxVarint64Length\<close> = 10 bytes that \<open>PutVarint64\<close> encodes into.
\<close>

theorem varint64_roundtrip:
  "GetVarint64 (PutVarint64 [] v @ rest) = Some (v, rest)
   \<and> length (PutVarint64 [] v) = VarintLength v \<and> VarintLength v \<le> 10"
  using VarintLength_drop_bit [of 0 v]
  by (simp add: PutVarint64_def varint64.get_put length_EncodeVarint64)

text \<open>
  A length-prefixed slice shorter than 4 GiB is read back exactly, with the rest of the input
  untouched, and no truncated copy of it is ever accepted.
\<close>

theorem length_prefixed_roundtrip:
  assumes "length value < 2 ^ 32"
  shows "GetLengthPrefixedSlice (PutLengthPrefixedSlice [] value @ rest) = (Some value, rest)
    \<and> (n < length (PutLengthPrefixedSlice [] value)
        \<longrightarrow> fst (GetLengthPrefixedSlice (take n (PutLengthPrefixedSlice [] value))) = None)"
  using assms by (simp add: GetLengthPrefixedSlice_Put GetLengthPrefixedSlice_truncated)

theorem length_prefixed_roundtrip_witness:
  "length [1, 2, 3 :: byte] < 2 ^ 32
   \<and> GetLengthPrefixedSlice (PutLengthPrefixedSlice [] [1, 2, 3] @ [9]) = (Some [1, 2, 3], [9])
   \<and> fst (GetLengthPrefixedSlice (take 3 (PutLengthPrefixedSlice [] [1, 2, 3]))) = None"
proof -
  have len: "length [1, 2, 3 :: byte] < 2 ^ 32" by simp
  have size: "3 < length (PutLengthPrefixedSlice [] [1, 2, 3 :: byte])"
    by (simp add: PutLengthPrefixedSlice_def PutVarint32_def EncodeVarint32_def)
  show ?thesis
    using len size length_prefixed_roundtrip [OF len, of "[9]" 3] by simp
qed

end
