(* ===== verification/Superblock.thy ===== *)
theory Superblock
  imports Coding ZonedBlockDevice
begin

text \<open>
  The superblock of a metadata zone (\<open>Superblock\<close> of \<open>fs/fs_aquafs.h\<close> and \<open>.cc\<close>), the RAID modes
  (\<open>fs/raid/zone_raid.h\<close>, \<open>.cc\<close>) and the RAID description it carries (\<open>RaidInfoBasic\<close> of
  \<open>fs/raid/zone_raid_auto.h\<close>).

  A \<open>RaidMode\<close> is read from disk as a raw 32-bit value, so it is a word here and need not be one of
  the named modes.  What the superblock asks of a RAID backend is the argument of type
  \<open>raid_dev option\<close>: \<open>None\<close> for a backend without RAID.  The unique id and the version string come
  from the environment and the build; they are arguments.
\<close>

subsection \<open>RAID modes\<close>

type_synonym RaidMode = u32

definition RAID_NONE :: RaidMode where "RAID_NONE = 0"
definition RAID0 :: RaidMode where "RAID0 = 1"
definition RAID1 :: RaidMode where "RAID1 = 2"
definition RAID5 :: RaidMode where "RAID5 = 3"
definition RAID6 :: RaidMode where "RAID6 = 4"
definition RAID10 :: RaidMode where "RAID10 = 5"
definition RAID_C :: RaidMode where "RAID_C = 6"
definition RAID_A :: RaidMode where "RAID_A = 7"

lemmas mode_defs = RAID_NONE_def RAID0_def RAID1_def RAID5_def RAID6_def RAID10_def RAID_C_def RAID_A_def

definition raid_mode_str :: "RaidMode \<Rightarrow> string" where
  "raid_mode_str mode =
     (if mode = RAID0 then ''0'' else if mode = RAID1 then ''1'' else if mode = RAID5 then ''5''
      else if mode = RAID6 then ''6'' else if mode = RAID10 then ''10'' else if mode = RAID_A then ''a''
      else if mode = RAID_C then ''c'' else if mode = RAID_NONE then ''n'' else ''UNKNOWN'')"

definition raid_mode_from_str :: "string \<Rightarrow> RaidMode" where
  "raid_mode_from_str s =
     (if s = ''0'' then RAID0 else if s = ''1'' then RAID1 else if s = ''5'' then RAID5
      else if s = ''6'' then RAID6 else if s = ''10'' then RAID10
      else if s \<in> {''A'', ''a'', ''-a'', ''-A''} then RAID_A
      else if s \<in> {''C'', ''c'', ''-c'', ''-C''} then RAID_C
      else RAID_A)"

text \<open>Every named mode but \<open>RAID_NONE\<close> is read back from its string; \<open>''n''\<close> is read as auto RAID.\<close>

lemma raid_mode_roundtrip:
  assumes "mode \<in> {RAID0, RAID1, RAID5, RAID6, RAID10, RAID_C, RAID_A}"
  shows "raid_mode_from_str (raid_mode_str mode) = mode"
  using assms by (auto simp: raid_mode_str_def raid_mode_from_str_def mode_defs)

lemma raid_mode_none: "raid_mode_from_str (raid_mode_str RAID_NONE) = RAID_A"
  by (simp add: raid_mode_str_def raid_mode_from_str_def mode_defs)

subsection \<open>RAID description\<close>

record raid_dev =
  rd_mode :: RaidMode
  rd_nr_dev :: nat
  rd_block_sz :: u32
  rd_zone_sz :: u64
  rd_nr_zones :: u32

record RaidInfoBasic =
  main_mode :: RaidMode
  nr_devices :: u32
  dev_block_size :: u32
  dev_zone_size :: u32
  dev_nr_zones :: u32

definition raid_info_empty :: RaidInfoBasic where
  "raid_info_empty = \<lparr> main_mode = RAID_NONE, nr_devices = 0, dev_block_size = 0,
     dev_zone_size = 0, dev_nr_zones = 0 \<rparr>"

definition raid_info_load :: "raid_dev option \<Rightarrow> RaidInfoBasic \<Rightarrow> RaidInfoBasic" where
  "raid_info_load rd ri =
     (case rd of
        None \<Rightarrow> ri
      | Some d \<Rightarrow> \<lparr> main_mode = rd_mode d, nr_devices = of_nat (rd_nr_dev d),
          dev_block_size = rd_block_sz d, dev_zone_size = ucast (rd_zone_sz d),
          dev_nr_zones = rd_nr_zones d \<rparr>)"

definition raid_error :: "bytes \<Rightarrow> status" where
  "raid_error msg = Corruption (str ''RAID Error'') msg"

definition raid_info_compatible :: "raid_dev option \<Rightarrow> RaidInfoBasic \<Rightarrow> status" where
  "raid_info_compatible rd ri =
     (case rd of
        None \<Rightarrow> OK
      | Some d \<Rightarrow>
          if main_mode ri \<noteq> rd_mode d
          then raid_error (str ''main_mode mismatch: superblock-raid'' @ str (raid_mode_str (main_mode ri))
                 @ str '' != disk-raid'' @ str (raid_mode_str (rd_mode d)))
          else if unat (nr_devices ri) \<noteq> rd_nr_dev d then raid_error (str ''nr_devices mismatch'')
          else if dev_block_size ri \<noteq> rd_block_sz d then raid_error (str ''dev_block_size mismatch'')
          else if ucast (dev_zone_size ri) \<noteq> rd_zone_sz d then raid_error (str ''dev_zone_size mismatch'')
          else if dev_nr_zones ri \<noteq> rd_nr_zones d then raid_error (str ''dev_nr_zones mismatch'')
          else OK)"

text \<open>The description is stored as the five little-endian words of the object.\<close>

definition raid_info_bytes :: "RaidInfoBasic \<Rightarrow> bytes" where
  "raid_info_bytes ri = EncodeFixed32 (main_mode ri) @ EncodeFixed32 (nr_devices ri)
     @ EncodeFixed32 (dev_block_size ri) @ EncodeFixed32 (dev_zone_size ri) @ EncodeFixed32 (dev_nr_zones ri)"

definition raid_info_of_bytes :: "bytes \<Rightarrow> RaidInfoBasic" where
  "raid_info_of_bytes b = \<lparr> main_mode = DecodeFixed32 b, nr_devices = DecodeFixed32 (drop 4 b),
     dev_block_size = DecodeFixed32 (drop 8 b), dev_zone_size = DecodeFixed32 (drop 12 b),
     dev_nr_zones = DecodeFixed32 (drop 16 b) \<rparr>"

subsection \<open>The superblock\<close>

record superblock =
  sb_magic :: u32
  sb_uuid :: bytes
  sb_sequence :: u32
  sb_version :: u32
  sb_flags :: u32
  sb_block_size :: u32
  sb_zone_size :: u32
  sb_nr_zones :: u32
  sb_aux_fs_path :: bytes
  sb_finish_treshold :: u32
  sb_aquafs_version :: bytes
  sb_raid_info :: RaidInfoBasic
  sb_reserved :: bytes

definition MAGIC :: u32 where "MAGIC = 0x41515541"
definition ENCODED_SIZE :: nat where "ENCODED_SIZE = 512"
definition CURRENT_SUPERBLOCK_VERSION :: u32 where "CURRENT_SUPERBLOCK_VERSION = 2"
definition DEFAULT_FLAGS :: u32 where "DEFAULT_FLAGS = 0"
definition FLAGS_ENABLE_GC :: u32 where "FLAGS_ENABLE_GC = 1"
definition FLAGS_ENABLE_RAID :: u32 where "FLAGS_ENABLE_RAID = 2"

text \<open>A byte string in a zeroed array of \<open>n\<close> bytes, cut so that a zero byte is left at the end.\<close>

definition c_array :: "nat \<Rightarrow> bytes \<Rightarrow> bytes" where
  "c_array n s = (let k = take (n - 1) s in k @ replicate (n - length k) 0)"

text \<open>\<open>strncpy\<close> stops at the first zero byte, as does reading the array as a C string.\<close>

definition c_string :: "bytes \<Rightarrow> bytes" where
  "c_string s = takeWhile (\<lambda>b. b \<noteq> 0) s"

definition new_Superblock ::
  "'b backend \<Rightarrow> raid_dev option \<Rightarrow> bytes \<Rightarrow> bytes \<Rightarrow> bytes \<Rightarrow> u32 \<Rightarrow> bool \<Rightarrow> bool \<Rightarrow> 'b zbd \<Rightarrow> superblock" where
  "new_Superblock be rd uuid version aux_fs_path ft enable_gc enable_raid s =
     \<lparr> sb_magic = MAGIC, sb_uuid = c_array 37 uuid, sb_sequence = 0,
       sb_version = CURRENT_SUPERBLOCK_VERSION,
       sb_flags = (DEFAULT_FLAGS OR (if enable_gc then FLAGS_ENABLE_GC else 0))
         OR (if enable_raid then FLAGS_ENABLE_RAID else 0),
       sb_block_size = GetBlockSize be s,
       sb_zone_size = ucast (GetZoneSize be s div ucast (GetBlockSize be s)),
       sb_nr_zones = GetNrZones be s,
       sb_aux_fs_path = c_array 256 (c_string aux_fs_path),
       sb_finish_treshold = ft,
       sb_aquafs_version = c_array 64 (c_string version),
       sb_raid_info = raid_info_load rd raid_info_empty,
       sb_reserved = replicate 103 0 \<rparr>"

definition sb_error :: "string \<Rightarrow> status" where
  "sb_error msg = Corruption (str ''AquaFS Superblock'') (str msg)"

text \<open>The fields in the order they are read; \<open>input\<close> has \<open>ENCODED_SIZE\<close> bytes, so every read
  succeeds.\<close>

definition sb_fields :: "bytes \<Rightarrow> superblock" where
  "sb_fields input =
     (let i1 = drop 41 input; i2 = drop 28 i1; i3 = drop 256 i2; i4 = drop 64 i3; i5 = drop 20 i4 in
      \<lparr> sb_magic = DecodeFixed32 input, sb_uuid = take 37 (drop 4 input),
        sb_sequence = DecodeFixed32 i1, sb_version = DecodeFixed32 (drop 4 i1),
        sb_flags = DecodeFixed32 (drop 8 i1), sb_block_size = DecodeFixed32 (drop 12 i1),
        sb_zone_size = DecodeFixed32 (drop 16 i1), sb_nr_zones = DecodeFixed32 (drop 20 i1),
        sb_aux_fs_path = take 256 i2, sb_finish_treshold = DecodeFixed32 (drop 24 i1),
        sb_aquafs_version = take 64 i3, sb_raid_info = raid_info_of_bytes (take 20 i4),
        sb_reserved = take 103 i5 \<rparr>)"

definition sb_DecodeFrom :: "bytes \<Rightarrow> superblock \<Rightarrow> status \<times> superblock" where
  "sb_DecodeFrom input sb =
     (if length input \<noteq> ENCODED_SIZE then (sb_error ''Error: Superblock size missmatch'', sb)
      else let sb' = sb_fields input in
        if sb_magic sb' \<noteq> MAGIC then (sb_error ''Error: Magic missmatch'', sb')
        else if sb_version sb' \<noteq> CURRENT_SUPERBLOCK_VERSION
        then (sb_error (''Error: Incompatible AquaFS on-disk format version, ''
               @ ''please migrate data or switch to previously used AquaFS version. ''
               @ ''See the AquaFS README for instructions.''), sb')
        else (OK, sb'))"

definition sb_EncodeTo :: "superblock \<Rightarrow> bytes \<times> superblock" where
  "sb_EncodeTo sb0 =
     (let sb = sb0\<lparr> sb_sequence := sb_sequence sb0 + 1 \<rparr>;
          o1 = PutFixed32 [] (sb_magic sb) @ sb_uuid sb;
          o2 = PutFixed32 (PutFixed32 (PutFixed32 o1 (sb_sequence sb)) (sb_version sb)) (sb_flags sb);
          o3 = PutFixed32 (PutFixed32 (PutFixed32 o2 (sb_block_size sb)) (sb_zone_size sb)) (sb_nr_zones sb);
          o4 = PutFixed32 o3 (sb_finish_treshold sb) @ sb_aux_fs_path sb @ sb_aquafs_version sb in
      (o4 @ raid_info_bytes (sb_raid_info sb) @ sb_reserved sb, sb))"

definition CompatibleWith :: "'b backend \<Rightarrow> raid_dev option \<Rightarrow> superblock \<Rightarrow> 'b zbd \<Rightarrow> status" where
  "CompatibleWith be rd sb s =
     (let st = raid_info_compatible rd (sb_raid_info sb) in
      if \<not> ok st then st
      else if sb_block_size sb \<noteq> GetBlockSize be s then sb_error ''Error: block size missmatch''
      else if ucast (sb_zone_size sb) \<noteq> GetZoneSize be s div ucast (sb_block_size sb)
      then sb_error ''Error: zone size missmatch''
      else if sb_nr_zones sb > GetNrZones be s then sb_error ''Error: nr of zones missmatch''
      else OK)"

definition GetAuxFsPath :: "superblock \<Rightarrow> bytes" where
  "GetAuxFsPath sb = c_string (sb_aux_fs_path sb)"

definition IsGCEnabled :: "superblock \<Rightarrow> bool" where
  "IsGCEnabled sb = (sb_flags sb AND FLAGS_ENABLE_GC \<noteq> 0)"

definition sb_IsRAIDEnabled :: "superblock \<Rightarrow> bool" where
  "sb_IsRAIDEnabled sb = (sb_flags sb AND FLAGS_ENABLE_RAID \<noteq> 0)"

text \<open>The report; a newline is byte 10 and a tab byte 9.\<close>

definition report_line :: "string \<Rightarrow> nat \<Rightarrow> bytes \<Rightarrow> bytes" where
  "report_line name tabs v = [10] @ str name @ replicate tabs 9 @ v"

definition of_flag :: "bool \<Rightarrow> bytes" where
  "of_flag b = to_string (if b then 1 else 0)"

definition GetReport :: "superblock \<Rightarrow> bytes" where
  "GetReport sb =
     PutFixed32 (str ''Magic:'' @ replicate 4 9) (sb_magic sb)
     @ report_line ''UUID:'' 4 (c_string (sb_uuid sb))
     @ report_line ''Sequence Number:'' 2 (to_string (unat (sb_sequence sb)))
     @ report_line ''Superblock Version:'' 2 (to_string (unat (sb_version sb)))
     @ report_line ''Flags [Decimal]:'' 2 (to_string (unat (sb_flags sb)))
     @ report_line ''Block Size [Bytes]:'' 2 (to_string (unat (sb_block_size sb)))
     @ report_line ''Zone Size [Blocks]:'' 2 (to_string (unat (sb_zone_size sb)))
     @ report_line ''Number of Zones:'' 2 (to_string (unat (sb_nr_zones sb)))
     @ report_line ''Finish Threshold [%]:'' 2 (to_string (unat (sb_finish_treshold sb)))
     @ report_line ''Garbage Collection Enabled:'' 1 (of_flag (IsGCEnabled sb))
     @ report_line ''Auxiliary FS Path:'' 2 (GetAuxFsPath sb)
     @ report_line ''AquaFS Version:'' 3 (let v = c_string (sb_aquafs_version sb) in
         if v = [] then str ''Not Available'' else v)
     @ report_line ''AquaFS RAID Enabled:'' 1 (of_flag (sb_IsRAIDEnabled sb))
     @ (if sb_IsRAIDEnabled sb
        then report_line ''AquaFS Raid Mode:'' 2 (str (raid_mode_str (main_mode (sb_raid_info sb))))
          @ report_line ''AquaFS Raid Number of Devices:'' 1 (to_string (unat (nr_devices (sb_raid_info sb))))
        else [])"

subsection \<open>Well-formedness and round trip\<close>

definition sb_wf :: "superblock \<Rightarrow> bool" where
  "sb_wf sb = (length (sb_uuid sb) = 37 \<and> length (sb_aux_fs_path sb) = 256
     \<and> length (sb_aquafs_version sb) = 64 \<and> length (sb_reserved sb) = 103
     \<and> sb_magic sb = MAGIC \<and> sb_version sb = CURRENT_SUPERBLOCK_VERSION)"

lemma length_c_array: "0 < n \<Longrightarrow> length (c_array n s) = n"
  by (simp add: c_array_def Let_def min_def)

lemma sb_wf_new: "sb_wf (new_Superblock be rd uuid version aux ft gc raid s)"
  by (simp add: sb_wf_def new_Superblock_def length_c_array)

lemma raid_info_bytes_roundtrip:
  "raid_info_of_bytes (raid_info_bytes ri) = ri" "length (raid_info_bytes ri) = 20"
  using DecodeFixed32_Encode [of _ "[]"]
  by (simp_all add: raid_info_of_bytes_def raid_info_bytes_def DecodeFixed32_Encode)

lemma sb_fields_EncodeTo:
  assumes "sb_wf sb"
  shows "sb_fields (fst (sb_EncodeTo sb)) = snd (sb_EncodeTo sb)"
    "length (fst (sb_EncodeTo sb)) = ENCODED_SIZE"
proof -
  show "length (fst (sb_EncodeTo sb)) = ENCODED_SIZE"
    using assms
    by (simp add: sb_EncodeTo_def Let_def PutFixed32_def sb_wf_def ENCODED_SIZE_def raid_info_bytes_roundtrip)
  show "sb_fields (fst (sb_EncodeTo sb)) = snd (sb_EncodeTo sb)"
    using assms
    by (simp add: sb_fields_def sb_EncodeTo_def Let_def PutFixed32_def sb_wf_def DecodeFixed32_Encode
        raid_info_bytes_roundtrip)
qed

text \<open>
  C25: a superblock that \<open>Superblock::EncodeTo\<close> wrote is read back unchanged, with the sequence
  number it was written with.
\<close>

theorem superblock_roundtrip:
  assumes "sb_wf sb"
  shows "sb_DecodeFrom (fst (sb_EncodeTo sb)) sb0 = (OK, sb\<lparr> sb_sequence := sb_sequence sb + 1 \<rparr>)"
proof -
  have "snd (sb_EncodeTo sb) = sb\<lparr> sb_sequence := sb_sequence sb + 1 \<rparr>"
    by (simp add: sb_EncodeTo_def Let_def)
  then show ?thesis
    using sb_fields_EncodeTo [OF assms] assms by (simp add: sb_DecodeFrom_def Let_def sb_wf_def)
qed

theorem superblock_roundtrip_witness:
  "sb_DecodeFrom (fst (sb_EncodeTo (new_Superblock demo_be None (str ''id'') (str ''v1'') (str ''/aux'') 5 True False demo_zbd)))
     (new_Superblock demo_be None [] [] [] 0 False False demo_zbd)
   = (OK, (new_Superblock demo_be None (str ''id'') (str ''v1'') (str ''/aux'') 5 True False demo_zbd)\<lparr> sb_sequence := 1 \<rparr>)"
  using superblock_roundtrip [OF sb_wf_new [of demo_be None "str ''id''" "str ''v1''" "str ''/aux''" 5 True False demo_zbd]]
  by (simp add: new_Superblock_def)

text \<open>A value survives being stored in 32 bits exactly when it fits.\<close>

lemma ucast_ucast_u64: "(ucast (ucast (w :: u64) :: u32) = w) = (unat w < 2 ^ 32)"
proof -
  have "unat (ucast (ucast w :: u32) :: u64) = unat w mod 2 ^ 32"
    by (simp add: unsigned_ucast_eq take_bit_eq_mod unat_mod)
  moreover have "(unat w mod 2 ^ 32 = unat w) = (unat w < 2 ^ 32)"
    using mod_less_divisor [of "2 ^ 32" "unat w"] by (auto intro: mod_less)
  ultimately show ?thesis by (metis unsigned_word_eqI)
qed

lemma unat_of_nat_u32: "(unat (of_nat n :: u32) = n) = (n < 2 ^ 32)"
  using unat_lt [of "of_nat n :: u32"] unat_of_nat_small [of n, where 'a = 32] by auto

text \<open>
  A superblock made by \<open>MkFS\<close> passes \<open>CompatibleWith\<close> on the same device exactly when the zone
  size in blocks and, for a RAID backend, the zone size in bytes and the number of devices fit the
  32-bit fields they are stored in.  A RAID file system on zones of 4 GiB or more can be created
  but never mounted.
\<close>

theorem mkfs_superblock_compatible:
  "ok (CompatibleWith be rd (new_Superblock be rd uuid version aux ft gc raid s) s)
    = (unat (GetZoneSize be s div ucast (GetBlockSize be s)) < 2 ^ 32
       \<and> (case rd of None \<Rightarrow> True | Some d \<Rightarrow> unat (rd_zone_sz d) < 2 ^ 32 \<and> rd_nr_dev d < 2 ^ 32))"
proof -
  have "ok (raid_info_compatible rd (raid_info_load rd raid_info_empty))
      = (case rd of None \<Rightarrow> True | Some d \<Rightarrow> unat (rd_zone_sz d) < 2 ^ 32 \<and> rd_nr_dev d < 2 ^ 32)"
    using ucast_ucast_u64 unat_of_nat_u32
    by (auto simp: raid_info_compatible_def raid_info_load_def raid_error_def split: option.splits)
  then show ?thesis
    using ucast_ucast_u64 [of "GetZoneSize be s div ucast (GetBlockSize be s)"]
    by (auto simp: CompatibleWith_def new_Superblock_def sb_error_def Let_def)
qed

end
