(* ===== verification/ZoneFile.thy ===== *)
theory ZoneFile
  imports Coding ZonedBlockDevice
begin

text \<open>
  Classes \<open>ZoneExtent\<close> and \<open>ZoneFile\<close> (\<open>fs/io_aquafs.h\<close>, \<open>.cc\<close>): a file as a list of extents in
  data zones, its metadata encoding, reads, the three append paths, and recovery after a crash.

  Operations take the backend, the file and the device state and return them updated.  A file
  calls back into the file system to persist its metadata (\<open>MetadataWriter::Persist\<close>): that
  callback is the argument \<open>pw\<close>, over a state \<open>'m\<close> of the file system that the file does not
  look at.  A result \<open>None\<close> means that the C++ call does not return: it blocks on a token, spins,
  or dereferences a null pointer.  Mutexes are the subject of the theory \<open>Locks\<close>.
\<close>

subsection \<open>Extents\<close>

record ZoneExtent =
  ex_start :: u64
  ex_length :: u64
  ex_zone :: nat

definition extent_EncodeTo :: "bytes \<Rightarrow> ZoneExtent \<Rightarrow> bytes" where
  "extent_EncodeTo output e = PutFixed64 (PutFixed64 output (ex_start e)) (ex_length e)"

text \<open>The zone of a decoded extent is looked up by its caller; until then it is \<open>0\<close>.\<close>

definition extent_DecodeFrom :: "bytes \<Rightarrow> status \<times> ZoneExtent" where
  "extent_DecodeFrom input =
     (if length input \<noteq> 8 + 8
      then (Corruption (str ''ZoneExtent'') (str ''Error: length missmatch''),
            \<lparr> ex_start = 0, ex_length = 0, ex_zone = 0 \<rparr>)
      else case GetFixed64 input of
        None \<Rightarrow> (OK, \<lparr> ex_start = 0, ex_length = 0, ex_zone = 0 \<rparr>)
      | Some (s, rest) \<Rightarrow> (OK, \<lparr> ex_start = s,
          ex_length = (case GetFixed64 rest of None \<Rightarrow> 0 | Some (l, _) \<Rightarrow> l), ex_zone = 0 \<rparr>))"

definition extent_EncodeJson :: "ZoneExtent \<Rightarrow> bytes" where
  "extent_EncodeJson e = str ''{'' @ json_field ''start'' (unat (ex_start e)) @ str '',''
     @ json_field ''length'' (unat (ex_length e)) @ str ''}''"

subsection \<open>The file\<close>

definition kFileID :: u32 where "kFileID = 1"
definition kFileNameDeprecated :: u32 where "kFileNameDeprecated = 2"
definition kFileSize :: u32 where "kFileSize = 3"
definition kWriteLifeTimeHint :: u32 where "kWriteLifeTimeHint = 4"
definition kExtent :: u32 where "kExtent = 5"
definition kModificationTime :: u32 where "kModificationTime = 6"
definition kActiveExtentStart :: u32 where "kActiveExtentStart = 7"
definition kIsSparse :: u32 where "kIsSparse = 8"
definition kLinkedFilename :: u32 where "kLinkedFilename = 9"

lemmas tag_defs = kFileID_def kFileNameDeprecated_def kFileSize_def kWriteLifeTimeHint_def
  kExtent_def kModificationTime_def kActiveExtentStart_def kIsSparse_def kLinkedFilename_def

definition NO_EXTENT :: u64 where "NO_EXTENT = 0xffffffffffffffff"

definition SPARSE_HEADER_SIZE :: nat where "SPARSE_HEADER_SIZE = 8"

record zfile =
  extents :: "ZoneExtent list"
  linkfiles :: "bytes list"
  active_zone :: "nat option"
  extent_start :: u64
  extent_filepos :: u64
  zf_lifetime :: WriteLifeTimeHint
  io_type :: IOType
  file_size :: u64
  file_id :: u64
  nr_synced_extents :: u32
  open_for_wr :: bool
  m_time :: u64
  is_sparse :: bool
  is_deleted :: bool

definition new_ZoneFile :: "u64 \<Rightarrow> zfile" where
  "new_ZoneFile fid = \<lparr> extents = [], linkfiles = [], active_zone = None,
     extent_start = NO_EXTENT, extent_filepos = 0, zf_lifetime = WLTH_NOT_SET,
     io_type = kUnknown, file_size = 0, file_id = fid, nr_synced_extents = 0,
     open_for_wr = False, m_time = 0, is_sparse = False, is_deleted = False \<rparr>"

definition MetadataSynced :: "zfile \<Rightarrow> zfile" where
  "MetadataSynced f = f\<lparr> nr_synced_extents := of_nat (length (extents f)) \<rparr>"

definition MetadataUnsynced :: "zfile \<Rightarrow> zfile" where
  "MetadataUnsynced f = f\<lparr> nr_synced_extents := 0 \<rparr>"

definition HasActiveExtent :: "zfile \<Rightarrow> bool" where
  "HasActiveExtent f = (extent_start f \<noteq> NO_EXTENT)"

definition GetNrLinks :: "zfile \<Rightarrow> u32" where
  "GetNrLinks f = of_nat (length (linkfiles f))"

subsection \<open>Metadata encoding\<close>

definition put_extents :: "ZoneExtent list \<Rightarrow> bytes \<Rightarrow> bytes" where
  "put_extents es output =
     fold (\<lambda>e out. PutLengthPrefixedSlice (PutFixed32 out kExtent) (extent_EncodeTo [] e)) es output"

definition put_links :: "bytes list \<Rightarrow> bytes \<Rightarrow> bytes" where
  "put_links ls output =
     fold (\<lambda>l out. PutLengthPrefixedSlice (PutFixed32 out kLinkedFilename) l) ls output"

definition file_EncodeTo :: "zfile \<Rightarrow> bytes \<Rightarrow> u32 \<Rightarrow> bytes" where
  "file_EncodeTo f output es =
     (let o1 = PutFixed64 (PutFixed32 output kFileID) (file_id f);
          o2 = PutFixed64 (PutFixed32 o1 kFileSize) (file_size f);
          o3 = PutFixed32 (PutFixed32 o2 kWriteLifeTimeHint) (zf_lifetime f);
          o4 = put_extents (drop (unat es) (extents f)) o3;
          o5 = PutFixed64 (PutFixed32 o4 kModificationTime) (m_time f);
          o6 = PutFixed64 (PutFixed32 o5 kActiveExtentStart) (extent_start f);
          o7 = (if is_sparse f then PutFixed32 o6 kIsSparse else o6) in
      put_links (linkfiles f) o7)"

definition EncodeUpdateTo :: "zfile \<Rightarrow> bytes \<Rightarrow> bytes" where
  "EncodeUpdateTo f output = file_EncodeTo f output (nr_synced_extents f)"

definition file_EncodeSnapshotTo :: "zfile \<Rightarrow> bytes \<Rightarrow> bytes" where
  "file_EncodeSnapshotTo f output = file_EncodeTo f output 0"

fun json_sep :: "bytes list \<Rightarrow> bool \<Rightarrow> bytes" where
  "json_sep [] first = []"
| "json_sep (x # xs) first = (if first then [] else str '','') @ x @ json_sep xs False"

definition file_EncodeJson :: "zfile \<Rightarrow> bytes" where
  "file_EncodeJson f =
     str ''{'' @ json_field ''id'' (unat (file_id f)) @ str '',''
     @ json_field ''size'' (unat (file_size f)) @ str '',''
     @ json_field ''hint'' (unat (zf_lifetime f)) @ str '',''
     @ str [CHR 0x22] @ str ''extents'' @ str [CHR 0x22] @ str '':[''
     @ concat (map (\<lambda>n. str [CHR 0x22] @ str ''filename'' @ str [CHR 0x22] @ str '':''
         @ str [CHR 0x22] @ n @ str [CHR 0x22] @ str '','') (linkfiles f))
     @ json_sep (map extent_EncodeJson (extents f)) True @ str '']}''"

text \<open>Adding to the used capacity of a zone through its pointer.\<close>

definition add_used :: "nat \<Rightarrow> u64 \<Rightarrow> 'b zbd \<Rightarrow> 'b zbd" where
  "add_used i n s = set_io i ((io_zones s ! i)\<lparr> used_capacity := used_capacity (io_zones s ! i) + n \<rparr>) s"

definition file_corruption :: "string \<Rightarrow> status" where
  "file_corruption msg = Corruption (str ''ZoneFile'') (str msg)"

text \<open>One field of a file record: the branch of the \<open>switch\<close> for its tag.  The result is the
  status, the file, the device and the input that is left.\<close>

definition decode_field ::
  "'b backend \<Rightarrow> u32 \<Rightarrow> bytes \<Rightarrow> zfile \<Rightarrow> 'b zbd \<Rightarrow> status \<times> zfile \<times> 'b zbd \<times> bytes" where
  "decode_field be tag input f s =
     (if tag = kFileSize then
        (case GetFixed64 input of
           None \<Rightarrow> (file_corruption ''Missing file size'', f, s, input)
         | Some (v, rest) \<Rightarrow> (OK, f\<lparr> file_size := v \<rparr>, s, rest))
      else if tag = kWriteLifeTimeHint then
        (case GetFixed32 input of
           None \<Rightarrow> (file_corruption ''Missing life time hint'', f, s, input)
         | Some (v, rest) \<Rightarrow> (OK, f\<lparr> zf_lifetime := v \<rparr>, s, rest))
      else if tag = kExtent then
        (let (sl, rest) = GetLengthPrefixedSlice input;
             (st, e) = extent_DecodeFrom (case sl of None \<Rightarrow> [] | Some b \<Rightarrow> b) in
         if \<not> ok st then (st, f, s, rest)
         else case GetIOZone be (ex_start e) s of
           None \<Rightarrow> (file_corruption ''Invalid zone extent'', f, s, rest)
         | Some i \<Rightarrow> (OK, f\<lparr> extents := extents f @ [e\<lparr> ex_zone := i \<rparr>] \<rparr>,
                       add_used i (ex_length e) s, rest))
      else if tag = kModificationTime then
        (case GetFixed64 input of
           None \<Rightarrow> (file_corruption ''Missing creation time'', f, s, input)
         | Some (v, rest) \<Rightarrow> (OK, f\<lparr> m_time := v \<rparr>, s, rest))
      else if tag = kActiveExtentStart then
        (case GetFixed64 input of
           None \<Rightarrow> (file_corruption ''Active extent start'', f, s, input)
         | Some (v, rest) \<Rightarrow> (OK, f\<lparr> extent_start := v \<rparr>, s, rest))
      else if tag = kIsSparse then (OK, f\<lparr> is_sparse := True \<rparr>, s, input)
      else if tag = kLinkedFilename then
        (case GetLengthPrefixedSlice input of
           (None, rest) \<Rightarrow> (file_corruption ''LinkFilename missing'', f, s, rest)
         | (Some n, rest) \<Rightarrow>
             if length n = 0 then (file_corruption ''Zero length Linkfilename'', f, s, rest)
             else (OK, f\<lparr> linkfiles := linkfiles f @ [n] \<rparr>, s, rest))
      else (file_corruption ''Unexpected tag'', f, s, input))"

lemma length_GetFixed32: "GetFixed32 input = Some (v, rest) \<Longrightarrow> length input = length rest + 4"
  by (auto simp: GetFixed32_def split: if_splits)

lemma GetLengthPrefixedSlice_le: "GetLengthPrefixedSlice input = (r, rest) \<Longrightarrow> length rest \<le> length input"
  by (auto simp: GetLengthPrefixedSlice_def split: option.splits if_splits
      dest!: varint32.get_shorter)

lemma decode_field_shorter:
  "decode_field be tag input f s = (st, f', s', rest) \<Longrightarrow> length rest \<le> length input"
  by (auto simp: decode_field_def GetFixed64_def GetFixed32_def Let_def
      dest: GetLengthPrefixedSlice_le split: if_splits option.splits prod.splits)

text \<open>The loop of \<open>DecodeFrom\<close>: fields until fewer than four bytes are left.\<close>

function decode_fields ::
  "'b backend \<Rightarrow> bytes \<Rightarrow> zfile \<Rightarrow> 'b zbd \<Rightarrow> status \<times> zfile \<times> 'b zbd" where
  "decode_fields be input f s =
     (case GetFixed32 input of
        None \<Rightarrow> (OK, MetadataSynced f, s)
      | Some (tag, rest) \<Rightarrow>
          (case decode_field be tag rest f s of (st, f', s', rest') \<Rightarrow>
             if \<not> ok st then (st, f', s') else decode_fields be rest' f' s'))"
  by pat_completeness auto
termination
  by (relation "measure (\<lambda>(be, input, f, s). length input)")
    (auto dest!: length_GetFixed32 decode_field_shorter [OF sym])

declare decode_fields.simps [simp del]

definition file_DecodeFrom ::
  "'b backend \<Rightarrow> bytes \<Rightarrow> zfile \<Rightarrow> 'b zbd \<Rightarrow> status \<times> zfile \<times> 'b zbd" where
  "file_DecodeFrom be input f s =
     (case GetFixed32 input of
        None \<Rightarrow> (file_corruption ''File ID missing'', f, s)
      | Some (tag, rest) \<Rightarrow>
          if tag \<noteq> kFileID then (file_corruption ''File ID missing'', f, s)
          else (case GetFixed64 rest of
            None \<Rightarrow> (file_corruption ''File ID missing'', f, s)
          | Some (v, rest') \<Rightarrow> decode_fields be rest' (f\<lparr> file_id := v \<rparr>) s))"

subsection \<open>Extent lists\<close>

text \<open>Giving back the used capacity of every extent (also the destructor).\<close>

definition release_extents :: "ZoneExtent list \<Rightarrow> 'b zbd \<Rightarrow> 'b zbd" where
  "release_extents es s = fold (\<lambda>e. add_used (ex_zone e) (- ex_length e)) es s"

definition claim_extents :: "ZoneExtent list \<Rightarrow> 'b zbd \<Rightarrow> 'b zbd" where
  "claim_extents es s = fold (\<lambda>e. add_used (ex_zone e) (ex_length e)) es s"

definition ClearExtents :: "zfile \<Rightarrow> 'b zbd \<Rightarrow> zfile \<times> 'b zbd" where
  "ClearExtents f s = (f\<lparr> extents := [] \<rparr>, release_extents (extents f) s)"

definition MergeUpdate :: "zfile \<Rightarrow> bool \<Rightarrow> zfile \<Rightarrow> 'b zbd \<Rightarrow> status \<times> zfile \<times> 'b zbd" where
  "MergeUpdate update replace f s =
     (if file_id f \<noteq> file_id update
      then (Corruption (str ''ZoneFile update'') (str ''ID missmatch''), f, s)
      else
        let f1 = f\<lparr> file_size := file_size update, zf_lifetime := zf_lifetime update,
                   m_time := m_time update \<rparr>;
            (f2, s2) = (if replace then ClearExtents f1 s else (f1, s));
            s3 = claim_extents (extents update) s2;
            f3 = f2\<lparr> extents := extents f2 @ extents update, extent_start := extent_start update,
                    is_sparse := is_sparse update \<rparr> in
        (OK, (MetadataSynced f3)\<lparr> linkfiles := linkfiles update \<rparr>, s3))"

fun get_extent :: "u64 \<Rightarrow> ZoneExtent list \<Rightarrow> (ZoneExtent \<times> u64) option" where
  "get_extent file_offset [] = None"
| "get_extent file_offset (e # es) =
     (if file_offset < ex_length e then Some (e, ex_start e + file_offset)
      else get_extent (file_offset - ex_length e) es)"

definition GetExtent :: "zfile \<Rightarrow> u64 \<Rightarrow> (ZoneExtent \<times> u64) option" where
  "GetExtent f file_offset = get_extent file_offset (extents f)"

definition ReplaceExtentList :: "ZoneExtent list \<Rightarrow> zfile \<Rightarrow> zfile" where
  "ReplaceExtentList new_list f = f\<lparr> extents := new_list \<rparr>"

subsection \<open>Link names\<close>

definition AddLinkName :: "bytes \<Rightarrow> zfile \<Rightarrow> zfile" where
  "AddLinkName linkf f = f\<lparr> linkfiles := linkfiles f @ [linkf] \<rparr>"

definition RenameLink :: "bytes \<Rightarrow> bytes \<Rightarrow> zfile \<Rightarrow> status \<times> zfile" where
  "RenameLink src dest f =
     (if src \<in> set (linkfiles f)
      then (OK, f\<lparr> linkfiles := remove1 src (linkfiles f) @ [dest] \<rparr>)
      else (IOError (str ''RenameLink: Failed to find the linked file'') [], f))"

definition RemoveLinkName :: "bytes \<Rightarrow> zfile \<Rightarrow> status \<times> zfile" where
  "RemoveLinkName linkf f =
     (if linkf \<in> set (linkfiles f) then (OK, f\<lparr> linkfiles := remove1 linkf (linkfiles f) \<rparr>)
      else (IOError (str ''RemoveLinkInfo: Failed to find the link file'') [], f))"

definition SetWriteLifeTimeHint :: "WriteLifeTimeHint \<Rightarrow> zfile \<Rightarrow> status \<times> zfile" where
  "SetWriteLifeTimeHint lt f = (OK, f\<lparr> zf_lifetime := lt \<rparr>)"

subsection \<open>The active zone\<close>

definition io_Close :: "'b backend \<Rightarrow> nat \<Rightarrow> 'b zbd \<Rightarrow> status \<times> 'b zbd" where
  "io_Close be i s =
     (let (st, z, b) = Close be (io_zones s ! i) (zbd_be s) in (st, set_io i z (s\<lparr> zbd_be := b \<rparr>)))"

definition io_Append :: "'b backend \<Rightarrow> nat \<Rightarrow> bytes \<Rightarrow> 'b zbd \<Rightarrow> (status \<times> 'b zbd) option" where
  "io_Append be i data s =
     (case Append be data (io_zones s ! i) (zbd_be s) of
        None \<Rightarrow> None
      | Some (st, z, b, n) \<Rightarrow> Some (st, AddBytesWritten n (set_io i z (s\<lparr> zbd_be := b \<rparr>))))"

definition ReleaseActiveZone :: "nat \<Rightarrow> zfile \<Rightarrow> 'b zbd \<Rightarrow> zfile \<times> 'b zbd" where
  "ReleaseActiveZone i f s =
     (f\<lparr> active_zone := None \<rparr>, set_io i (snd (Release (io_zones s ! i))) s)"

definition SetActiveZone :: "nat \<Rightarrow> zfile \<Rightarrow> zfile" where
  "SetActiveZone i f = f\<lparr> active_zone := Some i \<rparr>"

definition CloseActiveZone :: "'b backend \<Rightarrow> zfile \<Rightarrow> 'b zbd \<Rightarrow> status \<times> zfile \<times> 'b zbd" where
  "CloseActiveZone be f s =
     (case active_zone f of
        None \<Rightarrow> (OK, f, s)
      | Some i \<Rightarrow>
          let full = IsFull (io_zones s ! i);
              (st, s1) = io_Close be i s;
              (f2, s2) = ReleaseActiveZone i f s1 in
          if \<not> ok st then (st, f2, s2)
          else let s3 = PutOpenIOZoneToken s2 in
            (st, f2, if full then PutActiveIOZoneToken s3 else s3))"

text \<open>\<open>MetadataWriter::Persist\<close>, given by the file system.\<close>

type_synonym ('b, 'm) persist = "zfile \<Rightarrow> 'm \<Rightarrow> 'b zbd \<Rightarrow> (status \<times> zfile \<times> 'm \<times> 'b zbd) option"

definition PersistMetadata :: "('b, 'm) persist \<Rightarrow> ('b, 'm) persist" where
  "PersistMetadata pw f m s = pw f m s"

definition ReleaseWRLock :: "zfile \<Rightarrow> zfile" where
  "ReleaseWRLock f = f\<lparr> open_for_wr := False \<rparr>"

definition CloseWR :: "'b backend \<Rightarrow> ('b, 'm) persist \<Rightarrow> ('b, 'm) persist" where
  "CloseWR be pw f m s =
     (case PersistMetadata pw (f\<lparr> extent_start := NO_EXTENT \<rparr>) m s of
        None \<Rightarrow> None
      | Some (st, f1, m1, s1) \<Rightarrow>
          if \<not> ok st then Some (st, f1, m1, s1)
          else let (st, f2, s2) = CloseActiveZone be (ReleaseWRLock f1) s1 in Some (st, f2, m1, s2))"

definition AllocateNewZone :: "'b backend \<Rightarrow> ('b, 'm) persist \<Rightarrow> ('b, 'm) persist" where
  "AllocateNewZone be pw f m s =
     (case AllocateIOZone be (zf_lifetime f) (io_type f) s of
        None \<Rightarrow> None
      | Some (st, zn, s1) \<Rightarrow>
          if \<not> ok st then Some (st, f, m, s1)
          else case zn of
            None \<Rightarrow> Some (NoSpace_msg (str ''Zone allocation failure'' @ [10]) [], f, m, s1)
          | Some i \<Rightarrow>
              PersistMetadata pw ((SetActiveZone i f)\<lparr> extent_start := wp (io_zones s1 ! i),
                extent_filepos := file_size f \<rparr>) m s1)"

definition ensure_zone :: "'b backend \<Rightarrow> ('b, 'm) persist \<Rightarrow> ('b, 'm) persist" where
  "ensure_zone be pw f m s =
     (if active_zone f = None then AllocateNewZone be pw f m s else Some (OK, f, m, s))"

text \<open>Closing the active zone and taking a new one, as the append loops do when it is full.\<close>

definition next_zone :: "'b backend \<Rightarrow> ('b, 'm) persist \<Rightarrow> ('b, 'm) persist" where
  "next_zone be pw f m s =
     (let (st, f1, s1) = CloseActiveZone be f s in
      if \<not> ok st then Some (st, f1, m, s1) else AllocateNewZone be pw f1 m s1)"

subsection \<open>Appending\<close>

definition PushExtent :: "zfile \<Rightarrow> 'b zbd \<Rightarrow> zfile \<times> 'b zbd" where
  "PushExtent f s =
     (case active_zone f of
        None \<Rightarrow> (f, s)
      | Some i \<Rightarrow>
          let len = file_size f - extent_filepos f in
          if len = 0 then (f, s)
          else (f\<lparr> extents := extents f @ [\<lparr> ex_start = extent_start f, ex_length = len, ex_zone = i \<rparr>],
                  extent_start := wp (io_zones s ! i), extent_filepos := file_size f \<rparr>,
                add_used i len s))"

text \<open>The extent that a finished buffered or sparse write adds.\<close>

definition push_written :: "nat \<Rightarrow> u64 \<Rightarrow> u64 \<Rightarrow> zfile \<Rightarrow> 'b zbd \<Rightarrow> zfile \<times> 'b zbd" where
  "push_written i ofst len f s =
     (f\<lparr> extents := extents f @ [\<lparr> ex_start = extent_start f + ofst, ex_length = len, ex_zone = i \<rparr>],
        extent_start := wp (io_zones s ! i), file_size := file_size f + len \<rparr>,
      add_used i len s)"

definition min_capacity :: "u32 \<Rightarrow> u64 \<Rightarrow> u32" where
  "min_capacity wr cap = (if ucast wr > cap then ucast cap else wr)"

definition pad_size :: "u32 \<Rightarrow> u32 \<Rightarrow> u32" where
  "pad_size block_sz wr = (let align = wr mod block_sz in if align \<noteq> 0 then block_sz - align else 0)"

text \<open>\<open>memset(buffer + n, 0, pad)\<close> and \<open>memmove(buffer + at, buffer + from, n)\<close> on a buffer.\<close>

definition buf_zero :: "nat \<Rightarrow> nat \<Rightarrow> bytes \<Rightarrow> bytes" where
  "buf_zero n pad buf = take n buf @ replicate pad 0 @ drop (n + pad) buf"

definition buf_move :: "nat \<Rightarrow> nat \<Rightarrow> nat \<Rightarrow> bytes \<Rightarrow> bytes" where
  "buf_move at fro n buf = take at buf @ take n (drop fro buf) @ drop (at + n) buf"

text \<open>The buffered and the sparse path work in place: the buffer is padded, and what is left of it is
  moved to its front when a zone is full.  They return it with the result.\<close>

type_synonym ('b, 'm) buf_append =
  "zfile \<Rightarrow> 'm \<Rightarrow> 'b zbd \<Rightarrow> (status \<times> bytes \<times> zfile \<times> 'm \<times> 'b zbd) option"

partial_function (option) buffered_append_loop ::
  "'b backend \<Rightarrow> ('b, 'm) persist \<Rightarrow> bytes \<Rightarrow> u32 \<Rightarrow> ('b, 'm) buf_append" where
  "buffered_append_loop be pw buf left f m s =
     (if left = 0 then Some (OK, buf, f, m, s)
      else case active_zone f of
        None \<Rightarrow> None
      | Some i \<Rightarrow>
          let wr_size = min_capacity left (capacity (io_zones s ! i));
              pad_sz = pad_size (GetBlockSize be s) wr_size;
              buf1 = buf_zero (unat wr_size) (unat pad_sz) buf in
          (case io_Append be i (take (unat (wr_size + pad_sz)) buf1) s of
             None \<Rightarrow> None
           | Some (st, s1) \<Rightarrow>
               if \<not> ok st then Some (st, buf1, f, m, s1)
               else
                 let (f2, s2) = push_written i 0 (ucast wr_size) f s1; left2 = left - wr_size in
                 if capacity (io_zones s2 ! i) = 0 then
                   (case CloseActiveZone be f2 s2 of (st, f3, s3) \<Rightarrow>
                     if \<not> ok st then Some (st, buf1, f3, m, s3)
                     else
                       let buf2 = (if left2 \<noteq> 0 then buf_move 0 (unat wr_size) (unat left2) buf1 else buf1) in
                       (case AllocateNewZone be pw f3 m s3 of
                          None \<Rightarrow> None
                        | Some (st, f4, m4, s4) \<Rightarrow>
                            if \<not> ok st then Some (st, buf2, f4, m4, s4)
                            else buffered_append_loop be pw buf2 left2 f4 m4 s4))
                 else buffered_append_loop be pw buf1 left2 f2 m s2))"

declare buffered_append_loop.simps [code]

definition BufferedAppend ::
  "'b backend \<Rightarrow> ('b, 'm) persist \<Rightarrow> bytes \<Rightarrow> u32 \<Rightarrow> ('b, 'm) buf_append" where
  "BufferedAppend be pw buf data_size f m s =
     (case ensure_zone be pw f m s of
        None \<Rightarrow> None
      | Some (st, f1, m1, s1) \<Rightarrow>
          if \<not> ok st then Some (st, buf, f1, m1, s1) else buffered_append_loop be pw buf data_size f1 m1 s1)"

partial_function (option) sparse_append_loop ::
  "'b backend \<Rightarrow> ('b, 'm) persist \<Rightarrow> bytes \<Rightarrow> u32 \<Rightarrow> ('b, 'm) buf_append" where
  "sparse_append_loop be pw buf left f m s =
     (if left = 0 then Some (OK, buf, f, m, s)
      else case active_zone f of
        None \<Rightarrow> None
      | Some i \<Rightarrow>
          let wr_size = min_capacity (left + of_nat SPARSE_HEADER_SIZE) (capacity (io_zones s ! i));
              pad_sz = pad_size (GetBlockSize be s) wr_size;
              extent_length = (ucast (wr_size - of_nat SPARSE_HEADER_SIZE) :: u64);
              buf1 = buf_zero (unat wr_size) (unat pad_sz) buf;
              buf2 = EncodeFixed64 extent_length @ drop 8 buf1 in
          (case io_Append be i (take (unat (wr_size + pad_sz)) buf2) s of
             None \<Rightarrow> None
           | Some (st, s1) \<Rightarrow>
               if \<not> ok st then Some (st, buf2, f, m, s1)
               else
                 let (f2, s2) = push_written i (of_nat SPARSE_HEADER_SIZE) extent_length f s1;
                     left2 = left - ucast extent_length in
                 if capacity (io_zones s2 ! i) = 0 then
                   (case CloseActiveZone be f2 s2 of (st, f3, s3) \<Rightarrow>
                     if \<not> ok st then Some (st, buf2, f3, m, s3)
                     else
                       let buf3 = (if left2 \<noteq> 0
                             then buf_move SPARSE_HEADER_SIZE (unat wr_size) (unat left2) buf2 else buf2) in
                       (case AllocateNewZone be pw f3 m s3 of
                          None \<Rightarrow> None
                        | Some (st, f4, m4, s4) \<Rightarrow>
                            if \<not> ok st then Some (st, buf3, f4, m4, s4)
                            else sparse_append_loop be pw buf3 left2 f4 m4 s4))
                 else sparse_append_loop be pw buf2 left2 f2 m s2))"

declare sparse_append_loop.simps [code]

definition SparseAppend ::
  "'b backend \<Rightarrow> ('b, 'm) persist \<Rightarrow> bytes \<Rightarrow> u32 \<Rightarrow> ('b, 'm) buf_append" where
  "SparseAppend be pw buf data_size f m s =
     (case ensure_zone be pw f m s of
        None \<Rightarrow> None
      | Some (st, f1, m1, s1) \<Rightarrow>
          if \<not> ok st then Some (st, buf, f1, m1, s1) else sparse_append_loop be pw buf data_size f1 m1 s1)"

text \<open>The direct path: \<open>data\<close> is what is left of the buffer.\<close>

partial_function (option) append_data_loop ::
  "'b backend \<Rightarrow> ('b, 'm) persist \<Rightarrow> bytes \<Rightarrow> u32 \<Rightarrow> ('b, 'm) persist" where
  "append_data_loop be pw data left f m s =
     (if left = 0 then Some (OK, f, m, s)
      else case active_zone f of
        None \<Rightarrow> None
      | Some i0 \<Rightarrow>
          (case (if capacity (io_zones s ! i0) = 0
                 then (case PushExtent f s of (f1, s1) \<Rightarrow> next_zone be pw f1 m s1)
                 else Some (OK, f, m, s)) of
             None \<Rightarrow> None
           | Some (st, f1, m1, s1) \<Rightarrow>
               if \<not> ok st then Some (st, f1, m1, s1)
               else case active_zone f1 of
                 None \<Rightarrow> None
               | Some i \<Rightarrow>
                   let wr_size = min_capacity left (capacity (io_zones s1 ! i)) in
                   (case io_Append be i (take (unat wr_size) data) s1 of
                      None \<Rightarrow> None
                    | Some (st, s2) \<Rightarrow>
                        if \<not> ok st then Some (st, f1, m1, s2)
                        else append_data_loop be pw (drop (unat wr_size) data) (left - wr_size)
                               (f1\<lparr> file_size := file_size f1 + ucast wr_size \<rparr>) m1 s2)))"

declare append_data_loop.simps [code]

definition file_Append ::
  "'b backend \<Rightarrow> ('b, 'm) persist \<Rightarrow> bytes \<Rightarrow> ('b, 'm) persist" where
  "file_Append be pw data f m s =
     (case ensure_zone be pw f m s of
        None \<Rightarrow> None
      | Some (st, f1, m1, s1) \<Rightarrow>
          if \<not> ok st then Some (st, f1, m1, s1)
          else append_data_loop be pw data (of_nat (length data)) f1 m1 s1)"

subsection \<open>Reading\<close>

text \<open>The sizes of one iteration of \<open>PositionedRead\<close>: what is left of the request, cut at the end
  of the extent; the bytes that align a direct read to the next block boundary; and the bytes
  that count of a read that returned \<open>r\<close>.\<close>

definition pread_len :: "u64 \<Rightarrow> u64 \<Rightarrow> u64 \<Rightarrow> u64 \<Rightarrow> u64" where
  "pread_len r_sz read r_off extent_end =
     (let p = r_sz - read in if p + r_off > extent_end then extent_end - r_off else p)"

definition align_extra :: "bool \<Rightarrow> u32 \<Rightarrow> u64 \<Rightarrow> u64" where
  "align_extra direct block_sz p =
     (if direct \<and> p mod ucast block_sz \<noteq> 0 then ucast block_sz - p mod ucast block_sz else 0)"

definition take_len :: "int \<Rightarrow> u64 \<Rightarrow> u64" where
  "take_len r p = (if word_of_int r \<le> p then word_of_int r else p)"

text \<open>The loop of \<open>PositionedRead\<close>.  It returns the last result of \<open>Read\<close>, the bytes read and
  the device.  A direct read is extended to a whole number of blocks and cut back afterwards.\<close>

partial_function (option) positioned_read_loop ::
  "'b backend \<Rightarrow> u32 \<Rightarrow> zfile \<Rightarrow> bool \<Rightarrow> u64 \<Rightarrow> u64 \<Rightarrow> int \<Rightarrow> u64 \<Rightarrow> u64 \<Rightarrow> u64 \<Rightarrow> bytes \<Rightarrow> 'b
    \<Rightarrow> (int \<times> bytes \<times> 'b) option" where
  "positioned_read_loop be block_sz f direct offset r_sz r0 read r_off extent_end acc b =
     (if read = r_sz then Some (r0, acc, b)
      else
        let pread1 = pread_len r_sz read r_off extent_end;
            aligned = (pread1 mod ucast block_sz = 0);
            to_align = align_extra direct block_sz pread1;
            pread2 = pread1 + to_align;
            aligned2 = (aligned \<or> direct \<and> \<not> aligned) in
        (case zbd_Read be r_off (to_int32 (uint pread2)) (direct \<and> aligned2) b of
           None \<Rightarrow> None
         | Some (r, buf, b1) \<Rightarrow>
             if r \<le> 0 then Some (r, acc, b1)
             else
               let n = take_len r (pread2 - to_align);
                   acc1 = acc @ take (unat n) buf; read1 = read + n; r_off1 = r_off + n in
               if read1 \<noteq> r_sz \<and> r_off1 = extent_end then
                 (case GetExtent f (offset + read1) of
                    None \<Rightarrow> Some (r, acc1, b1)
                  | Some (e, _) \<Rightarrow>
                      positioned_read_loop be block_sz f direct offset r_sz r read1 (ex_start e)
                        (ex_start e + ex_length e) acc1 b1)
               else positioned_read_loop be block_sz f direct offset r_sz r read1 r_off1 extent_end acc1 b1))"

declare positioned_read_loop.simps [code]

definition file_PositionedRead ::
  "'b backend \<Rightarrow> zfile \<Rightarrow> u64 \<Rightarrow> u64 \<Rightarrow> bool \<Rightarrow> 'b zbd \<Rightarrow> (status \<times> bytes \<times> 'b zbd) option" where
  "file_PositionedRead be f offset n direct s =
     (if offset \<ge> file_size f then Some (OK, [], s)
      else case GetExtent f offset of
        None \<Rightarrow> Some (OK, [], s)
      | Some (e, r_off) \<Rightarrow>
          let r_sz = (if offset + n > file_size f then file_size f - offset else n) in
          (case positioned_read_loop be (GetBlockSize be s) f direct offset r_sz 0 0 r_off
                  (ex_start e + ex_length e) [] (zbd_be s) of
             None \<Rightarrow> None
           | Some (r, acc, b1) \<Rightarrow>
               if r < 0 then Some (IOError (str ''pread error'' @ [10]) [], [], s\<lparr> zbd_be := b1 \<rparr>)
               else Some (OK, acc, s\<lparr> zbd_be := b1 \<rparr>)))"

partial_function (option) invalidate_loop ::
  "'b backend \<Rightarrow> zfile \<Rightarrow> u64 \<Rightarrow> u64 \<Rightarrow> 'b zbd \<Rightarrow> (status \<times> 'b zbd) option" where
  "invalidate_loop be f offset left s =
     (if left = 0 then Some (OK, s)
      else case GetExtent f offset of
        None \<Rightarrow> Some (IOError (str ''Extent not found while invalidating cache'') [], s)
      | Some (e, dev_offset) \<Rightarrow>
          let n = min left (ex_start e + ex_length e - dev_offset);
              (st, s1) = zbd_InvalidateCache be dev_offset n s in
          if \<not> ok st then Some (st, s1) else invalidate_loop be f (offset + n) (left - n) s1)"

declare invalidate_loop.simps [code]

definition file_InvalidateCache ::
  "'b backend \<Rightarrow> zfile \<Rightarrow> u64 \<Rightarrow> u64 \<Rightarrow> 'b zbd \<Rightarrow> (status \<times> 'b zbd) option" where
  "file_InvalidateCache be f pos n s =
     invalidate_loop be f pos (if n = 0 then file_size f else n) s"

subsection \<open>Recovery\<close>

definition sparse_blocks :: "u32 \<Rightarrow> u64 \<Rightarrow> u64" where
  "sparse_blocks block_sz len =
     (let n = len + of_nat SPARSE_HEADER_SIZE in
      n div ucast block_sz + (if n mod ucast block_sz \<noteq> 0 then 1 else 0))"

text \<open>The loop reads one block per segment; \<open>posix_memalign\<close> is assumed to succeed.\<close>

partial_function (option) recover_sparse_loop ::
  "'b backend \<Rightarrow> u64 \<Rightarrow> nat \<Rightarrow> u64 \<Rightarrow> zfile \<Rightarrow> 'b zbd \<Rightarrow> (status \<times> zfile \<times> 'b zbd) option" where
  "recover_sparse_loop be fin zn next f s =
     (if \<not> next < fin then Some (OK, f, s)
      else case zbd_Read be next (to_int32 (uint (GetBlockSize be s))) False (zbd_be s) of
        None \<Rightarrow> None
      | Some (r, buf, b1) \<Rightarrow>
          let s1 = s\<lparr> zbd_be := b1 \<rparr> in
          if r \<noteq> to_int32 (uint (GetBlockSize be s))
          then Some (IOError (str ''Unexpected read error while recovering'') [], f, s1)
          else let len = DecodeFixed64 buf in
            if len = 0 then Some (IOError (str ''Unexpected extent length while recovering'') [], f, s1)
            else recover_sparse_loop be fin zn
                   (next + sparse_blocks (GetBlockSize be s) len * ucast (GetBlockSize be s))
                   (f\<lparr> extents := extents f @ [\<lparr> ex_start = next + of_nat SPARSE_HEADER_SIZE,
                        ex_length = len, ex_zone = zn \<rparr>] \<rparr>)
                   (add_used zn len s1))"

declare recover_sparse_loop.simps [code]

definition sum_lengths :: "ZoneExtent list \<Rightarrow> u64" where
  "sum_lengths es = sum_list (map ex_length es)"

definition Recover :: "'b backend \<Rightarrow> zfile \<Rightarrow> 'b zbd \<Rightarrow> (status \<times> zfile \<times> 'b zbd) option" where
  "Recover be f s =
     (if \<not> HasActiveExtent f then Some (OK, f, s)
      else case GetIOZone be (extent_start f) s of
        None \<Rightarrow> Some (IOError (str ''Could not find zone for extent start while recovering'') [], f, s)
      | Some i \<Rightarrow>
          if wp (io_zones s ! i) < extent_start f
          then Some (IOError (str ''Zone wp is smaller than active extent start'') [], f, s)
          else let to_recover = wp (io_zones s ! i) - extent_start f in
            if to_recover = 0 then Some (OK, f\<lparr> extent_start := NO_EXTENT \<rparr>, s)
            else
              (case (if is_sparse f
                     then recover_sparse_loop be (wp (io_zones s ! i)) i (extent_start f) f s
                     else Some (OK, f\<lparr> extents := extents f @ [\<lparr> ex_start = extent_start f,
                            ex_length = to_recover, ex_zone = i \<rparr>] \<rparr>, add_used i to_recover s)) of
                 None \<Rightarrow> None
               | Some (st, f1, s1) \<Rightarrow>
                   if \<not> ok st then Some (st, f1, s1)
                   else Some (OK, f1\<lparr> extent_start := NO_EXTENT,
                                    file_size := sum_lengths (extents f1) \<rparr>, s1)))"

subsection \<open>Round trip of the file record\<close>

definition enc_extent :: "ZoneExtent \<Rightarrow> bytes" where
  "enc_extent e = EncodeFixed32 kExtent
     @ PutLengthPrefixedSlice [] (EncodeFixed64 (ex_start e) @ EncodeFixed64 (ex_length e))"

definition enc_link :: "bytes \<Rightarrow> bytes" where
  "enc_link l = EncodeFixed32 kLinkedFilename @ PutLengthPrefixedSlice [] l"

lemma enc_extent_app: "enc_extent e @ rest = EncodeFixed32 kExtent
     @ PutLengthPrefixedSlice [] (EncodeFixed64 (ex_start e) @ EncodeFixed64 (ex_length e)) @ rest"
  and enc_link_app: "enc_link l @ rest = EncodeFixed32 kLinkedFilename @ PutLengthPrefixedSlice [] l @ rest"
  by (simp_all add: enc_extent_def enc_link_def)

lemma put_extents_eq: "put_extents es out = out @ concat (map enc_extent es)"
proof (induction es arbitrary: out)
  case (Cons e es)
  then show ?case
    by (simp add: put_extents_def enc_extent_def PutFixed32_def PutFixed64_def extent_EncodeTo_def
        PutLengthPrefixedSlice_append [of "out @ _"])
qed (simp add: put_extents_def)

lemma put_links_eq: "put_links ls out = out @ concat (map enc_link ls)"
proof (induction ls arbitrary: out)
  case (Cons l ls)
  then show ?case
    by (simp add: put_links_def enc_link_def PutFixed32_def PutLengthPrefixedSlice_append [of "out @ _"])
qed (simp add: put_links_def)

lemma file_EncodeTo_eq:
  "file_EncodeTo f output k = output @ EncodeFixed32 kFileID @ EncodeFixed64 (file_id f)
     @ EncodeFixed32 kFileSize @ EncodeFixed64 (file_size f)
     @ EncodeFixed32 kWriteLifeTimeHint @ EncodeFixed32 (zf_lifetime f)
     @ concat (map enc_extent (drop (unat k) (extents f)))
     @ EncodeFixed32 kModificationTime @ EncodeFixed64 (m_time f)
     @ EncodeFixed32 kActiveExtentStart @ EncodeFixed64 (extent_start f)
     @ (if is_sparse f then EncodeFixed32 kIsSparse else [])
     @ concat (map enc_link (linkfiles f))"
  by (simp add: file_EncodeTo_def Let_def PutFixed32_def PutFixed64_def put_extents_eq put_links_eq)

lemma decode_fields_step:
  assumes "decode_field be tag rest f s = (OK, f', s', rest')"
  shows "decode_fields be (EncodeFixed32 tag @ rest) f s = decode_fields be rest' f' s'"
  using assms by (subst decode_fields.simps) (simp add: codec_simps)

lemma decode_fields_Nil: "decode_fields be [] f s = (OK, MetadataSynced f, s)"
  by (subst decode_fields.simps) (simp add: GetFixed32_def)

lemma find_zone_starts: "map start zs = map start zs' \<Longrightarrow> find_zone n off zs i = find_zone n off zs' i"
proof (induction zs arbitrary: zs' i)
  case (Cons z zs)
  then show ?case by (cases zs') auto
qed simp

lemma add_used_simps [simp]:
  "zbd_be (add_used i n s) = zbd_be s" "length (io_zones (add_used i n s)) = length (io_zones s)"
  "open_io_zones (add_used i n s) = open_io_zones s" "active_io_zones (add_used i n s) = active_io_zones s"
  "meta_zones (add_used i n s) = meta_zones s"
  by (simp_all add: add_used_def set_io_def)

lemma map_add_used:
  assumes "\<And>z x. g (z\<lparr> used_capacity := x \<rparr>) = g z"
  shows "map g (io_zones (add_used i n s)) = map g (io_zones s)"
proof (cases "i < length (io_zones s)")
  case True
  then show ?thesis
    unfolding add_used_def set_io_def using assms by (simp add: map_update_same)
qed (simp add: add_used_def set_io_def list_update_beyond)

lemma add_used_fields [simp]:
  "map start (io_zones (add_used i n s)) = map start (io_zones s)"
  "map wp (io_zones (add_used i n s)) = map wp (io_zones s)"
  "map capacity (io_zones (add_used i n s)) = map capacity (io_zones s)"
  "map busy (io_zones (add_used i n s)) = map busy (io_zones s)"
  by (rule map_add_used, simp)+

lemma GetIOZone_cong:
  "map start (io_zones s') = map start (io_zones s) \<Longrightarrow> be_zone_sz be (zbd_be s') = be_zone_sz be (zbd_be s)
    \<Longrightarrow> GetIOZone be off s' = GetIOZone be off s"
  using find_zone_starts [of "io_zones s'" "io_zones s"] by (simp add: GetIOZone_def GetZoneSize_def)

lemma decode_extents:
  assumes "\<forall>e\<in>set es. GetIOZone be (ex_start e) s = Some (ex_zone e)"
  shows "decode_fields be (concat (map enc_extent es) @ rest) f s
    = decode_fields be rest (f\<lparr> extents := extents f @ es \<rparr>) (claim_extents es s)"
  using assms
proof (induction es arbitrary: f s)
  case (Cons e es)
  let ?s1 = "add_used (ex_zone e) (ex_length e) s"
  have zone: "GetIOZone be a ?s1 = GetIOZone be a s" for a
    by (rule GetIOZone_cong) simp_all
  have "decode_field be kExtent (PutLengthPrefixedSlice []
      (EncodeFixed64 (ex_start e) @ EncodeFixed64 (ex_length e)) @ concat (map enc_extent es) @ rest) f s
      = (OK, f\<lparr> extents := extents f @ [e] \<rparr>, ?s1, concat (map enc_extent es) @ rest)"
    using Cons.prems
    by (simp add: decode_field_def GetLengthPrefixedSlice_Put extent_DecodeFrom_def codec_simps tag_defs)
  then show ?case
    using Cons.IH [of ?s1 "f\<lparr> extents := extents f @ [e] \<rparr>"] Cons.prems zone
    by (simp add: enc_extent_app claim_extents_def decode_fields_step)
qed (simp add: claim_extents_def)

lemma decode_links:
  assumes "\<forall>l\<in>set ls. l \<noteq> [] \<and> length l < 2 ^ 32"
  shows "decode_fields be (concat (map enc_link ls) @ rest) f s
    = decode_fields be rest (f\<lparr> linkfiles := linkfiles f @ ls \<rparr>) s"
  using assms
proof (induction ls arbitrary: f)
  case (Cons l ls)
  have "decode_field be kLinkedFilename (PutLengthPrefixedSlice [] l @ concat (map enc_link ls) @ rest) f s
      = (OK, f\<lparr> linkfiles := linkfiles f @ [l] \<rparr>, s, concat (map enc_link ls) @ rest)"
    using Cons.prems by (simp add: decode_field_def GetLengthPrefixedSlice_Put tag_defs)
  then show ?case
    using Cons.IH [of "f\<lparr> linkfiles := linkfiles f @ [l] \<rparr>"] Cons.prems
    by (simp add: enc_link_app decode_fields_step)
qed simp

lemma decode_fixed_fields:
  "decode_fields be (EncodeFixed32 kFileSize @ EncodeFixed64 v @ rest) f s
    = decode_fields be rest (f\<lparr> file_size := v \<rparr>) s"
  "decode_fields be (EncodeFixed32 kWriteLifeTimeHint @ EncodeFixed32 h @ rest) f s
    = decode_fields be rest (f\<lparr> zf_lifetime := h \<rparr>) s"
  "decode_fields be (EncodeFixed32 kModificationTime @ EncodeFixed64 v @ rest) f s
    = decode_fields be rest (f\<lparr> m_time := v \<rparr>) s"
  "decode_fields be (EncodeFixed32 kActiveExtentStart @ EncodeFixed64 v @ rest) f s
    = decode_fields be rest (f\<lparr> extent_start := v \<rparr>) s"
  "decode_fields be (EncodeFixed32 kIsSparse @ rest) f s
    = decode_fields be rest (f\<lparr> is_sparse := True \<rparr>) s"
  by (rule decode_fields_step, simp add: decode_field_def codec_simps tag_defs)+

text \<open>What a decoder that starts from \<open>g\<close> makes of an encoded file.\<close>

definition decoded :: "zfile \<Rightarrow> u32 \<Rightarrow> zfile \<Rightarrow> zfile" where
  "decoded f k g = MetadataSynced (g\<lparr> extents := extents g @ drop (unat k) (extents f),
     linkfiles := linkfiles g @ linkfiles f, extent_start := extent_start f,
     zf_lifetime := zf_lifetime f, file_size := file_size f, file_id := file_id f,
     m_time := m_time f, is_sparse := is_sparse g \<or> is_sparse f \<rparr>)"

lemma file_DecodeFrom_EncodeTo:
  assumes "\<forall>e\<in>set (drop (unat k) (extents f)). GetIOZone be (ex_start e) s = Some (ex_zone e)"
    and "\<forall>l\<in>set (linkfiles f). l \<noteq> [] \<and> length l < 2 ^ 32"
  shows "file_DecodeFrom be (file_EncodeTo f [] k) g s
    = (OK, decoded f k g, claim_extents (drop (unat k) (extents f)) s)"
proof -
  have links: "decode_fields be (concat (map enc_link (linkfiles f))) g' s'
      = (OK, MetadataSynced (g'\<lparr> linkfiles := linkfiles g' @ linkfiles f \<rparr>), s')" for g' s'
    using decode_links [OF assms(2), of be "[]" g' s'] by (simp add: decode_fields_Nil)
  show ?thesis
    unfolding file_EncodeTo_eq file_DecodeFrom_def
    by (simp add: codec_simps decode_fixed_fields decode_extents [OF assms(1)] links decoded_def
        MetadataSynced_def)
qed

subsection \<open>The data of a file\<close>

definition extent_bytes :: "(nat \<Rightarrow> byte) \<Rightarrow> ZoneExtent \<Rightarrow> bytes" where
  "extent_bytes c e = map (\<lambda>i. c (unat (ex_start e) + i)) [0..<unat (ex_length e)]"

definition extents_data :: "(nat \<Rightarrow> byte) \<Rightarrow> ZoneExtent list \<Rightarrow> bytes" where
  "extents_data c es = concat (map (extent_bytes c) es)"

definition total_length :: "ZoneExtent list \<Rightarrow> nat" where
  "total_length es = sum_list (map (\<lambda>e. unat (ex_length e)) es)"

lemma extents_data_simps [simp]:
  "extents_data c [] = []" "extents_data c (e # es) = extent_bytes c e @ extents_data c es"
  "extents_data c (es @ es') = extents_data c es @ extents_data c es'"
  by (simp_all add: extents_data_def)

lemma total_length_simps [simp]:
  "total_length [] = 0" "total_length (e # es) = unat (ex_length e) + total_length es"
  "total_length (es @ es') = total_length es + total_length es'"
  by (simp_all add: total_length_def)

lemma length_extent_bytes [simp]: "length (extent_bytes c e) = unat (ex_length e)"
  by (simp add: extent_bytes_def)

lemma length_extents_data [simp]: "length (extents_data c es) = total_length es"
  by (induction es) auto

text \<open>
  Where a file offset lies: \<open>located es o e j k\<close> says that offset \<open>o\<close> is byte \<open>j\<close> of extent
  \<open>e\<close>, the \<open>k\<close>-th of the list.
\<close>

definition located :: "ZoneExtent list \<Rightarrow> nat \<Rightarrow> ZoneExtent \<Rightarrow> nat \<Rightarrow> nat \<Rightarrow> bool" where
  "located es ofst e j k = (k < length es \<and> es ! k = e \<and> ofst = total_length (take k es) + j \<and> j < unat (ex_length e))"

lemma get_extent_located:
  assumes "get_extent ofst es = Some (e, dev)"
  shows "\<exists>j k. located es (unat ofst) e j k \<and> dev = ex_start e + of_nat j"
  using assms
proof (induction es arbitrary: ofst)
  case (Cons x es)
  show ?case
  proof (cases "ofst < ex_length x")
    case True
    then have "located (x # es) (unat ofst) x (unat ofst) 0"
      by (simp add: located_def word_less_nat_alt)
    moreover have "e = x" "dev = ex_start x + of_nat (unat ofst)" using True Cons.prems by auto
    ultimately show ?thesis by blast
  next
    case False
    then have le: "unat (ex_length x) \<le> unat ofst" by (simp add: word_less_nat_alt)
    have "get_extent (ofst - ex_length x) es = Some (e, dev)" using False Cons.prems by simp
    from Cons.IH [OF this]
    obtain j k where "located es (unat (ofst - ex_length x)) e j k" "dev = ex_start e + of_nat j" by blast
    moreover have "located (x # es) (unat ofst) e j (Suc k)"
      using le calculation(1) by (auto simp: located_def unat_sub_no_wrap)
    ultimately show ?thesis by blast
  qed
qed simp

lemma get_extent_None: "get_extent ofst es = None \<Longrightarrow> total_length es \<le> unat ofst"
proof (induction es arbitrary: ofst)
  case (Cons x es)
  then have "unat (ex_length x) \<le> unat ofst" "get_extent (ofst - ex_length x) es = None"
    by (auto simp: word_less_nat_alt split: if_splits)
  with Cons.IH [of "ofst - ex_length x"] show ?case by (simp add: unat_sub_no_wrap)
qed simp

lemma located_unique:
  "located es ofst e j k \<Longrightarrow> located es ofst e' j' k' \<Longrightarrow> k = k' \<and> e = e' \<and> j = j'"
proof (induction es arbitrary: ofst k k')
  case (Cons x es)
  have hd: "ofst < unat (ex_length x)" if "located (x # es) ofst e j 0" for e j
    using that by (simp add: located_def)
  have tl: "unat (ex_length x) \<le> ofst \<and> located es (ofst - unat (ex_length x)) e j k"
    if "located (x # es) ofst e j (Suc k)" for e j k
    using that by (simp add: located_def)
  show ?case
  proof (cases k)
    case 0
    with Cons.prems hd tl show ?thesis
      by (cases k') (fastforce simp: located_def)+
  next
    case (Suc n)
    with Cons.prems hd tl Cons.IH show ?thesis
      by (cases k') (fastforce simp: located_def)+
  qed
qed (simp add: located_def)

lemma located_data:
  assumes "located es ofst e j k" "i < unat (ex_length e) - j"
  shows "extents_data c es ! (ofst + i) = c (unat (ex_start e) + j + i)"
    "ofst + (unat (ex_length e) - j) \<le> total_length es"
proof -
  have es: "es = take k es @ e # drop (Suc k) es"
    using assms(1) by (auto simp: located_def id_take_nth_drop)
  have "extents_data c es = extents_data c (take k es) @ extent_bytes c e @ extents_data c (drop (Suc k) es)"
    by (subst es) simp
  moreover have "j + i < unat (ex_length e)" using assms(2) by simp
  ultimately show "extents_data c es ! (ofst + i) = c (unat (ex_start e) + j + i)"
    using assms(1) by (simp add: located_def nth_append extent_bytes_def add.assoc)
  have "total_length es = total_length (take k es) + unat (ex_length e) + total_length (drop (Suc k) es)"
    by (subst es) simp
  then show "ofst + (unat (ex_length e) - j) \<le> total_length es"
    using assms by (simp add: located_def)
qed

lemma located_next:
  assumes "located es ofst e j k" "located es (ofst + (unat (ex_length e) - j)) e' j' k'"
  shows "j' = 0"
proof -
  have "ofst + (unat (ex_length e) - j) = total_length (take (Suc k) es)"
    using assms(1) by (auto simp: located_def take_Suc_conv_app_nth)
  moreover have "located es (total_length (take m es)) e' j' k' \<Longrightarrow> j' = 0" for m
  proof (induction es arbitrary: m k')
    case (Cons x es)
    then show ?case
      by (cases m; cases k') (auto simp: located_def)
  qed (simp add: located_def)
  ultimately show ?thesis using assms(2) by simp
qed

subsection \<open>Reading the data of a file\<close>

lemma to_int32_unat: "unat w < 2 ^ 31 \<Longrightarrow> to_int32 (uint w) = int (unat w)"
proof -
  assume "unat w < 2 ^ 31"
  then have a: "int (unat w) < 2 ^ 31" by (metis of_nat_less_iff of_nat_numeral of_nat_power)
  have b: "- (2 ^ 31) \<le> int (unat w)" by (rule order_trans [of _ 0]) (simp, rule of_nat_0_le_iff)
  show ?thesis using to_int32_id [OF b a] by simp
qed

text \<open>Sizes and addresses for which no arithmetic of a read wraps around: extents end below
  \<open>2 ^ 63\<close> and the file is shorter than that.\<close>

definition extents_ok :: "ZoneExtent list \<Rightarrow> bool" where
  "extents_ok es = ((\<forall>e\<in>set es. unat (ex_start e) + unat (ex_length e) < 2 ^ 63) \<and> total_length es < 2 ^ 63)"

text \<open>The state of the read loop: \<open>read\<close> bytes have been read and the next one is byte \<open>j\<close> of
  extent \<open>e\<close>.\<close>

definition read_at ::
  "ZoneExtent list \<Rightarrow> (nat \<Rightarrow> byte) \<Rightarrow> u64 \<Rightarrow> u64 \<Rightarrow> u64 \<Rightarrow> u64 \<Rightarrow> u64 \<Rightarrow> bytes \<Rightarrow> bool" where
  "read_at es c offset r_sz read r_off extent_end acc =
     (unat read \<le> unat r_sz \<and> unat offset + unat r_sz \<le> total_length es
      \<and> acc = take (unat read) (drop (unat offset) (extents_data c es))
      \<and> (read \<noteq> r_sz \<longrightarrow> (\<exists>e j k. located es (unat offset + unat read) e j k
            \<and> r_off = ex_start e + of_nat j \<and> extent_end = ex_start e + ex_length e)))"

lemma located_addr:
  assumes "extents_ok es" "located es ofst e j k"
  shows "unat (ex_start e + of_nat j) = unat (ex_start e) + j"
    "unat (ex_start e + ex_length e) = unat (ex_start e) + unat (ex_length e)"
    "unat (ex_start e) + unat (ex_length e) < 2 ^ 63" "j < unat (ex_length e)"
    "unat (ex_length e - of_nat j) = unat (ex_length e) - j"
proof -
  have e: "e \<in> set es" and j: "j < unat (ex_length e)" using assms(2) by (auto simp: located_def)
  then show b: "unat (ex_start e) + unat (ex_length e) < 2 ^ 63" using assms(1) by (simp add: extents_ok_def)
  have uj: "unat (of_nat j :: u64) = j"
    using j unat_lt [of "ex_length e"] by (intro unat_of_nat_small) simp
  then show "unat (ex_length e - of_nat j) = unat (ex_length e) - j"
    using j by (simp add: unat_sub_no_wrap)
  from uj show "unat (ex_start e + of_nat j) = unat (ex_start e) + j"
    using b j by (simp add: unat_add_no_wrap)
  show "unat (ex_start e + ex_length e) = unat (ex_start e) + unat (ex_length e)"
    using b by (simp add: unat_add_no_wrap)
  show "j < unat (ex_length e)" by (rule j)
qed

lemma pread_len_nat:
  assumes "extents_ok es" "read_at es c offset r_sz read r_off extent_end acc" "read \<noteq> r_sz"
    "located es (unat offset + unat read) e j k"
    "r_off = ex_start e + of_nat j" "extent_end = ex_start e + ex_length e"
  shows "unat (pread_len r_sz read r_off extent_end) = min (unat r_sz - unat read) (unat (ex_length e) - j)"
    "0 < unat (pread_len r_sz read r_off extent_end)"
proof -
  note a = located_addr [OF assms(1,4)]
  have le: "unat read < unat r_sz" using assms(2,3) by (auto simp: read_at_def le_less word_unat_eq_iff)
  have "unat r_sz < 2 ^ 63" using assms(1,2) by (auto simp: read_at_def extents_ok_def)
  then have sum: "unat (r_sz - read + r_off) = unat r_sz - unat read + (unat (ex_start e) + j)"
    using a le unfolding assms(5) by (subst unat_add_no_wrap) (auto simp: unat_sub_no_wrap)
  show *: "unat (pread_len r_sz read r_off extent_end) = min (unat r_sz - unat read) (unat (ex_length e) - j)"
    using a le sum unfolding pread_len_def Let_def assms(5,6)
    by (auto simp: word_less_nat_alt unat_sub_no_wrap)
  show "0 < unat (pread_len r_sz read r_off extent_end)"
    using a le unfolding * by simp
qed

lemma read_at_step:
  assumes okes: "extents_ok es" and at: "read_at es c offset r_sz read r_off extent_end acc" "read \<noteq> r_sz"
    and loc: "located es (unat offset + unat read) e j k"
      "r_off = ex_start e + of_nat j" "extent_end = ex_start e + ex_length e"
    and n: "0 < unat n" "unat n \<le> unat (pread_len r_sz read r_off extent_end)"
    and buf: "unat n \<le> m" "buf = map (\<lambda>i. c (unat r_off + i)) [0..<m]"
  shows "if read + n \<noteq> r_sz \<and> r_off + n = extent_end
    then (case get_extent (offset + (read + n)) es of
        None \<Rightarrow> False
      | Some (e', _) \<Rightarrow> read_at es c offset r_sz (read + n) (ex_start e') (ex_start e' + ex_length e')
          (acc @ take (unat n) buf))
    else read_at es c offset r_sz (read + n) (r_off + n) extent_end (acc @ take (unat n) buf)"
    "unat (read + n) = unat read + unat n"
proof -
  note a = located_addr [OF okes loc(1)]
  note p = pread_len_nat [OF okes at loc]
  have n1: "unat n \<le> unat r_sz - unat read" "unat n \<le> unat (ex_length e) - j" using n(2) p(1) by auto
  have le: "unat read \<le> unat r_sz" and tot: "unat offset + unat r_sz \<le> total_length es"
    and acc: "acc = take (unat read) (drop (unat offset) (extents_data c es))"
    using at by (auto simp: read_at_def)
  show rd: "unat (read + n) = unat read + unat n"
    using n1 le unat_lt [of r_sz] by (simp add: unat_add_no_wrap)
  have ro: "unat (r_off + n) = unat (ex_start e) + j + unat n"
    using n1 a unfolding loc(2) by (subst unat_add_no_wrap) auto
  have D: "extents_data c es ! (unat offset + unat read + i) = c (unat r_off + i)"
    if "i < unat n" for i
    using located_data(1) [OF loc(1), of i c] that n1 a loc(2) by simp
  have "take (unat n) buf = take (unat n) (drop (unat offset + unat read) (extents_data c es))"
    using buf D n1 tot le by (intro nth_equalityI) (auto simp: add.assoc)
  then have acc': "acc @ take (unat n) buf
      = take (unat (read + n)) (drop (unat offset) (extents_data c es))"
    unfolding acc rd take_add by (simp add: add.commute)
  show "if read + n \<noteq> r_sz \<and> r_off + n = extent_end
    then (case get_extent (offset + (read + n)) es of
        None \<Rightarrow> False
      | Some (e', _) \<Rightarrow> read_at es c offset r_sz (read + n) (ex_start e') (ex_start e' + ex_length e')
          (acc @ take (unat n) buf))
    else read_at es c offset r_sz (read + n) (r_off + n) extent_end (acc @ take (unat n) buf)"
  proof (cases "read + n \<noteq> r_sz \<and> r_off + n = extent_end")
    case True
    have len: "unat n = unat (ex_length e) - j" using True ro a loc(3) by auto
    have lt: "unat (read + n) < unat r_sz" using True rd n1 le by (auto simp: le_less word_unat_eq_iff)
    have off: "unat (offset + (read + n)) = unat offset + unat read + unat n"
      using lt rd tot okes by (subst unat_add_no_wrap) (auto simp: extents_ok_def)
    obtain e' dev where g: "get_extent (offset + (read + n)) es = Some (e', dev)"
      using get_extent_None [of "offset + (read + n)" es] off lt rd tot by fastforce
    obtain j' k' where l': "located es (unat offset + unat read + unat n) e' j' k'"
      using get_extent_located [OF g] off by auto
    moreover have "j' = 0" using located_next [OF loc(1)] l' len by simp
    ultimately have l0: "located es (unat offset + unat (read + n)) e' 0 k'"
      using rd by (simp add: add.assoc)
    have "\<exists>x j k. located es (unat offset + unat (read + n)) x j k
        \<and> ex_start e' = ex_start x + of_nat j \<and> ex_start e' + ex_length e' = ex_start x + ex_length x"
      by (rule exI [of _ e'], rule exI [of _ 0], rule exI [of _ k']) (simp add: l0)
    then show ?thesis
      using True g rd lt tot acc' by (simp add: read_at_def)
  next
    case False
    have "\<exists>e' j' k'. located es (unat offset + unat (read + n)) e' j' k' \<and> r_off + n = ex_start e' + of_nat j'
        \<and> extent_end = ex_start e' + ex_length e'" if "read + n \<noteq> r_sz"
    proof (intro exI conjI)
      have "r_off + n \<noteq> extent_end" using False that by simp
      then have "j + unat n < unat (ex_length e)"
        using ro a n1 loc(3) by (auto simp: word_unat_eq_iff)
      then show "located es (unat offset + unat (read + n)) e (j + unat n) k"
        using loc(1) rd by (simp add: located_def)
      show "r_off + n = ex_start e + of_nat (j + unat n)" using loc(2) by simp
      show "extent_end = ex_start e + ex_length e" by (rule loc(3))
    qed
    then show ?thesis
      using False acc' rd n1 le tot by (auto simp: read_at_def)
  qed
qed

lemma align_extra_le: "block_sz \<noteq> 0 \<Longrightarrow> unat (align_extra direct block_sz p) \<le> unat block_sz"
proof (cases "direct \<and> p mod ucast block_sz \<noteq> 0")
  case True
  assume "block_sz \<noteq> 0"
  then have "unat (p mod ucast block_sz) < unat (ucast block_sz :: u64)"
    by (simp add: unat_mod unat_gt_0)
  with True show ?thesis by (simp add: align_extra_def unat_sub_no_wrap)
qed (simp add: align_extra_def)

lemma aligned_or_direct: "(direct \<and> (aligned \<or> direct \<and> \<not> aligned)) = direct"
  by blast

text \<open>One iteration of the read loop, with the definitions of its sizes named.\<close>

lemma positioned_read_loop_unfold:
  "positioned_read_loop be block_sz f direct offset r_sz r0 read r_off extent_end acc b =
     (if read = r_sz then Some (r0, acc, b)
      else let p = pread_len r_sz read r_off extent_end; ta = align_extra direct block_sz p in
        case zbd_Read be r_off (to_int32 (uint (p + ta))) direct b of
           None \<Rightarrow> None
         | Some (r, buf, b1) \<Rightarrow>
             if r \<le> 0 then Some (r, acc, b1)
             else
               let n = take_len r p; acc1 = acc @ take (unat n) buf in
               if read + n \<noteq> r_sz \<and> r_off + n = extent_end then
                 (case get_extent (offset + (read + n)) (extents f) of
                    None \<Rightarrow> Some (r, acc1, b1)
                  | Some (e, _) \<Rightarrow>
                      positioned_read_loop be block_sz f direct offset r_sz r (read + n) (ex_start e)
                        (ex_start e + ex_length e) acc1 b1)
               else positioned_read_loop be block_sz f direct offset r_sz r (read + n) (r_off + n) extent_end acc1 b1)"
  by (subst positioned_read_loop.simps)
    (unfold GetExtent_def Let_def add_diff_cancel_right' aligned_or_direct, rule refl)

context data_device
begin

lemma read_iteration:
  assumes b: "inv b" and okes: "extents_ok es" and at: "read_at es c offset r_sz read r_off extent_end acc"
    "read \<noteq> r_sz" and blk: "block_sz \<noteq> 0" "unat r_sz + unat block_sz < 2 ^ 31"
  defines "p \<equiv> pread_len r_sz read r_off extent_end"
  assumes rd: "zbd_Read be r_off (to_int32 (uint (p + align_extra direct block_sz p))) direct b = Some (r, buf, b1)"
  shows "inv b1 \<and> cont b1 = cont b"
    "0 < r \<Longrightarrow> 0 < unat (take_len r p) \<and> unat (take_len r p) \<le> unat p \<and> unat (take_len r p) \<le> nat r
      \<and> buf = map (\<lambda>i. cont b (unat r_off + i)) [0..<nat r]"
proof -
  obtain e j k where loc: "located es (unat offset + unat read) e j k"
    "r_off = ex_start e + of_nat j" "extent_end = ex_start e + ex_length e"
    using at by (auto simp: read_at_def)
  note a = located_addr [OF okes loc(1)] and pl = pread_len_nat [OF okes at loc, folded p_def]
  let ?ta = "align_extra direct block_sz p"
  have ta: "unat ?ta \<le> unat block_sz" by (rule align_extra_le [OF blk(1)])
  have le: "unat p \<le> unat r_sz" using pl(1) by simp
  then have sum: "unat (p + ?ta) = unat p + unat ?ta" "unat p + unat ?ta < 2 ^ 31"
    using ta blk by (auto simp: unat_add_no_wrap)
  define N where "N = unat p + unat ?ta"
  have n: "to_int32 (uint (p + ?ta)) = int N"
    using to_int32_unat [of "p + ?ta"] sum unfolding N_def by simp
  have N: "N \<noteq> 0" "N < 2 ^ 31" using pl(2) sum(2) by (simp_all add: N_def)
  have loop: "zbd_read_loop be r_off (int N) direct 0 [] b = Some (r, buf, b1)"
    using rd N(1) unfolding n by (simp add: zbd_Read_def)
  have room: "unat r_off + N < 2 ^ 64"
    using a N(2) unfolding loc(2) by simp
  note res = read_loop_data [OF loop b, of r_off]
  show "inv b1 \<and> cont b1 = cont b" using res room by simp
  assume r: "0 < r"
  have r_le: "nat r \<le> N" and buf: "buf = map (\<lambda>i. cont b (unat r_off + i)) [0..<nat r]"
    using res room r by auto
  have "nat r < 2 ^ LENGTH(64)" using r_le N(2) by simp
  then have ur: "unat (word_of_int r :: u64) = nat r"
    by (simp only: word_of_int_nat [OF less_imp_le [OF r]] unat_of_nat_small)
  show "0 < unat (take_len r p) \<and> unat (take_len r p) \<le> unat p \<and> unat (take_len r p) \<le> nat r
      \<and> buf = map (\<lambda>i. cont b (unat r_off + i)) [0..<nat r]"
    using ur r buf pl(2) by (auto simp: take_len_def word_le_nat_alt)
qed

end

context data_device
begin

lemma positioned_read_loop_data:
  assumes okes: "extents_ok (extents f)" and blk: "block_sz \<noteq> 0" "unat r_sz + unat block_sz < 2 ^ 31"
    and "positioned_read_loop be block_sz f direct offset r_sz r0 read r_off extent_end acc b = Some (r, acc', b')"
    and "inv b" "cont b = c" "read_at (extents f) c offset r_sz read r_off extent_end acc"
  shows "inv b' \<and> cont b' = c \<and> (\<exists>m \<le> unat r_sz. acc' = take m (drop (unat offset) (extents_data c (extents f)))
    \<and> (0 < r \<longrightarrow> m = unat r_sz))"
  using assms(4-)
proof (induction "unat r_sz - unat read" arbitrary: read r0 r_off extent_end acc b rule: less_induct)
  case less
  show ?case
  proof (cases "read = r_sz")
    case True
    then have "r = r0" "acc' = acc" "b' = b"
      using less(2) by (simp_all add: positioned_read_loop_unfold)
    with less(3-) True show ?thesis by (auto simp: read_at_def)
  next
    case False
    let ?p = "pread_len r_sz read r_off extent_end"
    obtain e j k where loc: "located (extents f) (unat offset + unat read) e j k"
      "r_off = ex_start e + of_nat j" "extent_end = ex_start e + ex_length e"
      using less(5) False by (auto simp: read_at_def)
    obtain r1 buf b1 where rd: "zbd_Read be r_off (to_int32 (uint (?p + align_extra direct block_sz ?p))) direct b
        = Some (r1, buf, b1)"
      using less(2) False by (auto simp: positioned_read_loop_unfold Let_def split: option.splits)
    have b1: "inv b1" "cont b1 = c"
      using read_iteration(1) [OF less(3) okes less(5) False blk rd] less(4) by auto
    show ?thesis
    proof (cases "r1 \<le> 0")
      case True
      then have "r = r1" "acc' = acc" "b' = b1"
        using less(2) False rd by (simp_all add: positioned_read_loop_unfold Let_def)
      with b1 True less(5) show ?thesis by (auto simp: read_at_def)
    next
      case pos: False
      let ?n = "take_len r1 ?p"
      have n: "0 < unat ?n" "unat ?n \<le> unat ?p" "unat ?n \<le> nat r1"
        and buf: "buf = map (\<lambda>i. c (unat r_off + i)) [0..<nat r1]"
        using read_iteration(2) [OF less(3) okes less(5) False blk rd] pos less(4) by auto
      note step = read_at_step [OF okes less(5) False loc n buf]
      have "unat (read + ?n) \<le> unat r_sz"
        using step(2) pread_len_nat(1) [OF okes less(5) False loc] n(2) less(5)
        by (auto simp: read_at_def)
      then have dec: "unat r_sz - unat (read + ?n) < unat r_sz - unat read"
        using step(2) n(1) by linarith
      show ?thesis
      proof (cases "read + ?n \<noteq> r_sz \<and> r_off + ?n = extent_end")
        case True
        then obtain e' d where g: "get_extent (offset + (read + ?n)) (extents f) = Some (e', d)"
          and at': "read_at (extents f) c offset r_sz (read + ?n) (ex_start e') (ex_start e' + ex_length e')
            (acc @ take (unat ?n) buf)"
          using step(1) by (auto split: option.splits)
        have "positioned_read_loop be block_sz f direct offset r_sz r1 (read + ?n) (ex_start e')
            (ex_start e' + ex_length e') (acc @ take (unat ?n) buf) b1 = Some (r, acc', b')"
          using less(2) False rd pos True g by (simp add: positioned_read_loop_unfold [of _ _ _ _ _ _ r0] Let_def)
        from less(1) [OF dec this b1 at'] show ?thesis .
      next
        case False': False
        have at': "read_at (extents f) c offset r_sz (read + ?n) (r_off + ?n) extent_end
            (acc @ take (unat ?n) buf)"
          using step(1) unfolding if_not_P [OF False'] .
        have "positioned_read_loop be block_sz f direct offset r_sz r1 (read + ?n) (r_off + ?n)
            extent_end (acc @ take (unat ?n) buf) b1 = Some (r, acc', b')"
          using less(2) False rd pos False' by (simp add: positioned_read_loop_unfold [of _ _ _ _ _ _ r0] Let_def)
        from less(1) [OF dec this b1 at'] show ?thesis .
      qed
    qed
  qed
qed

lemma read_at_start:
  assumes "extents_ok es" "get_extent offset es = Some (e, r_off)" "unat offset + unat r_sz \<le> total_length es"
  shows "read_at es c offset r_sz 0 r_off (ex_start e + ex_length e) []"
  using get_extent_located [OF assms(2)] assms(3) by (auto simp: read_at_def)

lemma file_read_size:
  assumes "offset < file_size f" "unat (file_size f) \<le> total_length (extents f)"
    "unat offset + unat n < 2 ^ 64"
  shows "unat (if offset + n > file_size f then file_size f - offset else n)
    = min (unat n) (unat (file_size f) - unat offset)"
  using assms by (auto simp: word_less_nat_alt unat_sub_no_wrap unat_add_no_wrap)

end

text \<open>
  \<open>ZoneFile::PositionedRead\<close>, buffered or direct, on a device that stores bytes.  A read that
  reports success returns a prefix of the requested range of the file's data, the concatenation
  of its extents, clipped at the end of the file; the device and the file are unchanged.
\<close>

theorem positioned_read_correct:
  assumes dev: "data_device be cont I" "I (zbd_be s)"
    and fil: "extents_ok (extents f)" "unat (file_size f) \<le> total_length (extents f)"
    and sizes: "GetBlockSize be s \<noteq> 0" "unat n + unat (GetBlockSize be s) < 2 ^ 31"
      "unat offset + unat n < 2 ^ 64"
    and read: "file_PositionedRead be f offset n direct s = Some (st, result, s')" "ok st"
  shows "\<exists>m. result = take m (take (min (unat n) (unat (file_size f) - unat offset))
        (drop (unat offset) (extents_data (cont (zbd_be s)) (extents f))))
    \<and> io_zones s' = io_zones s \<and> cont (zbd_be s') = cont (zbd_be s) \<and> I (zbd_be s')"
proof (cases "offset \<ge> file_size f \<or> GetExtent f offset = None")
  case True
  then have "result = []" "s' = s" using read by (auto simp: file_PositionedRead_def split: if_splits)
  with dev show ?thesis by (auto intro!: exI [of _ 0])
next
  case False
  then obtain e r_off where g: "get_extent offset (extents f) = Some (e, r_off)" by (auto simp: GetExtent_def)
  define r_sz where "r_sz = (if offset + n > file_size f then file_size f - offset else n)"
  have rsz: "unat r_sz = min (unat n) (unat (file_size f) - unat offset)"
    unfolding r_sz_def by (rule data_device.file_read_size [OF dev(1)]) (use False fil sizes in \<open>simp_all add: not_le\<close>)
  have body: "(case positioned_read_loop be (GetBlockSize be s) f direct offset r_sz 0 0 r_off
      (ex_start e + ex_length e) [] (zbd_be s) of None \<Rightarrow> None
    | Some (r, acc, b1) \<Rightarrow>
        if r < 0 then Some (IOError (str ''pread error'' @ [10]) [], [], s\<lparr> zbd_be := b1 \<rparr>)
        else Some (OK, acc, s\<lparr> zbd_be := b1 \<rparr>)) = Some (st, result, s')"
    using read(1) False g unfolding file_PositionedRead_def GetExtent_def Let_def r_sz_def by simp
  then obtain r acc b1 where l: "positioned_read_loop be (GetBlockSize be s) f direct offset r_sz 0 0 r_off
      (ex_start e + ex_length e) [] (zbd_be s) = Some (r, acc, b1)"
    by (auto split: option.splits)
  have at: "read_at (extents f) (cont (zbd_be s)) offset r_sz 0 r_off (ex_start e + ex_length e) []"
    by (rule data_device.read_at_start [OF dev(1) fil(1) g]) (use rsz fil(2) False in \<open>auto simp: word_le_nat_alt\<close>)
  have res: "result = acc" "s' = s\<lparr> zbd_be := b1 \<rparr>"
    using body l read(2) by (auto split: if_splits)
  have small: "unat r_sz + unat (GetBlockSize be s) < 2 ^ 31" using rsz sizes(2) by simp
  from data_device.positioned_read_loop_data [OF dev(1) fil(1) sizes(1) small l dev(2) refl at]
  obtain m where "m \<le> unat r_sz" "acc = take m (drop (unat offset) (extents_data (cont (zbd_be s)) (extents f)))"
    "I b1" "cont b1 = cont (zbd_be s)" by blast
  then show ?thesis
    using res rsz by (auto intro!: exI [of _ m] simp: min.absorb1)
qed

text \<open>A device without read errors: a read of up to the kernel's limit delivers at least a byte.\<close>

locale reading_device = data_device +
  assumes read_positive: "inv b \<Longrightarrow> 0 < n \<Longrightarrow> n \<le> 0x7ffff000 \<Longrightarrow> 0 < fst (fst (be_Read be n pos direct b))"
begin

lemma zbd_read_loop_full:
  assumes "inv b" "0 \<le> left" "left \<le> 0x7ffff000"
  shows "\<exists>buf' b'. zbd_read_loop be offset left direct ret buf b = Some (ret + left, buf', b')"
  using assms
proof (induction "nat left" arbitrary: offset left ret buf b rule: less_induct)
  case less
  show ?case
  proof (cases "left = 0")
    case True
    then show ?thesis by (subst zbd_read_loop.simps) simp
  next
    case False
    obtain r bs b1 where rd: "be_Read be left offset direct b = ((r, bs), b1)" by (metis prod.collapse)
    have r: "0 < r" "r \<le> left" "inv b1"
      using read_positive [OF less(2), of left offset direct] read_result [OF less(2,3), of offset direct]
        read_inv [OF less(2), of left offset direct] rd False less(3,4) by auto
    then obtain buf' b' where "zbd_read_loop be (offset + word_of_int r) (left - r) direct (ret + r) (buf @ bs) b1
        = Some (ret + r + (left - r), buf', b')"
      using less(1) [of "left - r" b1 "offset + word_of_int r" "ret + r" "buf @ bs"] less(3,4) False by fastforce
    then show ?thesis
      using rd r False by (subst zbd_read_loop.simps) simp
  qed
qed

lemma positioned_read_loop_returns:
  assumes okes: "extents_ok (extents f)"
    and blk: "block_sz \<noteq> 0" "unat r_sz + unat block_sz < 0x7ffff000"
    and "inv b" "cont b = c" "read_at (extents f) c offset r_sz read r_off extent_end acc"
  shows "\<exists>r acc' b'. positioned_read_loop be block_sz f direct offset r_sz r0 read r_off extent_end acc b
      = Some (r, acc', b') \<and> (0 < r \<or> r = r0 \<and> read = r_sz)"
  using assms(4-)
proof (induction "unat r_sz - unat read" arbitrary: read r0 r_off extent_end acc b rule: less_induct)
  case less
  show ?case
  proof (cases "read = r_sz")
    case True
    then show ?thesis by (simp add: positioned_read_loop_unfold)
  next
    case False
    let ?p = "pread_len r_sz read r_off extent_end"
    let ?N = "unat ?p + unat (align_extra direct block_sz ?p)"
    obtain e j k where loc: "located (extents f) (unat offset + unat read) e j k"
      "r_off = ex_start e + of_nat j" "extent_end = ex_start e + ex_length e"
      using less(4) False by (auto simp: read_at_def)
    note pl = pread_len_nat [OF okes less(4) False loc]
    have N: "?N < 0x7ffff000" using pl(1) align_extra_le [OF blk(1), of direct ?p] blk(2) by simp
    then have "to_int32 (uint (?p + align_extra direct block_sz ?p)) = int ?N"
      using to_int32_unat [of "?p + align_extra direct block_sz ?p"] by (simp add: unat_add_no_wrap)
    moreover have "int ?N \<le> 0x7ffff000" using N by linarith
    moreover have "int ?N \<noteq> 0" using pl(2) by linarith
    ultimately obtain buf b1 where "zbd_Read be r_off (to_int32 (uint (?p + align_extra direct block_sz ?p))) direct b
        = Some (int ?N, buf, b1)"
      using zbd_read_loop_full [OF less(2), of "int ?N" r_off direct 0 "[]"]
      unfolding zbd_Read_def by (auto simp del: of_nat_add of_nat_unat)
    moreover have "0 < int ?N" using pl(2) by linarith
    ultimately obtain R buf b1 where rd: "zbd_Read be r_off (to_int32 (uint (?p + align_extra direct block_sz ?p))) direct b
        = Some (R, buf, b1)" and pos: "0 < R" by blast
    have blk': "unat r_sz + unat block_sz < 2 ^ 31" using blk(2) by simp
    have b1: "inv b1" "cont b1 = c"
      using read_iteration(1) [OF less(2) okes less(4) False blk(1) blk' rd] less(3) by auto
    let ?n = "take_len R ?p"
    have n: "0 < unat ?n" "unat ?n \<le> unat ?p" "unat ?n \<le> nat R"
      and buf: "buf = map (\<lambda>i. c (unat r_off + i)) [0..<nat R]"
      using read_iteration(2) [OF less(2) okes less(4) False blk(1) blk' rd pos] less(3) by simp_all
    note step = read_at_step [OF okes less(4) False loc n buf]
    have "unat (read + ?n) \<le> unat r_sz"
      using step(2) pl(1) n(2) less(4) by (auto simp: read_at_def)
    then have dec: "unat r_sz - unat (read + ?n) < unat r_sz - unat read"
      using step(2) n(1) by linarith
    show ?thesis
    proof (cases "read + ?n \<noteq> r_sz \<and> r_off + ?n = extent_end")
      case True
      then obtain e' d where g: "get_extent (offset + (read + ?n)) (extents f) = Some (e', d)"
        and at': "read_at (extents f) c offset r_sz (read + ?n) (ex_start e') (ex_start e' + ex_length e')
          (acc @ take (unat ?n) buf)"
        using step(1) by (auto split: option.splits)
      from less(1) [OF dec b1 at', of R] show ?thesis
        using False rd True g pos
        by (subst positioned_read_loop_unfold) (auto simp: Let_def)
    next
      case False': False
      have at': "read_at (extents f) c offset r_sz (read + ?n) (r_off + ?n) extent_end
          (acc @ take (unat ?n) buf)"
        using step(1) unfolding if_not_P [OF False'] .
      from less(1) [OF dec b1 at', of R] show ?thesis
        using False rd False' pos
        by (subst positioned_read_loop_unfold) (auto simp: Let_def)
    qed
  qed
qed

end

lemma PositionedRead_full:
  assumes dev: "reading_device be cont I" "I (zbd_be s)"
    and fil: "extents_ok (extents f)" "unat (file_size f) \<le> total_length (extents f)"
    and sizes: "GetBlockSize be s \<noteq> 0" "unat n + unat (GetBlockSize be s) < 0x7ffff000"
      "unat offset + unat n < 2 ^ 64"
  shows "\<exists>s'. file_PositionedRead be f offset n direct s = Some (OK,
      take (min (unat n) (unat (file_size f) - unat offset))
        (drop (unat offset) (extents_data (cont (zbd_be s)) (extents f))), s')"
proof (cases "offset \<ge> file_size f")
  case True
  then show ?thesis by (simp add: file_PositionedRead_def word_le_nat_alt)
next
  case False
  have dd: "data_device be cont I" by (rule reading_device.axioms(1) [OF dev(1)])
  obtain e r_off where g: "get_extent offset (extents f) = Some (e, r_off)"
    using get_extent_None [of offset "extents f"] fil(2) False by (fastforce simp: word_le_nat_alt)
  define r_sz where "r_sz = (if offset + n > file_size f then file_size f - offset else n)"
  have rsz: "unat r_sz = min (unat n) (unat (file_size f) - unat offset)"
    unfolding r_sz_def by (rule data_device.file_read_size [OF dd]) (use False fil sizes in \<open>simp_all add: not_le\<close>)
  have small: "unat r_sz + unat (GetBlockSize be s) < 0x7ffff000"
    "unat r_sz + unat (GetBlockSize be s) < 2 ^ 31" using rsz sizes(2) by simp_all
  have at: "read_at (extents f) (cont (zbd_be s)) offset r_sz 0 r_off (ex_start e + ex_length e) []"
    by (rule data_device.read_at_start [OF dd fil(1) g]) (use rsz fil(2) False in \<open>auto simp: word_le_nat_alt\<close>)
  obtain r acc b1 where l: "positioned_read_loop be (GetBlockSize be s) f direct offset r_sz 0 0 r_off
      (ex_start e + ex_length e) [] (zbd_be s) = Some (r, acc, b1)" and r: "0 < r \<or> r = 0 \<and> 0 = r_sz"
    using reading_device.positioned_read_loop_returns [OF dev(1) fil(1) sizes(1) small(1) dev(2) refl at] by blast
  from data_device.positioned_read_loop_data [OF dd fil(1) sizes(1) small(2) l dev(2) refl at]
  obtain m where m: "m \<le> unat r_sz" "acc = take m (drop (unat offset) (extents_data (cont (zbd_be s)) (extents f)))"
    "0 < r \<longrightarrow> m = unat r_sz" by blast
  then have "m = unat r_sz" using r by auto
  moreover have "file_PositionedRead be f offset n direct s = Some (OK, acc, s\<lparr> zbd_be := b1 \<rparr>)"
    using False g l r unfolding file_PositionedRead_def GetExtent_def Let_def r_sz_def by auto
  ultimately show ?thesis using m rsz by simp
qed


subsection \<open>A concrete file\<close>

text \<open>The simulated device has no read errors while both of its file descriptors are open.\<close>

interpretation sim_reading: reading_device "zbdlib_backend sim_libzbd" "\<lambda>b. sd_mem (zl_dev b)"
  "\<lambda>b. 0 \<le> zl_read_f b \<and> 0 \<le> zl_read_direct_f b"
  by unfold_locales
    (use sim.write_result sim.write_frame sim.write_stored sim.read_cont sim.read_result sim.read_data in
      \<open>auto simp: sim_ops sim_pread_def zbdlib_Write_def to_int32_id\<close>)

text \<open>A file of two extents on a device whose byte at address \<open>a\<close> is \<open>a mod 256\<close>.\<close>

definition demo_file :: zfile where
  "demo_file = (new_ZoneFile 7)\<lparr> extents := [\<lparr> ex_start = 64, ex_length = 6, ex_zone = 1 \<rparr>,
     \<lparr> ex_start = 0, ex_length = 4, ex_zone = 0 \<rparr>], linkfiles := [str ''a.sst'', str ''b.sst''],
     file_size := 10, m_time := 99, zf_lifetime := 3, nr_synced_extents := 2 \<rparr>"

definition demo_disk :: "simdev zbdlib zbd" where
  "demo_disk = demo_zbd\<lparr> zbd_be := demo_dev\<lparr> zl_dev := (zl_dev demo_dev)\<lparr> sd_mem := of_nat \<rparr> \<rparr> \<rparr>"

lemma demo_disk_facts:
  "0 \<le> zl_read_f (zbd_be demo_disk) \<and> 0 \<le> zl_read_direct_f (zbd_be demo_disk)"
  "extents_ok (extents demo_file)" "unat (file_size demo_file) \<le> total_length (extents demo_file)"
  "GetBlockSize demo_be demo_disk \<noteq> 0" "unat (GetBlockSize demo_be demo_disk) < 1000"
  "extents_data (sd_mem (zl_dev (zbd_be demo_disk))) (extents demo_file) = [64, 65, 66, 67, 68, 69, 0, 1, 2, 3]"
  by (simp add: demo_disk_def demo_dev_def)
    (simp add: extents_ok_def demo_file_def, simp add: demo_file_def,
      simp add: GetBlockSize_def demo_disk_def demo_dev_def zbdlib_backend_def,
      simp add: GetBlockSize_def demo_disk_def demo_dev_def zbdlib_backend_def,
      simp add: demo_disk_def demo_file_def extent_bytes_def upt_rec)

lemma demo_file_read:
  "map_option (\<lambda>(st, r, _). (ok st, r)) (file_PositionedRead demo_be demo_file 4 5 False demo_disk)
    = Some (True, [68, 69, 0, 1, 2])"
  by code_simp

theorem positioned_read_correct_witness:
  "\<exists>st s'. file_PositionedRead demo_be demo_file 4 5 False demo_disk = Some (st, [68, 69, 0, 1, 2], s')
    \<and> (\<exists>m. [68, 69, 0, 1, 2] = take m (take (min 5 6) (drop 4 [64, 65, 66, 67, 68, 69, 0, 1, 2, 3 :: byte])))"
proof -
  obtain st s' where r: "file_PositionedRead demo_be demo_file 4 5 False demo_disk = Some (st, [68, 69, 0, 1, 2], s')"
    and st: "ok st" using demo_file_read by (auto simp: map_option_case split: option.splits)
  have sz: "unat (5 :: u64) + unat (GetBlockSize demo_be demo_disk) < 2 ^ 31"
    "unat (4 :: u64) + unat (5 :: u64) < 2 ^ 64" using demo_disk_facts(5) by simp_all
  have fs: "file_size demo_file = 10" by code_simp
  from positioned_read_correct [OF sim_reading.data_device_axioms demo_disk_facts(1-4) sz r st]
  show ?thesis using r demo_disk_facts(6) fs by simp
qed


text \<open>
  C23: decoding what \<open>ZoneFile::EncodeTo\<close> wrote from extent \<open>k\<close> on gives the file back, appended
  to what the decoder started from, and adds the length of every decoded extent to the used
  capacity of its zone.
\<close>

theorem zone_file_roundtrip:
  assumes "\<forall>e\<in>set (drop (unat k) (extents f)). GetIOZone be (ex_start e) s = Some (ex_zone e)"
    and "\<forall>l\<in>set (linkfiles f). l \<noteq> [] \<and> length l < 2 ^ 32"
  shows "file_DecodeFrom be (file_EncodeTo f [] k) g s
    = (OK, decoded f k g, claim_extents (drop (unat k) (extents f)) s)"
  by (rule file_DecodeFrom_EncodeTo [OF assms])

theorem zone_file_roundtrip_witness:
  "file_DecodeFrom demo_be (file_EncodeTo demo_file [] 0) (new_ZoneFile 0) demo_disk
    = (OK, demo_file, claim_extents (extents demo_file) demo_disk)"
proof -
  have "decoded demo_file 0 (new_ZoneFile 0) = demo_file"
    by (simp add: decoded_def demo_file_def new_ZoneFile_def MetadataSynced_def)
  moreover have "\<forall>e\<in>set (drop (unat (0 :: u32)) (extents demo_file)).
      GetIOZone demo_be (ex_start e) demo_disk = Some (ex_zone e)" by code_simp
  moreover have "\<forall>l\<in>set (linkfiles demo_file). l \<noteq> [] \<and> length l < 2 ^ 32"
    by (simp add: demo_file_def str_def)
  ultimately show ?thesis using zone_file_roundtrip [of 0 demo_file demo_be demo_disk "new_ZoneFile 0"] by simp
qed

end
