(* ===== verification/MetaLog.thy ===== *)
theory MetaLog
  imports Superblock Crc32c ZoneFile
begin

text \<open>
  The metadata log of the file system (\<open>AquaMetaLog\<close> of \<open>fs/fs_aquafs.h\<close> and \<open>.cc\<close>): records in a
  metadata zone, each with a masked checksum and its length in front and zeros up to the next
  block boundary behind.

  The log is a cursor into a metadata zone, named by its index.  A result \<open>None\<close> means that the
  call does not return (the device keeps returning 0).  \<open>posix_memalign\<close> is taken to succeed.
\<close>

record metalog =
  read_pos :: u64
  ml_zone :: nat
  ml_bs :: u64

definition zMetaHeaderSize :: u64 where "zMetaHeaderSize = 8"

definition new_AquaMetaLog :: "'b backend \<Rightarrow> nat \<Rightarrow> 'b zbd \<Rightarrow> metalog" where
  "new_AquaMetaLog be i s =
     \<lparr> read_pos = start (meta_zones s ! i), ml_zone = i, ml_bs = ucast (GetBlockSize be s) \<rparr>"

text \<open>The destructor gives the zone back.\<close>

definition delete_AquaMetaLog :: "metalog \<Rightarrow> 'b zbd \<Rightarrow> 'b zbd" where
  "delete_AquaMetaLog ml s = set_meta (ml_zone ml) (snd (Release (meta_zones s ! ml_zone ml))) s"

definition meta_Append :: "'b backend \<Rightarrow> nat \<Rightarrow> bytes \<Rightarrow> 'b zbd \<Rightarrow> (status \<times> 'b zbd) option" where
  "meta_Append be i data s =
     (case Append be data (meta_zones s ! i) (zbd_be s) of
        None \<Rightarrow> None
      | Some (st, z, b, n) \<Rightarrow> Some (st, AddBytesWritten n (set_meta i z (s\<lparr> zbd_be := b \<rparr>))))"

subsection \<open>Writing\<close>

definition record_phys_size :: "u64 \<Rightarrow> u32 \<Rightarrow> u64" where
  "record_phys_size bs record_sz =
     (let p = ucast record_sz + zMetaHeaderSize in if p mod bs \<noteq> 0 then p + (bs - p mod bs) else p)"

definition record_crc :: "bytes \<Rightarrow> u32" where
  "record_crc data =
     Mask (Extend (Extend 0 (EncodeFixed32 (of_nat (length data)))) data)"

text \<open>The buffer that \<open>AddRecord\<close> writes.\<close>

definition record_buffer :: "u64 \<Rightarrow> bytes \<Rightarrow> bytes" where
  "record_buffer bs data =
     (let sz = (of_nat (length data) :: u32);
          body = EncodeFixed32 (record_crc data) @ EncodeFixed32 sz @ data in
      body @ replicate (unat (record_phys_size bs sz) - length body) 0)"

definition AddRecord :: "'b backend \<Rightarrow> metalog \<Rightarrow> bytes \<Rightarrow> 'b zbd \<Rightarrow> (status \<times> 'b zbd) option" where
  "AddRecord be ml data s = meta_Append be (ml_zone ml) (record_buffer (ml_bs ml) data) s"

subsection \<open>Reading\<close>

text \<open>The loop of \<open>AquaMetaLog::Read\<close>: it ends only when the whole range is read or with an
  error.\<close>

partial_function (option) meta_read_loop ::
  "'b backend \<Rightarrow> u64 \<Rightarrow> u64 \<Rightarrow> u64 \<Rightarrow> bytes \<Rightarrow> 'b \<Rightarrow> (status \<times> u64 \<times> bytes \<times> 'b) option" where
  "meta_read_loop be to_read read pos acc b =
     (if \<not> read < to_read then Some (OK, pos, acc, b)
      else case zbd_Read be pos (to_int32 (uint (to_read - read))) False b of
        None \<Rightarrow> None
      | Some (ret, buf, b1) \<Rightarrow>
          if ret = - 1 \<and> be_errno be b1 = EINTR then meta_read_loop be to_read read pos acc b1
          else if ret < 0 then Some (IOError (str ''Read failed'') [], pos, acc, b1)
          else meta_read_loop be to_read (read + word_of_int ret) (pos + word_of_int ret)
                 (acc @ take (nat ret) buf) b1)"

declare meta_read_loop.simps [code]

text \<open>\<open>Read\<close> of \<open>n\<close> bytes; at the write pointer it clears the slice.\<close>

definition ml_Read ::
  "'b backend \<Rightarrow> u64 \<Rightarrow> metalog \<Rightarrow> 'b zbd \<Rightarrow> (status \<times> bytes \<times> metalog \<times> 'b zbd) option" where
  "ml_Read be n ml s =
     (let z = meta_zones s ! ml_zone ml in
      if read_pos ml \<ge> wp z then Some (OK, [], ml, s)
      else if read_pos ml + n > start z + max_capacity z
      then Some (IOError (str ''Read across zone'') [], [], ml, s)
      else case meta_read_loop be n 0 (read_pos ml) [] (zbd_be s) of
        None \<Rightarrow> None
      | Some (st, pos, acc, b) \<Rightarrow> Some (st, acc, ml\<lparr> read_pos := pos \<rparr>, s\<lparr> zbd_be := b \<rparr>))"

definition align_pos :: "u64 \<Rightarrow> u64 \<Rightarrow> u64" where
  "align_pos bs pos = (if pos mod bs \<noteq> 0 then pos + (bs - pos mod bs) else pos)"

definition not_a_record :: status where
  "not_a_record = IOError (str ''Not a valid record'') []"

definition ReadRecord ::
  "'b backend \<Rightarrow> metalog \<Rightarrow> 'b zbd \<Rightarrow> (status \<times> bytes \<times> metalog \<times> 'b zbd) option" where
  "ReadRecord be ml s =
     (case ml_Read be zMetaHeaderSize ml s of
        None \<Rightarrow> None
      | Some (st, header, ml1, s1) \<Rightarrow>
          if \<not> ok st then Some (st, [], ml1, s1)
          else if header = [] then Some (OK, [], ml1, s1)
          else
            let crc = DecodeFixed32 header; record_sz = DecodeFixed32 (drop 4 header) in
            if record_sz = - 1 \<and> crc = - 1 then Some (not_a_record, [], ml1, s1)
            else case ml_Read be (ucast record_sz) ml1 s1 of
              None \<Rightarrow> None
            | Some (st, record, ml2, s2) \<Rightarrow>
                if \<not> ok st then Some (st, record, ml2, s2)
                else if Extend (Value (EncodeFixed32 record_sz)) record \<noteq> Unmask crc
                then Some (not_a_record, record, ml2, s2)
                else Some (OK, record, ml2\<lparr> read_pos := align_pos (ml_bs ml2) (read_pos ml2) \<rparr>, s2))"

subsection \<open>Sizes of records\<close>

definition blocks_up :: "nat \<Rightarrow> nat \<Rightarrow> nat" where
  "blocks_up bs n = (if n mod bs \<noteq> 0 then n + (bs - n mod bs) else n)"

lemma blocks_up_props:
  assumes "0 < bs"
  shows "n \<le> blocks_up bs n" "blocks_up bs n < n + bs" "blocks_up bs n mod bs = 0"
proof -
  have m: "n mod bs < bs" using assms by simp
  show "n \<le> blocks_up bs n"
    unfolding blocks_up_def by (simp only: le_add1 order_refl simp_thms split: if_split)
  show "blocks_up bs n < n + bs" using m assms by (auto simp: blocks_up_def)
  have "n + (bs - n mod bs) = n div bs * bs + bs"
    using m div_mult_mod_eq [of n bs] by linarith
  then show "blocks_up bs n mod bs = 0" by (simp add: blocks_up_def)
qed

lemma blocks_up_add:
  assumes "0 < bs" "a mod bs = 0"
  shows "blocks_up bs (a + n) = a + blocks_up bs n"
proof -
  have "(a + n) mod bs = n mod bs" using assms(2) by (metis add_0 mod_add_left_eq)
  then show ?thesis by (simp add: blocks_up_def)
qed

text \<open>Rounding a position up on words is rounding it up on numbers when nothing wraps.\<close>

lemma unat_round_up:
  fixes bs p :: u64
  assumes "bs \<noteq> 0" "blocks_up (unat bs) (unat p) < 2 ^ 64"
  shows "unat (if p mod bs \<noteq> 0 then p + (bs - p mod bs) else p) = blocks_up (unat bs) (unat p)"
proof -
  have bs: "0 < unat bs" using assms(1) by (simp add: unat_gt_0)
  have m: "unat (p mod bs) = unat p mod unat bs" by (simp add: unat_mod)
  then have le: "unat (p mod bs) \<le> unat bs" using bs by (simp add: less_imp_le)
  have "unat (bs - p mod bs) = unat bs - unat p mod unat bs"
    using le m by (simp add: unat_sub_no_wrap)
  moreover have "(p mod bs \<noteq> 0) = (unat p mod unat bs \<noteq> 0)" using m by (metis unat_eq_zero)
  ultimately show ?thesis
    using assms(2) by (auto simp: blocks_up_def unat_add_no_wrap)
qed

lemma unat_align_pos:
  assumes "bs \<noteq> 0" "blocks_up (unat bs) (unat p) < 2 ^ 64"
  shows "unat (align_pos bs p) = blocks_up (unat bs) (unat p)"
  unfolding align_pos_def by (rule unat_round_up [OF assms])

text \<open>Records of a size that the log can write and read back.\<close>

definition record_fits :: "u64 \<Rightarrow> bytes \<Rightarrow> bool" where
  "record_fits bs data = (bs \<noteq> 0 \<and> length data + 8 + unat bs < 0x7ffff000)"

lemma length_record_buffer:
  assumes "record_fits bs data"
  shows "length (record_buffer bs data) = blocks_up (unat bs) (8 + length data)"
proof -
  let ?sz = "of_nat (length data) :: u32"
  have sz: "unat ?sz = length data" using assms by (simp add: record_fits_def unat_of_nat_small)
  have p: "unat (ucast ?sz + zMetaHeaderSize) = 8 + length data"
    using assms by (simp add: record_fits_def zMetaHeaderSize_def unat_add_no_wrap sz)
  have "unat (record_phys_size bs ?sz) = blocks_up (unat bs) (8 + length data)"
    using unat_round_up [of bs "ucast ?sz + zMetaHeaderSize"] assms p
      blocks_up_props(2) [of "unat bs" "8 + length data"]
    by (simp add: record_phys_size_def Let_def record_fits_def unat_gt_0)
  then show ?thesis
    using blocks_up_props(1) [of "unat bs" "8 + length data"] assms
    by (simp add: record_buffer_def Let_def record_fits_def unat_gt_0)
qed

lemma record_buffer_parts:
  "record_buffer bs data = EncodeFixed32 (record_crc data)
     @ EncodeFixed32 (of_nat (length data)) @ data @ drop (8 + length data) (record_buffer bs data)"
  by (simp add: record_buffer_def Let_def)

subsection \<open>The log as a list of records\<close>

definition log_image :: "u64 \<Rightarrow> bytes list \<Rightarrow> bytes" where
  "log_image bs recs = concat (map (record_buffer bs) recs)"

lemma log_image_simps [simp]:
  "log_image bs [] = []" "log_image bs (r # rs) = record_buffer bs r @ log_image bs rs"
  "log_image bs (rs @ rs') = log_image bs rs @ log_image bs rs'"
  by (simp_all add: log_image_def)

lemma log_image_aligned:
  assumes "\<forall>r\<in>set rs. record_fits bs r"
  shows "length (log_image bs rs) mod unat bs = 0"
  using assms
proof (induction rs)
  case (Cons r rs)
  then have "length (record_buffer bs r) mod unat bs = 0"
    using blocks_up_props(3) [of "unat bs"] by (simp add: length_record_buffer record_fits_def unat_gt_0)
  with Cons show ?case by (simp add: mod_add_eq [symmetric])
qed simp

definition bytes_at :: "(nat \<Rightarrow> byte) \<Rightarrow> nat \<Rightarrow> nat \<Rightarrow> bytes" where
  "bytes_at c a n = map (\<lambda>i. c (a + i)) [0..<n]"

lemma length_bytes_at [simp]: "length (bytes_at c a n) = n"
  by (simp add: bytes_at_def)

lemma bytes_at_add: "bytes_at c a (m + n) = bytes_at c a m @ bytes_at c (a + m) n"
  by (rule nth_equalityI) (auto simp: bytes_at_def nth_append add.assoc)

lemma bytes_at_append:
  "(bytes_at c a (length (xs @ ys)) = xs @ ys)
    = (bytes_at c a (length xs) = xs \<and> bytes_at c (a + length xs) (length ys) = ys)"
  by (simp add: bytes_at_add append_eq_append_conv)

lemma bytes_at_cong: "(\<And>i. i < n \<Longrightarrow> c (a + i) = c' (a + i)) \<Longrightarrow> bytes_at c a n = bytes_at c' a n"
  by (simp add: bytes_at_def)

text \<open>The records \<open>recs\<close> stand at the start of zone \<open>z\<close>.\<close>

definition log_at :: "(nat \<Rightarrow> byte) \<Rightarrow> zone \<Rightarrow> u64 \<Rightarrow> bytes list \<Rightarrow> bool" where
  "log_at c z bs recs = (bytes_at c (unat (start z)) (length (log_image bs recs)) = log_image bs recs
     \<and> (\<forall>r\<in>set recs. record_fits bs r)
     \<and> unat (start z) + length (log_image bs recs) \<le> unat (wp z)
     \<and> length (log_image bs recs) \<le> unat (max_capacity z)
     \<and> unat (start z) mod unat bs = 0)"

lemma bytes_at_take: "m \<le> n \<Longrightarrow> take m (bytes_at c a n) = bytes_at c a m"
  by (rule nth_equalityI) (auto simp: bytes_at_def)

lemma record_in_log:
  assumes "log_at c z bs (pre @ r # post)" "zone_ok zs z"
  defines "a \<equiv> unat (start z) + length (log_image bs pre)"
  shows "bytes_at c a 8 = EncodeFixed32 (record_crc r) @ EncodeFixed32 (of_nat (length r))"
    "bytes_at c (a + 8) (length r) = r"
    "a + length (record_buffer bs r) \<le> unat (wp z)"
    "a + length (record_buffer bs r) \<le> unat (start z) + unat (max_capacity z)"
    "unat (start z) + unat (max_capacity z) < 2 ^ 64"
    "a mod unat bs = 0" "record_fits bs r" "8 + length r \<le> length (record_buffer bs r)"
proof -
  let ?h = "EncodeFixed32 (record_crc r) @ EncodeFixed32 (of_nat (length r))"
  have fit: "record_fits bs r" "\<forall>x\<in>set pre. record_fits bs x" using assms(1) by (auto simp: log_at_def)
  have img: "bytes_at c (unat (start z)) (length (log_image bs (pre @ r # post))) = log_image bs (pre @ r # post)"
    using assms(1) by (simp add: log_at_def)
  then have "bytes_at c a (length (record_buffer bs r)) = record_buffer bs r"
    by (simp add: a_def bytes_at_add append_eq_append_conv add.assoc)
  then have "bytes_at c a (length (?h @ r @ drop (8 + length r) (record_buffer bs r)))
      = ?h @ r @ drop (8 + length r) (record_buffer bs r)"
    using record_buffer_parts [of bs r] by simp
  then have "bytes_at c a (length ?h) = ?h \<and> bytes_at c (a + length ?h) (length r) = r"
    unfolding bytes_at_append by simp
  then show "bytes_at c a 8 = ?h" "bytes_at c (a + 8) (length r) = r" by simp_all
  show "a + length (record_buffer bs r) \<le> unat (wp z)"
    "a + length (record_buffer bs r) \<le> unat (start z) + unat (max_capacity z)"
    using assms(1) by (simp_all add: log_at_def a_def)
  show "unat (start z) + unat (max_capacity z) < 2 ^ 64" using assms(2) by (simp add: zone_ok_def)
  show "a mod unat bs = 0"
    using assms(1) log_image_aligned [OF fit(2)] by (simp add: a_def log_at_def mod_add_eq [symmetric])
  show "record_fits bs r" by (rule fit(1))
  show "8 + length r \<le> length (record_buffer bs r)"
    using fit(1) blocks_up_props(1) [of "unat bs" "8 + length r"]
    by (simp add: length_record_buffer record_fits_def unat_gt_0)
qed

context data_device
begin

lemma AddRecord_log:
  assumes b: "inv (zbd_be s)" and i: "ml_zone ml < length (meta_zones s)"
    and z: "zone_ok zs (meta_zones s ! ml_zone ml)"
    and log: "log_at (cont (zbd_be s)) (meta_zones s ! ml_zone ml) (ml_bs ml) recs"
    and wp: "unat (wp (meta_zones s ! ml_zone ml))
      = unat (start (meta_zones s ! ml_zone ml)) + length (log_image (ml_bs ml) recs)"
    and fit: "record_fits (ml_bs ml) r"
    and run: "AddRecord be ml r s = Some (st, s')" "ok st"
  shows "log_at (cont (zbd_be s')) (meta_zones s' ! ml_zone ml) (ml_bs ml) (recs @ [r])"
    "unat (wp (meta_zones s' ! ml_zone ml))
      = unat (start (meta_zones s' ! ml_zone ml)) + length (log_image (ml_bs ml) (recs @ [r]))"
proof -
  let ?z = "meta_zones s ! ml_zone ml" and ?buf = "record_buffer (ml_bs ml) r"
  have len: "length ?buf < 2 ^ 32"
    using fit blocks_up_props(2) [of "unat (ml_bs ml)" "8 + length r"]
    by (simp add: length_record_buffer record_fits_def unat_gt_0)
  obtain z1 b1 n where a: "Append be ?buf ?z (zbd_be s) = Some (st, z1, b1, n)"
    and s': "s' = AddBytesWritten n (set_meta (ml_zone ml) z1 (s\<lparr> zbd_be := b1 \<rparr>))"
    using run(1) by (auto simp: AddRecord_def meta_Append_def split: option.splits)
  have room: "\<not> unat (capacity ?z) < length ?buf" and app: "appended ?buf (length ?buf) ?z (zbd_be s) 0 (st, z1, b1, n)"
    using Append_cases [OF a b z len] run(2) by (auto split: if_splits)
  then have z1: "z1 = advance (length ?buf) ?z"
    and data: "\<forall>k < length ?buf. cont b1 (unat (wp ?z) + k) = ?buf ! k"
      "\<forall>a < unat (wp ?z). cont b1 a = cont (zbd_be s) a"
    using run(2) by (auto simp: appended_def)
  have adv: "unat (wp z1) = unat (wp ?z) + length ?buf" "start z1 = start ?z" "max_capacity z1 = max_capacity ?z"
    using unat_advance(1) [of "length ?buf" ?z] room zone_ok_room [OF z] by (simp_all add: z1)
  have new: "meta_zones s' ! ml_zone ml = z1" "zbd_be s' = b1"
    using i by (simp_all add: s' AddBytesWritten_def set_meta_def)
  have "bytes_at (cont b1) (unat (wp ?z)) (length ?buf) = ?buf"
    using data(1) by (intro nth_equalityI) (auto simp: bytes_at_def)
  moreover have "bytes_at (cont b1) (unat (start ?z)) (length (log_image (ml_bs ml) recs)) = log_image (ml_bs ml) recs"
    using log data(2) wp bytes_at_cong [of "length (log_image (ml_bs ml) recs)" "cont b1" "unat (start ?z)"
      "cont (zbd_be s)"] by (simp add: log_at_def)
  moreover have "length (log_image (ml_bs ml) recs) + length ?buf \<le> unat (max_capacity ?z)"
  proof (cases "capacity ?z = 0")
    case True
    then have "length ?buf = 0" using room by simp
    then show ?thesis using log by (simp add: log_at_def)
  next
    case False
    then show ?thesis using room wp z by (auto simp: zone_ok_def)
  qed
  ultimately show "log_at (cont (zbd_be s')) (meta_zones s' ! ml_zone ml) (ml_bs ml) (recs @ [r])"
    using log fit wp adv bytes_at_append [of "cont b1" "unat (start ?z)" "log_image (ml_bs ml) recs" ?buf]
    by (simp add: new log_at_def)
  show "unat (wp (meta_zones s' ! ml_zone ml))
      = unat (start (meta_zones s' ! ml_zone ml)) + length (log_image (ml_bs ml) (recs @ [r]))"
    using adv wp by (simp add: new)
qed

end

context reading_device
begin

lemma meta_read_loop_full:
  assumes "inv b" "unat n \<le> 0x7ffff000" "unat pos + unat n < 2 ^ 64"
  shows "\<exists>b'. meta_read_loop be n 0 pos [] b = Some (OK, pos + n, bytes_at (cont b) (unat pos) (unat n), b')
    \<and> inv b' \<and> cont b' = cont b"
proof (cases "n = 0")
  case True
  then show ?thesis using assms(1) by (subst meta_read_loop.simps) (simp add: bytes_at_def)
next
  case False
  have i: "to_int32 (uint n) = int (unat n)" using assms(2) to_int32_unat [of n] by simp
  have pos: "0 < unat n" using False by (simp add: unat_gt_0)
  have le: "int (unat n) \<le> 0x7ffff000" using assms(2) by linarith
  obtain buf b' where rd: "zbd_read_loop be pos (int (unat n)) False 0 [] b = Some (0 + int (unat n), buf, b')"
    using zbd_read_loop_full [OF assms(1) _ le, of pos False 0 "[]"] by (metis of_nat_0_le_iff)
  have data: "inv b'" "cont b' = cont b" "buf = bytes_at (cont b) (unat pos) (unat n)"
    using read_loop_data [OF rd assms(1), of pos] assms(3) by (simp_all add: bytes_at_def)
  have "zbd_Read be pos (int (unat n)) False b = Some (int (unat n), buf, b')"
    using rd pos by (simp add: zbd_Read_def del: of_nat_unat)
  moreover have "word_of_int (int (unat n)) = n" by simp
  ultimately have "meta_read_loop be n 0 pos [] b = meta_read_loop be n n (pos + n) (bytes_at (cont b) (unat pos) (unat n)) b'"
    using False pos data(3) i
    by (subst meta_read_loop.simps) (simp add: word_less_nat_alt del: of_nat_unat word_of_int_uint)
  also have "\<dots> = Some (OK, pos + n, bytes_at (cont b) (unat pos) (unat n), b')"
    by (subst meta_read_loop.simps) simp
  finally show ?thesis using data by blast
qed

text \<open>Reading at the end of the log, and reading a range of it.\<close>

lemma ml_Read_eof: "wp (meta_zones s ! ml_zone ml) \<le> read_pos ml \<Longrightarrow> ml_Read be n ml s = Some (OK, [], ml, s)"
  by (simp add: ml_Read_def Let_def)

lemma ml_Read_range:
  assumes "inv (zbd_be s)" "read_pos ml < wp (meta_zones s ! ml_zone ml)" "unat n \<le> 0x7ffff000"
    and "unat (start (meta_zones s ! ml_zone ml)) + unat (max_capacity (meta_zones s ! ml_zone ml)) < 2 ^ 64"
    and "unat (read_pos ml) + unat n \<le> unat (start (meta_zones s ! ml_zone ml)) + unat (max_capacity (meta_zones s ! ml_zone ml))"
  shows "\<exists>b'. ml_Read be n ml s = Some (OK, bytes_at (cont (zbd_be s)) (unat (read_pos ml)) (unat n),
      ml\<lparr> read_pos := read_pos ml + n \<rparr>, s\<lparr> zbd_be := b' \<rparr>) \<and> inv b' \<and> cont b' = cont (zbd_be s)"
proof -
  let ?z = "meta_zones s ! ml_zone ml"
  have "\<not> read_pos ml + n > start ?z + max_capacity ?z" "unat (read_pos ml) + unat n < 2 ^ 64"
    using assms(4,5) by (simp_all add: word_less_nat_alt unat_add_no_wrap)
  then show ?thesis
    using meta_read_loop_full [OF assms(1,3)] assms(2) by (fastforce simp: ml_Read_def Let_def not_le)
qed

lemma ReadRecord_log:
  fixes pre :: "bytes list"
  defines "p \<equiv> \<lambda>recs z bs. start z + of_nat (length (log_image bs recs))"
  assumes b: "inv (zbd_be s)" and z: "zone_ok zs (meta_zones s ! ml_zone ml)"
    and log: "log_at (cont (zbd_be s)) (meta_zones s ! ml_zone ml) (ml_bs ml) (pre @ r # post)"
    and pos: "read_pos ml = p pre (meta_zones s ! ml_zone ml) (ml_bs ml)"
  shows "\<exists>b'. ReadRecord be ml s = Some (OK, r,
      ml\<lparr> read_pos := p (pre @ [r]) (meta_zones s ! ml_zone ml) (ml_bs ml) \<rparr>, s\<lparr> zbd_be := b' \<rparr>)
    \<and> inv b' \<and> cont b' = cont (zbd_be s)"
proof -
  let ?z = "meta_zones s ! ml_zone ml" and ?bs = "ml_bs ml" and ?c = "cont (zbd_be s)"
  define a where "a = unat (start ?z) + length (log_image ?bs pre)"
  note rec = record_in_log [OF log z, folded a_def]
  have rp: "unat (read_pos ml) = a"
    using rec(4,5) by (simp add: pos p_def unat_add_no_wrap unat_of_nat_small a_def)
  have n: "length r + 8 + unat ?bs < 0x7ffff000" "?bs \<noteq> 0" using rec(7) by (simp_all add: record_fits_def)
  have sz: "unat (of_nat (length r) :: u32) = length r" using n by (simp add: unat_of_nat_small)
  obtain b1 where h: "ml_Read be zMetaHeaderSize ml s = Some (OK, bytes_at ?c a 8,
      ml\<lparr> read_pos := read_pos ml + zMetaHeaderSize \<rparr>, s\<lparr> zbd_be := b1 \<rparr>)" "inv b1" "cont b1 = ?c"
    using ml_Read_range [OF b, of ml zMetaHeaderSize] rec(3-5,8) rp n
    by (auto simp: word_less_nat_alt zMetaHeaderSize_def)
  let ?ml1 = "ml\<lparr> read_pos := read_pos ml + zMetaHeaderSize \<rparr>" and ?s1 = "s\<lparr> zbd_be := b1 \<rparr>"
  have rp1: "unat (read_pos ?ml1) = a + 8"
    using rp rec(4,5,8) by (simp add: zMetaHeaderSize_def unat_add_no_wrap)
  have body: "\<exists>b2. ml_Read be (ucast (of_nat (length r) :: u32)) ?ml1 ?s1 = Some (OK, r,
      ?ml1\<lparr> read_pos := read_pos ?ml1 + of_nat (length r) \<rparr>, s\<lparr> zbd_be := b2 \<rparr>) \<and> inv b2 \<and> cont b2 = ?c"
  proof (cases "wp ?z \<le> read_pos ?ml1")
    case True
    then have "length r = 0" using rp1 rec(3,8) unfolding word_le_nat_alt by linarith
    then have "r = []" by simp
    then show ?thesis using True h ml_Read_eof [of ?s1 ?ml1] by (auto intro!: exI [of _ b1])
  next
    case False
    have "unat (ucast (of_nat (length r) :: u32) :: u64) = unat (of_nat (length r) :: u64)"
      using sz n by (simp add: unat_of_nat_small)
    then have "ucast (of_nat (length r) :: u32) = (of_nat (length r) :: u64)" by (metis unsigned_word_eqI)
    then show ?thesis
      using ml_Read_range [of ?s1 ?ml1 "of_nat (length r)"] False h rp1 rec(2,4,5,8) n
      by (simp add: not_le unat_of_nat_small)
  qed
  then obtain b2 where b2: "ml_Read be (ucast (of_nat (length r) :: u32)) ?ml1 ?s1 = Some (OK, r,
      ?ml1\<lparr> read_pos := read_pos ?ml1 + of_nat (length r) \<rparr>, s\<lparr> zbd_be := b2 \<rparr>)" "inv b2" "cont b2 = ?c" by blast
  have end_pos: "align_pos ?bs (read_pos ?ml1 + of_nat (length r)) = p (pre @ [r]) ?z ?bs"
  proof -
    have L: "length (record_buffer ?bs r) = blocks_up (unat ?bs) (8 + length r)"
      by (rule length_record_buffer [OF rec(7)])
    have bs: "0 < unat ?bs" using n(2) by (simp add: unat_gt_0)
    have q: "unat (read_pos ?ml1 + of_nat (length r)) = a + (8 + length r)"
      using rp1 rec(4,5,8) n by (simp add: unat_add_no_wrap unat_of_nat_small)
    have up: "blocks_up (unat ?bs) (a + (8 + length r)) = a + length (record_buffer ?bs r)"
      by (simp only: blocks_up_add [OF bs rec(6)] L)
    have "unat (align_pos ?bs (read_pos ?ml1 + of_nat (length r))) = a + length (record_buffer ?bs r)"
      using rec(4,5) by (subst unat_align_pos [OF n(2)]) (simp_all only: q up)
    moreover have "unat (p (pre @ [r]) ?z ?bs) = a + length (record_buffer ?bs r)"
      using rec(4,5) by (simp add: p_def unat_add_no_wrap unat_of_nat_small a_def add.assoc)
    ultimately show ?thesis by (metis unsigned_word_eqI)
  qed
  have "unat (- 1 :: u32) = 4294967295" by (simp add: unsigned_minus_1_eq_mask mask_eq_exp_minus_1)
  then have "(of_nat (length r) :: u32) \<noteq> - 1" using sz n by auto
  moreover have "bytes_at ?c a 8 \<noteq> []" using length_bytes_at [of ?c a 8] by fastforce
  moreover have "DecodeFixed32 (bytes_at ?c a 8) = record_crc r"
    "DecodeFixed32 (drop 4 (bytes_at ?c a 8)) = of_nat (length r)"
    using rec(1) DecodeFixed32_Encode [of _ "[]"] by (simp_all add: DecodeFixed32_Encode)
  moreover have "Extend (Value (EncodeFixed32 (of_nat (length r)))) r = Unmask (record_crc r)"
    by (simp add: record_crc_def Unmask_Mask Value_def)
  ultimately have "ReadRecord be ml s = Some (OK, r,
      ml\<lparr> read_pos := p (pre @ [r]) ?z ?bs \<rparr>, s\<lparr> zbd_be := b2 \<rparr>)"
    using h(1) b2(1) end_pos by (simp add: ReadRecord_def Let_def)
  with b2(2,3) show ?thesis by blast
qed

end

subsection \<open>Properties\<close>

text \<open>
  \<open>AquaMetaLog::AddRecord\<close> on a metadata zone whose write pointer stands behind the records
  \<open>recs\<close>.  When the padded record does not fit, the call reports out of space and nothing has
  changed; when it succeeds, the zone holds the records \<open>recs\<close> followed by the new one and its
  write pointer stands behind that.
\<close>

theorem meta_log_append:
  assumes dev: "data_device be cont I" "I (zbd_be s)"
    and z: "ml_zone ml < length (meta_zones s)" "zone_ok zs (meta_zones s ! ml_zone ml)"
    and log: "log_at (cont (zbd_be s)) (meta_zones s ! ml_zone ml) (ml_bs ml) recs"
      "unat (wp (meta_zones s ! ml_zone ml))
        = unat (start (meta_zones s ! ml_zone ml)) + length (log_image (ml_bs ml) recs)"
    and fit: "record_fits (ml_bs ml) r"
    and run: "AddRecord be ml r s = Some (st, s')"
  shows "if unat (capacity (meta_zones s ! ml_zone ml)) < length (record_buffer (ml_bs ml) r)
    then IsNoSpace st \<and> s' = s
    else ok st \<longrightarrow> log_at (cont (zbd_be s')) (meta_zones s' ! ml_zone ml) (ml_bs ml) (recs @ [r])
      \<and> unat (wp (meta_zones s' ! ml_zone ml))
        = unat (start (meta_zones s' ! ml_zone ml)) + length (log_image (ml_bs ml) (recs @ [r]))"
proof (cases "unat (capacity (meta_zones s ! ml_zone ml)) < length (record_buffer (ml_bs ml) r)")
  case True
  have len: "length (record_buffer (ml_bs ml) r) < 2 ^ 32"
    using fit blocks_up_props(2) [of "unat (ml_bs ml)" "8 + length r"]
    by (simp add: length_record_buffer record_fits_def unat_gt_0)
  obtain x where a: "Append be (record_buffer (ml_bs ml) r) (meta_zones s ! ml_zone ml) (zbd_be s) = Some x"
    using run by (auto simp: AddRecord_def meta_Append_def split: option.splits)
  have x: "x = (NoSpace_msg (str ''Not enough capacity for append'') [], meta_zones s ! ml_zone ml, zbd_be s, 0)"
    using data_device.Append_cases [OF dev(1) a dev(2) z(2) len] True by simp
  have "s' = AddBytesWritten 0 (set_meta (ml_zone ml) (meta_zones s ! ml_zone ml) (s\<lparr> zbd_be := zbd_be s \<rparr>))"
    and st: "st = NoSpace_msg (str ''Not enough capacity for append'') []"
    using run a x by (simp_all add: AddRecord_def meta_Append_def)
  then have "s' = s" by (simp add: AddBytesWritten_def set_meta_def list_update_id)
  with True st show ?thesis by (simp add: NoSpace_msg_def IsNoSpace_def mk_status_msg_def)
next
  case False
  with data_device.AddRecord_log [OF dev z log fit run] show ?thesis by simp
qed

text \<open>
  C10: \<open>AquaMetaLog::ReadRecord\<close> on a device without read errors.  With the read position at the
  start of a record of the log it returns exactly that record, whatever stands behind it, moves to
  the next one and changes nothing on the device; at the write pointer it returns the empty record.
\<close>

theorem meta_log_read:
  assumes dev: "reading_device be cont I" "I (zbd_be s)"
    and z: "zone_ok zs (meta_zones s ! ml_zone ml)"
    and log: "log_at (cont (zbd_be s)) (meta_zones s ! ml_zone ml) (ml_bs ml) (pre @ rest)"
      "read_pos ml = start (meta_zones s ! ml_zone ml) + of_nat (length (log_image (ml_bs ml) pre))"
    and ends: "rest = [] \<longrightarrow> wp (meta_zones s ! ml_zone ml) = read_pos ml"
  shows "\<exists>b. ReadRecord be ml s = (case rest of
        [] \<Rightarrow> Some (OK, [], ml, s\<lparr> zbd_be := b \<rparr>)
      | r # _ \<Rightarrow> Some (OK, r, ml\<lparr> read_pos := start (meta_zones s ! ml_zone ml)
          + of_nat (length (log_image (ml_bs ml) (pre @ [r]))) \<rparr>, s\<lparr> zbd_be := b \<rparr>))
    \<and> I b \<and> cont b = cont (zbd_be s)"
proof (cases rest)
  case Nil
  then have "ReadRecord be ml s = Some (OK, [], ml, s\<lparr> zbd_be := zbd_be s \<rparr>)"
    using ends by (simp add: ReadRecord_def ml_Read_def Let_def)
  with Nil dev(2) show ?thesis by (auto intro!: exI [of _ "zbd_be s"])
next
  case (Cons r post)
  have "log_at (cont (zbd_be s)) (meta_zones s ! ml_zone ml) (ml_bs ml) (pre @ r # post)"
    using log(1) Cons by simp
  from reading_device.ReadRecord_log [OF dev z this log(2)] show ?thesis using Cons by simp
qed

subsection \<open>A concrete log\<close>

definition demo_meta :: "simdev zbdlib zbd" where
  "demo_meta = demo_zbd\<lparr> meta_zones := [(demo_zones ! 3)\<lparr> start := 0, wp := 0, busy := True \<rparr>] \<rparr>"

definition demo_log :: metalog where
  "demo_log = new_AquaMetaLog demo_be 0 demo_meta"

lemma demo_add:
  "map_option (\<lambda>(st, s). (ok st, wp (meta_zones s ! 0), zl_read_f (zbd_be s), zl_read_direct_f (zbd_be s),
     start (meta_zones s ! 0), max_capacity (meta_zones s ! 0), capacity (meta_zones s ! 0)))
   (AddRecord demo_be demo_log [1, 2, 3] demo_meta) = Some (True, 12, 3, 3, 0, 48, 36)"
  by code_simp

lemma demo_log_facts:
  "0 \<le> zl_read_f (zbd_be demo_meta) \<and> 0 \<le> zl_read_direct_f (zbd_be demo_meta)"
  "ml_zone demo_log = 0" "ml_zone demo_log < length (meta_zones demo_meta)" "ml_bs demo_log = 4"
  "zone_ok 64 (meta_zones demo_meta ! ml_zone demo_log)" "capacity (meta_zones demo_meta ! ml_zone demo_log) = 48"
  "log_at c (meta_zones demo_meta ! ml_zone demo_log) (ml_bs demo_log) []"
  "unat (wp (meta_zones demo_meta ! ml_zone demo_log))
    = unat (start (meta_zones demo_meta ! ml_zone demo_log)) + length (log_image (ml_bs demo_log) [])"
  "record_fits (ml_bs demo_log) [1, 2, 3]" "read_pos demo_log = 0"
  by (simp_all add: demo_meta_def demo_zbd_def new_ZonedBlockDevice_def demo_dev_def demo_log_def
      new_AquaMetaLog_def GetBlockSize_def zbdlib_backend_def demo_zones_def zone_ok_def log_at_def
      bytes_at_def record_fits_def)

theorem meta_log_append_witness:
  "\<exists>st s. AddRecord demo_be demo_log [1, 2, 3] demo_meta = Some (st, s)
    \<and> log_at (sd_mem (zl_dev (zbd_be s))) (meta_zones s ! 0) 4 [[1, 2, 3]]"
proof -
  obtain st s where run: "AddRecord demo_be demo_log [1, 2, 3] demo_meta = Some (st, s)" "ok st"
    using demo_add by (auto simp: map_option_case split: option.splits)
  have "\<not> unat (capacity (meta_zones demo_meta ! ml_zone demo_log)) < length (record_buffer (ml_bs demo_log) [1, 2, 3])"
    using demo_log_facts by (simp add: length_record_buffer blocks_up_def)
  with meta_log_append [OF sim_reading.data_device_axioms demo_log_facts(1,3,5,7-9) run(1)] run demo_log_facts(2,4)
  show ?thesis by auto
qed

theorem meta_log_read_witness:
  "\<exists>st s b. AddRecord demo_be demo_log [1, 2, 3] demo_meta = Some (st, s)
    \<and> ReadRecord demo_be demo_log s = Some (OK, [1, 2, 3], demo_log\<lparr> read_pos := 12 \<rparr>, s\<lparr> zbd_be := b \<rparr>)"
proof -
  obtain st s where run: "AddRecord demo_be demo_log [1, 2, 3] demo_meta = Some (st, s)" "ok st"
    and inv: "0 \<le> zl_read_f (zbd_be s) \<and> 0 \<le> zl_read_direct_f (zbd_be s)"
    and z: "start (meta_zones s ! 0) = 0" "wp (meta_zones s ! 0) = 12" "max_capacity (meta_zones s ! 0) = 48"
      "capacity (meta_zones s ! 0) = 36"
    using demo_add by (auto simp: map_option_case split: option.splits)
  have "zone_ok 64 (meta_zones s ! ml_zone demo_log)" using z demo_log_facts(2) by (simp add: zone_ok_def)
  moreover have "log_at (sd_mem (zl_dev (zbd_be s))) (meta_zones s ! ml_zone demo_log) (ml_bs demo_log) ([] @ [[1, 2, 3]])"
    using sim_reading.AddRecord_log(1) [OF demo_log_facts(1,3,5,7-9) run] by simp
  moreover have "length (log_image (ml_bs demo_log) [[1, 2, 3]]) = 12"
    using demo_log_facts by (simp add: length_record_buffer blocks_up_def)
  ultimately show ?thesis
    using meta_log_read [OF sim_reading.reading_device_axioms inv, of 64 demo_log "[]" "[[1, 2, 3]]"] z run demo_log_facts
    by auto
qed

end
