(* ===== verification/Paths.thy ===== *)
theory Paths
  imports Prelude
begin

text \<open>
  Paths as byte strings, with the operations of \<open>std::filesystem::path\<close> that the file system uses
  (\<open>lexically_normal\<close>, \<open>operator/\<close>, \<open>parent_path\<close>) on a system whose separator is \<open>/\<close>, and the
  string helpers of \<open>fs/fs_aquafs.cc\<close>.
\<close>

definition slash :: byte where "slash = 47"

definition is_absolute :: "bytes \<Rightarrow> bool" where
  "is_absolute p = (case p of [] \<Rightarrow> False | c # _ \<Rightarrow> c = slash)"

definition dot :: bytes where "dot = [46]"
definition dotdot :: bytes where "dotdot = [46, 46]"

text \<open>The parts of a path between the separators.\<close>

fun split_path :: "bytes \<Rightarrow> bytes list" where
  "split_path [] = [[]]"
| "split_path (c # p) =
     (if c = slash then [] # split_path p
      else case split_path p of [] \<Rightarrow> [[c]] | x # xs \<Rightarrow> (c # x) # xs)"

text \<open>
  One part of a path during normalisation.  The state is the reversed list of the names that are
  kept and whether the path, cut here, ends in a separator: an empty part and a dot end the path
  in one, and so does a dot-dot that removes a name.
\<close>

definition norm_step :: "bool \<Rightarrow> bytes list \<times> bool \<Rightarrow> bytes \<Rightarrow> bytes list \<times> bool" where
  "norm_step absolute st part =
     (case st of (kept, _) \<Rightarrow>
       if part = [] \<or> part = dot then (kept, True)
       else if part = dotdot then
         (case kept of
            [] \<Rightarrow> if absolute then ([], True) else ([dotdot], False)
          | k # ks \<Rightarrow> if k = dotdot then (dotdot # kept, False) else (ks, True))
       else (part # kept, False))"

fun join_path :: "bytes list \<Rightarrow> bytes" where
  "join_path [] = []"
| "join_path [x] = x"
| "join_path (x # xs) = x @ [slash] @ join_path xs"

definition lexically_normal :: "bytes \<Rightarrow> bytes" where
  "lexically_normal p =
     (if p = [] then []
      else let absolute = is_absolute p;
               (kept, sep) = foldl (norm_step absolute) ([], False) (split_path p);
               body = join_path (rev kept) @ (if sep \<and> kept \<noteq> [] \<and> hd kept \<noteq> dotdot then [slash] else []) in
        if absolute then slash # body else if body = [] then dot else body)"

definition path_append :: "bytes \<Rightarrow> bytes \<Rightarrow> bytes" where
  "path_append p q =
     (if is_absolute q then q
      else if p \<noteq> [] \<and> last p \<noteq> slash then p @ [slash] @ q else p @ q)"

definition parent_path :: "bytes \<Rightarrow> bytes" where
  "parent_path p =
     (let dir = rev (dropWhile (\<lambda>c. c \<noteq> slash) (rev p));
          trimmed = rev (dropWhile (\<lambda>c. c = slash) (rev dir)) in
      if trimmed = [] then dir else trimmed)"

subsection \<open>Helpers of the file system\<close>

definition FormatPathLexically :: "bytes \<Rightarrow> bytes" where
  "FormatPathLexically filepath = path_append [slash] (lexically_normal filepath)"

definition with_separator_at_end :: "bytes \<Rightarrow> bytes" where
  "with_separator_at_end p = lexically_normal (path_append p [])"

definition string_starts_with :: "bytes \<Rightarrow> bytes \<Rightarrow> bool" where
  "string_starts_with s needle = (take (length needle) s = needle)"

definition ends_with :: "bytes \<Rightarrow> bytes \<Rightarrow> bool" where
  "ends_with v e = (length e \<le> length v \<and> take (length e) (rev v) = rev e)"

lemma ends_with_iff: "ends_with v e = (\<exists>p. v = p @ e)"
proof
  assume "ends_with v e"
  then have "rev v = rev e @ drop (length e) (rev v)"
    by (metis append_take_drop_id ends_with_def)
  then have "v = rev (drop (length e) (rev v)) @ e"
    by (metis rev_append rev_rev_ident)
  then show "\<exists>p. v = p @ e" by blast
qed (auto simp: ends_with_def)

subsection \<open>Normal names\<close>

text \<open>A name in normal form: absolute, its parts neither empty nor dots.\<close>

definition normal_part :: "bytes \<Rightarrow> bool" where
  "normal_part x = (x \<noteq> [] \<and> x \<noteq> dot \<and> x \<noteq> dotdot \<and> slash \<notin> set x)"

definition normal_name :: "bytes \<Rightarrow> bool" where
  "normal_name p = (\<exists>xs. xs \<noteq> [] \<and> (\<forall>x\<in>set xs. normal_part x) \<and> p = slash # join_path xs)"

lemma split_path_no_slash: "slash \<notin> set x \<Longrightarrow> split_path (x @ slash # p) = x # split_path p"
  by (induction x) auto

lemma split_path_last: "slash \<notin> set x \<Longrightarrow> split_path x = [x]"
  by (induction x) auto

lemma split_join:
  assumes "xs \<noteq> []" "\<forall>x\<in>set xs. slash \<notin> set x"
  shows "split_path (join_path xs) = xs"
  using assms by (induction xs rule: join_path.induct) (auto simp: split_path_no_slash split_path_last)

lemma norm_parts:
  assumes "\<forall>x\<in>set xs. normal_part x" "xs \<noteq> []"
  shows "foldl (norm_step a) (kept, b) xs = (rev xs @ kept, False)"
  using assms
proof (induction xs arbitrary: kept b)
  case (Cons x xs)
  have "norm_step a (kept, b) x = (x # kept, False)"
    using Cons.prems by (simp add: norm_step_def normal_part_def)
  with Cons show ?case by (cases "xs = []") auto
qed simp

text \<open>A normal name is what \<open>FormatPathLexically\<close> leaves alone.\<close>

lemma Format_normal [simp]:
  assumes "normal_name p"
  shows "FormatPathLexically p = p"
proof -
  obtain xs where xs: "xs \<noteq> []" "\<forall>x\<in>set xs. normal_part x" "p = slash # join_path xs"
    using assms by (auto simp: normal_name_def)
  have split: "split_path p = [] # xs"
    using split_join [OF xs(1)] xs(2) by (simp add: xs(3) normal_part_def)
  have abs: "is_absolute p" by (simp add: is_absolute_def xs(3))
  have "foldl (norm_step True) ([], False) (split_path p) = (rev xs, False)"
    using norm_parts [OF xs(2,1), of True "[]" True] by (simp add: split norm_step_def)
  then have "lexically_normal p = p"
    using abs by (simp add: lexically_normal_def xs(3))
  with abs show ?thesis by (simp add: FormatPathLexically_def path_append_def)
qed

lemma format_examples:
  "FormatPathLexically (str ''a/b'') = str ''/a/b''"
  "FormatPathLexically (str ''/a//b/./c'') = str ''/a/b/c''"
  "FormatPathLexically (str ''/a/../b'') = str ''/b''"
  "FormatPathLexically (str ''a/b/..'') = str ''/a/''"
  "FormatPathLexically (str ''.'') = str ''/.''"
  by code_simp+

end
