(* ===== verification/FileAppend.thy ===== *)
theory FileAppend
  imports ZoneFile ZbdInvariant
begin

text \<open>
  Appending to a file (\<open>ZoneFile::BufferedAppend\<close>, \<open>SparseAppend\<close> and \<open>Append\<close> of
  \<open>fs/io_aquafs.cc\<close>) adds exactly the given bytes to the data of the file, through any number of
  zone changes.  The locale \<open>metadata_writer\<close> is what the append paths rely on of the
  \<open>MetadataWriter\<close> callback: it leaves the data zones and the extents of the file alone.
\<close>

locale metadata_writer = zoned_device be cont inv
  for be :: "'b backend" and cont and inv +
  fixes pw :: "('b, 'm) persist"
    and winv :: "'m \<Rightarrow> 'b zbd \<Rightarrow> bool"
  assumes persist_state: "zbd_ok s \<Longrightarrow> winv m s \<Longrightarrow> pw f m s = Some (st, f', m', s')
      \<Longrightarrow> zbd_ok s' \<and> winv m' s' \<and> io_zones s' = io_zones s
        \<and> be_zone_sz be (zbd_be s') = be_zone_sz be (zbd_be s)
        \<and> be_block_sz be (zbd_be s') = be_block_sz be (zbd_be s)"
    and persist_cont: "zbd_ok s \<Longrightarrow> winv m s \<Longrightarrow> pw f m s = Some (st, f', m', s')
      \<Longrightarrow> i < length (io_zones s) \<Longrightarrow> unat (start (io_zones s ! i)) \<le> a
      \<Longrightarrow> a < unat (start (io_zones s ! i)) + unat (be_zone_sz be (zbd_be s))
      \<Longrightarrow> cont (zbd_be s') a = cont (zbd_be s) a"
    and persist_file: "pw f m s = Some (st, f', m', s')
      \<Longrightarrow> f' = f\<lparr> nr_synced_extents := nr_synced_extents f', m_time := m_time f' \<rparr>"
    and winv_stable: "winv m s \<Longrightarrow> zbd_ok s' \<Longrightarrow> meta_zones s' = meta_zones s
      \<Longrightarrow> map start (io_zones s') = map start (io_zones s)
      \<Longrightarrow> be_zone_sz be (zbd_be s') = be_zone_sz be (zbd_be s)
      \<Longrightarrow> be_block_sz be (zbd_be s') = be_block_sz be (zbd_be s) \<Longrightarrow> winv m s'"

text \<open>Every extent lies in the written part of its zone.\<close>

definition extents_below :: "ZoneExtent list \<Rightarrow> zone list \<Rightarrow> bool" where
  "extents_below es zs = (\<forall>e\<in>set es. ex_zone e < length zs
     \<and> unat (start (zs ! ex_zone e)) \<le> unat (ex_start e)
     \<and> unat (ex_start e) + unat (ex_length e) \<le> unat (wp (zs ! ex_zone e)))"

text \<open>The active zone of a file is where its next extent starts.\<close>

definition active_ok :: "zfile \<Rightarrow> zone list \<Rightarrow> bool" where
  "active_ok f zs = (\<forall>i. active_zone f = Some i \<longrightarrow> i < length zs \<and> extent_start f = wp (zs ! i))"

lemma extents_below_mono:
  assumes "extents_below es zs" "map start zs' = map start zs" "list_all2 (\<lambda>z z'. wp z \<le> wp z') zs zs'"
  shows "extents_below es zs'"
proof -
  have len: "length zs' = length zs" using assms(2) by (metis length_map)
  have z: "start (zs' ! j) = start (zs ! j)" "unat (wp (zs ! j)) \<le> unat (wp (zs' ! j))" if "j < length zs" for j
  proof -
    show "start (zs' ! j) = start (zs ! j)" using assms(2) len that by (metis nth_map)
    show "unat (wp (zs ! j)) \<le> unat (wp (zs' ! j))"
      using assms(3) that by (simp add: list_all2_conv_all_nth word_le_nat_alt)
  qed
  show ?thesis
    unfolding extents_below_def
  proof
    fix e
    assume "e \<in> set es"
    then have e: "ex_zone e < length zs" "unat (start (zs ! ex_zone e)) \<le> unat (ex_start e)"
      "unat (ex_start e) + unat (ex_length e) \<le> unat (wp (zs ! ex_zone e))"
      using assms(1) by (auto simp: extents_below_def)
    with z [OF e(1)] len show "ex_zone e < length zs' \<and> unat (start (zs' ! ex_zone e)) \<le> unat (ex_start e)
        \<and> unat (ex_start e) + unat (ex_length e) \<le> unat (wp (zs' ! ex_zone e))" by simp
  qed
qed

lemma extent_bytes_cong:
  assumes "\<And>a. unat (ex_start e) \<le> a \<Longrightarrow> a < unat (ex_start e) + unat (ex_length e) \<Longrightarrow> c a = c' a"
  shows "extent_bytes c e = extent_bytes c' e"
  using assms by (simp add: extent_bytes_def)

context zoned_device
begin

lemma extents_data_cong:
  assumes okz: "zbd_ok s" and below: "extents_below es (io_zones s)"
    and same: "\<And>j a. j < length (io_zones s) \<Longrightarrow> unat (start (io_zones s ! j)) \<le> a
      \<Longrightarrow> a < unat (wp (io_zones s ! j)) \<Longrightarrow> c a = c' a"
  shows "extents_data c es = extents_data c' es"
  unfolding extents_data_def
proof (intro arg_cong [of _ _ concat] map_cong refl extent_bytes_cong)
  fix e a
  assume "e \<in> set es" "unat (ex_start e) \<le> a" "a < unat (ex_start e) + unat (ex_length e)"
  with below same [of "ex_zone e" a] show "c a = c' a" by (auto simp: extents_below_def)
qed

text \<open>A successful append to zone \<open>i\<close>.\<close>

definition wrote :: "nat \<Rightarrow> bytes \<Rightarrow> 'a zbd \<Rightarrow> 'a zbd \<Rightarrow> bool" where
  "wrote i data s s1 = (zbd_ok s1 \<and> i < length (io_zones s)
     \<and> io_zones s1 = (io_zones s)[i := advance (length data) (io_zones s ! i)]
     \<and> length data \<le> unat (capacity (io_zones s ! i))
     \<and> meta_zones s1 = meta_zones s
     \<and> be_zone_sz be (zbd_be s1) = be_zone_sz be (zbd_be s)
     \<and> be_block_sz be (zbd_be s1) = be_block_sz be (zbd_be s)
     \<and> (\<forall>k < length data. cont (zbd_be s1) (unat (wp (io_zones s ! i)) + k) = data ! k)
     \<and> (\<forall>a. a < unat (wp (io_zones s ! i)) \<or> unat (wp (io_zones s ! i)) + length data \<le> a
         \<longrightarrow> cont (zbd_be s1) a = cont (zbd_be s) a))"

lemma append_loop_geometry:
  "append_loop be' ptr left z b n = Some r \<Longrightarrow> be' = be \<Longrightarrow>
    be_zone_sz be (fst (snd (snd r))) = be_zone_sz be b \<and> be_block_sz be (fst (snd (snd r))) = be_block_sz be b"
proof -
  let ?P = "\<lambda>be' ptr left z b n r. be' = be \<longrightarrow> be_zone_sz be (fst (snd (snd r))) = be_zone_sz be b
    \<and> be_block_sz be (fst (snd (snd r))) = be_block_sz be b"
  assume a: "append_loop be' ptr left z b n = Some r" and "be' = be"
  have "?P be' ptr left z b n r"
  proof (rule append_loop.raw_induct [where P = ?P, OF _ a], intro impI)
    fix loop be' ptr and left :: u32 and z b n r
    assume IH: "\<And>be' ptr left z b n r. loop be' ptr left z b n = Some r \<Longrightarrow> ?P be' ptr left z b n r"
      and body: "(if left = 0 then Some (OK, z, b, n)
        else let (ret, b') = be_Write be' (take (unat left) ptr) (wp z) b in
          if ret < 0 then Some (IOError (be_strerror be' (be_errno be' b')) [], z, b', n)
          else loop be' (drop (nat ret) ptr) (left - word_of_int ret)
            (z\<lparr> wp := wp z + word_of_int ret, capacity := capacity z - word_of_int ret \<rparr>)
            b' (n + word_of_int ret)) = Some r"
      and be: "be' = be"
    obtain ret b' where w: "be_Write be (take (unat left) ptr) (wp z) b = (ret, b')" by fastforce
    then have "be_zone_sz be b' = be_zone_sz be b" "be_block_sz be b' = be_block_sz be b"
      using geometry(1,2) [of "take (unat left) ptr" "wp z" b] by simp_all
    then show "be_zone_sz be (fst (snd (snd r))) = be_zone_sz be b
        \<and> be_block_sz be (fst (snd (snd r))) = be_block_sz be b"
      using body w be IH [of be _ _ _ b' _ r] by (auto split: if_splits)
  qed
  with \<open>be' = be\<close> show ?thesis by simp
qed

lemma io_Append_wrote:
  assumes okz: "zbd_ok s" and i: "i < length (io_zones s)" and len: "length data < 2 ^ 32"
    and ap: "io_Append be i data s = Some (st, s1)" "ok st"
  shows "wrote i data s s1"
proof -
  let ?z = "io_zones s ! i" and ?zs = "be_zone_sz be (zbd_be s)"
  have z: "zone_ok ?zs ?z" by (rule zbd_ok_zone [OF okz i])
  have b: "inv (zbd_be s)" using okz by (simp add: zbd_ok_def)
  obtain z1 b1 n where a: "Append be data ?z (zbd_be s) = Some (st, z1, b1, n)"
    and s1: "s1 = AddBytesWritten n (set_io i z1 (s\<lparr> zbd_be := b1 \<rparr>))"
    using ap(1) by (auto simp: io_Append_def split: option.splits)
  have geo: "be_zone_sz be b1 = ?zs" "be_block_sz be b1 = be_block_sz be (zbd_be s)"
    using a append_loop_geometry [of be data "of_nat (length data)" ?z "zbd_be s" 0 "(st, z1, b1, n)"]
    by (auto simp: Append_def Let_def split: if_splits)
  have fit: "\<not> unat (capacity ?z) < length data" and
    app: "appended data (length data) ?z (zbd_be s) 0 (st, z1, b1, n)"
    using Append_cases [OF a b z len] ap(2) by (auto split: if_splits)
  then have z1: "z1 = advance (length data) ?z" "inv b1"
    and data: "\<forall>k < length data. cont b1 (unat (wp ?z) + k) = data ! k"
      "\<forall>a. a < unat (wp ?z) \<or> unat (wp ?z) + length data \<le> a \<longrightarrow> cont b1 a = cont (zbd_be s) a"
    using ap(2) by (auto simp: appended_def)
  have io: "io_zones s1 = (io_zones s)[i := z1]" "zbd_be s1 = b1" "meta_zones s1 = meta_zones s"
    by (simp_all add: s1 AddBytesWritten_def set_io_def)
  have "zone_ok ?zs z1" unfolding z1(1) by (rule zone_ok_advance [OF z]) (use fit in simp)
  moreover have "map start (io_zones s1) = map start (io_zones s)"
    unfolding io(1) by (rule map_update_same [OF i]) (simp add: z1(1))
  ultimately have "zbd_ok s1"
    using okz z1(2) geo io unfolding zbd_ok_def by (auto dest: set_update_subset_insert [THEN subsetD])
  then show ?thesis
    using i fit geo data io z1(1) by (simp add: wrote_def)
qed

lemma wrote_zone:
  assumes "zbd_ok s" "wrote i data s s1"
  shows "unat (wp (io_zones s1 ! i)) = unat (wp (io_zones s ! i)) + length data"
    "map start (io_zones s1) = map start (io_zones s)"
    "list_all2 (\<lambda>z z'. wp z \<le> wp z') (io_zones s) (io_zones s1)"
proof -
  have i: "i < length (io_zones s)" and io: "io_zones s1 = (io_zones s)[i := advance (length data) (io_zones s ! i)]"
    and fit: "length data \<le> unat (capacity (io_zones s ! i))"
    using assms(2) by (simp_all add: wrote_def)
  show w: "unat (wp (io_zones s1 ! i)) = unat (wp (io_zones s ! i)) + length data"
    using unat_advance(1) [OF fit zone_ok_room [OF zbd_ok_zone [OF assms(1) i]]] i by (simp add: io)
  show "map start (io_zones s1) = map start (io_zones s)"
    unfolding io by (rule map_update_same [OF i]) simp
  show "list_all2 (\<lambda>z z'. wp z \<le> wp z') (io_zones s) (io_zones s1)"
    unfolding io using w i by (intro list_update_all2 list_all2_refl) (auto simp: word_le_nat_alt io)
qed

lemma wrote_extents:
  assumes okz: "zbd_ok s" and w: "wrote i data s s1" and below: "extents_below es (io_zones s)"
  shows "extents_data (cont (zbd_be s1)) es = extents_data (cont (zbd_be s)) es"
    "extents_below es (io_zones s1)"
proof -
  have i: "i < length (io_zones s)" and fit: "length data \<le> unat (capacity (io_zones s ! i))"
    and frame: "\<And>a. a < unat (wp (io_zones s ! i)) \<or> unat (wp (io_zones s ! i)) + length data \<le> a
      \<Longrightarrow> cont (zbd_be s1) a = cont (zbd_be s) a"
    using w by (auto simp: wrote_def)
  let ?zs = "unat (be_zone_sz be (zbd_be s))"
  show "extents_data (cont (zbd_be s1)) es = extents_data (cont (zbd_be s)) es"
  proof (rule extents_data_cong [OF okz below])
    fix j a
    assume j: "j < length (io_zones s)" and a: "unat (start (io_zones s ! j)) \<le> a" "a < unat (wp (io_zones s ! j))"
    show "cont (zbd_be s1) a = cont (zbd_be s) a"
    proof (cases "j = i")
      case False
      have "unat (wp (io_zones s ! j)) \<le> unat (start (io_zones s ! j)) + ?zs"
        "unat (start (io_zones s ! i)) \<le> unat (wp (io_zones s ! i))"
        "unat (wp (io_zones s ! i)) + length data \<le> unat (start (io_zones s ! i)) + ?zs"
        using zbd_ok_zone [OF okz j] zbd_ok_zone [OF okz i] fit by (auto simp: zone_ok_def)
      then show ?thesis
        using zbd_ok_disjoint [OF okz j i False] a by (intro frame) linarith
    qed (use a frame in simp)
  qed
  show "extents_below es (io_zones s1)"
    by (rule extents_below_mono [OF below wrote_zone(2,3) [OF okz w]])
qed

end

subsection \<open>Recording an extent\<close>

lemma extents_below_eq:
  assumes "map start zs' = map start zs" "map wp zs' = map wp zs"
  shows "extents_below es zs' = extents_below es zs"
proof -
  have len: "length zs' = length zs" using assms(1) by (metis length_map)
  have "start (zs' ! j) = start (zs ! j)" "wp (zs' ! j) = wp (zs ! j)" if "j < length zs" for j
    using assms len that by (metis nth_map)+
  with len show ?thesis unfolding extents_below_def by auto
qed

lemma nth_add_used:
  assumes "i < length (io_zones s)"
  shows "wp (io_zones (add_used i n s) ! j) = wp (io_zones s ! j)"
    "capacity (io_zones (add_used i n s) ! j) = capacity (io_zones s ! j)"
    "start (io_zones (add_used i n s) ! j) = start (io_zones s ! j)"
  using assms by (auto simp: add_used_def set_io_def nth_list_update)

context zoned_device
begin

lemma zbd_ok_add_used [simp]:
  assumes "i < length (io_zones s)"
  shows "zbd_ok (add_used i n s) = zbd_ok s"
proof -
  have "zone_ok zs (io_zones (add_used i n s) ! j) = zone_ok zs (io_zones s ! j)" for zs j
    using assms by (cases "j = i") (auto simp: add_used_def set_io_def)
  then show ?thesis by (simp add: zbd_ok_def all_set_conv_all_nth)
qed

lemma push_written_step:
  assumes okz: "zbd_ok s" and w: "wrote i data s s1" and below: "extents_below (extents f) (io_zones s)"
    and es: "extent_start f = wp (io_zones s ! i)" and len: "unat ofst + unat len \<le> length data"
    and push: "push_written i ofst len f s1 = (f2, s2)"
  shows "zbd_ok s2" "extents_below (extents f2) (io_zones s2)"
    "extents_data (cont (zbd_be s2)) (extents f2)
      = extents_data (cont (zbd_be s)) (extents f) @ take (unat len) (drop (unat ofst) data)"
    "extent_start f2 = wp (io_zones s2 ! i)"
proof -
  let ?e = "\<lparr> ex_start = extent_start f + ofst, ex_length = len, ex_zone = i \<rparr>"
  have i: "i < length (io_zones s)" "length (io_zones s1) = length (io_zones s)"
    and okz1: "zbd_ok s1" and fit: "length data \<le> unat (capacity (io_zones s ! i))"
    and stored: "\<And>k. k < length data \<Longrightarrow> cont (zbd_be s1) (unat (wp (io_zones s ! i)) + k) = data ! k"
    using w by (auto simp: wrote_def)
  have f2: "extents f2 = extents f @ [?e]" "extent_start f2 = wp (io_zones s1 ! i)" and s2: "s2 = add_used i len s1"
    using push by (auto simp: push_written_def)
  have room: "unat (wp (io_zones s ! i)) + unat (capacity (io_zones s ! i)) < 2 ^ 64"
    by (rule zone_ok_room [OF zbd_ok_zone [OF okz i(1)]])
  have st: "unat (ex_start ?e) = unat (wp (io_zones s ! i)) + unat ofst"
    unfolding es using room fit len by (simp add: unat_add_no_wrap)
  show "zbd_ok s2" using okz1 i by (simp add: s2)
  show "extent_start f2 = wp (io_zones s2 ! i)" using i by (simp add: f2 s2 nth_add_used)
  have "start (io_zones s1 ! i) = start (io_zones s ! i)"
    using w i by (simp add: wrote_def)
  then have "extents_below [?e] (io_zones s1)"
    using st len wrote_zone(1) [OF okz w] zbd_ok_zone [OF okz i(1)] i
    by (simp add: extents_below_def zone_ok_def)
  moreover have "extents_below (extents f) (io_zones s1)" by (rule wrote_extents(2) [OF okz w below])
  ultimately have "extents_below (extents f2) (io_zones s1)" by (auto simp: f2 extents_below_def)
  then show "extents_below (extents f2) (io_zones s2)"
    unfolding s2 by (subst extents_below_eq [of _ "io_zones s1"]) simp_all
  have "extent_bytes (cont (zbd_be s1)) ?e = take (unat len) (drop (unat ofst) data)"
  proof (rule nth_equalityI)
    fix k
    assume "k < length (extent_bytes (cont (zbd_be s1)) ?e)"
    then have k: "k < unat len" by simp
    then show "extent_bytes (cont (zbd_be s1)) ?e ! k = take (unat len) (drop (unat ofst) data) ! k"
      using stored [of "unat ofst + k"] len st by (simp add: extent_bytes_def add.assoc)
  qed (use len in simp)
  then show "extents_data (cont (zbd_be s2)) (extents f2)
      = extents_data (cont (zbd_be s)) (extents f) @ take (unat len) (drop (unat ofst) data)"
    using wrote_extents(1) [OF okz w below] by (simp add: f2 s2)
qed

lemma grown_extents:
  assumes "grown s0 s" "extents_below es (io_zones s0)"
  shows "extents_below es (io_zones s)" "extents_data (cont (zbd_be s)) es = extents_data (cont (zbd_be s0)) es"
  using assms extents_below_mono [of es "io_zones s0" "io_zones s"] by (auto simp: grown_def)

lemma grown_io_Close:
  assumes "zbd_ok s" "i < length (io_zones s)" "io_Close be i s = (st, s1)"
  shows "grown s s1" "wp (io_zones s1 ! j) = wp (io_zones s ! j)"
proof -
  obtain z b where c: "Close be (io_zones s ! i) (zbd_be s) = (st, z, b)"
    and s1: "s1 = set_io i z (s\<lparr> zbd_be := b \<rparr>)"
    using assms(3) by (auto simp: io_Close_def split: prod.splits)
  have z: "z = io_zones s ! i" by (rule Close_zone [OF c])
  have b: "b = zbd_be s \<or> b = snd (be_Close be (start (io_zones s ! i)) (zbd_be s))"
    using c by (auto simp: Close_def Let_def split: prod.splits if_splits)
  have inv: "inv (zbd_be s)" using assms(1) by (simp add: zbd_ok_def)
  have "inv b" "cont b = cont (zbd_be s)" "be_zone_sz be b = be_zone_sz be (zbd_be s)"
    "be_block_sz be b = be_block_sz be (zbd_be s)"
    using b close_inv [OF inv] close_cont [OF inv] geometry(9,10) inv by auto
  then show "grown s s1"
    using grown_update [OF grown_refl [OF assms(1)] assms(2), of z b] zbd_ok_zone [OF assms(1,2)]
    by (simp add: s1 z set_io_def)
  show "wp (io_zones s1 ! j) = wp (io_zones s ! j)" by (simp add: s1 z set_io_def)
qed

text \<open>A state whose zones differ only in busy flags has grown trivially.\<close>

lemma grown_Release: "grown s0 s \<Longrightarrow> i < length (io_zones s)
    \<Longrightarrow> grown s0 (set_io i (snd (Release (io_zones s ! i))) s)"
  using grow.P_busy [of s0 s i False] by (auto simp: Release_def set_io_def)

lemma CloseActiveZone_grown:
  assumes "zbd_ok s" "active_ok f (io_zones s)" "CloseActiveZone be f s = (st, f', s')"
  shows "grown s s'" "extents f' = extents f" "file_size f' = file_size f" "active_zone f' = None"
    "zf_lifetime f' = zf_lifetime f" "file_id f' = file_id f"
proof -
  have *: "grown s s' \<and> extents f' = extents f \<and> file_size f' = file_size f \<and> active_zone f' = None
    \<and> zf_lifetime f' = zf_lifetime f \<and> file_id f' = file_id f"
  proof (cases "active_zone f")
    case None
    then show ?thesis using assms grown_refl by (simp add: CloseActiveZone_def)
  next
    case (Some i)
    then have i: "i < length (io_zones s)" using assms(2) by (simp add: active_ok_def)
    obtain st1 s1 where c: "io_Close be i s = (st1, s1)" by fastforce
    have g1: "grown s s1" by (rule grown_io_Close [OF assms(1) i c])
    have "length (io_zones s1) = length (io_zones s)" using g1 unfolding grown_def by (metis length_map)
    then have g2: "grown s (set_io i (snd (Release (io_zones s1 ! i))) s1)"
      using grown_Release [OF g1] i by simp
    from grow.P_put(1) [OF g2] grow.P_put(2) [OF grow.P_put(1) [OF g2]] g2 show ?thesis
      using assms(3) Some c by (auto simp: CloseActiveZone_def Let_def ReleaseActiveZone_def split: if_splits)
  qed
  then show "grown s s'" "extents f' = extents f" "file_size f' = file_size f" "active_zone f' = None"
    "zf_lifetime f' = zf_lifetime f" "file_id f' = file_id f" by auto
qed

end

subsection \<open>Buffers\<close>

lemma unat_min_capacity: "unat (min_capacity wr cap) = min (unat wr) (unat cap)"
proof (cases "ucast wr > cap")
  case True
  then have lt: "unat cap < unat wr" by (simp add: word_less_nat_alt)
  then have "unat cap < 2 ^ LENGTH(32)" using unat_lt [of wr] by simp
  then have "unat (ucast cap :: u32) = unat cap"
    by (simp add: unsigned_ucast_eq take_bit_nat_eq_self)
  with True lt show ?thesis by (simp add: min_capacity_def)
next
  case False
  then show ?thesis by (simp add: min_capacity_def word_less_nat_alt)
qed

lemma pad_size_less: "blk \<noteq> 0 \<Longrightarrow> unat (pad_size blk wr) < unat blk"
proof -
  assume b: "blk \<noteq> 0"
  then have m: "unat (wr mod blk) < unat blk" by (simp add: unat_mod unat_gt_0)
  show ?thesis
  proof (cases "wr mod blk = 0")
    case True
    then show ?thesis using b by (simp add: pad_size_def unat_gt_0)
  next
    case False
    then have "0 < unat (wr mod blk)" by (simp add: unat_gt_0)
    with False m show ?thesis by (simp add: pad_size_def Let_def unat_sub_no_wrap)
  qed
qed

lemma take_buf_zero: "n \<le> length buf \<Longrightarrow> take (n + p) (buf_zero n p buf) = take n buf @ replicate p 0"
  by (simp add: buf_zero_def)

lemma buf_zero_0 [simp]: "buf_zero n 0 buf = buf"
  by (simp add: buf_zero_def)

lemma length_buf_zero: "length buf \<le> length (buf_zero n p buf)"
  by (simp add: buf_zero_def)

context metadata_writer
begin

text \<open>A file and the device in a consistent state.\<close>

definition file_ok :: "zfile \<Rightarrow> 'm \<Rightarrow> 'b zbd \<Rightarrow> bool" where
  "file_ok f m s = (zbd_ok s \<and> winv m s \<and> extents_below (extents f) (io_zones s) \<and> active_ok f (io_zones s))"

definition file_data :: "zfile \<Rightarrow> 'b zbd \<Rightarrow> bytes" where
  "file_data f s = extents_data (cont (zbd_be s)) (extents f)"

lemma winv_grown: "winv m s \<Longrightarrow> grown s s' \<Longrightarrow> winv m s'"
  using winv_stable [of m s s'] by (auto simp: grown_def)

lemma grown_file:
  assumes "file_ok f m s" "grown s s'" "extents f' = extents f" "active_zone f' = None"
  shows "file_ok f' m s'" "file_data f' s' = file_data f s"
  using assms grown_extents [OF assms(2), of "extents f"] winv_grown [OF _ assms(2), of m]
  by (auto simp: file_ok_def file_data_def active_ok_def grown_def)

lemma persist_file_ok:
  assumes "zbd_ok s" "winv m s" "extents_below (extents f) (io_zones s)" "active_ok f (io_zones s)"
    and p: "pw f m s = Some (st, f', m', s')"
  shows "file_ok f' m' s'" "file_data f' s' = file_data f s" "extents f' = extents f"
    "file_size f' = file_size f" "active_zone f' = active_zone f" "extent_start f' = extent_start f"
    "be_block_sz be (zbd_be s') = be_block_sz be (zbd_be s)"
proof -
  note st = persist_state [OF assms(1,2) p]
  obtain k t where f': "f' = f\<lparr> nr_synced_extents := k, m_time := t \<rparr>" using persist_file [OF p] by blast
  then show "extents f' = extents f" "file_size f' = file_size f" "active_zone f' = active_zone f"
    "extent_start f' = extent_start f" by simp_all
  show "file_ok f' m' s'" using st assms(3,4) f' by (simp add: file_ok_def active_ok_def)
  show "be_block_sz be (zbd_be s') = be_block_sz be (zbd_be s)" using st by simp
  have "extents_data (cont (zbd_be s')) (extents f) = extents_data (cont (zbd_be s)) (extents f)"
  proof (rule extents_data_cong [OF assms(1,3)])
    fix j a
    assume j: "j < length (io_zones s)" and a: "unat (start (io_zones s ! j)) \<le> a" "a < unat (wp (io_zones s ! j))"
    have "unat (wp (io_zones s ! j)) \<le> unat (start (io_zones s ! j)) + unat (be_zone_sz be (zbd_be s))"
      using zbd_ok_zone [OF assms(1) j] by (simp add: zone_ok_def)
    with a show "cont (zbd_be s') a = cont (zbd_be s) a"
      by (intro persist_cont [OF assms(1,2) p j]) simp_all
  qed
  then show "file_data f' s' = file_data f s" by (simp add: file_data_def f')
qed

lemma AllocateNewZone_file_ok:
  assumes "file_ok f m s" "active_zone f = None"
    and a: "AllocateNewZone be pw f m s = Some (st, f', m', s')"
  shows "file_ok f' m' s'" "file_data f' s' = file_data f s" "extents f' = extents f"
    "file_size f' = file_size f" "be_block_sz be (zbd_be s') = be_block_sz be (zbd_be s)"
proof -
  obtain st1 zn s1 where al: "AllocateIOZone be (zf_lifetime f) (io_type f) s = Some (st1, zn, s1)"
    using a by (auto simp: AllocateNewZone_def split: option.splits)
  have okz: "zbd_ok s" using assms(1) by (simp add: file_ok_def)
  have g: "grown s s1" by (rule grow.P_AllocateIOZone [OF al grown_refl [OF okz]])
  note g1 = grown_file [OF assms(1) g refl assms(2)]
  have blk: "be_block_sz be (zbd_be s1) = be_block_sz be (zbd_be s)" using g by (simp add: grown_def)
  show "file_ok f' m' s'" "file_data f' s' = file_data f s" "extents f' = extents f"
    "file_size f' = file_size f" "be_block_sz be (zbd_be s') = be_block_sz be (zbd_be s)"
  proof -
    have *: "file_ok f' m' s' \<and> file_data f' s' = file_data f s \<and> extents f' = extents f
      \<and> file_size f' = file_size f \<and> be_block_sz be (zbd_be s') = be_block_sz be (zbd_be s)"
    proof (cases "ok st1 \<and> zn \<noteq> None")
      case False
      then have "f' = f" "m' = m" "s' = s1"
        using a al by (auto simp: AllocateNewZone_def split: if_splits)
      then show ?thesis using g1 blk by simp
    next
      case True
      then obtain i where zn: "zn = Some i" by auto
      let ?f = "(SetActiveZone i f)\<lparr> extent_start := wp (io_zones s1 ! i), extent_filepos := file_size f \<rparr>"
      have p: "pw ?f m s1 = Some (st, f', m', s')"
        using a al True zn by (simp add: AllocateNewZone_def PersistMetadata_def)
      have "alloc_result (zf_lifetime f) s (st1, zn, s1)" by (rule AllocateIOZone_result [OF al])
      then have i: "i < length (io_zones s1)" by (auto simp: alloc_result_def zn handed_out_def)
      have pre: "zbd_ok s1" "winv m s1" "extents_below (extents ?f) (io_zones s1)" "active_ok ?f (io_zones s1)"
        using g1(1) i by (simp_all add: file_ok_def active_ok_def SetActiveZone_def)
      note p' = persist_file_ok [OF pre p]
      have "file_data ?f s1 = file_data f s1" by (simp add: file_data_def SetActiveZone_def)
      then show ?thesis using p' g1(2) blk by (simp add: SetActiveZone_def)
    qed
    then show "file_ok f' m' s'" "file_data f' s' = file_data f s" "extents f' = extents f"
      "file_size f' = file_size f" "be_block_sz be (zbd_be s') = be_block_sz be (zbd_be s)" by simp_all
  qed
qed

lemma CloseActiveZone_file_ok:
  assumes "file_ok f m s" "CloseActiveZone be f s = (st, f', s')"
  shows "file_ok f' m s'" "file_data f' s' = file_data f s" "active_zone f' = None"
    "extents f' = extents f" "file_size f' = file_size f" "be_block_sz be (zbd_be s') = be_block_sz be (zbd_be s)"
proof -
  have "zbd_ok s" "active_ok f (io_zones s)" using assms(1) by (simp_all add: file_ok_def)
  note c = CloseActiveZone_grown [OF this assms(2)]
  show "file_ok f' m s'" "file_data f' s' = file_data f s"
    using grown_file [OF assms(1) c(1,2,4)] by simp_all
  show "active_zone f' = None" "extents f' = extents f" "file_size f' = file_size f" by (rule c)+
  show "be_block_sz be (zbd_be s') = be_block_sz be (zbd_be s)" using c(1) by (simp add: grown_def)
qed

lemma ensure_zone_file_ok:
  assumes "file_ok f m s" "ensure_zone be pw f m s = Some (st, f', m', s')"
  shows "file_ok f' m' s'" "file_data f' s' = file_data f s" "extents f' = extents f"
    "file_size f' = file_size f" "be_block_sz be (zbd_be s') = be_block_sz be (zbd_be s)"
  using assms AllocateNewZone_file_ok [OF assms(1), of st f' m' s']
  by (auto simp: ensure_zone_def split: if_splits)

lemma persist_sparse: "pw f m s = Some (st, f', m', s') \<Longrightarrow> is_sparse f' = is_sparse f"
  by (drule persist_file) (erule ssubst, simp)

lemma AllocateNewZone_sparse:
  "AllocateNewZone be pw f m s = Some (st, f', m', s') \<Longrightarrow> is_sparse f' = is_sparse f"
  by (auto simp: AllocateNewZone_def PersistMetadata_def SetActiveZone_def dest!: persist_sparse
      split: option.splits if_splits)

lemma CloseActiveZone_sparse: "CloseActiveZone be f s = (st, f', s') \<Longrightarrow> is_sparse f' = is_sparse f"
  by (auto simp: CloseActiveZone_def ReleaseActiveZone_def Let_def split: option.splits if_splits prod.splits)

lemma ensure_zone_sparse:
  "ensure_zone be pw f m s = Some (st, f', m', s') \<Longrightarrow> is_sparse f' = is_sparse f"
  by (auto simp: ensure_zone_def dest: AllocateNewZone_sparse split: if_splits)

end

subsection \<open>Buffered appends\<close>

context metadata_writer
begin

lemma write_block:
  assumes fok: "file_ok f m s" and i: "active_zone f = Some i" and len: "length data < 2 ^ 32"
    and ap: "io_Append be i data s = Some (st, s1)" "ok st"
    and push: "push_written i ofst n f s1 = (f2, s2)" and n: "unat ofst + unat n \<le> length data"
  shows "file_ok f2 m s2" "file_data f2 s2 = file_data f s @ take (unat n) (drop (unat ofst) data)"
    "file_size f2 = file_size f + n" "active_zone f2 = Some i"
    "be_block_sz be (zbd_be s2) = be_block_sz be (zbd_be s)"
    "unat (capacity (io_zones s2 ! i)) + length data = unat (capacity (io_zones s ! i))"
proof -
  have okz: "zbd_ok s" and w: "winv m s" and below: "extents_below (extents f) (io_zones s)"
    and act: "i < length (io_zones s)" "extent_start f = wp (io_zones s ! i)"
    using fok i by (auto simp: file_ok_def active_ok_def)
  have wr: "wrote i data s s1" by (rule io_Append_wrote [OF okz act(1) len ap])
  note step = push_written_step [OF okz wr below act(2) n push]
  have s2: "s2 = add_used i n s1" and f2: "file_size f2 = file_size f + n" "active_zone f2 = active_zone f"
    using push by (auto simp: push_written_def)
  then show "file_size f2 = file_size f + n" "active_zone f2 = Some i" using i by simp_all
  have len1: "length (io_zones s1) = length (io_zones s)" using wr by (simp add: wrote_def)
  have same: "meta_zones s2 = meta_zones s" "map start (io_zones s2) = map start (io_zones s)"
    "be_zone_sz be (zbd_be s2) = be_zone_sz be (zbd_be s)" "be_block_sz be (zbd_be s2) = be_block_sz be (zbd_be s)"
    using wr wrote_zone(2) [OF okz wr] by (simp_all add: s2 wrote_def)
  then show "be_block_sz be (zbd_be s2) = be_block_sz be (zbd_be s)" by simp
  have "winv m s2" by (rule winv_stable [OF w step(1) same])
  then show "file_ok f2 m s2"
    using step act(1) len1 f2(2) i by (simp add: file_ok_def active_ok_def s2)
  show "file_data f2 s2 = file_data f s @ take (unat n) (drop (unat ofst) data)"
    using step(3) by (simp add: file_data_def)
  have fit: "length data \<le> unat (capacity (io_zones s ! i))" using wr by (simp add: wrote_def)
  have "capacity (io_zones s2 ! i) = capacity (advance (length data) (io_zones s ! i))"
    using wr act(1) len1 by (simp add: s2 nth_add_used wrote_def)
  then show "unat (capacity (io_zones s2 ! i)) + length data = unat (capacity (io_zones s ! i))"
    using unat_advance(2) [OF fit zone_ok_room [OF zbd_ok_zone [OF okz act(1)]]] fit by simp
qed

text \<open>What an append of \<open>data\<close> has done when it has succeeded.\<close>

definition appended_data :: "bytes \<Rightarrow> zfile \<Rightarrow> 'b zbd \<Rightarrow> status \<times> bytes \<times> zfile \<times> 'm \<times> 'b zbd \<Rightarrow> bool" where
  "appended_data data f s r = (case r of (st, buf', f', m', s') \<Rightarrow>
     ok st \<longrightarrow> file_ok f' m' s' \<and> file_data f' s' = file_data f s @ data
       \<and> file_size f' = file_size f + of_nat (length data)
       \<and> is_sparse f' = is_sparse f \<and> GetBlockSize be s' = GetBlockSize be s)"

lemma appended_data_trans:
  assumes "file_data f2 s2 = file_data f s @ d1" "file_size f2 = file_size f + of_nat (length d1)"
    "is_sparse f2 = is_sparse f" "GetBlockSize be s2 = GetBlockSize be s" "appended_data d2 f2 s2 r"
  shows "appended_data (d1 @ d2) f s r"
  using assms by (auto simp: appended_data_def add.assoc split: prod.splits)

lemma buffered_block:
  assumes fok: "file_ok f m s" and i: "active_zone f = Some i" and blk: "GetBlockSize be s \<noteq> 0"
    and left: "unat left + unat (GetBlockSize be s) < 2 ^ 32" "unat left \<le> length buf"
  defines "wr \<equiv> min_capacity left (capacity (io_zones s ! i))"
  defines "pad \<equiv> pad_size (GetBlockSize be s) wr"
  defines "buf1 \<equiv> buf_zero (unat wr) (unat pad) buf"
  assumes ap: "io_Append be i (take (unat (wr + pad)) buf1) s = Some (st, s1)" "ok st"
    and push: "push_written i 0 (ucast wr) f s1 = (f2, s2)"
  shows "file_ok f2 m s2" "file_data f2 s2 = file_data f s @ take (unat wr) buf"
    "file_size f2 = file_size f + of_nat (length (take (unat wr) buf))" "active_zone f2 = Some i"
    "GetBlockSize be s2 = GetBlockSize be s" "unat (left - wr) = unat left - unat wr" "unat wr \<le> unat left"
    "left - wr \<noteq> 0 \<Longrightarrow> pad = 0 \<and> capacity (io_zones s2 ! i) = 0"
proof -
  have wr: "unat wr = min (unat left) (unat (capacity (io_zones s ! i)))"
    unfolding wr_def by (rule unat_min_capacity)
  have pad: "unat pad < unat (GetBlockSize be s)" unfolding pad_def by (rule pad_size_less [OF blk])
  have sum: "unat (wr + pad) = unat wr + unat pad"
    using wr pad left by (intro unat_add_no_wrap) simp
  have wl: "unat wr \<le> length buf" using wr left by simp
  have data: "take (unat (wr + pad)) buf1 = take (unat wr) buf @ replicate (unat pad) 0"
    unfolding buf1_def sum by (rule take_buf_zero [OF wl])
  let ?d = "take (unat wr) buf @ replicate (unat pad) 0"
  have len: "length ?d = unat wr + unat pad" using wl by simp
  then have lt: "length ?d < 2 ^ 32" using sum unat_lt [of "wr + pad"] by simp
  have n: "unat (0 :: u64) + unat (ucast wr :: u64) \<le> length ?d" using len by simp
  note b = write_block [OF fok i lt ap [unfolded data] push n]
  show "file_ok f2 m s2" "active_zone f2 = Some i" "GetBlockSize be s2 = GetBlockSize be s"
    using b(1,4,5) by (simp_all add: GetBlockSize_def)
  show "file_data f2 s2 = file_data f s @ take (unat wr) buf" using b(2) wl by simp
  show "file_size f2 = file_size f + of_nat (length (take (unat wr) buf))"
    using b(3) wl by (simp add: min.absorb2)
  show le: "unat wr \<le> unat left" using wr by simp
  then show sub: "unat (left - wr) = unat left - unat wr" by (rule unat_sub_no_wrap)
  assume "left - wr \<noteq> 0"
  then have "unat wr < unat left" using sub le by (metis diff_is_0_eq le_neq_implies_less unat_eq_0)
  then have "unat wr = unat (capacity (io_zones s ! i))" using wr by simp
  then have "unat pad = 0" "unat (capacity (io_zones s2 ! i)) = 0" using b(6) len by simp_all
  then show "pad = 0 \<and> capacity (io_zones s2 ! i) = 0" by (simp add: unat_eq_0)
qed

lemma buffered_append_loop_data:
  assumes "buffered_append_loop be pw buf left f m s = Some r"
    and "file_ok f m s" "GetBlockSize be s = blk" "blk \<noteq> 0" "unat left + unat blk < 2 ^ 32" "unat left \<le> length buf"
  shows "appended_data (take (unat left) buf) f s r"
proof -
  let ?P = "\<lambda>be' pw' buf left f m s r. be' = be \<longrightarrow> pw' = pw \<longrightarrow> file_ok f m s \<longrightarrow> GetBlockSize be s = blk
    \<longrightarrow> unat left + unat blk < 2 ^ 32 \<longrightarrow> unat left \<le> length buf \<longrightarrow> appended_data (take (unat left) buf) f s r"
  have "?P be pw buf left f m s r"
  proof (rule buffered_append_loop.raw_induct [where P = ?P, OF _ assms(1)], intro impI, goal_cases)
    case (1 loop be' pw' buf left f m s r)
    note IH = 1(1) [of be pw _ "left - min_capacity left (capacity (io_zones s ! the (active_zone f)))" _ _ _ r]
    have fok: "file_ok f m s" and be: "be' = be" "pw' = pw" and blk: "GetBlockSize be s = blk"
      and left: "unat left + unat blk < 2 ^ 32" "unat left \<le> length buf"
      using 1 by simp_all
    show "appended_data (take (unat left) buf) f s r"
    proof (cases "left = 0 \<or> active_zone f = None")
      case True
      then show ?thesis using 1(2) fok be by (cases "left = 0") (auto simp: appended_data_def)
    next
      case False
      then obtain i where i: "active_zone f = Some i" and l0: "left \<noteq> 0" by auto
      define wr where "wr = min_capacity left (capacity (io_zones s ! i))"
      define pad where "pad = pad_size (GetBlockSize be s) wr"
      define buf1 where "buf1 = buf_zero (unat wr) (unat pad) buf"
      obtain st s1 where ap: "io_Append be i (take (unat (wr + pad)) buf1) s = Some (st, s1)"
        using 1(2) l0 i be by (auto simp: wr_def pad_def buf1_def Let_def split: option.splits)
      obtain f2 s2 where push: "push_written i 0 (ucast wr) f s1 = (f2, s2)" by fastforce
      note body = 1(2) [simplified be l0 i if_False option.case, folded wr_def,
          unfolded Let_def, folded wr_def, folded pad_def, folded buf1_def, simplified ap push option.case prod.case]
      show ?thesis
      proof (cases "ok st")
        case bad: False
        then show ?thesis using body by (auto simp: appended_data_def)
      next
        case True
        note b = buffered_block [OF fok i _ _ left(2), folded wr_def, folded pad_def, folded buf1_def, OF _ _ ap True push]
        have b': "file_ok f2 m s2" "file_data f2 s2 = file_data f s @ take (unat wr) buf"
          "file_size f2 = file_size f + of_nat (length (take (unat wr) buf))" "GetBlockSize be s2 = blk"
          "unat (left - wr) = unat left - unat wr" "unat wr \<le> unat left"
          "left - wr \<noteq> 0 \<Longrightarrow> pad = 0 \<and> capacity (io_zones s2 ! i) = 0"
          using b assms(4) blk left by simp_all
        have split: "take (unat left) buf = take (unat wr) buf @ take (unat (left - wr)) (drop (unat wr) buf)"
          using b'(5,6) by (simp add: take_add [symmetric])
        have small: "unat (left - wr) + unat blk < 2 ^ 32" using b'(5) left(1) by simp
        have sp: "is_sparse f2 = is_sparse f" "GetBlockSize be s2 = GetBlockSize be s"
          using push b'(4) blk by (auto simp: push_written_def)
        show ?thesis
          unfolding split
        proof (rule appended_data_trans [OF b'(2,3) sp])
          show "appended_data (take (unat (left - wr)) (drop (unat wr) buf)) f2 s2 r"
          proof (cases "capacity (io_zones s2 ! i) = 0")
            case False
            then have "left - wr = 0" using b'(7) by blast
            moreover have "loop be pw buf1 (left - wr) f2 m s2 = Some r" using body True False by simp
            ultimately show ?thesis
              using 1(1) [of be pw buf1 "left - wr" f2 m s2 r] b'(1,4) small by simp
          next
            case full: True
            obtain st3 f3 s3 where c: "CloseActiveZone be f2 s2 = (st3, f3, s3)" by (metis prod_cases3)
            note c' = CloseActiveZone_file_ok [OF b'(1) c]
            define buf2 where "buf2 = (if left - wr \<noteq> 0 then buf_move 0 (unat wr) (unat (left - wr)) buf1 else buf1)"
            show ?thesis
            proof (cases "ok st3")
              case False
              then show ?thesis using body True full c by (auto simp: appended_data_def)
            next
              case ok3: True
              then obtain st4 f4 m4 s4 where a: "AllocateNewZone be pw f3 m s3 = Some (st4, f4, m4, s4)"
                using body True full c by (auto split: option.splits)
              note a' = AllocateNewZone_file_ok [OF c'(1,3) a]
              have d: "file_data f4 s4 = file_data f2 s2 @ []" "file_size f4 = file_size f2 + of_nat (length ([] :: bytes))"
                using a' c' by simp_all
              show ?thesis
              proof (cases "ok st4")
                case False
                then show ?thesis using body True full c ok3 a by (auto simp: appended_data_def)
              next
                case ok4: True
                have l: "loop be pw buf2 (left - wr) f4 m4 s4 = Some r"
                  using body True full c ok3 a ok4 by (simp add: buf2_def)
                have buf2: "take (unat (left - wr)) buf2 = take (unat (left - wr)) (drop (unat wr) buf)"
                  "unat (left - wr) \<le> length buf2"
                  using b'(5-7) left(2) by (auto simp: buf2_def buf_move_def buf1_def)
                have blk4: "GetBlockSize be s4 = blk" using a'(5) c'(6) b'(4) by (simp add: GetBlockSize_def)
                then have same: "is_sparse f4 = is_sparse f2" "GetBlockSize be s4 = GetBlockSize be s2"
                  using AllocateNewZone_sparse [OF a] CloseActiveZone_sparse [OF c] b'(4) by simp_all
                from blk4 have "appended_data (take (unat (left - wr)) buf2) f4 s4 r"
                  using 1(1) [OF l] a'(1) small buf2(2) by simp
                from appended_data_trans [OF d same this] show ?thesis by (simp add: buf2)
              qed
            qed
          qed
        qed
      qed
    qed
  qed
  then show ?thesis using assms by simp
qed

lemma BufferedAppend_data:
  assumes "BufferedAppend be pw buf n f m s = Some (st, buf', f', m', s')" "ok st" "file_ok f m s"
    "GetBlockSize be s \<noteq> 0" "unat n + unat (GetBlockSize be s) < 2 ^ 32" "unat n \<le> length buf"
  shows "file_ok f' m' s' \<and> file_data f' s' = file_data f s @ take (unat n) buf
    \<and> file_size f' = file_size f + of_nat (unat n) \<and> is_sparse f' = is_sparse f
    \<and> GetBlockSize be s' = GetBlockSize be s"
proof -
  obtain st1 f1 m1 s1 where e: "ensure_zone be pw f m s = Some (st1, f1, m1, s1)"
    using assms(1) by (auto simp: BufferedAppend_def split: option.splits)
  note e' = ensure_zone_file_ok [OF assms(3) e]
  have l: "buffered_append_loop be pw buf n f1 m1 s1 = Some (st, buf', f', m', s')"
    using assms(1,2) e by (auto simp: BufferedAppend_def split: if_splits)
  have "GetBlockSize be s1 = GetBlockSize be s" using e'(5) by (simp add: GetBlockSize_def)
  from buffered_append_loop_data [OF l e'(1) this assms(4-)] this show ?thesis
    using assms(2,6) e' ensure_zone_sparse [OF e] by (simp add: appended_data_def min.absorb2)
qed

end

subsection \<open>Properties\<close>

text \<open>
  C18: a successful \<open>ZoneFile::BufferedAppend\<close> adds exactly the \<open>n\<close> given bytes to the data of
  the file and \<open>n\<close> to its size, whatever zones it fills and allocates on the way; padding is
  never part of the data, and every extent stays inside the written part of its zone.
\<close>

theorem buffered_append_correct:
  assumes mw: "metadata_writer be cont I pw W"
    and dev: "I (zbd_be s)" "\<forall>z\<in>set (io_zones s). zone_ok (GetZoneSize be s) z"
      "disjoint_zones (unat (GetZoneSize be s)) (map start (io_zones s))" "W m s"
    and fil: "extents_below (extents f) (io_zones s)" "active_ok f (io_zones s)"
    and sizes: "GetBlockSize be s \<noteq> 0" "unat n + unat (GetBlockSize be s) < 2 ^ 32" "unat n \<le> length buf"
    and run: "BufferedAppend be pw buf n f m s = Some (st, buf', f', m', s')" "ok st"
  shows "extents_data (cont (zbd_be s')) (extents f')
      = extents_data (cont (zbd_be s)) (extents f) @ take (unat n) buf
    \<and> file_size f' = file_size f + of_nat (unat n)
    \<and> extents_below (extents f') (io_zones s')"
proof -
  note zd = metadata_writer.axioms(1) [OF mw]
  have "metadata_writer.file_ok be I W f m s"
    using dev fil by (simp add: metadata_writer.file_ok_def [OF mw] zoned_device.zbd_ok_def [OF zd] GetZoneSize_def)
  from metadata_writer.BufferedAppend_data [OF mw run this sizes] show ?thesis
    by (simp add: metadata_writer.file_data_def [OF mw] metadata_writer.file_ok_def [OF mw])
qed

subsection \<open>A concrete append\<close>

text \<open>A writer that only marks the extents synced, on the simulated device; the writer of the file
  system is interpreted in the theory \<open>FsWriter\<close>.\<close>

definition mark_synced :: "(simdev zbdlib, unit) persist" where
  "mark_synced f m s = Some (OK, MetadataSynced f, m, s)"

interpretation sim_writer: metadata_writer "zbdlib_backend sim_libzbd" "\<lambda>b. sd_mem (zl_dev b)" sim_ok
  mark_synced "\<lambda>_ _. True"
  by unfold_locales (auto simp: mark_synced_def MetadataSynced_def)

text \<open>Two empty zones of 48 bytes, and a file that does not fit into one of them.\<close>

definition demo_fresh :: "simdev zbdlib zbd" where
  "demo_fresh = demo_zbd\<lparr> io_zones := [(demo_zones ! 3)\<lparr> start := 128, wp := 128 \<rparr>, demo_zones ! 3] \<rparr>"

definition demo_text :: bytes where
  "demo_text = map of_nat [1..<51]"

lemma demo_append_file:
  "map_option (\<lambda>(st, _, f, _, _). (ok st, map ex_length (extents f), map ex_start (extents f)))
     (BufferedAppend demo_be mark_synced (demo_text @ [0, 0]) 50 (new_ZoneFile 1) () demo_fresh)
    = Some (True, [48, 2], [128, 192])"
  by code_simp

lemma disjoint_zones_two: "disjoint_zones zs [a, b] = (unat a + zs \<le> unat b \<or> unat b + zs \<le> unat a)"
  by (auto simp: disjoint_zones_def less_Suc_eq)

lemma demo_fresh_facts:
  "sim_ok (zbd_be demo_fresh)" "\<forall>z\<in>set (io_zones demo_fresh). zone_ok (GetZoneSize demo_be demo_fresh) z"
  "disjoint_zones (unat (GetZoneSize demo_be demo_fresh)) (map start (io_zones demo_fresh))"
  "GetBlockSize demo_be demo_fresh = 4" "io_zones demo_fresh ! 0 = (demo_zones ! 3)\<lparr> start := 128, wp := 128 \<rparr>"
  by (simp_all add: demo_fresh_def demo_zbd_def new_ZonedBlockDevice_def sim_ok_def demo_dev_def sim_new_def
      sim_zone_def demo_zones_def zone_ok_def GetZoneSize_def GetBlockSize_def zbdlib_backend_def
      disjoint_zones_two)

theorem buffered_append_correct_witness:
  "\<exists>st buf f m s. BufferedAppend demo_be mark_synced (demo_text @ [0, 0]) 50 (new_ZoneFile 1) () demo_fresh
      = Some (st, buf, f, m, s) \<and> length (extents f) = 2
    \<and> extents_data (sd_mem (zl_dev (zbd_be s))) (extents f) = demo_text \<and> file_size f = 50"
proof -
  obtain st buf f m s where run: "BufferedAppend demo_be mark_synced (demo_text @ [0, 0]) 50 (new_ZoneFile 1) ()
      demo_fresh = Some (st, buf, f, m, s)" and st: "ok st" and es: "map ex_length (extents f) = [48, 2]"
    using demo_append_file by (auto simp: map_option_case split: option.splits)
  have len: "length (extents f) = 2" using arg_cong [OF es, of length] by simp
  have "unat (50 :: u32) + unat (GetBlockSize demo_be demo_fresh) < 2 ^ 32"
    "unat (50 :: u32) \<le> length (demo_text @ [0, 0])" "GetBlockSize demo_be demo_fresh \<noteq> 0"
    by (simp_all add: demo_fresh_facts demo_text_def)
  moreover have "extents_below (extents (new_ZoneFile 1)) (io_zones demo_fresh)"
    "active_ok (new_ZoneFile 1) (io_zones demo_fresh)"
    by (simp_all add: new_ZoneFile_def extents_below_def active_ok_def)
  ultimately have "extents_data (sd_mem (zl_dev (zbd_be s))) (extents f) = demo_text" "file_size f = 50"
    using buffered_append_correct [OF sim_writer.metadata_writer_axioms demo_fresh_facts(1-3) TrueI _ _ _ _ _ run st]
    by (simp_all add: new_ZoneFile_def demo_text_def)
  with run len show ?thesis by blast
qed

end
