(* ===== verification/StdMap.thy ===== *)
theory StdMap
  imports Prelude
begin

text \<open>
  \<open>std::map\<close> as the code uses it: a list of pairs in ascending order of the keys.  The contract of
  \<open>insert\<close> and \<open>erase\<close> is the locale \<open>std_map\<close>; the table of files and the maps of the RAID
  allocator rest on its interpretation.
\<close>

subsection \<open>Operations\<close>

text \<open>\<open>insert\<close> keeps an entry that is already there.\<close>

fun map_insert :: "'k::linorder \<Rightarrow> 'v \<Rightarrow> ('k \<times> 'v) list \<Rightarrow> ('k \<times> 'v) list" where
  "map_insert k v [] = [(k, v)]"
| "map_insert k v ((k', v') # m) =
     (if k = k' then (k', v') # m
      else if k < k' then (k, v) # (k', v') # m else (k', v') # map_insert k v m)"

definition map_erase :: "'k \<Rightarrow> ('k \<times> 'v) list \<Rightarrow> ('k \<times> 'v) list" where
  "map_erase k m = filter (\<lambda>e. fst e \<noteq> k) m"

text \<open>\<open>operator[]\<close> as a target of an assignment, and as a value: an entry that is missing is
  inserted with a default.\<close>

definition map_assign :: "'k::linorder \<Rightarrow> 'v \<Rightarrow> ('k \<times> 'v) list \<Rightarrow> ('k \<times> 'v) list" where
  "map_assign k v m = map_insert k v (map_erase k m)"

definition map_index :: "'k::linorder \<Rightarrow> 'v \<Rightarrow> ('k \<times> 'v) list \<Rightarrow> 'v \<times> ('k \<times> 'v) list" where
  "map_index k dflt m = (case map_of m k of Some v \<Rightarrow> (v, m) | None \<Rightarrow> (dflt, map_insert k dflt m))"

subsection \<open>The contract of \<open>std::map\<close>\<close>

text \<open>\<open>insert\<close> does not replace an entry; \<open>erase\<close> removes at most one.\<close>

locale std_map =
  fixes ins :: "'k \<Rightarrow> 'v \<Rightarrow> 'm \<Rightarrow> 'm"
    and era :: "'k \<Rightarrow> 'm \<Rightarrow> 'm"
    and look :: "'m \<Rightarrow> 'k \<Rightarrow> 'v option"
    and invar :: "'m \<Rightarrow> bool"
  assumes ins_look: "invar m \<Longrightarrow> look (ins k v m) = (if look m k = None then (look m)(k \<mapsto> v) else look m)"
    and ins_invar: "invar m \<Longrightarrow> invar (ins k v m)"
    and era_look: "invar m \<Longrightarrow> look (era k m) = (look m)(k := None)"
    and era_invar: "invar m \<Longrightarrow> invar (era k m)"
begin

lemma insert_many:
  assumes "invar m" "\<forall>k\<in>set ks. look m k = None"
  shows "invar (fold (\<lambda>k. ins k v) ks m)"
    "look (fold (\<lambda>k. ins k v) ks m) = (\<lambda>k. if k \<in> set ks then Some v else look m k)"
proof -
  have "invar (fold (\<lambda>k. ins k v) ks m)
      \<and> look (fold (\<lambda>k. ins k v) ks m) = (\<lambda>k. if k \<in> set ks then Some v else look m k)"
    if "invar m" "\<forall>k\<in>set ks. look m k = None \<or> look m k = Some v" for ks m
    using that
  proof (induction ks arbitrary: m)
    case (Cons k ks)
    have "look (ins k v m) = (\<lambda>j. if j = k then Some v else look m j)"
      using Cons.prems by (auto simp: ins_look)
    moreover have "invar (ins k v m)" using Cons.prems by (simp add: ins_invar)
    ultimately show ?case using Cons.IH [of "ins k v m"] Cons.prems by auto
  qed simp
  then show "invar (fold (\<lambda>k. ins k v) ks m)"
    "look (fold (\<lambda>k. ins k v) ks m) = (\<lambda>k. if k \<in> set ks then Some v else look m k)"
    using assms by simp_all
qed

lemma rename_look:
  assumes "invar m" "look m k = Some v" "look m k' = None"
  shows "look (ins k' v (era k m)) = (look m)(k := None, k' \<mapsto> v)"
  using assms by (auto simp: era_look ins_look era_invar)

end

definition sorted_keys :: "('k::linorder \<times> 'v) list \<Rightarrow> bool" where
  "sorted_keys m = sorted_wrt (<) (map fst m)"

lemma map_of_insert:
  "sorted_keys m \<Longrightarrow> map_of (map_insert k v m) = (if map_of m k = None then (map_of m)(k \<mapsto> v) else map_of m)"
proof (induction m)
  case (Cons e m)
  obtain k' v' where e: "e = (k', v')" by fastforce
  have lt: "\<forall>x\<in>fst ` set m. k' < x" and s: "sorted_keys m" using Cons.prems by (auto simp: e sorted_keys_def)
  have "map_of m k = None" if "k < k'"
    using lt that by (auto simp: map_of_eq_None_iff dest: less_trans)
  with Cons.IH [OF s] show ?case by (auto simp: e)
qed (auto simp: sorted_keys_def)

lemma keys_insert: "fst ` set (map_insert k v m) = insert k (fst ` set m)"
  by (induction k v m rule: map_insert.induct) auto

lemma sorted_insert: "sorted_keys m \<Longrightarrow> sorted_keys (map_insert k v m)"
proof (induction k v m rule: map_insert.induct)
  case (2 k v k' v' m)
  have lt: "\<forall>x\<in>fst ` set m. k' < x" and s: "sorted_keys m" using "2.prems" by (auto simp: sorted_keys_def)
  show ?case
  proof (cases "k = k' \<or> k < k'")
    case True
    with "2.prems" lt show ?thesis by (auto simp: sorted_keys_def dest: less_trans)
  next
    case False
    then have "k' < k" by auto
    moreover have "sorted_keys (map_insert k v m)" using 2 False s by auto
    ultimately show ?thesis
      using False lt keys_insert [of k v m] by (auto simp: sorted_keys_def)
  qed
qed (simp add: sorted_keys_def)

lemma map_of_erase: "map_of (map_erase k m) = (map_of m)(k := None)"
  by (induction m) (auto simp: map_erase_def)

lemma sorted_erase: "sorted_keys m \<Longrightarrow> sorted_keys (map_erase k m)"
  by (induction m) (auto simp: map_erase_def sorted_keys_def)

interpretation files: std_map map_insert map_erase map_of sorted_keys
  by unfold_locales (simp_all only: map_of_insert sorted_insert map_of_erase sorted_erase)

lemma map_of_assign: "sorted_keys m \<Longrightarrow> map_of (map_assign k v m) = (map_of m)(k \<mapsto> v)"
  by (simp add: map_assign_def files.ins_look files.era_look files.era_invar)

lemma sorted_assign: "sorted_keys m \<Longrightarrow> sorted_keys (map_assign k v m)"
  by (simp add: map_assign_def files.ins_invar files.era_invar)

lemma map_index_keeps:
  assumes "sorted_keys m" "map_index k dflt m = (v, m')"
  shows "sorted_keys m'" "map_of m' = (map_of m)(k \<mapsto> v)" "v = (case map_of m k of Some x \<Rightarrow> x | None \<Rightarrow> dflt)"
  using assms by (auto simp: map_index_def files.ins_look files.ins_invar split: option.splits)

end
