(* ===== verification/AquaFS.thy ===== *)
theory AquaFS
  imports MetaLog Paths FileAppend StdMap "HOL-Library.Monad_Syntax" "HOL-Library.List_Lexorder"
begin

text \<open>
  The file system (\<open>AquaFS\<close> of \<open>fs/fs_aquafs.h\<close> and \<open>.cc\<close>): the table of files, the records that
  keep it on disk, rolling the metadata zone, and the operations on names.

  \<open>std::shared_ptr<ZoneFile>\<close> is an address in the map \<open>fs_objs\<close>; \<open>fs_handles\<close> counts the references
  that open file handles hold, and an object that is neither in the table nor held is destroyed.
  The auxiliary file system, \<open>target()\<close>, is RocksDB's own; it is the argument \<open>af\<close>.  \<open>fs_now\<close> is
  what \<open>time(0)\<close> returns.  A result \<open>None\<close> means that the call does not return, dereferences a
  null pointer, or reads a vector out of bounds.  Mutexes are not part of the state: every
  operation here holds \<open>files_mtx_\<close> from its first access to its last.
\<close>

subsection \<open>State\<close>

record 'x auxfs =
  af_DeleteFile :: "bytes \<Rightarrow> 'x \<Rightarrow> status \<times> 'x"
  af_RenameFile :: "bytes \<Rightarrow> bytes \<Rightarrow> 'x \<Rightarrow> status \<times> 'x"
  af_LinkFile :: "bytes \<Rightarrow> bytes \<Rightarrow> 'x \<Rightarrow> status \<times> 'x"
  af_GetChildren :: "bytes \<Rightarrow> 'x \<Rightarrow> status \<times> bytes list"
  af_DeleteDir :: "bytes \<Rightarrow> 'x \<Rightarrow> status \<times> 'x"
  af_CreateDirIfMissing :: "bytes \<Rightarrow> 'x \<Rightarrow> status \<times> 'x"
  af_IsDirectory :: "bytes \<Rightarrow> 'x \<Rightarrow> status \<times> bool"
  af_FileExists :: "bytes \<Rightarrow> 'x \<Rightarrow> status"
  af_NumFileLinks :: "bytes \<Rightarrow> 'x \<Rightarrow> status \<times> u64"
  af_AreFilesSame :: "bytes \<Rightarrow> bytes \<Rightarrow> 'x \<Rightarrow> status \<times> bool"
  af_GetFileSize :: "bytes \<Rightarrow> 'x \<Rightarrow> status \<times> u64"
  af_GetFileModificationTime :: "bytes \<Rightarrow> 'x \<Rightarrow> status \<times> u64"

record 'x aquafs =
  fs_files :: "(bytes \<times> nat) list"
  fs_objs :: "nat \<Rightarrow> zfile"
  fs_next_obj :: nat
  fs_handles :: "nat \<Rightarrow> nat"
  next_file_id :: u64
  fs_meta_log :: "metalog option"
  fs_superblock :: "superblock option"
  fs_aux :: 'x
  fs_now :: u64

type_synonym ('b, 'x, 'r) fsop = "'x aquafs \<Rightarrow> 'b zbd \<Rightarrow> ('r \<times> 'x aquafs \<times> 'b zbd) option"

definition new_AquaFS :: "'x \<Rightarrow> u64 \<Rightarrow> 'x aquafs" where
  "new_AquaFS x now = \<lparr> fs_files = [], fs_objs = (\<lambda>_. new_ZoneFile 0), fs_next_obj = 0,
     fs_handles = (\<lambda>_. 0), next_file_id = 1, fs_meta_log = None, fs_superblock = None,
     fs_aux = x, fs_now = now \<rparr>"

subsection \<open>Objects\<close>

definition set_obj :: "nat \<Rightarrow> zfile \<Rightarrow> 'x aquafs \<Rightarrow> 'x aquafs" where
  "set_obj a f fs = fs\<lparr> fs_objs := (fs_objs fs)(a := f) \<rparr>"

definition new_obj :: "zfile \<Rightarrow> 'x aquafs \<Rightarrow> nat \<times> 'x aquafs" where
  "new_obj f fs = (fs_next_obj fs, (set_obj (fs_next_obj fs) f fs)\<lparr> fs_next_obj := fs_next_obj fs + 1 \<rparr>)"

text \<open>A reference to object \<open>a\<close> goes away; the last one runs the destructor.\<close>

definition drop_ref :: "nat \<Rightarrow> 'x aquafs \<Rightarrow> 'b zbd \<Rightarrow> 'x aquafs \<times> 'b zbd" where
  "drop_ref a fs s =
     (if fs_handles fs a = 0 \<and> a \<notin> snd ` set (fs_files fs)
      then let (f, s') = ClearExtents (fs_objs fs a) s in (set_obj a f fs, s')
      else (fs, s))"

definition GetFilename :: "zfile \<Rightarrow> bytes option" where
  "GetFilename f = (case linkfiles f of [] \<Rightarrow> None | n # _ \<Rightarrow> Some n)"

definition GetFileNoLock :: "bytes \<Rightarrow> 'x aquafs \<Rightarrow> nat option" where
  "GetFileNoLock fname fs = map_of (fs_files fs) (FormatPathLexically fname)"

definition ToAuxPath :: "bytes \<Rightarrow> 'x aquafs \<Rightarrow> bytes option" where
  "ToAuxPath path fs = map_option (\<lambda>sb. GetAuxFsPath sb @ path) (fs_superblock fs)"

subsection \<open>Records\<close>

definition kCompleteFilesSnapshot :: u32 where "kCompleteFilesSnapshot = 1"
definition kFileUpdate :: u32 where "kFileUpdate = 2"
definition kFileDeletion :: u32 where "kFileDeletion = 3"
definition kEndRecord :: u32 where "kEndRecord = 4"
definition kFileReplace :: u32 where "kFileReplace = 5"
definition kRaidInfoAppend :: u32 where "kRaidInfoAppend = 6"
definition kBlockingDeviceZones :: u32 where "kBlockingDeviceZones = 7"

lemmas record_tags = kCompleteFilesSnapshot_def kFileUpdate_def kFileDeletion_def kEndRecord_def
  kFileReplace_def kRaidInfoAppend_def kBlockingDeviceZones_def

definition fs_EncodeSnapshotTo :: "'x aquafs \<Rightarrow> bytes" where
  "fs_EncodeSnapshotTo fs =
     (let files_string = fold (\<lambda>e out. PutLengthPrefixedSlice out
            (file_EncodeSnapshotTo (fs_objs fs (snd e)) [])) (fs_files fs) [] in
      PutLengthPrefixedSlice (PutFixed32 [] kCompleteFilesSnapshot) files_string)"

definition EncodeFileDeletionTo :: "zfile \<Rightarrow> bytes \<Rightarrow> bytes" where
  "EncodeFileDeletionTo f linkf =
     PutLengthPrefixedSlice (PutFixed32 [] kFileDeletion)
       (PutLengthPrefixedSlice (PutFixed64 [] (file_id f)) linkf)"

definition fs_EncodeJson :: "'x aquafs \<Rightarrow> bytes" where
  "fs_EncodeJson fs =
     str ''['' @ json_sep (map (\<lambda>e. file_EncodeJson (fs_objs fs (snd e))) (fs_files fs)) True @ str '']''"

definition GetWriteLifeTimeHints :: "'x aquafs \<Rightarrow> (bytes \<times> WriteLifeTimeHint) list" where
  "GetWriteLifeTimeHints fs = map (\<lambda>(n, a). (n, zf_lifetime (fs_objs fs a))) (fs_files fs)"

subsection \<open>Persisting\<close>

definition sync_all :: "'x aquafs \<Rightarrow> 'x aquafs" where
  "sync_all fs = fold (\<lambda>e fs. set_obj (snd e) (MetadataSynced (fs_objs fs (snd e))) fs) (fs_files fs) fs"

definition WriteSnapshotLocked :: "'b backend \<Rightarrow> metalog \<Rightarrow> ('b, 'x, status) fsop" where
  "WriteSnapshotLocked be ml fs s =
     do { (st, s1) \<leftarrow> AddRecord be ml (fs_EncodeSnapshotTo fs) s;
          Some (st, if ok st then sync_all fs else fs, s1) }"

definition WriteEndRecord :: "'b backend \<Rightarrow> metalog \<Rightarrow> 'b zbd \<Rightarrow> (status \<times> 'b zbd) option" where
  "WriteEndRecord be ml s = AddRecord be ml (PutFixed32 [] kEndRecord) s"

definition meta_Finish :: "'b backend \<Rightarrow> nat \<Rightarrow> 'b zbd \<Rightarrow> 'b zbd" where
  "meta_Finish be i s =
     (let (st, z, b) = Finish be (meta_zones s ! i) (zbd_be s) in set_meta i z (s\<lparr> zbd_be := b \<rparr>))"

definition meta_Reset :: "'b backend \<Rightarrow> nat \<Rightarrow> 'b zbd \<Rightarrow> 'b zbd" where
  "meta_Reset be i s =
     (let (st, z, b) = Reset be (meta_zones s ! i) (zbd_be s) in set_meta i z (s\<lparr> zbd_be := b \<rparr>))"

text \<open>Ending the old log: an end record and a finished zone while there is room; the results are
  not looked at.\<close>

definition end_old_log :: "'b backend \<Rightarrow> metalog option \<Rightarrow> 'b zbd \<Rightarrow> 'b zbd option" where
  "end_old_log be old s =
     (case old of
        None \<Rightarrow> Some s
      | Some ml \<Rightarrow>
          do { s1 \<leftarrow> (if GetCapacityLeft (meta_zones s ! ml_zone ml) \<noteq> 0
                      then map_option snd (WriteEndRecord be ml s) else Some s);
               Some (if GetCapacityLeft (meta_zones s1 ! ml_zone ml) \<noteq> 0
                     then meta_Finish be (ml_zone ml) s1 else s1) })"

definition drop_log :: "metalog option \<Rightarrow> 'b zbd \<Rightarrow> 'b zbd" where
  "drop_log old s = (case old of None \<Rightarrow> s | Some ml \<Rightarrow> delete_AquaMetaLog ml s)"

definition RollMetaZoneLocked :: "'b backend \<Rightarrow> ('b, 'x, status) fsop" where
  "RollMetaZoneLocked be fs s =
     (let (st, zn, s) = AllocateMetaZone be s in
      if \<not> ok st then Some (st, fs, s)
      else case zn of
        None \<Rightarrow> Some (NoSpace_msg (str ''Out of metadata zones'') [], fs, s)
      | Some i \<Rightarrow>
          let old = fs_meta_log fs; ml = new_AquaMetaLog be i s;
              fs = fs\<lparr> fs_meta_log := Some ml \<rparr> in
          do { s \<leftarrow> end_old_log be old s;
               sb \<leftarrow> fs_superblock fs;
               let (super_string, sb) = sb_EncodeTo sb;
               let fs = fs\<lparr> fs_superblock := Some sb \<rparr>;
               (st, s) \<leftarrow> AddRecord be ml super_string s;
               if \<not> ok st
               then Some (IOError (str ''Failed writing a new superblock'') [], fs, drop_log old s)
               else do {
                 (st, fs, s) \<leftarrow> WriteSnapshotLocked be ml fs s;
                 let s = (case old of Some o_ml \<Rightarrow> if ok st then meta_Reset be (ml_zone o_ml) s else s | None \<Rightarrow> s);
                 Some (st, fs, drop_log old s) } })"

definition PersistSnapshot :: "'b backend \<Rightarrow> metalog \<Rightarrow> ('b, 'x, status) fsop" where
  "PersistSnapshot be ml fs s =
     do { (st, fs, s) \<leftarrow> WriteSnapshotLocked be ml fs s;
          if status_eq st NoSpace then RollMetaZoneLocked be fs s else Some (st, fs, s) }"

definition PersistRecord :: "'b backend \<Rightarrow> bytes \<Rightarrow> ('b, 'x, status) fsop" where
  "PersistRecord be record fs s =
     do { ml \<leftarrow> fs_meta_log fs;
          (st, s) \<leftarrow> AddRecord be ml record s;
          if status_eq st NoSpace then RollMetaZoneLocked be fs s else Some (st, fs, s) }"

definition file_record :: "bool \<Rightarrow> zfile \<Rightarrow> bytes" where
  "file_record replace f =
     PutLengthPrefixedSlice (PutFixed32 [] (if replace then kFileReplace else kFileUpdate))
       (EncodeUpdateTo f [])"

definition SyncFileMetadataNoLock :: "'b backend \<Rightarrow> nat \<Rightarrow> bool \<Rightarrow> ('b, 'x, status) fsop" where
  "SyncFileMetadataNoLock be a replace fs s =
     (if is_deleted (fs_objs fs a)
      then do { name \<leftarrow> GetFilename (fs_objs fs a); Some (OK, fs, s) }
      else let fs = (if replace then fs
                     else set_obj a ((fs_objs fs a)\<lparr> m_time := fs_now fs \<rparr>) fs) in
        do { (st, fs, s) \<leftarrow> PersistRecord be (file_record replace (fs_objs fs a)) fs s;
             Some (st, if ok st then set_obj a (MetadataSynced (fs_objs fs a)) fs else fs, s) })"

text \<open>\<open>AquaFSMetadataWriter::Persist\<close> of the file at address \<open>a\<close>, whose state is the argument \<open>f\<close>
  while one of its operations runs.\<close>

definition Persist :: "'b backend \<Rightarrow> nat \<Rightarrow> ('b, 'x aquafs) persist" where
  "Persist be a f fs s =
     do { name \<leftarrow> GetFilename f;
          (st, fs, s) \<leftarrow> SyncFileMetadataNoLock be a False (set_obj a f fs) s;
          Some (st, fs_objs fs a, fs, s) }"

definition drop_changed :: "ZoneExtent list \<Rightarrow> ZoneExtent list \<Rightarrow> 'b zbd \<Rightarrow> 'b zbd" where
  "drop_changed olds news s =
     fold (\<lambda>(x, y). if ex_start x \<noteq> ex_start y then add_used (ex_zone x) (- ex_length x) else id) (zip olds news) s"

definition SyncFileExtents :: "'b backend \<Rightarrow> nat \<Rightarrow> ZoneExtent list \<Rightarrow> ('b, 'x, status) fsop" where
  "SyncFileExtents be a new_extents fs s =
     (let old_extents = extents (fs_objs fs a);
          fs = set_obj a (MetadataUnsynced (ReplaceExtentList new_extents (fs_objs fs a))) fs in
      do { (st, fs, s) \<leftarrow> SyncFileMetadataNoLock be a True fs s;
           Some (st, fs, if ok st then drop_changed old_extents new_extents s else s) })"

subsection \<open>Deleting\<close>

text \<open>A call of the auxiliary file system on a path.\<close>

definition aux_op :: "(bytes \<Rightarrow> 'x \<Rightarrow> status \<times> 'x) \<Rightarrow> bytes \<Rightarrow> ('b, 'x, status) fsop" where
  "aux_op g path fs s =
     do { p \<leftarrow> ToAuxPath path fs;
          let (st, x) = g p (fs_aux fs);
          Some (st, fs\<lparr> fs_aux := x \<rparr>, s) }"

definition erase_file :: "bytes \<Rightarrow> 'x aquafs \<Rightarrow> 'x aquafs" where
  "erase_file n fs = fs\<lparr> fs_files := map_erase n (fs_files fs) \<rparr>"

definition insert_file :: "bytes \<Rightarrow> nat \<Rightarrow> 'x aquafs \<Rightarrow> 'x aquafs" where
  "insert_file n a fs = fs\<lparr> fs_files := map_insert n a (fs_files fs) \<rparr>"

definition DeleteFileNoLock :: "'b backend \<Rightarrow> 'x auxfs \<Rightarrow> bytes \<Rightarrow> ('b, 'x, status) fsop" where
  "DeleteFileNoLock be af filename fs s =
     (let fname = FormatPathLexically filename in
      case GetFileNoLock fname fs of
        None \<Rightarrow> aux_op (af_DeleteFile af) fname fs s
      | Some a \<Rightarrow>
          let fs = erase_file fname fs; (st, f) = RemoveLinkName fname (fs_objs fs a); fs = set_obj a f fs in
          if \<not> ok st then (let (fs, s) = drop_ref a fs s in Some (st, fs, s))
          else do {
            (st, fs, s) \<leftarrow> PersistRecord be (EncodeFileDeletionTo f fname) fs s;
            if \<not> ok st
            then Some (st, set_obj a (AddLinkName fname (fs_objs fs a)) (insert_file fname a fs), s)
            else if GetNrLinks (fs_objs fs a) > 0 then Some (st, fs, s)
            else (let fs = set_obj a ((fs_objs fs a)\<lparr> is_deleted := True \<rparr>) fs; (fs, s) = drop_ref a fs s in
                  Some (st, fs, s)) })"

text \<open>Resetting unused zones after a successful change of the table.\<close>

definition then_reset :: "'b backend \<Rightarrow> status \<times> 'x aquafs \<times> 'b zbd \<Rightarrow> status \<times> 'x aquafs \<times> 'b zbd" where
  "then_reset be r =
     (case r of (st, fs, s) \<Rightarrow>
        if ok st then (let (st, s) = ResetUnusedIOZones be s in (st, fs, s)) else (st, fs, s))"

definition DeleteFile :: "'b backend \<Rightarrow> 'x auxfs \<Rightarrow> bytes \<Rightarrow> ('b, 'x, status) fsop" where
  "DeleteFile be af fname fs s = map_option (then_reset be) (DeleteFileNoLock be af fname fs s)"

subsection \<open>Opening files\<close>

definition AcquireWRLock :: "zfile \<Rightarrow> zfile option" where
  "AcquireWRLock f = (if open_for_wr f then None else Some (f\<lparr> open_for_wr := True \<rparr>))"

definition TryAcquireWRLock :: "zfile \<Rightarrow> bool \<times> zfile" where
  "TryAcquireWRLock f = (if open_for_wr f then (False, f) else (True, f\<lparr> open_for_wr := True \<rparr>))"

text \<open>A handle on object \<open>a\<close>.\<close>

definition hold_obj :: "nat \<Rightarrow> 'x aquafs \<Rightarrow> 'x aquafs" where
  "hold_obj a fs = fs\<lparr> fs_handles := (fs_handles fs)(a := fs_handles fs a + 1) \<rparr>"

text \<open>The object of a new file that is opened for writing.\<close>

definition created_file :: "u64 \<Rightarrow> u64 \<Rightarrow> bytes \<Rightarrow> bool \<Rightarrow> zfile" where
  "created_file fid now fname direct =
     (let f = AddLinkName fname ((new_ZoneFile fid)\<lparr> m_time := now \<rparr>) in
      if ends_with fname (str ''.log'') then f\<lparr> io_type := kWAL, is_sparse := \<not> direct \<rparr>
      else f\<lparr> io_type := kUnknown \<rparr>)"

definition open_new_file :: "'b backend \<Rightarrow> bytes \<Rightarrow> bool \<Rightarrow> ('b, 'x, status \<times> nat option) fsop" where
  "open_new_file be fname direct fs s =
     (let (a, fs) = new_obj (created_file (next_file_id fs) (fs_now fs) fname direct) fs;
          fs = fs\<lparr> next_file_id := next_file_id fs + 1 \<rparr> in
      do { (st, fs, s) \<leftarrow> SyncFileMetadataNoLock be a False fs s;
           if \<not> ok st then (let (fs, s) = drop_ref a fs s in Some ((st, None), fs, s))
           else do { f \<leftarrow> AcquireWRLock (fs_objs fs a);
                     Some ((st, Some a), hold_obj a (insert_file fname a (set_obj a f fs)), s) } })"

definition OpenWritableFile ::
  "'b backend \<Rightarrow> 'x auxfs \<Rightarrow> bytes \<Rightarrow> bool \<Rightarrow> bool \<Rightarrow> ('b, 'x, status \<times> nat option) fsop" where
  "OpenWritableFile be af filename direct reopen fs s =
     (let fname = FormatPathLexically filename in
      case GetFileNoLock fname fs of
        Some a \<Rightarrow>
          if reopen
          then do { f \<leftarrow> AcquireWRLock (fs_objs fs a); Some ((OK, Some a), hold_obj a (set_obj a f fs), s) }
          else do {
            (st, fs, s) \<leftarrow> DeleteFileNoLock be af fname fs s;
            if \<not> ok st then Some ((st, None), fs, s)
            else do {
              ((st, r), fs, s) \<leftarrow> open_new_file be fname direct fs s;
              if r = None then Some ((st, r), fs, s)
              else (let (st, s) = ResetUnusedIOZones be s in Some ((st, r), fs, s)) } }
      | None \<Rightarrow> open_new_file be fname direct fs s)"

definition ReuseWritableFile ::
  "'b backend \<Rightarrow> 'x auxfs \<Rightarrow> bytes \<Rightarrow> bytes \<Rightarrow> bool \<Rightarrow> ('b, 'x, status \<times> nat option) fsop" where
  "ReuseWritableFile be af filename old_filename direct fs s =
     (let fname = FormatPathLexically filename; old_fname = FormatPathLexically old_filename in
      if GetFileNoLock old_fname fs = None
      then Some ((NotFound (str ''Old file does not exist'') [], None), fs, s)
      else do {
        (st, fs, s) \<leftarrow> DeleteFile be af old_fname fs s;
        if \<not> ok st then Some ((st, None), fs, s)
        else OpenWritableFile be af fname direct False fs s })"

subsection \<open>Listing\<close>

definition relative_child :: "bytes \<Rightarrow> bytes \<Rightarrow> bytes" where
  "relative_child dir full_path = drop (length dir) full_path"

definition GetAquaFSChildrenNoLock :: "bytes \<Rightarrow> bool \<Rightarrow> 'x aquafs \<Rightarrow> bytes list" where
  "GetAquaFSChildrenNoLock dir include_grandchildren fs =
     (let d = with_separator_at_end dir in
      map (relative_child d) (filter (\<lambda>n. let file_dir = with_separator_at_end (parent_path n) in
          string_starts_with file_dir d \<and> (include_grandchildren \<or> length file_dir = length d))
        (map fst (fs_files fs))))"

definition GetChildrenNoLock :: "'x auxfs \<Rightarrow> bytes \<Rightarrow> 'x aquafs \<Rightarrow> (status \<times> bytes list) option" where
  "GetChildrenNoLock af dir_path fs =
     (let dir = FormatPathLexically dir_path in
      do { p \<leftarrow> ToAuxPath dir fs;
           let (st, auxfiles) = af_GetChildren af p (fs_aux fs);
           if \<not> ok st then Some (if IsNotFound st then OK else st, [])
           else Some (st, filter (\<lambda>f. f \<noteq> dot \<and> f \<noteq> dotdot) auxfiles
                          @ GetAquaFSChildrenNoLock dir False fs) })"

definition IsDirectoryNoLock :: "'x auxfs \<Rightarrow> bytes \<Rightarrow> 'x aquafs \<Rightarrow> (status \<times> bool) option" where
  "IsDirectoryNoLock af path fs =
     (if GetFileNoLock path fs \<noteq> None then Some (OK, False)
      else do { p \<leftarrow> ToAuxPath path fs; Some (af_IsDirectory af p (fs_aux fs)) })"

text \<open>The recursion over directories has a bound on its depth; \<open>None\<close> also when the bound is too
  small.\<close>

fun delete_children ::
  "(bytes \<Rightarrow> ('b, 'x, status) fsop) \<Rightarrow> 'b backend \<Rightarrow> 'x auxfs \<Rightarrow> bytes \<Rightarrow> bytes list \<Rightarrow> ('b, 'x, status) fsop" where
  "delete_children rec be af d [] fs s = Some (OK, fs, s)"
| "delete_children rec be af d (child # children) fs s =
     (let path = path_append d child in
      do { (st, is_dir) \<leftarrow> IsDirectoryNoLock af path fs;
           if \<not> ok st then Some (st, fs, s)
           else do {
             (st, fs, s) \<leftarrow> (if is_dir then rec path fs s else DeleteFileNoLock be af path fs s);
             if \<not> ok st then Some (st, fs, s) else delete_children rec be af d children fs s } })"

fun DeleteDirRecursiveNoLock :: "nat \<Rightarrow> 'b backend \<Rightarrow> 'x auxfs \<Rightarrow> bytes \<Rightarrow> ('b, 'x, status) fsop" where
  "DeleteDirRecursiveNoLock 0 be af dir fs s = None"
| "DeleteDirRecursiveNoLock (Suc n) be af dir fs s =
     (let d = FormatPathLexically dir in
      do { (st, children) \<leftarrow> GetChildrenNoLock af d fs;
           if \<not> ok st then Some (st, fs, s)
           else do {
             (st, fs, s) \<leftarrow> delete_children (DeleteDirRecursiveNoLock n be af) be af d children fs s;
             if \<not> ok st then Some (st, fs, s) else aux_op (af_DeleteDir af) d fs s } })"

definition DeleteDirRecursive :: "nat \<Rightarrow> 'b backend \<Rightarrow> 'x auxfs \<Rightarrow> bytes \<Rightarrow> ('b, 'x, status) fsop" where
  "DeleteDirRecursive n be af d fs s = map_option (then_reset be) (DeleteDirRecursiveNoLock n be af d fs s)"

definition DeleteDir :: "'x auxfs \<Rightarrow> bytes \<Rightarrow> ('b, 'x, status) fsop" where
  "DeleteDir af d fs s =
     do { (st, children) \<leftarrow> GetChildrenNoLock af d fs;
          if length children \<noteq> 0 then Some (IOError (str ''Directory has children'') [], fs, s)
          else aux_op (af_DeleteDir af) d fs s }"

subsection \<open>Renaming\<close>

text \<open>Renaming a file of the table: the destination is deleted first; when the new name cannot be
  persisted the old one is put back, and the status is that of putting it back.  The code's local
  pointer to a deleted destination lives until the function returns; nothing in between looks at
  the destination or at the used capacity its extents give back, so here it is destroyed at once.\<close>

definition rename_zone_file ::
  "'b backend \<Rightarrow> 'x auxfs \<Rightarrow> bytes \<Rightarrow> bytes \<Rightarrow> nat \<Rightarrow> ('b, 'x, status) fsop" where
  "rename_zone_file be af source_path dest_path a fs s =
     do { (st, fs, s) \<leftarrow> (if GetFileNoLock dest_path fs \<noteq> None
                        then DeleteFileNoLock be af dest_path fs s else Some (OK, fs, s));
          if \<not> ok st then Some (st, fs, s)
          else let (st, f) = RenameLink source_path dest_path (fs_objs fs a); fs = set_obj a f fs in
            if \<not> ok st then Some (st, fs, s)
            else let fs = insert_file dest_path a (erase_file source_path fs) in
              do { (st, fs, s) \<leftarrow> SyncFileMetadataNoLock be a False fs s;
                   if ok st then Some (st, fs, s)
                   else let fs = erase_file dest_path fs;
                            (st, f) = RenameLink dest_path source_path (fs_objs fs a);
                            fs = set_obj a f fs in
                     if \<not> ok st then Some (st, fs, s) else Some (st, insert_file source_path a fs, s) } }"

fun rename_children ::
  "(bytes \<Rightarrow> bytes \<Rightarrow> ('b, 'x, status) fsop) \<Rightarrow> bytes \<Rightarrow> bytes \<Rightarrow> bytes list \<Rightarrow> bytes list
    \<Rightarrow> ('b, 'x, status \<times> bytes list) fsop" where
  "rename_children ren source_dir dest_dir [] renamed fs s = Some ((OK, renamed), fs, s)"
| "rename_children ren source_dir dest_dir (child # children) renamed fs s =
     do { (st, fs, s) \<leftarrow> ren (path_append source_dir child) (path_append dest_dir child) fs s;
          if \<not> ok st then Some ((st, renamed), fs, s)
          else rename_children ren source_dir dest_dir children (renamed @ [child]) fs s }"

definition aux_rename :: "'x auxfs \<Rightarrow> bytes \<Rightarrow> bytes \<Rightarrow> ('b, 'x, status) fsop" where
  "aux_rename af source_path dest_path fs s =
     do { d \<leftarrow> ToAuxPath dest_path fs; aux_op (\<lambda>p. af_RenameFile af p d) source_path fs s }"

definition RollbackAuxDirRenameNoLock ::
  "(bytes \<Rightarrow> bytes \<Rightarrow> ('b, 'x, status) fsop) \<Rightarrow> 'x auxfs \<Rightarrow> bytes \<Rightarrow> bytes \<Rightarrow> bytes list
    \<Rightarrow> ('b, 'x, status) fsop" where
  "RollbackAuxDirRenameNoLock ren af source_path dest_path renamed fs s =
     do { ((st, _), fs, s) \<leftarrow> rename_children ren dest_path source_path renamed [] fs s;
          if \<not> ok st
          then Some (Corruption (str ''RollbackAuxDirRenameNoLock: Failed to roll back directory rename'') [], fs, s)
          else do {
            (st, fs, s) \<leftarrow> aux_rename af dest_path source_path fs s;
            if \<not> ok st
            then Some (Corruption (str ''RollbackAuxDirRenameNoLock: Failed to roll back auxiliary path ''
                   @ str ''renaming'') [], fs, s)
            else Some (st, fs, s) } }"

definition RenameAuxPathNoLock ::
  "(bytes \<Rightarrow> bytes \<Rightarrow> ('b, 'x, status) fsop) \<Rightarrow> 'x auxfs \<Rightarrow> bytes \<Rightarrow> bytes \<Rightarrow> ('b, 'x, status) fsop" where
  "RenameAuxPathNoLock ren af source_path dest_path fs s =
     do { (st, fs, s) \<leftarrow> aux_rename af source_path dest_path fs s;
          if \<not> ok st then Some (st, fs, s)
          else do {
            ((st, renamed), fs, s) \<leftarrow> rename_children ren source_path dest_path
               (GetAquaFSChildrenNoLock source_path True fs) [] fs s;
            if ok st then Some (st, fs, s)
            else do {
              (st', fs, s) \<leftarrow> RollbackAuxDirRenameNoLock ren af source_path dest_path renamed fs s;
              Some (if \<not> ok st' then st' else st, fs, s) } } }"

text \<open>The recursion goes through the children of a directory; \<open>n\<close> bounds its depth.\<close>

fun RenameFileNoLock :: "nat \<Rightarrow> 'b backend \<Rightarrow> 'x auxfs \<Rightarrow> bytes \<Rightarrow> bytes \<Rightarrow> ('b, 'x, status) fsop" where
  "RenameFileNoLock n be af src_path dst_path fs s =
     (let source_path = FormatPathLexically src_path; dest_path = FormatPathLexically dst_path in
      case GetFileNoLock source_path fs of
        Some a \<Rightarrow> rename_zone_file be af source_path dest_path a fs s
      | None \<Rightarrow>
          (case n of 0 \<Rightarrow> None
           | Suc m \<Rightarrow> RenameAuxPathNoLock (RenameFileNoLock m be af) af source_path dest_path fs s))"

declare RenameFileNoLock.simps [simp del]

definition RenameFile :: "nat \<Rightarrow> 'b backend \<Rightarrow> 'x auxfs \<Rightarrow> bytes \<Rightarrow> bytes \<Rightarrow> ('b, 'x, status) fsop" where
  "RenameFile n be af source_path dest_path fs s =
     map_option (then_reset be) (RenameFileNoLock n be af source_path dest_path fs s)"

subsection \<open>Links\<close>

definition LinkFile :: "'b backend \<Rightarrow> 'x auxfs \<Rightarrow> bytes \<Rightarrow> bytes \<Rightarrow> ('b, 'x, status) fsop" where
  "LinkFile be af filename link fs s =
     (let fname = FormatPathLexically filename; lname = FormatPathLexically link in
      if GetFileNoLock lname fs \<noteq> None
      then Some (InvalidArgument (str ''Failed to create link, target exists'') [], fs, s)
      else case GetFileNoLock fname fs of
        Some a \<Rightarrow>
          let fs = insert_file lname a (set_obj a (AddLinkName lname (fs_objs fs a)) fs) in
          do { (st, fs, s) \<leftarrow> SyncFileMetadataNoLock be a False fs s;
               if ok st then Some (st, fs, s)
               else let (st, f) = RemoveLinkName lname (fs_objs fs a); fs = set_obj a f fs in
                 if \<not> ok st then Some (st, fs, s) else Some (st, erase_file lname fs, s) }
      | None \<Rightarrow>
          do { d \<leftarrow> ToAuxPath lname fs; aux_op (\<lambda>p. af_LinkFile af p d) fname fs s })"

subsection \<open>Queries\<close>

definition fs_query :: "(zfile \<Rightarrow> 'r) \<Rightarrow> (bytes \<Rightarrow> 'x \<Rightarrow> status \<times> 'r) \<Rightarrow> bytes \<Rightarrow> 'x aquafs \<Rightarrow> (status \<times> 'r) option" where
  "fs_query g h filename fs =
     (let fname = FormatPathLexically filename in
      case GetFileNoLock fname fs of
        Some a \<Rightarrow> Some (OK, g (fs_objs fs a))
      | None \<Rightarrow> do { p \<leftarrow> ToAuxPath fname fs; Some (h p (fs_aux fs)) })"

definition NumFileLinks :: "'x auxfs \<Rightarrow> bytes \<Rightarrow> 'x aquafs \<Rightarrow> (status \<times> u64) option" where
  "NumFileLinks af filename fs = fs_query (\<lambda>f. ucast (GetNrLinks f)) (af_NumFileLinks af) filename fs"

text \<open>These two look the name up without normalising it a second time.\<close>

definition fs_lookup_query :: "(zfile \<Rightarrow> 'r) \<Rightarrow> (bytes \<Rightarrow> 'x \<Rightarrow> status \<times> 'r) \<Rightarrow> bytes \<Rightarrow> 'x aquafs \<Rightarrow> (status \<times> 'r) option" where
  "fs_lookup_query g h filename fs =
     (let f = FormatPathLexically filename in
      case map_of (fs_files fs) f of
        Some a \<Rightarrow> Some (OK, g (fs_objs fs a))
      | None \<Rightarrow> do { p \<leftarrow> ToAuxPath f fs; Some (h p (fs_aux fs)) })"

definition fs_GetFileSize :: "'x auxfs \<Rightarrow> bytes \<Rightarrow> 'x aquafs \<Rightarrow> (status \<times> u64) option" where
  "fs_GetFileSize af = fs_lookup_query file_size (af_GetFileSize af)"

definition GetFileModificationTime :: "'x auxfs \<Rightarrow> bytes \<Rightarrow> 'x aquafs \<Rightarrow> (status \<times> u64) option" where
  "GetFileModificationTime af = fs_lookup_query m_time (af_GetFileModificationTime af)"

definition FileExists :: "'x auxfs \<Rightarrow> bytes \<Rightarrow> 'x aquafs \<Rightarrow> status option" where
  "FileExists af filename fs =
     (let fname = FormatPathLexically filename in
      if GetFileNoLock fname fs = None
      then do { p \<leftarrow> ToAuxPath fname fs; Some (af_FileExists af p (fs_aux fs)) } else Some OK)"

definition AreFilesSame :: "'x auxfs \<Rightarrow> bytes \<Rightarrow> bytes \<Rightarrow> 'x aquafs \<Rightarrow> status \<times> bool" where
  "AreFilesSame af filename linkf fs =
     (let fname = FormatPathLexically filename; link = FormatPathLexically linkf in
      case (GetFileNoLock fname fs, GetFileNoLock link fs) of
        (Some a, Some b) \<Rightarrow> (OK, file_id (fs_objs fs a) = file_id (fs_objs fs b))
      | _ \<Rightarrow> af_AreFilesSame af fname link (fs_aux fs))"

text \<open>The zone file of a new sequential or random access handle; \<open>None\<close> in the pair means that the
  auxiliary file system opens the file.\<close>

definition open_for_reading :: "bytes \<Rightarrow> 'x aquafs \<Rightarrow> nat option \<times> 'x aquafs" where
  "open_for_reading filename fs =
     (case GetFileNoLock (FormatPathLexically filename) fs of
        None \<Rightarrow> (None, fs)
      | Some a \<Rightarrow> (Some a, hold_obj a fs))"

end
