(* ===== verification/FsRecovery.thy ===== *)
theory FsRecovery
  imports AquaFS "HOL-Library.Product_Lexorder"
begin

text \<open>
  Reading the metadata log back (\<open>DecodeSnapshotFrom\<close>, \<open>DecodeFileUpdateFrom\<close>,
  \<open>DecodeFileDeletionFrom\<close>, \<open>RecoverFrom\<close>, \<open>Repair\<close>, \<open>Mount\<close> and \<open>MkFS\<close> of \<open>fs/fs_aquafs.cc\<close>).

  The two record kinds of RAID file systems change the layout of the RAID backend; what they do to
  it is the argument \<open>raid\<close>, which gets the tag and the data of the record.
\<close>

subsection \<open>Decoding records\<close>

text \<open>Emptying the table destroys every object no handle holds.\<close>

definition ClearFiles :: "'x aquafs \<Rightarrow> 'b zbd \<Rightarrow> 'x aquafs \<times> 'b zbd" where
  "ClearFiles fs s =
     (let objs = remdups (map snd (fs_files fs)); fs = fs\<lparr> fs_files := [] \<rparr> in
      fold (\<lambda>a (fs, s). drop_ref a fs s) objs (fs, s))"

definition bump_file_id :: "u64 \<Rightarrow> 'x aquafs \<Rightarrow> 'x aquafs" where
  "bump_file_id fid fs = (if fid \<ge> next_file_id fs then fs\<lparr> next_file_id := fid + 1 \<rparr> else fs)"

text \<open>The loop of \<open>DecodeSnapshotFrom\<close>.  A file that cannot be decoded is destroyed.\<close>

function decode_snapshot ::
  "'b backend \<Rightarrow> bytes \<Rightarrow> 'x aquafs \<Rightarrow> 'b zbd \<Rightarrow> status \<times> 'x aquafs \<times> 'b zbd" where
  "decode_snapshot be input fs s =
     (case GetLengthPrefixedSlice input of
        (None, _) \<Rightarrow> (OK, fs, s)
      | (Some sl, rest) \<Rightarrow>
          (case file_DecodeFrom be sl (new_ZoneFile 0) s of (st, f, s1) \<Rightarrow>
             if \<not> ok st then (st, fs, snd (ClearExtents f s1))
             else let fs = bump_file_id (file_id f) fs; (a, fs) = new_obj f fs;
                      fs = fold (\<lambda>n. insert_file n a) (linkfiles f) fs;
                      (fs, s2) = drop_ref a fs s1 in
               decode_snapshot be rest fs s2))"
  by pat_completeness auto
termination
  by (relation "measure (\<lambda>(be, input, fs, s). length input)")
    (auto dest!: GetLengthPrefixedSlice_shorter [OF sym])

declare decode_snapshot.simps [simp del]

definition DecodeSnapshotFrom :: "'b backend \<Rightarrow> bytes \<Rightarrow> 'x aquafs \<Rightarrow> 'b zbd \<Rightarrow> status \<times> 'x aquafs \<times> 'b zbd" where
  "DecodeSnapshotFrom be input fs s = decode_snapshot be input fs s"

text \<open>The names of a file leave the table; the result is whether all of them were in it.\<close>

fun erase_links :: "bytes list \<Rightarrow> 'x aquafs \<Rightarrow> bool \<times> 'x aquafs" where
  "erase_links [] fs = (True, fs)"
| "erase_links (n # ns) fs =
     (if map_of (fs_files fs) n = None then (False, fs) else erase_links ns (erase_file n fs))"

text \<open>The object of the file with the given id that comes first in the table.\<close>

definition find_id :: "u64 \<Rightarrow> 'x aquafs \<Rightarrow> nat option" where
  "find_id fid fs = List.find (\<lambda>a. file_id (fs_objs fs a) = fid) (map snd (fs_files fs))"

text \<open>\<open>update\<close> is destroyed when the function returns unless it became a new file.\<close>

definition DecodeFileUpdateFrom :: "'b backend \<Rightarrow> bytes \<Rightarrow> bool \<Rightarrow> ('b, 'x, status) fsop" where
  "DecodeFileUpdateFrom be sl replace fs s =
     (case file_DecodeFrom be sl (new_ZoneFile 0) s of (st, update, s) \<Rightarrow>
        if \<not> ok st then Some (st, fs, snd (ClearExtents update s))
        else let fs = bump_file_id (file_id update) fs in
          case find_id (file_id update) fs of
            Some a \<Rightarrow>
              let (found, fs) = erase_links (linkfiles (fs_objs fs a)) fs in
              if \<not> found
              then (let s = snd (ClearExtents update s); (fs, s) = drop_ref a fs s in
                    Some (Corruption (str ''DecodeFileUpdateFrom: missing link file'') [], fs, s))
              else let (st, f, s) = MergeUpdate update replace (fs_objs fs a) s;
                       s = snd (ClearExtents update s); fs = set_obj a f fs;
                       fs = (if ok st then fold (\<lambda>n. insert_file n a) (linkfiles f) fs else fs);
                       (fs, s) = drop_ref a fs s in
                Some (st, fs, s)
          | None \<Rightarrow>
              do { name \<leftarrow> GetFilename update;
                   let (a, fs) = new_obj update fs;
                   let (fs, s) = drop_ref a (insert_file name a fs) s;
                   Some (OK, fs, s) })"

definition deletion_error :: "string \<Rightarrow> status" where
  "deletion_error msg = Corruption (str ''Zone file deletion: '' @ str msg) []"

definition DecodeFileDeletionFrom :: "bytes \<Rightarrow> 'x aquafs \<Rightarrow> 'b zbd \<Rightarrow> status \<times> 'x aquafs \<times> 'b zbd" where
  "DecodeFileDeletionFrom input fs s =
     (case GetFixed64 input of
        None \<Rightarrow> (deletion_error ''file id missing'', fs, s)
      | Some (fileID, rest) \<Rightarrow>
          (case GetLengthPrefixedSlice rest of
             (None, _) \<Rightarrow> (deletion_error ''file name missing'', fs, s)
           | (Some fileName, _) \<Rightarrow>
               (case map_of (fs_files fs) fileName of
                  None \<Rightarrow> (deletion_error ''no such file'', fs, s)
                | Some a \<Rightarrow>
                    if file_id (fs_objs fs a) \<noteq> fileID then (deletion_error ''file ID missmatch'', fs, s)
                    else let fs = erase_file fileName fs;
                             (st, f) = RemoveLinkName fileName (fs_objs fs a);
                             (fs, s) = drop_ref a (set_obj a f fs) s in
                      (if \<not> ok st then deletion_error ''file links missmatch'' else OK, fs, s))))"

subsection \<open>Replaying a log\<close>

text \<open>One record; \<open>snap\<close> says whether a snapshot has been seen.\<close>

definition apply_record ::
  "'b backend \<Rightarrow> (u32 \<Rightarrow> bytes \<Rightarrow> 'b \<Rightarrow> status \<times> 'b) \<Rightarrow> u32 \<Rightarrow> bytes \<Rightarrow> bool \<Rightarrow> ('b, 'x, status \<times> bool) fsop" where
  "apply_record be raid tag data snap fs s =
     (if tag = kCompleteFilesSnapshot then
        (let (fs, s) = ClearFiles fs s; (st, fs, s) = DecodeSnapshotFrom be data fs s in
         Some ((st, ok st \<or> snap), fs, s))
      else if tag = kFileUpdate then
        do { (st, fs, s) \<leftarrow> DecodeFileUpdateFrom be data False fs s; Some ((st, snap), fs, s) }
      else if tag = kFileReplace then
        do { (st, fs, s) \<leftarrow> DecodeFileUpdateFrom be data True fs s; Some ((st, snap), fs, s) }
      else if tag = kFileDeletion then
        (let (st, fs, s) = DecodeFileDeletionFrom data fs s in Some ((st, snap), fs, s))
      else if tag = kRaidInfoAppend \<or> tag = kBlockingDeviceZones then
        (let (st, b) = raid tag data (zbd_be s) in Some ((st, snap), fs, s\<lparr> zbd_be := b \<rparr>))
      else Some ((Corruption (str ''AquaFS'') (str ''Unexpected tag''), snap), fs, s))"

definition recovery_result :: "bool \<Rightarrow> status" where
  "recovery_result snap = (if snap then OK else NotFound (str ''AquaFS'') (str ''No snapshot found''))"

partial_function (option) recover_loop ::
  "'b backend \<Rightarrow> (u32 \<Rightarrow> bytes \<Rightarrow> 'b \<Rightarrow> status \<times> 'b) \<Rightarrow> metalog \<Rightarrow> bool \<Rightarrow> 'x aquafs \<Rightarrow> 'b zbd
    \<Rightarrow> ((status \<times> metalog) \<times> 'x aquafs \<times> 'b zbd) option" where
  "recover_loop be raid ml snap fs s =
     (case ReadRecord be ml s of
        None \<Rightarrow> None
      | Some (rs, record, ml, s) \<Rightarrow>
          if \<not> ok rs then Some ((Corruption (str ''AquaFS'') (str ''Metadata corruption''), ml), fs, s)
          else case GetFixed32 record of
            None \<Rightarrow> Some ((recovery_result snap, ml), fs, s)
          | Some (tag, rest) \<Rightarrow>
              if tag = kEndRecord then Some ((recovery_result snap, ml), fs, s)
              else case fst (GetLengthPrefixedSlice rest) of
                None \<Rightarrow> Some ((Corruption (str ''AquaFS'') (str ''No recovery record data''), ml), fs, s)
              | Some data \<Rightarrow>
                  (case apply_record be raid tag data snap fs s of
                     None \<Rightarrow> None
                   | Some ((st, snap), fs, s) \<Rightarrow>
                       if \<not> ok st then Some ((st, ml), fs, s) else recover_loop be raid ml snap fs s))"

declare recover_loop.simps [code]

definition RecoverFrom ::
  "'b backend \<Rightarrow> (u32 \<Rightarrow> bytes \<Rightarrow> 'b \<Rightarrow> status \<times> 'b) \<Rightarrow> metalog \<Rightarrow> ('b, 'x, status \<times> metalog) fsop" where
  "RecoverFrom be raid ml fs s = recover_loop be raid ml False fs s"

text \<open>\<open>Repair\<close>: the active extent of every file is recovered.\<close>

fun repair_files :: "'b backend \<Rightarrow> nat list \<Rightarrow> ('b, 'x, status) fsop" where
  "repair_files be [] fs s = Some (OK, fs, s)"
| "repair_files be (a # as) fs s =
     (if HasActiveExtent (fs_objs fs a)
      then do { (st, f, s) \<leftarrow> Recover be (fs_objs fs a) s;
                let fs = set_obj a f fs;
                if \<not> ok st then Some (st, fs, s) else repair_files be as fs s }
      else repair_files be as fs s)"

definition Repair :: "'b backend \<Rightarrow> ('b, 'x, status) fsop" where
  "Repair be fs s = repair_files be (map snd (fs_files fs)) fs s"

subsection \<open>Mounting\<close>

text \<open>The valid superblocks with their logs, in the order of the metadata zones.  A log that is
  dropped releases its zone; an error drops all of them.\<close>

definition drop_logs :: "metalog list \<Rightarrow> 'b zbd \<Rightarrow> 'b zbd" where
  "drop_logs mls s = fold delete_AquaMetaLog mls s"

text \<open>The default superblock, before anything is read into it.\<close>

definition default_Superblock :: superblock where
  "default_Superblock = \<lparr> sb_magic = 0, sb_uuid = replicate 37 0, sb_sequence = 0, sb_version = 0,
     sb_flags = 0, sb_block_size = 0, sb_zone_size = 0, sb_nr_zones = 0,
     sb_aux_fs_path = replicate 256 0, sb_finish_treshold = 0, sb_aquafs_version = replicate 64 0,
     sb_raid_info = raid_info_empty, sb_reserved = replicate 103 0 \<rparr>"

fun find_superblocks ::
  "'b backend \<Rightarrow> raid_dev option \<Rightarrow> nat list \<Rightarrow> (superblock \<times> metalog) list \<Rightarrow> 'b zbd
    \<Rightarrow> (status \<times> (superblock \<times> metalog) list \<times> 'b zbd) option" where
  "find_superblocks be rd [] acc s = Some (OK, acc, s)"
| "find_superblocks be rd (i # is) acc s =
     (let (acq, z) = Acquire (meta_zones s ! i) in
      if \<not> acq
      then Some (Aborted (str ''Could not aquire busy flag of zone''
                   @ to_string (unat (GetZoneNr (GetZoneSize be s) z))) [], [], drop_logs (map snd acc) s)
      else let s = set_meta i z s in
        do { (st, record, ml, s) \<leftarrow> ReadRecord be (new_AquaMetaLog be i s) s;
             if \<not> ok st \<or> record = [] then find_superblocks be rd is acc (delete_AquaMetaLog ml s)
             else let (st, sb) = sb_DecodeFrom record default_Superblock;
                      st = (if ok st then CompatibleWith be rd sb s else st) in
               if \<not> ok st then Some (st, [], drop_logs (map snd acc @ [ml]) s)
               else find_superblocks be rd is (acc @ [(sb, ml)]) s })"

text \<open>The indices of the superblocks by descending sequence number, and by descending index among
  equal ones.\<close>

definition seq_order :: "superblock list \<Rightarrow> nat list" where
  "seq_order sbs = map snd (rev (sort (zip (map sb_sequence sbs) [0..<length sbs])))"

text \<open>Recovery from the first log that has a snapshot; the rest of the order is returned with it.\<close>

fun recover_any ::
  "'b backend \<Rightarrow> (u32 \<Rightarrow> bytes \<Rightarrow> 'b \<Rightarrow> status \<times> 'b) \<Rightarrow> (superblock \<times> metalog) list \<Rightarrow> nat list
    \<Rightarrow> ('b, 'x, status \<times> (nat \<times> metalog) option) fsop" where
  "recover_any be raid logs [] fs s = Some ((IOError (str ''Failed to mount filesystem'') [], None), fs, s)"
| "recover_any be raid logs (i # is) fs s =
     do { ((st, ml), fs, s) \<leftarrow> RecoverFrom be raid (snd (logs ! i)) fs s;
          if ok st then Some ((OK, Some (i, ml)), fs, s)
          else if IsNotFound st then recover_any be raid logs is fs (delete_AquaMetaLog ml s)
          else Some ((st, None), fs, drop_logs (map (\<lambda>j. snd (logs ! j)) (i # is)) s) }"

definition rest_after :: "nat \<Rightarrow> nat list \<Rightarrow> nat list" where
  "rest_after r is = tl (dropWhile (\<lambda>i. i \<noteq> r) is)"

definition Mount ::
  "'b backend \<Rightarrow> 'x auxfs \<Rightarrow> raid_dev option \<Rightarrow> (u32 \<Rightarrow> bytes \<Rightarrow> 'b \<Rightarrow> status \<times> 'b) \<Rightarrow> bool \<Rightarrow> ('b, 'x, status) fsop" where
  "Mount be af rd raid readonly fs s =
     (if length (meta_zones s) < 2 then Some (NotSupported_sc kNone, fs, s)
      else do {
        (st, logs, s) \<leftarrow> find_superblocks be rd [0..<length (meta_zones s)] [] s;
        if \<not> ok st then Some (st, fs, s)
        else if logs = [] then Some (NotFound (str ''No valid superblock found'') [], fs, s)
        else let order = seq_order (map fst logs) in
          do { ((st, found), fs, s) \<leftarrow> recover_any be raid logs order fs s;
               case found of
                 None \<Rightarrow> Some (st, fs, s)
               | Some (r, ml) \<Rightarrow>
                   let sb = fst (logs ! r);
                       others = map (\<lambda>j. snd (logs ! j)) (rest_after r order);
                       fs = fs\<lparr> fs_meta_log := Some ml, fs_superblock := Some sb \<rparr>;
                       s = setFinishThreshold (sb_finish_treshold sb) s;
                       (st, x) = af_CreateDirIfMissing af (GetAuxFsPath sb) (fs_aux fs);
                       fs = fs\<lparr> fs_aux := x \<rparr>; s = drop_logs others s in
                   if \<not> ok st \<or> readonly then Some (st, fs, s)
                   else do {
                     (st, fs, s) \<leftarrow> Repair be fs s;
                     if \<not> ok st then Some (st, fs, s)
                     else do {
                       (st, fs, s) \<leftarrow> RollMetaZoneLocked be fs s;
                       if \<not> ok st then Some (st, fs, s)
                       else (let (st, s) = ResetUnusedIOZones be s in Some (st, fs, s)) } } } })"

subsection \<open>Creating a file system\<close>

text \<open>The loop over the metadata zones: every zone is reset, the first that can be is kept.\<close>

fun mkfs_reset ::
  "'b backend \<Rightarrow> nat list \<Rightarrow> nat option \<Rightarrow> 'b zbd \<Rightarrow> status \<times> nat option \<times> 'b zbd" where
  "mkfs_reset be [] mz s = (OK, mz, s)"
| "mkfs_reset be (i # is) mz s =
     (let (acq, z) = Acquire (meta_zones s ! i) in
      if \<not> acq
      then (Aborted (str ''Could not aquire busy flag of zone ''
              @ to_string (unat (GetZoneNr (GetZoneSize be s) z))) [], mz, s)
      else let (st, z1, b1) = Reset be z (zbd_be s);
               mz = (if ok st \<and> mz = None then Some i else mz) in
        if mz = Some i then mkfs_reset be is mz (set_meta i z1 (s\<lparr> zbd_be := b1 \<rparr>))
        else let (r, z2) = Release z1; s = set_meta i z2 (s\<lparr> zbd_be := b1 \<rparr>) in
          if \<not> r
          then (Aborted (str ''Could not unset busy flag of zone ''
                  @ to_string (unat (GetZoneNr (GetZoneSize be s) z2))) [], mz, s)
          else mkfs_reset be is mz s)"

text \<open>The log of the new file system is local: it is given up when \<open>MkFS\<close> returns.\<close>

definition MkFS ::
  "'b backend \<Rightarrow> raid_dev option \<Rightarrow> bytes \<Rightarrow> bytes \<Rightarrow> bytes \<Rightarrow> u32 \<Rightarrow> bool \<Rightarrow> ('b, 'x, status) fsop" where
  "MkFS be rd uuid version aux_fs_p ft enable_gc fs s =
     (let aux_fs_path = FormatPathLexically aux_fs_p in
      if length aux_fs_path > 255
      then Some (InvalidArgument (str ''Aux filesystem path must be less than 256 bytes'' @ [10]) [], fs, s)
      else let (fs, s) = ClearFiles fs s; (st, s) = ResetUnusedIOZones be s in
        if \<not> ok st then Some (st, fs, s)
        else let (st, mz, s) = mkfs_reset be [0..<length (meta_zones s)] None s in
          if \<not> ok st then Some (st, fs, s)
          else case mz of
            None \<Rightarrow> Some (IOError (str ''Not available meta zones'' @ [10]) [], fs, s)
          | Some i \<Rightarrow>
              let ml = new_AquaMetaLog be i s;
                  (super_string, _) = sb_EncodeTo (new_Superblock be rd uuid version aux_fs_path ft enable_gc False s) in
              do { (st, s) \<leftarrow> AddRecord be ml super_string s;
                   if \<not> ok st then Some (st, fs, delete_AquaMetaLog ml s)
                   else do {
                     (st, fs, s) \<leftarrow> PersistSnapshot be ml fs s;
                     Some (if \<not> ok st then IOError (str ''Failed persist snapshot'') [] else OK,
                           fs, delete_AquaMetaLog ml s) } })"

end
