(* ===== verification/NameTable.thy ===== *)
theory NameTable
  imports AquaFS
begin

text \<open>
  The table of files: the invariant that ties the names in the table to the link names of the
  files.  Every operation on names keeps the
  invariant, on its error paths too.
\<close>

subsection \<open>What persisting changes\<close>

text \<open>Writing metadata changes only the log, the superblock, which extents count as synced, and the
  modification time.\<close>

definition but_synced :: "zfile \<Rightarrow> zfile" where
  "but_synced f = f\<lparr> nr_synced_extents := 0, m_time := 0 \<rparr>"

definition resynced :: "'x aquafs \<Rightarrow> 'x aquafs \<Rightarrow> bool" where
  "resynced fs fs' = (fs_files fs' = fs_files fs \<and> fs_next_obj fs' = fs_next_obj fs
     \<and> fs_handles fs' = fs_handles fs \<and> next_file_id fs' = next_file_id fs \<and> fs_aux fs' = fs_aux fs
     \<and> fs_now fs' = fs_now fs \<and> (\<forall>a. but_synced (fs_objs fs' a) = but_synced (fs_objs fs a)))"

lemma but_synced_simps [simp]:
  "but_synced (f\<lparr> nr_synced_extents := k \<rparr>) = but_synced f" "but_synced (f\<lparr> m_time := t \<rparr>) = but_synced f"
  "but_synced (MetadataSynced f) = but_synced f"
  by (simp_all add: but_synced_def MetadataSynced_def)

lemma but_synced_fields:
  assumes "but_synced f = but_synced g"
  shows "extents f = extents g" "linkfiles f = linkfiles g" "active_zone f = active_zone g"
    "extent_start f = extent_start g" "file_size f = file_size g" "file_id f = file_id g"
    "is_deleted f = is_deleted g" "open_for_wr f = open_for_wr g" "is_sparse f = is_sparse g"
    "zf_lifetime f = zf_lifetime g" "extent_filepos f = extent_filepos g" "io_type f = io_type g"
  using arg_cong [OF assms, of extents] arg_cong [OF assms, of linkfiles] arg_cong [OF assms, of active_zone]
    arg_cong [OF assms, of extent_start] arg_cong [OF assms, of file_size] arg_cong [OF assms, of file_id]
    arg_cong [OF assms, of is_deleted] arg_cong [OF assms, of open_for_wr] arg_cong [OF assms, of is_sparse]
    arg_cong [OF assms, of zf_lifetime] arg_cong [OF assms, of extent_filepos] arg_cong [OF assms, of io_type]
  by (simp_all add: but_synced_def)

lemma resynced_refl [simp, intro]: "resynced fs fs"
  by (simp add: resynced_def)

lemma resynced_trans: "resynced fs fs1 \<Longrightarrow> resynced fs1 fs2 \<Longrightarrow> resynced fs fs2"
  by (simp add: resynced_def)

lemma resynced_set_obj: "but_synced f = but_synced (fs_objs fs a) \<Longrightarrow> resynced fs (set_obj a f fs)"
  by (simp add: resynced_def set_obj_def)

lemma resynced_log [simp, intro]:
  "resynced fs (fs\<lparr> fs_meta_log := l \<rparr>)" "resynced fs (fs\<lparr> fs_superblock := b \<rparr>)"
  by (simp_all add: resynced_def)

lemma resynced_sync_all: "resynced fs (sync_all fs)"
proof -
  have "resynced fs (fold (\<lambda>e fs. set_obj (snd e) (MetadataSynced (fs_objs fs (snd e))) fs) es fs)" for es
  proof (induction es arbitrary: fs)
    case (Cons e es)
    have "resynced fs (set_obj (snd e) (MetadataSynced (fs_objs fs (snd e))) fs)"
      by (rule resynced_set_obj) simp
    from resynced_trans [OF this Cons] show ?case by simp
  qed simp
  then show ?thesis by (simp add: sync_all_def)
qed

lemma resynced_WriteSnapshot: "WriteSnapshotLocked be ml fs s = Some (st, fs', s') \<Longrightarrow> resynced fs fs'"
  by (auto simp: WriteSnapshotLocked_def resynced_sync_all bind_eq_Some_conv split: if_splits)

lemma resynced_Roll:
  assumes "RollMetaZoneLocked be fs s = Some (st, fs', s')"
  shows "resynced fs fs'"
proof -
  obtain st1 zn s1 where al: "AllocateMetaZone be s = (st1, zn, s1)" by (metis prod_cases3)
  show ?thesis
  proof (cases "ok st1 \<and> zn \<noteq> None")
    case False
    then show ?thesis using assms al by (auto simp: RollMetaZoneLocked_def split: if_splits)
  next
    case True
    then obtain i where i: "ok st1" "zn = Some i" by auto
    let ?fs1 = "fs\<lparr> fs_meta_log := Some (new_AquaMetaLog be i s1) \<rparr>"
    obtain sb where "fs_superblock fs = Some sb"
      using assms al i by (auto simp: RollMetaZoneLocked_def Let_def bind_eq_Some_conv)
    obtain ss sb' where sb': "sb_EncodeTo sb = (ss, sb')" by fastforce
    let ?fs2 = "?fs1\<lparr> fs_superblock := Some sb' \<rparr>"
    have r2: "resynced fs ?fs2" by (simp add: resynced_def)
    have "fs' = ?fs2 \<or> (\<exists>st s s'. WriteSnapshotLocked be (new_AquaMetaLog be i s1) ?fs2 s = Some (st, fs', s'))"
      using assms al i \<open>fs_superblock fs = Some sb\<close> sb'
      by (auto simp: RollMetaZoneLocked_def Let_def bind_eq_Some_conv split: prod.splits if_splits)
    then show ?thesis using r2 resynced_WriteSnapshot resynced_trans by blast
  qed
qed

lemma resynced_PersistSnapshot: "PersistSnapshot be ml fs s = Some (st, fs', s') \<Longrightarrow> resynced fs fs'"
  by (auto simp: PersistSnapshot_def bind_eq_Some_conv split: if_splits
      dest!: resynced_WriteSnapshot resynced_Roll intro: resynced_trans)

lemma resynced_PersistRecord: "PersistRecord be r fs s = Some (st, fs', s') \<Longrightarrow> resynced fs fs'"
  by (auto simp: PersistRecord_def bind_eq_Some_conv split: if_splits dest!: resynced_Roll)

lemma resynced_SyncFileMetadata:
  assumes "SyncFileMetadataNoLock be a replace fs s = Some (st, fs', s')"
  shows "resynced fs fs'"
proof (cases "is_deleted (fs_objs fs a)")
  case True
  then show ?thesis using assms by (auto simp: SyncFileMetadataNoLock_def bind_eq_Some_conv)
next
  case False
  define fs1 where "fs1 = (if replace then fs else set_obj a ((fs_objs fs a)\<lparr> m_time := fs_now fs \<rparr>) fs)"
  have r1: "resynced fs fs1" by (simp add: fs1_def resynced_set_obj)
  obtain st2 fs2 s2 where p: "PersistRecord be (file_record replace (fs_objs fs1 a)) fs1 s = Some (st2, fs2, s2)"
    and fs': "fs' = (if ok st2 then set_obj a (MetadataSynced (fs_objs fs2 a)) fs2 else fs2)"
    using assms False by (auto simp: SyncFileMetadataNoLock_def fs1_def Let_def bind_eq_Some_conv)
  have "resynced fs fs2" using resynced_trans [OF r1 resynced_PersistRecord [OF p]] .
  moreover have "resynced fs2 (set_obj a (MetadataSynced (fs_objs fs2 a)) fs2)" by (rule resynced_set_obj) simp
  ultimately show ?thesis using resynced_trans fs' by auto
qed

subsection \<open>The invariant of the table\<close>

text \<open>The files of the table are live objects with distinct ids below the next one, and the names
  under which a file stands in the table are exactly its link names.\<close>

definition names_ok :: "'x aquafs \<Rightarrow> bool" where
  "names_ok fs = (sorted_keys (fs_files fs)
     \<and> (\<forall>n a. map_of (fs_files fs) n = Some a \<longrightarrow> a < fs_next_obj fs \<and> \<not> is_deleted (fs_objs fs a)
         \<and> distinct (linkfiles (fs_objs fs a)) \<and> file_id (fs_objs fs a) < next_file_id fs
         \<and> (\<forall>m. m \<in> set (linkfiles (fs_objs fs a)) \<longleftrightarrow> map_of (fs_files fs) m = Some a))
     \<and> (\<forall>n a m b. map_of (fs_files fs) n = Some a \<longrightarrow> map_of (fs_files fs) m = Some b
         \<longrightarrow> file_id (fs_objs fs a) = file_id (fs_objs fs b) \<longrightarrow> a = b))"

lemma names_okD:
  assumes "names_ok fs" "map_of (fs_files fs) n = Some a"
  shows "a < fs_next_obj fs" "\<not> is_deleted (fs_objs fs a)" "distinct (linkfiles (fs_objs fs a))"
    "file_id (fs_objs fs a) < next_file_id fs"
    "m \<in> set (linkfiles (fs_objs fs a)) \<longleftrightarrow> map_of (fs_files fs) m = Some a"
    "n \<in> set (linkfiles (fs_objs fs a))"
  using assms unfolding names_ok_def by blast+

lemma names_ok_sorted: "names_ok fs \<Longrightarrow> sorted_keys (fs_files fs)"
  by (simp add: names_ok_def)

lemma names_ok_ids:
  "names_ok fs \<Longrightarrow> map_of (fs_files fs) n = Some a \<Longrightarrow> map_of (fs_files fs) m = Some b
    \<Longrightarrow> file_id (fs_objs fs a) = file_id (fs_objs fs b) \<Longrightarrow> a = b"
  unfolding names_ok_def by blast

lemma names_ok_resynced:
  assumes "resynced fs fs'" "names_ok fs"
  shows "names_ok fs'"
proof -
  have "linkfiles (fs_objs fs' a) = linkfiles (fs_objs fs a)" "file_id (fs_objs fs' a) = file_id (fs_objs fs a)"
    "is_deleted (fs_objs fs' a) = is_deleted (fs_objs fs a)" for a
    using assms(1) but_synced_fields [of "fs_objs fs' a" "fs_objs fs a"] by (simp_all add: resynced_def)
  with assms show ?thesis by (simp add: names_ok_def resynced_def)
qed

text \<open>Changing an object that is not in the table.\<close>

lemma names_ok_outside:
  assumes "names_ok fs" "\<And>n. map_of (fs_files fs) n \<noteq> Some a"
  shows "names_ok (set_obj a f fs)"
proof -
  have same: "fs_objs (set_obj a f fs) b = fs_objs fs b" if "map_of (fs_files fs) n = Some b" for n b
    using that assms(2) by (auto simp: set_obj_def)
  have rest: "fs_files (set_obj a f fs) = fs_files fs" "fs_next_obj (set_obj a f fs) = fs_next_obj fs"
    "next_file_id (set_obj a f fs) = next_file_id fs"
    by (simp_all add: set_obj_def)
  show ?thesis
    unfolding names_ok_def rest
    using names_ok_sorted [OF assms(1)] names_okD [OF assms(1)] names_ok_ids [OF assms(1)]
    by (simp add: same)
qed

lemma names_ok_drop_ref:
  assumes "names_ok fs" "drop_ref a fs s = (fs', s')"
  shows "names_ok fs'" "fs_files fs' = fs_files fs" "next_file_id fs' = next_file_id fs"
    "linkfiles (fs_objs fs' b) = linkfiles (fs_objs fs b)" "fs_next_obj fs' = fs_next_obj fs"
proof -
  have out: "map_of (fs_files fs) n \<noteq> Some a" if "a \<notin> snd ` set (fs_files fs)" for n
    using that by (metis image_eqI map_of_SomeD snd_conv)
  show "names_ok fs'" "fs_files fs' = fs_files fs" "next_file_id fs' = next_file_id fs"
    "linkfiles (fs_objs fs' b) = linkfiles (fs_objs fs b)" "fs_next_obj fs' = fs_next_obj fs"
    using assms names_ok_outside [OF assms(1) out]
    by (auto simp: drop_ref_def ClearExtents_def set_obj_def split: if_splits)
qed

lemma obj_simps [simp]:
  "fs_files (set_obj a f fs) = fs_files fs" "fs_objs (set_obj a f fs) b = (if b = a then f else fs_objs fs b)"
  "fs_next_obj (set_obj a f fs) = fs_next_obj fs" "next_file_id (set_obj a f fs) = next_file_id fs"
  "fs_files (erase_file n fs) = map_erase n (fs_files fs)" "fs_objs (erase_file n fs) = fs_objs fs"
  "fs_files (insert_file n a fs) = map_insert n a (fs_files fs)" "fs_objs (insert_file n a fs) = fs_objs fs"
  "next_file_id (erase_file n fs) = next_file_id fs" "next_file_id (insert_file n a fs) = next_file_id fs"
  "fs_next_obj (erase_file n fs) = fs_next_obj fs" "fs_next_obj (insert_file n a fs) = fs_next_obj fs"
  by (simp_all add: set_obj_def erase_file_def insert_file_def)

text \<open>A name leaves the table and its file; a free name enters both.\<close>

lemma names_ok_remove:
  assumes "names_ok fs" "map_of (fs_files fs) n = Some a"
    "linkfiles f = remove1 n (linkfiles (fs_objs fs a))" "file_id f = file_id (fs_objs fs a)"
    "is_deleted f = is_deleted (fs_objs fs a)"
  shows "names_ok (set_obj a f (erase_file n fs))"
proof -
  note a = names_okD [OF assms(1,2)]
  have links: "m \<in> set (linkfiles f) \<longleftrightarrow> map_of (fs_files fs) m = Some a \<and> m \<noteq> n" for m
    using a(3) a(5) [of m] assms(3) by simp
  show ?thesis
    unfolding names_ok_def
  proof (intro conjI allI impI)
    show "sorted_keys (fs_files (set_obj a f (erase_file n fs)))"
      using names_ok_sorted [OF assms(1)] by (simp add: sorted_erase)
  next
    fix m b
    assume "map_of (fs_files (set_obj a f (erase_file n fs))) m = Some b"
    then have mb: "map_of (fs_files fs) m = Some b" "m \<noteq> n" by (auto simp: map_of_erase split: if_splits)
    note b = names_okD [OF assms(1) mb(1)]
    show "b < fs_next_obj (set_obj a f (erase_file n fs))" using b(1) by simp
    show "\<not> is_deleted (fs_objs (set_obj a f (erase_file n fs)) b)" using b(2) assms(5) a(2) by simp
    show "distinct (linkfiles (fs_objs (set_obj a f (erase_file n fs)) b))"
      using b(3) a(3) assms(3) by simp
    show "file_id (fs_objs (set_obj a f (erase_file n fs)) b) < next_file_id (set_obj a f (erase_file n fs))"
      using b(4) a(4) assms(4) by simp
    fix j
    show "(j \<in> set (linkfiles (fs_objs (set_obj a f (erase_file n fs)) b)))
        = (map_of (fs_files (set_obj a f (erase_file n fs))) j = Some b)"
      using b(5) [of j] links [of j] assms(2) by (auto simp: map_of_erase)
  next
    fix m b k c
    assume "map_of (fs_files (set_obj a f (erase_file n fs))) m = Some b"
      "map_of (fs_files (set_obj a f (erase_file n fs))) k = Some c"
    then have mb: "map_of (fs_files fs) m = Some b" "map_of (fs_files fs) k = Some c"
      by (auto simp: map_of_erase split: if_splits)
    assume "file_id (fs_objs (set_obj a f (erase_file n fs)) b) = file_id (fs_objs (set_obj a f (erase_file n fs)) c)"
    then have "file_id (fs_objs fs b) = file_id (fs_objs fs c)"
      using assms(4) by (auto split: if_splits)
    then show "b = c" using names_ok_ids [OF assms(1) mb] by simp
  qed
qed

lemma names_ok_add:
  assumes "names_ok fs" "map_of (fs_files fs) n = None"
    "set (linkfiles f) = insert n {m. map_of (fs_files fs) m = Some a}" "distinct (linkfiles f)"
    "\<not> is_deleted f" "a < fs_next_obj fs" "file_id f < next_file_id fs"
    "\<And>m b. map_of (fs_files fs) m = Some b \<Longrightarrow> file_id (fs_objs fs b) = file_id f \<Longrightarrow> b = a"
  shows "names_ok (insert_file n a (set_obj a f fs))"
proof -
  have look: "map_of (map_insert n a (fs_files fs)) = (map_of (fs_files fs))(n \<mapsto> a)"
    using map_of_insert [OF names_ok_sorted [OF assms(1)], of n a] assms(2) by simp
  have other: "map_of (fs_files fs) m = Some b \<Longrightarrow> b \<noteq> a \<Longrightarrow> m \<noteq> n" for m b
    using assms(2) by auto
  show ?thesis
    unfolding names_ok_def
  proof (intro conjI allI impI)
    show "sorted_keys (fs_files (insert_file n a (set_obj a f fs)))"
      using names_ok_sorted [OF assms(1)] by (simp add: sorted_insert)
  next
    fix m b
    assume "map_of (fs_files (insert_file n a (set_obj a f fs))) m = Some b"
    then have mb: "b = a \<or> b \<noteq> a \<and> map_of (fs_files fs) m = Some b" by (auto simp: look split: if_splits)
    show "b < fs_next_obj (insert_file n a (set_obj a f fs))"
      using mb assms(6) names_okD(1) [OF assms(1), of m b] by auto
    show "\<not> is_deleted (fs_objs (insert_file n a (set_obj a f fs)) b)"
      using mb assms(5) names_okD(2) [OF assms(1), of m b] by auto
    show "distinct (linkfiles (fs_objs (insert_file n a (set_obj a f fs)) b))"
      using mb assms(4) names_okD(3) [OF assms(1), of m b] by auto
    show "file_id (fs_objs (insert_file n a (set_obj a f fs)) b) < next_file_id (insert_file n a (set_obj a f fs))"
      using mb assms(7) names_okD(4) [OF assms(1), of m b] by auto
    fix j
    show "(j \<in> set (linkfiles (fs_objs (insert_file n a (set_obj a f fs)) b)))
        = (map_of (fs_files (insert_file n a (set_obj a f fs))) j = Some b)"
      using mb assms(2,3) names_okD(5) [OF assms(1), of m b j] by (auto simp: look)
  next
    fix m b k c
    assume "map_of (fs_files (insert_file n a (set_obj a f fs))) m = Some b"
      "map_of (fs_files (insert_file n a (set_obj a f fs))) k = Some c"
    then have mb: "b = a \<or> b \<noteq> a \<and> map_of (fs_files fs) m = Some b"
      "c = a \<or> c \<noteq> a \<and> map_of (fs_files fs) k = Some c" by (auto simp: look split: if_splits)
    assume "file_id (fs_objs (insert_file n a (set_obj a f fs)) b) = file_id (fs_objs (insert_file n a (set_obj a f fs)) c)"
    then have ids: "(if b = a then file_id f else file_id (fs_objs fs b)) = (if c = a then file_id f else file_id (fs_objs fs c))"
      by (simp add: set_obj_def insert_file_def split: if_splits)
    show "b = c"
    proof (cases "b = a \<or> c = a")
      case True
      then show ?thesis using mb ids assms(8) [of m b] assms(8) [of k c] by (auto split: if_splits)
    next
      case False
      then show ?thesis using mb ids names_ok_ids [OF assms(1), of m b k c] by simp
    qed
  qed
qed

lemma names_ok_links:
  "names_ok fs \<Longrightarrow> map_of (fs_files fs) n = Some a
    \<Longrightarrow> set (linkfiles (fs_objs fs a)) = {m. map_of (fs_files fs) m = Some a}"
  using names_okD(5) [of fs n a] by blast

lemma names_ok_obj:
  assumes "names_ok fs" "linkfiles f = linkfiles (fs_objs fs a)" "file_id f = file_id (fs_objs fs a)"
    "is_deleted f = is_deleted (fs_objs fs a)"
  shows "names_ok (set_obj a f fs)"
proof -
  have "linkfiles (fs_objs (set_obj a f fs) b) = linkfiles (fs_objs fs b)"
    "file_id (fs_objs (set_obj a f fs) b) = file_id (fs_objs fs b)"
    "is_deleted (fs_objs (set_obj a f fs) b) = is_deleted (fs_objs fs b)" for b
    using assms by simp_all
  then show ?thesis using assms(1) unfolding names_ok_def by (simp del: obj_simps(2))
qed

lemma names_ok_counts [simp]:
  "names_ok (hold_obj a fs) = names_ok fs" "names_ok (fs\<lparr> fs_aux := x \<rparr>) = names_ok fs"
  "fs_files (hold_obj a fs) = fs_files fs" "fs_objs (hold_obj a fs) = fs_objs fs"
  by (simp_all add: names_ok_def hold_obj_def)

lemma names_ok_grow:
  assumes "names_ok fs" "fs_next_obj fs \<le> n" "next_file_id fs \<le> k"
  shows "names_ok (fs\<lparr> fs_next_obj := n, next_file_id := k \<rparr>)"
proof -
  have "a < n \<and> file_id (fs_objs fs a) < k" if "map_of (fs_files fs) m = Some a" for m a
    using names_okD(1,4) [OF assms(1) that] assms(2,3) by (auto intro: order_less_le_trans)
  then show ?thesis using assms(1) unfolding names_ok_def by simp
qed

lemma resyncedD:
  assumes "resynced fs fs'"
  shows "fs_files fs' = fs_files fs" "fs_next_obj fs' = fs_next_obj fs" "next_file_id fs' = next_file_id fs"
    "linkfiles (fs_objs fs' a) = linkfiles (fs_objs fs a)" "file_id (fs_objs fs' a) = file_id (fs_objs fs a)"
    "is_deleted (fs_objs fs' a) = is_deleted (fs_objs fs a)" "extents (fs_objs fs' a) = extents (fs_objs fs a)"
    "file_size (fs_objs fs' a) = file_size (fs_objs fs a)" "open_for_wr (fs_objs fs' a) = open_for_wr (fs_objs fs a)"
  using assms but_synced_fields [of "fs_objs fs' a" "fs_objs fs a"] by (simp_all add: resynced_def)

text \<open>A file gets another name for one it has.\<close>

lemma names_ok_rename:
  assumes ok: "names_ok fs" and src: "map_of (fs_files fs) n = Some a" and dst: "map_of (fs_files fs) d = None"
    and f: "linkfiles f = remove1 n (linkfiles (fs_objs fs a)) @ [d]" "file_id f = file_id (fs_objs fs a)"
      "is_deleted f = is_deleted (fs_objs fs a)"
  shows "names_ok (insert_file d a (erase_file n (set_obj a f fs)))"
    "map_of (fs_files (insert_file d a (erase_file n (set_obj a f fs)))) = (map_of (fs_files fs))(n := None, d \<mapsto> a)"
proof -
  define f1 where "f1 = f\<lparr> linkfiles := remove1 n (linkfiles (fs_objs fs a)) \<rparr>"
  define fs1 where "fs1 = set_obj a f1 (erase_file n fs)"
  have ok1: "names_ok fs1" unfolding fs1_def by (rule names_ok_remove [OF ok src]) (simp_all add: f1_def f)
  have look1: "map_of (fs_files fs1) = (map_of (fs_files fs))(n := None)" by (simp add: fs1_def map_of_erase)
  note a = names_okD [OF ok src]
  have links: "m \<in> set (linkfiles f1) \<longleftrightarrow> map_of (fs_files fs) m = Some a \<and> m \<noteq> n" for m
    using a(3) a(5) [of m] by (simp add: f1_def)
  have eq: "insert_file d a (erase_file n (set_obj a f fs)) = insert_file d a (set_obj a f fs1)"
    by (simp add: fs1_def insert_file_def set_obj_def erase_file_def)
  show "names_ok (insert_file d a (erase_file n (set_obj a f fs)))" unfolding eq
  proof (rule names_ok_add [OF ok1])
    show "map_of (fs_files fs1) d = None" using dst by (simp add: look1)
    show "set (linkfiles f) = insert d {m. map_of (fs_files fs1) m = Some a}"
      using links by (auto simp: look1 f f1_def)
    show "distinct (linkfiles f)" using a(3) a(5) [of d] dst by (auto simp: f dest: in_set_remove1)
    show "\<not> is_deleted f" "a < fs_next_obj fs1" "file_id f < next_file_id fs1"
      using a(1,2,4) f by (simp_all add: fs1_def)
    show "b = a" if "map_of (fs_files fs1) m = Some b" "file_id (fs_objs fs1 b) = file_id f" for m b
      using that names_ok_ids [OF ok _ src, of m b] f by (auto simp: fs1_def f1_def map_of_erase split: if_splits)
  qed
  show "map_of (fs_files (insert_file d a (erase_file n (set_obj a f fs)))) = (map_of (fs_files fs))(n := None, d \<mapsto> a)"
    using files.rename_look [OF names_ok_sorted [OF ok] src dst] by simp
qed

lemma names_ok_link:
  assumes ok: "names_ok fs" and src: "map_of (fs_files fs) n = Some a" and dst: "map_of (fs_files fs) d = None"
  shows "names_ok (insert_file d a (set_obj a (AddLinkName d (fs_objs fs a)) fs))"
    "map_of (fs_files (insert_file d a (set_obj a (AddLinkName d (fs_objs fs a)) fs))) = (map_of (fs_files fs))(d \<mapsto> a)"
proof -
  note a = names_okD [OF ok src]
  show "names_ok (insert_file d a (set_obj a (AddLinkName d (fs_objs fs a)) fs))"
  proof (rule names_ok_add [OF ok dst])
    show "set (linkfiles (AddLinkName d (fs_objs fs a))) = insert d {m. map_of (fs_files fs) m = Some a}"
      using a(5) by (auto simp: AddLinkName_def)
    show "distinct (linkfiles (AddLinkName d (fs_objs fs a)))" using a(3) a(5) [of d] dst by (auto simp: AddLinkName_def)
    show "b = a" if "map_of (fs_files fs) m = Some b" "file_id (fs_objs fs b) = file_id (AddLinkName d (fs_objs fs a))" for m b
      using that names_ok_ids [OF ok _ src, of m b] by (simp add: AddLinkName_def)
  qed (use a in \<open>simp_all add: AddLinkName_def\<close>)
  show "map_of (fs_files (insert_file d a (set_obj a (AddLinkName d (fs_objs fs a)) fs))) = (map_of (fs_files fs))(d \<mapsto> a)"
    using map_of_insert [OF names_ok_sorted [OF ok], of d a] dst by simp
qed

subsection \<open>Deleting\<close>

text \<open>The names the lookups see: one more normalisation does not change them.\<close>

abbreviation stable_name :: "bytes \<Rightarrow> bool" where
  "stable_name p \<equiv> FormatPathLexically (FormatPathLexically p) = FormatPathLexically p"

lemma stable_normal: "normal_name p \<Longrightarrow> stable_name p"
  by simp

lemma aux_op_same:
  assumes "aux_op g path fs s = Some (st, fs', s')"
  shows "\<exists>x. fs' = fs\<lparr> fs_aux := x \<rparr> \<and> s' = s"
proof -
  obtain p where p: "ToAuxPath path fs = Some p" using assms by (auto simp: aux_op_def bind_eq_Some_conv)
  obtain st1 x where "g p (fs_aux fs) = (st1, x)" by fastforce
  then show ?thesis using assms p by (auto simp: aux_op_def)
qed

lemma RemoveLinkName_ok: "n \<in> set (linkfiles f) \<Longrightarrow> RemoveLinkName n f = (OK, f\<lparr> linkfiles := remove1 n (linkfiles f) \<rparr>)"
  by (simp add: RemoveLinkName_def)

lemma links_few:
  assumes "names_ok fs" "map_of (fs_files fs) n = Some a" "length (fs_files fs) < 2 ^ 32"
    "set ls \<subseteq> set (linkfiles (fs_objs fs a))" "distinct ls"
  shows "(of_nat (length ls) :: u32) = 0 \<longleftrightarrow> ls = []"
proof -
  have "set ls \<subseteq> fst ` set (fs_files fs)"
  proof
    fix x assume "x \<in> set ls"
    then have "map_of (fs_files fs) x = Some a" using assms(4) names_ok_links [OF assms(1,2)] by blast
    then show "x \<in> fst ` set (fs_files fs)" by (metis fst_conv image_eqI map_of_SomeD)
  qed
  then have "card (set ls) \<le> card (fst ` set (fs_files fs))" by (rule card_mono [rotated]) simp
  also have "\<dots> \<le> length (fs_files fs)" by (metis card_length length_map set_map)
  finally have "length ls < 2 ^ 32" using assms(3,5) by (simp add: distinct_card)
  then have "unat (of_nat (length ls) :: u32) = length ls" by (intro unat_of_nat_small) simp
  then have "(of_nat (length ls) :: u32) \<noteq> 0" if "ls \<noteq> []" using that by (intro notI) simp
  then show ?thesis by auto
qed

lemma delete_table:
  assumes ok: "names_ok fs" and few: "length (fs_files fs) < 2 ^ 32" and name: "stable_name p"
    and run: "DeleteFileNoLock be af p fs s = Some (st, fs', s')"
  shows "names_ok fs' \<and> next_file_id fs' = next_file_id fs \<and> fs_next_obj fs' = fs_next_obj fs \<and> (case map_of (fs_files fs) (FormatPathLexically p) of
      None \<Rightarrow> fs_files fs' = fs_files fs
    | Some a \<Rightarrow> map_of (fs_files fs') = (if ok st then (map_of (fs_files fs))(FormatPathLexically p := None) else map_of (fs_files fs))
        \<and> (ok st \<longrightarrow> linkfiles (fs_objs fs' a) = remove1 (FormatPathLexically p) (linkfiles (fs_objs fs a))))"
proof (cases "map_of (fs_files fs) (FormatPathLexically p)")
  case None
  then show ?thesis
    using run ok name by (auto simp: DeleteFileNoLock_def GetFileNoLock_def dest!: aux_op_same)
next
  case (Some a)
  define n where "n = FormatPathLexically p"
  have n: "map_of (fs_files fs) n = Some a" "GetFileNoLock n fs = Some a" "FormatPathLexically p = n"
    using Some name by (simp_all add: n_def GetFileNoLock_def)
  note a = names_okD [OF ok n(1)]
  define f where "f = (fs_objs fs a)\<lparr> linkfiles := remove1 n (linkfiles (fs_objs fs a)) \<rparr>"
  define fs1 where "fs1 = set_obj a f (erase_file n fs)"
  have ok1: "names_ok fs1" unfolding fs1_def by (rule names_ok_remove [OF ok n(1)]) (simp_all add: f_def)
  have look1: "map_of (fs_files fs1) = (map_of (fs_files fs))(n := None)" by (simp add: fs1_def map_of_erase)
  have rem: "RemoveLinkName n (fs_objs (erase_file n fs) a) = (OK, f)"
    using a(6) by (simp add: RemoveLinkName_ok f_def)
  obtain st2 fs2 s2 where p: "PersistRecord be (EncodeFileDeletionTo f n) fs1 s = Some (st2, fs2, s2)"
    using run n rem by (auto simp: DeleteFileNoLock_def bind_eq_Some_conv fs1_def Let_def)
  have res: "(st, fs', s') = (if \<not> ok st2 then (st2, set_obj a (AddLinkName n (fs_objs fs2 a)) (insert_file n a fs2), s2)
       else if GetNrLinks (fs_objs fs2 a) > 0 then (st2, fs2, s2)
       else (let fs = set_obj a ((fs_objs fs2 a)\<lparr> is_deleted := True \<rparr>) fs2; (fs, s) = drop_ref a fs s2 in (st2, fs, s)))"
    using run p unfolding DeleteFileNoLock_def n(3) fs1_def
    by (simp add: Let_def n(2) rem del: obj_simps split: if_splits prod.splits)
  have r: "resynced fs1 fs2" by (rule resynced_PersistRecord [OF p])
  have ok2: "names_ok fs2" by (rule names_ok_resynced [OF r ok1])
  note same = resyncedD [OF r]
  have id2: "next_file_id fs2 = next_file_id fs" "fs_next_obj fs2 = fs_next_obj fs" by (simp_all add: same fs1_def)
  have links: "linkfiles (fs_objs fs2 a) = remove1 n (linkfiles (fs_objs fs a))" by (simp add: same fs1_def f_def)
  show ?thesis
  proof (cases "ok st2")
    case False
    then have fs': "fs' = insert_file n a (set_obj a (AddLinkName n (fs_objs fs2 a)) fs2)"
      using res by (simp add: set_obj_def insert_file_def)
    have setl: "set (remove1 n (linkfiles (fs_objs fs a))) = {m. map_of (fs_files fs) m = Some a} - {n}"
      by (simp add: set_remove1_eq a(3) names_ok_links [OF ok n(1)])
    have "names_ok fs'"
      unfolding fs'
    proof (rule names_ok_add [OF ok2])
      show "map_of (fs_files fs2) n = None" by (simp add: same look1)
      show "set (linkfiles (AddLinkName n (fs_objs fs2 a))) = insert n {m. map_of (fs_files fs2) m = Some a}"
        unfolding AddLinkName_def using setl by (simp add: links same(1) look1) blast
      show "distinct (linkfiles (AddLinkName n (fs_objs fs2 a)))" using a(3) by (simp add: AddLinkName_def links)
      show "b = a" if "map_of (fs_files fs2) m = Some b" "file_id (fs_objs fs2 b) = file_id (AddLinkName n (fs_objs fs2 a))" for m b
        using that names_ok_ids [OF ok _ n(1), of m b]
        by (auto simp: same AddLinkName_def fs1_def f_def map_of_erase split: if_splits)
    qed (use a in \<open>simp_all add: AddLinkName_def same fs1_def f_def\<close>)
    moreover have "map_of (fs_files fs') = map_of (fs_files fs)"
      using False res n(1) map_of_insert [OF names_ok_sorted [OF ok2], of n a] by (auto simp: same look1)
    ultimately show ?thesis using False res n id2 Some by auto
  next
    case True
    show ?thesis
    proof (cases "GetNrLinks (fs_objs fs2 a) > 0")
      case gt: True
      then show ?thesis using True res ok2 id2 n by (simp add: same(1) look1 links)
    next
      case none: False
      define fs3 where "fs3 = set_obj a ((fs_objs fs2 a)\<lparr> is_deleted := True \<rparr>) fs2"
      obtain fs4 s4 where d: "drop_ref a fs3 s2 = (fs4, s4)" by fastforce
      have fin: "st = st2" "fs' = fs4" using True none res d by (auto simp: fs3_def)
      have "linkfiles (fs_objs fs2 a) = []"
        using none a(3) links_few [OF ok n(1) few, of "linkfiles (fs_objs fs2 a)"] set_remove1_subset
        by (simp add: GetNrLinks_def links word_gt_0)
      then have "names_ok fs3" unfolding fs3_def
        using names_okD(6) [OF ok2, of _ a] by (intro names_ok_outside [OF ok2]) auto
      from names_ok_drop_ref [OF this d] show ?thesis using True fin n id2 by (simp add: fs3_def same(1) look1 links)
    qed
  qed
qed

subsection \<open>Creating, linking and renaming\<close>

lemma sync_table:
  assumes "names_ok fs" "SyncFileMetadataNoLock be a replace fs s = Some (st, fs', s')"
  shows "names_ok fs'" "fs_files fs' = fs_files fs" "next_file_id fs' = next_file_id fs"
  using names_ok_resynced [OF resynced_SyncFileMetadata [OF assms(2)] assms(1)]
    resyncedD [OF resynced_SyncFileMetadata [OF assms(2)]] by auto

lemma open_new_table:
  assumes ok: "names_ok fs" and free: "map_of (fs_files fs) n = None" and ids: "next_file_id fs + 1 \<noteq> 0"
    and run: "open_new_file be n direct fs s = Some ((st, r), fs', s')"
  shows "names_ok fs' \<and> (case r of
      None \<Rightarrow> \<not> ok st \<and> fs_files fs' = fs_files fs
    | Some a \<Rightarrow> ok st \<and> a = fs_next_obj fs \<and> map_of (fs_files fs') = (map_of (fs_files fs))(n \<mapsto> a)
        \<and> file_id (fs_objs fs' a) = next_file_id fs \<and> extents (fs_objs fs' a) = [] \<and> open_for_wr (fs_objs fs' a))"
proof -
  define a where "a = fs_next_obj fs"
  define f where "f = created_file (next_file_id fs) (fs_now fs) n direct"
  define fs1 where "fs1 = (set_obj a f fs)\<lparr> fs_next_obj := a + 1, next_file_id := next_file_id fs + 1 \<rparr>"
  have out: "map_of (fs_files fs) m \<noteq> Some a" for m using names_okD(1) [OF ok, of m a] by (auto simp: a_def)
  have up: "next_file_id fs < next_file_id fs + 1"
    using unatSuc [of "next_file_id fs"] ids by (simp add: word_less_nat_alt add.commute)
  have ok1: "names_ok fs1" unfolding fs1_def
    by (rule names_ok_grow [OF names_ok_outside [OF ok out]]) (use up in \<open>simp_all add: a_def\<close>)
  have f: "linkfiles f = [n]" "file_id f = next_file_id fs" "extents f = []" "\<not> is_deleted f" "\<not> open_for_wr f"
    by (simp_all add: f_def created_file_def AddLinkName_def new_ZoneFile_def Let_def)
  obtain st2 fs2 s2 where p: "SyncFileMetadataNoLock be a False fs1 s = Some (st2, fs2, s2)"
    using run by (auto simp: open_new_file_def new_obj_def Let_def bind_eq_Some_conv a_def f_def fs1_def)
  note ok2 = sync_table [OF ok1 p]
  note same = resyncedD [OF resynced_SyncFileMetadata [OF p]]
  show ?thesis
  proof (cases "ok st2")
    case False
    obtain fs3 s3 where d: "drop_ref a fs2 s2 = (fs3, s3)" by fastforce
    have "st = st2" "r = None" "fs' = fs3"
      using run p d False by (auto simp: open_new_file_def new_obj_def Let_def a_def f_def fs1_def)
    then show ?thesis using names_ok_drop_ref [OF ok2(1) d] ok2(2) False by (simp add: fs1_def)
  next
    case True
    define g where "g = (fs_objs fs2 a)\<lparr> open_for_wr := True \<rparr>"
    have res: "st = st2" "r = Some a" "fs' = hold_obj a (insert_file n a (set_obj a g fs2))"
      using run p True same(9) [of a] f(5)
      by (auto simp: open_new_file_def new_obj_def Let_def bind_eq_Some_conv AcquireWRLock_def g_def a_def f_def fs1_def)
    have g: "linkfiles g = [n]" "file_id g = next_file_id fs" "extents g = []" "\<not> is_deleted g" "open_for_wr g"
      using f same by (simp_all add: g_def fs1_def)
    have "names_ok (insert_file n a (set_obj a g fs2))"
    proof (rule names_ok_add [OF ok2(1)])
      show "map_of (fs_files fs2) n = None" using free by (simp add: ok2 fs1_def)
      show "set (linkfiles g) = insert n {m. map_of (fs_files fs2) m = Some a}"
        using out by (simp add: g ok2 fs1_def)
      show "b = a" if "map_of (fs_files fs2) m = Some b" "file_id (fs_objs fs2 b) = file_id g" for m b
        using that names_okD(4) [OF ok, of m b] out [of m] by (auto simp: g ok2 same fs1_def split: if_splits)
    qed (use up g in \<open>simp_all add: ok2 same fs1_def\<close>)
    moreover have "map_of (map_insert n a (fs_files fs)) = (map_of (fs_files fs))(n \<mapsto> a)"
      using free map_of_insert [OF names_ok_sorted [OF ok], of n a] by simp
    ultimately show ?thesis
      using res True g by (simp add: ok2 fs1_def a_def)
  qed
qed

lemma rename_zone_file_table:
  assumes ok: "names_ok fs" and few: "length (fs_files fs) < 2 ^ 32"
    and names: "FormatPathLexically src = src" "FormatPathLexically dst = dst"
    and src: "map_of (fs_files fs) src = Some a"
    and run: "rename_zone_file be af src dst a fs s = Some (st, fs', s')"
  shows "names_ok fs' \<and>
    (\<not> ok st \<and> map_of (fs_files fs') = map_of (fs_files fs)
     \<or> \<not> ok st \<and> src = dst \<and> map_of (fs_files fs') = (map_of (fs_files fs))(src := None)
     \<or> ok st \<and> src \<noteq> dst \<and> (map_of (fs_files fs') = (map_of (fs_files fs))(src := None, dst \<mapsto> a)
          \<or> map_of (fs_files fs') = (map_of (fs_files fs))(dst := None)))"
proof -
  obtain st1 fs1 s1 where del: "(if GetFileNoLock dst fs \<noteq> None then DeleteFileNoLock be af dst fs s else Some (OK, fs, s))
      = Some (st1, fs1, s1)"
    using run by (auto simp: rename_zone_file_def bind_eq_Some_conv)
  have t1: "names_ok fs1" "map_of (fs_files fs1) = (if ok st1 then (map_of (fs_files fs))(dst := None) else map_of (fs_files fs))"
    using del ok names delete_table [OF ok few, of dst be af s st1 fs1 s1]
    by (auto simp: GetFileNoLock_def fun_upd_idem split: if_splits)
  show ?thesis
  proof (cases "ok st1")
    case False
    then show ?thesis using run del t1 by (auto simp: rename_zone_file_def Let_def)
  next
    case ok1: True
    show ?thesis
    proof (cases "src = dst")
      case True
      then have "src \<notin> set (linkfiles (fs_objs fs1 a))"
        using delete_table [OF ok few, of dst be af s st1 fs1 s1] names src del ok1 names_okD(3) [OF ok src]
        by (auto simp: GetFileNoLock_def)
      then have "\<not> ok st" "fs' = set_obj a (fs_objs fs1 a) fs1"
        using run del ok1 True by (auto simp: rename_zone_file_def RenameLink_def Let_def)
      then show ?thesis using t1 True ok1 by (simp add: set_obj_def)
    next
      case False
      then have src1: "map_of (fs_files fs1) src = Some a" and dst1: "map_of (fs_files fs1) dst = None"
        using src t1(2) ok1 by auto
      define f where "f = (fs_objs fs1 a)\<lparr> linkfiles := remove1 src (linkfiles (fs_objs fs1 a)) @ [dst] \<rparr>"
      have ren: "RenameLink src dst (fs_objs fs1 a) = (OK, f)"
        using names_okD(6) [OF t1(1) src1] by (simp add: RenameLink_def f_def)
      define fs2 where "fs2 = insert_file dst a (erase_file src (set_obj a f fs1))"
      have ok2: "names_ok fs2" and look2: "map_of (fs_files fs2) = (map_of (fs_files fs1))(src := None, dst \<mapsto> a)"
        unfolding fs2_def using names_ok_rename [OF t1(1) src1 dst1, of f] by (simp_all add: f_def)
      obtain st3 fs3 s3 where sy: "SyncFileMetadataNoLock be a False fs2 s1 = Some (st3, fs3, s3)"
        using run del ok1 ren by (auto simp: rename_zone_file_def Let_def bind_eq_Some_conv fs2_def)
      note ok3 = sync_table [OF ok2 sy]
      show ?thesis
      proof (cases "ok st3")
        case True
        then have "st = st3" "fs' = fs3"
          using run del ok1 ren sy by (auto simp: rename_zone_file_def Let_def fs2_def)
        then show ?thesis using True ok3 look2 t1(2) ok1 False by (simp add: fun_upd_twist)
      next
        case bad: False
        have dst3: "map_of (fs_files fs3) dst = Some a" "map_of (fs_files fs3) src = None"
          using look2 False by (simp_all add: ok3)
        define g where "g = (fs_objs fs3 a)\<lparr> linkfiles := remove1 dst (linkfiles (fs_objs fs3 a)) @ [src] \<rparr>"
        have "RenameLink dst src (fs_objs fs3 a) = (OK, g)"
          using names_okD(6) [OF ok3(1) dst3(1)] by (simp add: RenameLink_def g_def)
        then have "st = OK" "fs' = insert_file src a (set_obj a g (erase_file dst fs3))"
          using run del ok1 ren sy bad by (auto simp: rename_zone_file_def Let_def fs2_def)
        moreover have "insert_file src a (set_obj a g (erase_file dst fs3)) = insert_file src a (erase_file dst (set_obj a g fs3))"
          by (simp add: insert_file_def set_obj_def erase_file_def)
        ultimately show ?thesis
          using names_ok_rename [OF ok3(1) dst3, of g] False src t1(2) ok1 look2
          by (auto simp: g_def ok3 fun_upd_twist fun_upd_idem)
      qed
    qed
  qed
qed

lemma open_writable_table:
  assumes ok: "names_ok fs" and few: "length (fs_files fs) < 2 ^ 32" and ids: "next_file_id fs + 1 \<noteq> 0"
    and name: "FormatPathLexically n = n"
    and run: "OpenWritableFile be af n direct reopen fs s = Some ((st, r), fs', s')"
  shows "names_ok fs' \<and> (case r of
      None \<Rightarrow> \<not> ok st \<and> (map_of (fs_files fs') = map_of (fs_files fs)
        \<or> \<not> reopen \<and> map_of (fs_files fs') = (map_of (fs_files fs))(n := None))
    | Some a \<Rightarrow> map_of (fs_files fs') = (map_of (fs_files fs))(n \<mapsto> a) \<and> open_for_wr (fs_objs fs' a)
        \<and> (if reopen \<and> map_of (fs_files fs) n \<noteq> None
           then map_of (fs_files fs) n = Some a \<and> extents (fs_objs fs' a) = extents (fs_objs fs a)
           else (\<forall>m. map_of (fs_files fs) m \<noteq> Some a) \<and> extents (fs_objs fs' a) = []))"
proof (cases "map_of (fs_files fs) n")
  case None
  have "\<forall>m. map_of (fs_files fs) m \<noteq> Some (fs_next_obj fs)" using names_okD(1) [OF ok] by blast
  then show ?thesis
    using run name None open_new_table [OF ok None ids, of be direct s st r fs' s']
    by (auto simp: OpenWritableFile_def GetFileNoLock_def Let_def split: option.splits)
next
  case (Some a)
  show ?thesis
  proof (cases reopen)
    case True
    define f where "f = (fs_objs fs a)\<lparr> open_for_wr := True \<rparr>"
    have "fs' = hold_obj a (set_obj a f fs)" "r = Some a"
      using run name Some True
      by (auto simp: OpenWritableFile_def GetFileNoLock_def bind_eq_Some_conv AcquireWRLock_def f_def split: if_splits)
    moreover have "names_ok (set_obj a f fs)" by (rule names_ok_obj [OF ok]) (simp_all add: f_def)
    ultimately show ?thesis using Some True by (auto simp: f_def fun_upd_idem)
  next
    case False
    obtain st1 fs1 s1 where del: "DeleteFileNoLock be af n fs s = Some (st1, fs1, s1)"
      using run name Some False by (auto simp: OpenWritableFile_def GetFileNoLock_def bind_eq_Some_conv)
    have t1: "names_ok fs1" "next_file_id fs1 = next_file_id fs" "fs_next_obj fs1 = fs_next_obj fs"
      "map_of (fs_files fs1) = (if ok st1 then (map_of (fs_files fs))(n := None) else map_of (fs_files fs))"
      using delete_table [OF ok few _ del] name Some by simp_all
    show ?thesis
    proof (cases "ok st1")
      case bad: False
      then show ?thesis using run name Some False del t1 by (auto simp: OpenWritableFile_def GetFileNoLock_def)
    next
      case True
      obtain st2 r2 fs2 s2 where new: "open_new_file be n direct fs1 s1 = Some ((st2, r2), fs2, s2)"
        using run name Some False del True by (auto simp: OpenWritableFile_def GetFileNoLock_def bind_eq_Some_conv)
      have "fs' = fs2" "r = r2" "r2 = None \<longrightarrow> st = st2"
        using run name Some False del True new
        by (auto simp: OpenWritableFile_def GetFileNoLock_def Let_def split: if_splits prod.splits)
      moreover note open_new_table [OF t1(1) _ _ new] 
      moreover have "\<forall>m. map_of (fs_files fs) m \<noteq> Some (fs_next_obj fs1)"
        using names_okD(1) [OF ok] t1(3) by fastforce
      ultimately show ?thesis using t1 ids True False by (auto split: option.splits)
    qed
  qed
qed

lemma link_table:
  assumes ok: "names_ok fs" and names: "FormatPathLexically n = n" "FormatPathLexically d = d"
    and src: "map_of (fs_files fs) n = Some a"
    and run: "LinkFile be af n d fs s = Some (st, fs', s')"
  shows "names_ok fs' \<and> (if map_of (fs_files fs) d \<noteq> None then \<not> ok st \<and> fs' = fs
    else ok st \<and> (map_of (fs_files fs') = (map_of (fs_files fs))(d \<mapsto> a) \<or> map_of (fs_files fs') = map_of (fs_files fs)))"
proof (cases "map_of (fs_files fs) d")
  case (Some b)
  then show ?thesis using run ok names by (auto simp: LinkFile_def GetFileNoLock_def)
next
  case None
  define fs1 where "fs1 = insert_file d a (set_obj a (AddLinkName d (fs_objs fs a)) fs)"
  have ok1: "names_ok fs1" and look1: "map_of (fs_files fs1) = (map_of (fs_files fs))(d \<mapsto> a)"
    unfolding fs1_def using names_ok_link [OF ok src None] by simp_all
  obtain st2 fs2 s2 where sy: "SyncFileMetadataNoLock be a False fs1 s = Some (st2, fs2, s2)"
    using run names src None by (auto simp: LinkFile_def GetFileNoLock_def Let_def bind_eq_Some_conv fs1_def)
  note ok2 = sync_table [OF ok1 sy]
  show ?thesis
  proof (cases "ok st2")
    case True
    then have "st = st2" "fs' = fs2"
      using run names src None sy by (auto simp: LinkFile_def GetFileNoLock_def Let_def fs1_def)
    then show ?thesis using True ok2 look1 None by simp
  next
    case False
    have d2: "map_of (fs_files fs2) d = Some a" using look1 by (simp add: ok2)
    define f where "f = (fs_objs fs2 a)\<lparr> linkfiles := remove1 d (linkfiles (fs_objs fs2 a)) \<rparr>"
    have "RemoveLinkName d (fs_objs fs2 a) = (OK, f)"
      using names_okD(6) [OF ok2(1) d2] by (simp add: RemoveLinkName_ok f_def)
    then have "st = OK" "fs' = set_obj a f (erase_file d fs2)"
      using run names src None sy False
      by (auto simp: LinkFile_def GetFileNoLock_def Let_def fs1_def set_obj_def erase_file_def)
    then show ?thesis
      using names_ok_remove [OF ok2(1) d2, of f] look1 None
      by (auto simp: f_def ok2 map_of_erase fun_upd_idem)
  qed
qed

text \<open>What happens when the new name cannot be persisted.\<close>

lemma rename_persist_fails:
  assumes ok: "names_ok fs" and names: "FormatPathLexically n = n" "FormatPathLexically d = d"
    and src: "map_of (fs_files fs) n = Some a" and dst: "map_of (fs_files fs) d = None"
    and sy: "SyncFileMetadataNoLock be a False (insert_file d a (erase_file n (set_obj a
        ((fs_objs fs a)\<lparr> linkfiles := remove1 n (linkfiles (fs_objs fs a)) @ [d] \<rparr>) fs))) s = Some (st1, fs1, s1)" "\<not> ok st1"
  shows "\<exists>fs' s'. RenameFileNoLock k be af n d fs s = Some (OK, fs', s') \<and> map_of (fs_files fs') = map_of (fs_files fs)"
proof -
  define f where "f = (fs_objs fs a)\<lparr> linkfiles := remove1 n (linkfiles (fs_objs fs a)) @ [d] \<rparr>"
  have nd: "n \<noteq> d" using src dst by auto
  have ren: "RenameLink n d (fs_objs fs a) = (OK, f)"
    using names_okD(6) [OF ok src] by (simp add: RenameLink_def f_def)
  have ok1: "names_ok fs1" and look1: "map_of (fs_files fs1) = (map_of (fs_files fs))(n := None, d \<mapsto> a)"
    using names_ok_rename [OF ok src dst, of f] sync_table [OF _ sy(1)] by (simp_all add: f_def)
  have d1: "map_of (fs_files fs1) d = Some a" "map_of (fs_files fs1) n = None" using look1 nd by simp_all
  define g where "g = (fs_objs fs1 a)\<lparr> linkfiles := remove1 d (linkfiles (fs_objs fs1 a)) @ [n] \<rparr>"
  have again: "RenameLink d n (fs_objs fs1 a) = (OK, g)"
    using names_okD(6) [OF ok1 d1(1)] by (simp add: RenameLink_def g_def)
  have "RenameFileNoLock k be af n d fs s = Some (OK, insert_file n a (set_obj a g (erase_file d fs1)), s1)"
    using names src dst ren sy again
    by (simp add: RenameFileNoLock.simps GetFileNoLock_def rename_zone_file_def Let_def f_def del: obj_simps(2))
  moreover have "map_of (map_insert n a (map_erase d (fs_files fs1))) = map_of (fs_files fs)"
    using files.rename_look [OF names_ok_sorted [OF ok1] d1] look1 src dst nd by (auto simp: fun_eq_iff)
  ultimately show ?thesis by simp
qed

lemma link_persist_fails:
  assumes ok: "names_ok fs" and names: "FormatPathLexically n = n" "FormatPathLexically d = d"
    and src: "map_of (fs_files fs) n = Some a" and dst: "map_of (fs_files fs) d = None"
    and sy: "SyncFileMetadataNoLock be a False (insert_file d a (set_obj a (AddLinkName d (fs_objs fs a)) fs)) s
        = Some (st1, fs1, s1)" "\<not> ok st1"
  shows "\<exists>fs' s'. LinkFile be af n d fs s = Some (OK, fs', s') \<and> map_of (fs_files fs') = map_of (fs_files fs)"
proof -
  have ok1: "names_ok fs1" and look1: "map_of (fs_files fs1) = (map_of (fs_files fs))(d \<mapsto> a)"
    using names_ok_link [OF ok src dst] sync_table [OF _ sy(1)] by simp_all
  have "d \<in> set (linkfiles (fs_objs fs1 a))" using names_okD(6) [OF ok1, of d a] look1 by simp
  then show ?thesis
    using names src dst sy look1 by (simp add: LinkFile_def GetFileNoLock_def Let_def RemoveLinkName_def map_of_erase fun_upd_idem)
qed

lemma rename_to_itself:
  assumes ok: "names_ok fs" and few: "length (fs_files fs) < 2 ^ 32" and name: "FormatPathLexically n = n"
    and src: "map_of (fs_files fs) n = Some a"
    and del: "DeleteFileNoLock be af n fs s = Some (st1, fs1, s1)" "ok st1"
  shows "\<exists>st fs' s'. RenameFileNoLock k be af n n fs s = Some (st, fs', s') \<and> \<not> ok st
    \<and> map_of (fs_files fs') = (map_of (fs_files fs))(n := None)"
proof -
  have t: "map_of (fs_files fs1) = (map_of (fs_files fs))(n := None)" "n \<notin> set (linkfiles (fs_objs fs1 a))"
    using delete_table [OF ok few _ del(1)] name src del(2) names_okD(3) [OF ok src] by simp_all
  then show ?thesis
    using name src del by (auto simp: RenameFileNoLock.simps GetFileNoLock_def rename_zone_file_def Let_def RenameLink_def)
qed

subsection \<open>The operations on names\<close>

text \<open>
  C17: \<open>AquaFS::DeleteFileNoLock\<close> of a name in the table.  A successful call removes exactly that name;
  when the deletion cannot be persisted the table is as it was.  In both cases the invariant of the
  table holds again: names and link names agree, and the files in the table are not deleted.
\<close>

theorem delete_file_names:
  assumes "names_ok fs" "length (fs_files fs) < 2 ^ 32" "normal_name n" "map_of (fs_files fs) n = Some a"
    "DeleteFileNoLock be af n fs s = Some (st, fs', s')"
  shows "names_ok fs' \<and>
    map_of (fs_files fs') = (if ok st then (map_of (fs_files fs))(n := None) else map_of (fs_files fs))"
  using delete_table [OF assms(1,2) _ assms(5)] assms(3,4) by simp

text \<open>
  C26: \<open>AquaFS::OpenWritableFile\<close> (under \<open>NewWritableFile\<close> and \<open>ReopenWritableFile\<close>).  The handle it
  returns is for the file that the name stands for afterwards: the file that was there when it is
  reopened, with its extents, and otherwise a file that is new and empty.  Without a handle the
  status is an error; the old file of a name that was to be replaced may then be gone.
\<close>

theorem open_writable_names:
  assumes "names_ok fs" "length (fs_files fs) < 2 ^ 32" "next_file_id fs + 1 \<noteq> 0" "normal_name n"
    "OpenWritableFile be af n direct reopen fs s = Some ((st, r), fs', s')"
  shows "names_ok fs' \<and> (case r of
      None \<Rightarrow> \<not> ok st \<and> (map_of (fs_files fs') = map_of (fs_files fs)
        \<or> \<not> reopen \<and> map_of (fs_files fs') = (map_of (fs_files fs))(n := None))
    | Some a \<Rightarrow> map_of (fs_files fs') = (map_of (fs_files fs))(n \<mapsto> a) \<and> open_for_wr (fs_objs fs' a)
        \<and> (if reopen \<and> map_of (fs_files fs) n \<noteq> None
           then map_of (fs_files fs) n = Some a \<and> extents (fs_objs fs' a) = extents (fs_objs fs a)
           else (\<forall>m. map_of (fs_files fs) m \<noteq> Some a) \<and> extents (fs_objs fs' a) = []))"
  using open_writable_table [OF assms(1-3) Format_normal [OF assms(4)] assms(5)] .


text \<open>
  \<open>AquaFS::LinkFile\<close> of a file of the table.  A name that is taken is refused and nothing changes.
  Otherwise the call reports success, and the table either has the new name for the file or, when
  the link could not be persisted, is unchanged.
\<close>

theorem link_file_names:
  assumes "names_ok fs" "normal_name n" "normal_name d" "map_of (fs_files fs) n = Some a"
    "LinkFile be af n d fs s = Some (st, fs', s')"
  shows "names_ok fs' \<and> (if map_of (fs_files fs) d \<noteq> None then \<not> ok st \<and> fs' = fs
    else ok st \<and> (map_of (fs_files fs') = (map_of (fs_files fs))(d \<mapsto> a) \<or> map_of (fs_files fs') = map_of (fs_files fs)))"
  using link_table [OF assms(1) Format_normal [OF assms(2)] Format_normal [OF assms(3)] assms(4,5)] .

text \<open>
  C27: a rename or a link that cannot be made durable reports success.  When persisting the new name
  fails, \<open>RenameFileNoLock\<close> and \<open>LinkFile\<close> put the table back and return the status of doing so.
\<close>

theorem persist_failure_reported_ok:
  assumes "names_ok fs" "normal_name n" "normal_name d" "map_of (fs_files fs) n = Some a" "map_of (fs_files fs) d = None"
    and rename: "SyncFileMetadataNoLock be a False (insert_file d a (erase_file n (set_obj a
        ((fs_objs fs a)\<lparr> linkfiles := remove1 n (linkfiles (fs_objs fs a)) @ [d] \<rparr>) fs))) s = Some (st1, fs1, s1)" "\<not> ok st1"
    and link: "SyncFileMetadataNoLock be a False (insert_file d a (set_obj a (AddLinkName d (fs_objs fs a)) fs)) s
        = Some (st2, fs2, s2)" "\<not> ok st2"
  shows "(\<exists>fs' s'. RenameFileNoLock k be af n d fs s = Some (OK, fs', s') \<and> map_of (fs_files fs') = map_of (fs_files fs))
    \<and> (\<exists>fs' s'. LinkFile be af n d fs s = Some (OK, fs', s') \<and> map_of (fs_files fs') = map_of (fs_files fs))"
  using rename_persist_fails [OF assms(1) _ _ assms(4,5) rename] link_persist_fails [OF assms(1) _ _ assms(4,5) link] assms(2,3)
  by simp

text \<open>
  C28: renaming a file to its own name deletes it.  The destination, which is the file itself, is
  deleted first, and then the file no longer has the name it is to be renamed from.
\<close>

theorem rename_to_itself_deletes:
  assumes "names_ok fs" "length (fs_files fs) < 2 ^ 32" "normal_name n" "map_of (fs_files fs) n = Some a"
    "DeleteFileNoLock be af n fs s = Some (st1, fs1, s1)" "ok st1"
  shows "\<exists>st fs' s'. RenameFileNoLock k be af n n fs s = Some (st, fs', s') \<and> \<not> ok st
    \<and> map_of (fs_files fs') = (map_of (fs_files fs))(n := None)"
  using rename_to_itself [OF assms(1,2) Format_normal [OF assms(3)] assms(4-6)] .

subsection \<open>A concrete file system\<close>

text \<open>A file system with one file \<open>/a\<close> and a metadata zone with \<open>cap\<close> bytes left.\<close>

definition demo_volume :: "u64 \<Rightarrow> simdev zbdlib zbd" where
  "demo_volume cap = (new_ZonedBlockDevice (demo_dev\<lparr> zl_zone_sz := 512, zl_nr_zones := 2, zl_dev := sim_new 2 512 512 4 \<rparr>))
     \<lparr> meta_zones := [\<lparr> busy = True, start = 0, capacity = cap, max_capacity = 512,
     wp = 512 - cap, lifetime = 0, used_capacity = 0 \<rparr>] \<rparr>"

definition demo_fs :: "u64 \<Rightarrow> unit aquafs" where
  "demo_fs cap = (new_AquaFS () 5)\<lparr> fs_files := [(str ''/a'', 0)],
     fs_objs := (\<lambda>_. AddLinkName (str ''/a'') (new_ZoneFile 1)), fs_next_obj := 1, next_file_id := 2,
     fs_meta_log := Some (new_AquaMetaLog demo_be 0 (demo_volume cap)) \<rparr>"

definition demo_aux :: "unit auxfs" where
  "demo_aux = \<lparr> af_DeleteFile = (\<lambda>_ x. (OK, x)), af_RenameFile = (\<lambda>_ _ x. (OK, x)), af_LinkFile = (\<lambda>_ _ x. (OK, x)),
     af_GetChildren = (\<lambda>_ _. (OK, [])), af_DeleteDir = (\<lambda>_ x. (OK, x)), af_CreateDirIfMissing = (\<lambda>_ x. (OK, x)),
     af_IsDirectory = (\<lambda>_ _. (OK, False)), af_FileExists = (\<lambda>_ _. OK), af_NumFileLinks = (\<lambda>_ _. (OK, 1)),
     af_AreFilesSame = (\<lambda>_ _ _. (OK, False)), af_GetFileSize = (\<lambda>_ _. (OK, 0)),
     af_GetFileModificationTime = (\<lambda>_ _. (OK, 0)) \<rparr>"

lemma demo_strings [simp]: "str ''/a'' = [47, 97]" "str ''/b'' = [47, 98]"
  by (simp_all add: str_def)

lemma demo_fs_facts:
  "fs_files (demo_fs cap) = [([47, 97], 0)]" "next_file_id (demo_fs cap) = 2" "fs_next_obj (demo_fs cap) = 1"
  "fs_meta_log (demo_fs cap) = Some (new_AquaMetaLog demo_be 0 (demo_volume cap))"
  "linkfiles (fs_objs (demo_fs cap) a) = [[47, 97]]" "\<not> is_deleted (fs_objs (demo_fs cap) a)"
  "file_id (fs_objs (demo_fs cap) a) = 1" "names_ok (demo_fs cap)"
  by (simp_all add: demo_fs_def new_AquaFS_def AddLinkName_def new_ZoneFile_def names_ok_def sorted_keys_def)

lemma demo_now: "fs_now (demo_fs cap) = 5"
  by (simp add: demo_fs_def new_AquaFS_def)

lemma demo_names: "normal_name [47, 97]" "normal_name [47, 98]"
proof -
  have "normal_name (slash # join_path [[c]])" if "c \<noteq> slash" "c \<noteq> 46" for c
    using that unfolding normal_name_def by (intro exI [of _ "[[c]]"]) (simp add: normal_part_def dot_def dotdot_def)
  from this [of 97] this [of 98] show "normal_name [47, 97]" "normal_name [47, 98]"
    by (simp_all add: slash_def)
qed

lemma Append_one_write:
  assumes "be_Write be data (wp z) b = (int (length data), b')" "length data < 2 ^ 31"
    "length data \<le> unat (capacity z)"
  shows "\<exists>z' n. Append be data z b = Some (OK, z', if data = [] then b else b', n)"
proof -
  have u: "unat (of_nat (length data) :: u32) = length data" using assms(2) by (simp add: unat_of_nat_small)
  have "\<not> capacity z < ucast (of_nat (length data) :: u32)"
    using assms(3) u by (simp add: word_less_nat_alt)
  moreover have "(of_nat (length data) :: u32) \<noteq> 0" if "data \<noteq> []"
    using that u by (intro notI) simp
  ultimately show ?thesis
    using assms(1) u by (cases "data = []") (simp_all add: Append_def append_loop.simps [of _ _ "of_nat (length data)"] append_loop.simps [of _ _ 0])
qed

lemma demo_write:
  assumes "length data \<le> 512" "data \<noteq> []"
  shows "\<exists>b. be_Write demo_be data 0 (zbd_be (demo_volume 512)) = (int (length data), b)"
  using assms by (simp add: zbdlib_backend_def zbdlib_Write_def sim_libzbd_def sim_pwrite_def sim_can_write_def demo_volume_def
    new_ZonedBlockDevice_def demo_dev_def sim_new_def sim_idx_def sim_zone_def Let_def to_int32_id upt_rec)

lemma demo_add_ok:
  assumes "length r \<le> 500"
  shows "\<exists>s. AddRecord demo_be (new_AquaMetaLog demo_be 0 (demo_volume 512)) r (demo_volume 512) = Some (OK, s)"
proof -
  let ?ml = "new_AquaMetaLog demo_be 0 (demo_volume 512)" and ?z = "meta_zones (demo_volume 512) ! 0"
  have ml: "ml_bs ?ml = 4" "ml_zone ?ml = 0"
    by (simp_all add: new_AquaMetaLog_def GetBlockSize_def demo_volume_def zbdlib_backend_def demo_dev_def
        new_ZonedBlockDevice_def)
  have fit: "record_fits 4 r" using assms by (simp add: record_fits_def)
  have len: "length (record_buffer 4 r) = blocks_up 4 (8 + length r)" using length_record_buffer [OF fit] by simp
  then have le: "length (record_buffer 4 r) \<le> 512" "record_buffer 4 r \<noteq> []"
    using assms blocks_up_props(1,2) [of 4 "8 + length r"] by auto
  have z: "wp ?z = 0" "capacity ?z = 512" by (simp_all add: demo_volume_def)
  obtain b where "be_Write demo_be (record_buffer 4 r) (wp ?z) (zbd_be (demo_volume 512)) = (int (length (record_buffer 4 r)), b)"
    using demo_write [OF le] z by auto
  from Append_one_write [OF this] le z show ?thesis
    by (auto simp: AddRecord_def meta_Append_def ml)
qed

lemma demo_persist:
  assumes "length r \<le> 500" "fs_meta_log fs = Some (new_AquaMetaLog demo_be 0 (demo_volume 512))"
  shows "\<exists>s. PersistRecord demo_be r fs (demo_volume 512) = Some (OK, fs, s)"
  using demo_add_ok [OF assms(1)] assms(2) by (auto simp: PersistRecord_def status_eq_def OK_def NoSpace_def)

lemma demo_sync:
  assumes "fs_meta_log fs = Some (new_AquaMetaLog demo_be 0 (demo_volume 512))" "\<not> is_deleted (fs_objs fs a)"
    "length (file_record False ((fs_objs fs a)\<lparr> m_time := fs_now fs \<rparr>)) \<le> 500"
  shows "\<exists>fs' s. SyncFileMetadataNoLock demo_be a False fs (demo_volume 512) = Some (OK, fs', s)"
  using assms demo_persist [OF assms(3), of "set_obj a ((fs_objs fs a)\<lparr> m_time := fs_now fs \<rparr>) fs"]
  by (auto simp: SyncFileMetadataNoLock_def set_obj_def)

lemma demo_delete:
  "\<exists>fs s. DeleteFileNoLock demo_be demo_aux (str ''/a'') (demo_fs 512) (demo_volume 512) = Some (OK, fs, s)"
proof -
  let ?f = "(fs_objs (demo_fs 512) 0)\<lparr> linkfiles := [] \<rparr>"
  have "length (EncodeFileDeletionTo ?f (str ''/a'')) \<le> 500" by code_simp
  then obtain s where "PersistRecord demo_be (EncodeFileDeletionTo ?f [47, 97]) (set_obj 0 ?f (erase_file [47, 97] (demo_fs 512))) (demo_volume 512)
      = Some (OK, set_obj 0 ?f (erase_file [47, 97] (demo_fs 512)), s)"
    using demo_persist [of "EncodeFileDeletionTo ?f [47, 97]" "set_obj 0 ?f (erase_file [47, 97] (demo_fs 512))"] demo_fs_facts(4) [of 512]
    by (auto simp: set_obj_def erase_file_def)
  then show ?thesis
    using demo_fs_facts [of 512] demo_names
    by (simp add: DeleteFileNoLock_def GetFileNoLock_def RemoveLinkName_def Let_def GetNrLinks_def split: prod.splits)
qed

theorem delete_file_names_witness:
  "\<exists>fs s. DeleteFileNoLock demo_be demo_aux (str ''/a'') (demo_fs 512) (demo_volume 512) = Some (OK, fs, s)
    \<and> names_ok fs \<and> map_of (fs_files fs) (str ''/a'') = None"
proof -
  obtain fs s where run: "DeleteFileNoLock demo_be demo_aux (str ''/a'') (demo_fs 512) (demo_volume 512) = Some (OK, fs, s)"
    using demo_delete by blast
  from delete_file_names [OF demo_fs_facts(8) _ _ _ this, of 0] run demo_names demo_fs_facts [of 512]
  show ?thesis by simp
qed

theorem rename_to_itself_deletes_witness:
  "\<exists>st fs s. RenameFileNoLock 0 demo_be demo_aux (str ''/a'') (str ''/a'') (demo_fs 512) (demo_volume 512) = Some (st, fs, s)
    \<and> \<not> ok st \<and> map_of (fs_files fs) (str ''/a'') = None"
proof -
  obtain fs s where "DeleteFileNoLock demo_be demo_aux (str ''/a'') (demo_fs 512) (demo_volume 512) = Some (OK, fs, s)"
    using demo_delete by blast
  from rename_to_itself_deletes [OF demo_fs_facts(8) _ _ _ this, of 0 0] demo_names demo_fs_facts [of 512]
  show ?thesis by auto
qed

lemma created_file_facts [simp]:
  "\<not> is_deleted (created_file i t n d)" "\<not> open_for_wr (created_file i t n d)"
  by (simp_all add: created_file_def AddLinkName_def new_ZoneFile_def Let_def)

theorem open_writable_names_witness:
  "\<exists>st a fs s. OpenWritableFile demo_be demo_aux (str ''/b'') False False (demo_fs 512) (demo_volume 512) = Some ((st, Some a), fs, s)
    \<and> map_of (fs_files fs) = [str ''/a'' \<mapsto> 0, str ''/b'' \<mapsto> a] \<and> a \<noteq> 0"
proof -
  let ?f = "created_file 2 5 (str ''/b'') False"
  let ?fs = "(set_obj 1 ?f (demo_fs 512))\<lparr> fs_next_obj := Suc (Suc 0), next_file_id := 3 \<rparr>"
  have "length (file_record False (?f\<lparr> m_time := 5 \<rparr>)) \<le> 500" by code_simp
  then obtain fs1 s1 where sy: "SyncFileMetadataNoLock demo_be 1 False ?fs (demo_volume 512) = Some (OK, fs1, s1)"
    using demo_sync [of ?fs 1] demo_fs_facts(4) [of 512] demo_now [of 512] by (auto simp: set_obj_def)
  have "open_for_wr (fs_objs fs1 1) = open_for_wr ?f"
    using resyncedD(9) [OF resynced_SyncFileMetadata [OF sy]] by simp
  then obtain fs s where run: "OpenWritableFile demo_be demo_aux (str ''/b'') False False (demo_fs 512) (demo_volume 512) = Some ((OK, Some 1), fs, s)"
    using sy demo_names demo_fs_facts(1-3) [of 512] demo_now [of 512]
    by (auto simp: OpenWritableFile_def GetFileNoLock_def open_new_file_def new_obj_def Let_def AcquireWRLock_def)
  from open_writable_names [OF demo_fs_facts(8) _ _ _ run] run demo_names demo_fs_facts [of 512]
  show ?thesis by auto
qed

abbreviation demo_renamed :: "u64 \<Rightarrow> unit aquafs" where
  "demo_renamed cap \<equiv> insert_file [47, 98] 0 (erase_file [47, 97] (set_obj 0
     ((fs_objs (demo_fs cap) 0)\<lparr> linkfiles := remove1 [47, 97] (linkfiles (fs_objs (demo_fs cap) 0)) @ [[47, 98]] \<rparr>) (demo_fs cap)))"

abbreviation demo_linked :: "u64 \<Rightarrow> unit aquafs" where
  "demo_linked cap \<equiv> insert_file [47, 98] 0 (set_obj 0 (AddLinkName [47, 98] (fs_objs (demo_fs cap) 0)) (demo_fs cap))"

lemma demo_records:
  "length (file_record False ((fs_objs (demo_renamed 512) 0)\<lparr> m_time := 5 \<rparr>)) \<le> 500"
  "length (file_record False ((fs_objs (demo_linked 512) 0)\<lparr> m_time := 5 \<rparr>)) \<le> 500"
  by code_simp+

lemma demo_changed_facts:
  "fs_meta_log (demo_renamed cap) = fs_meta_log (demo_fs cap)" "fs_meta_log (demo_linked cap) = fs_meta_log (demo_fs cap)"
  "\<not> is_deleted (fs_objs (demo_renamed cap) 0)" "\<not> is_deleted (fs_objs (demo_linked cap) 0)"
  "fs_now (demo_renamed cap) = 5" "fs_now (demo_linked cap) = 5"
  using demo_fs_facts [of cap] demo_now [of cap]
  by (simp_all add: insert_file_def erase_file_def set_obj_def AddLinkName_def)


theorem link_file_names_witness:
  "\<exists>fs s. LinkFile demo_be demo_aux (str ''/a'') (str ''/b'') (demo_fs 512) (demo_volume 512) = Some (OK, fs, s)
    \<and> names_ok fs \<and> map_of (fs_files fs) (str ''/a'') = Some 0"
proof -
  obtain fs1 s1 where sy: "SyncFileMetadataNoLock demo_be 0 False (demo_linked 512) (demo_volume 512) = Some (OK, fs1, s1)"
    using demo_sync [of "demo_linked 512" 0] demo_records(2) demo_changed_facts [of 512] demo_fs_facts(4) [of 512] by auto
  then have run: "LinkFile demo_be demo_aux (str ''/a'') (str ''/b'') (demo_fs 512) (demo_volume 512) = Some (OK, fs1, s1)"
    using demo_names demo_fs_facts [of 512] by (simp add: LinkFile_def GetFileNoLock_def Let_def)
  from link_file_names [OF demo_fs_facts(8) _ _ _ run, of 0] run demo_names demo_fs_facts [of 512] show ?thesis
    by auto
qed

lemma demo_full:
  "map_option (\<lambda>(st, fs, s). ok st) (SyncFileMetadataNoLock demo_be 0 False (demo_renamed 0) (demo_volume 0)) = Some False"
  "map_option (\<lambda>(st, fs, s). ok st) (SyncFileMetadataNoLock demo_be 0 False (demo_linked 0) (demo_volume 0)) = Some False"
  by code_simp+

theorem persist_failure_reported_ok_witness:
  "\<exists>fs s. RenameFileNoLock 0 demo_be demo_aux (str ''/a'') (str ''/b'') (demo_fs 0) (demo_volume 0) = Some (OK, fs, s)
    \<and> map_of (fs_files fs) = [str ''/a'' \<mapsto> 0]"
proof -
  obtain st1 fs1 s1 where r: "SyncFileMetadataNoLock demo_be 0 False (demo_renamed 0) (demo_volume 0) = Some (st1, fs1, s1)" "\<not> ok st1"
    using demo_full(1) by (auto simp: map_option_case split: option.splits)
  obtain st2 fs2 s2 where l: "SyncFileMetadataNoLock demo_be 0 False (demo_linked 0) (demo_volume 0) = Some (st2, fs2, s2)" "\<not> ok st2"
    using demo_full(2) by (auto simp: map_option_case split: option.splits)
  from persist_failure_reported_ok [OF demo_fs_facts(8) demo_names _ _ r l, of 0 demo_aux] demo_fs_facts [of 0] show ?thesis
    by auto
qed

end
