(* ===== verification/Replay.thy ===== *)
theory Replay
  imports FsRecovery NameTable
begin

text \<open>
  What recovery makes of the records of the metadata log: an abstract table of recorded files, the
  effect of every kind of record on it, and the lemmas that the decoders of \<open>FsRecovery\<close> have that
  effect.
\<close>

subsection \<open>The recorded table\<close>

text \<open>What the log keeps of a file.\<close>

definition recorded :: "zfile \<Rightarrow> zfile" where
  "recorded f = (new_ZoneFile (file_id f))\<lparr> extents := extents f, linkfiles := linkfiles f,
     extent_start := extent_start f, zf_lifetime := zf_lifetime f, file_size := file_size f,
     m_time := m_time f, is_sparse := is_sparse f \<rparr>"

definition pview :: "'x aquafs \<Rightarrow> bytes \<Rightarrow> zfile option" where
  "pview fs n = map_option (\<lambda>a. recorded (fs_objs fs a)) (map_of (fs_files fs) n)"

lemma recorded_simps [simp]:
  "file_id (recorded f) = file_id f" "extents (recorded f) = extents f" "linkfiles (recorded f) = linkfiles f"
  "file_size (recorded f) = file_size f" "extent_start (recorded f) = extent_start f"
  "zf_lifetime (recorded f) = zf_lifetime f" "m_time (recorded f) = m_time f" "is_sparse (recorded f) = is_sparse f"
  by (simp_all add: recorded_def new_ZoneFile_def)

lemma recorded_eqI:
  assumes "file_id f = file_id g" "extents f = extents g" "linkfiles f = linkfiles g" "file_size f = file_size g"
    "extent_start f = extent_start g" "zf_lifetime f = zf_lifetime g" "m_time f = m_time g" "is_sparse f = is_sparse g"
  shows "recorded f = recorded g"
  using assms by (simp add: recorded_def)

lemma recorded_decoded: "recorded (decoded f 0 (new_ZoneFile i)) = recorded f"
  by (rule recorded_eqI) (simp_all add: decoded_def MetadataSynced_def new_ZoneFile_def)

text \<open>Decoding changes the used capacities of the zones and nothing else of the device.\<close>

definition same_zones :: "'b zbd \<Rightarrow> 'b zbd \<Rightarrow> bool" where
  "same_zones s s' = (zbd_be s' = zbd_be s \<and> map start (io_zones s') = map start (io_zones s)
     \<and> meta_zones s' = meta_zones s)"

lemma same_zones_refl [simp, intro]: "same_zones s s"
  by (simp add: same_zones_def)

lemma same_zones_trans [trans]: "same_zones s s1 \<Longrightarrow> same_zones s1 s2 \<Longrightarrow> same_zones s s2"
  by (simp add: same_zones_def)

lemma same_zones_add_used [simp]: "same_zones s (add_used i n s1) = same_zones s s1"
  by (simp add: same_zones_def)

lemma same_zones_extents [simp]:
  "same_zones s (claim_extents es s1) = same_zones s s1" "same_zones s (release_extents es s1) = same_zones s s1"
  unfolding claim_extents_def release_extents_def by (induction es arbitrary: s1) simp_all

lemma same_zones_drop_ref: "drop_ref a fs s = (fs', s') \<Longrightarrow> same_zones s s'"
  by (auto simp: drop_ref_def ClearExtents_def split: if_splits)

lemma drop_ref_other:
  "drop_ref a fs s = (fs', s') \<Longrightarrow> b \<noteq> a \<Longrightarrow> fs_objs fs' b = fs_objs fs b"
  "drop_ref a fs s = (fs', s') \<Longrightarrow> fs_handles fs' = fs_handles fs"
  "drop_ref a fs s = (fs', s') \<Longrightarrow> fs_files fs' = fs_files fs"
  by (auto simp: drop_ref_def ClearExtents_def set_obj_def split: if_splits)

lemma GetIOZone_same: "same_zones s s' \<Longrightarrow> GetIOZone be off s' = GetIOZone be off s"
  by (rule GetIOZone_cong) (simp_all add: same_zones_def)

text \<open>Files that the record formats can hold, with extents in the zones they name.\<close>

definition storable :: "'b backend \<Rightarrow> 'b zbd \<Rightarrow> zfile \<Rightarrow> bool" where
  "storable be s f = ((\<forall>e\<in>set (extents f). GetIOZone be (ex_start e) s = Some (ex_zone e))
     \<and> (\<forall>l\<in>set (linkfiles f). l \<noteq> [] \<and> length l < 2 ^ 32) \<and> length (file_EncodeSnapshotTo f []) < 2 ^ 32)"

lemma storable_same: "same_zones s s' \<Longrightarrow> storable be s' f = storable be s f"
  by (simp add: storable_def GetIOZone_same)

subsection \<open>Names of one object\<close>

text \<open>An object gets all its names at once.\<close>

lemma names_ok_bind:
  assumes ok: "names_ok fs" and sorted: "sorted_keys (fs_files fs')"
    and look: "map_of (fs_files fs') = (\<lambda>k. if k \<in> set (linkfiles (fs_objs fs' a)) then Some a else map_of (fs_files fs) k)"
    and objs: "\<And>b. b \<noteq> a \<Longrightarrow> fs_objs fs' b = fs_objs fs b"
    and free: "\<And>k. map_of (fs_files fs) k \<noteq> Some a" "\<And>k. k \<in> set (linkfiles (fs_objs fs' a)) \<Longrightarrow> map_of (fs_files fs) k = None"
    and f: "distinct (linkfiles (fs_objs fs' a))" "\<not> is_deleted (fs_objs fs' a)" "a < fs_next_obj fs'"
      "file_id (fs_objs fs' a) < next_file_id fs'"
      "\<And>k b. map_of (fs_files fs) k = Some b \<Longrightarrow> file_id (fs_objs fs b) \<noteq> file_id (fs_objs fs' a)"
    and grow: "fs_next_obj fs \<le> fs_next_obj fs'" "next_file_id fs \<le> next_file_id fs'"
  shows "names_ok fs'"
proof -
  have old: "b \<noteq> a \<and> map_of (fs_files fs) k = Some b" if "map_of (fs_files fs') k = Some b" "b \<noteq> a" for k b
    using that look by (auto split: if_splits)
  show ?thesis
    unfolding names_ok_def
  proof (intro conjI allI impI)
    fix k b
    assume kb: "map_of (fs_files fs') k = Some b"
    show "b < fs_next_obj fs'" using kb f(3) old [OF kb] names_okD(1) [OF ok, of k b] grow by fastforce
    show "\<not> is_deleted (fs_objs fs' b)"
      using f(2) old [OF kb] names_okD(2) [OF ok, of k b] objs [of b] by fastforce
    show "distinct (linkfiles (fs_objs fs' b))"
      using f(1) old [OF kb] names_okD(3) [OF ok, of k b] objs [of b] by fastforce
    show "file_id (fs_objs fs' b) < next_file_id fs'"
      using f(4) old [OF kb] names_okD(4) [OF ok, of k b] objs [of b] grow(2) by (metis order_less_le_trans)
    fix m
    show "(m \<in> set (linkfiles (fs_objs fs' b))) = (map_of (fs_files fs') m = Some b)"
    proof (cases "b = a")
      case True
      then show ?thesis using free(1) [of m] by (simp add: look)
    next
      case False
      then show ?thesis using old [OF kb] names_okD(5) [OF ok, of k b m] objs [of b] free(2) [of m] by (auto simp: look)
    qed
  next
    fix k b m c
    assume kb: "map_of (fs_files fs') k = Some b" and mc: "map_of (fs_files fs') m = Some c"
      and ids: "file_id (fs_objs fs' b) = file_id (fs_objs fs' c)"
    show "b = c"
    proof (cases "b = a \<or> c = a")
      case True
      then show ?thesis using ids objs [of b] objs [of c] old [OF kb] old [OF mc] f(5) [of k b] f(5) [of m c] by metis
    next
      case False
      then show ?thesis using ids objs old [OF kb] old [OF mc] names_ok_ids [OF ok, of k b m c] by simp
    qed
  qed (rule sorted)
qed

lemma insert_names:
  assumes "sorted_keys (fs_files fs)" "\<forall>k\<in>set ls. map_of (fs_files fs) k = None"
  shows "sorted_keys (fs_files (fold (\<lambda>n. insert_file n a) ls fs))"
    "map_of (fs_files (fold (\<lambda>n. insert_file n a) ls fs)) = (\<lambda>k. if k \<in> set ls then Some a else map_of (fs_files fs) k)"
    "fs_objs (fold (\<lambda>n. insert_file n a) ls fs) = fs_objs fs" "fs_next_obj (fold (\<lambda>n. insert_file n a) ls fs) = fs_next_obj fs"
    "next_file_id (fold (\<lambda>n. insert_file n a) ls fs) = next_file_id fs" "fs_handles (fold (\<lambda>n. insert_file n a) ls fs) = fs_handles fs"
proof -
  have files: "fs_files (fold (\<lambda>n. insert_file n a) ls fs) = fold (\<lambda>k. map_insert k a) ls (fs_files fs)" for ls
    by (induction ls arbitrary: fs) simp_all
  show "sorted_keys (fs_files (fold (\<lambda>n. insert_file n a) ls fs))"
    "map_of (fs_files (fold (\<lambda>n. insert_file n a) ls fs)) = (\<lambda>k. if k \<in> set ls then Some a else map_of (fs_files fs) k)"
    unfolding files using files.insert_many [OF assms] by simp_all
  show "fs_objs (fold (\<lambda>n. insert_file n a) ls fs) = fs_objs fs" "fs_next_obj (fold (\<lambda>n. insert_file n a) ls fs) = fs_next_obj fs"
    "next_file_id (fold (\<lambda>n. insert_file n a) ls fs) = next_file_id fs" "fs_handles (fold (\<lambda>n. insert_file n a) ls fs) = fs_handles fs"
    by (induction ls arbitrary: fs) (simp_all add: insert_file_def)
qed

lemma insert_taken:
  assumes "sorted_keys m" "map_of m k \<noteq> None"
  shows "map_insert k v m = m"
  using assms
proof (induction m)
  case (Cons e m)
  obtain k' v' where e: "e = (k', v')" by fastforce
  have lt: "\<forall>x\<in>fst ` set m. k' < x" and s: "sorted_keys m" using Cons.prems by (auto simp: e sorted_keys_def)
  have "map_of m k = None" if "k < k'"
    using lt that by (auto simp: map_of_eq_None_iff dest: less_trans)
  then show ?case using Cons.IH [OF s] Cons.prems by (auto simp: e split: if_splits)
qed simp

lemma insert_names_taken:
  assumes "sorted_keys (fs_files fs)" "\<forall>k\<in>set ls. map_of (fs_files fs) k \<noteq> None"
  shows "fold (\<lambda>n. insert_file n a) ls fs = fs"
  using assms(2) by (induction ls) (simp_all add: insert_file_def insert_taken [OF assms(1)])

subsection \<open>Snapshots\<close>

definition snapshot_files :: "'x aquafs \<Rightarrow> (bytes \<times> nat) list \<Rightarrow> bytes" where
  "snapshot_files fs es = concat (map (\<lambda>e. PutLengthPrefixedSlice [] (file_EncodeSnapshotTo (fs_objs fs (snd e)) [])) es)"

lemma EncodeSnapshotTo_eq:
  "fs_EncodeSnapshotTo fs = EncodeFixed32 kCompleteFilesSnapshot @ PutLengthPrefixedSlice [] (snapshot_files fs (fs_files fs))"
proof -
  have "fold (\<lambda>e out. PutLengthPrefixedSlice out (file_EncodeSnapshotTo (fs_objs fs (snd e)) [])) es out
      = out @ snapshot_files fs es" for es out
  proof (induction es arbitrary: out)
    case (Cons e es)
    then show ?case
      by (simp add: snapshot_files_def PutLengthPrefixedSlice_append [of out])
  qed (simp add: snapshot_files_def)
  then show ?thesis
    by (simp add: fs_EncodeSnapshotTo_def PutFixed32_def PutLengthPrefixedSlice_append [of "EncodeFixed32 _"])
qed

lemma bump_file_id_simps [simp]:
  "fs_files (bump_file_id i fs) = fs_files fs" "fs_objs (bump_file_id i fs) = fs_objs fs"
  "fs_next_obj (bump_file_id i fs) = fs_next_obj fs" "fs_handles (bump_file_id i fs) = fs_handles fs"
  by (simp_all add: bump_file_id_def)

lemma bump_file_id_above:
  assumes "i + 1 \<noteq> 0"
  shows "i < next_file_id (bump_file_id i fs)" "next_file_id fs \<le> next_file_id (bump_file_id i fs)"
proof -
  have "i < i + 1" using unatSuc [of i] assms by (simp add: word_less_nat_alt add.commute)
  then show "i < next_file_id (bump_file_id i fs)" "next_file_id fs \<le> next_file_id (bump_file_id i fs)"
    by (auto simp: bump_file_id_def)
qed

lemma names_ok_bump: "names_ok fs \<Longrightarrow> i + 1 \<noteq> 0 \<Longrightarrow> names_ok (bump_file_id i fs)"
  using names_ok_grow [of fs "fs_next_obj fs" "next_file_id (bump_file_id i fs)"] bump_file_id_above(2) [of i fs]
  by (auto simp: bump_file_id_def split: if_splits)

lemma names_ok_next: "names_ok fs \<Longrightarrow> fs_next_obj fs \<le> n \<Longrightarrow> names_ok (fs\<lparr> fs_next_obj := n \<rparr>)"
  using names_ok_grow [of fs n "next_file_id fs"] by (simp add: names_ok_def)

lemma less_not_max: "(i :: u64) < j \<Longrightarrow> i + 1 \<noteq> 0"
  using word_order.extremum_strict [of j] by (auto simp: add_eq_0_iff2)

text \<open>One file of a snapshot, decoded into a table in which either all its names are free or all are
  taken.\<close>

lemma decode_snapshot_file:
  assumes ok: "names_ok fs0" and st: "storable be s f" and f: "distinct (linkfiles f)" "linkfiles f \<noteq> []" "\<not> is_deleted f"
      "file_id f + 1 \<noteq> 0"
    and han: "fs_handles fs0 = (\<lambda>_. 0)"
    and names: "(\<forall>k\<in>set (linkfiles f). map_of (fs_files fs0) k = None)
        \<and> (\<forall>k b. map_of (fs_files fs0) k = Some b \<longrightarrow> file_id (fs_objs fs0 b) \<noteq> file_id f)
      \<or> (\<forall>k\<in>set (linkfiles f). pview fs0 k = Some (recorded f))"
  shows "\<exists>fs1 s1. decode_snapshot be (PutLengthPrefixedSlice [] (file_EncodeSnapshotTo f []) @ rest) fs0 s
      = decode_snapshot be rest fs1 s1 \<and> names_ok fs1 \<and> same_zones s s1 \<and> fs_handles fs1 = (\<lambda>_. 0)
      \<and> pview fs1 = (\<lambda>k. if k \<in> set (linkfiles f) then Some (recorded f) else pview fs0 k)"
proof -
  define g where "g = decoded f 0 (new_ZoneFile 0)"
  define a where "a = fs_next_obj fs0"
  define fs1 where "fs1 = (set_obj a g (bump_file_id (file_id f) fs0))\<lparr> fs_next_obj := a + 1 \<rparr>"
  define fs2 where "fs2 = fold (\<lambda>n. insert_file n a) (linkfiles f) fs1"
  define s1 where "s1 = claim_extents (extents f) s"
  have g: "file_id g = file_id f" "linkfiles g = linkfiles f" "\<not> is_deleted g"
    by (simp_all add: g_def decoded_def MetadataSynced_def new_ZoneFile_def)
  have dec: "file_DecodeFrom be (file_EncodeSnapshotTo f []) (new_ZoneFile 0) s = (OK, g, s1)"
    using st file_DecodeFrom_EncodeTo [of 0 f be s] by (simp add: storable_def file_EncodeSnapshotTo_def g_def s1_def)
  obtain fs3 s2 where d: "drop_ref a fs2 s1 = (fs3, s2)" by fastforce
  have run: "decode_snapshot be (PutLengthPrefixedSlice [] (file_EncodeSnapshotTo f []) @ rest) fs0 s = decode_snapshot be rest fs3 s2"
    using st dec d g by (subst decode_snapshot.simps)
      (simp add: GetLengthPrefixedSlice_Put storable_def new_obj_def Let_def fs2_def fs1_def a_def)
  have out: "map_of (fs_files fs0) k \<noteq> Some a" for k using names_okD(1) [OF ok, of k a] by (auto simp: a_def)
  have files1: "fs_files fs1 = fs_files fs0" "fs_objs fs1 = (fs_objs fs0)(a := g)" "fs_handles fs1 = (\<lambda>_. 0)"
    "fs_next_obj fs1 = a + 1" "next_file_id fs1 = next_file_id (bump_file_id (file_id f) fs0)"
    by (simp_all add: fs1_def set_obj_def han)
  have sorted: "sorted_keys (fs_files fs1)" using names_ok_sorted [OF ok] by (simp add: files1)
  have ok1: "names_ok fs1"
    unfolding fs1_def using names_ok_next [OF names_ok_outside [OF names_ok_bump [OF ok f(4)], of a g], of "a + 1"] out
    by (simp add: a_def)
  have z: "same_zones s s2" using same_zones_trans [OF _ same_zones_drop_ref [OF d]] by (simp add: s1_def)
  obtain n where n: "n \<in> set (linkfiles f)" using f(2) by (cases "linkfiles f") auto
  show ?thesis
  proof (cases "\<forall>k\<in>set (linkfiles f). map_of (fs_files fs0) k = None")
    case True
    have new: "map_of (fs_files fs0) k = Some b \<Longrightarrow> file_id (fs_objs fs0 b) \<noteq> file_id f" for k b
      using names True n by (fastforce simp: pview_def)
    note ins = insert_names [OF sorted, of "linkfiles f" a, folded fs2_def, unfolded files1]
    have ok2: "names_ok fs2"
      by (rule names_ok_bind [OF ok1, where a = a])
        (use ins True out f g new bump_file_id_above(1) [OF f(4)] in \<open>auto simp: files1\<close>)
    have "a \<in> snd ` set (fs_files fs2)"
      using ins(2) True n map_of_SomeD [of "fs_files fs2" n a] by force
    then have "fs3 = fs2" using d by (simp add: drop_ref_def)
    moreover have "pview fs2 = (\<lambda>k. if k \<in> set (linkfiles f) then Some (recorded f) else pview fs0 k)"
      using ins True out recorded_decoded [of f 0] by (auto simp: pview_def fun_eq_iff g_def map_option_case split: option.splits)
    ultimately show ?thesis using run ok2 z ins True by auto
  next
    case False
    then have taken: "\<forall>k\<in>set (linkfiles f). pview fs0 k = Some (recorded f)" using names by blast
    then have "fs2 = fs1"
      unfolding fs2_def by (intro insert_names_taken [OF sorted]) (auto simp: pview_def files1)
    then have d1: "drop_ref a fs1 s1 = (fs3, s2)" using d by simp
    note dr = names_ok_drop_ref [OF ok1 d1]
    have objs3: "fs_objs fs3 b = fs_objs fs0 b" if "b \<noteq> a" for b
      using drop_ref_other(1) [OF d1] that by (simp add: files1)
    have "fs_handles fs3 = (\<lambda>_. 0)" using drop_ref_other(2) [OF d1] by (simp add: files1)
    moreover have "pview fs3 = pview fs0"
    proof
      fix k
      have "map_of (fs_files fs0) k = Some b \<Longrightarrow> fs_objs fs3 b = fs_objs fs0 b" for b using objs3 out by metis
      then show "pview fs3 k = pview fs0 k" by (cases "map_of (fs_files fs0) k") (simp_all add: pview_def dr files1)
    qed
    moreover have "pview fs0 = (\<lambda>k. if k \<in> set (linkfiles f) then Some (recorded f) else pview fs0 k)"
      using taken by auto
    ultimately show ?thesis using run dr(1) z by auto
  qed
qed

lemma sorted_keys_map_of: "sorted_keys m \<Longrightarrow> (k, v) \<in> set m \<Longrightarrow> map_of m k = Some v"
  by (rule map_of_is_SomeI) (simp_all add: sorted_keys_def strict_sorted_iff)

lemma GetLengthPrefixedSlice_Nil: "\<exists>rest. GetLengthPrefixedSlice [] = (None, rest)"
proof (cases "GetLengthPrefixedSlice []")
  case (Pair r rest)
  then show ?thesis using GetLengthPrefixedSlice_shorter [of "[]" _ rest] by (cases r) auto
qed

lemma decode_snapshot_files:
  assumes live: "names_ok fs" and st: "\<forall>e\<in>set es. storable be s (fs_objs fs (snd e))"
    and es: "set es \<subseteq> set (fs_files fs)" and ok: "names_ok fs0" "fs_handles fs0 = (\<lambda>_. 0)"
    and part: "pview fs0 = (\<lambda>k. if map_of (fs_files fs) k \<in> Some ` P then pview fs k else None)"
  shows "\<exists>fs1 s1. decode_snapshot be (snapshot_files fs es) fs0 s = (OK, fs1, s1) \<and> names_ok fs1 \<and> same_zones s s1
    \<and> fs_handles fs1 = (\<lambda>_. 0)
    \<and> pview fs1 = (\<lambda>k. if map_of (fs_files fs) k \<in> Some ` (P \<union> snd ` set es) then pview fs k else None)"
  using st es ok part
proof (induction es arbitrary: fs0 s P)
  case Nil
  have "decode_snapshot be [] fs0 s = (OK, fs0, s)"
    using GetLengthPrefixedSlice_Nil by (subst decode_snapshot.simps) auto
  then show ?case using Nil by (auto simp: snapshot_files_def)
next
  case (Cons e es)
  obtain n a where e: "e = (n, a)" by fastforce
  let ?f = "fs_objs fs a"
  have na: "map_of (fs_files fs) n = Some a"
    using Cons.prems(2) names_ok_sorted [OF live] by (simp add: e sorted_keys_map_of)
  note a = names_okD [OF live na]
  have ne: "linkfiles ?f \<noteq> []" using a(6) by auto
  have links: "k \<in> set (linkfiles ?f) \<longleftrightarrow> map_of (fs_files fs) k = Some a" for k by (rule a(5))
  have pv: "pview fs0 k = (if map_of (fs_files fs) k \<in> Some ` P then pview fs k else None)" for k
    using Cons.prems(5) by simp
  have names: "(\<forall>k\<in>set (linkfiles ?f). map_of (fs_files fs0) k = None)
      \<and> (\<forall>k b. map_of (fs_files fs0) k = Some b \<longrightarrow> file_id (fs_objs fs0 b) \<noteq> file_id ?f)
      \<or> (\<forall>k\<in>set (linkfiles ?f). pview fs0 k = Some (recorded ?f))"
  proof (cases "a \<in> P")
    case True
    then have "pview fs0 k = Some (recorded ?f)" if "k \<in> set (linkfiles ?f)" for k
      using that pv [of k] by (simp add: links pview_def [of fs])
    then show ?thesis by blast
  next
    case False
    have "map_of (fs_files fs0) k = None" if "k \<in> set (linkfiles ?f)" for k
      using pv [of k] that False by (simp add: links pview_def [of fs0] image_iff)
    moreover have "file_id (fs_objs fs0 b) \<noteq> file_id ?f" if b: "map_of (fs_files fs0) k = Some b" for k b
    proof
      assume id: "file_id (fs_objs fs0 b) = file_id ?f"
      obtain c where c: "map_of (fs_files fs) k = Some c" "c \<in> P" "recorded (fs_objs fs0 b) = recorded (fs_objs fs c)"
        using pv [of k] b by (auto simp: pview_def split: if_splits)
      then have "file_id (fs_objs fs c) = file_id ?f" using id c(3) by (metis recorded_simps(1))
      then show False using names_ok_ids [OF live c(1) na] c(2) False by simp
    qed
    ultimately show ?thesis by blast
  qed
  obtain fs1 s1 where step: "decode_snapshot be (PutLengthPrefixedSlice [] (file_EncodeSnapshotTo ?f []) @ snapshot_files fs es) fs0 s
        = decode_snapshot be (snapshot_files fs es) fs1 s1"
      "names_ok fs1" "same_zones s s1" "fs_handles fs1 = (\<lambda>_. 0)"
      "pview fs1 = (\<lambda>k. if k \<in> set (linkfiles ?f) then Some (recorded ?f) else pview fs0 k)"
    using decode_snapshot_file [OF Cons.prems(3) _ a(3) ne a(2) less_not_max [OF a(4)] Cons.prems(4) names, of be s "snapshot_files fs es"]
      Cons.prems(1) by (auto simp: e)
  have "pview fs1 = (\<lambda>k. if map_of (fs_files fs) k \<in> Some ` insert a P then pview fs k else None)"
    unfolding step(5) pv by (auto simp: fun_eq_iff links pview_def)
  moreover have "\<forall>e\<in>set es. storable be s1 (fs_objs fs (snd e))" using Cons.prems(1) step(3) by (simp add: storable_same)
  ultimately show ?case
    using Cons.IH [OF _ _ step(2,4), of s1 "insert a P"] Cons.prems(2) step(1) same_zones_trans [OF step(3)]
    by (auto simp: e snapshot_files_def)
qed

text \<open>A snapshot replaces the table by the one that was written.\<close>

lemma ClearFiles_empty:
  assumes "ClearFiles fs s = (fs', s')"
  shows "fs_files fs' = []" "same_zones s s'" "fs_handles fs' = fs_handles fs"
    "next_file_id fs' = next_file_id fs" "fs_next_obj fs' = fs_next_obj fs"
proof -
  have "fs_files (fst r) = fs_files fs \<and> same_zones s (snd r) \<and> fs_handles (fst r) = fs_handles fs
      \<and> next_file_id (fst r) = next_file_id fs \<and> fs_next_obj (fst r) = fs_next_obj fs"
    if "r = fold (\<lambda>a (fs, s). drop_ref a fs s) objs (fs, s)" for objs r and fs :: "'a aquafs" and s :: "'b zbd"
    using that
  proof (induction objs arbitrary: fs s r)
    case (Cons a objs)
    obtain fs1 s1 where d: "drop_ref a fs s = (fs1, s1)" by fastforce
    have "next_file_id fs1 = next_file_id fs" "fs_next_obj fs1 = fs_next_obj fs"
      using d by (auto simp: drop_ref_def ClearExtents_def split: if_splits)
    with Cons.IH [of r fs1 s1] Cons.prems d drop_ref_other(2,3) [OF d] same_zones_trans [OF same_zones_drop_ref [OF d]]
    show ?case by auto
  qed simp
  from this [OF refl, of "remdups (map snd (fs_files fs))" "fs\<lparr> fs_files := [] \<rparr>" s] assms
  show "fs_files fs' = []" "same_zones s s'" "fs_handles fs' = fs_handles fs"
    "next_file_id fs' = next_file_id fs" "fs_next_obj fs' = fs_next_obj fs"
    by (simp_all add: ClearFiles_def)
qed

lemma replay_snapshot:
  assumes live: "names_ok fs" and st: "\<forall>e\<in>set (fs_files fs). storable be s (fs_objs fs (snd e))"
    and han: "fs_handles fs0 = (\<lambda>_. 0)"
  shows "\<exists>fs1 s1. apply_record be raid kCompleteFilesSnapshot (snapshot_files fs (fs_files fs)) snap fs0 s
      = Some ((OK, True), fs1, s1) \<and> names_ok fs1 \<and> same_zones s s1 \<and> fs_handles fs1 = (\<lambda>_. 0) \<and> pview fs1 = pview fs"
proof -
  obtain fs2 s2 where c: "ClearFiles fs0 s = (fs2, s2)" by fastforce
  note e = ClearFiles_empty [OF c]
  have ok2: "names_ok fs2" using e(1) by (simp add: names_ok_def sorted_keys_def)
  have "\<forall>e\<in>set (fs_files fs). storable be s2 (fs_objs fs (snd e))" using st e(2) by (simp add: storable_same)
  moreover have "pview fs2 = (\<lambda>_. None)" by (simp add: pview_def fun_eq_iff e(1))
  moreover note decode_snapshot_files [OF live _ subset_refl ok2, of be s2 "{}"] e(3) han
  ultimately
  obtain fs1 s1 where d: "decode_snapshot be (snapshot_files fs (fs_files fs)) fs2 s2 = (OK, fs1, s1)" "names_ok fs1"
      "same_zones s2 s1" "fs_handles fs1 = (\<lambda>_. 0)"
      "pview fs1 = (\<lambda>k. if map_of (fs_files fs) k \<in> Some ` snd ` set (fs_files fs) then pview fs k else None)"
    by auto
  have "pview fs1 = pview fs"
  proof
    fix k
    show "pview fs1 k = pview fs k"
      using map_of_SomeD [of "fs_files fs" k] unfolding d(5)
      by (cases "map_of (fs_files fs) k") (force simp: pview_def)+
  qed
  then show ?thesis
    using c d same_zones_trans [OF e(2) d(3)] by (auto simp: apply_record_def DecodeSnapshotFrom_def)
qed

subsection \<open>Deletions\<close>

lemma pview_drop_ref:
  assumes "drop_ref a fs s = (fs', s')"
  shows "pview fs' = pview fs"
proof
  fix k
  have "fs_objs fs' b = fs_objs fs b" if "map_of (fs_files fs) k = Some b" for b
  proof (cases "a \<in> snd ` set (fs_files fs)")
    case True
    then show ?thesis using assms by (auto simp: drop_ref_def)
  next
    case False
    then have "b \<noteq> a" using map_of_SomeD [OF that] by force
    then show ?thesis by (rule drop_ref_other(1) [OF assms])
  qed
  then show "pview fs' k = pview fs k"
    using drop_ref_other(3) [OF assms] by (cases "map_of (fs_files fs) k") (simp_all add: pview_def)
qed

definition unlinked :: "bytes \<Rightarrow> zfile \<Rightarrow> zfile" where
  "unlinked n f = f\<lparr> linkfiles := remove1 n (linkfiles f) \<rparr>"

definition without_name :: "bytes \<Rightarrow> (bytes \<Rightarrow> zfile option) \<Rightarrow> bytes \<Rightarrow> zfile option" where
  "without_name n T = (\<lambda>m. if m = n then None else map_option (unlinked n) (T m))"

lemma recorded_unlinked: "recorded (unlinked n f) = unlinked n (recorded f)"
  by (simp add: recorded_def unlinked_def new_ZoneFile_def)

lemma pview_remove:
  assumes ok: "names_ok fs" and n: "map_of (fs_files fs) n = Some a"
    and f: "recorded f = recorded (unlinked n (fs_objs fs a))"
  shows "pview (set_obj a f (erase_file n fs)) = without_name n (pview fs)"
proof
  fix m
  have "unlinked n (recorded (fs_objs fs b)) = recorded (fs_objs fs b)" if "map_of (fs_files fs) m = Some b" "b \<noteq> a" for b
  proof -
    have "n \<notin> set (linkfiles (fs_objs fs b))" using names_okD(5) [OF ok that(1), of n] n that(2) by simp
    then show ?thesis by (simp add: unlinked_def remove1_idem)
  qed
  then show "pview (set_obj a f (erase_file n fs)) m = without_name n (pview fs) m"
    using f by (cases "map_of (fs_files fs) m") (auto simp: pview_def without_name_def map_of_erase recorded_unlinked)
qed

definition deletion_data :: "u64 \<Rightarrow> bytes \<Rightarrow> bytes" where
  "deletion_data i n = EncodeFixed64 i @ PutLengthPrefixedSlice [] n"

lemma EncodeFileDeletionTo_eq:
  "EncodeFileDeletionTo f n = EncodeFixed32 kFileDeletion @ PutLengthPrefixedSlice [] (deletion_data (file_id f) n)"
  by (simp add: EncodeFileDeletionTo_def deletion_data_def PutFixed32_def PutFixed64_def
      PutLengthPrefixedSlice_append [of "EncodeFixed32 _"] PutLengthPrefixedSlice_append [of "EncodeFixed64 _"])

lemma replay_deletion:
  assumes ok: "names_ok fs" and n: "map_of (fs_files fs) n = Some a" "length n < 2 ^ 32"
  shows "\<exists>fs1 s1. apply_record be raid kFileDeletion (deletion_data (file_id (fs_objs fs a)) n) snap fs s = Some ((OK, snap), fs1, s1)
    \<and> names_ok fs1 \<and> same_zones s s1 \<and> fs_handles fs1 = fs_handles fs \<and> pview fs1 = without_name n (pview fs)"
proof -
  define f where "f = unlinked n (fs_objs fs a)"
  obtain fs1 s1 where d: "drop_ref a (set_obj a f (erase_file n fs)) s = (fs1, s1)" by fastforce
  have ok1: "names_ok (set_obj a f (erase_file n fs))"
    by (rule names_ok_remove [OF ok n(1)]) (simp_all add: f_def unlinked_def)
  have "RemoveLinkName n (fs_objs fs a) = (OK, f)"
    using names_okD(6) [OF ok n(1)] by (simp add: RemoveLinkName_ok f_def unlinked_def)
  then have "apply_record be raid kFileDeletion (deletion_data (file_id (fs_objs fs a)) n) snap fs s = Some ((OK, snap), fs1, s1)"
    using n d GetLengthPrefixedSlice_Put [OF n(2), of "[]"]
    by (simp add: apply_record_def record_tags DecodeFileDeletionFrom_def deletion_data_def codec_simps Let_def)
  moreover have "pview fs1 = without_name n (pview fs)"
    using pview_drop_ref [OF d] pview_remove [OF ok n(1), of f] by (simp add: f_def)
  ultimately show ?thesis
    using names_ok_drop_ref(1) [OF ok1 d] same_zones_drop_ref [OF d] drop_ref_other(2) [OF d]
    by (auto simp: set_obj_def erase_file_def)
qed

subsection \<open>Updates and replacements\<close>

text \<open>All names of an object leave the table.\<close>

definition unnamed :: "nat \<Rightarrow> 'x aquafs \<Rightarrow> 'x aquafs" where
  "unnamed a fs = fs\<lparr> fs_files := filter (\<lambda>e. snd e \<noteq> a) (fs_files fs) \<rparr>"

lemma erase_links_all:
  assumes "names_ok fs" "map_of (fs_files fs) n = Some a"
  shows "\<exists>fs1. erase_links (linkfiles (fs_objs fs a)) fs = (True, fs1) \<and> sorted_keys (fs_files fs1)
    \<and> map_of (fs_files fs1) = (\<lambda>k. if map_of (fs_files fs) k = Some a then None else map_of (fs_files fs) k)
    \<and> fs_objs fs1 = fs_objs fs \<and> fs_next_obj fs1 = fs_next_obj fs \<and> next_file_id fs1 = next_file_id fs \<and> fs_handles fs1 = fs_handles fs"
proof -
  have "\<exists>fs1. erase_links ls fs = (True, fs1) \<and> sorted_keys (fs_files fs1)
      \<and> map_of (fs_files fs1) = (\<lambda>k. if k \<in> set ls then None else map_of (fs_files fs) k)
      \<and> fs_objs fs1 = fs_objs fs \<and> fs_next_obj fs1 = fs_next_obj fs \<and> next_file_id fs1 = next_file_id fs \<and> fs_handles fs1 = fs_handles fs"
    if "distinct ls" "sorted_keys (fs_files fs)" "\<forall>k\<in>set ls. map_of (fs_files fs) k \<noteq> None" for ls and fs :: "'a aquafs"
    using that
  proof (induction ls arbitrary: fs)
    case (Cons k ls)
    have "\<forall>j\<in>set ls. map_of (fs_files (erase_file k fs)) j \<noteq> None"
      using Cons.prems by (auto simp: map_of_erase)
    from Cons.IH [OF _ _ this] Cons.prems show ?case
      by (auto simp: map_of_erase sorted_erase fun_eq_iff erase_file_def)
  qed simp
  from this [OF names_okD(3) [OF assms] names_ok_sorted [OF assms(1)]] names_ok_links [OF assms] show ?thesis by auto
qed

lemma names_ok_without:
  assumes ok: "names_ok fs" and sorted: "sorted_keys (fs_files fs1)"
    and look: "map_of (fs_files fs1) = (\<lambda>k. if map_of (fs_files fs) k = Some a then None else map_of (fs_files fs) k)"
    and same: "fs_objs fs1 = fs_objs fs" "fs_next_obj fs1 = fs_next_obj fs" "next_file_id fs1 = next_file_id fs"
  shows "names_ok fs1"
  unfolding names_ok_def same
proof (intro conjI allI impI)
  fix k b
  assume "map_of (fs_files fs1) k = Some b"
  then have kb: "map_of (fs_files fs) k = Some b" "b \<noteq> a" by (auto simp: look split: if_splits)
  note b = names_okD [OF ok kb(1)]
  show "b < fs_next_obj fs" "\<not> is_deleted (fs_objs fs b)" "distinct (linkfiles (fs_objs fs b))"
    "file_id (fs_objs fs b) < next_file_id fs" using b by simp_all
  fix m
  show "(m \<in> set (linkfiles (fs_objs fs b))) = (map_of (fs_files fs1) m = Some b)"
    using b(5) [of m] kb(2) by (auto simp: look)
next
  fix k b m c
  assume "map_of (fs_files fs1) k = Some b" "map_of (fs_files fs1) m = Some c"
    "file_id (fs_objs fs b) = file_id (fs_objs fs c)"
  then show "b = c" using names_ok_ids [OF ok, of k b m c] by (auto simp: look split: if_splits)
qed (rule sorted)

lemma find_id_found:
  assumes "names_ok fs" "map_of (fs_files fs) n = Some a"
  shows "find_id (file_id (fs_objs fs a)) fs = Some a"
proof -
  have "a \<in> set (map snd (fs_files fs))" using map_of_SomeD [OF assms(2)] by force
  then obtain b where b: "find_id (file_id (fs_objs fs a)) fs = Some b"
    by (cases "find_id (file_id (fs_objs fs a)) fs") (auto simp: find_id_def find_None_iff)
  then have "file_id (fs_objs fs b) = file_id (fs_objs fs a)" "b \<in> set (map snd (fs_files fs))"
    by (auto simp: find_id_def find_Some_iff)
  then obtain m where "(m, b) \<in> set (fs_files fs)" by auto
  then have "map_of (fs_files fs) m = Some b" by (rule sorted_keys_map_of [OF names_ok_sorted [OF assms(1)]])
  then show ?thesis using b names_ok_ids [OF assms(1) _ assms(2)] \<open>file_id (fs_objs fs b) = _\<close> by auto
qed

text \<open>The table after an update: the file \<open>f\<close> has exactly the names it lists.\<close>

definition with_file :: "zfile \<Rightarrow> (bytes \<Rightarrow> zfile option) \<Rightarrow> bytes \<Rightarrow> zfile option" where
  "with_file f T = (\<lambda>m. if m \<in> set (linkfiles f) then Some f
     else case T m of None \<Rightarrow> None | Some g \<Rightarrow> if file_id g = file_id f then None else Some g)"

lemma replay_update:
  assumes ok: "names_ok fs" and n: "map_of (fs_files fs) n = Some a" "file_id (fs_objs fs a) = file_id f"
    and placed: "\<forall>e\<in>set (drop (unat k) (extents f)). GetIOZone be (ex_start e) s = Some (ex_zone e)"
    and links: "\<forall>l\<in>set (linkfiles f). l \<noteq> [] \<and> length l < 2 ^ 32" "distinct (linkfiles f)" "linkfiles f \<noteq> []"
    and names: "\<forall>l\<in>set (linkfiles f). map_of (fs_files fs) l = None \<or> map_of (fs_files fs) l = Some a"
    and tag: "tag = (if replace then kFileReplace else kFileUpdate)"
  shows "\<exists>fs1 s1. apply_record be raid tag (file_EncodeTo f [] k) snap fs s = Some ((OK, snap), fs1, s1)
    \<and> names_ok fs1 \<and> same_zones s s1 \<and> fs_handles fs1 = fs_handles fs
    \<and> pview fs1 = with_file (recorded (f\<lparr> extents := (if replace then [] else extents (fs_objs fs a)) @ drop (unat k) (extents f) \<rparr>)) (pview fs)"
proof -
  define u where "u = decoded f k (new_ZoneFile 0)"
  define s1 where "s1 = claim_extents (drop (unat k) (extents f)) s"
  have dec: "file_DecodeFrom be (file_EncodeTo f [] k) (new_ZoneFile 0) s = (OK, u, s1)"
    using file_DecodeFrom_EncodeTo [OF placed links(1)] by (simp add: u_def s1_def)
  have u: "file_id u = file_id f" "linkfiles u = linkfiles f" "extents u = drop (unat k) (extents f)"
    "file_size u = file_size f" "zf_lifetime u = zf_lifetime f" "m_time u = m_time f" "extent_start u = extent_start f"
    "is_sparse u = is_sparse f"
    by (simp_all add: u_def decoded_def MetadataSynced_def new_ZoneFile_def)
  define fs2 where "fs2 = bump_file_id (file_id f) fs"
  have "file_id f < next_file_id fs" using names_okD(4) [OF ok n(1)] n(2) by simp
  then have fs2: "fs2 = fs" by (simp add: fs2_def bump_file_id_def)
  obtain fs3 where er: "erase_links (linkfiles (fs_objs fs a)) fs = (True, fs3)" "sorted_keys (fs_files fs3)"
    "map_of (fs_files fs3) = (\<lambda>k. if map_of (fs_files fs) k = Some a then None else map_of (fs_files fs) k)"
    "fs_objs fs3 = fs_objs fs" "fs_next_obj fs3 = fs_next_obj fs" "next_file_id fs3 = next_file_id fs" "fs_handles fs3 = fs_handles fs"
    using erase_links_all [OF ok n(1)] by blast
  have ok3: "names_ok fs3" by (rule names_ok_without [OF ok er(2-6)])
  obtain st' f' s2 where mu0: "MergeUpdate u replace (fs_objs fs a) s1 = (st', f', s2)" by (metis prod_cases3)
  have mu: "st' = OK" "same_zones s s2" "file_id f' = file_id f" "linkfiles f' = linkfiles f"
      "is_deleted f' = is_deleted (fs_objs fs a)"
      "recorded f' = recorded (f\<lparr> extents := (if replace then [] else extents (fs_objs fs a)) @ drop (unat k) (extents f) \<rparr>)"
    using mu0 by (auto simp: MergeUpdate_def u n(2) Let_def ClearExtents_def MetadataSynced_def s1_def recorded_def split: if_splits)
  define fs4 where "fs4 = fold (\<lambda>n. insert_file n a) (linkfiles f) (set_obj a f' fs3)"
  have "\<forall>l\<in>set (linkfiles f). map_of (fs_files (set_obj a f' fs3)) l = None" using names by (auto simp: er(3))
  note ins = insert_names [OF _ this, of a, folded fs4_def, simplified, OF er(2)]
  have look4: "map_of (fs_files fs4) = (\<lambda>m. if m \<in> set (linkfiles f) then Some a
      else if map_of (fs_files fs) m = Some a then None else map_of (fs_files fs) m)"
    using ins(2) by (simp add: er(3) fun_eq_iff)
  have ids: "map_of (fs_files fs) m = Some b \<Longrightarrow> file_id (fs_objs fs b) = file_id f \<longleftrightarrow> b = a" for m b
    using names_ok_ids [OF ok _ n(1), of m b] n(2) by auto
  have ok4: "names_ok fs4"
  proof (rule names_ok_bind [OF ok3, where a = a])
    show "sorted_keys (fs_files fs4)" by (rule ins(1))
    show "map_of (fs_files fs4) = (\<lambda>k. if k \<in> set (linkfiles (fs_objs fs4 a)) then Some a else map_of (fs_files fs3) k)"
      using ins(2,3) mu(4) by (simp add: fun_eq_iff)
    show "map_of (fs_files fs3) k = None" if "k \<in> set (linkfiles (fs_objs fs4 a))" for k
      using that names ins(3) mu(4) by (auto simp: er(3))
    show "file_id (fs_objs fs3 b) \<noteq> file_id (fs_objs fs4 a)" if "map_of (fs_files fs3) k = Some b" for k b
      using that ids [of k b] ins(3) mu(3) by (auto simp: er split: if_splits)
  qed (use names_okD(1,2) [OF ok n(1)] \<open>file_id f < next_file_id fs\<close> in \<open>simp_all add: ins(3-5) er mu links(2)\<close>)
  define s3 where "s3 = release_extents (extents u) s2"
  have "a \<in> snd ` set (fs_files fs4)"
    using look4 links(3) map_of_SomeD [of "fs_files fs4" "hd (linkfiles f)" a] by force
  then have dr: "drop_ref a fs4 s3 = (fs4, s3)" by (simp add: drop_ref_def)
  have "DecodeFileUpdateFrom be (file_EncodeTo f [] k) replace fs s = Some (OK, fs4, s3)"
    using dec er(1) mu(1,4) mu0 dr find_id_found [OF ok n(1)] n(2)
    by (simp add: DecodeFileUpdateFrom_def u fs2 [unfolded fs2_def] er(4) fs4_def ClearExtents_def s3_def)
  then have "apply_record be raid tag (file_EncodeTo f [] k) snap fs s = Some ((OK, snap), fs4, s3)"
    using tag by (auto simp: apply_record_def record_tags split: if_splits)
  moreover have "pview fs4 = with_file (recorded f') (pview fs)"
  proof
    fix m
    show "pview fs4 m = with_file (recorded f') (pview fs) m"
      using ids [of m] by (cases "map_of (fs_files fs) m") (auto simp: pview_def with_file_def look4 ins(3) er(4) mu)
  qed
  ultimately show ?thesis using ok4 mu ins(6) er(7) by (auto simp: s3_def set_obj_def)
qed

lemma replay_new_file:
  assumes ok: "names_ok fs" "fs_handles fs = (\<lambda>_. 0)" and new: "\<forall>a\<in>snd ` set (fs_files fs). file_id (fs_objs fs a) \<noteq> file_id f"
    and placed: "\<forall>e\<in>set (drop (unat k) (extents f)). GetIOZone be (ex_start e) s = Some (ex_zone e)"
    and links: "linkfiles f = [n]" "n \<noteq> []" "length n < 2 ^ 32" "map_of (fs_files fs) n = None"
    and f: "\<not> is_deleted f" "file_id f + 1 \<noteq> 0"
    and tag: "tag = (if replace then kFileReplace else kFileUpdate)"
  shows "\<exists>fs1 s1. apply_record be raid tag (file_EncodeTo f [] k) snap fs s = Some ((OK, snap), fs1, s1)
    \<and> names_ok fs1 \<and> same_zones s s1 \<and> fs_handles fs1 = (\<lambda>_. 0)
    \<and> pview fs1 = with_file (recorded (f\<lparr> extents := drop (unat k) (extents f) \<rparr>)) (pview fs)"
proof -
  define u where "u = decoded f k (new_ZoneFile 0)"
  define s1 where "s1 = claim_extents (drop (unat k) (extents f)) s"
  define a where "a = fs_next_obj fs"
  have dec: "file_DecodeFrom be (file_EncodeTo f [] k) (new_ZoneFile 0) s = (OK, u, s1)"
    using file_DecodeFrom_EncodeTo [OF placed, of "new_ZoneFile 0"] links by (simp add: u_def s1_def)
  have u: "file_id u = file_id f" "linkfiles u = [n]" "\<not> is_deleted u"
    "recorded u = recorded (f\<lparr> extents := drop (unat k) (extents f) \<rparr>)"
    using links(1) by (simp_all add: u_def decoded_def MetadataSynced_def new_ZoneFile_def recorded_def)
  define fs2 where "fs2 = (set_obj a u (bump_file_id (file_id f) fs))\<lparr> fs_next_obj := a + 1 \<rparr>"
  have fs2: "fs_files fs2 = fs_files fs" "fs_objs fs2 = (fs_objs fs)(a := u)" "fs_handles fs2 = (\<lambda>_. 0)" "fs_next_obj fs2 = a + 1"
    "next_file_id fs2 = next_file_id (bump_file_id (file_id f) fs)"
    by (simp_all add: fs2_def set_obj_def ok(2))
  have out: "map_of (fs_files fs) m \<noteq> Some a" for m using names_okD(1) [OF ok(1), of m a] by (auto simp: a_def)
  have look: "map_of (fs_files (insert_file n a fs2)) = (map_of (fs_files fs))(n \<mapsto> a)"
    using map_of_insert [OF names_ok_sorted [OF ok(1)], of n a] links(4) by (simp add: fs2)
  have ids: "map_of (fs_files fs) m = Some b \<Longrightarrow> file_id (fs_objs fs b) \<noteq> file_id f" for m b
    using new map_of_SomeD [of "fs_files fs" m b] by force
  have ok3: "names_ok (insert_file n a fs2)"
  proof (rule names_ok_bind [OF ok(1), where a = a])
    show "sorted_keys (fs_files (insert_file n a fs2))" using names_ok_sorted [OF ok(1)] by (simp add: fs2 sorted_insert)
    show "file_id (fs_objs fs b) \<noteq> file_id (fs_objs (insert_file n a fs2) a)" if "map_of (fs_files fs) m = Some b" for m b
      using ids [OF that] by (simp add: fs2 u)
  qed (use out links(4) bump_file_id_above [OF f(2), of fs] u look in \<open>auto simp: fs2 a_def fun_eq_iff\<close>)
  have "a \<in> snd ` set (fs_files (insert_file n a fs2))"
    using look map_of_SomeD [of "fs_files (insert_file n a fs2)" n a] by force
  then have dr: "drop_ref a (insert_file n a fs2) s1 = (insert_file n a fs2, s1)" by (simp add: drop_ref_def)
  have "find_id (file_id f) (bump_file_id (file_id f) fs) = None" using new by (auto simp: find_id_def find_None_iff)
  then have "DecodeFileUpdateFrom be (file_EncodeTo f [] k) replace fs s = Some (OK, insert_file n a fs2, s1)"
    using dec dr u by (simp add: DecodeFileUpdateFrom_def GetFilename_def new_obj_def Let_def fs2_def a_def)
  then have "apply_record be raid tag (file_EncodeTo f [] k) snap fs s = Some ((OK, snap), insert_file n a fs2, s1)"
    using tag by (auto simp: apply_record_def record_tags split: if_splits)
  moreover have "pview (insert_file n a fs2) = with_file (recorded u) (pview fs)"
  proof
    fix m
    have look1: "map_of (map_insert n a (fs_files fs)) = (map_of (fs_files fs))(n \<mapsto> a)" using look by (simp add: fs2)
    show "pview (insert_file n a fs2) m = with_file (recorded u) (pview fs) m"
      using ids [of m] out [of m] by (cases "map_of (fs_files fs) m") (auto simp: pview_def with_file_def look1 fs2 u links(1))
  qed
  moreover have "fs_handles (insert_file n a fs2) = (\<lambda>_. 0)" by (simp add: insert_file_def fs2)
  moreover have "same_zones s s1" by (simp add: s1_def)
  ultimately show ?thesis unfolding u(4) using ok3 by blast
qed

end
