(* ===== verification/Recovered.thy ===== *)
theory Recovered
  imports Replay
begin

text \<open>
  The metadata log as a whole: the entries the file system writes, the table they build up, and the
  theorems that \<open>RecoverFrom\<close> finds this table again, on every log that ends where its records end,
  and what it does when something that is not a record stands behind them.
\<close>

subsection \<open>Entries of the log\<close>

datatype 'x log_entry = Snapshot "'x aquafs" | Update bool zfile u32 | Deletion u64 bytes

fun entry_tag :: "'x log_entry \<Rightarrow> u32" where
  "entry_tag (Snapshot fs) = kCompleteFilesSnapshot"
| "entry_tag (Update replace f k) = (if replace then kFileReplace else kFileUpdate)"
| "entry_tag (Deletion i n) = kFileDeletion"

fun entry_data :: "'x log_entry \<Rightarrow> bytes" where
  "entry_data (Snapshot fs) = snapshot_files fs (fs_files fs)"
| "entry_data (Update replace f k) = file_EncodeTo f [] k"
| "entry_data (Deletion i n) = deletion_data i n"

definition entry_bytes :: "'x log_entry \<Rightarrow> bytes" where
  "entry_bytes e = EncodeFixed32 (entry_tag e) @ PutLengthPrefixedSlice [] (entry_data e)"

fun is_snapshot :: "'x log_entry \<Rightarrow> bool" where
  "is_snapshot (Snapshot fs) = True"
| "is_snapshot _ = False"

text \<open>The entries are what the file system writes.\<close>

lemma entry_bytes_written:
  "fs_EncodeSnapshotTo fs = entry_bytes (Snapshot fs)"
  "file_record replace f = entry_bytes (Update replace f (nr_synced_extents f))"
  "EncodeFileDeletionTo f n = entry_bytes (Deletion (file_id f) n)"
  by (simp_all add: entry_bytes_def EncodeSnapshotTo_eq EncodeFileDeletionTo_eq file_record_def EncodeUpdateTo_def
      PutFixed32_def PutLengthPrefixedSlice_append [of "EncodeFixed32 _"])

text \<open>What an entry does to the recorded table: a snapshot replaces it, a deletion takes a name away,
  an update adds extents to a file of the table or creates a file with one name.\<close>

inductive entry_step :: "'b backend \<Rightarrow> 'b zbd \<Rightarrow> (bytes \<Rightarrow> zfile option) \<Rightarrow> 'x log_entry \<Rightarrow> (bytes \<Rightarrow> zfile option) \<Rightarrow> bool"
  for be s where
  snapshot: "names_ok fs \<Longrightarrow> \<forall>e\<in>set (fs_files fs). storable be s (fs_objs fs (snd e))
    \<Longrightarrow> entry_step be s T (Snapshot fs) (pview fs)"
| deletion: "T n = Some f \<Longrightarrow> length n < 2 ^ 32 \<Longrightarrow> entry_step be s T (Deletion (file_id f) n) (without_name n T)"
| update: "T n = Some g \<Longrightarrow> file_id g = file_id f
    \<Longrightarrow> \<forall>e\<in>set (drop (unat k) (extents f)). GetIOZone be (ex_start e) s = Some (ex_zone e)
    \<Longrightarrow> \<forall>l\<in>set (linkfiles f). l \<noteq> [] \<and> length l < 2 ^ 32 \<Longrightarrow> distinct (linkfiles f) \<Longrightarrow> linkfiles f \<noteq> []
    \<Longrightarrow> \<forall>l\<in>set (linkfiles f). T l = None \<or> (\<exists>h. T l = Some h \<and> file_id h = file_id f)
    \<Longrightarrow> entry_step be s T (Update replace f k)
         (with_file (recorded (f\<lparr> extents := (if replace then [] else extents g) @ drop (unat k) (extents f) \<rparr>)) T)"
| create: "\<forall>n g. T n = Some g \<longrightarrow> file_id g \<noteq> file_id f
    \<Longrightarrow> \<forall>e\<in>set (drop (unat k) (extents f)). GetIOZone be (ex_start e) s = Some (ex_zone e)
    \<Longrightarrow> linkfiles f = [n] \<Longrightarrow> n \<noteq> [] \<Longrightarrow> length n < 2 ^ 32 \<Longrightarrow> T n = None \<Longrightarrow> \<not> is_deleted f \<Longrightarrow> file_id f + 1 \<noteq> 0
    \<Longrightarrow> entry_step be s T (Update replace f k) (with_file (recorded (f\<lparr> extents := drop (unat k) (extents f) \<rparr>)) T)"

inductive entries_steps :: "'b backend \<Rightarrow> 'b zbd \<Rightarrow> (bytes \<Rightarrow> zfile option) \<Rightarrow> 'x log_entry list \<Rightarrow> (bytes \<Rightarrow> zfile option) \<Rightarrow> bool"
  for be s where
  none: "entries_steps be s T [] T"
| step: "entry_step be s T e T1 \<Longrightarrow> entries_steps be s T1 es T' \<Longrightarrow> entries_steps be s T (e # es) T'"

inductive_cases entries_stepsE: "entries_steps be s T (e # es) T'"
inductive_simps entries_steps_Nil [simp]: "entries_steps be s T [] T'"

text \<open>Devices that place extents in the same zones.\<close>

definition zones_like :: "'b backend \<Rightarrow> 'b zbd \<Rightarrow> 'b zbd \<Rightarrow> bool" where
  "zones_like be s s' = (be_zone_sz be (zbd_be s') = be_zone_sz be (zbd_be s)
     \<and> map start (io_zones s') = map start (io_zones s))"

lemma zones_like_same: "zones_like be s s1 \<Longrightarrow> same_zones s1 s2 \<Longrightarrow> zones_like be s s2"
  by (simp add: zones_like_def same_zones_def)

lemma GetIOZone_like: "zones_like be s s' \<Longrightarrow> GetIOZone be off s' = GetIOZone be off s"
  by (rule GetIOZone_cong) (simp_all add: zones_like_def)

lemma storable_like: "zones_like be s s' \<Longrightarrow> storable be s' f = storable be s f"
  by (simp add: storable_def GetIOZone_like)

lemma entry_replayed:
  fixes fs :: "'x aquafs" and e :: "'y log_entry"
  assumes "entry_step be s0 T e T'" and fs: "pview fs = T" "names_ok fs" "fs_handles fs = (\<lambda>_. 0)"
    and zones: "zones_like be s0 s"
  shows "\<exists>fs1 s1. apply_record be raid (entry_tag e) (entry_data e) snap fs s = Some ((OK, is_snapshot e \<or> snap), fs1, s1)
    \<and> pview fs1 = T' \<and> names_ok fs1 \<and> fs_handles fs1 = (\<lambda>_. 0) \<and> zones_like be s0 s1 \<and> same_zones s s1"
  using assms(1)
proof cases
  case (snapshot live)
  then have "\<forall>e\<in>set (fs_files live). storable be s (fs_objs live (snd e))" using storable_like [OF zones] by simp
  from replay_snapshot [OF snapshot(3) this fs(3), of raid snap] show ?thesis
    using snapshot zones_like_same [OF zones] by auto
next
  case (deletion n f)
  then obtain a where a: "map_of (fs_files fs) n = Some a" "file_id f = file_id (fs_objs fs a)"
    using fs(1) by (auto simp: pview_def)
  from replay_deletion [OF fs(2) a(1) deletion(4), of be raid snap s] show ?thesis
    using deletion(1,2) a(2) fs zones_like_same [OF zones] by auto
next
  case (update n g f k replace)
  then obtain a where a: "map_of (fs_files fs) n = Some a" "g = recorded (fs_objs fs a)"
    using fs(1) by (auto simp: pview_def)
  have names: "\<forall>l\<in>set (linkfiles f). map_of (fs_files fs) l = None \<or> map_of (fs_files fs) l = Some a"
  proof
    fix l
    assume l: "l \<in> set (linkfiles f)"
    have "file_id (fs_objs fs b) = file_id (fs_objs fs a)" if "map_of (fs_files fs) l = Some b" for b
    proof -
      have "T l = Some (recorded (fs_objs fs b))" using that fs(1) by (auto simp: pview_def)
      then show ?thesis using update(4,9) a(2) l by auto
    qed
    then show "map_of (fs_files fs) l = None \<or> map_of (fs_files fs) l = Some a"
      using names_ok_ids [OF fs(2) _ a(1), of l] by (cases "map_of (fs_files fs) l") auto
  qed
  have "\<forall>e\<in>set (drop (unat k) (extents f)). GetIOZone be (ex_start e) s = Some (ex_zone e)"
    using update(5) GetIOZone_like [OF zones] by simp
  from replay_update [OF fs(2) a(1) _ this update(6-8) names refl, of raid replace snap] show ?thesis
    using update(1-4) a(2) fs zones_like_same [OF zones] by auto
next
  case (create f k n replace)
  have "\<forall>e\<in>set (drop (unat k) (extents f)). GetIOZone be (ex_start e) s = Some (ex_zone e)"
    using create(4) GetIOZone_like [OF zones] by simp
  moreover have "\<forall>a\<in>snd ` set (fs_files fs). file_id (fs_objs fs a) \<noteq> file_id f"
  proof
    fix a
    assume "a \<in> snd ` set (fs_files fs)"
    then obtain m where "(m, a) \<in> set (fs_files fs)" by auto
    then have "map_of (fs_files fs) m = Some a" by (rule sorted_keys_map_of [OF names_ok_sorted [OF fs(2)]])
    then have "T m = Some (recorded (fs_objs fs a))" using fs(1) by (auto simp: pview_def)
    then show "file_id (fs_objs fs a) \<noteq> file_id f" using create(3) by fastforce
  qed
  moreover have "map_of (fs_files fs) n = None" using create(8) fs(1) by (auto simp: pview_def)
  ultimately show ?thesis
    using replay_new_file [OF fs(2,3) _ _ create(5-7) _ create(9,10) refl, of k be s raid replace snap]
      create(1,2) fs zones_like_same [OF zones] by auto
qed

subsection \<open>Recovery\<close>

lemma ReadRecord_end: "read_pos ml = wp (meta_zones s ! ml_zone ml) \<Longrightarrow> ReadRecord be ml s = Some (OK, [], ml, s)"
  by (simp add: ReadRecord_def ml_Read_def Let_def)

lemma length_PutLengthPrefixedSlice_ge: "length v \<le> length (PutLengthPrefixedSlice [] v)"
  by (simp add: PutLengthPrefixedSlice_def)

text \<open>Recovery replays the entries of the log one after the other.\<close>

lemma recover_loop_prefix:
  fixes fs :: "'x aquafs" and es :: "'y log_entry list"
  assumes dev: "reading_device be cont I" "I (zbd_be s)" and zsz: "\<forall>b. I b \<longrightarrow> be_zone_sz be b = be_zone_sz be (zbd_be s0)"
    and steps: "entries_steps be s0 T es T'" and fs: "pview fs = T" "names_ok fs" "fs_handles fs = (\<lambda>_. 0)"
    and zones: "zones_like be s0 s"
    and z: "zone_ok zs (meta_zones s ! ml_zone ml)"
    and log: "log_at (cont (zbd_be s)) (meta_zones s ! ml_zone ml) (ml_bs ml) (pre @ map entry_bytes es)"
      "read_pos ml = start (meta_zones s ! ml_zone ml) + of_nat (length (log_image (ml_bs ml) pre))"
  shows "\<exists>fs1 s1. recover_loop be raid ml snap fs s = recover_loop be raid
        (ml\<lparr> read_pos := start (meta_zones s ! ml_zone ml) + of_nat (length (log_image (ml_bs ml) (pre @ map entry_bytes es))) \<rparr>)
        (list_ex is_snapshot es \<or> snap) fs1 s1
    \<and> pview fs1 = T' \<and> names_ok fs1 \<and> meta_zones s1 = meta_zones s \<and> I (zbd_be s1) \<and> cont (zbd_be s1) = cont (zbd_be s)"
  using steps dev(2) fs zones z log
proof (induction es arbitrary: T fs s ml pre snap)
  case Nil
  have same: "ml\<lparr> read_pos := start (meta_zones s ! ml_zone ml) + of_nat (length (log_image (ml_bs ml) pre)) \<rparr> = ml"
    using Nil.prems(9) by simp
  show ?case using Nil.prems(1-4) by (intro exI [of _ fs] exI [of _ s]) (simp add: same)
next
  case (Cons e es)
  let ?z = "meta_zones s ! ml_zone ml" and ?r = "entry_bytes e"
  obtain T1 where st: "entry_step be s0 T e T1" "entries_steps be s0 T1 es T'"
    using Cons.prems(1) by (rule entries_stepsE)
  have log: "log_at (cont (zbd_be s)) ?z (ml_bs ml) (pre @ ?r # map entry_bytes es)" using Cons.prems(8) by simp
  define ml1 where "ml1 = ml\<lparr> read_pos := start ?z + of_nat (length (log_image (ml_bs ml) (pre @ [?r]))) \<rparr>"
  obtain b where rd: "ReadRecord be ml s = Some (OK, ?r, ml1, s\<lparr> zbd_be := b \<rparr>)" "I b" "cont b = cont (zbd_be s)"
    using reading_device.ReadRecord_log [OF dev(1) Cons.prems(2,7) log Cons.prems(9)] by (auto simp: ml1_def)
  have "record_fits (ml_bs ml) ?r" using log by (simp add: log_at_def)
  then have "length (entry_data e) < 2 ^ 32"
    using length_PutLengthPrefixedSlice_ge [of "entry_data e"] by (simp add: record_fits_def entry_bytes_def)
  then have dec: "GetFixed32 ?r = Some (entry_tag e, PutLengthPrefixedSlice [] (entry_data e))"
      "GetLengthPrefixedSlice (PutLengthPrefixedSlice [] (entry_data e)) = (Some (entry_data e), [])"
    using GetLengthPrefixedSlice_Put [of "entry_data e" "[]"] by (simp_all add: entry_bytes_def codec_simps)
  have tag: "entry_tag e \<noteq> kEndRecord" by (cases e) (simp_all add: record_tags)
  have "zones_like be s0 (s\<lparr> zbd_be := b \<rparr>)" using Cons.prems(6) zsz rd(2) by (simp add: zones_like_def)
  from entry_replayed [OF st(1) Cons.prems(3-5) this, of raid snap]
  obtain fs1 s1 where ap: "apply_record be raid (entry_tag e) (entry_data e) snap fs (s\<lparr> zbd_be := b \<rparr>)
        = Some ((OK, is_snapshot e \<or> snap), fs1, s1)"
      "pview fs1 = T1" "names_ok fs1" "fs_handles fs1 = (\<lambda>_. 0)" "zones_like be s0 s1" "zbd_be s1 = b" "meta_zones s1 = meta_zones s"
    by (auto simp: same_zones_def)
  have "recover_loop be raid ml snap fs s = recover_loop be raid ml1 (is_snapshot e \<or> snap) fs1 s1"
    by (subst recover_loop.simps) (simp add: rd(1) dec tag ap(1))
  moreover note Cons.IH [OF st(2) _ ap(2-5), of ml1 "pre @ [?r]" "is_snapshot e \<or> snap"]
  ultimately show ?case
    using rd(2,3) ap(6,7) Cons.prems by (auto simp: ml1_def disj_ac)
qed

lemma entries_steps_snoc:
  "entries_steps be s T es T1 \<Longrightarrow> entry_step be s T1 e T' \<Longrightarrow> entries_steps be s T (es @ [e]) T'"
  by (induction rule: entries_steps.induct) (auto intro: entries_steps.intros)

lemma new_AquaFS_facts: "pview (new_AquaFS x now) = (\<lambda>_. None)" "names_ok (new_AquaFS x now)"
  "fs_handles (new_AquaFS x now) = (\<lambda>_. 0)"
  by (simp_all add: pview_def new_AquaFS_def names_ok_def sorted_keys_def fun_eq_iff)

lemma start_plus:
  assumes "unat (w :: u64) = unat st + n"
  shows "w = st + of_nat n"
proof (rule unsigned_word_eqI)
  have "unat st + n < 2 ^ 64" using assms unat_lt [of w] by simp
  then show "unat w = unat (st + of_nat n)" using assms by (simp add: unat_add_no_wrap unat_of_nat_small)
qed

lemma AddRecord_state:
  assumes dev: "data_device be cont I" "I (zbd_be s)" and i: "ml_zone ml < length (meta_zones s)"
    and z: "zone_ok zs (meta_zones s ! ml_zone ml)" and fit: "record_fits (ml_bs ml) r"
    and run: "AddRecord be ml r s = Some (st, s')"
  shows "I (zbd_be s')" "zone_ok zs (meta_zones s' ! ml_zone ml)" "io_zones s' = io_zones s"
    "start (meta_zones s' ! ml_zone ml) = start (meta_zones s ! ml_zone ml)"
    "length (meta_zones s') = length (meta_zones s)"
proof -
  let ?z = "meta_zones s ! ml_zone ml" and ?buf = "record_buffer (ml_bs ml) r"
  have len: "length ?buf < 2 ^ 32"
    using fit blocks_up_props(2) [of "unat (ml_bs ml)" "8 + length r"]
    by (simp add: length_record_buffer record_fits_def unat_gt_0)
  obtain z1 b1 n where a: "Append be ?buf ?z (zbd_be s) = Some (st, z1, b1, n)"
    and s': "s' = AddBytesWritten n (set_meta (ml_zone ml) z1 (s\<lparr> zbd_be := b1 \<rparr>))"
    using run(1) by (auto simp: AddRecord_def meta_Append_def split: option.splits)
  have "I b1" "zone_ok zs z1" "start z1 = start ?z"
    using data_device.Append_cases [OF dev(1) a dev(2) z len] dev(2) z zone_ok_advance [OF z]
    by (auto simp: data_device.appended_def [OF dev(1)] split: if_splits)
  then show "I (zbd_be s')" "zone_ok zs (meta_zones s' ! ml_zone ml)" "io_zones s' = io_zones s"
    "start (meta_zones s' ! ml_zone ml) = start (meta_zones s ! ml_zone ml)"
    "length (meta_zones s') = length (meta_zones s)"
    using i by (simp_all add: s' AddBytesWritten_def set_meta_def)
qed

text \<open>A log ends where the zone's write pointer is, or with an end record.\<close>

definition log_ended :: "zone \<Rightarrow> u64 \<Rightarrow> bytes list \<Rightarrow> bytes list \<Rightarrow> bool" where
  "log_ended z bs recs fin = (fin = [] \<and> unat (wp z) = unat (start z) + length (log_image bs recs)
     \<or> fin = [PutFixed32 [] kEndRecord])"

lemma log_at_prefix: "log_at c z bs (recs @ recs') \<Longrightarrow> log_at c z bs recs"
  by (auto simp: log_at_def bytes_at_add append_eq_append_conv)

lemma RecoverFrom_entries:
  assumes dev: "reading_device be cont I" "I (zbd_be s)" and zsz: "\<forall>b. I b \<longrightarrow> be_zone_sz be b = be_zone_sz be (zbd_be s0)"
    and steps: "entries_steps be s0 (\<lambda>_. None) es T" and zones: "zones_like be s0 s"
    and z: "zone_ok zs (meta_zones s ! ml_zone ml)"
    and log: "log_at (cont (zbd_be s)) (meta_zones s ! ml_zone ml) (ml_bs ml) (sb # map entry_bytes es @ fin)"
      "log_ended (meta_zones s ! ml_zone ml) (ml_bs ml) (sb # map entry_bytes es) fin"
      "read_pos ml = start (meta_zones s ! ml_zone ml) + of_nat (length (log_image (ml_bs ml) [sb]))"
  shows "\<exists>ml1 fs1 s1. RecoverFrom be raid ml (new_AquaFS x now) s
      = Some ((recovery_result (list_ex is_snapshot es), ml1), fs1, s1) \<and> pview fs1 = T \<and> names_ok fs1"
proof -
  let ?z = "meta_zones s ! ml_zone ml" and ?snap = "list_ex is_snapshot es" and ?recs = "[sb] @ map entry_bytes es"
  have lg: "log_at (cont (zbd_be s)) ?z (ml_bs ml) ?recs"
    using log(1) log_at_prefix [of _ _ _ "sb # map entry_bytes es" fin] by simp
  define ml1 where "ml1 = ml\<lparr> read_pos := start ?z + of_nat (length (log_image (ml_bs ml) ?recs)) \<rparr>"
  obtain fs1 s1 where rec: "RecoverFrom be raid ml (new_AquaFS x now) s = recover_loop be raid ml1 ?snap fs1 s1"
      "pview fs1 = T" "names_ok fs1" "meta_zones s1 = meta_zones s" "I (zbd_be s1)" "cont (zbd_be s1) = cont (zbd_be s)"
    using recover_loop_prefix [OF dev zsz steps new_AquaFS_facts zones z lg log(3), of raid False x now]
    by (auto simp: RecoverFrom_def ml1_def)
  have "\<exists>ml2 s2. recover_loop be raid ml1 ?snap fs1 s1 = Some ((recovery_result ?snap, ml2), fs1, s2)"
  proof (cases "fin = []")
    case True
    then have "wp ?z = start ?z + of_nat (length (log_image (ml_bs ml) ?recs))"
      using log(2) by (intro start_plus) (simp add: log_ended_def)
    then have "read_pos ml1 = wp (meta_zones s1 ! ml_zone ml1)" by (simp add: ml1_def rec(4))
    from ReadRecord_end [OF this] show ?thesis
      by (subst recover_loop.simps) (simp add: GetFixed32_def)
  next
    case False
    let ?e = "PutFixed32 [] kEndRecord"
    have "log_at (cont (zbd_be s1)) (meta_zones s1 ! ml_zone ml1) (ml_bs ml1) (?recs @ ?e # [])"
      using log False by (simp add: rec(4,6) ml1_def log_ended_def)
    from reading_device.ReadRecord_log [OF dev(1) rec(5) _ this, of zs] obtain ml2 b2
      where "ReadRecord be ml1 s1 = Some (OK, ?e, ml2, s1\<lparr> zbd_be := b2 \<rparr>)"
      using z by (auto simp: ml1_def rec(4))
    moreover have "GetFixed32 ?e = Some (kEndRecord, [])"
      by (simp add: PutFixed32_def codec_simps)
    ultimately show ?thesis by (subst recover_loop.simps) simp
  qed
  with rec show ?thesis by auto
qed

text \<open>
  C1: what the metadata log acknowledged is recovered.  The log of a mounted file system holds a
  superblock and entries \<open>es\<close>, among them a snapshot, that build up the recorded table \<open>T\<close>; one more
  entry \<open>e\<close>, which takes \<open>T\<close> to \<open>T'\<close>, is written with \<open>AddRecord\<close> and acknowledged.  Then
  \<open>RecoverFrom\<close> of a fresh file system on the resulting device, from behind the superblock, returns
  and succeeds, and its table is \<open>T'\<close>, with the invariant of the table.
\<close>

theorem acknowledged_entry_recovered:
  assumes dev: "reading_device be cont I" "I (zbd_be s)" and zsz: "\<forall>b. I b \<longrightarrow> be_zone_sz be b = zsz"
    and z: "ml_zone ml < length (meta_zones s)" "zone_ok zs (meta_zones s ! ml_zone ml)"
    and log: "log_at (cont (zbd_be s)) (meta_zones s ! ml_zone ml) (ml_bs ml) (sb # map entry_bytes es)"
      "unat (wp (meta_zones s ! ml_zone ml)) = unat (start (meta_zones s ! ml_zone ml))
        + length (log_image (ml_bs ml) (sb # map entry_bytes es))"
    and steps: "entries_steps be s (\<lambda>_. None) es T" "entry_step be s T e T'" "list_ex is_snapshot (es @ [e])"
    and run: "record_fits (ml_bs ml) (entry_bytes e)" "AddRecord be ml (entry_bytes e) s = Some (st, s')" "ok st"
    and start: "ml' = ml\<lparr> read_pos := start (meta_zones s ! ml_zone ml) + of_nat (length (log_image (ml_bs ml) [sb])) \<rparr>"
  shows "\<exists>ml1 fs1 s1. RecoverFrom be raid ml' (new_AquaFS x now) s' = Some ((OK, ml1), fs1, s1)
    \<and> pview fs1 = T' \<and> names_ok fs1"
proof -
  have dd: "data_device be cont I" using dev(1) by (simp add: reading_device_def)
  note st' = AddRecord_state [OF dd dev(2) z run(1,2)]
  note lg = data_device.AddRecord_log [OF dd dev(2) z log run]
  let ?z = "meta_zones s' ! ml_zone ml'"
  have zl: "zones_like be s s'" using st'(1,3) dev(2) zsz by (simp add: zones_like_def)
  have zs': "\<forall>b. I b \<longrightarrow> be_zone_sz be b = be_zone_sz be (zbd_be s)" using zsz dev(2) by simp
  have log': "log_at (cont (zbd_be s')) ?z (ml_bs ml') (sb # map entry_bytes (es @ [e]) @ [])"
    "log_ended ?z (ml_bs ml') (sb # map entry_bytes (es @ [e])) []"
    using lg by (simp_all add: start log_ended_def)
  have "\<exists>ml1 fs1 s1. RecoverFrom be raid ml' (new_AquaFS x now) s'
      = Some ((recovery_result (list_ex is_snapshot (es @ [e])), ml1), fs1, s1) \<and> pview fs1 = T' \<and> names_ok fs1"
    by (rule RecoverFrom_entries [OF dev(1) st'(1) zs' entries_steps_snoc [OF steps(1,2)] zl _ log'])
      (use st'(2,4) in \<open>simp_all add: start\<close>)
  then show ?thesis using steps(3) by (simp add: recovery_result_def)
qed

subsection \<open>Torn records\<close>

text \<open>What stands at an address is not a record: the checksum of the bytes that its header claims is
  not the one in the header.\<close>

definition torn_at :: "(nat \<Rightarrow> byte) \<Rightarrow> zone \<Rightarrow> nat \<Rightarrow> bool" where
  "torn_at c z a =
     (let sz = DecodeFixed32 (drop 4 (bytes_at c a 8)) in
      a + 8 < unat (wp z) \<and> unat sz \<le> 0x7ffff000 \<and> a + 8 + unat sz \<le> unat (start z) + unat (max_capacity z)
      \<and> Extend (Value (EncodeFixed32 sz)) (bytes_at c (a + 8) (unat sz)) \<noteq> Unmask (DecodeFixed32 (bytes_at c a 8)))"

lemma ReadRecord_torn:
  assumes dev: "reading_device be cont I" "I (zbd_be s)" and z: "zone_ok zs (meta_zones s ! ml_zone ml)"
    and torn: "torn_at (cont (zbd_be s)) (meta_zones s ! ml_zone ml) (unat (read_pos ml))"
  shows "\<exists>r ml' s'. ReadRecord be ml s = Some (not_a_record, r, ml', s')"
proof -
  let ?z = "meta_zones s ! ml_zone ml" and ?c = "cont (zbd_be s)"
  define a where "a = unat (read_pos ml)"
  define sz where "sz = DecodeFixed32 (drop 4 (bytes_at ?c a 8))"
  have t: "a + 8 < unat (wp ?z)" "unat sz \<le> 0x7ffff000" "a + 8 + unat sz \<le> unat (start ?z) + unat (max_capacity ?z)"
    "Extend (Value (EncodeFixed32 sz)) (bytes_at ?c (a + 8) (unat sz)) \<noteq> Unmask (DecodeFixed32 (bytes_at ?c a 8))"
    using torn by (simp_all add: torn_at_def Let_def sz_def a_def)
  have room: "unat (start ?z) + unat (max_capacity ?z) < 2 ^ 64" using z by (simp add: zone_ok_def)
  note range = reading_device.ml_Read_range [OF dev(1)]
  obtain b1 where h: "ml_Read be zMetaHeaderSize ml s = Some (OK, bytes_at ?c a 8,
      ml\<lparr> read_pos := read_pos ml + zMetaHeaderSize \<rparr>, s\<lparr> zbd_be := b1 \<rparr>)" "I b1" "cont b1 = ?c"
    using range [OF dev(2), of ml zMetaHeaderSize] t room by (auto simp: word_less_nat_alt zMetaHeaderSize_def a_def)
  let ?ml1 = "ml\<lparr> read_pos := read_pos ml + zMetaHeaderSize \<rparr>" and ?s1 = "s\<lparr> zbd_be := b1 \<rparr>"
  have rp1: "unat (read_pos ?ml1) = a + 8"
    using t(1) unat_lt [of "wp ?z"] by (simp add: zMetaHeaderSize_def unat_add_no_wrap a_def)
  obtain b2 where b: "ml_Read be (ucast sz) ?ml1 ?s1 = Some (OK, bytes_at ?c (a + 8) (unat sz),
      ?ml1\<lparr> read_pos := read_pos ?ml1 + ucast sz \<rparr>, s\<lparr> zbd_be := b2 \<rparr>)"
    using range [of ?s1 ?ml1 "ucast sz"] h rp1 t room by (auto simp: word_less_nat_alt)
  have "bytes_at ?c a 8 \<noteq> []" using length_bytes_at [of ?c a 8] by fastforce
  then show ?thesis
    using h(1) b t(4) by (auto simp: ReadRecord_def Let_def sz_def [symmetric])
qed

text \<open>
  C30: a torn record at the end of the newest log makes the file system unmountable.  The log holds a
  superblock and entries that build up the table \<open>T\<close>, and behind them something that is not a record.
  \<open>RecoverFrom\<close> replays all entries, so that its table is \<open>T\<close>, and then reports corruption; the loop of
  \<open>Mount\<close> over the logs stops there and tries no older log.
\<close>

theorem torn_record_stops_mount:
  assumes dev: "reading_device be cont I" "I (zbd_be s)" and zsz: "\<forall>b. I b \<longrightarrow> be_zone_sz be b = zsz"
    and z: "zone_ok zs (meta_zones s ! ml_zone ml)"
    and log: "log_at (cont (zbd_be s)) (meta_zones s ! ml_zone ml) (ml_bs ml) (sb # map entry_bytes es)"
    and steps: "entries_steps be s (\<lambda>_. None) es T"
    and torn: "torn_at (cont (zbd_be s)) (meta_zones s ! ml_zone ml)
      (unat (start (meta_zones s ! ml_zone ml)) + length (log_image (ml_bs ml) (sb # map entry_bytes es)))"
    and start: "read_pos ml = start (meta_zones s ! ml_zone ml) + of_nat (length (log_image (ml_bs ml) [sb]))"
    and logs: "snd (logs ! i) = ml"
  shows "\<exists>st ml1 fs1 s1. RecoverFrom be raid ml (new_AquaFS x now) s = Some ((st, ml1), fs1, s1)
    \<and> pview fs1 = T \<and> IsCorruption st
    \<and> recover_any be raid logs (i # is) (new_AquaFS x now) s
        = Some ((st, None), fs1, drop_logs (map (\<lambda>j. snd (logs ! j)) (i # is)) s1)"
proof -
  have zs': "\<forall>b. I b \<longrightarrow> be_zone_sz be b = be_zone_sz be (zbd_be s)" using zsz dev(2) by simp
  have zl: "zones_like be s s" by (simp add: zones_like_def)
  have log': "log_at (cont (zbd_be s)) (meta_zones s ! ml_zone ml) (ml_bs ml) ([sb] @ map entry_bytes es)" using log by simp
  define ml0 where "ml0 = ml\<lparr> read_pos := start (meta_zones s ! ml_zone ml)
    + of_nat (length (log_image (ml_bs ml) ([sb] @ map entry_bytes es))) \<rparr>"
  obtain fs1 s1 where rec: "RecoverFrom be raid ml (new_AquaFS x now) s = recover_loop be raid ml0 (list_ex is_snapshot es) fs1 s1"
      "pview fs1 = T" "meta_zones s1 = meta_zones s" "I (zbd_be s1)" "cont (zbd_be s1) = cont (zbd_be s)"
    using recover_loop_prefix [OF dev zs' steps new_AquaFS_facts zl z log' start, of raid False x now]
    by (auto simp: RecoverFrom_def ml0_def)
  have "unat (start (meta_zones s ! ml_zone ml)) + length (log_image (ml_bs ml) (sb # map entry_bytes es)) < 2 ^ 64"
    using torn unat_lt [of "wp (meta_zones s ! ml_zone ml)"] by (simp add: torn_at_def Let_def)
  then have "unat (read_pos ml0) = unat (start (meta_zones s ! ml_zone ml)) + length (log_image (ml_bs ml) (sb # map entry_bytes es))"
    by (simp add: ml0_def unat_add_no_wrap unat_of_nat_small)
  then obtain r ml2 s2 where "ReadRecord be ml0 s1 = Some (not_a_record, r, ml2, s2)"
    using ReadRecord_torn [OF dev(1) rec(4), of zs ml0] z torn rec(3,5) by (auto simp: ml0_def)
  then have "recover_loop be raid ml0 (list_ex is_snapshot es) fs1 s1
      = Some ((Corruption (str ''AquaFS'') (str ''Metadata corruption''), ml2), fs1, s2)"
    by (subst recover_loop.simps) (simp add: not_a_record_def ok_def IOError_def)
  then show ?thesis
    using rec(1,2) logs by (auto simp: IsCorruption_def Corruption_def ok_def IsNotFound_def)
qed

subsection \<open>A concrete recovery\<close>

interpretation sim_sized: reading_device "zbdlib_backend sim_libzbd" "\<lambda>b. sd_mem (zl_dev b)"
  "\<lambda>b. 0 \<le> zl_read_f b \<and> 0 \<le> zl_read_direct_f b \<and> zl_zone_sz b = 512"
  by unfold_locales
    (use sim.write_result sim.write_frame sim.write_stored sim.read_cont sim.read_result sim.read_data in
      \<open>auto simp: sim_ops sim_pread_def zbdlib_Write_def to_int32_id\<close>)

text \<open>A volume whose metadata zone holds one record in place of a superblock.\<close>

definition demo_sb :: bytes where
  "demo_sb = record_buffer 4 [9]"

definition demo_logged :: "simdev zbdlib zbd" where
  "demo_logged = (new_ZonedBlockDevice (demo_dev\<lparr> zl_zone_sz := 512, zl_nr_zones := 1,
       zl_dev := \<lparr> sd_zones = [(sim_zone 512 512 0)\<lparr> z_wp := 12, z_cond := COND_IMP_OPEN \<rparr>],
         sd_mem = store_bytes 0 demo_sb (\<lambda>_. 0), sd_block = 4, sd_zone_size = 512 \<rparr> \<rparr>))
     \<lparr> meta_zones := [\<lparr> busy = True, start = 0, capacity = 500, max_capacity = 512,
     wp = 12, lifetime = 0, used_capacity = 0 \<rparr>] \<rparr>"

lemma length_demo_sb: "length demo_sb = 12"
  by (simp add: demo_sb_def length_record_buffer record_fits_def blocks_up_def)

lemma demo_logged_facts:
  "meta_zones demo_logged = [\<lparr> busy = True, start = 0, capacity = 500, max_capacity = 512,
     wp = 12, lifetime = 0, used_capacity = 0 \<rparr>]"
  "sd_mem (zl_dev (zbd_be demo_logged)) = store_bytes 0 demo_sb (\<lambda>_. 0)"
  "0 \<le> zl_read_f (zbd_be demo_logged) \<and> 0 \<le> zl_read_direct_f (zbd_be demo_logged) \<and> zl_zone_sz (zbd_be demo_logged) = 512"
  by (simp_all add: demo_logged_def new_ZonedBlockDevice_def demo_dev_def)

lemma demo_logged_log: "log_at (sd_mem (zl_dev (zbd_be demo_logged))) (meta_zones demo_logged ! 0) 4 [[9]]"
  using length_demo_sb
  by (auto simp: log_at_def demo_logged_facts bytes_at_def store_bytes_def demo_sb_def record_fits_def
      intro!: nth_equalityI)

lemma demo_logged_add:
  assumes "length r \<le> 480" "ml_zone ml = 0" "ml_bs ml = 4"
  shows "\<exists>s. AddRecord demo_be ml r demo_logged = Some (OK, s)"
proof -
  let ?z = "meta_zones demo_logged ! 0" and ?buf = "record_buffer 4 r"
  have fit: "record_fits 4 r" using assms by (simp add: record_fits_def)
  have le: "length ?buf \<le> 500" "?buf \<noteq> []"
    using assms length_record_buffer [OF fit] blocks_up_props(1,2) [of 4 "8 + length r"] by auto
  have "\<exists>b. be_Write demo_be ?buf (wp ?z) (zbd_be demo_logged) = (int (length ?buf), b)"
    using le by (simp add: demo_logged_facts(1) zbdlib_backend_def zbdlib_Write_def sim_libzbd_def sim_pwrite_def
        sim_can_write_def demo_logged_def new_ZonedBlockDevice_def demo_dev_def sim_idx_def sim_zone_def Let_def to_int32_id)
  then obtain b where "be_Write demo_be ?buf (wp ?z) (zbd_be demo_logged) = (int (length ?buf), b)" by blast
  from Append_one_write [OF this] le show ?thesis
    by (auto simp: AddRecord_def meta_Append_def assms demo_logged_facts(1))
qed

lemma demo_storable: "length (file_EncodeSnapshotTo (fs_objs (demo_fs 0) 0) []) \<le> 480"
  by code_simp

theorem acknowledged_entry_recovered_witness:
  "\<exists>ml s st s' ml1 fs1 s1. AddRecord demo_be ml (fs_EncodeSnapshotTo (demo_fs 0)) s = Some (st, s')
    \<and> RecoverFrom demo_be (\<lambda>_ _ b. (OK, b)) (ml\<lparr> read_pos := 12 \<rparr>) (new_AquaFS () 7) s' = Some ((OK, ml1), fs1, s1)
    \<and> pview fs1 (str ''/a'') \<noteq> None \<and> pview fs1 (str ''/b'') = None"
proof -
  define ml where "ml = new_AquaMetaLog demo_be 0 demo_logged"
  have ml: "ml_zone ml = 0" "ml_bs ml = 4"
    by (simp_all add: ml_def new_AquaMetaLog_def GetBlockSize_def demo_logged_def zbdlib_backend_def demo_dev_def
        new_ZonedBlockDevice_def)
  let ?e = "Snapshot (demo_fs 0) :: unit log_entry"
  have len: "length (fs_EncodeSnapshotTo (demo_fs 0)) \<le> 480" by code_simp
  obtain s' where run: "AddRecord demo_be ml (entry_bytes ?e) demo_logged = Some (OK, s')"
    using demo_logged_add [OF len ml] by (auto simp: entry_bytes_written)
  have "storable demo_be demo_logged (fs_objs (demo_fs 0) 0)"
    using demo_storable by (simp add: storable_def demo_fs_def AddLinkName_def new_ZoneFile_def)
  then have st: "entry_step demo_be demo_logged (\<lambda>_. None) ?e (pview (demo_fs 0))"
    using demo_fs_facts [of 0] by (intro entry_step.snapshot) simp_all
  have fit: "record_fits 4 (entry_bytes ?e)" using len by (simp add: record_fits_def entry_bytes_written)
  have "zone_ok 512 (meta_zones demo_logged ! 0)" by (simp add: demo_logged_facts zone_ok_def)
  with acknowledged_entry_recovered [OF sim_sized.reading_device_axioms demo_logged_facts(3), of 512 ml 512 "[9]"
      "[]" "\<lambda>_. None" ?e "pview (demo_fs 0)" OK s' _ "\<lambda>_ _ b. (OK, b)" "()" 7] ml st fit run demo_logged_log
  obtain ml1 fs1 s1 where "RecoverFrom demo_be (\<lambda>_ _ b. (OK, b)) (ml\<lparr> read_pos := 12 \<rparr>) (new_AquaFS () 7) s' = Some ((OK, ml1), fs1, s1)"
      "pview fs1 = pview (demo_fs 0)"
    using length_demo_sb by (auto simp: demo_logged_facts(1) demo_sb_def zbdlib_backend_def)
  then show ?thesis using run demo_fs_facts(1) [of 0] by (fastforce simp: entry_bytes_written pview_def)
qed


text \<open>A volume whose metadata zone holds that record, a snapshot, and twelve zero bytes.\<close>

definition demo_torn :: "simdev zbdlib zbd" where
  "demo_torn = demo_logged\<lparr>
     zbd_be := (zbd_be demo_logged)\<lparr> zl_dev := (zl_dev (zbd_be demo_logged))
       \<lparr> sd_mem := store_bytes 0 (log_image 4 [[9], fs_EncodeSnapshotTo (demo_fs 0)]) (\<lambda>_. 0) \<rparr> \<rparr>,
     meta_zones := [\<lparr> busy = True, start = 0, capacity = 408, max_capacity = 512,
       wp = 104, lifetime = 0, used_capacity = 0 \<rparr>] \<rparr>"

lemma demo_snapshot_length: "length (fs_EncodeSnapshotTo (demo_fs 0)) = 69"
  by code_simp

lemma demo_torn_facts:
  "meta_zones demo_torn ! 0 = \<lparr> busy = True, start = 0, capacity = 408, max_capacity = 512, wp = 104, lifetime = 0, used_capacity = 0 \<rparr>"
  "sd_mem (zl_dev (zbd_be demo_torn)) = store_bytes 0 (log_image 4 [[9], fs_EncodeSnapshotTo (demo_fs 0)]) (\<lambda>_. 0)"
  "0 \<le> zl_read_f (zbd_be demo_torn) \<and> 0 \<le> zl_read_direct_f (zbd_be demo_torn) \<and> zl_zone_sz (zbd_be demo_torn) = 512"
  using demo_logged_facts(3) by (simp_all add: demo_torn_def)

lemma demo_torn_image: "length (log_image 4 [[9], fs_EncodeSnapshotTo (demo_fs 0)]) = 92"
  "record_fits 4 (fs_EncodeSnapshotTo (demo_fs 0))" "length (log_image 4 [[9]]) = 12"
  using demo_snapshot_length by (simp_all add: length_record_buffer record_fits_def blocks_up_def)

lemma demo_torn_log: "log_at (sd_mem (zl_dev (zbd_be demo_torn))) (meta_zones demo_torn ! 0) 4 [[9], fs_EncodeSnapshotTo (demo_fs 0)]"
proof -
  let ?im = "log_image 4 [[9], fs_EncodeSnapshotTo (demo_fs 0)]"
  have "bytes_at (store_bytes 0 ?im (\<lambda>_. 0)) 0 (length ?im) = ?im"
    by (rule nth_equalityI) (simp_all add: bytes_at_def store_bytes_def)
  then show ?thesis
    using demo_torn_image unfolding log_at_def demo_torn_facts by (simp add: record_fits_def)
qed

lemma zero_record_torn: "Extend (Value (EncodeFixed32 0)) [] \<noteq> Unmask 0"
  by code_simp

lemma demo_torn_torn: "torn_at (sd_mem (zl_dev (zbd_be demo_torn))) (meta_zones demo_torn ! 0) 92"
proof -
  have z: "bytes_at (sd_mem (zl_dev (zbd_be demo_torn))) 92 8 = replicate 8 0"
  proof (rule nth_equalityI)
    fix i
    have "sd_mem (zl_dev (zbd_be demo_torn)) (92 + i) = 0"
      unfolding demo_torn_facts(2) store_bytes_def demo_torn_image(1) by simp
    then show "i < length (bytes_at (sd_mem (zl_dev (zbd_be demo_torn))) 92 8)
        \<Longrightarrow> bytes_at (sd_mem (zl_dev (zbd_be demo_torn))) 92 8 ! i = replicate 8 0 ! i"
      by (simp add: bytes_at_def)
  qed simp
  have "DecodeFixed32 (replicate 8 0) = 0" "DecodeFixed32 (drop 4 (replicate 8 0)) = 0" by code_simp+
  moreover have "bytes_at c a 0 = []" for c a by (simp add: bytes_at_def)
  ultimately show ?thesis
    using zero_record_torn unfolding torn_at_def z Let_def by (simp add: demo_torn_facts(1))
qed

theorem torn_record_stops_mount_witness:
  "\<exists>ml st ml1 fs1 s1. RecoverFrom demo_be (\<lambda>_ _ b. (OK, b)) ml (new_AquaFS () 7) demo_torn = Some ((st, ml1), fs1, s1)
    \<and> IsCorruption st \<and> pview fs1 (str ''/a'') \<noteq> None"
proof -
  define ml where "ml = \<lparr> read_pos = 12, ml_zone = 0, ml_bs = 4 \<rparr>"
  let ?e = "Snapshot (demo_fs 0) :: unit log_entry"
  have "storable demo_be demo_torn (fs_objs (demo_fs 0) 0)"
    using demo_storable by (simp add: storable_def demo_fs_def AddLinkName_def new_ZoneFile_def)
  then have "entry_step demo_be demo_torn (\<lambda>_. None) ?e (pview (demo_fs 0))"
    using demo_fs_facts [of 0] by (intro entry_step.snapshot) simp_all
  then have st: "entries_steps demo_be demo_torn (\<lambda>_. None) [?e] (pview (demo_fs 0))"
    by (auto intro: entries_steps.intros)
  have zok: "zone_ok 512 (meta_zones demo_torn ! 0)" by (simp add: demo_torn_facts(1) zone_ok_def)
  have "\<exists>st ml1 fs1 s1. RecoverFrom demo_be (\<lambda>_ _ b. (OK, b)) ml (new_AquaFS () 7) demo_torn = Some ((st, ml1), fs1, s1)
      \<and> pview fs1 = pview (demo_fs 0) \<and> IsCorruption st"
    using torn_record_stops_mount [OF sim_sized.reading_device_axioms demo_torn_facts(3), of 512 512 ml "[9]" "[?e]"
      "pview (demo_fs 0)" "[(default_Superblock, ml)]" 0 "\<lambda>_ _ b. (OK, b)" "()" 7 "[]"]
      st zok demo_torn_log demo_torn_torn demo_torn_image
    by (auto simp: ml_def demo_torn_facts(1) entry_bytes_written zbdlib_backend_def)
  then show ?thesis using demo_fs_facts(1) [of 0] by (fastforce simp: pview_def)
qed

end
