(* ===== verification/FsWriter.thy ===== *)
theory FsWriter
  imports NameTable FileAppend
begin

text \<open>
  The metadata writer of the file system, \<open>AquaFSMetadataWriter::Persist\<close>, meets the contract
  \<open>metadata_writer\<close> that the append paths of \<open>ZoneFile\<close> rely on: whatever it does to the metadata
  zones, the log rolling over to a new zone included, the data zones, their contents and the
  extents of the file stay as they are.
\<close>

lemma disjoint_zones_Cons:
  "disjoint_zones zs (x # xs) = ((\<forall>y\<in>set xs. unat x + zs \<le> unat y \<or> unat y + zs \<le> unat x) \<and> disjoint_zones zs xs)"
  by (simp add: disjoint_zones_def All_less_Suc2 all_set_conv_all_nth) blast

lemma disjoint_zones_Nil: "disjoint_zones zs []"
  by (simp add: disjoint_zones_def)

lemma disjoint_zones_tail: "disjoint_zones zs (xs @ ys) \<Longrightarrow> disjoint_zones zs ys"
  unfolding disjoint_zones_def
proof (intro allI impI)
  fix i j
  assume d: "\<forall>i<length (xs @ ys). \<forall>j<length (xs @ ys). i \<noteq> j \<longrightarrow> unat ((xs @ ys) ! i) + zs \<le> unat ((xs @ ys) ! j)
      \<or> unat ((xs @ ys) ! j) + zs \<le> unat ((xs @ ys) ! i)" and "i < length ys" "j < length ys" "i \<noteq> j"
  then show "unat (ys ! i) + zs \<le> unat (ys ! j) \<or> unat (ys ! j) + zs \<le> unat (ys ! i)"
    using d [rule_format, of "length xs + i" "length xs + j"] by simp
qed

lemma fs_meta_log_sync_all [simp]: "fs_meta_log (sync_all fs) = fs_meta_log fs"
proof -
  have "fs_meta_log (fold (\<lambda>e fs. set_obj (snd e) (MetadataSynced (fs_objs fs (snd e))) fs) es fs) = fs_meta_log fs"
    for es
    by (induction es arbitrary: fs) (simp_all add: set_obj_def)
  then show ?thesis by (simp add: sync_all_def)
qed

subsection \<open>Steps that touch only metadata zones\<close>

context zoned_device
begin

text \<open>The metadata zones are well formed and overlap neither each other nor a data zone.\<close>

definition meta_ok :: "'a zbd \<Rightarrow> bool" where
  "meta_ok s = ((\<forall>z\<in>set (meta_zones s). zone_ok (be_zone_sz be (zbd_be s)) z
       \<and> unat (be_zone_sz be (zbd_be s)) dvd unat (start z))
     \<and> disjoint_zones (unat (be_zone_sz be (zbd_be s))) (map start (meta_zones s @ io_zones s)))"

definition meta_only :: "'a zbd \<Rightarrow> 'a zbd \<Rightarrow> bool" where
  "meta_only s s' = (zbd_ok s' \<and> meta_ok s' \<and> io_zones s' = io_zones s
     \<and> length (meta_zones s') = length (meta_zones s) \<and> map start (meta_zones s') = map start (meta_zones s)
     \<and> be_zone_sz be (zbd_be s') = be_zone_sz be (zbd_be s)
     \<and> be_block_sz be (zbd_be s') = be_block_sz be (zbd_be s)
     \<and> (\<forall>i < length (io_zones s). \<forall>a. unat (start (io_zones s ! i)) \<le> a
         \<longrightarrow> a < unat (start (io_zones s ! i)) + unat (be_zone_sz be (zbd_be s))
         \<longrightarrow> cont (zbd_be s') a = cont (zbd_be s) a))"

lemma meta_only_refl: "zbd_ok s \<Longrightarrow> meta_ok s \<Longrightarrow> meta_only s s"
  by (simp add: meta_only_def)

lemma meta_only_trans: "meta_only s s1 \<Longrightarrow> meta_only s1 s2 \<Longrightarrow> meta_only s s2"
  by (auto simp: meta_only_def)

lemma meta_only_bytes [simp]: "meta_only s (AddBytesWritten n s') = meta_only s s'"
  by (simp add: meta_only_def AddBytesWritten_def zbd_ok_def meta_ok_def)

text \<open>A metadata zone and its contents are as they were.\<close>

definition zone_kept :: "nat \<Rightarrow> 'a zbd \<Rightarrow> 'a zbd \<Rightarrow> bool" where
  "zone_kept k s s' = (meta_zones s' ! k = meta_zones s ! k
     \<and> be_zone_sz be (zbd_be s') = be_zone_sz be (zbd_be s)
     \<and> (\<forall>a. unat (start (meta_zones s ! k)) \<le> a
         \<longrightarrow> a < unat (start (meta_zones s ! k)) + unat (be_zone_sz be (zbd_be s))
         \<longrightarrow> cont (zbd_be s') a = cont (zbd_be s) a))"

lemma zone_kept_refl: "zone_kept k s s"
  by (simp add: zone_kept_def)

lemma zone_kept_trans: "zone_kept k s s1 \<Longrightarrow> zone_kept k s1 s2 \<Longrightarrow> zone_kept k s s2"
  by (simp add: zone_kept_def)

text \<open>A step that touches one metadata zone and no other zone.\<close>

definition meta_step :: "nat \<Rightarrow> 'a zbd \<Rightarrow> 'a zbd \<Rightarrow> bool" where
  "meta_step i s s' = (meta_only s s' \<and> (\<forall>k < length (meta_zones s). k \<noteq> i \<longrightarrow> zone_kept k s s'))"

lemma meta_step_only: "meta_step i s s' \<Longrightarrow> meta_only s s'"
  by (simp add: meta_step_def)

lemma meta_step_kept: "meta_step i s s' \<Longrightarrow> k < length (meta_zones s) \<Longrightarrow> k \<noteq> i \<Longrightarrow> zone_kept k s s'"
  by (simp add: meta_step_def)

lemma meta_step_refl: "zbd_ok s \<Longrightarrow> meta_ok s \<Longrightarrow> meta_step i s s"
  by (simp add: meta_step_def meta_only_refl zone_kept_refl)

lemma meta_step_trans: "meta_step i s s1 \<Longrightarrow> meta_step i s1 s2 \<Longrightarrow> meta_step i s s2"
  using meta_only_trans [of s s1 s2] zone_kept_trans [of _ s s1 s2] by (auto simp: meta_step_def meta_only_def)

lemma meta_step_bytes [simp]: "meta_step i s (AddBytesWritten n s') = meta_step i s s'"
  by (simp add: meta_step_def zone_kept_def) (simp add: AddBytesWritten_def)

lemma meta_update:
  assumes okz: "zbd_ok s" and okm: "meta_ok s" and i: "i < length (meta_zones s)"
    and z: "start z = start (meta_zones s ! i)" "zone_ok (be_zone_sz be (zbd_be s)) z"
    and b: "inv b" "be_zone_sz be b = be_zone_sz be (zbd_be s)" "be_block_sz be b = be_block_sz be (zbd_be s)"
    and frame: "\<And>a. a < unat (start z) \<or> unat (start z) + unat (be_zone_sz be (zbd_be s)) \<le> a
      \<Longrightarrow> cont b a = cont (zbd_be s) a"
  shows "meta_step i s (set_meta i z (s\<lparr> zbd_be := b \<rparr>))"
proof -
  let ?zs = "unat (be_zone_sz be (zbd_be s))" and ?all = "meta_zones s @ io_zones s"
  have starts: "map start ((meta_zones s)[i := z]) = map start (meta_zones s)"
    using i z(1) by (rule map_update_same)
  have d: "disjoint_zones ?zs (map start (meta_zones s @ io_zones s))" using okm by (simp add: meta_ok_def)
  have mi: "unat (be_zone_sz be (zbd_be s)) dvd unat (start (meta_zones s ! i))"
    using okm i by (simp add: meta_ok_def)
  have outside: "cont b a = cont (zbd_be s) a"
    if j: "j < length ?all" "j \<noteq> i" and a: "unat (start (?all ! j)) \<le> a" "a < unat (start (?all ! j)) + ?zs" for j a
  proof (rule frame)
    have "unat (start (?all ! i)) + ?zs \<le> unat (start (?all ! j)) \<or> unat (start (?all ! j)) + ?zs \<le> unat (start (?all ! i))"
      using d [unfolded disjoint_zones_def, rule_format, of i j] i j by (simp del: map_append)
    moreover have "start (?all ! i) = start z" using i z(1) by (simp add: nth_append)
    ultimately show "a < unat (start z) \<or> unat (start z) + ?zs \<le> a" using a by auto
  qed
  have "cont b a = cont (zbd_be s) a" if "j < length (io_zones s)" "unat (start (io_zones s ! j)) \<le> a"
    "a < unat (start (io_zones s ! j)) + ?zs" for j a
    using outside [of "length (meta_zones s) + j" a] that i by (simp add: nth_append)
  moreover have "zone_kept k s (set_meta i z (s\<lparr> zbd_be := b \<rparr>))" if "k < length (meta_zones s)" "k \<noteq> i" for k
    using outside [of k] that b(2) by (simp add: zone_kept_def set_meta_def nth_append)
  moreover have "\<forall>z'\<in>set ((meta_zones s)[i := z]). zone_ok (be_zone_sz be (zbd_be s)) z' \<and> ?zs dvd unat (start z')"
    using okm z mi by (auto simp: meta_ok_def dest!: set_update_subset_insert [THEN subsetD])
  ultimately show ?thesis
    using okz b d starts by (simp add: meta_step_def meta_only_def set_meta_def zbd_ok_def meta_ok_def)
qed

lemma meta_busy:
  assumes "zbd_ok s" "meta_ok s" "i < length (meta_zones s)"
  shows "meta_step i s (set_meta i ((meta_zones s ! i)\<lparr> busy := x \<rparr>) s)"
proof -
  have "zone_ok (be_zone_sz be (zbd_be s)) (meta_zones s ! i)" using assms by (simp add: meta_ok_def)
  then show ?thesis using meta_update [OF assms, of "(meta_zones s ! i)\<lparr> busy := x \<rparr>" "zbd_be s"] assms(1)
    by (simp add: zbd_ok_def)
qed

text \<open>The operations on one zone stay inside it.\<close>

lemma append_loop_in_zone:
  assumes "append_loop be ptr left z b n = Some r" "inv b" "zone_ok zs z" "unat left \<le> unat (capacity z)"
    "unat left \<le> length ptr"
  shows "case r of (st, z', b', n') \<Rightarrow> zone_ok zs z' \<and> start z' = start z \<and> inv b'
    \<and> (\<forall>a. a < unat (start z) \<or> unat (start z) + unat zs \<le> a \<longrightarrow> cont b' a = cont b a)"
proof -
  let ?Q = "\<lambda>z b r. case r of (st, z', b', n') \<Rightarrow> zone_ok zs z' \<and> start z' = start z \<and> inv b'
    \<and> (\<forall>a. a < unat (start z) \<or> unat (start z) + unat zs \<le> a \<longrightarrow> cont b' a = cont b a)"
  let ?P = "\<lambda>be' ptr left z b n r. be' = be \<longrightarrow> inv b \<longrightarrow> zone_ok zs z \<longrightarrow> unat left \<le> unat (capacity z)
    \<longrightarrow> unat left \<le> length ptr \<longrightarrow> ?Q z b r"
  have "?P be ptr left z b n r"
  proof (rule append_loop.raw_induct [where P = ?P, OF _ assms(1)], intro impI, goal_cases)
    case (1 loop be' ptr left z b n r)
    then have be: "be' = be" and b: "inv b" and z: "zone_ok zs z" and room: "unat left \<le> unat (capacity z)"
      and len: "unat left \<le> length ptr" by simp_all
    obtain ret b' where w: "be_Write be (take (unat left) ptr) (wp z) b = (ret, b')" by fastforce
    have b': "inv b'" using write_inv [OF b, of "take (unat left) ptr" "wp z"] w by simp
    show "?Q z b r"
    proof (cases "left = 0")
      case True
      then show ?thesis using 1(2) z b by auto
    next
      case False
      then have "capacity z \<noteq> 0" using room by (auto simp: unat_eq_0)
      then have wp: "unat (wp z) + unat (capacity z) \<le> unat (start z) + unat zs" "unat (start z) \<le> unat (wp z)"
        "unat (wp z) + unat left < 2 ^ 64"
        using z room by (auto simp: zone_ok_def)
      have frame: "cont b' a = cont b a" if "a < unat (start z) \<or> unat (start z) + unat zs \<le> a" for a
        using write_frame [OF b, of "wp z" "take (unat left) ptr" a] w that wp room len by (auto simp: min.absorb2)
      have le: "nat ret \<le> unat left"
        using write_result [OF b, of "take (unat left) ptr" "wp z"] w len by (simp add: min.absorb2 nat_le_iff del: of_nat_unat)
      show ?thesis
      proof (cases "ret < 0")
        case True
        then show ?thesis using 1(2) False w be b' z frame by auto
      next
        case pos: False
        have "loop be (drop (nat ret) ptr) (left - word_of_int ret) (advance (nat ret) z) b'
            (n + word_of_int ret) = Some r"
          using 1(2) False w be pos by (simp add: advance_word not_less)
        from 1(1) [OF this] have "?Q (advance (nat ret) z) b' r"
          using b' zone_ok_advance [OF z, of "nat ret"] le room len
            unat_left_minus [of ret left] pos unat_advance [of "nat ret" z] zone_ok_room [OF z] by (simp add: diff_le_mono)
        then show ?thesis using frame by auto
      qed
    qed
  qed
  then show ?thesis using assms by simp
qed

lemma meta_Append_step:
  assumes okz: "zbd_ok s" and okm: "meta_ok s" and i: "i < length (meta_zones s)"
    and ap: "meta_Append be i data s = Some (st, s')"
  shows "meta_step i s s'"
proof -
  let ?z = "meta_zones s ! i"
  have z: "zone_ok (be_zone_sz be (zbd_be s)) ?z" and b: "inv (zbd_be s)"
    using okz okm i by (simp_all add: meta_ok_def zbd_ok_def)
  obtain z' b' n where a: "Append be data ?z (zbd_be s) = Some (st, z', b', n)"
    and s': "s' = AddBytesWritten n (set_meta i z' (s\<lparr> zbd_be := b' \<rparr>))"
    using ap by (auto simp: meta_Append_def split: option.splits)
  have "zone_ok (be_zone_sz be (zbd_be s)) z' \<and> start z' = start ?z \<and> inv b'
    \<and> be_zone_sz be b' = be_zone_sz be (zbd_be s) \<and> be_block_sz be b' = be_block_sz be (zbd_be s)
    \<and> (\<forall>a. a < unat (start ?z) \<or> unat (start ?z) + unat (be_zone_sz be (zbd_be s)) \<le> a
        \<longrightarrow> cont b' a = cont (zbd_be s) a)"
  proof (cases "capacity ?z < ucast (of_nat (length data) :: u32)")
    case True
    then show ?thesis using a z b by (auto simp: Append_def)
  next
    case False
    let ?sz = "of_nat (length data) :: u32"
    have l: "append_loop be data ?sz ?z (zbd_be s) 0 = Some (st, z', b', n)" using a False by (simp add: Append_def)
    have "unat ?sz \<le> unat (capacity ?z)" using False by (simp add: word_less_nat_alt)
    moreover have "unat ?sz \<le> length data" by (simp add: unat_of_nat)
    ultimately show ?thesis
      using append_loop_in_zone [OF l b z] append_loop_geometry [OF l refl] by simp
  qed
  then show ?thesis using meta_update [OF okz okm i, of z' b'] s' by auto
qed

text \<open>A metadata zone is reset, finished or given back.\<close>

lemma meta_zone_op_step:
  assumes okz: "zbd_ok s" and okm: "meta_ok s" and i: "i < length (meta_zones s)"
    and op: "Reset be ((meta_zones s ! i)\<lparr> busy := x \<rparr>) (zbd_be s) = (st, z, b)
      \<or> Finish be ((meta_zones s ! i)\<lparr> busy := x \<rparr>) (zbd_be s) = (st, z, b)"
  shows "meta_step i s (set_meta i z (s\<lparr> zbd_be := b \<rparr>))"
proof -
  let ?z = "(meta_zones s ! i)\<lparr> busy := x \<rparr>"
  let ?zs = "be_zone_sz be (zbd_be s)"
  have z: "zone_ok ?zs ?z" and dv: "unat ?zs dvd unat (start ?z)" and b: "inv (zbd_be s)"
    using okz okm i by (simp_all add: meta_ok_def zbd_ok_def)
  from op show ?thesis
  proof
    assume r: "Reset be ?z (zbd_be s) = (st, z, b)"
    then have b': "b = snd (be_Reset be (start ?z) (zbd_be s))"
      by (auto simp: Reset_def Let_def split: prod.splits if_splits)
    have "zone_ok ?zs z \<and> start z = start ?z"
    proof (cases "ok (fst (fst (be_Reset be (start ?z) (zbd_be s))))")
      case True
      then show ?thesis using zone_ok_Reset(1,3) [OF z r reset_capacity [OF b]] by simp
    next
      case False
      then show ?thesis using r z by (auto simp: Reset_def Let_def split: prod.splits)
    qed
    moreover have "inv b" "be_zone_sz be b = ?zs" "be_block_sz be b = be_block_sz be (zbd_be s)"
      using reset_inv [OF b] by (simp_all add: b' geometry)
    ultimately show ?thesis
      using reset_frame [OF b dv] by (intro meta_update [OF okz okm i]) (simp_all add: b')
  next
    assume f: "Finish be ?z (zbd_be s) = (st, z, b)"
    then have b': "b = snd (be_Finish be (start ?z) (zbd_be s))"
      by (auto simp: Finish_def Let_def split: prod.splits if_splits)
    have geo: "be_zone_sz be b = ?zs" by (simp add: b' geometry)
    show ?thesis
      using zone_ok_Finish(1,3) [OF z f geo] finish_inv [OF b] finish_cont [OF b] geo
      by (intro meta_update [OF okz okm i]) (simp_all add: b' geometry)
  qed
qed

lemma meta_Finish_step: "zbd_ok s \<Longrightarrow> meta_ok s \<Longrightarrow> i < length (meta_zones s) \<Longrightarrow> meta_step i s (meta_Finish be i s)"
  using meta_zone_op_step [of s i "busy (meta_zones s ! i)"] by (auto simp: meta_Finish_def split: prod.splits)

lemma meta_Reset_step: "zbd_ok s \<Longrightarrow> meta_ok s \<Longrightarrow> i < length (meta_zones s) \<Longrightarrow> meta_step i s (meta_Reset be i s)"
  using meta_zone_op_step [of s i "busy (meta_zones s ! i)"] by (auto simp: meta_Reset_def split: prod.splits)

lemma delete_log_step:
  "zbd_ok s \<Longrightarrow> meta_ok s \<Longrightarrow> ml_zone ml < length (meta_zones s) \<Longrightarrow> meta_step (ml_zone ml) s (delete_AquaMetaLog ml s)"
  using meta_busy [of s "ml_zone ml" False] meta_step_refl [of s]
  by (auto simp: delete_AquaMetaLog_def Release_def set_meta_def)

lemma meta_only_ok: "meta_only s s' \<Longrightarrow> zbd_ok s' \<and> meta_ok s' \<and> length (meta_zones s') = length (meta_zones s)"
  by (simp add: meta_only_def)

lemma set_meta_twice [simp]: "set_meta i z2 ((set_meta i z1 s)\<lparr> zbd_be := b \<rparr>) = set_meta i z2 (s\<lparr> zbd_be := b \<rparr>)"
  by (simp add: set_meta_def)

lemma alloc_meta_only:
  assumes "alloc_meta be is s = (st, zn, s')" "zbd_ok s" "meta_ok s" "\<forall>i\<in>set is. i < length (meta_zones s)"
  shows "meta_only s s' \<and> (\<forall>i. zn = Some i \<longrightarrow> i < length (meta_zones s))"
  using assms
proof (induction "is" arbitrary: s)
  case Nil
  then show ?case by (auto intro: meta_only_refl)
next
  case (Cons i "is")
  have i: "i < length (meta_zones s)" using Cons.prems by simp
  let ?z = "(meta_zones s ! i)\<lparr> busy := True \<rparr>"
  have step: "meta_only s s' \<and> (\<forall>i. zn = Some i \<longrightarrow> i < length (meta_zones s))"
    if "meta_only s s1" "alloc_meta be is s1 = (st, zn, s')" for s1
    using Cons.IH [OF that(2)] meta_only_ok [OF that(1)] meta_only_trans [OF that(1)] Cons.prems(4) by auto
  note busy1 = meta_step_only [OF meta_busy [OF Cons.prems(2,3) i, of True]]
  show ?case
  proof (cases "busy (meta_zones s ! i)")
    case True
    then show ?thesis
      using Cons.prems(1) step [OF meta_only_refl [OF Cons.prems(2,3)]] by (simp add: Acquire_def)
  next
    case free: False
    obtain st2 z2 b2 where r: "Reset be ?z (zbd_be s) = (st2, z2, b2)" by (metis prod_cases3)
    let ?s2 = "set_meta i z2 (s\<lparr> zbd_be := b2 \<rparr>)"
    have m2: "meta_only s ?s2" by (rule meta_step_only [OF meta_zone_op_step [OF Cons.prems(2,3) i disjI1 [OF r]]])
    have bz: "busy z2" using r by (auto simp: Reset_def Let_def split: prod.splits if_splits)
    have nth: "meta_zones ?s2 ! i = z2" using i by (simp add: set_meta_def)
    have m3: "meta_only s (set_meta i (z2\<lparr> busy := False \<rparr>) ?s2)"
      using meta_only_trans [OF m2 meta_step_only [OF meta_busy [of ?s2 i False]]] meta_only_ok [OF m2] i nth by simp
    show ?thesis
      using Cons.prems(1) free r bz busy1 m2 i step [OF busy1] step [OF m3]
      by (auto simp: Acquire_def Let_def split: if_splits)
  qed
qed

lemma AllocateMetaZone_only:
  assumes "AllocateMetaZone be s = (st, zn, s')" "zbd_ok s" "meta_ok s"
  shows "meta_only s s'" "\<And>i. zn = Some i \<Longrightarrow> i < length (meta_zones s')"
  using alloc_meta_only [OF assms(1) [unfolded AllocateMetaZone_def] assms(2,3)]
  by (auto simp: meta_only_def)

lemma AddRecord_step:
  "AddRecord be ml data s = Some (st, s') \<Longrightarrow> zbd_ok s \<Longrightarrow> meta_ok s \<Longrightarrow> ml_zone ml < length (meta_zones s)
    \<Longrightarrow> meta_step (ml_zone ml) s s'"
  by (auto simp: AddRecord_def intro: meta_Append_step)

lemmas AddRecord_only = meta_step_only [OF AddRecord_step]

text \<open>A log, when there is one, lies in a metadata zone.\<close>

definition log_in :: "metalog option \<Rightarrow> 'a zbd \<Rightarrow> bool" where
  "log_in l s = (\<forall>ml. l = Some ml \<longrightarrow> ml_zone ml < length (meta_zones s))"

lemma log_in_only: "log_in l s \<Longrightarrow> meta_only s s' \<Longrightarrow> log_in l s'"
  by (simp add: log_in_def meta_only_def)

lemma end_old_log_step:
  assumes "end_old_log be (Some ml) s = Some s'" "zbd_ok s" "meta_ok s" "ml_zone ml < length (meta_zones s)"
  shows "meta_step (ml_zone ml) s s'"
proof -
  obtain s1 where s1: "(if GetCapacityLeft (meta_zones s ! ml_zone ml) \<noteq> 0
      then map_option snd (WriteEndRecord be ml s) else Some s) = Some s1"
    and s': "s' = (if GetCapacityLeft (meta_zones s1 ! ml_zone ml) \<noteq> 0 then meta_Finish be (ml_zone ml) s1 else s1)"
    using assms(1) by (auto simp: end_old_log_def bind_eq_Some_conv)
  have m1: "meta_step (ml_zone ml) s s1"
    using s1 AddRecord_step [OF _ assms(2-4)] meta_step_refl [OF assms(2,3)]
    by (auto simp: WriteEndRecord_def split: if_splits)
  then show ?thesis
    using s' meta_step_trans [OF m1 meta_Finish_step] meta_only_ok [OF meta_step_only [OF m1]] assms(4) by auto
qed

lemma end_old_log_only:
  assumes "end_old_log be old s = Some s'" "zbd_ok s" "meta_ok s" "log_in old s"
  shows "meta_only s s'"
  using assms meta_step_only [OF end_old_log_step]
  by (cases old) (auto simp: end_old_log_def meta_only_refl log_in_def)

lemma drop_log_only: "zbd_ok s \<Longrightarrow> meta_ok s \<Longrightarrow> log_in old s \<Longrightarrow> meta_only s (drop_log old s)"
  by (auto simp: drop_log_def log_in_def meta_only_refl meta_step_only [OF delete_log_step] split: option.splits)

lemma WriteSnapshotLocked_only:
  assumes "WriteSnapshotLocked be ml fs s = Some (st, fs', s')"
  shows "zbd_ok s \<Longrightarrow> meta_ok s \<Longrightarrow> ml_zone ml < length (meta_zones s) \<Longrightarrow> meta_only s s'"
    "fs_meta_log fs' = fs_meta_log fs"
  using assms by (auto simp: WriteSnapshotLocked_def bind_eq_Some_conv intro: AddRecord_only split: if_splits)

lemma RollMetaZoneLocked_only:
  assumes run: "RollMetaZoneLocked be fs s = Some (st, fs', s')"
    and ok: "zbd_ok s" "meta_ok s" "log_in (fs_meta_log fs) s"
  shows "meta_only s s' \<and> log_in (fs_meta_log fs') s'"
proof -
  obtain st1 zn s1 where al: "AllocateMetaZone be s = (st1, zn, s1)" by (metis prod_cases3)
  note a = AllocateMetaZone_only [OF al ok(1,2)]
  show ?thesis
  proof (cases "ok st1 \<and> zn \<noteq> None")
    case False
    then have "s' = s1" "fs' = fs" using run al by (auto simp: RollMetaZoneLocked_def split: if_splits)
    then show ?thesis using a(1) log_in_only [OF ok(3)] by simp
  next
    case True
    then obtain i where i: "ok st1" "zn = Some i" by auto
    let ?old = "fs_meta_log fs"
    let ?ml = "new_AquaMetaLog be i s1"
    obtain s2 where s2: "end_old_log be ?old s1 = Some s2"
      using run al i by (auto simp: RollMetaZoneLocked_def Let_def bind_eq_Some_conv)
    obtain sb where sb: "fs_superblock fs = Some sb"
      using run al i by (auto simp: RollMetaZoneLocked_def Let_def bind_eq_Some_conv)
    obtain ss sb' where enc: "sb_EncodeTo sb = (ss, sb')" by fastforce
    obtain st3 s3 where s3: "AddRecord be ?ml ss s2 = Some (st3, s3)"
      using run al i s2 sb enc by (auto simp: RollMetaZoneLocked_def Let_def bind_eq_Some_conv)
    have m2: "meta_only s s2"
      using meta_only_trans [OF a(1) end_old_log_only [OF s2]] meta_only_ok [OF a(1)] log_in_only [OF ok(3) a(1)] by simp
    have ml: "ml_zone ?ml < length (meta_zones s)"
      using a(2) [OF i(2)] meta_only_ok [OF a(1)] by (simp add: new_AquaMetaLog_def)
    have m3: "meta_only s s3"
      using meta_only_trans [OF m2 AddRecord_only [OF s3]] meta_only_ok [OF m2] ml by simp
    let ?fs2 = "fs\<lparr> fs_meta_log := Some ?ml, fs_superblock := Some sb' \<rparr>"
    show ?thesis
    proof (cases "ok st3")
      case False
      then have "s' = drop_log ?old s3" "fs' = ?fs2"
        using run al i s2 sb enc s3 by (auto simp: RollMetaZoneLocked_def Let_def)
      moreover have "meta_only s3 (drop_log ?old s3)"
        using drop_log_only meta_only_ok [OF m3] log_in_only [OF ok(3) m3] by blast
      ultimately show ?thesis
        using meta_only_trans [OF m3] ml meta_only_ok [OF m3] by (auto simp: log_in_def dest: meta_only_ok)
    next
      case st3: True
      obtain st4 fs4 s4 where w: "WriteSnapshotLocked be ?ml ?fs2 s3 = Some (st4, fs4, s4)"
        using run al i s2 sb enc s3 st3 by (auto simp: RollMetaZoneLocked_def Let_def bind_eq_Some_conv)
      define s5 where "s5 = (case ?old of Some o_ml \<Rightarrow> if ok st4 then meta_Reset be (ml_zone o_ml) s4 else s4 | None \<Rightarrow> s4)"
      have r: "s' = drop_log ?old s5" "fs' = fs4"
        using run al i s2 sb enc s3 st3 w by (auto simp: RollMetaZoneLocked_def Let_def s5_def)
      note w' = WriteSnapshotLocked_only [OF w]
      have m4: "meta_only s s4"
        using meta_only_trans [OF m3 w'(1)] meta_only_ok [OF m3] ml by simp
      have m5: "meta_only s s5"
        using m4 meta_only_trans [OF m4 meta_step_only [OF meta_Reset_step]] meta_only_ok [OF m4] log_in_only [OF ok(3) m4]
        by (auto simp: s5_def log_in_def split: option.splits)
      have "meta_only s5 (drop_log ?old s5)"
        using drop_log_only meta_only_ok [OF m5] log_in_only [OF ok(3) m5] by blast
      then have "meta_only s s'" using meta_only_trans [OF m5] r by simp
      then show ?thesis using ml w'(2) r by (auto simp: log_in_def dest!: meta_only_ok)
    qed
  qed
qed

lemma PersistRecord_only:
  assumes run: "PersistRecord be record fs s = Some (st, fs', s')"
    and ok: "zbd_ok s" "meta_ok s" "log_in (fs_meta_log fs) s"
  shows "meta_only s s' \<and> log_in (fs_meta_log fs') s'"
proof -
  obtain ml st1 s1 where ml: "fs_meta_log fs = Some ml" and a: "AddRecord be ml record s = Some (st1, s1)"
    and rest: "(if status_eq st1 NoSpace then RollMetaZoneLocked be fs s1 else Some (st1, fs, s1)) = Some (st, fs', s')"
    using run by (auto simp: PersistRecord_def bind_eq_Some_conv)
  have m1: "meta_only s s1" using AddRecord_only [OF a ok(1,2)] ok(3) ml by (simp add: log_in_def)
  note m1' = meta_only_ok [OF m1] log_in_only [OF ok(3) m1]
  show ?thesis
  proof (cases "status_eq st1 NoSpace")
    case True
    then have "RollMetaZoneLocked be fs s1 = Some (st, fs', s')" using rest by simp
    from RollMetaZoneLocked_only [OF this] m1' show ?thesis using meta_only_trans [OF m1] by simp
  next
    case False
    then show ?thesis using rest m1 m1' by simp
  qed
qed

lemma SyncFileMetadata_only:
  assumes run: "SyncFileMetadataNoLock be a replace fs s = Some (st, fs', s')"
    and ok: "zbd_ok s" "meta_ok s" "log_in (fs_meta_log fs) s"
  shows "meta_only s s' \<and> log_in (fs_meta_log fs') s'"
proof (cases "is_deleted (fs_objs fs a)")
  case True
  then show ?thesis using run ok by (auto simp: SyncFileMetadataNoLock_def bind_eq_Some_conv intro: meta_only_refl)
next
  case False
  define fs1 where "fs1 = (if replace then fs else set_obj a ((fs_objs fs a)\<lparr> m_time := fs_now fs \<rparr>) fs)"
  obtain st2 fs2 where p: "PersistRecord be (file_record replace (fs_objs fs1 a)) fs1 s = Some (st2, fs2, s')"
    and fs': "fs' = (if ok st2 then set_obj a (MetadataSynced (fs_objs fs2 a)) fs2 else fs2)"
    using run False by (auto simp: SyncFileMetadataNoLock_def fs1_def Let_def bind_eq_Some_conv)
  have "fs_meta_log fs1 = fs_meta_log fs" "fs_meta_log fs' = fs_meta_log fs2"
    by (simp_all add: fs1_def fs' set_obj_def)
  then show ?thesis using PersistRecord_only [OF p ok(1,2)] ok(3) by simp
qed

text \<open>What the writer needs of the file system and the device.\<close>

definition writer_ok :: "'x aquafs \<Rightarrow> 'a zbd \<Rightarrow> bool" where
  "writer_ok fs s = (meta_ok s \<and> log_in (fs_meta_log fs) s)"

end

subsection \<open>The writer of the file system\<close>

sublocale zoned_device \<subseteq> fs_writer: metadata_writer be cont inv "Persist be a" writer_ok for a
proof
  fix s m f st f' m' s' i x
  assume p: "Persist be a f m s = Some (st, f', m', s')"
  obtain fs1 where q: "SyncFileMetadataNoLock be a False (set_obj a f m) s = Some (st, m', s')"
    and f': "f' = fs_objs m' a"
    using p by (auto simp: Persist_def bind_eq_Some_conv)
  have "but_synced f' = but_synced f"
    using resynced_SyncFileMetadata [OF q] f' by (simp add: resynced_def set_obj_def)
  then show "f' = f\<lparr> nr_synced_extents := nr_synced_extents f', m_time := m_time f' \<rparr>"
    by (cases f, cases f') (simp add: but_synced_def)
  assume ok: "zbd_ok s" "writer_ok m s"
  have "meta_only s s' \<and> log_in (fs_meta_log m') s'"
    using SyncFileMetadata_only [OF q] ok by (simp add: writer_ok_def set_obj_def)
  then show "zbd_ok s' \<and> writer_ok m' s' \<and> io_zones s' = io_zones s
      \<and> be_zone_sz be (zbd_be s') = be_zone_sz be (zbd_be s) \<and> be_block_sz be (zbd_be s') = be_block_sz be (zbd_be s)"
    and "i < length (io_zones s) \<Longrightarrow> unat (start (io_zones s ! i)) \<le> x
      \<Longrightarrow> x < unat (start (io_zones s ! i)) + unat (be_zone_sz be (zbd_be s)) \<Longrightarrow> cont (zbd_be s') x = cont (zbd_be s) x"
    by (auto simp: meta_only_def writer_ok_def)
next
  fix m s s'
  assume "writer_ok m s" "zbd_ok s'" "meta_zones s' = meta_zones s" "map start (io_zones s') = map start (io_zones s)"
    "be_zone_sz be (zbd_be s') = be_zone_sz be (zbd_be s)"
  then show "writer_ok m s'" by (simp add: writer_ok_def meta_ok_def log_in_def)
qed

context zoned_device
begin

lemma fs_metadata_writer: "metadata_writer be cont inv (Persist be a) writer_ok"
  by (rule fs_writer.metadata_writer_axioms)

end

lemma fs_device_ok:
  assumes "zoned_device be cont I" "I (zbd_be s)" "\<forall>z\<in>set (io_zones s). zone_ok (GetZoneSize be s) z"
    "\<forall>z\<in>set (meta_zones s). zone_ok (GetZoneSize be s) z \<and> unat (GetZoneSize be s) dvd unat (start z)"
    "disjoint_zones (unat (GetZoneSize be s)) (map start (meta_zones s @ io_zones s))"
    "\<forall>ml. fs_meta_log fs = Some ml \<longrightarrow> ml_zone ml < length (meta_zones s)"
  shows "zoned_device.zbd_ok be I s" "zoned_device.writer_ok be fs s"
  using assms disjoint_zones_tail [of _ "map start (meta_zones s)"]
  by (simp_all add: zoned_device.zbd_ok_def [OF assms(1)] zoned_device.writer_ok_def [OF assms(1)]
      zoned_device.meta_ok_def [OF assms(1)] zoned_device.log_in_def [OF assms(1)] GetZoneSize_def)

subsection \<open>Properties\<close>

text \<open>
  C8: writing the metadata of a file, with a new log zone taken and the old one reset when the log is
  full, changes no data zone: neither its descriptor nor a byte of its content; of the file it changes
  only how many extents count as synced and the modification time.  The metadata zones stay well
  formed and the log stays in one of them.
\<close>

theorem persist_leaves_data:
  assumes dev: "zoned_device be cont I" "I (zbd_be s)" "\<forall>z\<in>set (io_zones s). zone_ok (GetZoneSize be s) z"
      "\<forall>z\<in>set (meta_zones s). zone_ok (GetZoneSize be s) z \<and> unat (GetZoneSize be s) dvd unat (start z)"
      "disjoint_zones (unat (GetZoneSize be s)) (map start (meta_zones s @ io_zones s))"
    and log: "\<forall>ml. fs_meta_log fs = Some ml \<longrightarrow> ml_zone ml < length (meta_zones s)"
    and run: "Persist be a f fs s = Some (st, f', fs', s')"
  shows "io_zones s' = io_zones s
    \<and> (\<forall>i < length (io_zones s). \<forall>x. unat (start (io_zones s ! i)) \<le> x
        \<longrightarrow> x < unat (start (io_zones s ! i)) + unat (GetZoneSize be s) \<longrightarrow> cont (zbd_be s') x = cont (zbd_be s) x)
    \<and> f' = f\<lparr> nr_synced_extents := nr_synced_extents f', m_time := m_time f' \<rparr>
    \<and> (\<forall>z\<in>set (meta_zones s'). zone_ok (GetZoneSize be s') z)
    \<and> (\<forall>ml. fs_meta_log fs' = Some ml \<longrightarrow> ml_zone ml < length (meta_zones s'))"
proof -
  note mw = zoned_device.fs_metadata_writer [OF dev(1)]
  note okz = fs_device_ok [OF dev log]
  from metadata_writer.persist_state [OF mw okz run] metadata_writer.persist_cont [OF mw okz run]
    metadata_writer.persist_file [OF mw run] show ?thesis
    by (auto simp: zoned_device.writer_ok_def [OF dev(1)] zoned_device.meta_ok_def [OF dev(1)]
        zoned_device.log_in_def [OF dev(1)] GetZoneSize_def)
qed

subsection \<open>A concrete update\<close>

text \<open>The volume of \<open>NameTable\<close> with a data zone behind its metadata zone.\<close>

definition demo_data_volume :: "simdev zbdlib zbd" where
  "demo_data_volume = (demo_volume 512)\<lparr> io_zones := [\<lparr> busy = False, start = 512, capacity = 0, max_capacity = 512,
     wp = 1024, lifetime = 0, used_capacity = 100 \<rparr>] \<rparr>"

lemma AddRecord_io_zones:
  "AddRecord be ml r (s\<lparr> io_zones := zs \<rparr>)
    = map_option (\<lambda>(st, s'). (st, s'\<lparr> io_zones := zs \<rparr>)) (AddRecord be ml r s)"
  by (auto simp: AddRecord_def meta_Append_def set_meta_def AddBytesWritten_def split: option.splits)

lemma demo_persist_data:
  "\<exists>st f fs s. Persist demo_be 0 (fs_objs (demo_fs 512) 0) (demo_fs 512) demo_data_volume = Some (st, f, fs, s) \<and> ok st"
proof -
  let ?f = "(fs_objs (demo_fs 512) 0)\<lparr> m_time := 5 \<rparr>"
  have "length (file_record False ?f) \<le> 500" by code_simp
  from demo_add_ok [OF this] obtain s
    where "AddRecord demo_be (new_AquaMetaLog demo_be 0 (demo_volume 512)) (file_record False ?f) demo_data_volume = Some (OK, s)"
    unfolding demo_data_volume_def by (auto simp: AddRecord_io_zones)
  moreover have "set_obj 0 (fs_objs (demo_fs 512) 0) (demo_fs 512) = demo_fs 512" by (simp add: set_obj_def)
  ultimately show ?thesis
    using demo_fs_facts [of 512] demo_now [of 512]
    by (auto simp: Persist_def GetFilename_def SyncFileMetadataNoLock_def PersistRecord_def set_obj_def status_eq_def
        OK_def NoSpace_def ok_def)
qed

lemma demo_data_volume_facts:
  "sim_ok (zbd_be demo_data_volume)" "\<forall>z\<in>set (io_zones demo_data_volume). zone_ok (GetZoneSize demo_be demo_data_volume) z"
  "\<forall>z\<in>set (meta_zones demo_data_volume). zone_ok (GetZoneSize demo_be demo_data_volume) z
    \<and> unat (GetZoneSize demo_be demo_data_volume) dvd unat (start z)"
  "disjoint_zones (unat (GetZoneSize demo_be demo_data_volume)) (map start (meta_zones demo_data_volume @ io_zones demo_data_volume))"
  "\<forall>ml. fs_meta_log (demo_fs 512) = Some ml \<longrightarrow> ml_zone ml < length (meta_zones demo_data_volume)"
  by (simp_all add: demo_data_volume_def demo_volume_def demo_fs_def new_AquaMetaLog_def new_ZonedBlockDevice_def sim_ok_def
      demo_dev_def sim_new_def sim_zone_def zone_ok_def GetZoneSize_def zbdlib_backend_def disjoint_zones_two)

theorem persist_leaves_data_witness:
  "\<exists>st f fs s. Persist demo_be 0 (fs_objs (demo_fs 512) 0) (demo_fs 512) demo_data_volume = Some (st, f, fs, s) \<and> ok st
    \<and> io_zones s = io_zones demo_data_volume
    \<and> sd_mem (zl_dev (zbd_be s)) 700 = sd_mem (zl_dev (zbd_be demo_data_volume)) 700"
proof -
  obtain st f fs s where run: "Persist demo_be 0 (fs_objs (demo_fs 512) 0) (demo_fs 512) demo_data_volume = Some (st, f, fs, s)"
    and st: "ok st" using demo_persist_data by blast
  have "length (io_zones demo_data_volume) = 1" "start (io_zones demo_data_volume ! 0) = 512"
    "GetZoneSize demo_be demo_data_volume = 512"
    by (simp_all add: demo_data_volume_def demo_volume_def GetZoneSize_def zbdlib_backend_def new_ZonedBlockDevice_def demo_dev_def)
  with persist_leaves_data [OF sim_zoned.zoned_device_axioms demo_data_volume_facts run] run st show ?thesis by auto
qed

end
