(* ===== verification/ZonedFiles.thy ===== *)
theory ZonedFiles
  imports FsWriter
begin

text \<open>
  The file handles that the file system returns (\<open>ZonedWritableFile\<close>, \<open>ZonedSequentialFile\<close> and
  \<open>ZonedRandomAccessFile\<close> of \<open>fs/io_aquafs.h\<close> and \<open>.cc\<close>).  The \<open>ZoneFile\<close> behind a handle, the
  state of the metadata writer and the device are threaded through every operation.  The write
  buffer is the list of the bytes that have been copied to it: what \<open>posix_memalign\<close> leaves in it is
  never read before it is written.  In a sparse file the buffer stands behind the
  \<open>SPARSE_HEADER_SIZE\<close> bytes of the segment header, which \<open>SparseAppend\<close> fills in.
  \<open>posix_memalign\<close> is taken to succeed; metrics and the buffer mutex, which covers each operation on
  the buffer as a whole, are not modelled.  A result \<open>None\<close> means that the call does not return.
\<close>

section \<open>Writable files\<close>

record whandle =
  buffered :: bool
  h_buffer :: bytes
  buffer_sz :: u64
  h_block_sz :: u32
  buffer_pos :: u32
  h_wp :: u64
  h_open :: bool

type_synonym ('b, 'm) wop =
  "whandle \<Rightarrow> zfile \<Rightarrow> 'm \<Rightarrow> 'b zbd \<Rightarrow> (status \<times> whandle \<times> zfile \<times> 'm \<times> 'b zbd) option"

definition new_ZonedWritableFile :: "'b backend \<Rightarrow> bool \<Rightarrow> zfile \<Rightarrow> 'b zbd \<Rightarrow> whandle" where
  "new_ZonedWritableFile be direct_off f s =
     (let blk = GetBlockSize be s; sparse_buffer_sz = 1024 * 1024 + ucast blk in
      \<lparr> buffered = direct_off, h_buffer = [],
        buffer_sz = (if direct_off then if is_sparse f
            then sparse_buffer_sz - of_nat SPARSE_HEADER_SIZE - ucast blk else 1024 * 1024 else 0),
        h_block_sz = blk, buffer_pos = 0, h_wp = file_size f, h_open = True \<rparr>)"

definition h_Truncate :: "u64 \<Rightarrow> ('b, 'm) wop" where
  "h_Truncate n h f m s = Some (OK, h, f\<lparr> file_size := n \<rparr>, m, s)"

definition FlushBuffer :: "'b backend \<Rightarrow> ('b, 'm) persist \<Rightarrow> ('b, 'm) wop" where
  "FlushBuffer be pw h f m s =
     (if buffer_pos h = 0 then Some (OK, h, f, m, s)
      else
        (case (if is_sparse f
               then SparseAppend be pw (replicate SPARSE_HEADER_SIZE 0 @ h_buffer h) (buffer_pos h) f m s
               else BufferedAppend be pw (h_buffer h) (buffer_pos h) f m s) of
           None \<Rightarrow> None
         | Some (st, buf, f1, m1, s1) \<Rightarrow>
             let h1 = h\<lparr> h_buffer := (if is_sparse f then drop SPARSE_HEADER_SIZE buf else buf) \<rparr> in
             if \<not> ok st then Some (st, h1, f1, m1, s1)
             else Some (OK, h1\<lparr> h_wp := h_wp h + ucast (buffer_pos h), buffer_pos := 0 \<rparr>, f1, m1, s1)))"

text \<open>\<open>memcpy(buffer + at, data, n)\<close>.\<close>

definition buf_copy :: "nat \<Rightarrow> bytes \<Rightarrow> bytes \<Rightarrow> bytes" where
  "buf_copy at data buf = take at buf @ data @ drop (at + length data) buf"

partial_function (option) buffered_write_loop ::
  "'b backend \<Rightarrow> ('b, 'm) persist \<Rightarrow> bytes \<Rightarrow> u32 \<Rightarrow> ('b, 'm) wop" where
  "buffered_write_loop be pw data data_left h f m s =
     (if data_left = 0 then Some (OK, h, f, m, s)
      else
        let space = (ucast (buffer_sz h - ucast (buffer_pos h)) :: u32) in
        (case (if space = 0 then FlushBuffer be pw h f m s else Some (OK, h, f, m, s)) of
           None \<Rightarrow> None
         | Some (st, h1, f1, m1, s1) \<Rightarrow>
             if \<not> ok st then Some (st, h1, f1, m1, s1)
             else
               let buffer_left = (if space = 0 then ucast (buffer_sz h1) else space);
                   to_buffer = (if data_left > buffer_left then buffer_left else data_left) in
               buffered_write_loop be pw (drop (unat to_buffer) data) (data_left - to_buffer)
                 (h1\<lparr> h_buffer := buf_copy (unat (buffer_pos h1)) (take (unat to_buffer) data) (h_buffer h1),
                     buffer_pos := buffer_pos h1 + to_buffer \<rparr>) f1 m1 s1))"

declare buffered_write_loop.simps [code]

definition BufferedWrite :: "'b backend \<Rightarrow> ('b, 'm) persist \<Rightarrow> bytes \<Rightarrow> ('b, 'm) wop" where
  "BufferedWrite be pw data = buffered_write_loop be pw data (of_nat (length data))"

definition h_Append :: "'b backend \<Rightarrow> ('b, 'm) persist \<Rightarrow> bytes \<Rightarrow> ('b, 'm) wop" where
  "h_Append be pw data h f m s =
     (if buffered h then BufferedWrite be pw data h f m s
      else
        (case file_Append be pw data f m s of
           None \<Rightarrow> None
         | Some (st, f1, m1, s1) \<Rightarrow>
             Some (st, if ok st then h\<lparr> h_wp := h_wp h + of_nat (length data) \<rparr> else h, f1, m1, s1)))"

definition h_PositionedAppend :: "'b backend \<Rightarrow> ('b, 'm) persist \<Rightarrow> bytes \<Rightarrow> u64 \<Rightarrow> ('b, 'm) wop" where
  "h_PositionedAppend be pw data offset h f m s =
     (if offset \<noteq> h_wp h then Some (IOError (str ''positioned append not at write pointer'') [], h, f, m, s)
      else h_Append be pw data h f m s)"

definition DataSync :: "'b backend \<Rightarrow> ('b, 'm) persist \<Rightarrow> ('b, 'm) wop" where
  "DataSync be pw h f m s =
     (if buffered h then
        (case FlushBuffer be pw h f m s of
           None \<Rightarrow> None
         | Some (st, h1, f1, m1, s1) \<Rightarrow>
             if \<not> ok st then Some (st, h1, f1, m1, s1)
             else if \<not> is_sparse f1 then
               map_option (\<lambda>(st, f2, m2, s2). (st, h1, f2, m2, s2)) (PersistMetadata pw f1 m1 s1)
             else Some (OK, h1, f1, m1, s1))
      else (case PushExtent f s of (f1, s1) \<Rightarrow> Some (OK, h, f1, m, s1)))"

definition Fsync :: "'b backend \<Rightarrow> ('b, 'm) persist \<Rightarrow> ('b, 'm) wop" where
  "Fsync be pw h f m s =
     (case DataSync be pw h f m s of
        None \<Rightarrow> None
      | Some (st, h1, f1, m1, s1) \<Rightarrow>
          if \<not> ok st then Some (st, h1, f1, m1, s1)
          else if buffered h1 \<and> \<not> is_sparse f1 then Some (OK, h1, f1, m1, s1)
          else map_option (\<lambda>(st, f2, m2, s2). (st, h1, f2, m2, s2)) (PersistMetadata pw f1 m1 s1))"

definition h_Sync :: "'b backend \<Rightarrow> ('b, 'm) persist \<Rightarrow> ('b, 'm) wop" where
  "h_Sync be pw = DataSync be pw"

definition h_Flush :: "('b, 'm) wop" where
  "h_Flush h f m s = Some (OK, h, f, m, s)"

definition RangeSync :: "'b backend \<Rightarrow> ('b, 'm) persist \<Rightarrow> u64 \<Rightarrow> u64 \<Rightarrow> ('b, 'm) wop" where
  "RangeSync be pw offset nbytes h f m s =
     (if h_wp h < offset + nbytes then DataSync be pw h f m s else Some (OK, h, f, m, s))"

definition CloseInternal :: "'b backend \<Rightarrow> ('b, 'm) persist \<Rightarrow> ('b, 'm) wop" where
  "CloseInternal be pw h f m s =
     (if \<not> h_open h then Some (OK, h, f, m, s)
      else
        (case DataSync be pw h f m s of
           None \<Rightarrow> None
         | Some (st, h1, f1, m1, s1) \<Rightarrow>
             if \<not> ok st then Some (st, h1, f1, m1, s1)
             else
               (case CloseWR be pw f1 m1 s1 of
                  None \<Rightarrow> None
                | Some (st, f2, m2, s2) \<Rightarrow>
                    Some (st, if ok st then h1\<lparr> h_open := False \<rparr> else h1, f2, m2, s2))))"

definition h_Close :: "'b backend \<Rightarrow> ('b, 'm) persist \<Rightarrow> ('b, 'm) wop" where
  "h_Close be pw = CloseInternal be pw"

text \<open>The destructor: an error on closing is left with the device.\<close>

definition delete_ZonedWritableFile ::
  "'b backend \<Rightarrow> ('b, 'm) persist \<Rightarrow> whandle \<Rightarrow> ('b, 'm) persist" where
  "delete_ZonedWritableFile be pw h f m s =
     map_option (\<lambda>(st, h1, f1, m1, s1). (st, f1, m1, if ok st then s1 else SetZoneDeferredStatus st s1))
       (CloseInternal be pw h f m s)"

definition h_SetWriteLifeTimeHint :: "WriteLifeTimeHint \<Rightarrow> ('b, 'm) wop" where
  "h_SetWriteLifeTimeHint lt h f m s = Some (OK, h, snd (SetWriteLifeTimeHint lt f), m, s)"

definition h_GetWriteLifeTimeHint :: "whandle \<Rightarrow> zfile \<Rightarrow> WriteLifeTimeHint" where
  "h_GetWriteLifeTimeHint h f = zf_lifetime f"

definition h_use_direct_io :: "whandle \<Rightarrow> bool" where
  "h_use_direct_io h = (\<not> buffered h)"

definition h_GetRequiredBufferAlignment :: "'b backend \<Rightarrow> 'b zbd \<Rightarrow> u32" where
  "h_GetRequiredBufferAlignment be s = GetBlockSize be s"

section \<open>Sequential and random-access files\<close>

record shandle =
  rp :: u64
  s_direct :: bool

definition new_ZonedSequentialFile :: "bool \<Rightarrow> zfile \<Rightarrow> shandle" where
  "new_ZonedSequentialFile use_direct_reads f = \<lparr> rp = 0, s_direct = (use_direct_reads \<and> \<not> is_sparse f) \<rparr>"

definition s_Read ::
  "'b backend \<Rightarrow> u64 \<Rightarrow> shandle \<Rightarrow> zfile \<Rightarrow> 'b zbd \<Rightarrow> (status \<times> bytes \<times> shandle \<times> 'b zbd) option" where
  "s_Read be n h f s =
     map_option (\<lambda>(st, res, s1). (st, res, if ok st then h\<lparr> rp := rp h + of_nat (length res) \<rparr> else h, s1))
       (file_PositionedRead be f (rp h) n (s_direct h) s)"

definition s_Skip :: "u64 \<Rightarrow> shandle \<Rightarrow> zfile \<Rightarrow> status \<times> shandle" where
  "s_Skip n h f =
     (if rp h + n \<ge> file_size f then (InvalidArgument (str ''Skip beyond end of file'') [], h)
      else (OK, h\<lparr> rp := rp h + n \<rparr>))"

definition s_PositionedRead ::
  "'b backend \<Rightarrow> u64 \<Rightarrow> u64 \<Rightarrow> shandle \<Rightarrow> zfile \<Rightarrow> 'b zbd \<Rightarrow> (status \<times> bytes \<times> 'b zbd) option" where
  "s_PositionedRead be offset n h f s = file_PositionedRead be f offset n (s_direct h) s"

definition s_InvalidateCache ::
  "'b backend \<Rightarrow> u64 \<Rightarrow> u64 \<Rightarrow> zfile \<Rightarrow> 'b zbd \<Rightarrow> (status \<times> 'b zbd) option" where
  "s_InvalidateCache be offset n f s = file_InvalidateCache be f offset n s"

record rhandle =
  r_direct :: bool

definition new_ZonedRandomAccessFile :: "bool \<Rightarrow> zfile \<Rightarrow> rhandle" where
  "new_ZonedRandomAccessFile use_direct_reads f = \<lparr> r_direct = (use_direct_reads \<and> \<not> is_sparse f) \<rparr>"

definition r_Read ::
  "'b backend \<Rightarrow> u64 \<Rightarrow> u64 \<Rightarrow> rhandle \<Rightarrow> zfile \<Rightarrow> 'b zbd \<Rightarrow> (status \<times> bytes \<times> 'b zbd) option" where
  "r_Read be offset n h f s = file_PositionedRead be f offset n (r_direct h) s"

definition r_Prefetch :: "u64 \<Rightarrow> u64 \<Rightarrow> status" where
  "r_Prefetch offset n = OK"

section \<open>What a buffered handle has taken\<close>

text \<open>A buffered handle of a file that is not sparse: the buffer is within its bounds, and the write
  pointer is the size of the file, which does not count the buffered bytes.\<close>

definition buffer_ok :: "u32 \<Rightarrow> whandle \<Rightarrow> zfile \<Rightarrow> bool" where
  "buffer_ok blk h f = (buffered h \<and> \<not> is_sparse f \<and> 0 < unat (buffer_sz h) \<and> blk \<noteq> 0
     \<and> unat (buffer_sz h) + unat blk < 2 ^ 32 \<and> unat (buffer_pos h) \<le> unat (buffer_sz h)
     \<and> unat (buffer_pos h) \<le> length (h_buffer h) \<and> h_wp h = file_size f)"

lemma unat_ucast_small: "unat (x :: u64) < 2 ^ 32 \<Longrightarrow> unat (ucast x :: u32) = unat x"
  by (simp add: unsigned_ucast_eq take_bit_nat_eq_self)

definition pending :: "whandle \<Rightarrow> bytes" where
  "pending h = take (unat (buffer_pos h)) (h_buffer h)"

lemma pending_empty: "buffer_pos h = 0 \<Longrightarrow> pending h = []"
  by (simp add: pending_def)

lemma pending_copy:
  assumes "unat (buffer_pos h) \<le> length (h_buffer h)" "unat (buffer_pos h + n) = unat (buffer_pos h) + unat n"
    "unat n \<le> length data"
  shows "pending (h\<lparr> h_buffer := buf_copy (unat (buffer_pos h)) (take (unat n) data) (h_buffer h),
    buffer_pos := buffer_pos h + n \<rparr>) = pending h @ take (unat n) data"
  using assms by (simp add: pending_def buf_copy_def min.absorb2)

lemma new_handle_ok:
  assumes "\<not> is_sparse f" "GetBlockSize be s \<noteq> 0" "unat (GetBlockSize be s) < 2 ^ 31"
  shows "buffer_ok (GetBlockSize be s) (new_ZonedWritableFile be True f s) f"
    "pending (new_ZonedWritableFile be True f s) = []"
  using assms by (simp_all add: buffer_ok_def new_ZonedWritableFile_def pending_def Let_def)

context metadata_writer
begin

definition handle_ok :: "whandle \<Rightarrow> zfile \<Rightarrow> 'm \<Rightarrow> 'b zbd \<Rightarrow> bool" where
  "handle_ok h f m s = (file_ok f m s \<and> buffer_ok (GetBlockSize be s) h f)"

lemma FlushBuffer_data:
  assumes h: "handle_ok h f m s" and run: "FlushBuffer be pw h f m s = Some (st, h', f', m', s')" "ok st"
  shows "handle_ok h' f' m' s'" "file_data f' s' = file_data f s @ pending h" "pending h' = []"
    "buffer_pos h' = 0" "buffer_sz h' = buffer_sz h"
proof -
  have b: "buffer_ok (GetBlockSize be s) h f" and fok: "file_ok f m s" using h by (simp_all add: handle_ok_def)
  have "handle_ok h' f' m' s' \<and> file_data f' s' = file_data f s @ pending h \<and> buffer_pos h' = 0
    \<and> buffer_sz h' = buffer_sz h"
  proof (cases "buffer_pos h = 0")
    case True
    then show ?thesis using run h by (simp add: FlushBuffer_def pending_empty)
  next
    case False
    have sp: "\<not> is_sparse f" using b by (simp add: buffer_ok_def)
    obtain st1 buf where a: "BufferedAppend be pw (h_buffer h) (buffer_pos h) f m s = Some (st1, buf, f', m', s')"
      and st1: "ok st1"
      and h': "h' = h\<lparr> h_buffer := buf, h_wp := h_wp h + ucast (buffer_pos h), buffer_pos := 0 \<rparr>"
      using run False sp by (auto simp: FlushBuffer_def Let_def split: option.splits if_splits)
    have "GetBlockSize be s \<noteq> 0" "unat (buffer_pos h) + unat (GetBlockSize be s) < 2 ^ 32"
      "unat (buffer_pos h) \<le> length (h_buffer h)" using b by (simp_all add: buffer_ok_def)
    from BufferedAppend_data [OF a st1 fok this] show ?thesis
      using b by (simp add: handle_ok_def buffer_ok_def h' pending_def)
  qed
  then show "handle_ok h' f' m' s'" "file_data f' s' = file_data f s @ pending h" "pending h' = []"
    "buffer_pos h' = 0" "buffer_sz h' = buffer_sz h" by (simp_all add: pending_empty)
qed

text \<open>One round of \<open>BufferedWrite\<close> once there is space in the buffer.\<close>

lemma buffered_chunk:
  assumes h: "handle_ok h f m s" and n: "unat n \<le> unat (buffer_sz h) - unat (buffer_pos h)" "unat n \<le> length data"
  defines "h2 \<equiv> h\<lparr> h_buffer := buf_copy (unat (buffer_pos h)) (take (unat n) data) (h_buffer h),
    buffer_pos := buffer_pos h + n \<rparr>"
  shows "handle_ok h2 f m s" "pending h2 = pending h @ take (unat n) data"
proof -
  have b: "unat (buffer_pos h) \<le> unat (buffer_sz h)" "unat (buffer_sz h) + unat (GetBlockSize be s) < 2 ^ 32"
    "unat (buffer_pos h) \<le> length (h_buffer h)"
    using h by (simp_all add: handle_ok_def buffer_ok_def)
  have sum: "unat (buffer_pos h + n) = unat (buffer_pos h) + unat n"
    using n(1) b by (intro unat_add_no_wrap) simp
  show "pending h2 = pending h @ take (unat n) data"
    unfolding h2_def by (rule pending_copy [OF b(3) sum n(2)])
  show "handle_ok h2 f m s"
    using h n b sum by (simp add: handle_ok_def buffer_ok_def h2_def buf_copy_def min.absorb2)
qed

lemma buffered_write_loop_data:
  assumes "buffered_write_loop be pw data left h f m s = Some r" "handle_ok h f m s" "unat left = length data"
  shows "case r of (st, h', f', m', s') \<Rightarrow> ok st \<longrightarrow> handle_ok h' f' m' s'
    \<and> file_data f' s' @ pending h' = file_data f s @ pending h @ data"
proof -
  let ?Q = "\<lambda>data h f s r. case r of (st, h', f', m', s') \<Rightarrow> ok st \<longrightarrow> handle_ok h' f' m' s'
    \<and> file_data f' s' @ pending h' = file_data f s @ pending h @ data"
  let ?P = "\<lambda>be' pw' data left h f m s r. be' = be \<longrightarrow> pw' = pw \<longrightarrow> handle_ok h f m s
    \<longrightarrow> unat left = length data \<longrightarrow> ?Q data h f s r"
  have "?P be pw data left h f m s r"
  proof (rule buffered_write_loop.raw_induct [where P = ?P, OF _ assms(1)], intro impI, goal_cases)
    case (1 loop be' pw' data left h f m s r)
    then have be: "be' = be" "pw' = pw" and h: "handle_ok h f m s" and len: "unat left = length data" by simp_all
    define space where "space = (ucast (buffer_sz h - ucast (buffer_pos h)) :: u32)"
    have bs: "unat (buffer_pos h) \<le> unat (buffer_sz h)" "unat (buffer_sz h) < 2 ^ 32" "0 < unat (buffer_sz h)"
      using h by (simp_all add: handle_ok_def buffer_ok_def)
    have sp: "unat space = unat (buffer_sz h) - unat (buffer_pos h)"
      using bs unfolding space_def by (simp add: unat_ucast_small unat_sub_no_wrap)
    show "?Q data h f s r"
    proof (cases "left = 0")
      case True
      then show ?thesis using 1(2) h len by auto
    next
      case l0: False
      note body = 1(2) [simplified l0 be if_False, unfolded Let_def, folded space_def]
      obtain st1 h1 f1 m1 s1 where fl: "(if space = 0 then FlushBuffer be pw h f m s else Some (OK, h, f, m, s))
          = Some (st1, h1, f1, m1, s1)"
        using body by (auto split: option.splits)
      show ?thesis
      proof (cases "ok st1")
        case False
        then show ?thesis using body fl by auto
      next
        case True
        have h1: "handle_ok h1 f1 m1 s1" "file_data f1 s1 @ pending h1 = file_data f s @ pending h"
          "buffer_sz h1 = buffer_sz h" "space = 0 \<Longrightarrow> buffer_pos h1 = 0" "space \<noteq> 0 \<Longrightarrow> h1 = h"
          using fl True h FlushBuffer_data [OF h, of st1 h1 f1 m1 s1] by (auto split: if_splits)
        define room where "room = (if space = 0 then ucast (buffer_sz h1) else space :: u32)"
        define n where "n = (if left > room then room else left)"
        have room: "unat room = unat (buffer_sz h1) - unat (buffer_pos h1)"
          using h1(3-5) sp bs by (auto simp: room_def unat_ucast_small)
        have n: "unat n \<le> unat (buffer_sz h1) - unat (buffer_pos h1)" "unat n \<le> length data" "unat n \<le> unat left"
          using room len by (auto simp: n_def word_less_nat_alt word_le_nat_alt)
        note c = buffered_chunk [OF h1(1) n(1,2)]
        have l: "loop be pw (drop (unat n) data) (left - n)
            (h1\<lparr> h_buffer := buf_copy (unat (buffer_pos h1)) (take (unat n) data) (h_buffer h1),
              buffer_pos := buffer_pos h1 + n \<rparr>) f1 m1 s1 = Some r"
          using body unfolding room_def n_def
          by (simp only: fl option.case prod.case True not_True_eq_False if_False)
        have "unat (left - n) = length (drop (unat n) data)" using len n(3) by (simp add: unat_sub_no_wrap)
        moreover have "(file_data f s @ pending h) @ data
            = ((file_data f s @ pending h) @ take (unat n) data) @ drop (unat n) data" by simp
        ultimately show ?thesis
          using 1(1) [OF l] c h1(2) by (auto simp: append_assoc [symmetric] simp del: append_assoc)
      qed
    qed
  qed
  then show ?thesis using assms(2,3) by simp
qed

lemma h_Append_data:
  assumes h: "handle_ok h f m s" and run: "h_Append be pw data h f m s = Some (st, h', f', m', s')" "ok st"
    and len: "length data < 2 ^ 32"
  shows "handle_ok h' f' m' s' \<and> file_data f' s' @ pending h' = file_data f s @ pending h @ data"
proof -
  have "buffered h" using h by (simp add: handle_ok_def buffer_ok_def)
  then have "buffered_write_loop be pw data (of_nat (length data)) h f m s = Some (st, h', f', m', s')"
    using run(1) by (simp add: h_Append_def BufferedWrite_def)
  from buffered_write_loop_data [OF this h] len run(2) show ?thesis by (simp add: unat_of_nat_small)
qed

lemma persist_handle_ok:
  assumes "handle_ok h f m s" "PersistMetadata pw f m s = Some (st, f', m', s')"
  shows "handle_ok h f' m' s'" "file_data f' s' = file_data f s"
proof -
  have p: "pw f m s = Some (st, f', m', s')" using assms(2) by (simp add: PersistMetadata_def)
  have pre: "zbd_ok s" "winv m s" "extents_below (extents f) (io_zones s)" "active_ok f (io_zones s)"
    using assms(1) by (simp_all add: handle_ok_def file_ok_def)
  note q = persist_file_ok [OF pre p]
  show "file_data f' s' = file_data f s" by (rule q)
  show "handle_ok h f' m' s'"
    using q assms(1) persist_sparse [OF p] by (simp add: handle_ok_def buffer_ok_def GetBlockSize_def)
qed

lemma DataSync_data:
  assumes h: "handle_ok h f m s" and run: "DataSync be pw h f m s = Some (st, h', f', m', s')" "ok st"
  shows "handle_ok h' f' m' s' \<and> file_data f' s' = file_data f s @ pending h \<and> pending h' = []"
proof -
  have buf: "buffered h" using h by (simp add: handle_ok_def buffer_ok_def)
  obtain st1 h1 f1 m1 s1 where fl: "FlushBuffer be pw h f m s = Some (st1, h1, f1, m1, s1)" and st1: "ok st1"
    using run buf by (auto simp: DataSync_def split: option.splits if_splits)
  note f1 = FlushBuffer_data [OF h fl st1]
  have "\<not> is_sparse f1" using f1(1) by (simp add: handle_ok_def buffer_ok_def)
  then have p: "PersistMetadata pw f1 m1 s1 = Some (st, f', m', s')" and "h' = h1"
    using run buf fl st1 by (auto simp: DataSync_def)
  then show ?thesis using persist_handle_ok [OF f1(1) p] f1 by simp
qed

lemma Fsync_data:
  assumes h: "handle_ok h f m s" and run: "Fsync be pw h f m s = Some (st, h', f', m', s')" "ok st"
  shows "handle_ok h' f' m' s' \<and> file_data f' s' = file_data f s @ pending h \<and> pending h' = []"
proof -
  obtain st1 h1 f1 m1 s1 where d: "DataSync be pw h f m s = Some (st1, h1, f1, m1, s1)" and st1: "ok st1"
    using run by (auto simp: Fsync_def split: option.splits if_splits)
  note f1 = DataSync_data [OF h d st1]
  then have "buffered h1" "\<not> is_sparse f1" by (simp_all add: handle_ok_def buffer_ok_def)
  then show ?thesis using run d st1 f1 by (simp add: Fsync_def)
qed

end

section \<open>Sessions on a writable file\<close>

text \<open>A client's calls on an open handle, run until one fails.\<close>

datatype wcmd = Do_Append bytes | Do_PositionedAppend bytes u64 | Do_Sync | Do_Fsync | Do_Flush | Do_RangeSync u64 u64

primrec run_cmd :: "'b backend \<Rightarrow> ('b, 'm) persist \<Rightarrow> wcmd \<Rightarrow> ('b, 'm) wop" where
  "run_cmd be pw (Do_Append data) = h_Append be pw data"
| "run_cmd be pw (Do_PositionedAppend data offset) = h_PositionedAppend be pw data offset"
| "run_cmd be pw Do_Sync = h_Sync be pw"
| "run_cmd be pw Do_Fsync = Fsync be pw"
| "run_cmd be pw Do_Flush = h_Flush"
| "run_cmd be pw (Do_RangeSync offset n) = RangeSync be pw offset n"

fun run_cmds :: "'b backend \<Rightarrow> ('b, 'm) persist \<Rightarrow> wcmd list \<Rightarrow> ('b, 'm) wop" where
  "run_cmds be pw [] h f m s = Some (OK, h, f, m, s)"
| "run_cmds be pw (c # cs) h f m s =
     (case run_cmd be pw c h f m s of
        None \<Rightarrow> None
      | Some (st, h1, f1, m1, s1) \<Rightarrow>
          if ok st then run_cmds be pw cs h1 f1 m1 s1 else Some (st, h1, f1, m1, s1))"

text \<open>What a call adds to the file, and whether it pushes all of it to the device.\<close>

primrec cmd_data :: "wcmd \<Rightarrow> bytes" where
  "cmd_data (Do_Append data) = data"
| "cmd_data (Do_PositionedAppend data offset) = data"
| "cmd_data Do_Sync = []"
| "cmd_data Do_Fsync = []"
| "cmd_data Do_Flush = []"
| "cmd_data (Do_RangeSync offset n) = []"

definition is_sync :: "wcmd \<Rightarrow> bool" where
  "is_sync c = (c = Do_Sync \<or> c = Do_Fsync)"

context metadata_writer
begin

lemma run_cmd_data:
  assumes h: "handle_ok h f m s" and run: "run_cmd be pw c h f m s = Some (st, h', f', m', s')" "ok st"
    and len: "length (cmd_data c) < 2 ^ 32"
  shows "handle_ok h' f' m' s'" "file_data f' s' @ pending h' = file_data f s @ pending h @ cmd_data c"
    "is_sync c \<Longrightarrow> pending h' = []"
proof -
  have "handle_ok h' f' m' s' \<and> file_data f' s' @ pending h' = file_data f s @ pending h @ cmd_data c
    \<and> (is_sync c \<longrightarrow> pending h' = [])"
  proof (cases c)
    case (Do_Append data)
    then show ?thesis using h_Append_data [OF h, of data st h' f' m' s'] run len by (simp add: is_sync_def)
  next
    case (Do_PositionedAppend data offset)
    then have "h_Append be pw data h f m s = Some (st, h', f', m', s')"
      using run by (auto simp: h_PositionedAppend_def split: if_splits)
    from h_Append_data [OF h this run(2)] show ?thesis
      using Do_PositionedAppend len by (simp add: is_sync_def)
  next
    case Do_Sync
    then show ?thesis using DataSync_data [OF h, of st h' f' m' s'] run by (simp add: h_Sync_def)
  next
    case Do_Fsync
    then show ?thesis using Fsync_data [OF h, of st h' f' m' s'] run by simp
  next
    case Do_Flush
    then show ?thesis using h run by (simp add: h_Flush_def is_sync_def)
  next
    case (Do_RangeSync offset n)
    then show ?thesis
      using DataSync_data [OF h, of st h' f' m' s'] h run by (auto simp: RangeSync_def is_sync_def split: if_splits)
  qed
  then show "handle_ok h' f' m' s'" "file_data f' s' @ pending h' = file_data f s @ pending h @ cmd_data c"
    "is_sync c \<Longrightarrow> pending h' = []" by simp_all
qed

lemma run_cmds_data:
  assumes "run_cmds be pw cs h f m s = Some (st, h', f', m', s')" "ok st" "handle_ok h f m s"
    "\<forall>c\<in>set cs. length (cmd_data c) < 2 ^ 32"
  shows "handle_ok h' f' m' s' \<and> file_data f' s' @ pending h' = file_data f s @ pending h @ concat (map cmd_data cs)
    \<and> (cs \<noteq> [] \<longrightarrow> is_sync (last cs) \<longrightarrow> pending h' = [])"
  using assms
proof (induction cs arbitrary: h f m s)
  case (Cons c cs)
  obtain st1 h1 f1 m1 s1 where r: "run_cmd be pw c h f m s = Some (st1, h1, f1, m1, s1)"
    using Cons.prems(1) by (auto split: option.splits)
  then have st1: "ok st1" using Cons.prems(1,2) by (auto split: if_splits)
  then have rest: "run_cmds be pw cs h1 f1 m1 s1 = Some (st, h', f', m', s')" using Cons.prems(1) r by simp
  have len: "length (cmd_data c) < 2 ^ 32" using Cons.prems(4) by simp
  note d = run_cmd_data [OF Cons.prems(3) r st1 len]
  show ?case
  proof (cases "cs = []")
    case True
    then show ?thesis using rest d by auto
  next
    case False
    then show ?thesis using Cons.IH [OF rest Cons.prems(2) d(1)] Cons.prems(4) d(2)
      by (simp add: append_assoc [symmetric] del: append_assoc)
  qed
qed simp

end

subsection \<open>Properties\<close>

text \<open>
  C4: a session of successful calls on a buffered \<open>ZonedWritableFile\<close>, with the metadata written by the
  file system, gives the file exactly the appended bytes, in order: the data of the file's extents
  followed by what is still in the buffer is the old data followed by everything appended; after a
  final \<open>Sync\<close> or \<open>Fsync\<close> nothing is left in the buffer.  The write pointer of the handle stays the size
  of the file.
\<close>

theorem writable_session_correct:
  assumes dev: "zoned_device be cont I" "I (zbd_be s)" "\<forall>z\<in>set (io_zones s). zone_ok (GetZoneSize be s) z"
      "\<forall>z\<in>set (meta_zones s). zone_ok (GetZoneSize be s) z \<and> unat (GetZoneSize be s) dvd unat (start z)"
      "disjoint_zones (unat (GetZoneSize be s)) (map start (meta_zones s @ io_zones s))"
    and log: "\<forall>ml. fs_meta_log fs = Some ml \<longrightarrow> ml_zone ml < length (meta_zones s)"
    and fil: "extents_below (extents f) (io_zones s)" "active_ok f (io_zones s)" "\<not> is_sparse f"
    and sizes: "GetBlockSize be s \<noteq> 0" "unat (GetBlockSize be s) < 2 ^ 31"
      "\<forall>c\<in>set cs. length (cmd_data c) < 2 ^ 32"
    and run: "run_cmds be (Persist be a) cs (new_ZonedWritableFile be True f s) f fs s = Some (st, h', f', fs', s')" "ok st"
  shows "extents_data (cont (zbd_be s')) (extents f') @ pending h'
      = extents_data (cont (zbd_be s)) (extents f) @ concat (map cmd_data cs)
    \<and> (cs \<noteq> [] \<longrightarrow> is_sync (last cs) \<longrightarrow> pending h' = [])
    \<and> h_wp h' = file_size f' \<and> unat (buffer_pos h') \<le> unat (buffer_sz h')"
proof -
  note mw = zoned_device.fs_metadata_writer [OF dev(1), of a]
  note ok = fs_device_ok [OF dev log]
  have h: "metadata_writer.handle_ok be I (zoned_device.writer_ok be) (new_ZonedWritableFile be True f s) f fs s"
    using ok fil new_handle_ok [OF fil(3) sizes(1,2)]
    by (simp add: metadata_writer.handle_ok_def [OF mw] metadata_writer.file_ok_def [OF mw])
  from metadata_writer.run_cmds_data [OF mw run h sizes(3)] new_handle_ok(2) [OF fil(3) sizes(1,2)] show ?thesis
    by (simp add: metadata_writer.file_data_def [OF mw] metadata_writer.handle_ok_def [OF mw] buffer_ok_def)
qed

subsection \<open>A concrete session\<close>

text \<open>A volume of two metadata and two data zones of 512 bytes, and a file on it that has been deleted
  while it was open for writing: its handle goes on working.\<close>

definition demo_disk4 :: "simdev zbdlib zbd" where
  "demo_disk4 = (new_ZonedBlockDevice (demo_dev\<lparr> zl_zone_sz := 512, zl_nr_zones := 4, zl_dev := sim_new 4 512 512 4 \<rparr>))
     \<lparr> meta_zones := [\<lparr> busy = True, start = 0, capacity = 512, max_capacity = 512, wp = 0, lifetime = 0, used_capacity = 0 \<rparr>,
         \<lparr> busy = False, start = 512, capacity = 512, max_capacity = 512, wp = 512, lifetime = 0, used_capacity = 0 \<rparr>],
       io_zones := [\<lparr> busy = False, start = 1024, capacity = 48, max_capacity = 48, wp = 1024, lifetime = 0, used_capacity = 0 \<rparr>,
         \<lparr> busy = False, start = 1536, capacity = 512, max_capacity = 512, wp = 1536, lifetime = 0, used_capacity = 0 \<rparr>],
       max_nr_active_io_zones := 3, max_nr_open_io_zones := 3 \<rparr>"

definition demo_deleted :: zfile where
  "demo_deleted = (AddLinkName (str ''/a'') (new_ZoneFile 1))\<lparr> is_deleted := True \<rparr>"

definition demo_fs4 :: "unit aquafs" where
  "demo_fs4 = (demo_fs 512)\<lparr> fs_files := [], fs_meta_log := Some (new_AquaMetaLog demo_be 0 demo_disk4) \<rparr>"

definition demo_session :: "wcmd list" where
  "demo_session = [Do_Append (take 20 demo_text), Do_Flush, Do_Append (drop 20 demo_text), Do_Fsync]"

lemma demo_session_run:
  "map_option (\<lambda>(st, h, f, _, _). (ok st, map ex_length (extents f), h_wp h, buffer_pos h))
     (run_cmds demo_be (Persist demo_be 0) demo_session
        (new_ZonedWritableFile demo_be True demo_deleted demo_disk4) demo_deleted demo_fs4 demo_disk4)
    = Some (True, [48, 2], 50, 0)"
  by code_simp

lemma demo_disk4_facts:
  "sim_ok (zbd_be demo_disk4)" "\<forall>z\<in>set (io_zones demo_disk4). zone_ok (GetZoneSize demo_be demo_disk4) z"
  "\<forall>z\<in>set (meta_zones demo_disk4). zone_ok (GetZoneSize demo_be demo_disk4) z
    \<and> unat (GetZoneSize demo_be demo_disk4) dvd unat (start z)"
  "disjoint_zones (unat (GetZoneSize demo_be demo_disk4)) (map start (meta_zones demo_disk4 @ io_zones demo_disk4))"
  "\<forall>ml. fs_meta_log demo_fs4 = Some ml \<longrightarrow> ml_zone ml < length (meta_zones demo_disk4)"
  "GetBlockSize demo_be demo_disk4 = 4"
  by (simp_all add: demo_disk4_def demo_fs4_def new_AquaMetaLog_def new_ZonedBlockDevice_def sim_ok_def demo_dev_def
      sim_new_def sim_zone_def zone_ok_def GetZoneSize_def GetBlockSize_def zbdlib_backend_def
      disjoint_zones_Cons disjoint_zones_Nil)

theorem writable_session_correct_witness:
  "\<exists>st h f fs s. run_cmds demo_be (Persist demo_be 0) demo_session
      (new_ZonedWritableFile demo_be True demo_deleted demo_disk4) demo_deleted demo_fs4 demo_disk4
      = Some (st, h, f, fs, s) \<and> ok st \<and> extents_data (sd_mem (zl_dev (zbd_be s))) (extents f) = demo_text
    \<and> h_wp h = file_size f"
proof -
  obtain st h f fs s where run: "run_cmds demo_be (Persist demo_be 0) demo_session
      (new_ZonedWritableFile demo_be True demo_deleted demo_disk4) demo_deleted demo_fs4 demo_disk4
      = Some (st, h, f, fs, s)" and st: "ok st"
    using demo_session_run by (auto simp: map_option_case split: option.splits)
  have fil: "extents_below (extents demo_deleted) (io_zones demo_disk4)"
    "active_ok demo_deleted (io_zones demo_disk4)" "\<not> is_sparse demo_deleted" "extents demo_deleted = []"
    by (simp_all add: demo_deleted_def AddLinkName_def new_ZoneFile_def extents_below_def active_ok_def)
  have sz: "GetBlockSize demo_be demo_disk4 \<noteq> 0" "unat (GetBlockSize demo_be demo_disk4) < 2 ^ 31"
    "\<forall>c\<in>set demo_session. length (cmd_data c) < 2 ^ 32"
    by (simp_all add: demo_disk4_facts demo_session_def demo_text_def)
  have "concat (map cmd_data demo_session) = demo_text" "is_sync (last demo_session)" "demo_session \<noteq> []"
    by (simp_all add: demo_session_def is_sync_def)
  then show ?thesis
    using writable_session_correct [OF sim_zoned.zoned_device_axioms demo_disk4_facts(1-5) fil(1-3) sz run st] run st fil(4)
    by auto
qed

text \<open>A device with a single free zone of 48 bytes.\<close>

definition demo_single :: "simdev zbdlib zbd" where
  "demo_single = demo_fresh\<lparr> io_zones := take 1 (io_zones demo_fresh) \<rparr>"


section \<open>Reading sequentially\<close>

text \<open>On a device without read errors a sequential read returns the bytes at the read position, as many
  as asked for or up to the end of the file, and moves behind them.\<close>

lemma s_Read_data:
  assumes dev: "reading_device be cont I" "I (zbd_be s)"
    and fil: "extents_ok (extents f)" "unat (file_size f) \<le> total_length (extents f)"
    and sizes: "GetBlockSize be s \<noteq> 0" "unat n + unat (GetBlockSize be s) < 0x7ffff000"
    and pos: "unat (rp h) \<le> unat (file_size f)" "unat (rp h) + unat n < 2 ^ 64"
  defines "k \<equiv> min (unat n) (unat (file_size f) - unat (rp h))"
  shows "\<exists>s'. s_Read be n h f s = Some (OK,
      take k (drop (unat (rp h)) (extents_data (cont (zbd_be s)) (extents f))), h\<lparr> rp := rp h + of_nat k \<rparr>, s')"
proof -
  obtain s' where r: "file_PositionedRead be f (rp h) n (s_direct h) s = Some (OK,
      take k (drop (unat (rp h)) (extents_data (cont (zbd_be s)) (extents f))), s')"
    using PositionedRead_full [OF dev fil sizes pos(2), of "s_direct h"] by (auto simp: k_def)
  have "k \<le> total_length (extents f) - unat (rp h)" using fil(2) by (simp add: k_def)
  then have "length (take k (drop (unat (rp h)) (extents_data (cont (zbd_be s)) (extents f)))) = k"
    by (simp add: min.absorb2)
  with r show ?thesis by (simp add: s_Read_def)
qed

text \<open>Skipping to the end of the file, or past it, is refused and moves nothing.\<close>

lemma skip_to_end_refused:
  assumes "unat (rp h) + unat n < 2 ^ 64" "unat (file_size f) \<le> unat (rp h) + unat n"
  shows "s_Skip n h f = (InvalidArgument (str ''Skip beyond end of file'') [], h)"
  using assms by (simp add: s_Skip_def word_le_nat_alt unat_add_no_wrap)

end
