(* ===== verification/GarbageCollection.thy ===== *)
theory GarbageCollection
  imports FsWriter
begin

text \<open>
  Garbage collection (\<open>AquaFS::GCWorker\<close>, \<open>GetAquaFSSnapshot\<close>, \<open>MigrateExtents\<close> and
  \<open>MigrateFileExtents\<close> of \<open>fs/fs_aquafs.cc\<close>, \<open>ZoneFile::MigrateData\<close> of \<open>fs/io_aquafs.cc\<close> and
  \<open>fs/snapshot.h\<close>): the extents of zones with much garbage are copied to other zones and the files
  switched over to the copies.

  One round of the worker thread is a function; the pause between rounds and the two flags that
  steer it are not part of the state.  A result \<open>None\<close> means that the call does not return, divides
  by zero, or reads the first link name of a file that has none.  \<open>posix_memalign\<close> is taken to
  succeed; logging and metrics are not modelled.
\<close>

subsection \<open>Snapshots\<close>

record ZoneExtentSnapshot =
  xs_start :: u64
  xs_length :: u64
  xs_zone_start :: u64
  xs_filename :: bytes

definition new_ZoneExtentSnapshot :: "'b zbd \<Rightarrow> bytes \<Rightarrow> ZoneExtent \<Rightarrow> ZoneExtentSnapshot" where
  "new_ZoneExtentSnapshot s fname e = \<lparr> xs_start = ex_start e, xs_length = ex_length e,
     xs_zone_start = start (io_zones s ! ex_zone e), xs_filename = fname \<rparr>"

record ZoneFileSnapshot =
  fsn_file_id :: u64
  fsn_filename :: bytes
  fsn_extents :: "ZoneExtentSnapshot list"

definition new_ZoneFileSnapshot :: "'b zbd \<Rightarrow> zfile \<Rightarrow> ZoneFileSnapshot option" where
  "new_ZoneFileSnapshot s f =
     map_option (\<lambda>n. \<lparr> fsn_file_id = file_id f, fsn_filename = n,
       fsn_extents = map (new_ZoneExtentSnapshot s n) (extents f) \<rparr>) (GetFilename f)"

record AquaFSSnapshotOptions =
  so_zbd :: bool
  so_zone :: bool
  so_zone_file :: bool

record AquaFSSnapshot =
  sn_zbd :: ZBDSnapshot
  sn_zones :: "ZoneSnapshot list"
  sn_zone_files :: "ZoneFileSnapshot list"
  sn_extents :: "ZoneExtentSnapshot list"

text \<open>The files that are not open for writing; their write lock is held while they are copied and
  given back, so that no file changes.\<close>

fun snapshot_files :: "'b zbd \<Rightarrow> zfile list \<Rightarrow> (ZoneFileSnapshot list \<times> ZoneExtentSnapshot list) option" where
  "snapshot_files s [] = Some ([], [])"
| "snapshot_files s (f # fs) =
     (if \<not> fst (TryAcquireWRLock f) then snapshot_files s fs
      else do { fsn \<leftarrow> new_ZoneFileSnapshot s f;
                (files, exts) \<leftarrow> snapshot_files s fs;
                Some (fsn # files, fsn_extents fsn @ exts) })"

definition GetAquaFSSnapshot ::
  "AquaFSSnapshotOptions \<Rightarrow> 'x aquafs \<Rightarrow> 'b zbd \<Rightarrow> AquaFSSnapshot option" where
  "GetAquaFSSnapshot opts fs s =
     do { (files, exts) \<leftarrow> (if so_zone_file opts then snapshot_files s (map (\<lambda>e. fs_objs fs (snd e)) (fs_files fs))
                             else Some ([], []));
          Some \<lparr> sn_zbd = (if so_zbd opts then new_ZBDSnapshot s
                           else \<lparr> free_space = 0, used_space = 0, reclaimable_space = 0 \<rparr>),
            sn_zones = (if so_zone opts then GetZoneSnapshot s else []),
            sn_zone_files = files, sn_extents = exts \<rparr> }"

subsection \<open>Copying an extent\<close>

text \<open>The loop of \<open>MigrateData\<close>: at most 128 KiB are read at a time, up to the next block boundary,
  and what was read is appended to zone \<open>i\<close>.  The code does not look at the result of an append; the
  model hands the ignored statuses out in a second result, which no caller uses.\<close>

function migrate_loop ::
  "'b backend \<Rightarrow> u32 \<Rightarrow> u64 \<Rightarrow> u32 \<Rightarrow> nat \<Rightarrow> 'b zbd \<Rightarrow> (status \<times> status list \<times> 'b zbd) option" where
  "migrate_loop be block_sz offset len i s =
     (if len = 0 then Some (OK, [], s)
      else
        let read_sz = (if len > 131072 then 131072 else len); pad_sz = pad_size block_sz read_sz in
        do { (r, buf, b) \<leftarrow> zbd_Read be offset (to_int32 (uint (read_sz + pad_sz))) True (zbd_be s);
             let s = s\<lparr> zbd_be := b \<rparr>;
             if r < 0 then Some (IOError (be_strerror be (be_errno be b)) [], [], s)
             else do { (ignored, s) \<leftarrow> io_Append be i (take (nat r) buf) s;
                       (st, more, s) \<leftarrow> migrate_loop be block_sz (offset + word_of_int r) (len - read_sz) i s;
                       Some (st, ignored # more, s) } })"
  by pat_completeness auto

termination
proof (relation "measure (\<lambda>(be, block_sz, offset, len, i, s). unat len)", goal_cases)
  case (2 be block_sz offset len i s read_sz pad_sz r p buf b s1 q s2)
  then have "unat (len - read_sz) < unat len"
    by (auto simp: unat_sub_no_wrap word_less_nat_alt unat_eq_0 unat_gt_0)
  then show ?case by simp
qed simp

definition MigrateData ::
  "'b backend \<Rightarrow> u64 \<Rightarrow> u32 \<Rightarrow> nat \<Rightarrow> 'b zbd \<Rightarrow> (status \<times> status list \<times> 'b zbd) option" where
  "MigrateData be offset len i s =
     (let block_sz = GetBlockSize be s in
      if block_sz = 0 then None
      else if offset mod ucast block_sz \<noteq> 0
      then Some (IOError (str ''MigrateData offset is not aligned!'' @ [10]) [], [], s)
      else migrate_loop be block_sz offset len i s)"

subsection \<open>Migrating a file\<close>

definition to_migrate :: "ZoneExtentSnapshot list \<Rightarrow> ZoneExtent \<Rightarrow> bool" where
  "to_migrate migrate_exts e = (\<exists>x\<in>set migrate_exts. xs_start x = ex_start e \<and> xs_length x = ex_length e)"

text \<open>The loop over the copy of the extent list.  The status of \<open>MigrateData\<close> is not
  looked at either; it is handed out with the statuses ignored there.\<close>

fun migrate_extents ::
  "'b backend \<Rightarrow> bytes \<Rightarrow> zfile \<Rightarrow> ZoneExtentSnapshot list \<Rightarrow> 'x aquafs \<Rightarrow> ZoneExtent list \<Rightarrow> 'b zbd
     \<Rightarrow> (ZoneExtent list \<times> status list \<times> 'b zbd) option" where
  "migrate_extents be fname f mig fs [] s = Some ([], [], s)"
| "migrate_extents be fname f mig fs (e # es) s =
     (if \<not> to_migrate mig e
      then map_option (\<lambda>(es, ignored, s). (e # es, ignored, s)) (migrate_extents be fname f mig fs es s)
      else do {
        (st, zn, s) \<leftarrow> TakeMigrateZone be (zf_lifetime f) (ucast (ex_length e)) s;
        if \<not> ok st
        then map_option (\<lambda>(es, ignored, s). (e # es, ignored, s)) (migrate_extents be fname f mig fs es s)
        else case zn of
          None \<Rightarrow> map_option (\<lambda>(es, ignored, s). (e # es, ignored, s))
                    (migrate_extents be fname f mig fs es (snd (ReleaseMigrateZone be None s)))
        | Some i \<Rightarrow>
            let hdr = (if is_sparse f then of_nat SPARSE_HEADER_SIZE else 0);
                target_start = wp (io_zones s ! i) + hdr in
            do { (st, lost, s) \<leftarrow> MigrateData be (ex_start e - hdr) (ucast (ex_length e + hdr)) i s;
                 let s = AddGCBytesWritten (ex_length e + hdr) s;
                 if GetFileNoLock fname fs = None
                 then Some (e # es, st # lost, snd (ReleaseMigrateZone be (Some i) s))
                 else
                   let s = add_used i (ex_length e) s in
                   map_option (\<lambda>(es, ignored, s).
                       (\<lparr> ex_start = target_start, ex_length = ex_length e, ex_zone = i \<rparr> # es, st # lost @ ignored, s))
                     (migrate_extents be fname f mig fs es (snd (ReleaseMigrateZone be (Some i) s))) } })"

definition MigrateFileExtents ::
  "'b backend \<Rightarrow> bytes \<Rightarrow> ZoneExtentSnapshot list \<Rightarrow> ('b, 'x, status) fsop" where
  "MigrateFileExtents be fname mig fs s =
     (case GetFileNoLock fname fs of
        None \<Rightarrow> Some (OK, fs, s)
      | Some a \<Rightarrow>
          let (acq, f) = TryAcquireWRLock (fs_objs fs a) in
          if \<not> acq then Some (OK, fs, s)
          else
            let fs = set_obj a f fs in
            do { (new_extents, ignored, s) \<leftarrow> migrate_extents be fname f mig fs (extents f) s;
                 (st, fs, s) \<leftarrow> SyncFileExtents be a new_extents fs s;
                 Some (OK, set_obj a (ReleaseWRLock (fs_objs fs a)) fs, s) })"

subsection \<open>Migrating a list of extents\<close>

definition group_extents :: "ZoneExtentSnapshot list \<Rightarrow> (bytes \<times> ZoneExtentSnapshot list) list" where
  "group_extents exts =
     fold (\<lambda>x m. if ends_with (xs_filename x) (str ''.sst'')
                 then let (v, m) = map_index (xs_filename x) [] m in map_assign (xs_filename x) (v @ [x]) m
                 else m) exts []"

fun migrate_files :: "'b backend \<Rightarrow> (bytes \<times> ZoneExtentSnapshot list) list \<Rightarrow> ('b, 'x, status) fsop" where
  "migrate_files be [] fs s = Some (OK, fs, s)"
| "migrate_files be ((fname, mig) # rest) fs s =
     do { (st, fs, s) \<leftarrow> MigrateFileExtents be fname mig fs s;
          if \<not> ok st then Some (st, fs, s)
          else
            let (st, s) = ResetUnusedIOZones be s in
            if \<not> ok st then Some (st, fs, s) else migrate_files be rest fs s }"

definition MigrateExtents :: "'b backend \<Rightarrow> ZoneExtentSnapshot list \<Rightarrow> ('b, 'x, status) fsop" where
  "MigrateExtents be exts = migrate_files be (group_extents exts)"

subsection \<open>The worker\<close>

text \<open>The starts of the full zones whose share of garbage is above the threshold.\<close>

fun garbage_zones :: "u64 \<Rightarrow> ZoneSnapshot list \<Rightarrow> u64 list option" where
  "garbage_zones threshold [] = Some []"
| "garbage_zones threshold (z # zs) =
     (if zsn_capacity z \<noteq> 0 then garbage_zones threshold zs
      else if zsn_max_capacity z = 0 then None
      else
        let garbage = 100 - 100 * zsn_used_capacity z div zsn_max_capacity z in
        map_option (\<lambda>rest. if garbage > threshold \<and> garbage < 100 then zsn_start z # rest else rest)
          (garbage_zones threshold zs))"

text \<open>One round of \<open>GCWorker\<close>; \<open>gc_start_level\<close> and \<open>gc_slope\<close> are command line flags.\<close>

definition gc_round :: "'b backend \<Rightarrow> u64 \<Rightarrow> u64 \<Rightarrow> ('b, 'x, unit) fsop" where
  "gc_round be gc_start_level gc_slope fs s =
     (let non_free = GetUsedSpace s + GetReclaimableSpace s; free = GetFreeSpace s in
      if free + non_free = 0 then None
      else
        let free_percent = (100 * free) div (free + non_free) in
        if free_percent > gc_start_level then Some ((), fs, s)
        else do {
          snapshot \<leftarrow> GetAquaFSSnapshot \<lparr> so_zbd = False, so_zone = True, so_zone_file = True \<rparr> fs s;
          migrate_zones_start \<leftarrow> garbage_zones (100 - gc_slope * (gc_start_level - free_percent)) (sn_zones snapshot);
          let migrate_exts = filter (\<lambda>x. xs_zone_start x \<in> set migrate_zones_start) (sn_extents snapshot);
          if migrate_exts \<noteq> [] then
            do { (st, fs, s) \<leftarrow> MigrateExtents be migrate_exts fs s; Some ((), fs, s) }
          else Some ((), fs, s) })"

subsection \<open>Copying moves the bytes\<close>

context zoned_device
begin

lemma wrote_append:
  assumes okz: "zbd_ok s" and w1: "wrote i d1 s s1" and w2: "wrote i d2 s1 s2"
  shows "wrote i (d1 @ d2) s s2"
proof -
  let ?z = "io_zones s ! i"
  have i: "i < length (io_zones s)" and io1: "io_zones s1 = (io_zones s)[i := advance (length d1) ?z]"
    and fit1: "length d1 \<le> unat (capacity ?z)"
    using w1 by (simp_all add: wrote_def)
  have room: "unat (wp ?z) + unat (capacity ?z) < 2 ^ 64" by (rule zone_ok_room [OF zbd_ok_zone [OF okz i]])
  have z1: "io_zones s1 ! i = advance (length d1) ?z" using i io1 by simp
  note adv = unat_advance [OF fit1 room]
  have wp1: "unat (wp (io_zones s1 ! i)) = unat (wp ?z) + length d1" by (simp add: z1 adv del: advance_simps)
  have "length d2 \<le> unat (capacity ?z) - length d1"
    using w2 z1 adv(2) by (simp add: wrote_def del: advance_simps)
  then have fit2: "length d1 + length d2 \<le> unat (capacity ?z)" using fit1 by linarith
  have io2: "io_zones s2 = (io_zones s)[i := advance (length d1 + length d2) ?z]"
    using w2 io1 z1 by (simp add: wrote_def advance_advance del: advance_simps)
  have c1: "cont (zbd_be s1) (unat (wp ?z) + k) = d1 ! k" if "k < length d1" for k
    using w1 that by (simp add: wrote_def)
  have f1: "cont (zbd_be s1) a = cont (zbd_be s) a" if "a < unat (wp ?z) \<or> unat (wp ?z) + length d1 \<le> a" for a
    using w1 that unfolding wrote_def by blast
  have c2: "cont (zbd_be s2) (unat (wp ?z) + length d1 + k) = d2 ! k" if "k < length d2" for k
    using w2 that wp1 by (simp add: wrote_def)
  have f2: "cont (zbd_be s2) a = cont (zbd_be s1) a"
    if "a < unat (wp ?z) + length d1 \<or> unat (wp ?z) + length d1 + length d2 \<le> a" for a
    using w2 that wp1 unfolding wrote_def by auto
  have "cont (zbd_be s2) (unat (wp ?z) + k) = (d1 @ d2) ! k" if k: "k < length (d1 @ d2)" for k
  proof (cases "k < length d1")
    case True
    then show ?thesis using c1 f2 by (simp add: nth_append)
  next
    case False
    then show ?thesis using c2 [of "k - length d1"] k by (simp add: nth_append)
  qed
  moreover have "cont (zbd_be s2) a = cont (zbd_be s) a"
    if "a < unat (wp ?z) \<or> unat (wp ?z) + length (d1 @ d2) \<le> a" for a
    using that f1 [of a] f2 [of a] by auto
  ultimately show ?thesis
    using w1 w2 fit2 io2 by (simp add: wrote_def)
qed

end

text \<open>A zoned device without read errors.\<close>

locale gc_device = zoned_device be cont inv + reading_device be cont inv
  for be :: "'b backend" and cont and inv
begin

lemma zbd_ok_backend:
  assumes "zbd_ok s" "inv b" "be_zone_sz be b = be_zone_sz be (zbd_be s)"
  shows "zbd_ok (s\<lparr> zbd_be := b \<rparr>)"
  using assms by (simp add: zbd_ok_def)

lemma read_loop_geometry:
  assumes "zbd_read_loop be' offset left direct ret buf b = Some r" "be' = be"
  shows "be_zone_sz be (snd (snd r)) = be_zone_sz be b \<and> be_block_sz be (snd (snd r)) = be_block_sz be b"
proof -
  let ?P = "\<lambda>be' offset left direct ret buf b r. be' = be \<longrightarrow> be_zone_sz be (snd (snd r)) = be_zone_sz be b
    \<and> be_block_sz be (snd (snd r)) = be_block_sz be b"
  have "?P be' offset left direct ret buf b r"
  proof (rule zbd_read_loop.raw_induct [where P = ?P, OF _ assms(1)], intro impI, goal_cases)
    case (1 loop be' offset left direct ret buf b r)
    obtain n d b' where rd: "be_Read be left offset direct b = ((n, d), b')" by (metis prod.exhaust)
    have geo: "be_zone_sz be b' = be_zone_sz be b" "be_block_sz be b' = be_block_sz be b"
      using geometry(3,4) [of left offset direct b] rd by simp_all
    show ?case
      using 1(2) rd geo 1(3) 1(1) [of be _ _ _ _ _ b' r] by (auto split: if_splits)
  qed
  then show ?thesis using assms(2) by blast
qed

text \<open>One aligned read of the copy loop.\<close>

lemma zbd_Read_aligned:
  assumes okz: "zbd_ok s" and n: "0 < n" "n < 2 ^ 30" "unat offset + n < 2 ^ 64"
  shows "\<exists>b. zbd_Read be offset (int n) direct (zbd_be s)
      = Some (int n, map (\<lambda>k. cont (zbd_be s) (unat offset + k)) [0..<n], b)
    \<and> zbd_ok (s\<lparr> zbd_be := b \<rparr>) \<and> cont b = cont (zbd_be s)
    \<and> be_zone_sz be b = be_zone_sz be (zbd_be s) \<and> be_block_sz be b = be_block_sz be (zbd_be s)"
proof -
  have inv: "inv (zbd_be s)" using okz by (simp add: zbd_ok_def)
  obtain buf b where rd: "zbd_read_loop be offset (int n) direct 0 [] (zbd_be s) = Some (int n, buf, b)"
    using zbd_read_loop_full [OF inv, of "int n" offset direct 0 "[]"] n(2) by auto
  have d: "inv b" "cont b = cont (zbd_be s)" "buf = map (\<lambda>k. cont (zbd_be s) (unat offset + k)) [0..<n]"
    using read_loop_data [of offset "int n" direct 0 "[]" "zbd_be s" "int n" buf b offset] rd inv n by auto
  have g: "be_zone_sz be b = be_zone_sz be (zbd_be s)" "be_block_sz be b = be_block_sz be (zbd_be s)"
    using read_loop_geometry [OF rd refl] by simp_all
  show ?thesis
    using rd d g n(1) zbd_ok_backend [OF okz d(1) g(1)] by (auto simp: zbd_Read_def)
qed

lemma wrote_backend:
  assumes "wrote i data (s\<lparr> zbd_be := b \<rparr>) s1" "cont b = cont (zbd_be s)"
    "be_zone_sz be b = be_zone_sz be (zbd_be s)" "be_block_sz be b = be_block_sz be (zbd_be s)"
  shows "wrote i data s s1"
  using assms by (simp add: wrote_def)

lemma wrote_Nil: "zbd_ok s \<Longrightarrow> i < length (io_zones s) \<Longrightarrow> wrote i [] s s"
  by (simp add: wrote_def)

text \<open>The sizes of one round of the copy loop.\<close>

lemma migrate_sizes:
  fixes len blk :: u32
  assumes "len \<noteq> 0" "blk \<noteq> 0" "unat blk dvd 131072"
  defines "n \<equiv> if len > 131072 then 131072 else len"
  defines "pad \<equiv> pad_size blk n"
  shows "0 < unat n" "unat n \<le> unat len" "unat (n + pad) = unat n + unat pad" "unat n + unat pad < 2 ^ 30"
    "unat pad < 131072 \<or> unat pad = 0" "len - n \<noteq> 0 \<Longrightarrow> unat n = 131072 \<and> unat pad = 0"
    "to_int32 (uint (n + pad)) = int (unat n + unat pad)"
proof -
  have b: "unat blk \<le> 131072" using assms(3) by (simp add: dvd_imp_le)
  have pad: "unat pad < unat blk" unfolding pad_def by (rule pad_size_less [OF assms(2)])
  have n: "unat n \<le> 131072" by (auto simp: n_def word_less_nat_alt not_less)
  show "0 < unat n" using assms(1) by (auto simp: n_def unat_gt_0)
  show "unat n \<le> unat len" by (auto simp: n_def word_less_nat_alt)
  show sum: "unat (n + pad) = unat n + unat pad" using n pad b by (intro unat_add_no_wrap) simp
  show lt: "unat n + unat pad < 2 ^ 30" using n pad b by simp
  show "unat pad < 131072 \<or> unat pad = 0" using pad b by simp
  show "to_int32 (uint (n + pad)) = int (unat n + unat pad)"
    using to_int32_unat [of "n + pad"] sum lt by simp
  assume "len - n \<noteq> 0"
  then have "len > 131072" by (auto simp: n_def split: if_splits)
  then have "n = 131072" by (simp add: n_def)
  moreover have "(131072 :: u32) mod blk = 0"
  proof -
    have "unat ((131072 :: u32) mod blk) = 131072 mod unat blk" by (simp add: unat_mod)
    then show ?thesis using assms(3) by (simp add: dvd_eq_mod_eq_0 unat_eq_0)
  qed
  ultimately show "unat n = 131072 \<and> unat pad = 0" by (simp add: pad_def pad_size_def)
qed

lemma migrate_loop_wrote:
  assumes "migrate_loop be blk offset len i s = Some (st, lost, s')" "\<forall>x\<in>set lost. ok x"
    and "zbd_ok s" "i < length (io_zones s)" and blk: "blk \<noteq> 0" "unat blk dvd 131072"
    and "unat offset + unat len + 131072 < 2 ^ 64"
    and "\<And>a. unat offset \<le> a \<Longrightarrow> a < unat offset + unat len
      \<Longrightarrow> a < unat (wp (io_zones s ! i)) \<or> unat (wp (io_zones s ! i)) + unat (capacity (io_zones s ! i)) \<le> a"
  shows "ok st \<longrightarrow> (\<exists>data. wrote i data s s' \<and> unat len \<le> length data
    \<and> take (unat len) data = map (\<lambda>k. cont (zbd_be s) (unat offset + k)) [0..<unat len])"
  using assms(1-4,7,8)
proof (induction "unat len" arbitrary: offset len s lost rule: less_induct)
  case less
  show ?case
  proof (cases "len = 0")
    case True
    then show ?thesis using less.prems wrote_Nil by auto
  next
    case False
    define n where "n = (if len > 131072 then 131072 else len)"
    define pad where "pad = pad_size blk n"
    define N where "N = unat n + unat pad"
    note sz = migrate_sizes [OF False blk, folded n_def, folded pad_def, folded N_def]
    have lt: "unat offset + N < 2 ^ 64" using sz(2,5) less.prems(5) by (auto simp: N_def)
    let ?d1 = "map (\<lambda>k. cont (zbd_be s) (unat offset + k)) [0..<N]"
    obtain b where rd: "zbd_Read be offset (int N) True (zbd_be s) = Some (int N, ?d1, b)"
      and b: "zbd_ok (s\<lparr> zbd_be := b \<rparr>)" "cont b = cont (zbd_be s)" "be_zone_sz be b = be_zone_sz be (zbd_be s)"
        "be_block_sz be b = be_block_sz be (zbd_be s)"
      using zbd_Read_aligned [OF less.prems(3), of N offset True] sz(1,4) lt by (auto simp: N_def)
    have unf: "migrate_loop be blk offset len i s =
        do { (ignored, s) \<leftarrow> io_Append be i ?d1 (s\<lparr> zbd_be := b \<rparr>);
             (st, more, s) \<leftarrow> migrate_loop be blk (offset + of_nat N) (len - n) i s;
             Some (st, ignored # more, s) }"
      using False rd by (subst migrate_loop.simps) (simp add: n_def [symmetric] pad_def [symmetric] sz(7))
    obtain st1 s1 more where ap: "io_Append be i ?d1 (s\<lparr> zbd_be := b \<rparr>) = Some (st1, s1)"
      and rest: "migrate_loop be blk (offset + of_nat N) (len - n) i s1 = Some (st, more, s')"
      and lost: "lost = st1 # more"
      using less.prems(1) unfolding unf by (auto simp: bind_eq_Some_conv)
    have st1: "ok st1" using less.prems(2) lost by simp
    have "length ?d1 < 2 ^ 32" using sz(4) by (simp add: N_def)
    from io_Append_wrote [OF b(1) _ this ap st1] have w1: "wrote i ?d1 s s1"
      using less.prems(4) b wrote_backend by simp
    then have ok1: "zbd_ok s1" and len1: "length (io_zones s1) = length (io_zones s)"
      and z1: "io_zones s1 ! i = advance N (io_zones s ! i)" and fit: "N \<le> unat (capacity (io_zones s ! i))"
      using less.prems(4) by (simp_all add: wrote_def)
    have room: "unat (wp (io_zones s ! i)) + unat (capacity (io_zones s ! i)) < 2 ^ 64"
      by (rule zone_ok_room [OF zbd_ok_zone [OF less.prems(3,4)]])
    note adv = unat_advance [OF fit room]
    have off: "unat (offset + of_nat N) = unat offset + N"
      using lt by (simp add: unat_add_no_wrap unat_of_nat_small)
    have left: "unat (len - n) = unat len - unat n" using sz(2) by (simp add: unat_sub_no_wrap)
    show ?thesis
    proof (cases "len - n = 0")
      case True
      then have "s' = s1" "st = OK" using rest by simp_all
      moreover have "unat len = unat n" using True by simp
      ultimately show ?thesis
        using w1 by (intro impI exI [of _ ?d1]) (simp add: N_def take_map min.absorb1)
    next
      case more: False
      have N: "N = 131072" "unat n = N" using sz(6) [OF more] by (simp_all add: N_def)
      have src: "a < unat (wp (io_zones s1 ! i)) \<or> unat (wp (io_zones s1 ! i)) + unat (capacity (io_zones s1 ! i)) \<le> a"
        and same: "cont (zbd_be s1) a = cont (zbd_be s) a"
        if a: "unat (offset + of_nat N) \<le> a" "a < unat (offset + of_nat N) + unat (len - n)" for a
      proof -
        have *: "a < unat (wp (io_zones s ! i)) \<or> unat (wp (io_zones s ! i)) + unat (capacity (io_zones s ! i)) \<le> a"
          using less.prems(6) [of a] a off left N(2) sz(2) by simp
        then show "a < unat (wp (io_zones s1 ! i)) \<or> unat (wp (io_zones s1 ! i)) + unat (capacity (io_zones s1 ! i)) \<le> a"
          unfolding z1 adv using fit by linarith
        have "a < unat (wp (io_zones s ! i)) \<or> unat (wp (io_zones s ! i)) + length ?d1 \<le> a" using * fit by auto
        then show "cont (zbd_be s1) a = cont (zbd_be s) a" using w1 unfolding wrote_def by blast
      qed
      have dec: "unat (len - n) < unat len" using left sz(1,2) by simp
      have bound: "unat (offset + of_nat N) + unat (len - n) + 131072 < 2 ^ 64"
        using off left N(2) sz(2) less.prems(5) by simp
      have lost': "\<forall>x\<in>set more. ok x" using less.prems(2) lost by simp
      show ?thesis
      proof
        assume "ok st"
        then obtain d2 where w2: "wrote i d2 s1 s'" and d2: "unat (len - n) \<le> length d2"
          "take (unat (len - n)) d2 = map (\<lambda>k. cont (zbd_be s1) (unat (offset + of_nat N) + k)) [0..<unat (len - n)]"
          using less.hyps [OF dec rest lost' ok1 _ bound src] less.prems(4) len1 by auto
        have "take (unat len) (?d1 @ d2) = ?d1 @ take (unat (len - n)) d2"
          using left N(2) sz(2) by simp
        also have "take (unat (len - n)) d2 = map (\<lambda>k. cont (zbd_be s) (unat offset + (N + k))) [0..<unat (len - n)]"
          unfolding d2(2) using same off by (simp add: add.assoc)
        also have "?d1 @ map (\<lambda>k. cont (zbd_be s) (unat offset + (N + k))) [0..<unat (len - n)]
            = map (\<lambda>k. cont (zbd_be s) (unat offset + k)) [0..<N + unat (len - n)]"
          by (intro nth_equalityI) (auto simp: nth_append)
        finally have "take (unat len) (?d1 @ d2) = map (\<lambda>k. cont (zbd_be s) (unat offset + k)) [0..<unat len]"
          using left N(2) sz(2) by simp
        moreover have "unat len \<le> length (?d1 @ d2)" using d2(1) left N(2) by simp
        ultimately show "\<exists>data. wrote i data s s' \<and> unat len \<le> length data
            \<and> take (unat len) data = map (\<lambda>k. cont (zbd_be s) (unat offset + k)) [0..<unat len]"
          using wrote_append [OF less.prems(3) w1 w2] by blast
      qed
    qed
  qed
qed

end

subsection \<open>Migrating the extents of a file\<close>

context zoned_device
begin

text \<open>What migration keeps: the geometry, and the data of every extent in the written part of a zone.\<close>

definition kept :: "'a zbd \<Rightarrow> 'a zbd \<Rightarrow> bool" where
  "kept s s' = (zbd_ok s' \<and> be_zone_sz be (zbd_be s') = be_zone_sz be (zbd_be s)
     \<and> be_block_sz be (zbd_be s') = be_block_sz be (zbd_be s)
     \<and> map start (io_zones s') = map start (io_zones s) \<and> meta_zones s' = meta_zones s
     \<and> (\<forall>xs. extents_below xs (io_zones s) \<longrightarrow> extents_below xs (io_zones s')
         \<and> extents_data (cont (zbd_be s')) xs = extents_data (cont (zbd_be s)) xs))"

lemma kept_trans: "kept s s1 \<Longrightarrow> kept s1 s2 \<Longrightarrow> kept s s2"
  by (simp add: kept_def)

lemma kept_refl: "zbd_ok s \<Longrightarrow> kept s s"
  by (simp add: kept_def)

lemma kept_grown: "grown s s' \<Longrightarrow> kept s s'"
  using grown_extents [of s s'] by (auto simp: kept_def grown_def)

lemma kept_wrote: "zbd_ok s \<Longrightarrow> wrote i data s s' \<Longrightarrow> kept s s'"
  using wrote_extents [of s i data s'] wrote_zone(2) [of s i data s'] by (auto simp: kept_def wrote_def)

lemma kept_ok: "kept s s' \<Longrightarrow> zbd_ok s' \<and> length (io_zones s') = length (io_zones s)"
  by (auto simp: kept_def dest: map_eq_imp_length_eq)

lemma kept_extents:
  "kept s s' \<Longrightarrow> extents_below xs (io_zones s) \<Longrightarrow> extents_below xs (io_zones s')"
  "kept s s' \<Longrightarrow> extents_below xs (io_zones s) \<Longrightarrow> extents_data (cont (zbd_be s')) xs = extents_data (cont (zbd_be s)) xs"
  by (simp_all add: kept_def)

lemma grown_cong:
  "grown s t \<Longrightarrow> zbd_be t' = zbd_be t \<Longrightarrow> io_zones t' = io_zones t \<Longrightarrow> meta_zones t' = meta_zones t \<Longrightarrow> grown s t'"
  by (auto simp: grown_def zbd_ok_def)

lemma grown_add_used:
  assumes "zbd_ok s" "i < length (io_zones s)"
  shows "grown s (add_used i n s)"
proof -
  let ?z = "(io_zones s ! i)\<lparr> used_capacity := used_capacity (io_zones s ! i) + n \<rparr>"
  have "zone_ok (be_zone_sz be (zbd_be s)) ?z" using zbd_ok_zone [OF assms] by (simp add: zone_ok_def)
  then show ?thesis
    using grown_update [OF grown_refl [OF assms(1)] assms(2), of ?z "zbd_be s"] assms(1)
    by (simp add: add_used_def set_io_def zbd_ok_def)
qed

lemma TakeMigrateZone_grown:
  assumes run: "TakeMigrateZone be lt mc s = Some (st, zn, s1)" and okz: "zbd_ok s"
  shows "grown s s1" "ok st" "\<And>i. zn = Some i \<Longrightarrow> i < length (io_zones s1)"
proof -
  let ?s = "s\<lparr> migrating := True \<rparr>"
  obtain bd a where g: "GetBestOpenZoneMatch be lt mc ?s = (OK, bd, a, ?s\<lparr> io_zones := hold a (io_zones ?s) \<rparr>)"
    and f: "foldl (best_step lt mc (io_zones ?s)) (LIFETIME_DIFF_NOT_GOOD, None) [0..<length (io_zones ?s)] = (bd, a)"
    and fr: "free_at (io_zones ?s) a" by (rule GetBestOpenZoneMatch_result)
  have r: "st = OK" "zn = a" "s1 = (if a \<noteq> None then ?s\<lparr> io_zones := hold a (io_zones s) \<rparr>
      else s\<lparr> migrating := False, io_zones := hold a (io_zones s) \<rparr>)"
    using run g by (auto simp: TakeMigrateZone_def split: if_splits)
  then show "ok st" by simp
  have "grown s (s\<lparr> io_zones := hold a (io_zones s) \<rparr>)"
    by (rule grow.P_hold [OF grown_refl [OF okz]]) (use fr in simp)
  then show "grown s s1" by (rule grown_cong) (simp_all add: r(3))
  fix i
  assume "zn = Some i"
  then show "i < length (io_zones s1)" using best_fold_spec [OF f] r by (auto simp: hold_def)
qed

lemma ReleaseMigrateZone_grown:
  assumes "zbd_ok s" "\<And>i. zn = Some i \<Longrightarrow> i < length (io_zones s)"
  shows "grown s (snd (ReleaseMigrateZone be zn s))"
proof (cases zn)
  case None
  then show ?thesis using grown_cong [OF grown_refl [OF assms(1)]] by (simp add: ReleaseMigrateZone_def)
next
  case (Some i)
  have "grown s (s\<lparr> io_zones := (io_zones s)[i := (io_zones s ! i)\<lparr> busy := x \<rparr>] \<rparr>)" for x
    by (rule grow.P_busy [OF grown_refl [OF assms(1)] assms(2) [OF Some]])
  note b = grown_cong [OF grown_refl [OF assms(1)]] grown_cong [OF this [of False]]
  show ?thesis
    using Some by (cases "busy (io_zones s ! i)")
      (auto simp: ReleaseMigrateZone_def io_CheckRelease_def CheckRelease_def Release_def set_io_def Let_def intro: b)
qed

end

context gc_device
begin

text \<open>An extent that is copied whole: the copy holds its bytes and lies in the written part of the
  target zone.\<close>

lemma MigrateData_extent:
  assumes run: "MigrateData be (ex_start e) (ucast (ex_length e)) i s = Some (st, lost, s')" "ok st" "\<forall>x\<in>set lost. ok x"
    and okz: "zbd_ok s" and i: "i < length (io_zones s)" and below: "extents_below [e] (io_zones s)"
    and small: "unat (ex_length e) < 2 ^ 32" and blk: "unat (GetBlockSize be s) dvd 131072"
    and bound: "\<forall>z\<in>set (io_zones s). unat (start z) + unat (be_zone_sz be (zbd_be s)) + 131072 < 2 ^ 64"
  defines "e' \<equiv> \<lparr> ex_start = wp (io_zones s ! i), ex_length = ex_length e, ex_zone = i \<rparr>"
  shows "kept s s'" "extents_below [e'] (io_zones s')"
    "extent_bytes (cont (zbd_be s')) e' = extent_bytes (cont (zbd_be s)) e"
proof -
  let ?j = "ex_zone e" and ?zs = "unat (be_zone_sz be (zbd_be s))"
  have j: "?j < length (io_zones s)" "unat (start (io_zones s ! ?j)) \<le> unat (ex_start e)"
    "unat (ex_start e) + unat (ex_length e) \<le> unat (wp (io_zones s ! ?j))"
    using below by (simp_all add: extents_below_def)
  have zj: "zone_ok (be_zone_sz be (zbd_be s)) (io_zones s ! ?j)" and zi: "zone_ok (be_zone_sz be (zbd_be s)) (io_zones s ! i)"
    using zbd_ok_zone [OF okz] j(1) i by simp_all
  have len: "unat (ucast (ex_length e) :: u32) = unat (ex_length e)"
    using small by (simp add: unsigned_ucast_eq take_bit_nat_eq_self)
  have l: "migrate_loop be (GetBlockSize be s) (ex_start e) (ucast (ex_length e)) i s = Some (st, lost, s')"
    and b0: "GetBlockSize be s \<noteq> 0"
    using run(1,2) by (auto simp: MigrateData_def Let_def ok_def IOError_def split: if_splits)
  have "unat (start (io_zones s ! ?j)) + ?zs + 131072 < 2 ^ 64" using bound j(1) by simp
  then have far: "unat (ex_start e) + unat (ucast (ex_length e) :: u32) + 131072 < 2 ^ 64"
    using j zj len by (simp add: zone_ok_def)
  have src: "a < unat (wp (io_zones s ! i)) \<or> unat (wp (io_zones s ! i)) + unat (capacity (io_zones s ! i)) \<le> a"
    if a: "unat (ex_start e) \<le> a" "a < unat (ex_start e) + unat (ucast (ex_length e) :: u32)" for a
  proof (cases "?j = i")
    case True
    then show ?thesis using a j(3) len by auto
  next
    case False
    have "unat (wp (io_zones s ! i)) + unat (capacity (io_zones s ! i)) \<le> unat (start (io_zones s ! i)) + ?zs"
      "unat (start (io_zones s ! i)) \<le> unat (wp (io_zones s ! i))"
      "unat (wp (io_zones s ! ?j)) \<le> unat (start (io_zones s ! ?j)) + ?zs"
      using zi zj by (auto simp: zone_ok_def)
    then show ?thesis using zbd_ok_disjoint [OF okz j(1) i False] a j len by linarith
  qed
  obtain data where w: "wrote i data s s'" and d: "unat (ex_length e) \<le> length data"
    "take (unat (ex_length e)) data = map (\<lambda>k. cont (zbd_be s) (unat (ex_start e) + k)) [0..<unat (ex_length e)]"
    using migrate_loop_wrote [OF l run(3) okz i b0 blk far src] run(2) len by auto
  show "kept s s'" by (rule kept_wrote [OF okz w])
  have wp': "unat (wp (io_zones s' ! i)) = unat (wp (io_zones s ! i)) + length data"
    by (rule wrote_zone(1) [OF okz w])
  have z': "length (io_zones s') = length (io_zones s)" "start (io_zones s' ! i) = start (io_zones s ! i)"
    using w i by (simp_all add: wrote_def)
  show "extents_below [e'] (io_zones s')"
    using i z' wp' zi d(1) by (simp add: extents_below_def e'_def zone_ok_def)
  have "cont (zbd_be s') (unat (wp (io_zones s ! i)) + k) = data ! k" if "k < unat (ex_length e)" for k
    using w d(1) that by (simp add: wrote_def)
  then have "extent_bytes (cont (zbd_be s')) e' = take (unat (ex_length e)) data"
    using d(1) by (intro nth_equalityI) (simp_all add: extent_bytes_def e'_def)
  then show "extent_bytes (cont (zbd_be s')) e' = extent_bytes (cont (zbd_be s)) e"
    using d(2) by (simp add: extent_bytes_def)
qed

text \<open>What the migration needs of the device.\<close>

definition gc_ok :: "'b zbd \<Rightarrow> bool" where
  "gc_ok s = (zbd_ok s \<and> unat (be_block_sz be (zbd_be s)) dvd 131072
     \<and> (\<forall>z\<in>set (io_zones s). unat (start z) + unat (be_zone_sz be (zbd_be s)) + 131072 < 2 ^ 64))"

lemma gc_ok_kept: "gc_ok s \<Longrightarrow> kept s s' \<Longrightarrow> gc_ok s'"
proof -
  assume g: "gc_ok s" and k: "kept s s'"
  have "start ` set (io_zones s') = start ` set (io_zones s)"
    using k by (metis kept_def list.set_map)
  then have "start z \<in> start ` set (io_zones s)" if "z \<in> set (io_zones s')" for z using that by blast
  then show "gc_ok s'" using g k by (fastforce simp: gc_ok_def kept_def)
qed

text \<open>The result of migrating a list of extents.\<close>

definition migrated :: "ZoneExtent list \<Rightarrow> 'b zbd \<Rightarrow> ZoneExtent list \<Rightarrow> 'b zbd \<Rightarrow> bool" where
  "migrated es s news s' = (kept s s' \<and> extents_below news (io_zones s')
     \<and> extents_data (cont (zbd_be s')) news = extents_data (cont (zbd_be s)) es
     \<and> map ex_length news = map ex_length es)"

lemma extents_below_Cons: "extents_below (e # es) zs = (extents_below [e] zs \<and> extents_below es zs)"
  by (simp add: extents_below_def)

lemma migrated_Cons:
  assumes k: "kept s s1" and e': "extents_below [e'] (io_zones s1)"
    "extent_bytes (cont (zbd_be s1)) e' = extent_bytes (cont (zbd_be s)) e" "ex_length e' = ex_length e"
    and m: "migrated es s1 news s'" and below: "extents_below es (io_zones s)"
  shows "migrated (e # es) s (e' # news) s'"
proof -
  have k1: "kept s1 s'" using m by (simp add: migrated_def)
  have "extents_data (cont (zbd_be s')) [e'] = extents_data (cont (zbd_be s1)) [e']"
    by (rule kept_extents(2) [OF k1 e'(1)])
  then have "extent_bytes (cont (zbd_be s')) e' = extent_bytes (cont (zbd_be s)) e" using e'(2) by simp
  moreover have "extents_data (cont (zbd_be s')) news = extents_data (cont (zbd_be s)) es"
    using m kept_extents(2) [OF k below] by (simp add: migrated_def)
  ultimately show ?thesis
    using kept_trans [OF k k1] kept_extents(1) [OF k1 e'(1)] m e'(3) extents_below_Cons [of e' news "io_zones s'"]
    by (simp add: migrated_def)
qed

lemma migrated_refl: "zbd_ok s \<Longrightarrow> extents_below es (io_zones s) \<Longrightarrow> kept s s' \<Longrightarrow> migrated es s es s'"
  by (simp add: migrated_def kept_extents)

lemma migrate_extents_data:
  assumes "migrate_extents be fname f mig fs es s = Some (news, lost, s')" "\<forall>x\<in>set lost. ok x"
    "gc_ok s" "extents_below es (io_zones s)" "\<not> is_sparse f" "\<forall>e\<in>set es. unat (ex_length e) < 2 ^ 32"
  shows "migrated es s news s'"
  using assms
proof (induction es arbitrary: s news lost)
  case Nil
  then show ?case by (simp add: migrated_def kept_refl gc_ok_def)
next
  case (Cons e es)
  have okz: "zbd_ok s" using Cons.prems(3) by (simp add: gc_ok_def)
  have be: "extents_below [e] (io_zones s)" "extents_below es (io_zones s)"
    using Cons.prems(4) extents_below_Cons [of e es "io_zones s"] by simp_all
  have small: "\<forall>e\<in>set es. unat (ex_length e) < 2 ^ 32" "unat (ex_length e) < 2 ^ 32" using Cons.prems(6) by simp_all
  have keep: "migrated (e # es) s news s'"
    if "kept s s1" "migrate_extents be fname f mig fs es s1 = Some (news1, lost, s')" "news = e # news1" for s1 news1
  proof -
    have "migrated es s1 news1 s'"
      by (rule Cons.IH [OF that(2) Cons.prems(2) gc_ok_kept [OF Cons.prems(3) that(1)] kept_extents(1) [OF that(1) be(2)]
            Cons.prems(5) small(1)])
    moreover have "extent_bytes (cont (zbd_be s1)) e = extent_bytes (cont (zbd_be s)) e"
      using kept_extents(2) [OF that(1) be(1)] by simp
    ultimately show ?thesis
      using migrated_Cons [OF that(1) kept_extents(1) [OF that(1) be(1)] _ refl _ be(2)] that(3) by simp
  qed
  show ?case
  proof (cases "to_migrate mig e")
    case False
    then show ?thesis using Cons.prems(1) keep [OF kept_refl [OF okz]] by auto
  next
    case True
    obtain st zn s1 where tk: "TakeMigrateZone be (zf_lifetime f) (ucast (ex_length e)) s = Some (st, zn, s1)"
      using Cons.prems(1) True by (auto simp: bind_eq_Some_conv)
    note t = TakeMigrateZone_grown [OF tk okz]
    have k1: "kept s s1" and ok1: "zbd_ok s1" using kept_grown [OF t(1)] by (simp_all add: kept_def)
    show ?thesis
    proof (cases zn)
      case None
      have "kept s (snd (ReleaseMigrateZone be None s1))"
        using kept_trans [OF k1 kept_grown [OF ReleaseMigrateZone_grown [OF ok1, of None]]] by simp
      from keep [OF this] show ?thesis using Cons.prems(1) True tk t(2) None by auto
    next
      case (Some i)
      let ?e' = "\<lparr> ex_start = wp (io_zones s1 ! i), ex_length = ex_length e, ex_zone = i \<rparr>"
      obtain st2 lost2 s2 where md: "MigrateData be (ex_start e) (ucast (ex_length e)) i s1 = Some (st2, lost2, s2)"
        using Cons.prems(1,5) True tk t(2) Some by (auto simp: bind_eq_Some_conv Let_def)
      let ?s3 = "AddGCBytesWritten (ex_length e) s2"
      have unf: "migrate_extents be fname f mig fs (e # es) s =
          (if GetFileNoLock fname fs = None then Some (e # es, st2 # lost2, snd (ReleaseMigrateZone be (Some i) ?s3))
           else map_option (\<lambda>(es, ignored, s). (?e' # es, st2 # lost2 @ ignored, s))
             (migrate_extents be fname f mig fs es
               (snd (ReleaseMigrateZone be (Some i) (add_used i (ex_length e) ?s3)))))"
        using True tk t(2) Some md Cons.prems(5) by (auto simp: Let_def)
      have "st2 \<in> set lost \<and> set lost2 \<subseteq> set lost"
        using Cons.prems(1) unfolding unf by (auto split: if_splits)
      then have st2: "ok st2" and lost2: "\<forall>x\<in>set lost2. ok x" using Cons.prems(2) by auto
      have g1: "gc_ok s1" by (rule gc_ok_kept [OF Cons.prems(3) k1])
      have e1: "extent_bytes (cont (zbd_be s1)) e = extent_bytes (cont (zbd_be s)) e"
        using kept_extents(2) [OF k1 be(1)] by simp
      have blk: "unat (GetBlockSize be s1) dvd 131072" using g1 by (simp add: gc_ok_def GetBlockSize_def)
      have far: "\<forall>z\<in>set (io_zones s1). unat (start z) + unat (be_zone_sz be (zbd_be s1)) + 131072 < 2 ^ 64"
        using g1 unfolding gc_ok_def by blast
      note m = MigrateData_extent [OF md st2 lost2 ok1 t(3) [OF Some] kept_extents(1) [OF k1 be(1)] small(2) blk far]
      have k2: "kept s s2" by (rule kept_trans [OF k1 m(1)])
      have ok2: "zbd_ok s2" and i2: "i < length (io_zones s2)" using kept_ok [OF m(1)] t(3) [OF Some] by simp_all
      have g3: "grown s2 ?s3"
        by (rule grown_cong [OF grown_refl [OF ok2]]) (simp_all add: AddGCBytesWritten_def)
      then have ok3: "zbd_ok ?s3" "i < length (io_zones ?s3)" using i2 by (simp_all add: grown_def AddGCBytesWritten_def)
      note rel = ReleaseMigrateZone_grown [of _ "Some i"]
      show ?thesis
      proof (cases "GetFileNoLock fname fs = None")
        case gone: True
        then have r: "news = e # es" "s' = snd (ReleaseMigrateZone be (Some i) ?s3)"
          using Cons.prems(1) unfolding unf by simp_all
        have "grown s2 s'" unfolding r(2) using grown_trans [OF g3 rel] ok3 by simp
        then show ?thesis
          using migrated_refl [OF okz Cons.prems(4) kept_trans [OF k2 kept_grown]] r(1) by simp
      next
        case False
        let ?s4 = "add_used i (ex_length e) ?s3" and ?s5 = "snd (ReleaseMigrateZone be (Some i) (add_used i (ex_length e) ?s3))"
        obtain news1 ignored where rest: "migrate_extents be fname f mig fs es ?s5 = Some (news1, ignored, s')"
          and r: "news = ?e' # news1" "lost = st2 # lost2 @ ignored"
          using Cons.prems(1) False unfolding unf by auto
        have g4: "grown ?s3 ?s4" by (rule grown_add_used [OF ok3])
        have "i < length (io_zones ?s4)" using ok3(2) by (simp add: add_used_def set_io_def)
        then have "grown ?s4 ?s5" using rel [of ?s4] g4 by (simp add: grown_def)
        then have k25: "kept s2 ?s5" using kept_grown [OF grown_trans [OF g3 grown_trans [OF g4]]] by simp
        have k5: "kept s ?s5" by (rule kept_trans [OF k2 k25])
        have ig: "\<forall>x\<in>set ignored. ok x" using Cons.prems(2) r(2) by simp
        have "extents_data (cont (zbd_be ?s5)) [?e'] = extents_data (cont (zbd_be s2)) [?e']"
          by (rule kept_extents(2) [OF k25 m(2)])
        then have e': "extent_bytes (cont (zbd_be ?s5)) ?e' = extent_bytes (cont (zbd_be s)) e" using m(3) e1 by simp
        have "migrated es ?s5 news1 s'"
          by (rule Cons.IH [OF rest ig gc_ok_kept [OF Cons.prems(3) k5] kept_extents(1) [OF k5 be(2)] Cons.prems(5) small(1)])
        from migrated_Cons [OF k5 kept_extents(1) [OF k25 m(2)] e' _ this be(2)] show ?thesis using r(1) by simp
      qed
    qed
  qed
qed

lemma drop_changed_grown:
  assumes "zbd_ok s" "\<forall>e\<in>set olds. ex_zone e < length (io_zones s)"
  shows "grown s (drop_changed olds news s)"
  using assms
proof (induction olds arbitrary: news s)
  case Nil
  then show ?case by (simp add: drop_changed_def grown_refl)
next
  case (Cons x olds)
  show ?case
  proof (cases news)
    case Nil
    then show ?thesis using Cons.prems(1) by (simp add: drop_changed_def grown_refl)
  next
    case news: (Cons y ys)
    let ?s1 = "if ex_start x \<noteq> ex_start y then add_used (ex_zone x) (- ex_length x) s else s"
    have g: "grown s ?s1" using Cons.prems grown_add_used grown_refl by simp
    have "length (io_zones ?s1) = length (io_zones s)" by (simp add: add_used_def set_io_def)
    then have "grown ?s1 (drop_changed olds ys ?s1)"
      using Cons.IH [of ?s1 ys] Cons.prems(2) g by (simp add: grown_def)
    moreover have "drop_changed (x # olds) news s = drop_changed olds ys ?s1"
      by (simp add: drop_changed_def news)
    ultimately show ?thesis using grown_trans [OF g] by simp
  qed
qed

lemma meta_only_extents:
  assumes m: "meta_only s s'" and okz: "zbd_ok s" and below: "extents_below xs (io_zones s)"
  shows "extents_below xs (io_zones s')" "extents_data (cont (zbd_be s')) xs = extents_data (cont (zbd_be s)) xs"
proof -
  show "extents_below xs (io_zones s')" using m below by (simp add: meta_only_def)
  show "extents_data (cont (zbd_be s')) xs = extents_data (cont (zbd_be s)) xs"
  proof (rule extents_data_cong [OF okz below])
    fix j a
    assume j: "j < length (io_zones s)" and a: "unat (start (io_zones s ! j)) \<le> a" "a < unat (wp (io_zones s ! j))"
    have "unat (wp (io_zones s ! j)) \<le> unat (start (io_zones s ! j)) + unat (be_zone_sz be (zbd_be s))"
      using zbd_ok_zone [OF okz j] by (simp add: zone_ok_def)
    with m j a show "cont (zbd_be s') a = cont (zbd_be s) a" by (simp add: meta_only_def)
  qed
qed

text \<open>The data of the extents in the written parts of the zones, after some steps.\<close>

definition data_kept :: "'b zbd \<Rightarrow> 'b zbd \<Rightarrow> bool" where
  "data_kept s s' = (\<forall>xs. extents_below xs (io_zones s) \<longrightarrow> extents_below xs (io_zones s')
     \<and> extents_data (cont (zbd_be s')) xs = extents_data (cont (zbd_be s)) xs)"

lemma SyncFileExtents_data:
  assumes run: "SyncFileExtents be a news fs s = Some (st, fs', s')"
    and ok: "zbd_ok s" "writer_ok fs s" and idx: "\<forall>e\<in>set (extents (fs_objs fs a)). ex_zone e < length (io_zones s)"
  shows "data_kept s s'" "extents (fs_objs fs' a) = news" "\<And>b. b \<noteq> a \<Longrightarrow> extents (fs_objs fs' b) = extents (fs_objs fs b)"
proof -
  let ?fs = "set_obj a (MetadataUnsynced (ReplaceExtentList news (fs_objs fs a))) fs"
  obtain s1 where p: "SyncFileMetadataNoLock be a True ?fs s = Some (st, fs', s1)"
    and s': "s' = (if ok st then drop_changed (extents (fs_objs fs a)) news s1 else s1)"
    using run by (auto simp: SyncFileExtents_def bind_eq_Some_conv)
  have m: "meta_only s s1"
    using SyncFileMetadata_only [OF p ok(1)] ok(2) by (simp add: writer_ok_def set_obj_def)
  have "\<forall>e\<in>set (extents (fs_objs fs a)). ex_zone e < length (io_zones s1)" using m idx by (simp add: meta_only_def)
  then have "grown s1 s'"
    using s' m drop_changed_grown grown_refl by (simp add: meta_only_def)
  then show "data_kept s s'"
    using meta_only_extents [OF m ok(1)] grown_extents [of s1 s'] by (simp add: data_kept_def)
  have "but_synced (fs_objs fs' b) = but_synced (fs_objs ?fs b)" for b
    using resynced_SyncFileMetadata [OF p] by (simp add: resynced_def)
  note b = but_synced_fields(1) [OF this]
  show "extents (fs_objs fs' a) = news"
    using b [of a] by (simp add: set_obj_def MetadataUnsynced_def ReplaceExtentList_def)
  show "extents (fs_objs fs' b) = extents (fs_objs fs b)" if "b \<noteq> a" for b
    using b [of b] that by (simp add: set_obj_def)
qed

lemma MigrateFileExtents_data:
  assumes run: "MigrateFileExtents be fname mig fs s = Some (st, fs', s')"
    and a: "GetFileNoLock fname fs = Some a" "\<not> open_for_wr (fs_objs fs a)" "\<not> is_sparse (fs_objs fs a)"
    and ok: "gc_ok s" "writer_ok fs s"
    and fil: "extents_below (extents (fs_objs fs a)) (io_zones s)" "\<forall>e\<in>set (extents (fs_objs fs a)). unat (ex_length e) < 2 ^ 32"
    and copy: "migrate_extents be fname (snd (TryAcquireWRLock (fs_objs fs a)))
        mig (set_obj a (snd (TryAcquireWRLock (fs_objs fs a))) fs) (extents (fs_objs fs a)) s = Some (news, lost, s1)"
      "\<forall>x\<in>set lost. ok x"
  shows "data_kept s s'" "extents_data (cont (zbd_be s')) (extents (fs_objs fs' a))
      = extents_data (cont (zbd_be s)) (extents (fs_objs fs a))"
    "extents_below (extents (fs_objs fs' a)) (io_zones s')"
    "\<And>b. b \<noteq> a \<Longrightarrow> extents (fs_objs fs' b) = extents (fs_objs fs b)"
proof -
  let ?f = "snd (TryAcquireWRLock (fs_objs fs a))" and ?fs = "set_obj a (snd (TryAcquireWRLock (fs_objs fs a))) fs"
  have f: "\<not> is_sparse ?f" "extents ?f = extents (fs_objs fs a)" "fst (TryAcquireWRLock (fs_objs fs a))"
    using a(2,3) by (simp_all add: TryAcquireWRLock_def)
  have m: "migrated (extents (fs_objs fs a)) s news s1"
    by (rule migrate_extents_data [OF copy ok(1) fil(1) f(1) fil(2)])
  then have k: "kept s s1" by (simp add: migrated_def)
  have ok1: "zbd_ok s1" and len1: "length (io_zones s1) = length (io_zones s)" using kept_ok [OF k] by simp_all
  have w1: "writer_ok ?fs s1"
    using ok(2) k fs_writer.winv_stable [of fs s s1] by (simp add: writer_ok_def kept_def set_obj_def)
  obtain st1 fs2 where sy: "SyncFileExtents be a news ?fs s1 = Some (st1, fs2, s')"
    and fs': "fs' = set_obj a (ReleaseWRLock (fs_objs fs2 a)) fs2"
    using run a(1) f copy(1) by (auto simp: MigrateFileExtents_def split_beta bind_eq_Some_conv)
  have idx: "\<forall>e\<in>set (extents (fs_objs ?fs a)). ex_zone e < length (io_zones s1)"
    using fil(1) f(2) len1 by (simp add: extents_below_def set_obj_def)
  note sx = SyncFileExtents_data [OF sy ok1 w1 idx]
  show "data_kept s s'" using sx(1) k by (simp add: data_kept_def kept_def)
  have e: "extents (fs_objs fs' a) = news" using sx(2) by (simp add: fs' set_obj_def ReleaseWRLock_def)
  show "extents_data (cont (zbd_be s')) (extents (fs_objs fs' a)) = extents_data (cont (zbd_be s)) (extents (fs_objs fs a))"
    "extents_below (extents (fs_objs fs' a)) (io_zones s')"
    using m sx(1) by (simp_all add: e migrated_def data_kept_def)
  show "extents (fs_objs fs' b) = extents (fs_objs fs b)" if "b \<noteq> a" for b
    using sx(3) [OF that] that by (simp add: fs' set_obj_def)
qed

end

subsection \<open>Properties\<close>

text \<open>
  C7: garbage collection does not change the data of a file.  When every copy was written without an
  error, \<open>MigrateFileExtents\<close> leaves the file with extents that hold the same bytes in the written part
  of their zones, the extents of every other file as they were, and the data of all of them unchanged,
  on a device without read errors.
\<close>

theorem migration_keeps_data:
  assumes dev: "gc_device be cont I" "I (zbd_be s)" "\<forall>z\<in>set (io_zones s). zone_ok (GetZoneSize be s) z"
      "\<forall>z\<in>set (meta_zones s). zone_ok (GetZoneSize be s) z \<and> unat (GetZoneSize be s) dvd unat (start z)"
      "disjoint_zones (unat (GetZoneSize be s)) (map start (meta_zones s @ io_zones s))"
    and log: "\<forall>ml. fs_meta_log fs = Some ml \<longrightarrow> ml_zone ml < length (meta_zones s)"
    and geo: "unat (GetBlockSize be s) dvd 131072"
      "\<forall>z\<in>set (io_zones s). unat (start z) + unat (GetZoneSize be s) + 131072 < 2 ^ 64"
    and fil: "GetFileNoLock fname fs = Some a" "\<not> open_for_wr (fs_objs fs a)" "\<not> is_sparse (fs_objs fs a)"
      "extents_below (extents (fs_objs fs a)) (io_zones s)" "\<forall>e\<in>set (extents (fs_objs fs a)). unat (ex_length e) < 2 ^ 32"
    and copy: "migrate_extents be fname (snd (TryAcquireWRLock (fs_objs fs a)))
        mig (set_obj a (snd (TryAcquireWRLock (fs_objs fs a))) fs) (extents (fs_objs fs a)) s = Some (news, lost, s1)"
      "\<forall>x\<in>set lost. ok x"
    and run: "MigrateFileExtents be fname mig fs s = Some (st, fs', s')"
  shows "extents_data (cont (zbd_be s')) (extents (fs_objs fs' a)) = extents_data (cont (zbd_be s)) (extents (fs_objs fs a))
    \<and> extents_below (extents (fs_objs fs' a)) (io_zones s')
    \<and> (\<forall>b. b \<noteq> a \<longrightarrow> extents (fs_objs fs' b) = extents (fs_objs fs b))
    \<and> (\<forall>xs. extents_below xs (io_zones s) \<longrightarrow> extents_data (cont (zbd_be s')) xs = extents_data (cont (zbd_be s)) xs)"
proof -
  note zd = gc_device.axioms(1) [OF dev(1)]
  note ok = fs_device_ok [OF zd dev(2-5) log]
  have "gc_device.gc_ok be I s"
    using ok(1) geo by (simp add: gc_device.gc_ok_def [OF dev(1)] GetBlockSize_def GetZoneSize_def)
  from gc_device.MigrateFileExtents_data [OF dev(1) run fil(1-3) this ok(2) fil(4,5) copy] show ?thesis
    by (simp add: gc_device.data_kept_def [OF dev(1)])
qed

subsection \<open>A concrete migration\<close>

lemma sim_fds:
  "zl_read_f (snd (be_Write demo_be data pos b)) = zl_read_f b" "zl_read_f (snd (be_Read demo_be n pos direct b)) = zl_read_f b"
  "zl_read_f (snd (be_Reset demo_be pos b)) = zl_read_f b" "zl_read_f (snd (be_Finish demo_be pos b)) = zl_read_f b"
  "zl_read_f (snd (be_Close demo_be pos b)) = zl_read_f b"
  "zl_read_direct_f (snd (be_Write demo_be data pos b)) = zl_read_direct_f b"
  "zl_read_direct_f (snd (be_Read demo_be n pos direct b)) = zl_read_direct_f b"
  "zl_read_direct_f (snd (be_Reset demo_be pos b)) = zl_read_direct_f b"
  "zl_read_direct_f (snd (be_Finish demo_be pos b)) = zl_read_direct_f b"
  "zl_read_direct_f (snd (be_Close demo_be pos b)) = zl_read_direct_f b"
  by (simp_all add: sim_ops zbdlib_Write_def)

interpretation sim_gc: gc_device "zbdlib_backend sim_libzbd" "\<lambda>b. sd_mem (zl_dev b)"
  "\<lambda>b. sim_ok b \<and> 0 \<le> zl_read_f b \<and> 0 \<le> zl_read_direct_f b"
proof -
  note laws = sim_zoned.write_inv sim_zoned.write_result sim_zoned.write_frame sim_zoned.write_stored sim_zoned.read_inv
    sim_zoned.read_cont sim_zoned.read_result sim_zoned.read_data sim_zoned.reset_inv sim_zoned.reset_frame
    sim_zoned.reset_capacity sim_zoned.finish_inv sim_zoned.finish_cont sim_zoned.close_inv sim_zoned.close_cont
    sim_zoned.geometry sim_reading.read_positive sim_fds
  show "gc_device demo_be (\<lambda>b. sd_mem (zl_dev b)) (\<lambda>b. sim_ok b \<and> 0 \<le> zl_read_f b \<and> 0 \<le> zl_read_direct_f b)"
    by unfold_locales (use laws in \<open>simp_all\<close>)
qed

text \<open>A metadata zone, a full zone with a file of six bytes, and a zone with room; \<open>cond\<close> is the
  condition of the last one.\<close>

definition demo_gc :: "zone_cond \<Rightarrow> simdev zbdlib zbd" where
  "demo_gc cond = (new_ZonedBlockDevice (demo_dev\<lparr> zl_zone_sz := 512, zl_nr_zones := 3,
       zl_dev := \<lparr> sd_zones = [sim_zone 512 512 0, (sim_zone 512 512 1)\<lparr> z_wp := 1024, z_cond := COND_FULL \<rparr>,
           (sim_zone 512 512 2)\<lparr> z_wp := 1028, z_cond := cond \<rparr>],
         sd_mem = (\<lambda>a. of_nat (a div 4)), sd_block = 4, sd_zone_size = 512 \<rparr> \<rparr>))
     \<lparr> meta_zones := [\<lparr> busy = True, start = 0, capacity = 512, max_capacity = 512, wp = 0, lifetime = 0, used_capacity = 0 \<rparr>],
       io_zones := [\<lparr> busy = False, start = 512, capacity = 0, max_capacity = 512, wp = 1024, lifetime = 0, used_capacity = 6 \<rparr>,
         \<lparr> busy = False, start = 1024, capacity = 508, max_capacity = 512, wp = 1028, lifetime = 0, used_capacity = 4 \<rparr>] \<rparr>"

definition demo_sst :: zfile where
  "demo_sst = (AddLinkName (str ''/a.sst'') (new_ZoneFile 1))
     \<lparr> extents := [\<lparr> ex_start = 516, ex_length = 6, ex_zone = 0 \<rparr>], file_size := 6 \<rparr>"

definition demo_gc_fs :: "unit aquafs" where
  "demo_gc_fs = (new_AquaFS () 5)\<lparr> fs_files := [(str ''/a.sst'', 0)], fs_objs := (\<lambda>_. demo_sst), fs_next_obj := 1,
     next_file_id := 2, fs_meta_log := Some \<lparr> read_pos = 0, ml_zone = 0, ml_bs = 4 \<rparr> \<rparr>"

definition demo_mig :: "ZoneExtentSnapshot list" where
  "demo_mig = [\<lparr> xs_start = 516, xs_length = 6, xs_zone_start = 512, xs_filename = str ''/a.sst'' \<rparr>]"

abbreviation demo_copy :: "zone_cond \<Rightarrow> (ZoneExtent list \<times> status list \<times> simdev zbdlib zbd) option" where
  "demo_copy cond \<equiv> migrate_extents demo_be (str ''/a.sst'') (snd (TryAcquireWRLock demo_sst)) demo_mig
     (set_obj 0 (snd (TryAcquireWRLock demo_sst)) demo_gc_fs) (extents demo_sst) (demo_gc cond)"

lemma demo_copy_run:
  "map_option (\<lambda>(news, lost, s). (news, map ok lost, meta_zones s ! 0, sd_zones (zl_dev (zbd_be s)) ! 0,
     length (sd_zones (zl_dev (zbd_be s))), sd_zone_size (zl_dev (zbd_be s)), zl_write_f (zbd_be s)))
     (demo_copy COND_IMP_OPEN) = Some ([\<lparr> ex_start = 1028, ex_length = 6, ex_zone = 1 \<rparr>], [True, True],
       \<lparr> busy = True, start = 0, capacity = 512, max_capacity = 512, wp = 0, lifetime = 0, used_capacity = 0 \<rparr>,
       sim_zone 512 512 0, 3, 512, 3)"
  by code_simp


text \<open>The record of the new extents fits the metadata zone.\<close>

lemma demo_gc_add:
  assumes "meta_zones s ! 0 = \<lparr> busy = True, start = 0, capacity = 512, max_capacity = 512, wp = 0, lifetime = 0, used_capacity = 0 \<rparr>"
    "sd_zones (zl_dev (zbd_be s)) ! 0 = sim_zone 512 512 0" "length (sd_zones (zl_dev (zbd_be s))) = 3"
    "sd_zone_size (zl_dev (zbd_be s)) = 512" "zl_write_f (zbd_be s) = 3" and len: "length r \<le> 500"
  shows "\<exists>s'. AddRecord demo_be \<lparr> read_pos = 0, ml_zone = 0, ml_bs = 4 \<rparr> r s = Some (OK, s')"
proof -
  have fit: "record_fits 4 r" using len by (simp add: record_fits_def)
  have "length (record_buffer 4 r) = blocks_up 4 (8 + length r)" using length_record_buffer [OF fit] by simp
  then have le: "length (record_buffer 4 r) \<le> 512" "record_buffer 4 r \<noteq> []"
    using len blocks_up_props(1,2) [of 4 "8 + length r"] by auto
  obtain b where "be_Write demo_be (record_buffer 4 r) (wp (meta_zones s ! 0)) (zbd_be s) = (int (length (record_buffer 4 r)), b)"
    using assms le(1) by (simp add: zbdlib_backend_def zbdlib_Write_def sim_libzbd_def sim_pwrite_def sim_can_write_def
        sim_idx_def sim_zone_def Let_def to_int32_id)
  from Append_one_write [OF this] le assms(1) show ?thesis
    by (auto simp: AddRecord_def meta_Append_def)
qed

lemma demo_gc_run:
  assumes "demo_copy COND_IMP_OPEN = Some (news, lost, s1)"
  shows "\<exists>st fs s. MigrateFileExtents demo_be (str ''/a.sst'') demo_mig demo_gc_fs (demo_gc COND_IMP_OPEN) = Some (st, fs, s)"
proof -
  have r: "news = [\<lparr> ex_start = 1028, ex_length = 6, ex_zone = 1 \<rparr>]"
    "meta_zones s1 ! 0 = \<lparr> busy = True, start = 0, capacity = 512, max_capacity = 512, wp = 0, lifetime = 0, used_capacity = 0 \<rparr>"
    "sd_zones (zl_dev (zbd_be s1)) ! 0 = sim_zone 512 512 0" "length (sd_zones (zl_dev (zbd_be s1))) = 3"
    "sd_zone_size (zl_dev (zbd_be s1)) = 512" "zl_write_f (zbd_be s1) = 3"
    using demo_copy_run assms by simp_all
  let ?f = "MetadataUnsynced (ReplaceExtentList news (snd (TryAcquireWRLock demo_sst)))"
  have "length (file_record True (MetadataUnsynced (ReplaceExtentList [\<lparr> ex_start = 1028, ex_length = 6, ex_zone = 1 \<rparr>]
      (snd (TryAcquireWRLock demo_sst))))) \<le> 500" by code_simp
  then have len: "length (file_record True ?f) \<le> 500" by (simp add: r(1))
  from demo_gc_add [OF r(2-6) len] obtain s2
    where "AddRecord demo_be \<lparr> read_pos = 0, ml_zone = 0, ml_bs = 4 \<rparr> (file_record True ?f) s1 = Some (OK, s2)" by blast
  moreover have "\<not> is_deleted ?f" by (simp add: MetadataUnsynced_def ReplaceExtentList_def TryAcquireWRLock_def
      demo_sst_def AddLinkName_def new_ZoneFile_def)
  moreover have "fs_meta_log demo_gc_fs = Some \<lparr> read_pos = 0, ml_zone = 0, ml_bs = 4 \<rparr>" by (simp add: demo_gc_fs_def)
  ultimately obtain st fs s where sy: "SyncFileExtents demo_be 0 news
      (set_obj 0 (snd (TryAcquireWRLock demo_sst)) demo_gc_fs) s1 = Some (st, fs, s)"
    by (auto simp: SyncFileExtents_def SyncFileMetadataNoLock_def PersistRecord_def set_obj_def status_eq_def OK_def NoSpace_def
        Let_def)
  have "GetFileNoLock (str ''/a.sst'') demo_gc_fs = Some 0" by code_simp
  moreover have "fs_objs demo_gc_fs 0 = demo_sst" by (simp add: demo_gc_fs_def)
  moreover have "fst (TryAcquireWRLock demo_sst)" "extents (snd (TryAcquireWRLock demo_sst)) = extents demo_sst"
    by (simp_all add: TryAcquireWRLock_def demo_sst_def AddLinkName_def new_ZoneFile_def)
  ultimately show ?thesis
    using assms sy by (simp add: MigrateFileExtents_def split_beta)
qed

theorem migration_keeps_data_witness:
  "\<exists>st fs s. MigrateFileExtents demo_be (str ''/a.sst'') demo_mig demo_gc_fs (demo_gc COND_IMP_OPEN) = Some (st, fs, s)
    \<and> extents_data (sd_mem (zl_dev (zbd_be s))) (extents (fs_objs fs 0)) = [129, 129, 129, 129, 130, 130]"
proof -
  let ?s = "demo_gc COND_IMP_OPEN"
  obtain news lost s1 where c: "demo_copy COND_IMP_OPEN = Some (news, lost, s1)" "map ok lost = [True, True]"
    using demo_copy_run by (auto simp: map_option_case split: option.splits)
  obtain st fs s where run: "MigrateFileExtents demo_be (str ''/a.sst'') demo_mig demo_gc_fs ?s = Some (st, fs, s)"
    using demo_gc_run [OF c(1)] by blast
  have lost: "\<forall>x\<in>set lost. ok x" using c(2) by auto
  have obj: "fs_objs demo_gc_fs 0 = demo_sst" "\<forall>ml. fs_meta_log demo_gc_fs = Some ml \<longrightarrow> ml_zone ml < length (meta_zones ?s)"
    "GetFileNoLock (str ''/a.sst'') demo_gc_fs = Some 0"
    by (simp add: demo_gc_fs_def, simp add: demo_gc_fs_def demo_gc_def, code_simp)
  have dev: "sim_ok (zbd_be ?s) \<and> 0 \<le> zl_read_f (zbd_be ?s) \<and> 0 \<le> zl_read_direct_f (zbd_be ?s)"
    "\<forall>z\<in>set (io_zones ?s). zone_ok (GetZoneSize demo_be ?s) z"
    "\<forall>z\<in>set (meta_zones ?s). zone_ok (GetZoneSize demo_be ?s) z \<and> unat (GetZoneSize demo_be ?s) dvd unat (start z)"
    "disjoint_zones (unat (GetZoneSize demo_be ?s)) (map start (meta_zones ?s @ io_zones ?s))"
    "unat (GetBlockSize demo_be ?s) dvd 131072"
    "\<forall>z\<in>set (io_zones ?s). unat (start z) + unat (GetZoneSize demo_be ?s) + 131072 < 2 ^ 64"
    by (simp_all add: demo_gc_def new_ZonedBlockDevice_def demo_dev_def sim_ok_def sim_zone_def zone_ok_def GetZoneSize_def
        GetBlockSize_def zbdlib_backend_def disjoint_zones_Cons disjoint_zones_Nil)
  have fil: "\<not> open_for_wr demo_sst" "\<not> is_sparse demo_sst" "extents_below (extents demo_sst) (io_zones ?s)"
    "\<forall>e\<in>set (extents demo_sst). unat (ex_length e) < 2 ^ 32"
    by (simp_all add: demo_sst_def AddLinkName_def new_ZoneFile_def extents_below_def demo_gc_def)
  have "extents_data (sd_mem (zl_dev (zbd_be ?s))) (extents demo_sst) = [129, 129, 129, 129, 130, 130]" by code_simp
  then show ?thesis
    using migration_keeps_data [OF sim_gc.gc_device_axioms dev(1-4) obj(2) dev(5,6) obj(3), unfolded obj(1),
        OF fil c(1) lost run] run by auto
qed

end
