(* ===== verification/SparseFiles.thy ===== *)
theory SparseFiles
  imports GarbageCollection
begin

text \<open>
  Sparse files (\<open>ZoneFile::SparseAppend\<close>, \<open>RecoverSparseExtents\<close> and \<open>Recover\<close> of
  \<open>fs/io_aquafs.cc\<close>), the format of write-ahead logs: every write puts a header with its length in
  front of the data, so that what was written after the last metadata update is found again after a
  crash by walking the headers up to the zone's write pointer.

  The first part shows that a sparse append adds exactly the given bytes to the file, the second
  that recovery from the last version of the file the metadata writer has acknowledged restores the
  extents and the size of the file.
\<close>

subsection \<open>Zones of whole blocks\<close>

text \<open>The capacity left in every zone is a whole number of blocks, and an empty zone has some.\<close>

definition caps_ok :: "u32 \<Rightarrow> 'b zbd \<Rightarrow> bool" where
  "caps_ok blk s = (\<forall>z\<in>set (io_zones s). unat blk dvd unat (capacity z) \<and> (IsEmpty z \<longrightarrow> capacity z \<noteq> 0))"

lemma caps_ok_update:
  assumes "caps_ok blk s" "unat blk dvd unat (capacity z)" "IsEmpty z \<Longrightarrow> capacity z \<noteq> 0"
    "io_zones s' = (io_zones s)[i := z]"
  shows "caps_ok blk s'"
  using assms by (auto simp: caps_ok_def dest!: set_update_subset_insert [THEN subsetD])

lemma caps_ok_zone: "caps_ok blk s \<Longrightarrow> i < length (io_zones s) \<Longrightarrow> unat blk dvd unat (capacity (io_zones s ! i))
    \<and> (IsEmpty (io_zones s ! i) \<longrightarrow> capacity (io_zones s ! i) \<noteq> 0)"
  by (simp add: caps_ok_def)

lemma caps_ok_flag:
  assumes "caps_ok blk s" "i < length (io_zones s)" "io_zones s' = (io_zones s)[i := z]"
    "wp z = wp (io_zones s ! i)" "start z = start (io_zones s ! i)" "capacity z = capacity (io_zones s ! i)"
  shows "caps_ok blk s'"
  by (rule caps_ok_update [OF assms(1) _ _ assms(3)]) (use caps_ok_zone [OF assms(1,2)] assms(4-) in \<open>simp_all add: IsEmpty_def\<close>)

lemma caps_ok_cong: "io_zones s' = io_zones s \<Longrightarrow> caps_ok blk s' = caps_ok blk s"
  by (simp add: caps_ok_def)

lemma caps_ok_add_used [simp]: "i < length (io_zones s) \<Longrightarrow> caps_ok blk (add_used i n s) = caps_ok blk s"
  using nth_add_used [of i s n]
  by (auto simp: caps_ok_def all_set_conv_all_nth IsEmpty_def)

sublocale zoned_device \<subseteq> whole: zbd_preserved be "\<lambda>s. grown s0 s \<and> caps_ok blk s" for s0 blk
proof (unfold_locales, goal_cases)
  case (1 s i x)
  have "caps_ok blk (s\<lparr> io_zones := (io_zones s)[i := (io_zones s ! i)\<lparr> busy := x \<rparr>] \<rparr>)"
    by (rule caps_ok_flag [OF conjunct2 [OF 1(1)] 1(2), where z = "(io_zones s ! i)\<lparr> busy := x \<rparr>"]) simp_all
  with 1 grow.P_busy [of s0 s i x] show ?case by simp
next
  case (2 s i lt)
  have "caps_ok blk (s\<lparr> io_zones := (io_zones s)[i := (io_zones s ! i)\<lparr> lifetime := lt \<rparr>] \<rparr>)"
    by (rule caps_ok_flag [OF conjunct2 [OF 2(1)] 2(2), where z = "(io_zones s ! i)\<lparr> lifetime := lt \<rparr>"]) simp_all
  with 2 grow.P_lifetime [of s0 s i lt] show ?case by simp
next
  case (3 s n)
  with grow.P_open [of s0 s n] show ?case by (simp add: caps_ok_def)
next
  case (4 s n)
  with grow.P_active [of s0 s n] show ?case by (simp add: caps_ok_def)
next
  case (5 s i st z1 b1)
  let ?z = "io_zones s ! i"
  have okz: "zbd_ok s" using 5(1) by (simp add: grown_def)
  have geo: "be_zone_sz be b1 = be_zone_sz be (zbd_be s)"
    using 5(3) geometry(7) [of "start ?z" "zbd_be s"] by (auto simp: Finish_def Let_def split: prod.splits if_splits)
  have zk: "zone_ok (be_zone_sz be (zbd_be s)) ?z" by (rule zbd_ok_zone [OF okz 5(2)])
  note c = caps_ok_zone [OF conjunct2 [OF 5(1)] 5(2)]
  have zs: "be_zone_sz be (zbd_be s) \<noteq> 0"
  proof
    assume "be_zone_sz be (zbd_be s) = 0"
    with zk have "IsEmpty ?z" "capacity ?z = 0"
      by (auto simp: zone_ok_def IsEmpty_def word_unat_eq_iff)
    with c show False by simp
  qed
  have "unat blk dvd unat (capacity z1)" "IsEmpty z1 \<Longrightarrow> capacity z1 \<noteq> 0"
    using 5(3) c zs geo by (auto simp: Finish_def Let_def IsEmpty_def split: prod.splits if_splits)
  then show ?case
    using 5 grow.P_finish [of s0 s i st z1 b1] by (auto intro: caps_ok_update [of blk s z1 _ i])
qed

context zoned_device
begin

text \<open>A zone handed out for writing has room.\<close>

lemma AllocateIOZone_room:
  assumes al: "AllocateIOZone be lt t s = Some (st, Some i, s1)" and okz: "zbd_ok s" and c: "caps_ok blk s"
  shows "grown s s1" "caps_ok blk s1" "i < length (io_zones s1)" "capacity (io_zones s1 ! i) \<noteq> 0"
proof -
  have g: "grown s s1 \<and> caps_ok blk s1"
    by (rule whole.P_AllocateIOZone [OF al]) (use okz c grown_refl in simp)
  then show "grown s s1" "caps_ok blk s1" by simp_all
  obtain s2 z new where h: "handed_out s2 i z s1" "if new then IsEmpty z \<and> lifetime z = lt else IsUsed z \<and> \<not> IsFull z"
    using AllocateIOZone_result [OF al] by (auto simp: alloc_result_def)
  then have i: "i < length (io_zones s1)" "io_zones s1 ! i = z" by (auto simp: handed_out_def)
  then show "i < length (io_zones s1)" by simp
  show "capacity (io_zones s1 ! i) \<noteq> 0"
    using h(2) i caps_ok_zone [OF conjunct2 [OF g] i(1)] by (auto simp: IsFull_def split: if_splits)
qed

lemma CloseActiveZone_caps:
  assumes "CloseActiveZone be f s = (st, f', s')" "caps_ok blk s" "active_ok f (io_zones s)"
  shows "caps_ok blk s'"
proof (cases "active_zone f")
  case None
  then show ?thesis using assms by (simp add: CloseActiveZone_def)
next
  case (Some i)
  then have i: "i < length (io_zones s)" using assms(3) by (simp add: active_ok_def)
  obtain st1 z b where cl: "Close be (io_zones s ! i) (zbd_be s) = (st1, z, b)" by (metis prod_cases3)
  have z: "z = io_zones s ! i" by (rule Close_zone [OF cl])
  have "io_zones s' = (io_zones s)[i := snd (Release (io_zones s ! i))]"
    using assms(1) Some cl z i
    by (auto simp: CloseActiveZone_def io_Close_def ReleaseActiveZone_def Let_def set_io_def
        PutOpenIOZoneToken_def PutActiveIOZoneToken_def split: if_splits)
  then show ?thesis by (rule caps_ok_flag [OF assms(2) i]) (simp_all add: Release_def)
qed

end

subsection \<open>One sparse write\<close>

lemma pad_size_dvd:
  assumes "blk \<noteq> 0"
  shows "unat (pad_size blk wr) = (if unat wr mod unat blk = 0 then 0 else unat blk - unat wr mod unat blk)"
proof -
  have m: "unat (wr mod blk) = unat wr mod unat blk" by (simp add: unat_mod)
  have "unat wr mod unat blk < unat blk" using assms by (simp add: unat_gt_0)
  then have "unat (blk - wr mod blk) = unat blk - unat wr mod unat blk"
    using m by (simp add: unat_sub_no_wrap)
  then show ?thesis using m by (auto simp: pad_size_def Let_def unat_eq_0 [symmetric])
qed

text \<open>The bytes a sparse write of \<open>n\<close> bytes takes: the header, the data and the padding.\<close>

definition sparse_room :: "nat \<Rightarrow> nat \<Rightarrow> nat" where
  "sparse_room blk n = (let k = n + 8 in k div blk * blk + (if k mod blk = 0 then 0 else blk))"

lemma sparse_room_pad:
  "n + 8 + (if (n + 8) mod blk = 0 then 0 else blk - (n + 8) mod blk) = sparse_room blk n" if "0 < blk"
proof -
  have e: "n + 8 = (n + 8) div blk * blk + (n + 8) mod blk" by simp
  have l: "(n + 8) mod blk < blk" using that by simp
  show ?thesis
  proof (cases "(n + 8) mod blk = 0")
    case True
    show ?thesis unfolding sparse_room_def Let_def if_P [OF True] using e True by linarith
  next
    case False
    show ?thesis unfolding sparse_room_def Let_def if_not_P [OF False] using e l by linarith
  qed
qed

lemma sparse_room_bounds: "0 < blk \<Longrightarrow> n + 8 \<le> sparse_room blk n" "blk dvd sparse_room blk n"
  by (subst sparse_room_pad [symmetric], simp_all) (simp add: sparse_room_def Let_def)

context metadata_writer
begin

lemma sparse_block:
  assumes fok: "file_ok f m s" and i: "active_zone f = Some i" and room: "capacity (io_zones s ! i) \<noteq> 0"
    and caps: "caps_ok blk s" and blk: "GetBlockSize be s = blk" "8 < unat blk"
    and left: "left \<noteq> 0" "unat left + 8 + unat blk < 2 ^ 32" "unat left + 8 \<le> length buf"
  defines "wr \<equiv> min_capacity (left + of_nat SPARSE_HEADER_SIZE) (capacity (io_zones s ! i))"
  defines "pad \<equiv> pad_size (GetBlockSize be s) wr"
  defines "len \<equiv> (ucast (wr - of_nat SPARSE_HEADER_SIZE) :: u64)"
  defines "buf2 \<equiv> EncodeFixed64 len @ drop 8 (buf_zero (unat wr) (unat pad) buf)"
  assumes ap: "io_Append be i (take (unat (wr + pad)) buf2) s = Some (st, s1)" "ok st"
    and push: "push_written i (of_nat SPARSE_HEADER_SIZE) len f s1 = (f2, s2)"
  shows "file_ok f2 m s2" "file_data f2 s2 = file_data f s @ take (unat len) (drop 8 buf)"
    "file_size f2 = file_size f + of_nat (unat len)" "active_zone f2 = Some i"
    "GetBlockSize be s2 = blk" "caps_ok blk s2" "len \<noteq> 0" "unat len \<le> unat left" "unat wr = unat len + 8"
    "unat (left - ucast len) = unat left - unat len" "unat len < unat left \<Longrightarrow> pad = 0 \<and> capacity (io_zones s2 ! i) = 0"
    "wrote i (EncodeFixed64 len @ take (unat len) (drop 8 buf) @ replicate (unat pad) 0) s s1"
    "unat len + 8 + unat pad = sparse_room (unat blk) (unat len)" "s2 = add_used i len s1"
proof -
  have h: "unat (of_nat SPARSE_HEADER_SIZE :: u32) = 8" "unat (of_nat SPARSE_HEADER_SIZE :: u64) = 8"
    by (simp_all add: SPARSE_HEADER_SIZE_def)
  have i': "i < length (io_zones s)" using fok i by (auto simp: file_ok_def active_ok_def)
  have "unat blk dvd unat (capacity (io_zones s ! i))" "0 < unat (capacity (io_zones s ! i))"
    using caps_ok_zone [OF caps i'] room by (simp_all add: unat_gt_0)
  then have cap: "8 < unat (capacity (io_zones s ! i))" using blk(2) by (meson dvd_imp_le less_le_trans)
  have "unat (left + of_nat SPARSE_HEADER_SIZE) = unat left + 8"
    unfolding h(1) [symmetric] by (rule unat_add_no_wrap) (use left(2) h(1) in simp)
  then have wr: "unat wr = min (unat left + 8) (unat (capacity (io_zones s ! i)))"
    unfolding wr_def unat_min_capacity by simp
  have l0: "0 < unat left" using left(1) by (simp add: unat_gt_0)
  have len: "unat len = unat wr - 8"
    using wr cap h by (simp add: len_def unat_sub_no_wrap)
  then show lw: "unat wr = unat len + 8" using wr cap by simp
  show "len \<noteq> 0" using len wr cap l0 by (auto simp: unat_eq_0 [symmetric])
  show ll: "unat len \<le> unat left" using len wr by simp
  have blk0: "GetBlockSize be s \<noteq> 0" using blk by auto
  have padv: "unat pad = (if unat wr mod unat blk = 0 then 0 else unat blk - unat wr mod unat blk)"
    unfolding pad_def blk(1) by (rule pad_size_dvd) (use blk0 blk in simp)
  show sr: "unat len + 8 + unat pad = sparse_room (unat blk) (unat len)"
    unfolding padv lw by (rule sparse_room_pad) (use blk(2) in simp)
  have pad: "unat pad < unat blk" unfolding pad_def blk(1) [symmetric] by (rule pad_size_less [OF blk0])
  have sum: "unat (wr + pad) = unat wr + unat pad" using wr pad left by (intro unat_add_no_wrap) simp
  have "unat wr \<le> length buf" using wr left by simp
  then have data: "take (unat (wr + pad)) buf2 = EncodeFixed64 len @ take (unat len) (drop 8 buf) @ replicate (unat pad) 0"
    using lw sum by (simp add: buf2_def buf_zero_def take_drop add.commute)
  let ?d = "EncodeFixed64 len @ take (unat len) (drop 8 buf) @ replicate (unat pad) 0"
  have dl: "length ?d = unat len + 8 + unat pad" using left(3) ll by simp
  have lt: "length ?d < 2 ^ 32" using dl sum lw unat_lt [of "wr + pad"] by simp
  have n: "unat (of_nat SPARSE_HEADER_SIZE :: u64) + unat len \<le> length ?d" using dl h by simp
  note b = write_block [OF fok i lt ap [unfolded data] push n]
  show "file_ok f2 m s2" "active_zone f2 = Some i" "GetBlockSize be s2 = blk"
    using b(1,4,5) blk(1) by (simp_all add: GetBlockSize_def)
  show "file_data f2 s2 = file_data f s @ take (unat len) (drop 8 buf)" using b(2) h left(3) ll by simp
  show "file_size f2 = file_size f + of_nat (unat len)" using b(3) by simp
  show w: "wrote i ?d s s1"
    using io_Append_wrote [OF _ i' lt ap [unfolded data]] fok by (simp add: file_ok_def)
  show s2: "s2 = add_used i len s1" using push by (simp add: push_written_def)
  have "unat len < 2 ^ 32" using ll unat_lt [of left] by simp
  then have "unat (ucast len :: u32) = unat len" by (simp add: unsigned_ucast_eq take_bit_nat_eq_self)
  then show "unat (left - ucast len) = unat left - unat len" using ll by (simp add: unat_sub_no_wrap)
  have bd: "unat blk dvd unat len + 8 + unat pad" unfolding sr by (rule sparse_room_bounds(2))
  have cap2: "unat (capacity (io_zones s2 ! i)) + (unat len + 8 + unat pad) = unat (capacity (io_zones s ! i))"
    using b(6) dl by simp
  have io: "io_zones s1 = (io_zones s)[i := advance (length ?d) (io_zones s ! i)]" using w by (simp add: wrote_def)
  have zo: "zbd_ok s" using fok by (simp add: file_ok_def)
  have "unat blk dvd unat (capacity (io_zones s2 ! i))"
    using cap2 bd caps_ok_zone [OF caps i'] by (metis dvd_add_left_iff)
  moreover have "capacity (io_zones s2 ! i) = capacity (io_zones s1 ! i)" using io i' by (simp add: s2 nth_add_used)
  moreover have "\<not> IsEmpty (io_zones s1 ! i)"
    using wrote_zone(1) [OF zo w] dl zbd_ok_zone [OF zo i'] io i' by (auto simp: IsEmpty_def zone_ok_def)
  ultimately have "caps_ok blk s1" using io i' by (intro caps_ok_update [OF caps _ _ io]) auto
  then show "caps_ok blk s2" using io i' by (simp add: s2)
  assume "unat len < unat left"
  then have "unat wr = unat (capacity (io_zones s ! i))" using wr lw by auto
  then have "unat pad = 0" "unat (capacity (io_zones s2 ! i)) = 0" using cap2 lw by simp_all
  then show "pad = 0 \<and> capacity (io_zones s2 ! i) = 0" by (simp add: unat_eq_0)
qed

end

subsection \<open>The headers on the device\<close>

text \<open>From address \<open>a\<close> to address \<open>b\<close> of zone \<open>zn\<close> there are the sparse writes of the extents \<open>es\<close>, one after
  the other, each with its length in front.\<close>

fun sparse_log :: "(nat \<Rightarrow> byte) \<Rightarrow> nat \<Rightarrow> nat \<Rightarrow> ZoneExtent list \<Rightarrow> nat \<Rightarrow> nat \<Rightarrow> bool" where
  "sparse_log c blk zn [] a b = (a = b)"
| "sparse_log c blk zn (e # es) a b =
     (ex_zone e = zn \<and> unat (ex_start e) = a + 8 \<and> ex_length e \<noteq> 0
      \<and> map (\<lambda>k. c (a + k)) [0..<8] = EncodeFixed64 (ex_length e)
      \<and> sparse_log c blk zn es (a + sparse_room blk (unat (ex_length e))) b)"

lemma sparse_log_le: "sparse_log c blk zn es a b \<Longrightarrow> a \<le> b"
  by (induction es arbitrary: a) (auto dest: le_trans [rotated] intro: le_trans [OF le_add1])

lemma sparse_log_self:
  assumes "sparse_log c blk zn es a a" "0 < blk"
  shows "es = []"
proof (cases es)
  case (Cons e es')
  then have "a + sparse_room blk (unat (ex_length e)) \<le> a" using assms(1) by (auto dest: sparse_log_le)
  then show ?thesis using sparse_room_bounds(1) [OF assms(2), of "unat (ex_length e)"] by simp
qed

lemma sparse_log_append:
  "sparse_log c blk zn (es @ [e]) a b' \<longleftrightarrow> (\<exists>b. sparse_log c blk zn es a b \<and> sparse_log c blk zn [e] b b')"
  by (induction es arbitrary: a) auto

lemma sparse_log_cong:
  assumes "sparse_log c blk zn es a b" "0 < blk" "\<And>x. a \<le> x \<Longrightarrow> x < b \<Longrightarrow> c' x = c x"
  shows "sparse_log c' blk zn es a b"
  using assms(1,3)
proof (induction es arbitrary: a)
  case (Cons e es)
  let ?a = "a + sparse_room blk (unat (ex_length e))"
  have le: "?a \<le> b" using Cons.prems(1) sparse_log_le [of c blk zn es ?a b] by simp
  have "c' (a + k) = c (a + k)" if "k < 8" for k
    using that le sparse_room_bounds(1) [OF assms(2), of "unat (ex_length e)"] by (intro Cons.prems(2)) linarith+
  then have hd: "map (\<lambda>k. c' (a + k)) [0..<8] = map (\<lambda>k. c (a + k)) [0..<8]" by (intro map_cong) simp_all
  have "sparse_log c' blk zn es ?a b"
    using Cons.prems by (intro Cons.IH) auto
  then show ?case using Cons.prems(1) unfolding sparse_log.simps hd by blast
qed simp

lemma length_EncodeFixed64 [simp]: "length (EncodeFixed64 v) = 8"
  by (simp add: EncodeFixed64_def)

context metadata_writer
begin

text \<open>A sparse write adds its record to the log of the zone.\<close>

lemma wrote_sparse_log:
  assumes okz: "zbd_ok s" and i: "i < length (io_zones s)"
    and w: "wrote i (EncodeFixed64 len @ d @ replicate pad 0) s s1" and d: "length d = unat len" "len \<noteq> 0"
    and room: "unat len + 8 + pad = sparse_room blk (unat len)" "0 < blk"
    and log: "sparse_log (cont (zbd_be s)) blk i es a (unat (wp (io_zones s ! i)))"
    and e: "e = \<lparr> ex_start = wp (io_zones s ! i) + of_nat SPARSE_HEADER_SIZE, ex_length = len, ex_zone = i \<rparr>"
  shows "sparse_log (cont (zbd_be s1)) blk i (es @ [e]) a (unat (wp (io_zones s1 ! i)))"
proof -
  let ?w = "unat (wp (io_zones s ! i))" and ?d = "EncodeFixed64 len @ d @ replicate pad 0"
  have l: "length ?d = sparse_room blk (unat len)" using d room by simp
  have st: "\<And>k. k < length ?d \<Longrightarrow> cont (zbd_be s1) (?w + k) = ?d ! k"
    and fr: "\<And>x. x < ?w \<Longrightarrow> cont (zbd_be s1) x = cont (zbd_be s) x"
    and fit: "length ?d \<le> unat (capacity (io_zones s ! i))" using w by (auto simp: wrote_def)
  have "?w + unat (capacity (io_zones s ! i)) < 2 ^ 64" by (rule zone_ok_room [OF zbd_ok_zone [OF okz i]])
  then have "unat (ex_start e) = ?w + 8"
    using fit by (simp add: e SPARSE_HEADER_SIZE_def unat_add_no_wrap)
  moreover have "map (\<lambda>k. cont (zbd_be s1) (?w + k)) [0..<8] = EncodeFixed64 len"
    by (rule nth_equalityI) (use st in \<open>simp_all add: nth_append del: upt_Suc\<close>)
  moreover have "sparse_log (cont (zbd_be s1)) blk i es a ?w"
    by (rule sparse_log_cong [OF log room(2)]) (simp add: fr)
  ultimately show ?thesis
    unfolding sparse_log_append using d(2) l wrote_zone(1) [OF okz w]
    by (auto simp: e intro!: exI [of _ ?w])
qed

end

subsection \<open>Sparse appends\<close>

text \<open>
  \<open>p\<close> is the version of the file that the metadata holds, \<open>f\<close> the file in memory: \<open>f\<close> has further
  extents in its active zone, and their headers lie on the device between the start of the active
  extent that \<open>p\<close> records and the write pointer of the zone.
\<close>

definition recoverable :: "(nat \<Rightarrow> byte) \<Rightarrow> nat \<Rightarrow> u64 \<Rightarrow> zfile \<Rightarrow> zfile \<Rightarrow> zone list \<Rightarrow> bool" where
  "recoverable c blk zs p f zones = (is_sparse p \<and> file_size p = sum_lengths (extents p)
     \<and> (\<exists>i es. active_zone f = Some i \<and> i < length zones \<and> extents f = extents p @ es
        \<and> sparse_log c blk i es (unat (extent_start p)) (unat (wp (zones ! i)))
        \<and> unat (start (zones ! i)) \<le> unat (extent_start p)
        \<and> unat (extent_start p) < unat (start (zones ! i)) + unat zs))"

text \<open>A metadata writer together with the version of the file that it has last acknowledged; the second
  part of the state is only observed.\<close>

definition tracked :: "('b, 'm) persist \<Rightarrow> ('b, 'm \<times> zfile) persist" where
  "tracked pw f m s =
     (case pw f (fst m) s of
        None \<Rightarrow> None
      | Some (st, f', m', s') \<Rightarrow> Some (st, f', (m', if ok st then f' else snd m), s'))"

definition keeps_last :: "('b, 'm) persist \<Rightarrow> ('m \<Rightarrow> zfile) \<Rightarrow> bool" where
  "keeps_last pw ack = (\<forall>g m s st f' m' s'. pw g m s = Some (st, f', m', s') \<longrightarrow> ok st \<longrightarrow> ack m' = f')"

lemma keeps_last_tracked: "keeps_last (tracked pw) snd"
  by (auto simp: keeps_last_def tracked_def split: option.splits prod.splits)

lemma sum_lengths_simps [simp]: "sum_lengths [] = 0" "sum_lengths (e # es) = ex_length e + sum_lengths es"
  "sum_lengths (es @ es') = sum_lengths es + sum_lengths es'"
  by (simp_all add: sum_lengths_def)

context metadata_writer
begin

text \<open>What holds between two turns of the append loop: the active zone has room, and the file can be
  recovered from a version the metadata holds.\<close>

definition sparse_ready :: "u32 \<Rightarrow> zfile \<Rightarrow> zfile \<Rightarrow> 'm \<Rightarrow> 'b zbd \<Rightarrow> bool" where
  "sparse_ready blk p f m s = (file_ok f m s \<and> caps_ok blk s \<and> GetBlockSize be s = blk \<and> is_sparse f
     \<and> file_size f = sum_lengths (extents f) \<and> (\<exists>i. active_zone f = Some i \<and> capacity (io_zones s ! i) \<noteq> 0)
     \<and> recoverable (cont (zbd_be s)) (unat blk) (be_zone_sz be (zbd_be s)) p f (io_zones s))"

lemma AllocateNewZone_ready:
  assumes fok: "file_ok f m s" "active_zone f = None" "caps_ok blk s" "GetBlockSize be s = blk"
    and sp: "is_sparse f" "file_size f = sum_lengths (extents f)"
    and a: "AllocateNewZone be pw f m s = Some (st, f', m', s')" "ok st" and k: "keeps_last pw ack"
  shows "sparse_ready blk (ack m') f' m' s'"
proof -
  obtain st1 zn s1 where al: "AllocateIOZone be (zf_lifetime f) (io_type f) s = Some (st1, zn, s1)"
    using a by (auto simp: AllocateNewZone_def split: option.splits)
  then obtain i where zn: "zn = Some i" and st1: "ok st1"
    using a by (auto simp: AllocateNewZone_def ok_def NoSpace_msg_def split: if_splits option.splits)
  have okz: "zbd_ok s" using fok(1) by (simp add: file_ok_def)
  note r = AllocateIOZone_room [OF al [unfolded zn] okz fok(3)]
  let ?f = "(SetActiveZone i f)\<lparr> extent_start := wp (io_zones s1 ! i), extent_filepos := file_size f \<rparr>"
  have p: "pw ?f m s1 = Some (st, f', m', s')"
    using a(1) al st1 zn by (simp add: AllocateNewZone_def PersistMetadata_def)
  note g1 = grown_file [OF fok(1) r(1) refl fok(2)]
  have ps: "zbd_ok s1" "winv m s1" using g1(1) by (simp_all add: file_ok_def)
  note st' = persist_state [OF ps p]
  obtain k t where f': "f' = ?f\<lparr> nr_synced_extents := k, m_time := t \<rparr>" using persist_file [OF p] by blast
  have zk: "zone_ok (be_zone_sz be (zbd_be s1)) (io_zones s1 ! i)" by (rule zbd_ok_zone [OF ps(1) r(3)])
  then have "unat (wp (io_zones s1 ! i)) < unat (start (io_zones s1 ! i)) + unat (be_zone_sz be (zbd_be s1))"
    using r(4) by (auto simp: zone_ok_def unat_gt_0 [symmetric] simp del: unat_gt_0)
  then have "recoverable (cont (zbd_be s')) (unat blk) (be_zone_sz be (zbd_be s')) f' f' (io_zones s')"
    using sp zk r(3) st' by (auto simp: recoverable_def f' SetActiveZone_def zone_ok_def)
  moreover have "ack m' = f'" using k p a(2) unfolding keeps_last_def by blast
  moreover have "GetBlockSize be s' = blk"
    using AllocateNewZone_file_ok(5) [OF fok(1,2) a(1)] fok(4) by (simp add: GetBlockSize_def)
  moreover have "caps_ok blk s'" using r(2) st' caps_ok_cong [of s' s1 blk] by simp
  ultimately show ?thesis
    using AllocateNewZone_file_ok(1) [OF fok(1,2) a(1)] sp r(4) st'
    by (simp add: sparse_ready_def f' SetActiveZone_def)
qed

text \<open>One turn.\<close>

lemma sparse_ready_turn:
  assumes rdy: "sparse_ready blk p f m s" and i: "active_zone f = Some i" and blk: "8 < unat blk"
    and left: "left \<noteq> 0" "unat left + 8 + unat blk < 2 ^ 32" "unat left + 8 \<le> length buf"
  defines "wr \<equiv> min_capacity (left + of_nat SPARSE_HEADER_SIZE) (capacity (io_zones s ! i))"
  defines "pad \<equiv> pad_size (GetBlockSize be s) wr"
  defines "len \<equiv> (ucast (wr - of_nat SPARSE_HEADER_SIZE) :: u64)"
  defines "buf2 \<equiv> EncodeFixed64 len @ drop 8 (buf_zero (unat wr) (unat pad) buf)"
  assumes ap: "io_Append be i (take (unat (wr + pad)) buf2) s = Some (st, s1)" "ok st"
    and push: "push_written i (of_nat SPARSE_HEADER_SIZE) len f s1 = (f2, s2)"
  shows "recoverable (cont (zbd_be s2)) (unat blk) (be_zone_sz be (zbd_be s2)) p f2 (io_zones s2)
    \<and> file_size f2 = sum_lengths (extents f2) \<and> is_sparse f2"
proof -
  have fok: "file_ok f m s" "caps_ok blk s" "GetBlockSize be s = blk" "capacity (io_zones s ! i) \<noteq> 0" "is_sparse f"
    and fs: "file_size f = sum_lengths (extents f)"
    and rec: "recoverable (cont (zbd_be s)) (unat blk) (be_zone_sz be (zbd_be s)) p f (io_zones s)"
    using rdy i by (auto simp: sparse_ready_def)
  note b = sparse_block [OF fok(1) i fok(4,2,3) blk left, folded wr_def, folded pad_def, folded len_def,
      folded buf2_def, OF ap push]
  have okz: "zbd_ok s" and act: "i < length (io_zones s)" "extent_start f = wp (io_zones s ! i)"
    using fok(1) i by (auto simp: file_ok_def active_ok_def)
  let ?e = "\<lparr> ex_start = wp (io_zones s ! i) + of_nat SPARSE_HEADER_SIZE, ex_length = len, ex_zone = i \<rparr>"
  have f2: "extents f2 = extents f @ [?e]" "file_size f2 = file_size f + len" "is_sparse f2" "active_zone f2 = Some i"
    using push act(2) fok(5) b(4) by (auto simp: push_written_def)
  obtain es where es: "extents f = extents p @ es"
    and log: "sparse_log (cont (zbd_be s)) (unat blk) i es (unat (extent_start p)) (unat (wp (io_zones s ! i)))"
    and st0: "unat (start (io_zones s ! i)) \<le> unat (extent_start p)"
      "unat (extent_start p) < unat (start (io_zones s ! i)) + unat (be_zone_sz be (zbd_be s))"
    and p: "is_sparse p" "file_size p = sum_lengths (extents p)"
    using rec i by (auto simp: recoverable_def)
  have d: "length (take (unat len) (drop 8 buf)) = unat len" using b(8) left(3) by simp
  have "sparse_log (cont (zbd_be s1)) (unat blk) i (es @ [?e]) (unat (extent_start p)) (unat (wp (io_zones s1 ! i)))"
    by (rule wrote_sparse_log [OF okz act(1) b(12) d b(7) b(13) _ log refl]) (use blk in simp)
  moreover have "length (io_zones s1) = length (io_zones s)" "start (io_zones s1 ! i) = start (io_zones s ! i)"
    "be_zone_sz be (zbd_be s1) = be_zone_sz be (zbd_be s)"
    using b(12) act(1) by (auto simp: wrote_def)
  ultimately show ?thesis
    using f2 es st0 p act(1) fs by (auto simp: recoverable_def b(14) nth_add_used)
qed

end

context metadata_writer
begin

definition sparse_done :: "('m \<Rightarrow> zfile) \<Rightarrow> bytes \<Rightarrow> u32 \<Rightarrow> zfile \<Rightarrow> 'b zbd \<Rightarrow> status \<times> bytes \<times> zfile \<times> 'm \<times> 'b zbd \<Rightarrow> bool" where
  "sparse_done ack data blk f s r = (case r of (st, buf', f', m', s') \<Rightarrow> ok st \<longrightarrow>
     sparse_ready blk (ack m') f' m' s' \<and> file_data f' s' = file_data f s @ data \<and> file_size f' = file_size f + of_nat (length data))"

lemma sparse_done_trans:
  assumes "file_data f2 s2 = file_data f s @ d1" "file_size f2 = file_size f + of_nat (length d1)"
    "sparse_done ack d2 blk f2 s2 r"
  shows "sparse_done ack (d1 @ d2) blk f s r"
  using assms by (auto simp: sparse_done_def add.assoc split: prod.splits)

lemma sparse_done_error: "\<not> ok st \<Longrightarrow> sparse_done ack data blk f s (st, buf', f', m', s')"
  by (simp add: sparse_done_def)

text \<open>The next zone, when the active one is full.\<close>

lemma sparse_next_zone:
  assumes fok: "file_ok f m s" "caps_ok blk s" "GetBlockSize be s = blk" "is_sparse f" "file_size f = sum_lengths (extents f)"
    and c: "CloseActiveZone be f s = (st3, f3, s3)" "ok st3"
    and a: "AllocateNewZone be pw f3 m s3 = Some (st4, f4, m4, s4)" "ok st4" and k: "keeps_last pw ack"
  shows "sparse_ready blk (ack m4) f4 m4 s4" "file_data f4 s4 = file_data f s"
    "file_size f4 = file_size f"
proof -
  note c' = CloseActiveZone_file_ok [OF fok(1) c(1)]
  have caps: "caps_ok blk s3"
    by (rule CloseActiveZone_caps [OF c(1) fok(2)]) (use fok(1) in \<open>simp add: file_ok_def\<close>)
  have "GetBlockSize be s3 = blk" "is_sparse f3" "file_size f3 = sum_lengths (extents f3)"
    using c' fok CloseActiveZone_sparse [OF c(1)] by (simp_all add: GetBlockSize_def)
  from AllocateNewZone_ready [OF c'(1,3) caps this a k] show "sparse_ready blk (ack m4) f4 m4 s4" .
  show "file_data f4 s4 = file_data f s" "file_size f4 = file_size f"
    using AllocateNewZone_file_ok(2,4) [OF c'(1,3) a(1)] c'(2,5) by simp_all
qed

lemma take_moved:
  assumes "wr = n + 8" "wr + l \<le> length buf" "length h = 8"
  shows "take l (drop 8 (buf_move 8 wr l (h @ drop 8 buf))) = take l (drop n (drop 8 buf))"
    "l + 8 \<le> length (buf_move 8 wr l (h @ drop 8 buf))"
  using assms by (simp_all add: buf_move_def add.commute)

lemma sparse_append_loop_done:
  assumes "sparse_append_loop be pw buf left f m s = Some r" "sparse_ready blk (ack m) f m s" "8 < unat blk"
    and "unat left + 8 + unat blk < 2 ^ 32" "unat left + 8 \<le> length buf" and k: "keeps_last pw ack"
  shows "sparse_done ack (take (unat left) (drop 8 buf)) blk f s r"
proof -
  let ?P = "\<lambda>be' pw' buf left f m s r. be' = be \<longrightarrow> pw' = pw \<longrightarrow> sparse_ready blk (ack m) f m s
    \<longrightarrow> unat left + 8 + unat blk < 2 ^ 32 \<longrightarrow> unat left + 8 \<le> length buf
    \<longrightarrow> sparse_done ack (take (unat left) (drop 8 buf)) blk f s r"
  have "?P be pw buf left f m s r"
  proof (rule sparse_append_loop.raw_induct [where P = ?P, OF _ assms(1)], intro impI, goal_cases)
    case (1 loop be' pw' buf left f m s r)
    have be: "be' = be" "pw' = pw" and rdy: "sparse_ready blk (ack m) f m s"
      and left: "unat left + 8 + unat blk < 2 ^ 32" "unat left + 8 \<le> length buf"
      using 1 by simp_all
    obtain i where i: "active_zone f = Some i" using rdy by (auto simp: sparse_ready_def)
    show "sparse_done ack (take (unat left) (drop 8 buf)) blk f s r"
    proof (cases "left = 0")
      case True
      then show ?thesis using 1(2) rdy be by (auto simp: sparse_done_def)
    next
      case l0: False
      define wr where "wr = min_capacity (left + of_nat SPARSE_HEADER_SIZE) (capacity (io_zones s ! i))"
      define pad where "pad = pad_size (GetBlockSize be s) wr"
      define len where "len = (ucast (wr - of_nat SPARSE_HEADER_SIZE) :: u64)"
      define buf2 where "buf2 = EncodeFixed64 len @ drop 8 (buf_zero (unat wr) (unat pad) buf)"
      obtain st s1 where ap: "io_Append be i (take (unat (wr + pad)) buf2) s = Some (st, s1)"
        using 1(2) l0 i be by (auto simp: wr_def pad_def len_def buf2_def Let_def split: option.splits)
      obtain f2 s2 where push: "push_written i (of_nat SPARSE_HEADER_SIZE) len f s1 = (f2, s2)" by fastforce
      note body = 1(2) [simplified be l0 i if_False option.case, unfolded Let_def, folded wr_def,
          folded pad_def, folded len_def, folded buf2_def, simplified ap push option.case prod.case]
      show ?thesis
      proof (cases "ok st")
        case bad: False
        then show ?thesis using body by (auto simp: sparse_done_error)
      next
        case st: True
        have fok: "file_ok f m s" "caps_ok blk s" "GetBlockSize be s = blk" "capacity (io_zones s ! i) \<noteq> 0"
          using rdy i by (auto simp: sparse_ready_def)
        note b = sparse_block [OF fok(1) i fok(4,2,3) assms(3) l0 left, folded wr_def, folded pad_def,
            folded len_def, folded buf2_def, OF ap st push]
        note t = sparse_ready_turn [OF rdy i assms(3) l0 left, folded wr_def, folded pad_def,
            folded len_def, folded buf2_def, OF ap st push]
        let ?left = "left - ucast len"
        have sp: "take (unat left) (drop 8 buf)
            = take (unat len) (drop 8 buf) @ take (unat ?left) (drop (unat len) (drop 8 buf))"
          using b(8,10) by (simp add: take_add [symmetric] del: drop_drop)
        have dl: "file_size f2 = file_size f + of_nat (length (take (unat len) (drop 8 buf)))"
          using b(3,8) left(2) by (simp add: min.absorb2)
        show ?thesis
        proof (cases "capacity (io_zones s2 ! i) = 0")
          case False
          then have z: "?left = 0" using b(8,10,11) by (metis diff_is_0_eq le_neq_implies_less unat_eq_0)
          have "loop be pw buf2 ?left f2 m s2 = Some r" using body st False by simp
          moreover have "sparse_ready blk (ack m) f2 m s2" using t b(1,4,5,6) False by (simp add: sparse_ready_def)
          moreover have "8 \<le> length buf2" by (simp add: buf2_def)
          ultimately have "sparse_done ack (take (unat ?left) (drop 8 buf2)) blk f2 s2 r"
            using 1(1) [of be pw buf2 ?left f2 m s2 r] assms(3) left(1) by (simp add: z)
          then show ?thesis
            unfolding sp by (intro sparse_done_trans [OF b(2) dl]) (simp add: z)
        next
          case full: True
          obtain st3 f3 s3 where c: "CloseActiveZone be f2 s2 = (st3, f3, s3)" by (metis prod_cases3)
          define buf3 where "buf3 = (if ?left \<noteq> 0 then buf_move SPARSE_HEADER_SIZE (unat wr) (unat ?left) buf2 else buf2)"
          show ?thesis
          proof (cases "ok st3")
            case False
            then show ?thesis using body st full c by (auto simp: sparse_done_error)
          next
            case ok3: True
            then obtain st4 f4 m4 s4 where a: "AllocateNewZone be pw f3 m s3 = Some (st4, f4, m4, s4)"
              using body st full c by (auto split: option.splits)
            show ?thesis
            proof (cases "ok st4")
              case False
              then show ?thesis using body st full c ok3 a by (auto simp: sparse_done_error)
            next
              case ok4: True
              have "loop be pw buf3 ?left f4 m4 s4 = Some r"
                using body st full c ok3 a ok4 by (simp add: buf3_def)
              moreover have "take (unat ?left) (drop 8 buf3) = take (unat ?left) (drop (unat len) (drop 8 buf))
                  \<and> unat ?left + 8 \<le> length buf3"
              proof (cases "?left = 0")
                case False
                then have "unat len < unat left" using b(8,10) by (metis diff_is_0_eq le_neq_implies_less unat_eq_0)
                then have "pad = 0" using b(11) by simp
                then have "buf3 = buf_move 8 (unat wr) (unat ?left) (EncodeFixed64 len @ drop 8 buf)"
                  using False by (simp add: buf3_def buf2_def SPARSE_HEADER_SIZE_def)
                then show ?thesis
                  using take_moved [OF b(9), of "unat ?left" buf "EncodeFixed64 len"] b(8,9,10) left(2) by simp
              qed (simp add: buf3_def buf2_def)
              moreover note n = sparse_next_zone [OF b(1,6,5) conjunct2 [OF conjunct2 [OF t]]
                  conjunct1 [OF conjunct2 [OF t]] c ok3 a ok4 k]
              moreover have "unat ?left + 8 + unat blk < 2 ^ 32" using b(10) left(1) by linarith
              ultimately have "sparse_done ack (take (unat ?left) (drop (unat len) (drop 8 buf))) blk f4 s4 r"
                using 1(1) [of be pw buf3 ?left f4 m4 s4 r] by simp
              then show ?thesis
                unfolding sp
                by (intro sparse_done_trans [of f4 s4]) (use n b(2) dl in \<open>simp_all del: drop_drop\<close>)
            qed
          qed
        qed
      qed
    qed
  qed
  then show ?thesis using assms by simp
qed

lemma SparseAppend_done:
  assumes run: "SparseAppend be pw buf n f m s = Some (st, buf', f', m', s')" "ok st"
    and fok: "file_ok f m s" "caps_ok blk s" "GetBlockSize be s = blk" "is_sparse f" "file_size f = sum_lengths (extents f)"
    and act: "active_zone f = None \<or> sparse_ready blk (ack m) f m s"
    and sz: "8 < unat blk" "unat n + 8 + unat blk < 2 ^ 32" "unat n + 8 \<le> length buf" and k: "keeps_last pw ack"
  shows "sparse_ready blk (ack m') f' m' s' \<and> file_data f' s' = file_data f s @ take (unat n) (drop 8 buf) \<and> file_size f' = file_size f + of_nat (unat n)"
proof -
  obtain st1 f1 m1 s1 where e: "ensure_zone be pw f m s = Some (st1, f1, m1, s1)"
    using run(1) by (auto simp: SparseAppend_def split: option.splits)
  have st1: "ok st1" and l: "sparse_append_loop be pw buf n f1 m1 s1 = Some (st, buf', f', m', s')"
    using run e by (auto simp: SparseAppend_def split: if_splits)
  have rdy: "sparse_ready blk (ack m1) f1 m1 s1"
  proof (cases "active_zone f = None")
    case True
    then have a: "AllocateNewZone be pw f m s = Some (st1, f1, m1, s1)" using e by (simp add: ensure_zone_def)
    from AllocateNewZone_ready [OF fok(1) True fok(2-5) a st1 k] show ?thesis .
  next
    case False
    then show ?thesis using e act by (auto simp: ensure_zone_def)
  qed
  have "length (take (unat n) (drop 8 buf)) = unat n" using sz(3) by simp
  with sparse_append_loop_done [where ack = ack, OF l rdy sz k] run(2) ensure_zone_file_ok(2,4) [OF fok(1) e] show ?thesis
    by (auto simp: sparse_done_def)
qed

end

subsection \<open>Recovery\<close>

lemma find_zone_hit:
  assumes "i < length zl" "start (zl ! i) \<le> off" "off < start (zl ! i) + zs"
    and "\<And>j. j < i \<Longrightarrow> \<not> (start (zl ! j) \<le> off \<and> off < start (zl ! j) + zs)"
  shows "find_zone zs off zl k = Some (k + i)"
  using assms
proof (induction zl arbitrary: i k)
  case (Cons z zl)
  show ?case
  proof (cases i)
    case 0
    then show ?thesis using Cons.prems by simp
  next
    case (Suc j)
    have "\<not> (start z \<le> off \<and> off < start z + zs)" using Cons.prems(4) [of 0] Suc by simp
    moreover have "\<not> (start (zl ! l) \<le> off \<and> off < start (zl ! l) + zs)" if "l < j" for l
      using Cons.prems(4) [of "Suc l"] that Suc by simp
    then have "find_zone zs off zl (Suc k) = Some (Suc k + j)" using Cons.prems(1-3) Suc by (intro Cons.IH) simp_all
    ultimately show ?thesis using Suc by simp
  qed
qed simp

lemma unat_sparse_step:
  fixes blk :: u32
  assumes "0 < unat blk" "unat a + sparse_room (unat blk) (unat len) < 2 ^ 64"
  shows "unat (a + sparse_blocks blk len * ucast blk) = unat a + sparse_room (unat blk) (unat len)"
proof -
  let ?b = "unat blk" and ?n = "len + of_nat SPARSE_HEADER_SIZE"
  have le: "unat len + 8 \<le> sparse_room ?b (unat len)" by (rule sparse_room_bounds(1) [OF assms(1)])
  have h: "unat (of_nat SPARSE_HEADER_SIZE :: u64) = 8" by (simp add: SPARSE_HEADER_SIZE_def)
  have n: "unat ?n = unat len + 8"
    unfolding h [symmetric] by (rule unat_add_no_wrap) (use le assms(2) h in simp)
  have q: "unat (?n div ucast blk) = (unat len + 8) div ?b" "(?n mod ucast blk \<noteq> 0) = ((unat len + 8) mod ?b \<noteq> 0)"
    using n by (simp_all add: unat_div unat_mod flip: unat_eq_0)
  let ?k = "(unat len + 8) div ?b + (if (unat len + 8) mod ?b = 0 then 0 else 1)"
  have kb: "?k * ?b = sparse_room ?b (unat len)" by (simp add: sparse_room_def Let_def)
  have k1: "?k \<le> sparse_room ?b (unat len)" unfolding kb [symmetric] using assms(1) by simp
  have k: "unat (sparse_blocks blk len) = ?k"
  proof (cases "(unat len + 8) mod ?b = 0")
    case True
    then show ?thesis using q by (simp add: sparse_blocks_def)
  next
    case False
    have "unat (?n div ucast blk + 1) = unat (?n div ucast blk) + unat (1 :: u64)"
      by (rule unat_add_no_wrap) (use False q(1) k1 assms(2) in simp)
    then show ?thesis using q False by (simp add: sparse_blocks_def)
  qed
  have m: "unat (sparse_blocks blk len * ucast blk) = sparse_room ?b (unat len)"
    unfolding kb [symmetric] k [symmetric]
    by (subst unat_mult_no_wrap) (use kb k assms(2) in simp_all)
  show ?thesis unfolding m [symmetric] by (rule unat_add_no_wrap) (use m assms(2) in simp)
qed

context gc_device
begin

lemma GetIOZone_at:
  assumes "zbd_ok s" "i < length (io_zones s)" "unat (start (io_zones s ! i)) \<le> unat off"
    "unat off < unat (start (io_zones s ! i)) + unat (be_zone_sz be (zbd_be s))"
  shows "GetIOZone be off s = Some i"
proof -
  let ?zs = "be_zone_sz be (zbd_be s)"
  have inside: "(start (io_zones s ! j) \<le> off \<and> off < start (io_zones s ! j) + ?zs)
      = (unat (start (io_zones s ! j)) \<le> unat off \<and> unat off < unat (start (io_zones s ! j)) + unat ?zs)"
    if "j < length (io_zones s)" for j
    using zbd_ok_zone [OF assms(1) that] unat_add_no_wrap [of "start (io_zones s ! j)" ?zs]
    by (simp add: zone_ok_def word_le_nat_alt word_less_nat_alt)
  have "find_zone ?zs off (io_zones s) 0 = Some (0 + i)"
  proof (rule find_zone_hit [OF assms(2)])
    fix j
    assume j: "j < i"
    then show "\<not> (start (io_zones s ! j) \<le> off \<and> off < start (io_zones s ! j) + ?zs)"
      using zbd_ok_disjoint [OF assms(1), of j i] assms(2-) inside [of j] by auto
  qed (use inside [OF assms(2)] assms(3,4) in auto)
  then show ?thesis by (simp add: GetIOZone_def GetZoneSize_def)
qed

text \<open>The state after a recovery: only the used capacity of a zone has changed.\<close>

definition rescanned :: "'b zbd \<Rightarrow> 'b zbd \<Rightarrow> bool" where
  "rescanned s s' = (zbd_ok s' \<and> cont (zbd_be s') = cont (zbd_be s) \<and> GetBlockSize be s' = GetBlockSize be s
     \<and> length (io_zones s') = length (io_zones s))"

lemma recover_sparse_loop_ok:
  assumes "zbd_ok s" "sparse_log (cont (zbd_be s)) (unat blk) zn es (unat nxt) (unat fin)"
    and "GetBlockSize be s = blk" "8 < unat blk" "unat blk < 2 ^ 30" "zn < length (io_zones s)"
  shows "\<exists>s'. recover_sparse_loop be fin zn nxt f s = Some (OK, f\<lparr> extents := extents f @ es \<rparr>, s') \<and> rescanned s s'"
  using assms
proof (induction es arbitrary: nxt f s)
  case Nil
  then have "nxt = fin" by (simp add: word_unat_eq_iff)
  with Nil show ?case by (simp add: recover_sparse_loop.simps [of be fin zn fin] rescanned_def)
next
  case (Cons e es)
  let ?room = "sparse_room (unat blk) (unat (ex_length e))" and ?c = "cont (zbd_be s)"
  have e: "ex_zone e = zn" "unat (ex_start e) = unat nxt + 8" "ex_length e \<noteq> 0"
    and hd: "map (\<lambda>k. ?c (unat nxt + k)) [0..<8] = EncodeFixed64 (ex_length e)"
    and rest: "sparse_log ?c (unat blk) zn es (unat nxt + ?room) (unat fin)"
    using Cons.prems(2) by simp_all
  have b0: "0 < unat blk" using Cons.prems(4) by simp
  have fin: "unat nxt + ?room \<le> unat fin" using sparse_log_le [OF rest] .
  have fin64: "unat fin < 2 ^ 64" using unat_lt [of fin] by simp
  have room: "0 < ?room" "unat blk \<le> ?room"
    using sparse_room_bounds(1) [OF b0, of "unat (ex_length e)"]
      dvd_imp_le [OF sparse_room_bounds(2) [of "unat blk" "unat (ex_length e)"]] by auto
  have step: "unat (nxt + sparse_blocks blk (ex_length e) * ucast blk) = unat nxt + ?room"
    by (rule unat_sparse_step [OF b0]) (use fin fin64 in linarith)
  have lt: "nxt < fin" using fin room(1) by (simp add: word_less_nat_alt)
  have bi: "to_int32 (uint blk) = int (unat blk)"
    unfolding uint_nat by (rule to_int32_nat) (use Cons.prems(5) in simp)
  obtain b where rd: "zbd_Read be nxt (int (unat blk)) False (zbd_be s)
        = Some (int (unat blk), map (\<lambda>k. ?c (unat nxt + k)) [0..<unat blk], b)"
    and b: "zbd_ok (s\<lparr> zbd_be := b \<rparr>)" "cont b = ?c" "be_block_sz be b = be_block_sz be (zbd_be s)"
    using zbd_Read_aligned [OF Cons.prems(1) b0 Cons.prems(5), of nxt False] fin fin64 room(2) by auto
  have "map (\<lambda>k. ?c (unat nxt + k)) [0..<unat blk]
      = map (\<lambda>k. ?c (unat nxt + k)) [0..<8] @ map (\<lambda>k. ?c (unat nxt + k)) [8..<unat blk]"
    using Cons.prems(4) upt_add_eq_append [of 0 8 "unat blk - 8"] by simp
  then have dec: "DecodeFixed64 (map (\<lambda>k. ?c (unat nxt + k)) [0..<unat blk]) = ex_length e"
    unfolding hd by (simp only: DecodeFixed64_Encode)
  have "unat (nxt + of_nat SPARSE_HEADER_SIZE) = unat nxt + 8"
    using sparse_room_bounds(1) [OF b0, of "unat (ex_length e)"] fin fin64
    by (simp add: SPARSE_HEADER_SIZE_def unat_add_no_wrap)
  then have ee: "e = \<lparr> ex_start = nxt + of_nat SPARSE_HEADER_SIZE, ex_length = ex_length e, ex_zone = zn \<rparr>"
    using e by (cases e) (simp add: word_unat_eq_iff)
  let ?s = "add_used zn (ex_length e) (s\<lparr> zbd_be := b \<rparr>)" and ?f = "f\<lparr> extents := extents f @ [e] \<rparr>"
  have zn: "zn < length (io_zones (s\<lparr> zbd_be := b \<rparr>))" using Cons.prems(6) by simp
  have s: "zbd_ok ?s" "cont (zbd_be ?s) = ?c" "GetBlockSize be ?s = blk" "length (io_zones ?s) = length (io_zones s)"
    using zbd_ok_add_used [OF zn, of "ex_length e"] b Cons.prems(3)
    by (simp_all add: GetBlockSize_def add_used_def set_io_def)
  obtain s' where s': "recover_sparse_loop be fin zn (nxt + sparse_blocks blk (ex_length e) * ucast blk) ?f ?s
      = Some (OK, ?f\<lparr> extents := extents ?f @ es \<rparr>, s')" "rescanned ?s s'"
    using Cons.IH [OF s(1), of "nxt + sparse_blocks blk (ex_length e) * ucast blk" ?f] rest s step Cons.prems(4-6) by auto
  have "recover_sparse_loop be fin zn nxt f s = Some (OK, f\<lparr> extents := extents f @ e # es \<rparr>, s')"
    using lt rd dec e(3) s'(1) ee Cons.prems(3) by (simp add: recover_sparse_loop.simps [of be fin zn nxt] bi Let_def)
  moreover have "rescanned s s'" using s'(2) s Cons.prems(3) by (simp add: rescanned_def)
  ultimately show ?case by blast
qed

end

lemma recoverable_cong:
  assumes "recoverable c blk zs p f zones" "map start zones' = map start zones" "map wp zones' = map wp zones"
  shows "recoverable c blk zs p f zones'"
proof -
  have "length zones' = length zones" using assms(2) by (metis length_map)
  then have "start (zones' ! i) = start (zones ! i)" "wp (zones' ! i) = wp (zones ! i)" if "i < length zones" for i
    using assms(2,3) that by (metis nth_map)+
  with \<open>length zones' = length zones\<close> assms(1) show ?thesis
    unfolding recoverable_def by (metis (no_types, lifting))
qed

context gc_device
begin

lemma Recover_ok:
  assumes okz: "zbd_ok s" and blk: "GetBlockSize be s = blk" "8 < unat blk" "unat blk < 2 ^ 30"
    and rec: "recoverable (cont (zbd_be s)) (unat blk) (be_zone_sz be (zbd_be s)) p f (io_zones s)"
    and q: "extents q = extents p" "extent_start q = extent_start p" "is_sparse q" "file_size q = file_size p"
  shows "\<exists>g s'. Recover be q s = Some (OK, g, s') \<and> extents g = extents f
    \<and> file_size g = sum_lengths (extents f) \<and> extent_start g = NO_EXTENT \<and> cont (zbd_be s') = cont (zbd_be s)"
proof -
  obtain i es where i: "i < length (io_zones s)" and es: "extents f = extents p @ es"
    and log: "sparse_log (cont (zbd_be s)) (unat blk) i es (unat (extent_start q)) (unat (wp (io_zones s ! i)))"
    and st: "unat (start (io_zones s ! i)) \<le> unat (extent_start q)"
      "unat (extent_start q) < unat (start (io_zones s ! i)) + unat (be_zone_sz be (zbd_be s))"
    and fs: "file_size q = sum_lengths (extents q)"
    using rec q unfolding recoverable_def by auto
  have "unat (start (io_zones s ! i)) + unat (be_zone_sz be (zbd_be s)) < 2 ^ 64"
    using zbd_ok_zone [OF okz i] by (simp add: zone_ok_def)
  then have act: "HasActiveExtent q"
    using st(2) by (auto simp: HasActiveExtent_def NO_EXTENT_def)
  have z: "GetIOZone be (extent_start q) s = Some i" by (rule GetIOZone_at [OF okz i st])
  have le: "\<not> wp (io_zones s ! i) < extent_start q"
    using sparse_log_le [OF log] by (simp add: word_less_nat_alt)
  show ?thesis
  proof (cases "wp (io_zones s ! i) = extent_start q")
    case True
    then have "es = []" using log blk(2) by (intro sparse_log_self [of _ "unat blk" i es "unat (extent_start q)"]) simp_all
    then show ?thesis using True act z le fs es q by (simp add: Recover_def)
  next
    case False
    then have d: "wp (io_zones s ! i) - extent_start q \<noteq> 0" by simp
    obtain s' where lp: "recover_sparse_loop be (wp (io_zones s ! i)) i (extent_start q) q s
        = Some (OK, q\<lparr> extents := extents q @ es \<rparr>, s')" and s': "rescanned s s'"
      using recover_sparse_loop_ok [OF okz log blk i] by blast
    show ?thesis
      using act z le d lp s' es q by (simp add: Recover_def Let_def rescanned_def)
  qed
qed

end

subsection \<open>Sessions of sparse writes\<close>

text \<open>A writer appends (the buffer has eight bytes for the header in front of the data) and writes the
  metadata.  The session is \<open>None\<close> when a call fails or does not return.\<close>

datatype sparse_event = SWrite bytes u32 | SPersist

fun sparse_session ::
  "'b backend \<Rightarrow> ('b, 'm) persist \<Rightarrow> sparse_event list \<Rightarrow> zfile \<Rightarrow> 'm \<Rightarrow> 'b zbd \<Rightarrow> (zfile \<times> 'm \<times> 'b zbd) option" where
  "sparse_session be pw [] f m s = Some (f, m, s)"
| "sparse_session be pw (SWrite buf n # evs) f m s =
     (case SparseAppend be pw buf n f m s of
        None \<Rightarrow> None
      | Some (st, buf', f', m', s') \<Rightarrow> if ok st then sparse_session be pw evs f' m' s' else None)"
| "sparse_session be pw (SPersist # evs) f m s =
     (case PersistMetadata pw f m s of
        None \<Rightarrow> None
      | Some (st, f', m', s') \<Rightarrow> if ok st then sparse_session be pw evs f' m' s' else None)"

fun payload :: "sparse_event \<Rightarrow> bytes" where
  "payload (SWrite buf n) = take (unat n) (drop 8 buf)"
| "payload SPersist = []"

fun event_fits :: "u32 \<Rightarrow> sparse_event \<Rightarrow> bool" where
  "event_fits blk (SWrite buf n) = (unat n + 8 + unat blk < 2 ^ 32 \<and> unat n + 8 \<le> length buf)"
| "event_fits blk SPersist = True"

text \<open>The device as a mount after a crash finds it: the same bytes, zones and write pointers.\<close>

definition remounted :: "'b backend \<Rightarrow> ('b \<Rightarrow> nat \<Rightarrow> byte) \<Rightarrow> ('b \<Rightarrow> bool) \<Rightarrow> 'b zbd \<Rightarrow> 'b zbd \<Rightarrow> bool" where
  "remounted be cont I s t = (I (zbd_be t) \<and> cont (zbd_be t) = cont (zbd_be s)
     \<and> GetZoneSize be t = GetZoneSize be s \<and> GetBlockSize be t = GetBlockSize be s
     \<and> map start (io_zones t) = map start (io_zones s) \<and> map wp (io_zones t) = map wp (io_zones s)
     \<and> (\<forall>z\<in>set (io_zones t). zone_ok (GetZoneSize be t) z))"

context metadata_writer
begin

lemma tracked_writer: "metadata_writer be cont inv (tracked pw) (\<lambda>m. winv (fst m))"
proof (unfold_locales, goal_cases)
  case (1 s m f st f' m' s')
  then show ?case using persist_state [of s "fst m" f] by (auto simp: tracked_def split: option.splits)
next
  case (2 s m f st f' m' s' i a)
  then show ?case using persist_cont [of s "fst m" f] by (auto simp: tracked_def split: option.splits)
next
  case (3 f m s st f' m' s')
  then show ?case using persist_file [of f "fst m" s] by (auto simp: tracked_def split: option.splits)
next
  case (4 m s s')
  then show ?case using winv_stable [of "fst m" s s'] by simp
qed

definition sparse_inv :: "('m \<Rightarrow> zfile) \<Rightarrow> u32 \<Rightarrow> zfile \<Rightarrow> 'm \<Rightarrow> 'b zbd \<Rightarrow> bool" where
  "sparse_inv ack blk f m s = (file_ok f m s \<and> caps_ok blk s \<and> GetBlockSize be s = blk \<and> is_sparse f
     \<and> file_size f = sum_lengths (extents f) \<and> (active_zone f = None \<or> sparse_ready blk (ack m) f m s))"

lemma sparse_inv_ready: "sparse_ready blk (ack m) f m s \<Longrightarrow> sparse_inv ack blk f m s"
  by (simp add: sparse_inv_def sparse_ready_def)

lemma persist_sparse_inv:
  assumes inv: "sparse_inv ack blk f m s" and k: "keeps_last pw ack"
    and p: "pw f m s = Some (st, f', m', s')" "ok st"
  shows "sparse_inv ack blk f' m' s' \<and> file_data f' s' = file_data f s"
proof -
  have fok: "zbd_ok s" "winv m s" "extents_below (extents f) (io_zones s)" "active_ok f (io_zones s)"
    using inv by (simp_all add: sparse_inv_def file_ok_def)
  note f' = persist_file_ok [OF fok p(1)]
  note st' = persist_state [OF fok(1,2) p(1)]
  have sp: "is_sparse f'" using persist_sparse [OF p(1)] inv by (simp add: sparse_inv_def)
  have a: "ack m' = f'" using k p unfolding keeps_last_def by blast
  have base: "file_ok f' m' s'" "caps_ok blk s'" "GetBlockSize be s' = blk" "file_size f' = sum_lengths (extents f')"
    using inv f' st' caps_ok_cong [of s' s blk] by (simp_all add: sparse_inv_def GetBlockSize_def)
  have "active_zone f' = None \<or> sparse_ready blk f' f' m' s'"
  proof (cases "active_zone f")
    case (Some i)
    then have i: "i < length (io_zones s)" "extent_start f = wp (io_zones s ! i)" "capacity (io_zones s ! i) \<noteq> 0"
      using inv fok(4) by (auto simp: sparse_inv_def sparse_ready_def active_ok_def)
    have zk: "zone_ok (be_zone_sz be (zbd_be s)) (io_zones s ! i)" by (rule zbd_ok_zone [OF fok(1) i(1)])
    then have "unat (wp (io_zones s ! i)) < unat (start (io_zones s ! i)) + unat (be_zone_sz be (zbd_be s))"
      using i(3) by (auto simp: zone_ok_def unat_gt_0 [symmetric] simp del: unat_gt_0)
    then have "recoverable (cont (zbd_be s')) (unat blk) (be_zone_sz be (zbd_be s')) f' f' (io_zones s')"
      using sp base(4) f' st' i zk Some by (auto simp: recoverable_def zone_ok_def)
    then show ?thesis using base sp f'(5) Some i st' by (simp add: sparse_ready_def)
  qed (use f'(5) in simp)
  then show ?thesis using base sp f'(2) a by (simp add: sparse_inv_def)
qed

lemma sparse_session_inv:
  assumes "sparse_session be pw evs f m s = Some (f', m', s')" "sparse_inv ack blk f m s" "keeps_last pw ack"
    and "8 < unat blk" "list_all (event_fits blk) evs"
  shows "sparse_inv ack blk f' m' s' \<and> file_data f' s' = file_data f s @ concat (map payload evs)"
  using assms
proof (induction evs arbitrary: f m s)
  case (Cons ev evs)
  show ?case
  proof (cases ev)
    case (SWrite buf n)
    then obtain st b1 f1 m1 s1 where a: "SparseAppend be pw buf n f m s = Some (st, b1, f1, m1, s1)" "ok st"
      and r: "sparse_session be pw evs f1 m1 s1 = Some (f', m', s')"
      using Cons.prems(1) by (auto split: option.splits if_splits)
    have "sparse_ready blk (ack m1) f1 m1 s1 \<and> file_data f1 s1 = file_data f s @ take (unat n) (drop 8 buf)
        \<and> file_size f1 = file_size f + of_nat (unat n)"
      by (rule SparseAppend_done [OF a]) (use Cons.prems SWrite in \<open>auto simp: sparse_inv_def\<close>)
    with Cons.IH [OF r sparse_inv_ready] Cons.prems(3-) SWrite show ?thesis by simp
  next
    case SPersist
    then obtain st f1 m1 s1 where p: "pw f m s = Some (st, f1, m1, s1)" "ok st"
      and r: "sparse_session be pw evs f1 m1 s1 = Some (f', m', s')"
      using Cons.prems(1) by (auto simp: PersistMetadata_def split: option.splits if_splits)
    from persist_sparse_inv [OF Cons.prems(2,3) p] Cons.IH [OF r] Cons.prems(3-) SPersist show ?thesis by simp
  qed
qed simp

end

text \<open>
  C5: what a sparse file has been given survives a crash.  A writer that opens a file without an active zone
  appends and writes its metadata in any order; after the session the file holds the bytes it had and all
  the bytes appended, in that order.  If the process then stops, and the next mount finds the last version
  of the file that the metadata writer has acknowledged and the device with its write pointers, then
  \<open>Recover\<close> returns with success, and the recovered file has the extents, the size and the bytes of the
  lost one, also of the appends that no metadata record covers.
\<close>

theorem sparse_crash_recovery:
  assumes gc: "gc_device be cont I" and mw: "metadata_writer be cont I pw W"
    and dev: "I (zbd_be s)" "\<forall>z\<in>set (io_zones s). zone_ok (GetZoneSize be s) z"
      "disjoint_zones (unat (GetZoneSize be s)) (map start (io_zones s))" "W m s" "caps_ok (GetBlockSize be s) s"
    and blk: "8 < unat (GetBlockSize be s)" "unat (GetBlockSize be s) < 2 ^ 30"
    and fil: "extents_below (extents f) (io_zones s)" "active_zone f = None" "is_sparse f"
      "file_size f = sum_lengths (extents f)"
    and evs: "list_all (event_fits (GetBlockSize be s)) evs"
    and run: "sparse_session be (tracked pw) evs f (m, f0) s = Some (f', (m', p), s')" "active_zone f' \<noteq> None"
    and mnt: "remounted be cont I s' t" "extents q = extents p" "extent_start q = extent_start p" "is_sparse q"
      "file_size q = file_size p"
  shows "extents_data (cont (zbd_be s')) (extents f')
      = extents_data (cont (zbd_be s)) (extents f) @ concat (map payload evs)
    \<and> (\<exists>g t'. Recover be q t = Some (OK, g, t') \<and> extents g = extents f' \<and> file_size g = file_size f'
        \<and> extents_data (cont (zbd_be t')) (extents g)
          = extents_data (cont (zbd_be s)) (extents f) @ concat (map payload evs))"
proof -
  let ?blk = "GetBlockSize be s"
  note zd = metadata_writer.axioms(1) [OF mw] and tw = metadata_writer.tracked_writer [OF mw]
  note defs = metadata_writer.sparse_inv_def [OF tw] metadata_writer.sparse_ready_def [OF tw]
    metadata_writer.file_ok_def [OF tw] zoned_device.zbd_ok_def [OF zd] GetZoneSize_def
  have "metadata_writer.sparse_inv be cont I (\<lambda>m. W (fst m)) snd ?blk f (m, f0) s"
    using dev fil by (simp add: defs active_ok_def)
  from metadata_writer.sparse_session_inv [OF tw run(1) this keeps_last_tracked blk(1) evs]
  have inv: "metadata_writer.sparse_inv be cont I (\<lambda>m. W (fst m)) snd ?blk f' (m', p) s'"
    and data: "extents_data (cont (zbd_be s')) (extents f')
      = extents_data (cont (zbd_be s)) (extents f) @ concat (map payload evs)"
    by (simp_all add: metadata_writer.file_data_def [OF tw])
  have rec: "recoverable (cont (zbd_be s')) (unat ?blk) (be_zone_sz be (zbd_be s')) p f' (io_zones s')"
    and s': "GetBlockSize be s' = ?blk" "file_size f' = sum_lengths (extents f')"
      "disjoint_zones (unat (GetZoneSize be s')) (map start (io_zones s'))"
    using inv run(2) by (auto simp: defs)
  have t: "zoned_device.zbd_ok be I t" "GetBlockSize be t = ?blk" "cont (zbd_be t) = cont (zbd_be s')"
    using mnt(1) s' by (auto simp: remounted_def zoned_device.zbd_ok_def [OF zd] GetZoneSize_def)
  have "recoverable (cont (zbd_be t)) (unat ?blk) (be_zone_sz be (zbd_be t)) p f' (io_zones t)"
    using recoverable_cong [OF rec, of "io_zones t"] mnt(1) by (simp add: remounted_def GetZoneSize_def)
  from gc_device.Recover_ok [OF gc t(1,2) blk this mnt(2-)] data t(3) s'(2) show ?thesis by auto
qed

subsection \<open>A concrete crash\<close>

text \<open>The zones of three blocks of 16 bytes; the second append goes over the end of the first zone.\<close>

definition demo_wal_zbd :: "simdev zbdlib zbd" where
  "demo_wal_zbd = demo_fresh\<lparr> zbd_be := demo_dev\<lparr> zl_block_sz := 16 \<rparr> \<rparr>"

definition demo_wal :: zfile where
  "demo_wal = (new_ZoneFile 1)\<lparr> is_sparse := True \<rparr>"

definition demo_wal_events :: "sparse_event list" where
  "demo_wal_events = [SWrite (replicate 8 0 @ [1, 2, 3, 4, 5] @ replicate 16 0) 5, SPersist,
     SWrite (replicate 8 0 @ map of_nat [6..<36] @ replicate 16 0) 30]"

lemma demo_wal_run:
  "map_option (\<lambda>(f, (_, p), s). (map ex_length (extents f), map ex_length (extents p), active_zone f, is_sparse p))
     (sparse_session demo_be (tracked mark_synced) demo_wal_events demo_wal ((), demo_wal) demo_wal_zbd)
    = Some ([5, 24, 6], [5, 24], Some 1, True)"
  by code_simp

lemma demo_wal_device:
  "map_option (\<lambda>(f, m, s). (map (\<lambda>z. (start z, wp z, capacity z, max_capacity z)) (io_zones s), sim_ok (zbd_be s), zl_zone_sz (zbd_be s),
      zl_read_f (zbd_be s), zl_read_direct_f (zbd_be s)))
     (sparse_session demo_be (tracked mark_synced) demo_wal_events demo_wal ((), demo_wal) demo_wal_zbd)
    = Some ([(128, 176, 0, 48), (192, 208, 32, 48)], True, 64, 3, 3)"
  by code_simp

interpretation sim_log_writer: metadata_writer "zbdlib_backend sim_libzbd" "\<lambda>b. sd_mem (zl_dev b)"
  "\<lambda>b. sim_ok b \<and> 0 \<le> zl_read_f b \<and> 0 \<le> zl_read_direct_f b" mark_synced "\<lambda>_ _. True"
  by unfold_locales (auto simp: mark_synced_def MetadataSynced_def)

lemma demo_wal_facts:
  "sim_ok (zbd_be demo_wal_zbd) \<and> 0 \<le> zl_read_f (zbd_be demo_wal_zbd) \<and> 0 \<le> zl_read_direct_f (zbd_be demo_wal_zbd)"
  "\<forall>z\<in>set (io_zones demo_wal_zbd). zone_ok (GetZoneSize demo_be demo_wal_zbd) z"
  "disjoint_zones (unat (GetZoneSize demo_be demo_wal_zbd)) (map start (io_zones demo_wal_zbd))"
  "GetBlockSize demo_be demo_wal_zbd = 16" "caps_ok 16 demo_wal_zbd"
  using demo_fresh_facts
  by (simp_all add: demo_wal_zbd_def demo_fresh_def demo_zbd_def new_ZonedBlockDevice_def sim_ok_def demo_dev_def sim_new_def
      sim_zone_def demo_zones_def zone_ok_def GetZoneSize_def GetBlockSize_def zbdlib_backend_def
      disjoint_zones_two caps_ok_def IsEmpty_def)

lemma demo_wal_payload: "concat (map payload demo_wal_events) = map of_nat [1..<36]"
  by code_simp

theorem sparse_crash_recovery_witness:
  "\<exists>f p s g t. sparse_session demo_be (tracked mark_synced) demo_wal_events demo_wal ((), demo_wal) demo_wal_zbd
      = Some (f, ((), p), s) \<and> length (extents p) = 2 \<and> Recover demo_be p s = Some (OK, g, t)
    \<and> extents_data (sd_mem (zl_dev (zbd_be t))) (extents g) = map of_nat [1..<36]"
proof -
  obtain f p s where run: "sparse_session demo_be (tracked mark_synced) demo_wal_events demo_wal ((), demo_wal) demo_wal_zbd
      = Some (f, ((), p), s)" and es: "map ex_length (extents p) = [5, 24]" and act: "active_zone f = Some 1"
      and q: "is_sparse p"
    using demo_wal_run by (auto simp: map_option_case split: option.splits)
  have zs: "map (\<lambda>z. (start z, wp z, capacity z, max_capacity z)) (io_zones s) = [(128, 176, 0, 48), (192, 208, 32, 48)]"
    and b: "sim_ok (zbd_be s) \<and> 0 \<le> zl_read_f (zbd_be s) \<and> 0 \<le> zl_read_direct_f (zbd_be s)" "zl_zone_sz (zbd_be s) = 64"
    using demo_wal_device by (simp_all add: run)
  have "zone_ok (GetZoneSize demo_be s) z" if "z \<in> set (io_zones s)" for z
    using imageI [OF that, of "\<lambda>z. (start z, wp z, capacity z, max_capacity z)"] b(2) unfolding image_set zs
    by (auto simp: zone_ok_def GetZoneSize_def zbdlib_backend_def)
  with b have mnt: "remounted demo_be (\<lambda>b. sd_mem (zl_dev b))
      (\<lambda>b. sim_ok b \<and> 0 \<le> zl_read_f b \<and> 0 \<le> zl_read_direct_f b) s s"
    by (simp add: remounted_def)
  have len: "length (extents p) = 2" using arg_cong [OF es, of length] by simp
  have evs: "list_all (event_fits 16) demo_wal_events" by (simp add: demo_wal_events_def)
  have "extents_below (extents demo_wal) (io_zones demo_wal_zbd)" "active_zone demo_wal = None" "is_sparse demo_wal"
    "file_size demo_wal = sum_lengths (extents demo_wal)" "extents demo_wal = []"
    by (simp_all add: demo_wal_def new_ZoneFile_def extents_below_def)
  with sparse_crash_recovery [OF sim_gc.gc_device_axioms sim_log_writer.metadata_writer_axioms demo_wal_facts(1-3) TrueI
      _ _ _ _ _ _ _ _ run _ mnt refl refl q refl] demo_wal_facts(4,5) act evs
  have "\<exists>g t. Recover demo_be p s = Some (OK, g, t)
      \<and> extents_data (sd_mem (zl_dev (zbd_be t))) (extents g) = map of_nat [1..<36]"
    by (auto simp: demo_wal_payload)
  with run len show ?thesis by blast
qed

end
