(* ===== verification/MetaRoll.thy ===== *)
theory MetaRoll
  imports GarbageCollection Recovered
begin

text \<open>
  Rolling the metadata log over to a new zone (\<open>RollMetaZoneLocked\<close> of \<open>fs/fs_aquafs.cc\<close>) and what a mount
  finds afterwards: a superblock and a snapshot of the whole table in the new zone when the roll
  succeeds, and the old log, with all it recorded, when it does not.
\<close>

lemma start_aligned:
  fixes bs :: u32
  assumes "unat zs dvd unat (a :: u64)" "unat bs dvd unat (zs :: u64)"
  shows "unat a mod unat (ucast bs :: u64) = 0"
  using dvd_trans [OF assms(2,1)] by (simp add: dvd_imp_mod_0)

context zoned_device
begin

subsection \<open>The old log stays\<close>

lemma zone_kept_log:
  assumes k: "zone_kept k s s'" and z: "zone_ok (be_zone_sz be (zbd_be s)) (meta_zones s ! k)"
    and log: "log_at (cont (zbd_be s)) (meta_zones s ! k) bs recs"
  shows "log_at (cont (zbd_be s')) (meta_zones s' ! k) bs recs"
proof -
  let ?a = "unat (start (meta_zones s ! k))" and ?n = "length (log_image bs recs)"
  have "?n \<le> unat (be_zone_sz be (zbd_be s))" using z log by (simp add: zone_ok_def log_at_def)
  then have "bytes_at (cont (zbd_be s')) ?a ?n = bytes_at (cont (zbd_be s)) ?a ?n"
    using k by (intro bytes_at_cong) (simp add: zone_kept_def)
  then show ?thesis using k log by (simp add: zone_kept_def log_at_def)
qed

text \<open>A zone in use is not allocated, and the zone that is allocated is empty.\<close>

lemma alloc_meta_kept:
  assumes "alloc_meta be is s = (st, zn, s')" "zbd_ok s" "meta_ok s" "\<forall>i\<in>set is. i < length (meta_zones s)"
    and "k < length (meta_zones s)" "busy (meta_zones s ! k)"
  shows "zone_kept k s s' \<and> zn \<noteq> Some k \<and> (\<forall>i. zn = Some i \<longrightarrow> wp (meta_zones s' ! i) = start (meta_zones s' ! i))"
  using assms
proof (induction "is" arbitrary: s)
  case Nil
  then show ?case by (auto intro: zone_kept_refl)
next
  case (Cons i "is")
  have i: "i < length (meta_zones s)" using Cons.prems by simp
  let ?z = "(meta_zones s ! i)\<lparr> busy := True \<rparr>"
  let ?goal = "zone_kept k s s' \<and> zn \<noteq> Some k \<and> (\<forall>i. zn = Some i \<longrightarrow> wp (meta_zones s' ! i) = start (meta_zones s' ! i))"
  have step: ?goal if "meta_only s s1" "zone_kept k s s1" "alloc_meta be is s1 = (st, zn, s')" for s1
  proof -
    have "zone_kept k s1 s' \<and> zn \<noteq> Some k \<and> (\<forall>i. zn = Some i \<longrightarrow> wp (meta_zones s' ! i) = start (meta_zones s' ! i))"
      by (rule Cons.IH [OF that(3)]) (use meta_only_ok [OF that(1)] Cons.prems(4-6) that(2) in \<open>simp_all add: zone_kept_def\<close>)
    then show ?thesis using zone_kept_trans [OF that(2)] by blast
  qed
  show ?case
  proof (cases "busy (meta_zones s ! i)")
    case True
    then show ?thesis
      using Cons.prems(1) step [OF meta_only_refl [OF Cons.prems(2,3)] zone_kept_refl] by (simp add: Acquire_def)
  next
    case free: False
    then have ki: "k \<noteq> i" using Cons.prems(6) by auto
    note b1 = meta_busy [OF Cons.prems(2,3) i, of True]
    note busy1 = meta_step_only [OF b1] meta_step_kept [OF b1 Cons.prems(5) ki]
    obtain st2 z2 b2 where r: "Reset be ?z (zbd_be s) = (st2, z2, b2)" by (metis prod_cases3)
    let ?s2 = "set_meta i z2 (s\<lparr> zbd_be := b2 \<rparr>)"
    have m2: "meta_step i s ?s2" by (rule meta_zone_op_step [OF Cons.prems(2,3) i disjI1 [OF r]])
    have bz: "busy z2" "ok st2 \<Longrightarrow> wp z2 = start z2"
      using r by (auto simp: Reset_def Let_def ok_def status_neq_def status_eq_def split: prod.splits if_splits)
    have nth: "meta_zones ?s2 ! i = z2" using i by (simp add: set_meta_def)
    have m3: "meta_step i s (set_meta i (z2\<lparr> busy := False \<rparr>) ?s2)"
      using meta_step_trans [OF m2 meta_busy [of ?s2 i False]] meta_only_ok [OF meta_step_only [OF m2]] i nth by simp
    note m2' = meta_step_only [OF m2] meta_step_kept [OF m2 Cons.prems(5) ki]
    note m3' = meta_step_only [OF m3] meta_step_kept [OF m3 Cons.prems(5) ki]
    show ?thesis
      using Cons.prems(1) free r bz busy1(2) m2'(2) i nth ki step [OF busy1] step [OF m3']
      by (auto simp: Acquire_def Let_def IsEmpty_def set_meta_def split: if_splits)
  qed
qed

lemma AllocateMetaZone_kept:
  assumes "AllocateMetaZone be s = (st, zn, s')" "zbd_ok s" "meta_ok s" "k < length (meta_zones s)" "busy (meta_zones s ! k)"
  shows "zone_kept k s s'" "zn \<noteq> Some k" "\<And>i. zn = Some i \<Longrightarrow> wp (meta_zones s' ! i) = start (meta_zones s' ! i)"
  using alloc_meta_kept [OF assms(1) [unfolded AllocateMetaZone_def] assms(2,3) _ assms(4,5)] by auto

end

subsection \<open>The course of a roll\<close>

text \<open>A roll ends when it has no new zone, when the superblock is refused, or after the snapshot.\<close>

lemma RollMetaZoneLocked_cases:
  assumes run: "RollMetaZoneLocked be fs s = Some (st, fs', s')" and old: "fs_meta_log fs = Some o_ml"
    and al: "AllocateMetaZone be s = (st1, zn, s1)"
  obtains (no_zone) "\<not> ok st" "s' = s1" "fs' = fs"
  | (started) i s2 sb ss sb' st3 s3 where "zn = Some i" "end_old_log be (Some o_ml) s1 = Some s2"
      "fs_superblock fs = Some sb" "sb_EncodeTo sb = (ss, sb')" "AddRecord be (new_AquaMetaLog be i s1) ss s2 = Some (st3, s3)"
      "\<not> ok st3 \<and> \<not> ok st \<and> \<not> IsNoSpace st \<and> s' = delete_AquaMetaLog o_ml s3
       \<or> ok st3 \<and> (\<exists>s4. AddRecord be (new_AquaMetaLog be i s1) (fs_EncodeSnapshotTo fs) s3 = Some (st, s4)
           \<and> s' = delete_AquaMetaLog o_ml (if ok st then meta_Reset be (ml_zone o_ml) s4 else s4))"
      "fs_meta_log fs' = Some (new_AquaMetaLog be i s1)"
proof (cases "ok st1 \<and> zn \<noteq> None")
  case False
  then have "\<not> ok st" "s' = s1" "fs' = fs"
    using run al by (auto simp: RollMetaZoneLocked_def NoSpace_msg_def ok_def split: if_splits)
  then show ?thesis by (rule no_zone)
next
  case True
  then obtain i where i: "ok st1" "zn = Some i" by auto
  let ?ml = "new_AquaMetaLog be i s1"
  obtain s2 where s2: "end_old_log be (Some o_ml) s1 = Some s2"
    using run al i old by (auto simp: RollMetaZoneLocked_def Let_def bind_eq_Some_conv)
  obtain sb where sb: "fs_superblock fs = Some sb"
    using run al i by (auto simp: RollMetaZoneLocked_def Let_def bind_eq_Some_conv)
  obtain ss sb' where enc: "sb_EncodeTo sb = (ss, sb')" by fastforce
  obtain st3 s3 where s3: "AddRecord be ?ml ss s2 = Some (st3, s3)"
    using run al i old s2 sb enc by (auto simp: RollMetaZoneLocked_def Let_def bind_eq_Some_conv)
  have snap: "fs_EncodeSnapshotTo (fs\<lparr> fs_meta_log := Some ?ml, fs_superblock := Some sb' \<rparr>) = fs_EncodeSnapshotTo fs"
    by (simp add: fs_EncodeSnapshotTo_def)
  have "\<not> ok st3 \<and> \<not> ok st \<and> \<not> IsNoSpace st \<and> s' = delete_AquaMetaLog o_ml s3
     \<or> ok st3 \<and> (\<exists>s4. AddRecord be ?ml (fs_EncodeSnapshotTo fs) s3 = Some (st, s4)
         \<and> s' = delete_AquaMetaLog o_ml (if ok st then meta_Reset be (ml_zone o_ml) s4 else s4))"
    "fs_meta_log fs' = Some ?ml"
    using run al i old s2 sb enc s3 snap
    by (auto simp: RollMetaZoneLocked_def Let_def bind_eq_Some_conv WriteSnapshotLocked_def drop_log_def IOError_def IsNoSpace_def ok_def
        split: if_splits)
  then show ?thesis by (rule started [OF i(2) s2 sb enc s3])
qed

subsection \<open>The logs after a roll\<close>

context zoned_device
begin

text \<open>The zone of the log holds exactly the records \<open>recs\<close>.\<close>

definition written :: "metalog \<Rightarrow> bytes list \<Rightarrow> 'a zbd \<Rightarrow> bool" where
  "written ml recs s = (ml_zone ml < length (meta_zones s)
     \<and> log_at (cont (zbd_be s)) (meta_zones s ! ml_zone ml) (ml_bs ml) recs
     \<and> unat (wp (meta_zones s ! ml_zone ml)) = unat (start (meta_zones s ! ml_zone ml)) + length (log_image (ml_bs ml) recs))"

lemma meta_ok_zone: "meta_ok s \<Longrightarrow> i < length (meta_zones s) \<Longrightarrow> zone_ok (be_zone_sz be (zbd_be s)) (meta_zones s ! i)
    \<and> unat (be_zone_sz be (zbd_be s)) dvd unat (start (meta_zones s ! i))"
  by (simp add: meta_ok_def)

lemma zone_kept_written:
  assumes "zone_kept (ml_zone ml) s s'" "meta_only s s'" "meta_ok s" "written ml recs s"
  shows "written ml recs s'"
  using assms zone_kept_log [OF assms(1), of "ml_bs ml" recs] meta_ok_zone [OF assms(3), of "ml_zone ml"]
  by (auto simp: written_def zone_kept_def meta_only_def)

lemma AddRecord_written:
  assumes "zbd_ok s" "meta_ok s" "written ml recs s" "record_fits (ml_bs ml) r" "AddRecord be ml r s = Some (st, s')" "ok st"
  shows "written ml (recs @ [r]) s'"
proof -
  have i: "ml_zone ml < length (meta_zones s)" using assms(3) by (simp add: written_def)
  have "ml_zone ml < length (meta_zones s')" using AddRecord_only [OF assms(5,1,2) i] i by (simp add: meta_only_def)
  then show ?thesis
    using AddRecord_log [OF _ i conjunct1 [OF meta_ok_zone [OF assms(2) i]] _ _ assms(4-6), of recs] assms(1,3)
    by (simp add: written_def zbd_ok_def)
qed

lemma new_log_written:
  assumes "meta_ok s" "i < length (meta_zones s)" "wp (meta_zones s ! i) = start (meta_zones s ! i)"
    and "unat (GetBlockSize be s) dvd unat (be_zone_sz be (zbd_be s))"
  shows "written (new_AquaMetaLog be i s) [] s"
  using assms meta_ok_zone [OF assms(1,2)] start_aligned [of "be_zone_sz be (zbd_be s)" _ "GetBlockSize be s"]
  by (simp add: written_def new_AquaMetaLog_def log_at_def bytes_at_def)

lemma meta_only_block: "meta_only s s' \<Longrightarrow> GetBlockSize be s' = GetBlockSize be s"
  by (simp add: meta_only_def GetBlockSize_def)

lemma meta_step_other:
  assumes st: "meta_step i s s'" and ok: "zbd_ok s" "meta_ok s" and w: "written ml recs s" "ml_zone ml \<noteq> i"
  shows "zbd_ok s' \<and> meta_ok s' \<and> written ml recs s'"
  using zone_kept_written [OF meta_step_kept [OF st _ w(2)] meta_step_only [OF st] ok(2) w(1)] meta_only_ok [OF meta_step_only [OF st]] w(1)
  by (simp add: written_def)

text \<open>The first steps of a roll: the superblock is in the new zone.\<close>

lemma roll_superblock:
  assumes ok: "zbd_ok s" "meta_ok s" and old: "ml_zone o_ml < length (meta_zones s)" "busy (meta_zones s ! ml_zone o_ml)"
    and blk: "unat (GetBlockSize be s) dvd unat (be_zone_sz be (zbd_be s))" "record_fits (ucast (GetBlockSize be s)) ss"
    and al: "AllocateMetaZone be s = (st1, Some i, s1)" and e: "end_old_log be (Some o_ml) s1 = Some s2"
    and ml: "ml = new_AquaMetaLog be i s1" and add: "AddRecord be ml ss s2 = Some (st3, s3)" "ok st3"
  shows "written ml [ss] s3" "zbd_ok s3" "meta_ok s3" "ml_zone ml \<noteq> ml_zone o_ml" "ml_zone o_ml < length (meta_zones s3)"
    "ml_bs ml = ucast (GetBlockSize be s)" "ml_zone ml < length (meta_zones s3)"
proof -
  note a = AllocateMetaZone_only [OF al ok] AllocateMetaZone_kept [OF al ok old]
  show bs: "ml_bs ml = ucast (GetBlockSize be s)"
    using meta_only_block [OF a(1)] by (simp add: ml new_AquaMetaLog_def)
  show ne: "ml_zone ml \<noteq> ml_zone o_ml" using a(4) by (simp add: ml new_AquaMetaLog_def)
  have s1: "zbd_ok s1" "meta_ok s1" "ml_zone o_ml < length (meta_zones s1)" using meta_only_ok [OF a(1)] old(1) by simp_all
  have w1: "written ml [] s1"
    using new_log_written [OF s1(2) a(2) a(5)] blk(1) a(1) by (simp add: ml meta_only_def GetBlockSize_def)
  note e' = end_old_log_step [OF e s1]
  have s2: "zbd_ok s2 \<and> meta_ok s2 \<and> written ml [] s2" by (rule meta_step_other [OF e' s1(1,2) w1 ne])
  then have il: "ml_zone ml < length (meta_zones s2)" by (simp add: written_def)
  note m3 = meta_only_ok [OF AddRecord_only [OF add(1) _ _ il]]
  then show "zbd_ok s3" "meta_ok s3" using s2 by simp_all
  show "ml_zone o_ml < length (meta_zones s3)" "ml_zone ml < length (meta_zones s3)"
    using m3 s2 meta_only_ok [OF meta_step_only [OF e']] s1(3) il by simp_all
  have "written ml ([] @ [ss]) s3" by (rule AddRecord_written [OF _ _ _ _ add]) (use s2 blk(2) bs in simp_all)
  then show "written ml [ss] s3" by simp
qed

lemma roll_read_pos:
  assumes run: "RollMetaZoneLocked be fs s = Some (st, fs', s')" and ok: "zbd_ok s" "meta_ok s"
    and old: "fs_meta_log fs = Some o_ml" "ml_zone o_ml < length (meta_zones s)" and al: "AllocateMetaZone be s = (st1, Some i, s1)"
  shows "read_pos (new_AquaMetaLog be i s1) = start (meta_zones s' ! ml_zone (new_AquaMetaLog be i s1))"
  using RollMetaZoneLocked_only [OF run ok] AllocateMetaZone_only [OF al ok] old nth_map [of i "meta_zones s'" start]
    nth_map [of i "meta_zones s1" start] by (simp add: meta_only_def log_in_def new_AquaMetaLog_def)

lemma roll_new_log:
  assumes run: "RollMetaZoneLocked be fs s = Some (st, fs', s')" "ok st"
    and old: "fs_meta_log fs = Some o_ml" "ml_zone o_ml < length (meta_zones s)" "busy (meta_zones s ! ml_zone o_ml)"
    and ok: "zbd_ok s" "meta_ok s" and blk: "unat (GetBlockSize be s) dvd unat (be_zone_sz be (zbd_be s))"
    and sb: "fs_superblock fs = Some sb" "record_fits (ucast (GetBlockSize be s)) (fst (sb_EncodeTo sb))"
      "record_fits (ucast (GetBlockSize be s)) (fs_EncodeSnapshotTo fs)"
  shows "\<exists>ml. fs_meta_log fs' = Some ml \<and> written ml [fst (sb_EncodeTo sb), fs_EncodeSnapshotTo fs] s'
    \<and> read_pos ml = start (meta_zones s' ! ml_zone ml)"
proof -
  obtain st1 zn s1 where al: "AllocateMetaZone be s = (st1, zn, s1)" by (metis prod_cases3)
  from run(1) old(1) al show ?thesis
  proof (cases rule: RollMetaZoneLocked_cases)
    case no_zone
    then show ?thesis using run(2) by simp
  next
    case (started i s2 sb1 ss sb' st3 s3)
    define ml where "ml = new_AquaMetaLog be i s1"
    note al' = al [unfolded started(1)] and add = started(5) [folded ml_def]
    have ss: "ss = fst (sb_EncodeTo sb)" using started(3,4) sb(1) by simp
    obtain s4 where ok3: "ok st3" and s4: "AddRecord be ml (fs_EncodeSnapshotTo fs) s3 = Some (st, s4)"
      and s': "s' = delete_AquaMetaLog o_ml (meta_Reset be (ml_zone o_ml) s4)"
      using started(6) run(2) by (auto simp: ml_def)
    note n = roll_superblock [OF ok old(2,3) blk _ al' started(2) ml_def add ok3, unfolded ss, OF sb(2)]
    note m4 = meta_only_ok [OF AddRecord_only [OF s4 n(2,3,7)]]
    have "written ml ([fst (sb_EncodeTo sb)] @ [fs_EncodeSnapshotTo fs]) s4"
      by (rule AddRecord_written [OF n(2,3,1) _ s4 run(2)]) (use n(6) sb(3) in simp)
    then have w4: "written ml [fst (sb_EncodeTo sb), fs_EncodeSnapshotTo fs] s4" by simp
    have r: "meta_step (ml_zone o_ml) s4 (meta_Reset be (ml_zone o_ml) s4)"
      by (rule meta_Reset_step) (use m4 n(5) in simp_all)
    note w5 = meta_step_other [OF r _ _ w4 n(4)] and m5 = meta_only_ok [OF meta_step_only [OF r]]
    have d: "meta_step (ml_zone o_ml) (meta_Reset be (ml_zone o_ml) s4) s'"
      unfolding s' by (rule delete_log_step) (use m5 m4 n(5) in simp_all)
    from meta_step_other [OF d _ _ _ n(4)] w5 m4
    have "written ml [fst (sb_EncodeTo sb), fs_EncodeSnapshotTo fs] s'" by blast
    then show ?thesis using started(7) roll_read_pos [OF run(1) ok old(1,2) al'] by (simp add: ml_def)
  qed
qed

end

context zoned_device
begin

text \<open>The zone of the log holds the records \<open>recs\<close>, and a reader finds their end.\<close>

definition readable :: "metalog \<Rightarrow> bytes list \<Rightarrow> 'a zbd \<Rightarrow> bool" where
  "readable ml recs s = (\<exists>fin. log_at (cont (zbd_be s)) (meta_zones s ! ml_zone ml) (ml_bs ml) (recs @ fin)
     \<and> log_ended (meta_zones s ! ml_zone ml) (ml_bs ml) recs fin)"

lemma written_readable: "written ml recs s \<Longrightarrow> readable ml recs s"
  by (auto simp: written_def readable_def log_ended_def intro: exI [of _ "[]"])

lemma zone_kept_readable:
  assumes "zone_kept (ml_zone ml) s s'" "meta_ok s" "ml_zone ml < length (meta_zones s)" "readable ml recs s"
  shows "readable ml recs s'"
  using assms(1,4) zone_kept_log [OF assms(1) conjunct1 [OF meta_ok_zone [OF assms(2,3)]]]
  unfolding readable_def zone_kept_def by metis

lemma delete_log_readable: "readable ml recs (delete_AquaMetaLog ml s) = readable ml recs s"
  by (cases "ml_zone ml < length (meta_zones s)")
    (simp_all add: readable_def delete_AquaMetaLog_def set_meta_def Release_def log_at_def log_ended_def list_update_beyond)

lemma Finish_readable:
  assumes "zbd_ok s" "meta_ok s" "written ml (recs @ [PutFixed32 [] kEndRecord]) s"
  shows "readable ml recs (meta_Finish be (ml_zone ml) s)"
proof -
  let ?z = "meta_zones s ! ml_zone ml" and ?zs = "be_zone_sz be (zbd_be s)"
  let ?recs = "recs @ [PutFixed32 [] kEndRecord]"
  have i: "ml_zone ml < length (meta_zones s)" using assms(3) by (simp add: written_def)
  have z: "zone_ok ?zs ?z" using meta_ok_zone [OF assms(2) i] by simp
  obtain st z' b where f: "Finish be ?z (zbd_be s) = (st, z', b)" by (metis prod_cases3)
  have b: "b = snd (be_Finish be (start ?z) (zbd_be s))"
    and z': "start z' = start ?z" "max_capacity z' = max_capacity ?z" "wp z' = wp ?z \<or> wp z' = start ?z + be_zone_sz be b"
    using f by (auto simp: Finish_def Let_def split: prod.splits if_splits)
  have c: "cont b = cont (zbd_be s)" "be_zone_sz be b = ?zs"
    using finish_cont assms(1) by (simp_all add: b zbd_ok_def geometry)
  have log: "log_at (cont (zbd_be s)) ?z (ml_bs ml) ?recs" using assms(3) by (simp add: written_def)
  have "unat (start ?z) + length (log_image (ml_bs ml) ?recs) \<le> unat (wp z')"
    using z'(3) log z c(2) unat_add_no_wrap [of "start ?z" ?zs] by (auto simp: log_at_def zone_ok_def)
  then have "log_at (cont b) z' (ml_bs ml) ?recs" using log z' by (simp add: log_at_def c(1))
  then show ?thesis
    using i f by (auto simp: readable_def meta_Finish_def set_meta_def log_ended_def
        intro!: exI [of _ "[PutFixed32 [] kEndRecord]"])
qed

lemma end_old_log_readable:
  assumes run: "end_old_log be (Some ml) s = Some s'" and ok: "zbd_ok s" "meta_ok s" and w: "written ml recs s"
    and fit: "record_fits (ml_bs ml) (PutFixed32 [] kEndRecord)"
    and room: "capacity (meta_zones s ! ml_zone ml) = 0 \<or> (\<exists>st s1. WriteEndRecord be ml s = Some (st, s1) \<and> ok st)"
  shows "readable ml recs s'"
proof (cases "capacity (meta_zones s ! ml_zone ml) = 0")
  case True
  then show ?thesis using run written_readable [OF w] by (simp add: end_old_log_def GetCapacityLeft_def)
next
  case False
  then obtain st s1 where e: "WriteEndRecord be ml s = Some (st, s1)" "ok st" using room by auto
  have i: "ml_zone ml < length (meta_zones s)" using w by (simp add: written_def)
  note e1 = e(1) [unfolded WriteEndRecord_def]
  have w1: "written ml (recs @ [PutFixed32 [] kEndRecord]) s1" by (rule AddRecord_written [OF ok w fit e1 e(2)])
  have ok1: "zbd_ok s1" "meta_ok s1" using meta_only_ok [OF AddRecord_only [OF e1 ok i]] by simp_all
  have "readable ml recs s1"
    using w1 by (auto simp: readable_def written_def log_ended_def)
  then show ?thesis
    using run e(1) False Finish_readable [OF ok1 w1] by (auto simp: end_old_log_def GetCapacityLeft_def split: if_splits)
qed

lemma roll_old_log:
  assumes run: "RollMetaZoneLocked be fs s = Some (st, fs', s')" "\<not> ok st"
    and old: "fs_meta_log fs = Some o_ml" "busy (meta_zones s ! ml_zone o_ml)" "written o_ml recs s"
    and ok: "zbd_ok s" "meta_ok s" and fit: "record_fits (ml_bs o_ml) (PutFixed32 [] kEndRecord)"
    and room: "capacity (meta_zones s ! ml_zone o_ml) = 0
      \<or> (\<exists>st2 s2. WriteEndRecord be o_ml (snd (snd (AllocateMetaZone be s))) = Some (st2, s2) \<and> ok st2)"
  shows "readable o_ml recs s'"
proof -
  have k: "ml_zone o_ml < length (meta_zones s)" using old(3) by (simp add: written_def)
  obtain st1 zn s1 where al: "AllocateMetaZone be s = (st1, zn, s1)" by (metis prod_cases3)
  note a = AllocateMetaZone_only [OF al ok] AllocateMetaZone_kept [OF al ok k old(2)]
  have w1: "written o_ml recs s1" by (rule zone_kept_written [OF a(3,1) ok(2) old(3)])
  from run(1) old(1) al show ?thesis
  proof (cases rule: RollMetaZoneLocked_cases)
    case no_zone
    then show ?thesis using written_readable [OF w1] by simp
  next
    case (started i s2 sb ss sb' st3 s3)
    let ?ml = "new_AquaMetaLog be i s1" and ?k = "ml_zone o_ml"
    have ml: "ml_zone ?ml = i" "i \<noteq> ?k" using a(4) started(1) by (auto simp: new_AquaMetaLog_def)
    have s1: "zbd_ok s1" "meta_ok s1" "?k < length (meta_zones s1)" using meta_only_ok [OF a(1)] k by simp_all
    note m2 = meta_only_ok [OF meta_step_only [OF end_old_log_step [OF started(2) s1]]]
    have r2: "readable o_ml recs s2"
      by (rule end_old_log_readable [OF started(2) s1(1,2) w1 fit]) (use room al a(3) in \<open>simp add: zone_kept_def\<close>)
    have i: "i < length (meta_zones s1)" using a(2) [OF started(1)] .
    have turn: "readable o_ml recs t' \<and> zbd_ok t' \<and> meta_ok t' \<and> length (meta_zones t') = length (meta_zones s1)"
      if "AddRecord be ?ml r t = Some (st5, t')" "readable o_ml recs t" "zbd_ok t" "meta_ok t"
        "length (meta_zones t) = length (meta_zones s1)" for r t st5 t'
    proof -
      have step: "meta_step i t t'" using AddRecord_step [OF that(1,3,4)] ml(1) i that(5) by simp
      have "zone_kept ?k t t'" by (rule meta_step_kept [OF step]) (use that(5) s1(3) ml(2) in auto)
      from zone_kept_readable [OF this that(4) _ that(2)] meta_only_ok [OF meta_step_only [OF step]] that(5) s1(3) show ?thesis by simp
    qed
    note r3 = turn [OF started(5) r2]
    show ?thesis
      using started(6) run(2) r3 turn [of _ s3] m2 by (auto simp: delete_log_readable)
  qed
qed

end

subsection \<open>What a mount finds\<close>

text \<open>A mount reads the first record of a log as the superblock and replays the others.\<close>

lemma readable_mounted:
  assumes zd: "zoned_device be cont I" and rd: "reading_device be cont I" and b: "I (zbd_be s)"
    and zsz: "\<forall>b. I b \<longrightarrow> be_zone_sz be b = be_zone_sz be (zbd_be s0)"
    and steps: "entries_steps be s0 (\<lambda>_. None) es T" and zones: "zones_like be s0 s"
    and z: "zone_ok zs (meta_zones s ! ml_zone ml)" and log: "zoned_device.readable cont ml (sb # map entry_bytes es) s"
    and pos: "read_pos ml = start (meta_zones s ! ml_zone ml)"
  shows "\<exists>ml1 s1 ml2 fs2 s2. ReadRecord be ml s = Some (OK, sb, ml1, s1)
    \<and> RecoverFrom be raid ml1 (new_AquaFS x now) s1 = Some ((recovery_result (list_ex is_snapshot es), ml2), fs2, s2)
    \<and> pview fs2 = T \<and> names_ok fs2"
proof -
  let ?z = "meta_zones s ! ml_zone ml"
  obtain fin where fin: "log_at (cont (zbd_be s)) ?z (ml_bs ml) ([] @ sb # map entry_bytes es @ fin)"
      "log_ended ?z (ml_bs ml) (sb # map entry_bytes es) fin"
    using log by (auto simp: zoned_device.readable_def [OF zd])
  let ?ml = "ml\<lparr> read_pos := start ?z + of_nat (length (log_image (ml_bs ml) ([] @ [sb]))) \<rparr>"
  obtain b' where r: "ReadRecord be ml s = Some (OK, sb, ?ml, s\<lparr> zbd_be := b' \<rparr>)" "I b'" "cont b' = cont (zbd_be s)"
    using reading_device.ReadRecord_log [OF rd b z fin(1)] pos by auto
  let ?s = "s\<lparr> zbd_be := b' \<rparr>"
  have "zones_like be s0 ?s" using zones zsz r(2) by (simp add: zones_like_def)
  then have "\<exists>ml2 fs2 s2. RecoverFrom be raid ?ml (new_AquaFS x now) ?s
      = Some ((recovery_result (list_ex is_snapshot es), ml2), fs2, s2) \<and> pview fs2 = T \<and> names_ok fs2"
    by (intro RecoverFrom_entries [OF rd _ zsz steps, where zs = zs and fin = fin and sb = sb])
      (use r fin z in simp_all)
  with r(1) show ?thesis by blast
qed

text \<open>The hypotheses on the device, as the properties state them.\<close>

lemma meta_device_ok:
  assumes "zoned_device be cont I" "I (zbd_be s)" "\<forall>z\<in>set (io_zones s). zone_ok (GetZoneSize be s) z"
    "\<forall>z\<in>set (meta_zones s). zone_ok (GetZoneSize be s) z \<and> unat (GetZoneSize be s) dvd unat (start z)"
    "disjoint_zones (unat (GetZoneSize be s)) (map start (meta_zones s @ io_zones s))"
  shows "zoned_device.zbd_ok be I s" "zoned_device.meta_ok be s"
  using fs_device_ok [OF assms, of "new_AquaFS x now" for x now]
  by (simp_all add: new_AquaFS_def zoned_device.writer_ok_def [OF assms(1)])

text \<open>After a roll the device places extents in the same zones.\<close>

lemma rolled_device:
  assumes zd: "zoned_device be cont I" and ok: "zoned_device.zbd_ok be I s" "zoned_device.meta_ok be s"
    and run: "RollMetaZoneLocked be fs s = Some (st, fs', s')"
    and log: "fs_meta_log fs = Some o_ml" "ml_zone o_ml < length (meta_zones s)"
  shows "I (zbd_be s') \<and> zones_like be s s' \<and> map start (meta_zones s') = map start (meta_zones s)
    \<and> zoned_device.zbd_ok be I s' \<and> zoned_device.meta_ok be s'
    \<and> (\<forall>i < length (meta_zones s). zone_ok (be_zone_sz be (zbd_be s)) (meta_zones s' ! i))"
proof -
  have "zoned_device.meta_only be cont I s s'"
    using zoned_device.RollMetaZoneLocked_only [OF zd run ok] log by (simp add: zoned_device.log_in_def [OF zd])
  then have m: "zoned_device.zbd_ok be I s'" "zoned_device.meta_ok be s'" "io_zones s' = io_zones s"
    "length (meta_zones s') = length (meta_zones s)" "map start (meta_zones s') = map start (meta_zones s)"
    "be_zone_sz be (zbd_be s') = be_zone_sz be (zbd_be s)"
    by (simp_all add: zoned_device.meta_only_def [OF zd])
  have "I (zbd_be s')" using m(1) by (simp add: zoned_device.zbd_ok_def [OF zd])
  moreover have "\<forall>i < length (meta_zones s). zone_ok (be_zone_sz be (zbd_be s)) (meta_zones s' ! i)"
    using zoned_device.meta_ok_zone [OF zd m(2)] m(4,6) by simp
  ultimately show ?thesis using m by (simp add: zones_like_def)
qed

text \<open>
  C2: a roll that succeeds has saved the table.  When \<open>RollMetaZoneLocked\<close> moves the metadata log to
  a new zone and reports success, the new zone begins with the new superblock, and replaying what
  follows it gives back the whole table of files, with the invariant of the table, although the old
  log has been reset.
\<close>

theorem rolled_table_recovered:
  assumes gc: "gc_device be cont I" and dev: "I (zbd_be s)" "\<forall>z\<in>set (io_zones s). zone_ok (GetZoneSize be s) z"
      "\<forall>z\<in>set (meta_zones s). zone_ok (GetZoneSize be s) z \<and> unat (GetZoneSize be s) dvd unat (start z)"
      "disjoint_zones (unat (GetZoneSize be s)) (map start (meta_zones s @ io_zones s))"
    and geo: "\<forall>b. I b \<longrightarrow> be_zone_sz be b = zsz" "unat (GetBlockSize be s) dvd unat (GetZoneSize be s)"
    and log: "fs_meta_log fs = Some o_ml" "ml_zone o_ml < length (meta_zones s)" "busy (meta_zones s ! ml_zone o_ml)"
    and tab: "names_ok fs" "\<forall>e\<in>set (fs_files fs). storable be s (fs_objs fs (snd e))"
    and sb: "fs_superblock fs = Some sb" "record_fits (ucast (GetBlockSize be s)) (fst (sb_EncodeTo sb))"
      "record_fits (ucast (GetBlockSize be s)) (fs_EncodeSnapshotTo fs)"
    and run: "RollMetaZoneLocked be fs s = Some (st, fs', s')" "ok st"
  shows "\<exists>ml ml1 s1 ml2 fs2 s2. fs_meta_log fs' = Some ml \<and> ReadRecord be ml s' = Some (OK, fst (sb_EncodeTo sb), ml1, s1)
    \<and> RecoverFrom be raid ml1 (new_AquaFS x now) s1 = Some ((OK, ml2), fs2, s2)
    \<and> pview fs2 = pview fs \<and> names_ok fs2"
proof -
  note zd = gc_device.axioms(1) [OF gc] and rd = gc_device.axioms(2) [OF gc]
  note ok = meta_device_ok [OF zd dev]
  note d = rolled_device [OF zd ok run(1) log(1,2)]
  obtain ml where ml: "fs_meta_log fs' = Some ml" "read_pos ml = start (meta_zones s' ! ml_zone ml)"
    and w: "zoned_device.written cont ml [fst (sb_EncodeTo sb), fs_EncodeSnapshotTo fs] s'"
    using zoned_device.roll_new_log [OF zd run log ok _ sb] geo(2) by (auto simp: GetZoneSize_def)
  have i: "ml_zone ml < length (meta_zones s)"
    using w d by (metis zoned_device.written_def [OF zd] length_map)
  have st: "entries_steps be s (\<lambda>_. None) [Snapshot fs] (pview fs)"
    by (rule entries_steps.step [OF entry_step.snapshot [OF tab] entries_steps.none])
  have zs: "\<forall>b. I b \<longrightarrow> be_zone_sz be b = be_zone_sz be (zbd_be s)" using geo(1) dev(1) by simp
  have r: "zoned_device.readable cont ml (fst (sb_EncodeTo sb) # map entry_bytes [Snapshot fs]) s'"
    using zoned_device.written_readable [OF zd w] by (simp add: entry_bytes_written)
  have z: "zone_ok (be_zone_sz be (zbd_be s)) (meta_zones s' ! ml_zone ml)" using d i by blast
  from readable_mounted [OF zd rd _ zs st _ z r ml(2), of raid x now] d ml(1) show ?thesis
    by (auto simp: recovery_result_def)
qed


subsection \<open>After a failed roll\<close>

context zoned_device
begin

lemma AddRecord_no_space:
  assumes "AddRecord be ml r s = Some (st, s')" "IsNoSpace st"
  shows "s' = s"
proof -
  let ?d = "record_buffer (ml_bs ml) r" and ?z = "meta_zones s ! ml_zone ml"
  obtain z b n where a: "Append be ?d ?z (zbd_be s) = Some (st, z, b, n)"
    and s': "s' = AddBytesWritten n (set_meta (ml_zone ml) z (s\<lparr> zbd_be := b \<rparr>))"
    using assms(1) by (auto simp: AddRecord_def meta_Append_def split: option.splits)
  have "capacity ?z < ucast (of_nat (length ?d) :: u32)"
    using a append_loop_not_NoSpace [of be ?d _ ?z "zbd_be s" 0] assms(2) by (fastforce simp: Append_def Let_def split: if_splits)
  then show ?thesis using a s' by (auto simp: Append_def AddBytesWritten_def set_meta_def)
qed

text \<open>When the snapshot has no room in the new zone, the file system goes on with a log that holds only
  a superblock.\<close>

lemma roll_no_snapshot:
  assumes run: "RollMetaZoneLocked be fs s = Some (st, fs', s')" "IsNoSpace st" "fs_meta_log fs' = Some ml" "ml \<noteq> o_ml"
    and old: "fs_meta_log fs = Some o_ml" "ml_zone o_ml < length (meta_zones s)" "busy (meta_zones s ! ml_zone o_ml)"
    and ok: "zbd_ok s" "meta_ok s" and blk: "unat (GetBlockSize be s) dvd unat (be_zone_sz be (zbd_be s))"
    and sb: "fs_superblock fs = Some sb" "record_fits (ucast (GetBlockSize be s)) (fst (sb_EncodeTo sb))"
  shows "written ml [fst (sb_EncodeTo sb)] s' \<and> ml_bs ml = ucast (GetBlockSize be s)
    \<and> read_pos ml = start (meta_zones s' ! ml_zone ml)"
proof -
  obtain st1 zn s1 where al: "AllocateMetaZone be s = (st1, zn, s1)" by (metis prod_cases3)
  from run(1) old(1) al show ?thesis
  proof (cases rule: RollMetaZoneLocked_cases)
    case no_zone
    then show ?thesis using run(3,4) old(1) by simp
  next
    case (started i s2 sb1 ss sb' st3 s3)
    have ml: "ml = new_AquaMetaLog be i s1" using started(7) run(3) by simp
    note al' = al [unfolded started(1)] and add = started(5) [folded ml]
    have ss: "ss = fst (sb_EncodeTo sb)" using started(3,4) sb(1) by simp
    have "\<not> ok st" using run(2) by (auto simp: IsNoSpace_def ok_def)
    then obtain s4 where ok3: "ok st3" and s4: "AddRecord be ml (fs_EncodeSnapshotTo fs) s3 = Some (st, s4)"
      and s': "s' = delete_AquaMetaLog o_ml s4"
      using started(6) run(2) by (auto simp: ml)
    note n = roll_superblock [OF ok old(2,3) blk _ al' started(2) ml add ok3, unfolded ss, OF sb(2)]
    have "s4 = s3" by (rule AddRecord_no_space [OF s4 run(2)])
    then have d: "meta_step (ml_zone o_ml) s3 s'" unfolding s' using delete_log_step [OF n(2,3,5)] by simp
    from meta_step_other [OF d n(2,3,1,4)] n(6) show ?thesis
      using roll_read_pos [OF run(1) ok old(1,2) al'] by (simp add: ml)
  qed
qed

end

text \<open>
  C29: an update acknowledged after a failed roll is lost.  When the snapshot does not fit into the new
  zone, \<open>RollMetaZoneLocked\<close> reports that there is no space, but the file system has already taken the
  new log into use.  The next record, of a file for instance, is written there and acknowledged; a
  mount that reads this log refuses it for want of a snapshot and goes back to the old log, which
  does not have the update.
\<close>

theorem failed_roll_loses_updates:
  assumes gc: "gc_device be cont I" and dev: "I (zbd_be s)" "\<forall>z\<in>set (io_zones s). zone_ok (GetZoneSize be s) z"
      "\<forall>z\<in>set (meta_zones s). zone_ok (GetZoneSize be s) z \<and> unat (GetZoneSize be s) dvd unat (start z)"
      "disjoint_zones (unat (GetZoneSize be s)) (map start (meta_zones s @ io_zones s))"
    and geo: "\<forall>b. I b \<longrightarrow> be_zone_sz be b = zsz" "unat (GetBlockSize be s) dvd unat (GetZoneSize be s)"
    and log: "fs_meta_log fs = Some o_ml" "ml_zone o_ml < length (meta_zones s)" "busy (meta_zones s ! ml_zone o_ml)"
    and sb: "fs_superblock fs = Some sb" "record_fits (ucast (GetBlockSize be s)) (fst (sb_EncodeTo sb))"
    and run: "RollMetaZoneLocked be fs s = Some (st, fs', s')" "IsNoSpace st" "fs_meta_log fs' = Some ml" "ml \<noteq> o_ml"
    and upd: "entry_step be s (\<lambda>_. None) e T" "\<not> is_snapshot e" "record_fits (ucast (GetBlockSize be s)) (entry_bytes e)"
      "AddRecord be ml (entry_bytes e) s' = Some (st2, s'')" "ok st2"
  shows "\<exists>ml1 s1 ml2 fs2 s2. ReadRecord be ml s'' = Some (OK, fst (sb_EncodeTo sb), ml1, s1)
    \<and> RecoverFrom be raid ml1 (new_AquaFS x now) s1
      = Some ((NotFound (str ''AquaFS'') (str ''No snapshot found''), ml2), fs2, s2)"
proof -
  note zd = gc_device.axioms(1) [OF gc] and rd = gc_device.axioms(2) [OF gc]
  note ok = meta_device_ok [OF zd dev]
  note d = rolled_device [OF zd ok run(1) log(1,2)]
  have n: "zoned_device.written cont ml [fst (sb_EncodeTo sb)] s'" "ml_bs ml = ucast (GetBlockSize be s)"
      "read_pos ml = start (meta_zones s' ! ml_zone ml)"
    using zoned_device.roll_no_snapshot [OF zd run log ok _ sb] geo(2) by (auto simp: GetZoneSize_def)
  have okd: "zoned_device.zbd_ok be I s'" "zoned_device.meta_ok be s'" using d by simp_all
  have i: "ml_zone ml < length (meta_zones s')" using n(1) by (simp add: zoned_device.written_def [OF zd])
  have w: "zoned_device.written cont ml ([fst (sb_EncodeTo sb)] @ [entry_bytes e]) s''"
    by (rule zoned_device.AddRecord_written [OF zd okd n(1) _ upd(4,5)]) (use n(2) upd(3) in simp)
  have r: "zoned_device.readable cont ml (fst (sb_EncodeTo sb) # map entry_bytes [e]) s''"
    using zoned_device.written_readable [OF zd w] by simp
  have m: "zoned_device.meta_only be cont I s' s''" by (rule zoned_device.AddRecord_only [OF zd upd(4) okd i])
  note m' = m [unfolded zoned_device.meta_only_def [OF zd]]
  have z: "zone_ok (be_zone_sz be (zbd_be s'')) (meta_zones s'' ! ml_zone ml)"
    using zoned_device.meta_ok_zone [OF zd, of s'' "ml_zone ml"] m' i by simp
  have p: "read_pos ml = start (meta_zones s'' ! ml_zone ml)"
    using n(3) m' i nth_map [of "ml_zone ml" "meta_zones s''" start] nth_map [of "ml_zone ml" "meta_zones s'" start] by simp
  have b: "I (zbd_be s'')" using m' by (simp add: zoned_device.zbd_ok_def [OF zd])
  have zl: "zones_like be s s''" using d m' by (simp add: zones_like_def)
  have zs: "\<forall>b. I b \<longrightarrow> be_zone_sz be b = be_zone_sz be (zbd_be s)" using geo(1) dev(1) by simp
  have st: "entries_steps be s (\<lambda>_. None) [e] T" by (rule entries_steps.step [OF upd(1) entries_steps.none])
  from readable_mounted [OF zd rd b zs st zl z r p, of raid x now] upd(2) show ?thesis
    by (auto simp: recovery_result_def)
qed

subsection \<open>Concrete rolls\<close>

text \<open>A device keeps its zone size, so that the invariant can name it.\<close>

context gc_device
begin

lemma sized: "gc_device be cont (\<lambda>b. inv b \<and> zs = be_zone_sz be b)"
  by unfold_locales (simp_all add: write_inv write_result write_frame write_stored read_inv read_cont read_result read_data
    reset_inv reset_frame reset_capacity finish_inv finish_cont close_inv close_cont geometry read_positive)

end

text \<open>A metadata zone of the simulated device that agrees with its descriptor.\<close>

definition sim_synced :: "nat \<Rightarrow> simdev zbdlib zbd \<Rightarrow> bool" where
  "sim_synced i s = (let z = meta_zones s ! i; d = zl_dev (zbd_be s); y = sd_zones d ! i in
     i < length (meta_zones s) \<and> i < length (sd_zones d) \<and> 0 \<le> zl_write_f (zbd_be s)
     \<and> z_wp y = wp z \<and> z_cond y \<notin> {COND_FULL, COND_OFFLINE, COND_READONLY}
     \<and> (\<forall>k < unat (capacity z). sim_idx d (wp z + of_nat k) = i)
     \<and> unat (wp z) + unat (capacity z) \<le> unat (z_start y) + unat (z_capacity y)
     \<and> unat (wp z) + unat (capacity z) < 2 ^ 64)"

lemma Append_exact:
  assumes "be_Write be data (wp z) b = (int (length data), b')" "length data < 2 ^ 31" "data \<noteq> []"
    "length data \<le> unat (capacity z)"
  shows "\<exists>n. Append be data z b = Some (OK, advance (length data) z, b', n)"
proof -
  have u: "unat (of_nat (length data) :: u32) = length data" using assms(2) by (simp add: unat_of_nat_small)
  have "\<not> capacity z < ucast (of_nat (length data) :: u32)"
    using assms(4) u by (simp add: word_less_nat_alt)
  moreover have "(of_nat (length data) :: u32) \<noteq> 0" using assms(3) u by (intro notI) simp
  ultimately show ?thesis
    using assms(1) u by (simp add: Append_def append_loop.simps [of _ _ "of_nat (length data)"] append_loop.simps [of _ _ 0] advance_def)
qed

lemma sim_AddRecord:
  assumes sy: "sim_synced i s" and ml: "ml_zone ml = i" "ml_bs ml = 4"
    and len: "length (record_buffer 4 r) \<le> unat (capacity (meta_zones s ! i))" "length r < 2048"
  shows "\<exists>s'. AddRecord demo_be ml r s = Some (OK, s') \<and> sim_synced i s'
    \<and> meta_zones s' = (meta_zones s)[i := advance (length (record_buffer 4 r)) (meta_zones s ! i)]
    \<and> GetBlockSize demo_be s' = GetBlockSize demo_be s"
proof -
  let ?z = "meta_zones s ! i" and ?d = "record_buffer 4 r" and ?b = "zbd_be s" and ?v = "zl_dev (zbd_be s)"
  have fit: "record_fits 4 r" using len(2) by (simp add: record_fits_def)
  have l: "length ?d \<le> length r + 12" "?d \<noteq> []"
    using length_record_buffer [OF fit] blocks_up_props(1,2) [of 4 "8 + length r"] by auto
  have pos: "0 < length ?d" using l(2) by simp
  have cap: "length ?d \<le> unat (capacity ?z)" "length ?d < 2 ^ 31" "0 < unat (capacity ?z)" "length ?d \<le> 2147479552"
    using l len less_le_trans [OF pos len(1)] by simp_all
  have idx: "sim_idx ?v (wp ?z) = i" using sy cap(3) by (auto simp: sim_synced_def Let_def dest: spec [of _ 0])
  let ?v' = "?v\<lparr> sd_mem := store_bytes (unat (wp ?z)) ?d (sd_mem ?v),
     sd_zones := (sd_zones ?v)[i := (sd_zones ?v ! i)\<lparr> z_wp := wp ?z + of_nat (length ?d), z_cond := COND_IMP_OPEN \<rparr>] \<rparr>"
  have w: "be_Write demo_be ?d (wp ?z) ?b = (int (length ?d), ?b\<lparr> zl_dev := ?v' \<rparr>)"
    using sy idx cap
    by (simp add: sim_synced_def Let_def zbdlib_backend_def zbdlib_Write_def sim_libzbd_def sim_pwrite_def sim_can_write_def to_int32_nat)
  obtain n where a: "Append demo_be ?d ?z ?b = Some (OK, advance (length ?d) ?z, ?b\<lparr> zl_dev := ?v' \<rparr>, n)"
    using Append_exact [OF w cap(2) l(2) cap(1)] by blast
  let ?s = "AddBytesWritten n (set_meta i (advance (length ?d) ?z) (s\<lparr> zbd_be := ?b\<lparr> zl_dev := ?v' \<rparr> \<rparr>))"
  have adv: "unat (wp (advance (length ?d) ?z)) = unat (wp ?z) + length ?d"
    "unat (capacity (advance (length ?d) ?z)) = unat (capacity ?z) - length ?d"
    using unat_advance [OF cap(1)] sy by (simp_all add: sim_synced_def Let_def)
  have "sim_idx ?v (wp ?z + of_nat (length ?d) + of_nat k) = i" if "k < unat (capacity ?z) - length ?d" for k
    using sy that by (auto simp: sim_synced_def Let_def add.assoc simp flip: of_nat_add dest: spec [of _ "length ?d + k"])
  then have "sim_synced i ?s"
    using sy adv cap(1) by (simp add: sim_synced_def Let_def AddBytesWritten_def set_meta_def sim_idx_def advance_def [of _ ?z])
  moreover have "AddRecord demo_be ml r s = Some (OK, ?s)" using a by (simp add: AddRecord_def meta_Append_def ml)
  ultimately show ?thesis
    by (intro exI [of _ ?s]) (simp add: AddBytesWritten_def set_meta_def GetBlockSize_def zbdlib_backend_def)
qed

text \<open>A volume whose first metadata zone holds a log and has no room, with a second metadata zone of \<open>cap\<close>
  bytes.\<close>

definition demo_super :: superblock where
  "demo_super = new_Superblock demo_be None (str ''id'') (str ''v1'') (str ''/aux'') 5 True False demo_zbd"

definition demo_roll :: "u64 \<Rightarrow> simdev zbdlib zbd" where
  "demo_roll cap = (new_ZonedBlockDevice (demo_dev\<lparr> zl_zone_sz := 2048, zl_nr_zones := 2,
       zl_dev := \<lparr> sd_zones = [(sim_zone 2048 2048 0)\<lparr> z_wp := 2048, z_cond := COND_FULL \<rparr>, sim_zone 2048 2048 1],
         sd_mem = store_bytes 0 (log_image 4 [[9], fs_EncodeSnapshotTo (demo_fs 0)]) (\<lambda>_. 0),
         sd_block = 4, sd_zone_size = 2048 \<rparr> \<rparr>))
     \<lparr> meta_zones := [\<lparr> busy = True, start = 0, capacity = 0, max_capacity = 2048, wp = 92, lifetime = 0, used_capacity = 0 \<rparr>,
         \<lparr> busy = False, start = 2048, capacity = cap, max_capacity = cap, wp = 2048, lifetime = 0, used_capacity = 0 \<rparr>] \<rparr>"

definition demo_roll_log :: metalog where
  "demo_roll_log = \<lparr> read_pos = 0, ml_zone = 0, ml_bs = 4 \<rparr>"

definition demo_roll_fs :: "unit aquafs" where
  "demo_roll_fs = (demo_fs 0)\<lparr> fs_superblock := Some demo_super, fs_meta_log := Some demo_roll_log \<rparr>"

lemma demo_super_length: "length (fst (sb_EncodeTo demo_super)) = 512"
  by (simp add: demo_super_def sb_fields_EncodeTo(2) [OF sb_wf_new] ENCODED_SIZE_def)

lemma demo_buffers:
  "length (record_buffer 4 (fst (sb_EncodeTo demo_super))) = 520"
  "length (record_buffer 4 (fs_EncodeSnapshotTo demo_roll_fs)) = 80"
  "record_fits 4 (fst (sb_EncodeTo demo_super))" "record_fits 4 (fs_EncodeSnapshotTo demo_roll_fs)"
  "fs_EncodeSnapshotTo demo_roll_fs = fs_EncodeSnapshotTo (demo_fs 0)"
proof -
  show e: "fs_EncodeSnapshotTo demo_roll_fs = fs_EncodeSnapshotTo (demo_fs 0)"
    by (simp add: fs_EncodeSnapshotTo_def demo_roll_fs_def)
  show f: "record_fits 4 (fst (sb_EncodeTo demo_super))" "record_fits 4 (fs_EncodeSnapshotTo demo_roll_fs)"
    by (simp_all add: record_fits_def demo_super_length e demo_snapshot_length)
  show "length (record_buffer 4 (fst (sb_EncodeTo demo_super))) = 520"
    "length (record_buffer 4 (fs_EncodeSnapshotTo demo_roll_fs)) = 80"
    by (simp_all add: length_record_buffer [OF f(1)] length_record_buffer [OF f(2) [unfolded e]] blocks_up_def demo_super_length e demo_snapshot_length)
qed

lemma demo_roll_device:
  assumes "unat cap \<le> 2048"
  shows "(sim_ok (zbd_be (demo_roll cap)) \<and> 0 \<le> zl_read_f (zbd_be (demo_roll cap)) \<and> 0 \<le> zl_read_direct_f (zbd_be (demo_roll cap)))
      \<and> 2048 = be_zone_sz demo_be (zbd_be (demo_roll cap))"
    "\<forall>z\<in>set (io_zones (demo_roll cap)). zone_ok (GetZoneSize demo_be (demo_roll cap)) z"
    "\<forall>z\<in>set (meta_zones (demo_roll cap)). zone_ok (GetZoneSize demo_be (demo_roll cap)) z
      \<and> unat (GetZoneSize demo_be (demo_roll cap)) dvd unat (start z)"
    "disjoint_zones (unat (GetZoneSize demo_be (demo_roll cap))) (map start (meta_zones (demo_roll cap) @ io_zones (demo_roll cap)))"
    "GetBlockSize demo_be (demo_roll cap) = 4" "GetZoneSize demo_be (demo_roll cap) = 2048"
  using assms
  by (simp_all add: demo_roll_def new_ZonedBlockDevice_def sim_ok_def demo_dev_def sim_zone_def zone_ok_def GetZoneSize_def
      GetBlockSize_def zbdlib_backend_def disjoint_zones_two)

definition demo_rolled :: "u64 \<Rightarrow> simdev zbdlib zbd" where
  "demo_rolled cap = set_meta 1 ((meta_zones (demo_roll cap) ! 1)\<lparr> busy := True \<rparr>) (demo_roll cap)"

lemma demo_roll_start:
  "AllocateMetaZone demo_be (demo_roll cap) = (OK, Some 1, demo_rolled cap)"
  "end_old_log demo_be (Some demo_roll_log) (demo_rolled cap) = Some (demo_rolled cap)"
  "ml_bs (new_AquaMetaLog demo_be 1 (demo_rolled cap)) = 4" "ml_zone (new_AquaMetaLog demo_be 1 (demo_rolled cap)) = 1"
  "meta_zones (demo_rolled cap) ! 1 = \<lparr> busy = True, start = 2048, capacity = cap, max_capacity = cap, wp = 2048,
     lifetime = 0, used_capacity = 0 \<rparr>" "length (meta_zones (demo_rolled cap)) = 2"
  by (simp_all add: AllocateMetaZone_def demo_rolled_def demo_roll_def set_meta_def Acquire_def IsUsed_def IsEmpty_def upt_rec [of 0]
      upt_rec [of "Suc 0"] end_old_log_def demo_roll_log_def GetCapacityLeft_def new_AquaMetaLog_def GetBlockSize_def new_ZonedBlockDevice_def
      demo_dev_def zbdlib_backend_def)

lemma demo_roll_synced: "unat cap \<le> 2048 \<Longrightarrow> sim_synced 1 (demo_rolled cap)"
proof -
  assume c: "unat cap \<le> 2048"
  have "unat ((2048 + of_nat k :: u64) div 2048) = 1" if "k < unat cap" for k
  proof -
    have "unat (2048 + of_nat k :: u64) = 2048 + k" using that c by (simp add: unat_add_no_wrap unat_of_nat_small)
    then show ?thesis using that c by (simp add: unat_div)
  qed
  then show ?thesis
    using c demo_roll_start(5) [of cap]
    by (simp add: sim_synced_def Let_def demo_roll_start(6)) (simp add: demo_rolled_def demo_roll_def set_meta_def new_ZonedBlockDevice_def
        demo_dev_def sim_zone_def sim_idx_def)
qed

lemma demo_roll_super:
  assumes "520 \<le> unat cap" "unat cap \<le> 2048"
  shows "\<exists>s. AddRecord demo_be (new_AquaMetaLog demo_be 1 (demo_rolled cap)) (fst (sb_EncodeTo demo_super)) (demo_rolled cap) = Some (OK, s)
    \<and> sim_synced 1 s \<and> unat (capacity (meta_zones s ! 1)) = unat cap - 520"
proof -
  let ?z = "meta_zones (demo_rolled cap) ! 1"
  have "unat (capacity (advance 520 ?z)) = unat (capacity ?z) - 520"
    by (rule unat_advance) (use assms in \<open>simp_all add: demo_roll_start(5) [unfolded One_nat_def]\<close>)
  then show ?thesis
    using sim_AddRecord [OF demo_roll_synced [OF assms(2)] demo_roll_start(4,3) [of cap], of "fst (sb_EncodeTo demo_super)"] assms
    by (auto simp: demo_buffers demo_super_length demo_roll_start(6) demo_roll_start(5) [unfolded One_nat_def])
qed

lemma demo_roll_fs_facts:
  "fs_meta_log demo_roll_fs = Some demo_roll_log" "fs_superblock demo_roll_fs = Some demo_super"
  "pview demo_roll_fs = pview (demo_fs 0)" "fs_files demo_roll_fs = [([47, 97], 0)]" "names_ok demo_roll_fs"
proof -
  show "fs_meta_log demo_roll_fs = Some demo_roll_log" "fs_superblock demo_roll_fs = Some demo_super"
    "pview demo_roll_fs = pview (demo_fs 0)" "fs_files demo_roll_fs = [([47, 97], 0)]"
    by (simp_all add: demo_roll_fs_def pview_def fun_eq_iff demo_fs_facts(1))
  show "names_ok demo_roll_fs" using demo_fs_facts(8) [of 0] unfolding demo_roll_fs_def names_ok_def by simp
qed

lemma demo_roll_storable: "storable demo_be s (fs_objs demo_roll_fs a)"
  using demo_storable by (simp add: storable_def demo_roll_fs_def demo_fs_def AddLinkName_def new_ZoneFile_def)

lemma demo_roll_busy: "busy (meta_zones (demo_roll cap) ! ml_zone demo_roll_log)" "ml_zone demo_roll_log < length (meta_zones (demo_roll cap))"
  by (simp_all add: demo_roll_def demo_roll_log_def)

theorem rolled_table_recovered_witness:
  "\<exists>fs s ml ml1 s1 ml2 fs2 s2. RollMetaZoneLocked demo_be demo_roll_fs (demo_roll 2048) = Some (OK, fs, s)
    \<and> fs_meta_log fs = Some ml \<and> ReadRecord demo_be ml s = Some (OK, fst (sb_EncodeTo demo_super), ml1, s1)
    \<and> RecoverFrom demo_be (\<lambda>_ _ b. (OK, b)) ml1 (new_AquaFS () 7) s1 = Some ((OK, ml2), fs2, s2)
    \<and> pview fs2 (str ''/a'') \<noteq> None"
proof -
  let ?ml = "new_AquaMetaLog demo_be 1 (demo_rolled 2048)"
  have c: "520 \<le> unat (2048 :: u64)" "unat (2048 :: u64) \<le> 2048" by simp_all
  obtain sb sb' where enc: "sb_EncodeTo demo_super = (sb, sb')" by fastforce
  obtain s3 where s3: "AddRecord demo_be ?ml sb (demo_rolled 2048) = Some (OK, s3)" "sim_synced 1 s3" "unat (capacity (meta_zones s3 ! 1)) = 1528"
    using demo_roll_super [OF c] enc by auto
  obtain s4 where s4: "AddRecord demo_be ?ml (fs_EncodeSnapshotTo demo_roll_fs) s3 = Some (OK, s4)"
    using sim_AddRecord [OF s3(2) demo_roll_start(4,3) [of 2048], of "fs_EncodeSnapshotTo demo_roll_fs"] s3(3)
    by (auto simp: demo_buffers(2) [unfolded demo_buffers(5)] demo_buffers(5) demo_snapshot_length)
  obtain fs s where run: "RollMetaZoneLocked demo_be demo_roll_fs (demo_roll 2048) = Some (OK, fs, s)"
    using s3(1) s4 enc demo_roll_start(1,2) [of 2048] demo_roll_fs_facts(1,2)
    by (auto simp: RollMetaZoneLocked_def Let_def WriteSnapshotLocked_def ok_def OK_def fs_EncodeSnapshotTo_def)
  have fits: "record_fits (ucast (GetBlockSize demo_be (demo_roll 2048))) (fst (sb_EncodeTo demo_super))"
    "record_fits (ucast (GetBlockSize demo_be (demo_roll 2048))) (fs_EncodeSnapshotTo demo_roll_fs)"
    "unat (GetBlockSize demo_be (demo_roll 2048)) dvd unat (GetZoneSize demo_be (demo_roll 2048))"
    using demo_buffers by (simp_all add: demo_roll_device)
  note dev = demo_roll_device [OF c(2)]
  from rolled_table_recovered [OF gc_device.sized [OF sim_gc.gc_device_axioms, of 2048] dev(1-4) _ fits(3) demo_roll_fs_facts(1)
      demo_roll_busy(2,1) demo_roll_fs_facts(5) _ demo_roll_fs_facts(2) fits(1,2) run, of 2048 "\<lambda>_ _ b. (OK, b)" "()" 7]
  obtain ml ml1 s1 ml2 fs2 s2 where "fs_meta_log fs = Some ml" "ReadRecord demo_be ml s = Some (OK, fst (sb_EncodeTo demo_super), ml1, s1)"
    "RecoverFrom demo_be (\<lambda>_ _ b. (OK, b)) ml1 (new_AquaFS () 7) s1 = Some ((OK, ml2), fs2, s2)" "pview fs2 = pview demo_roll_fs"
    by (auto simp: demo_roll_storable)
  moreover have "pview demo_roll_fs (str ''/a'') \<noteq> None"
    using demo_fs_facts(1) [of 0] by (simp add: demo_roll_fs_facts pview_def)
  ultimately show ?thesis using run by metis
qed

lemma AddRecord_full:
  assumes "record_fits (ml_bs ml) r" "unat (capacity (meta_zones s ! ml_zone ml)) < length (record_buffer (ml_bs ml) r)"
  shows "AddRecord be ml r s = Some (NoSpace_msg (str ''Not enough capacity for append'') [], s)"
proof -
  let ?d = "record_buffer (ml_bs ml) r"
  have "length ?d < 2 ^ 32"
    using assms(1) blocks_up_props(2) [of "unat (ml_bs ml)" "8 + length r"]
    by (simp add: length_record_buffer record_fits_def unat_gt_0)
  then have "capacity (meta_zones s ! ml_zone ml) < ucast (of_nat (length ?d) :: u32)"
    using assms(2) by (simp add: word_less_nat_alt unat_of_nat_small)
  then show ?thesis by (simp add: AddRecord_def meta_Append_def Append_def AddBytesWritten_def set_meta_def)
qed

lemma demo_roll_old_log:
  "log_at (sd_mem (zl_dev (zbd_be (demo_roll cap)))) (meta_zones (demo_roll cap) ! 0) 4 ([9] # map entry_bytes [Snapshot (demo_fs 0)])"
  using demo_torn_image demo_snapshot_length
  by (auto simp: log_at_def demo_roll_def new_ZonedBlockDevice_def demo_dev_def bytes_at_def store_bytes_def record_fits_def
      entry_bytes_written [symmetric] simp del: log_image_simps intro!: nth_equalityI)


lemma demo_update_length: "length (file_record False (fs_objs (demo_fs 0) 0)) = 68"
  by code_simp

lemma demo_update_step:
  "entry_step be s (\<lambda>_. None) (Update False (fs_objs (demo_fs 0) 0) 0) (with_file (recorded ((fs_objs (demo_fs 0) 0)\<lparr> extents := [] \<rparr>)) (\<lambda>_. None))"
  using entry_step.create [of "\<lambda>_. None" "fs_objs (demo_fs 0) 0" 0 be s "[47, 97]" False] demo_fs_facts [of 0]
  by (simp add: demo_fs_def AddLinkName_def new_ZoneFile_def)

text \<open>The new zone takes the superblock and the record of a file, but not the snapshot.\<close>

theorem failed_roll_loses_updates_witness:
  "\<exists>st fs s ml s' ml1 s1 ml2 fs2 s2. RollMetaZoneLocked demo_be demo_roll_fs (demo_roll 596) = Some (st, fs, s) \<and> \<not> ok st
    \<and> fs_meta_log fs = Some ml \<and> AddRecord demo_be ml (file_record False (fs_objs (demo_fs 0) 0)) s = Some (OK, s')
    \<and> ReadRecord demo_be ml s' = Some (OK, fst (sb_EncodeTo demo_super), ml1, s1)
    \<and> RecoverFrom demo_be (\<lambda>_ _ b. (OK, b)) ml1 (new_AquaFS () 7) s1
      = Some ((NotFound (str ''AquaFS'') (str ''No snapshot found''), ml2), fs2, s2)"
proof -
  let ?ml = "new_AquaMetaLog demo_be 1 (demo_rolled 596)" and ?f = "fs_objs (demo_fs 0) 0"
  let ?e = "Update False ?f 0 :: unit log_entry"
  have c: "520 \<le> unat (596 :: u64)" "unat (596 :: u64) \<le> 2048" by simp_all
  note dev = demo_roll_device [OF c(2)] and ml = demo_roll_start(4,3) [of 596]
  obtain sb sb' where enc: "sb_EncodeTo demo_super = (sb, sb')" by fastforce
  obtain s3 where s3: "AddRecord demo_be ?ml sb (demo_rolled 596) = Some (OK, s3)" "sim_synced 1 s3" "unat (capacity (meta_zones s3 ! 1)) = 76"
    using demo_roll_super [OF c] enc by auto
  let ?st = "NoSpace_msg (str ''Not enough capacity for append'') []"
  have s4: "AddRecord demo_be ?ml (fs_EncodeSnapshotTo demo_roll_fs) s3 = Some (?st, s3)"
    by (rule AddRecord_full, unfold ml) (use demo_buffers(2,4) s3(3) in simp_all)
  let ?s = "delete_AquaMetaLog demo_roll_log s3"
  obtain fs where run: "RollMetaZoneLocked demo_be demo_roll_fs (demo_roll 596) = Some (?st, fs, ?s)" "fs_meta_log fs = Some ?ml"
    using s3(1) s4 enc demo_roll_start(1,2) [of 596] demo_roll_fs_facts(1,2)
    by (auto simp: RollMetaZoneLocked_def Let_def WriteSnapshotLocked_def ok_def OK_def NoSpace_msg_def drop_log_def fs_EncodeSnapshotTo_def)
  have sy: "sim_synced 1 ?s" "meta_zones ?s ! 1 = meta_zones s3 ! 1"
    using s3(2) by (simp_all add: sim_synced_def Let_def delete_AquaMetaLog_def demo_roll_log_def set_meta_def)
  have sync: "nr_synced_extents ?f = 0" by (simp add: demo_fs_def AddLinkName_def new_ZoneFile_def)
  have eb: "entry_bytes ?e = file_record False ?f" by (rule entry_bytes_written(2) [of False ?f, unfolded sync, symmetric])
  have fit: "record_fits 4 (entry_bytes ?e)" by (simp add: eb record_fits_def demo_update_length)
  have "length (record_buffer 4 (entry_bytes ?e)) = 76"
    by (simp only: length_record_buffer [OF fit]) (simp add: eb demo_update_length blocks_up_def)
  then obtain s' where add: "AddRecord demo_be ?ml (entry_bytes ?e) ?s = Some (OK, s')"
    using sim_AddRecord [OF sy(1) ml, of "entry_bytes ?e"] sy(2) s3(3) by (auto simp: eb demo_update_length)
  have fits: "record_fits (ucast (GetBlockSize demo_be (demo_roll 596))) (fst (sb_EncodeTo demo_super))"
    "record_fits (ucast (GetBlockSize demo_be (demo_roll 596))) (entry_bytes ?e)"
    "unat (GetBlockSize demo_be (demo_roll 596)) dvd unat (GetZoneSize demo_be (demo_roll 596))"
    using demo_buffers(3) fit by (simp_all add: dev(5,6))
  have ne: "?ml \<noteq> demo_roll_log" using ml(1) by (auto simp: demo_roll_log_def)
  have ns: "IsNoSpace ?st" "\<not> ok ?st" by (simp_all add: IsNoSpace_def NoSpace_msg_def ok_def)
  from failed_roll_loses_updates [OF gc_device.sized [OF sim_gc.gc_device_axioms, of 2048] dev(1-4) _ fits(3) demo_roll_fs_facts(1)
      demo_roll_busy(2,1) demo_roll_fs_facts(2) fits(1) run(1) ns(1) run(2) ne demo_update_step _ fits(2) add, of 2048 "\<lambda>_ _ b. (OK, b)" "()" 7]
  show ?thesis using run ns(2) add unfolding eb by fastforce
qed

end
