(* ===== verification/Raid.thy ===== *)
theory Raid
  imports Superblock
begin

text \<open>
  The part of \<open>fs/raid/zone_raid.h\<close> and \<open>.cc\<close> that all RAID backends share
  (\<open>AbstractRaidZonedBlockDevice\<close>): the member devices, the geometry copied from the first of them,
  opening and naming.  A RAID backend is a backend over the state \<open>'b raid\<close>; its members are
  objects of one backend \<open>be\<close> over \<open>'b\<close>, which stands for the virtual calls of
  \<open>ZonedBlockDeviceBackend\<close>, so a mixture of member classes is a backend over a sum type.

  \<open>dev_call\<close> is a call through \<open>devices_[i]\<close>.  It records which member was called last, because
  \<open>errno\<close> is the one that call left.  Logging and the debug-build assertions are not modelled; the
  facts asserted of the geometry are the invariant \<open>raid_wf\<close>.
\<close>

subsection \<open>State\<close>

record 'b raid =
  ra_devices :: "'b list"
  ra_total_nr_devices_zones :: u32
  ra_block_sz :: u32
  ra_zone_sz :: u64
  ra_nr_zones :: u32
  ra_last :: nat

definition def_dev :: "'b raid \<Rightarrow> 'b" where
  "def_dev r = hd (ra_devices r)"

definition nr_dev :: "'b raid \<Rightarrow> nat" where
  "nr_dev r = length (ra_devices r)"

text \<open>A call of a member that changes it.\<close>

definition dev_call :: "nat \<Rightarrow> ('b \<Rightarrow> 'a \<times> 'b) \<Rightarrow> 'b raid \<Rightarrow> 'a \<times> 'b raid" where
  "dev_call i f r =
     (let (x, b) = f (ra_devices r ! i) in
      (x, r\<lparr> ra_devices := (ra_devices r)[i := b], ra_last := i \<rparr>))"

text \<open>\<open>auto z = d->ListZones()\<close> where the result is then used without a test.  On a device whose
  list is not available the C++ code dereferences a null pointer.\<close>

definition listed :: "'b backend \<Rightarrow> 'b \<Rightarrow> ZoneList" where
  "listed be d = (case be_ListZones be d of None \<Rightarrow> [] | Some zl \<Rightarrow> zl)"

subsection \<open>Opening\<close>

definition AbstractRaidZonedBlockDevice :: "'b list \<Rightarrow> 'b raid" where
  "AbstractRaidZonedBlockDevice devices = \<lparr> ra_devices = devices, ra_total_nr_devices_zones = 0,
     ra_block_sz = 0, ra_zone_sz = 0, ra_nr_zones = 0, ra_last = 0 \<rparr>"

definition raid_syncBackendInfo :: "'b backend \<Rightarrow> 'b raid \<Rightarrow> 'b raid" where
  "raid_syncBackendInfo be r =
     r\<lparr> ra_total_nr_devices_zones := sum_list (map (be_nr_zones be) (ra_devices r)),
        ra_block_sz := be_block_sz be (def_dev r), ra_zone_sz := be_zone_sz be (def_dev r),
        ra_nr_zones := be_nr_zones be (def_dev r) \<rparr>"

text \<open>The loop of \<open>Open\<close>: every member is opened in turn; the limits are those the last one
  reported.\<close>

fun raid_open_devices ::
  "'b backend \<Rightarrow> bool \<Rightarrow> bool \<Rightarrow> nat list \<Rightarrow> status \<times> u32 \<times> u32 \<Rightarrow> 'b raid
     \<Rightarrow> (status \<times> u32 \<times> u32) \<times> 'b raid" where
  "raid_open_devices be readonly exclusive [] res r = (res, r)"
| "raid_open_devices be readonly exclusive (i # is) res r =
     (let ((s, max_active, max_open), r') = dev_call i (be_Open be readonly exclusive) r in
      if \<not> ok s then ((s, max_active, max_open), r')
      else raid_open_devices be readonly exclusive is (s, max_active, max_open) r')"

text \<open>\<open>sync\<close> is the virtual \<open>syncBackendInfo\<close>.\<close>

definition raid_Open ::
  "'b backend \<Rightarrow> ('b raid \<Rightarrow> 'b raid) \<Rightarrow> bool \<Rightarrow> bool \<Rightarrow> 'b raid
     \<Rightarrow> (status \<times> u32 \<times> u32) \<times> 'b raid" where
  "raid_Open be sync readonly exclusive r =
     (let ((s, max_active, max_open), r') =
            raid_open_devices be readonly exclusive [0..<nr_dev r] (OK, 0, 0) r in
      if \<not> ok s then ((s, max_active, max_open), r')
      else ((s, max_active, max_open), sync r'))"

fun join_names :: "bytes list \<Rightarrow> bytes" where
  "join_names [] = []"
| "join_names [n] = n"
| "join_names (n # ns) = n @ str '','' @ join_names ns"

definition raid_GetFilename :: "'b backend \<Rightarrow> RaidMode \<Rightarrow> 'b raid \<Rightarrow> bytes" where
  "raid_GetFilename be mode r = str ''raid'' @ str (raid_mode_str mode) @ str '':''
     @ join_names (map (be_GetFilename be) (ra_devices r))"

text \<open>\<open>setZoneOffline\<close> of the base class, which only RAID-A overrides: it records the zone in
  the object and closes it, dropping the status.  No RAID backend that inherits it reads the
  record.\<close>

definition raid_setZoneOffline ::
  "(u64 \<Rightarrow> 'b raid \<Rightarrow> status \<times> 'b raid) \<Rightarrow> u32 \<Rightarrow> u32 \<Rightarrow> bool \<Rightarrow> 'b raid \<Rightarrow> 'b raid" where
  "raid_setZoneOffline close idx idx2 offline r =
     (if offline then snd (close (ucast idx * ra_zone_sz r) r) else r)"

subsection \<open>Loops over the members\<close>

text \<open>A loop that calls every member and stops at the first status that is not OK
  (\<open>Finish\<close> and \<open>Close\<close> of RAID0, and of RAID1).\<close>

fun all_devices_ok :: "('b \<Rightarrow> status \<times> 'b) \<Rightarrow> nat list \<Rightarrow> status \<Rightarrow> 'b raid \<Rightarrow> status \<times> 'b raid" where
  "all_devices_ok f [] s r = (s, r)"
| "all_devices_ok f (i # is) s r =
     (let (s', r') = dev_call i f r in
      if \<not> ok s' then (s', r') else all_devices_ok f is s' r')"

text \<open>The invariant the members' contracts lift to: there are members, every one satisfies its
  own, and the block size is positive, fits an \<open>int\<close> and divides \<open>2 ^ 32\<close>, as block sizes do.\<close>

definition raid_wf :: "('b \<Rightarrow> bool) \<Rightarrow> 'b raid \<Rightarrow> bool" where
  "raid_wf I r = (ra_devices r \<noteq> [] \<and> length (ra_devices r) < 2 ^ 32 \<and> (\<forall>d\<in>set (ra_devices r). I d)
     \<and> 0 < ra_block_sz r \<and> unat (ra_block_sz r) < 2 ^ 31 \<and> unat (ra_block_sz r) dvd 2 ^ 32)"

lemma raid_wf_nth: "raid_wf I r \<Longrightarrow> i < length (ra_devices r) \<Longrightarrow> I (ra_devices r ! i)"
  by (simp add: raid_wf_def)

lemma dev_call_result [simp]: "fst (dev_call i f r) = fst (f (ra_devices r ! i))"
  by (simp add: dev_call_def split_beta)

lemma dev_call_pair: "(fst (f (ra_devices r ! i)), snd (dev_call i f r)) = dev_call i f r"
  by (metis dev_call_result prod.collapse)

lemma dev_call_fields [simp]:
  "ra_devices (snd (dev_call i f r)) = (ra_devices r)[i := snd (f (ra_devices r ! i))]"
  "ra_block_sz (snd (dev_call i f r)) = ra_block_sz r"
  "ra_zone_sz (snd (dev_call i f r)) = ra_zone_sz r"
  "ra_nr_zones (snd (dev_call i f r)) = ra_nr_zones r"
  "ra_total_nr_devices_zones (snd (dev_call i f r)) = ra_total_nr_devices_zones r"
  "nr_dev (snd (dev_call i f r)) = nr_dev r"
  by (simp_all add: dev_call_def split_beta nr_dev_def)

lemma raid_wf_call:
  assumes "raid_wf I r" "i < length (ra_devices r)" "I (snd (f (ra_devices r ! i)))"
  shows "raid_wf I (snd (dev_call i f r))"
  using assms by (auto simp: raid_wf_def dest!: set_update_subset_insert [THEN subsetD])

lemma all_devices_ok_fields:
  "ra_block_sz (snd (all_devices_ok f is s r)) = ra_block_sz r
   \<and> ra_zone_sz (snd (all_devices_ok f is s r)) = ra_zone_sz r
   \<and> nr_dev (snd (all_devices_ok f is s r)) = nr_dev r"
proof (induction "is" arbitrary: s r)
  case (Cons i "is")
  show ?case using Cons [of "fst (dev_call i f r)" "snd (dev_call i f r)"]
    by (auto simp: Let_def split_beta)
qed simp

text \<open>When the loop reports OK, every member it visited did.\<close>

lemma all_devices_ok_all:
  assumes "all_devices_ok f is s r = (st, r')" "ok st" "distinct is" "\<forall>i\<in>set is. i < nr_dev r"
  shows "(\<forall>i\<in>set is. ok (fst (f (ra_devices r ! i))) \<and> ra_devices r' ! i = snd (f (ra_devices r ! i)))
    \<and> (\<forall>i. i \<notin> set is \<longrightarrow> ra_devices r' ! i = ra_devices r ! i)"
  using assms
proof (induction "is" arbitrary: s r)
  case (Cons i "is")
  let ?r = "snd (dev_call i f r)"
  have st: "ok (fst (f (ra_devices r ! i)))"
    and run: "all_devices_ok f is (fst (f (ra_devices r ! i))) ?r = (st, r')"
    using Cons.prems(1,2) by (auto simp: Let_def split_beta split: if_splits)
  have nth: "ra_devices ?r ! j = (if i = j then snd (f (ra_devices r ! i)) else ra_devices r ! j)" for j
    using Cons.prems(4) by (simp add: nr_dev_def nth_list_update_same_or)
  have i: "i \<notin> set is" using Cons.prems(3) by simp
  from Cons.IH [OF run Cons.prems(2)] Cons.prems(3,4)
  have IH: "(\<forall>j\<in>set is. ok (fst (f (ra_devices ?r ! j))) \<and> ra_devices r' ! j = snd (f (ra_devices ?r ! j)))"
    "\<forall>j. j \<notin> set is \<longrightarrow> ra_devices r' ! j = ra_devices ?r ! j" by simp_all
  have "ra_devices ?r ! j = ra_devices r ! j" if "j \<in> set is" for j using nth that i by auto
  with IH(1) have "\<forall>j\<in>set is. ok (fst (f (ra_devices r ! j))) \<and> ra_devices r' ! j = snd (f (ra_devices r ! j))"
    by simp
  moreover have "ra_devices r' ! i = snd (f (ra_devices r ! i))" using IH(2) i nth by simp
  moreover have "\<forall>j. j \<notin> set (i # is) \<longrightarrow> ra_devices r' ! j = ra_devices r ! j" using IH(2) nth by simp
  ultimately show ?case using st by simp
qed simp

end
