(* ===== verification/Raid0.thy ===== *)
theory Raid0
  imports Raid
begin

text \<open>
  RAID0 (\<open>fs/raid/zone_raid0.h\<close>, \<open>.cc\<close>): the blocks of the logical device are dealt out to the
  members in turn.  The synchronous build is modelled (without \<open>AQUAFS_RAID_URING\<close>).

  The main result is a refinement: over members that store bytes (\<open>data_device\<close>) the array stores
  bytes, the byte at a logical address being the byte of the member and address that \<open>get_idx_dev\<close>
  and \<open>req_pos\<close> compute.  Every theorem on zones, metadata logs and files that rests on
  \<open>data_device\<close> then holds over a RAID0 array.
\<close>

subsection \<open>Construction and geometry\<close>

definition raid0_syncBackendInfo :: "'b backend \<Rightarrow> 'b raid \<Rightarrow> 'b raid" where
  "raid0_syncBackendInfo be r =
     (let r' = raid_syncBackendInfo be r in
      r'\<lparr> ra_zone_sz := ra_zone_sz r' * of_nat (nr_dev r') \<rparr>)"

definition Raid0ZonedBlockDevice :: "'b backend \<Rightarrow> 'b list \<Rightarrow> 'b raid" where
  "Raid0ZonedBlockDevice be devices = raid0_syncBackendInfo be (AbstractRaidZonedBlockDevice devices)"

definition get_idx_block :: "'b raid \<Rightarrow> u64 \<Rightarrow> u64" where
  "get_idx_block r pos = pos div ucast (ra_block_sz r)"

definition get_idx_dev :: "'b raid \<Rightarrow> u64 \<Rightarrow> u64" where
  "get_idx_dev r pos = get_idx_block r pos mod of_nat (nr_dev r)"

definition req_pos :: "'b raid \<Rightarrow> u64 \<Rightarrow> u64" where
  "req_pos r pos =
     (let blk_offset = pos mod ucast (ra_block_sz r) in
      blk_offset + (pos - blk_offset) div ucast (ra_block_sz r) div of_nat (nr_dev r) * ucast (ra_block_sz r))"

subsection \<open>Zone operations\<close>

definition raid0_ListZones :: "'b backend \<Rightarrow> 'b raid \<Rightarrow> ZoneList option" where
  "raid0_ListZones be r =
     (case be_ListZones be (def_dev r) of
        None \<Rightarrow> None
      | Some zones \<Rightarrow> Some (map (\<lambda>z. z\<lparr> z_start := z_start z * of_nat (nr_dev r),
          z_capacity := z_capacity z * of_nat (nr_dev r), z_len := z_len z * of_nat (nr_dev r) \<rparr>) zones))"

text \<open>\<open>Reset\<close> visits every member and keeps only the last result; the results of a call that
  failed are not looked at by the callers.\<close>

fun raid0_reset_loop ::
  "'b backend \<Rightarrow> u64 \<Rightarrow> nat list \<Rightarrow> status \<times> bool \<times> u64 \<Rightarrow> 'b raid \<Rightarrow> (status \<times> bool \<times> u64) \<times> 'b raid" where
  "raid0_reset_loop be s [] res r = (res, r)"
| "raid0_reset_loop be s (i # is) res r =
     (let ((st, offline, max_capacity), r') = dev_call i (be_Reset be s) r in
      raid0_reset_loop be s is
        (st, offline, if ok st then max_capacity * of_nat (nr_dev r) else max_capacity) r')"

definition raid0_Reset :: "'b backend \<Rightarrow> u64 \<Rightarrow> 'b raid \<Rightarrow> (status \<times> bool \<times> u64) \<times> 'b raid" where
  "raid0_Reset be pos r =
     raid0_reset_loop be (pos div of_nat (nr_dev r)) [0..<nr_dev r] (OK, False, 0) r"

definition raid0_Finish :: "'b backend \<Rightarrow> u64 \<Rightarrow> 'b raid \<Rightarrow> status \<times> 'b raid" where
  "raid0_Finish be pos r =
     all_devices_ok (be_Finish be (pos div of_nat (nr_dev r))) [0..<nr_dev r] OK r"

definition raid0_Close :: "'b backend \<Rightarrow> u64 \<Rightarrow> 'b raid \<Rightarrow> status \<times> 'b raid" where
  "raid0_Close be pos r =
     all_devices_ok (be_Close be (pos div of_nat (nr_dev r))) [0..<nr_dev r] OK r"

subsection \<open>Data\<close>

text \<open>The loop of \<open>Read\<close>: one call per block.  A call that returns no byte ends the loop with its
  result, whatever was read before.\<close>

function raid0_read_loop ::
  "'b backend \<Rightarrow> int \<Rightarrow> u64 \<Rightarrow> bool \<Rightarrow> int \<Rightarrow> bytes \<Rightarrow> 'b raid \<Rightarrow> (int \<times> bytes) \<times> 'b raid" where
  "raid0_read_loop be n pos direct sz_read buf r =
     (if n \<le> 0 then ((sz_read, buf), r)
      else
        let req_size = min n (to_int32 (uint (ucast (ra_block_sz r) - pos mod ucast (ra_block_sz r))));
            ((k, bs), r') = dev_call (unat (get_idx_dev r pos))
              (be_Read be req_size (req_pos r pos) direct) r in
        if 0 < k
        then raid0_read_loop be (n - k) (pos + word_of_int k) direct (sz_read + k) (buf @ bs) r'
        else ((k, []), r'))"
  by auto

termination
  by (relation "measure (\<lambda>(be, n, pos, direct, sz_read, buf, r). nat n)") auto

declare raid0_read_loop.simps [simp del]

definition raid0_Read ::
  "'b backend \<Rightarrow> int \<Rightarrow> u64 \<Rightarrow> bool \<Rightarrow> 'b raid \<Rightarrow> (int \<times> bytes) \<times> 'b raid" where
  "raid0_Read be n pos direct r = raid0_read_loop be n pos direct 0 [] r"

text \<open>The loop of \<open>Write\<close>; the offset in the block is computed on the low 32 bits of the
  position.\<close>

function raid0_write_loop ::
  "'b backend \<Rightarrow> bytes \<Rightarrow> u64 \<Rightarrow> int \<Rightarrow> 'b raid \<Rightarrow> int \<times> 'b raid" where
  "raid0_write_loop be data pos sz_written r =
     (if data = [] then (sz_written, r)
      else
        let req_size = min (length data) (unat (ra_block_sz r - ucast pos mod ra_block_sz r));
            (k, r') = dev_call (unat (get_idx_dev r pos)) (be_Write be (take req_size data) (req_pos r pos)) r in
        if 0 < k
        then raid0_write_loop be (drop (nat k) data) (pos + word_of_int k) (sz_written + k) r'
        else (k, r'))"
  by auto

termination
  by (relation "measure (\<lambda>(be, data, pos, sz_written, r). length data)") auto

declare raid0_write_loop.simps [simp del]

definition raid0_Write :: "'b backend \<Rightarrow> bytes \<Rightarrow> u64 \<Rightarrow> 'b raid \<Rightarrow> int \<times> 'b raid" where
  "raid0_Write be data pos r = raid0_write_loop be data pos 0 r"

fun raid0_invalidate_loop :: "'b backend \<Rightarrow> u64 \<Rightarrow> u64 \<Rightarrow> nat list \<Rightarrow> 'b raid \<Rightarrow> 'b raid" where
  "raid0_invalidate_loop be pos sz [] r = r"
| "raid0_invalidate_loop be pos sz (i # is) r =
     raid0_invalidate_loop be pos sz is (snd (dev_call i (be_InvalidateCache be pos sz) r))"

definition raid0_InvalidateCache :: "'b backend \<Rightarrow> u64 \<Rightarrow> u64 \<Rightarrow> 'b raid \<Rightarrow> int \<times> 'b raid" where
  "raid0_InvalidateCache be pos sz r =
     (0, raid0_invalidate_loop be (req_pos r pos) (sz div of_nat (nr_dev r)) [0..<nr_dev r] r)"

subsection \<open>Zone queries\<close>

text \<open>They ask the members again and do not look at the list they are given.\<close>

definition raid0_ZoneIsSwr :: "'b backend \<Rightarrow> ZoneList \<Rightarrow> nat \<Rightarrow> 'b raid \<Rightarrow> bool" where
  "raid0_ZoneIsSwr be zones idx r = be_ZoneIsSwr be (listed be (def_dev r)) idx (def_dev r)"

definition raid0_ZoneIsOffline :: "'b backend \<Rightarrow> ZoneList \<Rightarrow> nat \<Rightarrow> 'b raid \<Rightarrow> bool" where
  "raid0_ZoneIsOffline be zones idx r = be_ZoneIsOffline be (listed be (def_dev r)) idx (def_dev r)"

definition raid0_ZoneIsWritable :: "'b backend \<Rightarrow> ZoneList \<Rightarrow> nat \<Rightarrow> 'b raid \<Rightarrow> bool" where
  "raid0_ZoneIsWritable be zones idx r = be_ZoneIsWritable be (listed be (def_dev r)) idx (def_dev r)"

definition raid0_ZoneIsActive :: "'b backend \<Rightarrow> ZoneList \<Rightarrow> nat \<Rightarrow> 'b raid \<Rightarrow> bool" where
  "raid0_ZoneIsActive be zones idx r = be_ZoneIsActive be (listed be (def_dev r)) idx (def_dev r)"

definition raid0_ZoneIsOpen :: "'b backend \<Rightarrow> ZoneList \<Rightarrow> nat \<Rightarrow> 'b raid \<Rightarrow> bool" where
  "raid0_ZoneIsOpen be zones idx r = be_ZoneIsOpen be (listed be (def_dev r)) idx (def_dev r)"

definition raid0_ZoneStart :: "'b backend \<Rightarrow> ZoneList \<Rightarrow> nat \<Rightarrow> 'b raid \<Rightarrow> u64" where
  "raid0_ZoneStart be zones idx r =
     sum_list (map (\<lambda>d. be_ZoneStart be (listed be d) idx d) (ra_devices r))"

definition raid0_ZoneMaxCapacity :: "'b backend \<Rightarrow> ZoneList \<Rightarrow> nat \<Rightarrow> 'b raid \<Rightarrow> u64" where
  "raid0_ZoneMaxCapacity be zones idx r =
     be_ZoneMaxCapacity be (listed be (def_dev r)) idx (def_dev r) * of_nat (nr_dev r)"

definition raid0_ZoneWp :: "'b backend \<Rightarrow> ZoneList \<Rightarrow> nat \<Rightarrow> 'b raid \<Rightarrow> u64" where
  "raid0_ZoneWp be zones idx r =
     sum_list (map (\<lambda>d. be_ZoneWp be (listed be d) idx d) (ra_devices r))"

definition raid0_backend :: "'b backend \<Rightarrow> 'b raid backend" where
  "raid0_backend be = \<lparr> be_Open = raid_Open be (raid0_syncBackendInfo be),
     be_ListZones = raid0_ListZones be, be_Reset = raid0_Reset be, be_Finish = raid0_Finish be,
     be_Close = raid0_Close be, be_Read = raid0_Read be, be_Write = raid0_Write be,
     be_InvalidateCache = raid0_InvalidateCache be,
     be_ZoneIsSwr = raid0_ZoneIsSwr be, be_ZoneIsOffline = raid0_ZoneIsOffline be,
     be_ZoneIsWritable = raid0_ZoneIsWritable be, be_ZoneIsActive = raid0_ZoneIsActive be,
     be_ZoneIsOpen = raid0_ZoneIsOpen be, be_ZoneStart = raid0_ZoneStart be,
     be_ZoneMaxCapacity = raid0_ZoneMaxCapacity be, be_ZoneWp = raid0_ZoneWp be,
     be_GetFilename = raid_GetFilename be RAID0,
     be_block_sz = ra_block_sz, be_zone_sz = ra_zone_sz, be_nr_zones = ra_nr_zones,
     be_IsRAIDEnabled = True, be_setZoneOffline = raid_setZoneOffline (raid0_Close be),
     be_errno = (\<lambda>r. be_errno be (ra_devices r ! ra_last r)), be_strerror = be_strerror be \<rparr>"

subsection \<open>The address map\<close>

text \<open>The same map on numbers: the member and the address of a logical address.\<close>

definition stripe_dev :: "nat \<Rightarrow> nat \<Rightarrow> nat \<Rightarrow> nat" where
  "stripe_dev bs n a = a div bs mod n"

definition stripe_pos :: "nat \<Rightarrow> nat \<Rightarrow> nat \<Rightarrow> nat" where
  "stripe_pos bs n a = a mod bs + a div bs div n * bs"

definition unstripe :: "nat \<Rightarrow> nat \<Rightarrow> nat \<Rightarrow> nat \<Rightarrow> nat" where
  "unstripe bs n d p = (p div bs * n + d) * bs + p mod bs"

lemma stripe_unstripe [addr_simps]:
  assumes "0 < bs" "d < n"
  shows "stripe_dev bs n (unstripe bs n d p) = d" "stripe_pos bs n (unstripe bs n d p) = p"
  using assms by (simp_all add: stripe_dev_def stripe_pos_def unstripe_def)

lemma unstripe_stripe [addr_simps]:
  assumes "0 < bs"
  shows "unstripe bs n (stripe_dev bs n a) (stripe_pos bs n a) = a"
  using assms by (simp add: stripe_dev_def stripe_pos_def unstripe_def)

lemma stripe_inj:
  assumes "0 < bs" "stripe_dev bs n a = stripe_dev bs n b" "stripe_pos bs n a = stripe_pos bs n b"
  shows "a = b"
  using assms unstripe_stripe by metis

text \<open>Inside a block the map is a translation.\<close>

lemma stripe_block:
  assumes "j < bs - a mod bs"
  shows "stripe_dev bs n (a + j) = stripe_dev bs n a" "stripe_pos bs n (a + j) = stripe_pos bs n a + j"
proof -
  have less: "a mod bs + j < bs" and a: "a + j = (a mod bs + j) + a div bs * bs" using assms by simp_all
  have split: "(m + q * bs) div bs = q" "(m + q * bs) mod bs = m" if "m < bs" for m q using that by simp_all
  have "(a + j) div bs = a div bs" "(a + j) mod bs = a mod bs + j"
    by (subst a, rule split(1) [OF less], subst a, rule split(2) [OF less])
  then show "stripe_dev bs n (a + j) = stripe_dev bs n a" "stripe_pos bs n (a + j) = stripe_pos bs n a + j"
    by (simp_all add: stripe_dev_def stripe_pos_def)
qed

text \<open>The C++ computations agree with the map on numbers.\<close>

lemma block_offset:
  assumes "raid_wf I r"
  shows "unat (pos mod ucast (ra_block_sz r) :: u64) = unat pos mod unat (ra_block_sz r)"
    "unat (ucast pos mod ra_block_sz r :: u32) = unat pos mod unat (ra_block_sz r)"
proof -
  show "unat (pos mod ucast (ra_block_sz r) :: u64) = unat pos mod unat (ra_block_sz r)"
    by (simp add: unat_mod)
  have "unat (ucast pos :: u32) = unat pos mod 2 ^ 32"
    by (simp add: unsigned_ucast_eq take_bit_eq_mod)
  moreover have "unat (ra_block_sz r) dvd 2 ^ 32" using assms by (simp add: raid_wf_def)
  ultimately show "unat (ucast pos mod ra_block_sz r :: u32) = unat pos mod unat (ra_block_sz r)"
    by (simp add: unat_mod mod_mod_cancel)
qed

lemma unat_nr_dev: "raid_wf I r \<Longrightarrow> unat (of_nat (nr_dev r) :: u64) = nr_dev r"
  by (rule unat_of_nat_small) (simp add: raid_wf_def nr_dev_def)

lemma unat_get_idx_dev:
  assumes "raid_wf I r"
  shows "unat (get_idx_dev r pos) = stripe_dev (unat (ra_block_sz r)) (nr_dev r) (unat pos)"
    "unat (get_idx_dev r pos) < nr_dev r"
  using assms unat_nr_dev [OF assms]
  by (simp_all add: get_idx_dev_def get_idx_block_def unat_mod unat_div stripe_dev_def raid_wf_def nr_dev_def)

lemma unat_req_pos:
  assumes "raid_wf I r"
  shows "unat (req_pos r pos) = stripe_pos (unat (ra_block_sz r)) (nr_dev r) (unat pos)"
proof -
  define bs :: u64 where "bs = ucast (ra_block_sz r)"
  have ubs: "unat bs = unat (ra_block_sz r)" by (simp add: bs_def)
  define q where "q = (pos - pos mod bs) div bs div of_nat (nr_dev r)"
  have "unat (pos - pos mod bs) = unat pos div unat bs * unat bs"
    by (subst unat_sub_no_wrap) (simp_all only: unat_mod minus_mod_eq_div_mult mod_less_eq_dividend)
  moreover have "0 < unat bs" using assms by (simp add: ubs raid_wf_def word_less_nat_alt)
  ultimately have q: "unat q = unat pos div unat bs div nr_dev r"
    using unat_nr_dev [OF assms] by (simp add: q_def unat_div)
  have "unat q * unat bs \<le> unat pos div unat bs * unat bs" by (simp add: q)
  then have le: "unat q * unat bs + unat pos mod unat bs \<le> unat pos"
    by (metis add.commute add_le_mono1 mod_div_mult_eq)
  then have *: "unat (q * bs) = unat q * unat bs"
    using unat_lt [of pos] by (intro unat_mult_no_wrap) simp
  have "unat (pos mod bs + q * bs) = unat pos mod unat bs + unat q * unat bs"
    using le unat_lt [of pos] by (subst unat_add_no_wrap) (simp_all add: * unat_mod)
  then show ?thesis by (simp add: req_pos_def Let_def q_def bs_def q [unfolded q_def bs_def] stripe_pos_def)
qed

subsection \<open>The array stores bytes\<close>

definition raid0_cont :: "('b \<Rightarrow> nat \<Rightarrow> byte) \<Rightarrow> 'b raid \<Rightarrow> nat \<Rightarrow> byte" where
  "raid0_cont cont r a = cont (ra_devices r ! stripe_dev (unat (ra_block_sz r)) (nr_dev r) a)
     (stripe_pos (unat (ra_block_sz r)) (nr_dev r) a)"

text \<open>The size of the next request: to the end of the block or of the buffer.\<close>

abbreviation block_left :: "'b raid \<Rightarrow> u64 \<Rightarrow> nat" where
  "block_left r pos \<equiv> unat (ra_block_sz r) - unat pos mod unat (ra_block_sz r)"

lemma block_left_pos: "raid_wf I r \<Longrightarrow> 0 < block_left r pos"
  by (simp add: raid_wf_def word_less_nat_alt)

lemma write_req_size:
  assumes "raid_wf I r"
  shows "unat (ra_block_sz r - ucast pos mod ra_block_sz r) = block_left r pos"
  using assms by (subst unat_sub_no_wrap) (simp_all add: block_offset [OF assms] raid_wf_def word_less_nat_alt less_imp_le)

lemma read_req_size:
  assumes "raid_wf I r"
  shows "to_int32 (uint (ucast (ra_block_sz r) - pos mod ucast (ra_block_sz r) :: u64)) = int (block_left r pos)"
proof -
  have "unat (ucast (ra_block_sz r) - pos mod ucast (ra_block_sz r) :: u64) = block_left r pos"
    using assms by (subst unat_sub_no_wrap) (simp_all add: block_offset [OF assms] raid_wf_def word_less_nat_alt less_imp_le)
  then have "uint (ucast (ra_block_sz r) - pos mod ucast (ra_block_sz r) :: u64) = int (block_left r pos)"
    by (simp add: uint_nat)
  moreover have "block_left r pos < 2 ^ 31" using assms unfolding raid_wf_def by (meson less_imp_diff_less)
  then have "to_int32 (int (block_left r pos)) = int (block_left r pos)"
    by (intro to_int32_id) (simp_all del: of_nat_diff add: zless_nat_eq_int_zless [symmetric])
  ultimately show ?thesis by (simp only:)
qed

context data_device
begin

text \<open>One request of the write loop.\<close>

lemma raid0_chunk:
  assumes r: "raid_wf inv r" and len: "length data \<le> block_left r pos" "unat pos + length data < 2 ^ 64"
    and w: "dev_call (unat (get_idx_dev r pos)) (be_Write be data (req_pos r pos)) r = (k, r')"
  shows "a < unat pos \<or> unat pos + length data \<le> a \<Longrightarrow> raid0_cont cont r' a = raid0_cont cont r a"
    and "int i < k \<Longrightarrow> raid0_cont cont r' (unat pos + i) = data ! i"
proof -
  let ?bs = "unat (ra_block_sz r)" and ?n = "nr_dev r" and ?d = "unat (get_idx_dev r pos)"
  let ?b = "ra_devices r ! ?d"
  note idx = unat_get_idx_dev [OF r, of pos]
  have inv: "inv ?b" using raid_wf_nth [OF r] idx(2) by (simp add: nr_dev_def)
  have r': "r' = snd (dev_call ?d (be_Write be data (req_pos r pos)) r)" and k: "k = fst (be_Write be data (req_pos r pos) ?b)"
    using w by (metis snd_conv, metis dev_call_result fst_conv)
  have bs: "0 < ?bs" using r by (simp add: raid_wf_def word_less_nat_alt)
  have le: "unat (req_pos r pos) \<le> unat pos"
    unfolding unat_req_pos [OF r] stripe_pos_def
    by (metis add.commute add_le_mono1 div_le_dividend mod_div_mult_eq mult_le_mono1)
  then have room: "unat (req_pos r pos) + length data < 2 ^ 64" using len(2) by simp
  have cont': "raid0_cont cont r' a = (if stripe_dev ?bs ?n a = ?d
      then cont (snd (be_Write be data (req_pos r pos) ?b)) (stripe_pos ?bs ?n a) else raid0_cont cont r a)" for a
    using idx(2) by (auto simp: raid0_cont_def r' nr_dev_def)
  show "raid0_cont cont r' a = raid0_cont cont r a" if out: "a < unat pos \<or> unat pos + length data \<le> a" for a
  proof (cases "stripe_dev ?bs ?n a = ?d")
    case True
    have "stripe_pos ?bs ?n a \<noteq> stripe_pos ?bs ?n (unat pos) + j" if "j < length data" for j
    proof
      assume p: "stripe_pos ?bs ?n a = stripe_pos ?bs ?n (unat pos) + j"
      have j: "j < block_left r pos" using that len(1) by simp
      have "a = unat pos + j"
        by (rule stripe_inj [OF bs]) (use True p stripe_block [OF j] idx(1) in simp_all)
      with out that show False by simp
    qed
    then have "stripe_pos ?bs ?n a < unat (req_pos r pos) \<or> unat (req_pos r pos) + length data \<le> stripe_pos ?bs ?n a"
      unfolding unat_req_pos [OF r] by (metis add_diff_inverse_nat leI nat_add_left_cancel_less)
    with True write_frame [OF inv room] show ?thesis unfolding cont' by (simp add: raid0_cont_def)
  next
    case False
    then show ?thesis unfolding cont' by simp
  qed
  show "raid0_cont cont r' (unat pos + i) = data ! i" if i: "int i < k"
  proof -
    have "i < length data" using i write_result [OF inv, of data "req_pos r pos"] k by simp
    then have "i < block_left r pos" using len(1) by simp
    from stripe_block [OF this] show ?thesis
      using write_stored [OF inv room, of i] i k unfolding cont' by (simp add: idx(1) unat_req_pos [OF r])
  qed
qed

lemma raid0_chunk_wf:
  assumes r: "raid_wf inv r" and w: "dev_call (unat (get_idx_dev r pos)) (be_Write be data (req_pos r pos)) r = (k, r')"
  shows "raid_wf inv r'" "k \<le> int (length data)" "nr_dev r' = nr_dev r" "ra_block_sz r' = ra_block_sz r"
    "ra_zone_sz r' = ra_zone_sz r"
proof -
  have i: "unat (get_idx_dev r pos) < length (ra_devices r)"
    using unat_get_idx_dev(2) [OF r] by (simp add: nr_dev_def)
  note d = raid_wf_nth [OF r i]
  have r': "r' = snd (dev_call (unat (get_idx_dev r pos)) (be_Write be data (req_pos r pos)) r)"
    and k: "k = fst (be_Write be data (req_pos r pos) (ra_devices r ! unat (get_idx_dev r pos)))"
    using w by (metis snd_conv, metis dev_call_result fst_conv)
  show "raid_wf inv r'" unfolding r' by (rule raid_wf_call [OF r i]) (rule write_inv [OF d])
  show "k \<le> int (length data)" using write_result [OF d] k by simp
  show "nr_dev r' = nr_dev r" "ra_block_sz r' = ra_block_sz r" "ra_zone_sz r' = ra_zone_sz r"
    by (simp_all add: r')
qed

lemma raid0_write_loop_wf:
  assumes "raid0_write_loop be data pos w r = (k, r')" "raid_wf inv r" "0 \<le> w"
  shows "raid_wf inv r' \<and> k \<le> w + int (length data) \<and> nr_dev r' = nr_dev r
    \<and> ra_block_sz r' = ra_block_sz r \<and> ra_zone_sz r' = ra_zone_sz r"
  using assms
proof (induction "length data" arbitrary: data pos w r rule: less_induct)
  case less
  show ?case
  proof (cases "data = []")
    case True
    then show ?thesis using less.prems by (simp add: raid0_write_loop.simps)
  next
    case False
    define req where "req = min (length data) (block_left r pos)"
    obtain k1 r1 where w: "dev_call (unat (get_idx_dev r pos)) (be_Write be (take req data) (req_pos r pos)) r = (k1, r1)"
      by fastforce
    note c = raid0_chunk_wf [OF less.prems(2) w]
    have le: "k1 \<le> int (length data)" using c(2) by (simp add: req_def)
    have run: "raid0_write_loop be data pos w r = (if 0 < k1
        then raid0_write_loop be (drop (nat k1) data) (pos + word_of_int k1) (w + k1) r1 else (k1, r1))"
      using False w by (subst raid0_write_loop.simps) (simp add: Let_def write_req_size [OF less.prems(2)] req_def)
    show ?thesis
    proof (cases "0 < k1")
      case True
      then have "raid0_write_loop be (drop (nat k1) data) (pos + word_of_int k1) (w + k1) r1 = (k, r')"
        using run less.prems(1) by simp
      from less.hyps [OF _ this c(1)] True False less.prems(3) le show ?thesis by (simp add: c(3-5))
    next
      case neg: False
      then show ?thesis using run less.prems le c by auto
    qed
  qed
qed

lemma raid0_write_loop_data:
  assumes "raid0_write_loop be data pos w r = (k, r')" "raid_wf inv r" "0 \<le> w" "unat pos + length data < 2 ^ 64"
  shows "(\<forall>a. a < unat pos \<or> unat pos + length data \<le> a \<longrightarrow> raid0_cont cont r' a = raid0_cont cont r a)
    \<and> (\<forall>i. int i < k - w \<longrightarrow> raid0_cont cont r' (unat pos + i) = data ! i)"
  using assms
proof (induction "length data" arbitrary: data pos w r rule: less_induct)
  case less
  show ?case
  proof (cases "data = []")
    case True
    then show ?thesis using less.prems by (simp add: raid0_write_loop.simps)
  next
    case False
    define req where "req = min (length data) (block_left r pos)"
    obtain k1 r1 where w: "dev_call (unat (get_idx_dev r pos)) (be_Write be (take req data) (req_pos r pos)) r = (k1, r1)"
      by fastforce
    note c = raid0_chunk_wf [OF less.prems(2) w]
    have req: "length (take req data) = req" "req \<le> length data" by (simp_all add: req_def)
    have le: "k1 \<le> int req" using c(2) req by simp
    have fits: "length (take req data) \<le> block_left r pos" "unat pos + length (take req data) < 2 ^ 64"
      using less.prems(4) by (simp_all add: req_def)
    note chunk = raid0_chunk [OF less.prems(2) fits w, unfolded req(1)]
    have run: "raid0_write_loop be data pos w r = (if 0 < k1
        then raid0_write_loop be (drop (nat k1) data) (pos + word_of_int k1) (w + k1) r1 else (k1, r1))"
      using False w by (subst raid0_write_loop.simps) (simp add: Let_def write_req_size [OF less.prems(2)] req_def)
    show ?thesis
    proof (cases "0 < k1")
      case True
      define n1 where "n1 = nat k1"
      have n1: "k1 = int n1" "0 < n1" "n1 \<le> req" using True le by (simp_all add: n1_def)
      have run1: "raid0_write_loop be (drop n1 data) (pos + word_of_int k1) (w + k1) r1 = (k, r')"
        using run less.prems(1) True by (simp add: n1_def)
      have "n1 < 2 ^ LENGTH(64)" using n1 req(2) less.prems(4) by simp
      then have "unat (word_of_int k1 :: u64) = n1" using n1 by (simp add: unat_of_nat_small)
      then have pos': "unat (pos + word_of_int k1) = unat pos + n1"
        using n1 req(2) less.prems(4) by (subst unat_add_no_wrap) simp_all
      from less.hyps [OF _ run1 c(1)] n1 req(2) less.prems(3,4) False
      have frame: "\<And>a. a < unat pos + n1 \<or> unat pos + length data \<le> a \<Longrightarrow> raid0_cont cont r' a = raid0_cont cont r1 a"
        and stored: "\<And>i. int i < k - (w + k1) \<Longrightarrow> raid0_cont cont r' (unat pos + n1 + i) = drop n1 data ! i"
        unfolding pos' by auto
      have "raid0_cont cont r' (unat pos + i) = data ! i" if i: "int i < k - w" for i
      proof (cases "i < n1")
        case True
        then have "raid0_cont cont r1 (unat pos + i) = take req data ! i" by (intro chunk(2)) (simp add: n1)
        then show ?thesis using True n1 frame [of "unat pos + i"] by simp
      next
        case False
        then show ?thesis using stored [of "i - n1"] i n1 req(2) by simp
      qed
      moreover have "raid0_cont cont r' a = raid0_cont cont r a" if "a < unat pos \<or> unat pos + length data \<le> a" for a
        using that frame [of a] chunk(1) [of a] req(2) by auto
      ultimately show ?thesis by blast
    next
      case neg: False
      then have kr: "k = k1" "r' = r1" using run less.prems(1) by simp_all
      have "raid0_cont cont r1 a = raid0_cont cont r a" if "a < unat pos \<or> unat pos + length data \<le> a" for a
        using that chunk(1) [of a] req(2) by auto
      then show ?thesis using kr neg less.prems(3) by auto
    qed
  qed
qed

text \<open>One request of the read loop.\<close>

lemma raid0_read_chunk:
  assumes r: "raid_wf inv r" and n: "0 \<le> n"
    and rd: "dev_call (unat (get_idx_dev r pos)) (be_Read be n (req_pos r pos) direct) r = ((k, bs), r')"
  shows "raid_wf inv r'" "k \<le> n" "raid0_cont cont r' = raid0_cont cont r"
    "nr_dev r' = nr_dev r" "ra_block_sz r' = ra_block_sz r" "ra_zone_sz r' = ra_zone_sz r"
    "n \<le> int (block_left r pos) \<Longrightarrow> unat pos + nat n < 2 ^ 64 \<Longrightarrow> 0 \<le> k
      \<Longrightarrow> bs = map (\<lambda>i. raid0_cont cont r (unat pos + i)) [0..<nat k]"
proof -
  let ?d = "unat (get_idx_dev r pos)"
  let ?b = "ra_devices r ! ?d"
  note idx = unat_get_idx_dev [OF r, of pos]
  then have i: "?d < length (ra_devices r)" by (simp add: nr_dev_def)
  note inv = raid_wf_nth [OF r i]
  have r': "r' = snd (dev_call ?d (be_Read be n (req_pos r pos) direct) r)"
    and k: "(k, bs) = fst (be_Read be n (req_pos r pos) direct ?b)"
    using rd by (metis snd_conv, metis dev_call_result fst_conv)
  show "raid_wf inv r'" unfolding r' by (rule raid_wf_call [OF r i]) (rule read_inv [OF inv])
  show le: "k \<le> n" using read_result [OF inv n] k by (metis fst_conv)
  show "raid0_cont cont r' = raid0_cont cont r"
    using i read_cont [OF inv, of n "req_pos r pos" direct]
    by (auto simp: fun_eq_iff raid0_cont_def r' nth_list_update)
  show "nr_dev r' = nr_dev r" "ra_block_sz r' = ra_block_sz r" "ra_zone_sz r' = ra_zone_sz r"
    by (simp_all add: r')
  assume fits: "n \<le> int (block_left r pos)" "unat pos + nat n < 2 ^ 64" and "0 \<le> k"
  have "unat (req_pos r pos) \<le> unat pos"
    unfolding unat_req_pos [OF r] stripe_pos_def
    by (metis add.commute add_le_mono1 div_le_dividend mod_div_mult_eq mult_le_mono1)
  then have "bs = map (\<lambda>i. cont ?b (unat (req_pos r pos) + i)) [0..<nat k]"
    using read_data [OF inv n, of "req_pos r pos" direct] k \<open>0 \<le> k\<close> fits(2) by (metis add_le_less_mono add.commute fst_conv snd_conv add_le_cancel_left le_less_trans)
  moreover have "cont ?b (unat (req_pos r pos) + j) = raid0_cont cont r (unat pos + j)" if "j < nat k" for j
  proof -
    have "j < block_left r pos" using that le fits(1) by linarith
    from stripe_block [OF this] show ?thesis by (simp add: raid0_cont_def idx(1) unat_req_pos [OF r])
  qed
  ultimately show "bs = map (\<lambda>i. raid0_cont cont r (unat pos + i)) [0..<nat k]" by simp
qed

lemma raid0_read_loop_data:
  assumes "raid0_read_loop be n pos direct sz buf r = ((k, buf'), r')" "raid_wf inv r" "0 \<le> n" "0 \<le> sz"
  shows "raid_wf inv r' \<and> (k = sz + n \<or> k \<le> 0) \<and> raid0_cont cont r' = raid0_cont cont r \<and> nr_dev r' = nr_dev r
    \<and> ra_block_sz r' = ra_block_sz r \<and> ra_zone_sz r' = ra_zone_sz r
    \<and> (unat pos + nat n < 2 ^ 64 \<longrightarrow> 0 < k
        \<longrightarrow> buf' = buf @ map (\<lambda>i. raid0_cont cont r (unat pos + i)) [0..<nat (k - sz)])
    \<and> (k \<le> 0 \<longrightarrow> buf' = [] \<or> sz = 0 \<and> n = 0)"
  using assms
proof (induction "nat n" arbitrary: n pos sz buf r rule: less_induct)
  case less
  show ?case
  proof (cases "n = 0")
    case True
    then show ?thesis using less.prems by (simp add: raid0_read_loop.simps)
  next
    case False
    define req where "req = min n (int (block_left r pos))"
    have req: "0 \<le> req" "req \<le> n" "req \<le> int (block_left r pos)" using less.prems(3) by (simp_all add: req_def)
    obtain k1 bs r1 where rd: "dev_call (unat (get_idx_dev r pos)) (be_Read be req (req_pos r pos) direct) r = ((k1, bs), r1)"
      by (metis prod.collapse)
    note c = raid0_read_chunk [OF less.prems(2) req(1) rd]
    have run: "raid0_read_loop be n pos direct sz buf r = (if 0 < k1
        then raid0_read_loop be (n - k1) (pos + word_of_int k1) direct (sz + k1) (buf @ bs) r1 else ((k1, []), r1))"
      using False less.prems(3) rd
      by (subst raid0_read_loop.simps) (simp add: Let_def read_req_size [OF less.prems(2)] req_def)
    show ?thesis
    proof (cases "0 < k1")
      case neg: False
      then have "k = k1" "buf' = []" "r' = r1" using run less.prems(1) by simp_all
      then show ?thesis using neg c(1-6) req less.prems(4) by simp
    next
      case True
      then have run1: "raid0_read_loop be (n - k1) (pos + word_of_int k1) direct (sz + k1) (buf @ bs) r1 = ((k, buf'), r')"
        using run less.prems(1) by simp
      have "nat (n - k1) < nat n" "0 \<le> n - k1" "0 \<le> sz + k1" using True c(2) req less.prems(4) by simp_all
      note IH = less.hyps [OF this(1) run1 c(1) this(2,3)]
      have data: "buf' = buf @ map (\<lambda>i. raid0_cont cont r (unat pos + i)) [0..<nat (k - sz)]"
        if room: "unat pos + nat n < 2 ^ 64" and pos: "0 < k"
      proof -
        have bs: "bs = map (\<lambda>i. raid0_cont cont r (unat pos + i)) [0..<nat k1]"
          by (rule c(7)) (use True req room in auto)
        have "nat k1 < 2 ^ LENGTH(64)" using True c(2) req room by simp
        then have "unat (word_of_int k1 :: u64) = nat k1" using True by (simp only: word_of_int_nat unat_of_nat_small less_imp_le)
        then have "unat (pos + word_of_int k1) = unat pos + nat k1"
          using True c(2) req room by (subst unat_add_no_wrap) simp_all
        then have "buf' = (buf @ bs) @ map (\<lambda>i. raid0_cont cont r (unat pos + (nat k1 + i))) [0..<nat (k - (sz + k1))]"
          using IH c(2,3) req True room pos by (simp add: add.assoc)
        moreover have "nat k1 + nat (k - (sz + k1)) = nat (k - sz)" using True IH pos c(2) req by auto
        ultimately show ?thesis
          using upt_map_append [of "\<lambda>i. raid0_cont cont r (unat pos + i)" "nat k1" "nat (k - (sz + k1))"] bs by simp
      qed
      have "k = sz + n \<or> k \<le> 0" using IH by simp
      moreover have "k \<le> 0 \<longrightarrow> buf' = []" using IH True less.prems(4) by linarith
      moreover have "raid_wf inv r' \<and> raid0_cont cont r' = raid0_cont cont r \<and> nr_dev r' = nr_dev r
          \<and> ra_block_sz r' = ra_block_sz r \<and> ra_zone_sz r' = ra_zone_sz r"
        using IH c(3-6) by simp
      ultimately show ?thesis using data by blast
    qed
  qed
qed

text \<open>The array meets the contract its members meet.\<close>

lemma striped: "data_device (raid0_backend be) (raid0_cont cont) (raid_wf inv)"
proof
  fix b :: "'b raid" and data :: bytes and pos :: u64
  assume b: "raid_wf inv b"
  obtain k r where w: "raid0_write_loop be data pos 0 b = (k, r)" by fastforce
  note wf = raid0_write_loop_wf [OF w b] and data = raid0_write_loop_data [OF w b]
  have *: "be_Write (raid0_backend be) data pos b = (k, r)" using w by (simp add: raid0_backend_def raid0_Write_def)
  show "raid_wf inv (snd (be_Write (raid0_backend be) data pos b))"
    "fst (be_Write (raid0_backend be) data pos b) \<le> int (length data)"
    using wf by (simp_all add: *)
  show "raid0_cont cont (snd (be_Write (raid0_backend be) data pos b)) a = raid0_cont cont b a"
    if "unat pos + length data < 2 ^ 64" "a < unat pos \<or> unat pos + length data \<le> a" for a
    using data that by (auto simp: *)
  show "raid0_cont cont (snd (be_Write (raid0_backend be) data pos b)) (unat pos + i) = data ! i"
    if "unat pos + length data < 2 ^ 64" "int i < fst (be_Write (raid0_backend be) data pos b)" for i
    using data that by (simp add: *)
next
  fix b :: "'b raid" and n :: int and pos :: u64 and direct :: bool
  assume b: "raid_wf inv b"
  obtain k bs r where rd: "raid0_read_loop be n pos direct 0 [] b = ((k, bs), r)" by (metis prod.collapse)
  have *: "be_Read (raid0_backend be) n pos direct b = ((k, bs), r)" using rd by (simp add: raid0_backend_def raid0_Read_def)
  have neg: "raid0_read_loop be n pos direct 0 [] b = ((0, []), b)" if "n < 0"
    using that by (simp add: raid0_read_loop.simps)
  note data = raid0_read_loop_data [OF rd b]
  show "raid_wf inv (snd (be_Read (raid0_backend be) n pos direct b))"
    "raid0_cont cont (snd (be_Read (raid0_backend be) n pos direct b)) = raid0_cont cont b"
    using data rd neg b by (cases "n < 0"; simp add: *)+
  show "fst (fst (be_Read (raid0_backend be) n pos direct b)) \<le> n" if "0 \<le> n" using data that by (auto simp: *)
  show "snd (fst (be_Read (raid0_backend be) n pos direct b))
      = map (\<lambda>i. raid0_cont cont b (unat pos + i)) [0..<nat (fst (fst (be_Read (raid0_backend be) n pos direct b)))]"
    if "0 \<le> n" "unat pos + nat n < 2 ^ 64" "0 \<le> fst (fst (be_Read (raid0_backend be) n pos direct b))"
  proof (cases "0 < k")
    case True
    then show ?thesis using data that by (simp add: *)
  next
    case False
    then have "k = 0" using that by (simp add: *)
    then have "bs = []" using data that(1) rd by (auto simp: raid0_read_loop.simps split: if_splits)
    then show ?thesis using \<open>k = 0\<close> by (simp add: *)
  qed
qed

end

subsection \<open>The array manages zones\<close>

text \<open>The invariant for zone management: the members agree on the zone size, a multiple of the
  block size, and the array's zone is one zone of each.\<close>

definition raid0_wf :: "'b backend \<Rightarrow> ('b \<Rightarrow> bool) \<Rightarrow> u64 \<Rightarrow> 'b raid \<Rightarrow> bool" where
  "raid0_wf be I zs r = (raid_wf (\<lambda>d. I d \<and> be_zone_sz be d = zs) r
     \<and> unat (ra_zone_sz r) = nr_dev r * unat zs \<and> unat (ra_block_sz r) dvd unat zs)"

definition same_geometry :: "'b raid \<Rightarrow> 'b raid \<Rightarrow> bool" where
  "same_geometry r r' = (ra_block_sz r' = ra_block_sz r \<and> ra_zone_sz r' = ra_zone_sz r)"

lemma same_geometry_trans: "same_geometry r r1 \<Longrightarrow> same_geometry r1 r2 \<Longrightarrow> same_geometry r r2"
  by (simp add: same_geometry_def)

lemma same_geometry_call: "dev_call i f r = (x, r') \<Longrightarrow> same_geometry r r'"
  using dev_call_fields(2,3) [of i f r] by (simp add: same_geometry_def)

lemma raid0_write_fields: "same_geometry r (snd (raid0_write_loop be data pos w r))"
proof (induction be data pos w r rule: raid0_write_loop.induct)
  case (1 be data pos w r)
  obtain k r1 where dc: "dev_call (unat (get_idx_dev r pos)) (be_Write be (take (min (length data)
      (unat (ra_block_sz r - ucast pos mod ra_block_sz r))) data) (req_pos r pos)) r = (k, r1)" by fastforce
  note IH = 1 [OF _ refl refl dc [symmetric]] and g = same_geometry_call [OF dc]
  show ?case by (subst raid0_write_loop.simps)
      (auto simp: Let_def dc intro: same_geometry_trans [OF g IH] g simp: same_geometry_def [of r r])
qed

lemma raid0_read_fields: "same_geometry r (snd (raid0_read_loop be n pos direct sz buf r))"
proof (induction be n pos direct sz buf r rule: raid0_read_loop.induct)
  case (1 be n pos direct sz buf r)
  obtain k bs r1 where dc: "dev_call (unat (get_idx_dev r pos)) (be_Read be (min n
      (to_int32 (uint (ucast (ra_block_sz r) - pos mod ucast (ra_block_sz r) :: u64)))) (req_pos r pos) direct) r
      = ((k, bs), r1)" by (metis prod.collapse)
  note IH = 1 [OF _ refl refl dc [symmetric] refl] and g = same_geometry_call [OF dc]
  show ?case by (subst raid0_read_loop.simps)
      (auto simp: Let_def dc intro: same_geometry_trans [OF g IH] g simp: same_geometry_def [of r r])
qed

lemma raid0_reset_fields: "same_geometry r (snd (raid0_reset_loop be s is res r))"
  unfolding same_geometry_def by (induction "is" arbitrary: res r) (simp_all add: Let_def split_beta)

text \<open>What resetting every member in turn does: each member is reset once, and the result is the
  last member's.\<close>

lemma raid0_reset_loop_all:
  assumes "distinct is" "\<forall>i\<in>set is. i < nr_dev r"
  shows "ra_devices (snd (raid0_reset_loop be s is res r))
      = map (\<lambda>i. if i \<in> set is then snd (be_Reset be s (ra_devices r ! i)) else ra_devices r ! i) [0..<nr_dev r]"
    "is \<noteq> [] \<Longrightarrow> fst (raid0_reset_loop be s is res r)
      = (case fst (be_Reset be s (ra_devices r ! last is)) of (st, offline, c) \<Rightarrow>
          (st, offline, if ok st then c * of_nat (nr_dev r) else c))"
proof -
  show "ra_devices (snd (raid0_reset_loop be s is res r))
      = map (\<lambda>i. if i \<in> set is then snd (be_Reset be s (ra_devices r ! i)) else ra_devices r ! i) [0..<nr_dev r]"
    using assms
  proof (induction "is" arbitrary: res r)
    case Nil
    then show ?case by (simp add: nr_dev_def map_nth)
  next
    case (Cons i "is")
    obtain st off c r1 where dc: "dev_call i (be_Reset be s) r = ((st, off, c), r1)" by (metis prod.collapse)
    have r1: "ra_devices r1 = (ra_devices r)[i := snd (be_Reset be s (ra_devices r ! i))]" "nr_dev r1 = nr_dev r"
      using dev_call_fields [of i "be_Reset be s" r] by (simp_all add: dc)
    have "ra_devices (snd (raid0_reset_loop be s is (st, off, if ok st then c * of_nat (nr_dev r) else c) r1))
        = map (\<lambda>j. if j \<in> set is then snd (be_Reset be s (ra_devices r1 ! j)) else ra_devices r1 ! j) [0..<nr_dev r1]"
      by (rule Cons.IH) (use Cons.prems r1 in auto)
    then show ?case using Cons.prems dc r1 by (auto simp: nr_dev_def nth_list_update split: if_splits)
  qed
  show "fst (raid0_reset_loop be s is res r)
      = (case fst (be_Reset be s (ra_devices r ! last is)) of (st, offline, c) \<Rightarrow>
          (st, offline, if ok st then c * of_nat (nr_dev r) else c))" if "is \<noteq> []"
    using assms that
  proof (induction "is" arbitrary: res r)
    case (Cons i "is")
    show ?case
    proof (cases "is = []")
      case True
      then show ?thesis by (simp add: Let_def split_beta)
    next
      case False
      then have "last is \<noteq> i" using Cons.prems(1) by (metis distinct.simps(2) last_in_set)
      then show ?thesis using Cons False by (simp add: Let_def split_beta)
    qed
  qed simp
qed

text \<open>An operation of every member that keeps the members' bytes keeps the array's.\<close>

lemma all_devices_ok_keeps:
  assumes "raid_wf I r" "\<forall>i\<in>set is. i < nr_dev r"
    and f: "\<And>d. I d \<Longrightarrow> I (snd (f d))" "\<And>d. I d \<Longrightarrow> cont (snd (f d)) = cont d"
  shows "raid_wf I (snd (all_devices_ok f is s r)) \<and> raid0_cont cont (snd (all_devices_ok f is s r)) = raid0_cont cont r"
  using assms(1,2)
proof (induction "is" arbitrary: s r)
  case (Cons i "is")
  let ?r = "snd (dev_call i f r)"
  have i: "i < length (ra_devices r)" using Cons.prems(2) by (simp add: nr_dev_def)
  note d = raid_wf_nth [OF Cons.prems(1) i]
  have wf: "raid_wf I ?r" by (rule raid_wf_call [OF Cons.prems(1) i]) (rule f(1) [OF d])
  have c: "raid0_cont cont ?r = raid0_cont cont r"
    using i f(2) [OF d] by (auto simp: fun_eq_iff raid0_cont_def nth_list_update)
  show ?case using Cons.IH [OF wf] wf c Cons.prems(2) by (auto simp: Let_def split_beta)
qed simp

text \<open>The zone of a logical address is the zone of its member address.\<close>

lemma stripe_zone:
  assumes "0 < bs" "0 < n" "zs = m * bs"
  shows "a < q * (n * zs) \<Longrightarrow> stripe_pos bs n a < q * zs" "q * (n * zs) \<le> a \<Longrightarrow> q * zs \<le> stripe_pos bs n a"
proof -
  have zs: "q * (n * zs) = (q * m * n) * bs" "q * zs = q * m * bs" using assms(3) by simp_all
  show "stripe_pos bs n a < q * zs" if "a < q * (n * zs)"
  proof -
    have "a div bs < q * m * n" using that zs(1) by (simp add: less_mult_imp_div_less)
    then have "a div bs div n < q * m" by (simp add: less_mult_imp_div_less)
    then have "Suc (a div bs div n) * bs \<le> q * m * bs" by (intro mult_le_mono1) simp
    moreover have "a mod bs < bs" using assms(1) by simp
    ultimately show ?thesis unfolding stripe_pos_def zs(2) by simp
  qed
  show "q * zs \<le> stripe_pos bs n a" if "q * (n * zs) \<le> a"
  proof -
    have "q * m * n \<le> a div bs" using that zs(1) assms(1) by (simp add: less_eq_div_iff_mult_less_eq)
    then have "q * m \<le> a div bs div n" using assms(2) by (simp add: less_eq_div_iff_mult_less_eq)
    then show ?thesis unfolding stripe_pos_def zs(2) by (simp add: trans_le_add2)
  qed
qed

context zoned_device
begin

abbreviation sized :: "u64 \<Rightarrow> 'a \<Rightarrow> bool" where
  "sized zs d \<equiv> inv d \<and> be_zone_sz be d = zs"

lemma sized_device: "data_device be cont (sized zs)"
  by (rule data_device_and [OF data_device_axioms]) (simp_all add: geometry)

lemma raid0_reset_facts:
  assumes r: "raid0_wf be inv zs r" and res: "raid0_Reset be pos r = ((st, offline, c), r')"
  shows "raid0_wf be inv zs r'"
    "unat (ra_zone_sz r) dvd unat pos \<Longrightarrow> a < unat pos \<or> unat pos + unat (ra_zone_sz r) \<le> a \<Longrightarrow> raid0_cont cont r' a = raid0_cont cont r a"
    "ok st \<Longrightarrow> unat c \<le> unat (ra_zone_sz r)"
proof -
  let ?n = "nr_dev r" and ?bs = "unat (ra_block_sz r)"
  define s where "s = pos div (of_nat ?n :: u64)"
  have wf: "raid_wf (sized zs) r" and zsz: "unat (ra_zone_sz r) = ?n * unat zs" and dvd: "?bs dvd unat zs"
    using r by (simp_all add: raid0_wf_def)
  have n: "0 < ?n" and bs: "0 < ?bs" using wf by (simp_all add: raid_wf_def nr_dev_def word_less_nat_alt)
  have loop: "raid0_reset_loop be s [0..<?n] (OK, False, 0) r = ((st, offline, c), r')"
    using res by (simp add: raid0_Reset_def s_def)
  have ne: "[0..<?n] \<noteq> []" "last [0..<?n] = ?n - 1" using n by simp_all
  note all = raid0_reset_loop_all [of "[0..<?n]" r be s "(OK, False, 0)"]
  have dev: "ra_devices r' = map (\<lambda>d. snd (be_Reset be s d)) (ra_devices r)"
    using all(1) loop by (auto simp: nr_dev_def intro!: nth_equalityI)
  have geo: "ra_block_sz r' = ra_block_sz r" "ra_zone_sz r' = ra_zone_sz r"
    using raid0_reset_fields [of r be s "[0..<?n]" "(OK, False, 0)"] loop by (simp_all add: same_geometry_def)
  have mem: "sized zs d" if "d \<in> set (ra_devices r)" for d using wf that by (auto simp: raid_wf_def)
  show "raid0_wf be inv zs r'"
    using r mem reset_inv geometry by (auto simp: raid0_wf_def raid_wf_def dev geo nr_dev_def)
  show "raid0_cont cont r' a = raid0_cont cont r a"
    if q: "unat (ra_zone_sz r) dvd unat pos" and out: "a < unat pos \<or> unat pos + unat (ra_zone_sz r) \<le> a"
  proof -
    obtain q where pos: "unat pos = q * (?n * unat zs)" using q zsz by (metis dvd_def mult.commute)
    then have s: "unat s = q * unat zs"
      using n unat_nr_dev [OF wf] by (simp add: s_def unat_div mult.left_commute)
    let ?d = "ra_devices r ! stripe_dev ?bs ?n a"
    have i: "stripe_dev ?bs ?n a < length (ra_devices r)" using n by (simp add: stripe_dev_def nr_dev_def)
    then have d: "sized zs ?d" by (simp add: mem)
    obtain m where m: "unat zs = m * ?bs" using dvd by (metis dvd_def mult.commute)
    have "stripe_pos ?bs ?n a < unat s \<or> unat s + unat zs \<le> stripe_pos ?bs ?n a"
      using stripe_zone(1) [OF bs n m, of a q] stripe_zone(2) [OF bs n m, of "Suc q" a] out pos zsz s
      by (auto simp: add.commute)
    then have "cont (snd (be_Reset be s ?d)) (stripe_pos ?bs ?n a) = cont ?d (stripe_pos ?bs ?n a)"
      using d s by (intro reset_frame) simp_all
    then show ?thesis using i by (simp add: raid0_cont_def dev geo nr_dev_def)
  qed
  assume st: "ok st"
  let ?l = "ra_devices r ! (?n - 1)"
  obtain c1 where l: "fst (be_Reset be s ?l) = (st, offline, c1)" "c = c1 * of_nat ?n"
    using all(2) ne loop st by (auto split: prod.splits if_splits)
  have "?l \<in> set (ra_devices r)" using n by (simp add: nr_dev_def)
  then have "unat c1 \<le> unat zs" using reset_capacity [of ?l s] mem [of ?l] l(1) st by simp
  then have le: "unat c1 * ?n \<le> unat (ra_zone_sz r)" using zsz by simp
  then have "unat c = unat c1 * ?n"
    unfolding l(2) using unat_nr_dev [OF wf] unat_lt [of "ra_zone_sz r"] by (subst unat_mult_no_wrap) simp_all
  with le show "unat c \<le> unat (ra_zone_sz r)" by simp
qed

lemma striped_zoned: "zoned_device (raid0_backend be) (raid0_cont cont) (raid0_wf be inv zs)"
proof -
  let ?be = "raid0_backend be"
  note wf_def = raid0_wf_def same_geometry_def
  note d = data_device.striped [OF sized_device [of zs]]
  have loops: "raid0_wf be inv zs (snd (be_Write ?be data pos b))" "raid0_wf be inv zs (snd (be_Read ?be n pos direct b))"
    if "raid0_wf be inv zs b" for b data pos n direct
  proof -
    have "raid_wf (sized zs) b" using that by (simp add: raid0_wf_def)
    then show "raid0_wf be inv zs (snd (be_Write ?be data pos b))" 
      using data_device.raid0_write_loop_wf [OF sized_device, of data pos 0 b _ _ zs] that
      by (cases "raid0_write_loop be data pos 0 b") (simp add: raid0_backend_def raid0_Write_def raid0_wf_def)
    show "raid0_wf be inv zs (snd (be_Read ?be n pos direct b))"
    proof (cases "0 \<le> n")
      case True
      then show ?thesis
        using data_device.raid0_read_loop_data [OF sized_device, of n pos direct 0 "[]" b _ _ _ zs] that
        by (cases "raid0_read_loop be n pos direct 0 [] b") (auto simp: raid0_backend_def raid0_Read_def raid0_wf_def)
    next
      case False
      then show ?thesis using that by (simp add: raid0_backend_def raid0_Read_def raid0_read_loop.simps)
    qed
  qed
  have "data_device ?be (raid0_cont cont) (\<lambda>b. raid_wf (sized zs) b \<and> raid0_wf be inv zs b)"
    by (rule data_device_and [OF d]) (rule loops, assumption)+
  moreover have "(\<lambda>b. raid_wf (sized zs) b \<and> raid0_wf be inv zs b) = raid0_wf be inv zs"
    by (auto simp: raid0_wf_def)
  ultimately have dd: "data_device ?be (raid0_cont cont) (raid0_wf be inv zs)" by simp
  have keep: "raid0_wf be inv zs (snd (all_devices_ok f [0..<nr_dev b] OK b))
      \<and> raid0_cont cont (snd (all_devices_ok f [0..<nr_dev b] OK b)) = raid0_cont cont b"
    if "raid0_wf be inv zs b" "\<And>x. sized zs x \<Longrightarrow> sized zs (snd (f x))" "\<And>x. sized zs x \<Longrightarrow> cont (snd (f x)) = cont x"
    for f :: "'a \<Rightarrow> status \<times> 'a" and b
    using all_devices_ok_keeps [of "sized zs" b "[0..<nr_dev b]" f cont OK] that
      all_devices_ok_fields [of f "[0..<nr_dev b]" OK b] by (simp add: raid0_wf_def)
  note ops = raid0_backend_def raid0_Reset_def raid0_Finish_def raid0_Close_def raid0_Write_def raid0_Read_def
  show ?thesis
  proof (intro zoned_device.intro zoned_device_axioms.intro dd)
    fix b pos a assume b: "raid0_wf be inv zs b"
    obtain st off c r' where r: "raid0_Reset be pos b = ((st, off, c), r')" by (metis prod.collapse)
    note facts = raid0_reset_facts [OF b r]
    show "raid0_wf be inv zs (snd (be_Reset ?be pos b))" using facts r by (simp add: raid0_backend_def)
    show "raid0_cont cont (snd (be_Reset ?be pos b)) a = raid0_cont cont b a"
      if "unat (be_zone_sz ?be b) dvd unat pos" "a < unat pos \<or> unat pos + unat (be_zone_sz ?be b) \<le> a"
      using facts(2) [of a] that r by (simp add: raid0_backend_def)
    show "unat (snd (snd (fst (be_Reset ?be pos b)))) \<le> unat (be_zone_sz ?be b)" if "ok (fst (fst (be_Reset ?be pos b)))"
      using facts(3) that r by (simp add: raid0_backend_def)
    show "raid0_wf be inv zs (snd (be_Finish ?be pos b))" "raid0_cont cont (snd (be_Finish ?be pos b)) = raid0_cont cont b"
      using keep [OF b, of "be_Finish be (pos div of_nat (nr_dev b))"] finish_inv finish_cont geometry by (simp_all add: ops)
    show "raid0_wf be inv zs (snd (be_Close ?be pos b))" "raid0_cont cont (snd (be_Close ?be pos b)) = raid0_cont cont b"
      using keep [OF b, of "be_Close be (pos div of_nat (nr_dev b))"] close_inv close_cont geometry by (simp_all add: ops)
  qed (simp_all add: ops all_devices_ok_fields raid0_write_fields [unfolded same_geometry_def]
      raid0_read_fields [unfolded same_geometry_def] raid0_reset_fields [unfolded same_geometry_def])
qed

end

subsection \<open>Properties\<close>

text \<open>An array built over members of one geometry satisfies the invariant.\<close>

lemma raid0_wf_new:
  assumes "ds \<noteq> []" "length ds < 2 ^ 32" "\<forall>d\<in>set ds. I d \<and> be_zone_sz be d = zs" "length ds * unat zs < 2 ^ 64"
    and "0 < be_block_sz be (hd ds)" "unat (be_block_sz be (hd ds)) < 2 ^ 31"
    and "unat (be_block_sz be (hd ds)) dvd 2 ^ 32" "unat (be_block_sz be (hd ds)) dvd unat zs"
  shows "raid0_wf be I zs (Raid0ZonedBlockDevice be ds)"
proof -
  have hd: "be_zone_sz be (hd ds) = zs" using assms(1,3) by simp
  have n: "unat (of_nat (length ds) :: u64) = length ds" by (rule unat_of_nat_small) (use assms(2) in simp)
  have "unat (zs * of_nat (length ds)) = length ds * unat zs"
    by (subst unat_mult_no_wrap) (use assms(4) n in \<open>simp_all add: mult.commute\<close>)
  then show ?thesis
    using assms hd by (simp add: raid0_wf_def raid_wf_def Raid0ZonedBlockDevice_def raid0_syncBackendInfo_def
        raid_syncBackendInfo_def AbstractRaidZonedBlockDevice_def def_dev_def nr_dev_def Let_def)
qed

definition demo_raid0 :: "simdev zbdlib raid" where
  "demo_raid0 = Raid0ZonedBlockDevice (zbdlib_backend sim_libzbd) [demo_dev, demo_dev, demo_dev]"

lemma demo_dev_ok: "sim_ok demo_dev"
  by (simp add: sim_ok_def demo_dev_def sim_new_def sim_zone_def)

lemma demo_raid0_wf: "raid0_wf (zbdlib_backend sim_libzbd) sim_ok 64 demo_raid0"
  unfolding demo_raid0_def by (rule raid0_wf_new) (simp_all add: demo_dev_ok zbdlib_backend_def, simp_all add: demo_dev_def)

interpretation raid0_sim: zoned_device "raid0_backend (zbdlib_backend sim_libzbd)"
  "raid0_cont (\<lambda>b. sd_mem (zl_dev b))" "raid0_wf (zbdlib_backend sim_libzbd) sim_ok 64"
  by (rule sim_zoned.striped_zoned)

text \<open>C13: A RAID0 array over zoned devices is a zoned device.  The byte at a logical address is the byte of
  the member and member address the striping computes; writes, reads, resets, finishes and closes
  of the array then meet the contract that the members meet: a write stores the bytes it reports
  and no others, a read delivers the bytes at its position, a reset of an array zone changes no
  byte outside that zone and reports a capacity that fits it.\<close>

theorem raid0_zoned:
  assumes "zoned_device be cont I"
  shows "zoned_device (raid0_backend be) (raid0_cont cont) (raid0_wf be I zs)"
  by (rule zoned_device.striped_zoned [OF assms])

theorem raid0_zoned_witness:
  "zoned_device (raid0_backend (zbdlib_backend sim_libzbd)) (raid0_cont (\<lambda>b. sd_mem (zl_dev b)))
     (raid0_wf (zbdlib_backend sim_libzbd) sim_ok 64) \<and> raid0_wf (zbdlib_backend sim_libzbd) sim_ok 64 demo_raid0"
  using raid0_zoned [OF sim_zoned.zoned_device_axioms] demo_raid0_wf by blast

lemma address_map_facts:
  assumes "raid0_wf be I zs r"
  shows "unat (get_idx_dev r pos) < nr_dev r"
    "unat (req_pos r pos) div unat zs = unat pos div unat (ra_zone_sz r)"
    "get_idx_dev r pos = get_idx_dev r pos' \<Longrightarrow> req_pos r pos = req_pos r pos' \<Longrightarrow> pos = pos'"
proof -
  have wf: "raid_wf (\<lambda>d. I d \<and> be_zone_sz be d = zs) r" and zsz: "unat (ra_zone_sz r) = nr_dev r * unat zs"
    and dvd: "unat (ra_block_sz r) dvd unat zs" using assms by (simp_all add: raid0_wf_def)
  have bs: "0 < unat (ra_block_sz r)" and n: "0 < nr_dev r"
    using wf by (simp_all add: raid_wf_def nr_dev_def word_less_nat_alt)
  show "unat (get_idx_dev r pos) < nr_dev r" by (rule unat_get_idx_dev(2) [OF wf])
  obtain m where m: "unat zs = m * unat (ra_block_sz r)" using dvd by (metis dvd_def mult.commute)
  show "unat (req_pos r pos) div unat zs = unat pos div unat (ra_zone_sz r)"
  proof (cases "unat zs = 0")
    case True
    then show ?thesis using zsz by simp
  next
    case False
    define q where "q = unat pos div (nr_dev r * unat zs)"
    have "q * (nr_dev r * unat zs) \<le> unat pos" "unat pos < Suc q * (nr_dev r * unat zs)"
      using False n by (simp_all add: q_def dividend_less_div_times)
    then have "q * unat zs \<le> unat (req_pos r pos)" "unat (req_pos r pos) < Suc q * unat zs"
      using stripe_zone [OF bs n m] by (simp_all only: unat_req_pos [OF wf])
    then have "unat (req_pos r pos) div unat zs = q" using False by (intro div_nat_eqI) (simp_all add: mult.commute)
    then show ?thesis by (simp add: q_def zsz)
  qed
  show "pos = pos'" if "get_idx_dev r pos = get_idx_dev r pos'" "req_pos r pos = req_pos r pos'"
  proof -
    have "unat pos = unat pos'"
      by (rule stripe_inj [OF bs, of "nr_dev r"])
        (use that unat_get_idx_dev(1) [OF wf] unat_req_pos [OF wf] in metis)+
    then show ?thesis by (simp add: word_unat_eq_iff)
  qed
qed

text \<open>C32: The address translation of RAID0 stays in bounds and is one-to-one: the member index is that of a member,
  a position inside array zone \<open>q\<close> is translated to a position inside zone \<open>q\<close> of the member, and
  two positions with the same member and member position are equal.\<close>

theorem raid0_address_map:
  assumes "raid0_wf be I zs r"
  shows "unat (get_idx_dev r pos) < nr_dev r
    \<and> unat (req_pos r pos) div unat zs = unat pos div unat (ra_zone_sz r)
    \<and> (get_idx_dev r pos = get_idx_dev r pos' \<longrightarrow> req_pos r pos = req_pos r pos' \<longrightarrow> pos = pos')"
  using address_map_facts [OF assms] by blast

theorem raid0_address_map_witness:
  "unat (req_pos demo_raid0 203) div unat (64 :: u64) = unat (203 :: u64) div unat (ra_zone_sz demo_raid0) \<and> req_pos demo_raid0 203 = 67"
proof -
  have "req_pos demo_raid0 203 = 67" by code_simp
  then show ?thesis using raid0_address_map [OF demo_raid0_wf, of 203] by blast
qed

lemma reset_last_facts:
  assumes "ra_devices r = ds @ [d]" "be_Reset be (pos div of_nat (nr_dev r)) d = ((st, offline, c), d')"
  shows "fst (raid0_Reset be pos r) = (st, offline, if ok st then c * of_nat (nr_dev r) else c)"
    "ra_devices (snd (raid0_Reset be pos r)) = map (\<lambda>x. snd (be_Reset be (pos div of_nat (nr_dev r)) x)) (ra_devices r)"
proof -
  have n: "[0..<nr_dev r] \<noteq> []" "last [0..<nr_dev r] = length ds" using assms(1) by (simp_all add: nr_dev_def)
  note all = raid0_reset_loop_all [of "[0..<nr_dev r]" r be "pos div of_nat (nr_dev r)" "(OK, False, 0)"]
  show "fst (raid0_Reset be pos r) = (st, offline, if ok st then c * of_nat (nr_dev r) else c)"
    using all(2) n assms by (simp add: raid0_Reset_def nth_append)
  show "ra_devices (snd (raid0_Reset be pos r)) = map (\<lambda>x. snd (be_Reset be (pos div of_nat (nr_dev r)) x)) (ra_devices r)"
    using all(1) by (auto simp: raid0_Reset_def nr_dev_def intro!: nth_equalityI)
qed

text \<open>A reset of a RAID0 zone resets every member and reports what the last member reported: the failure of
  any earlier member is lost, and the capacity is that of the last member times the number of
  members.\<close>

theorem raid0_reset_reports_last:
  assumes "ra_devices r = ds @ [d]" "be_Reset be (pos div of_nat (nr_dev r)) d = ((st, offline, c), d')"
  shows "fst (raid0_Reset be pos r) = (st, offline, if ok st then c * of_nat (nr_dev r) else c)
    \<and> ra_devices (snd (raid0_Reset be pos r)) = map (\<lambda>x. snd (be_Reset be (pos div of_nat (nr_dev r)) x)) (ra_devices r)"
  using reset_last_facts [OF assms] by blast

text \<open>An array whose first member cannot be reset: it has no zones.\<close>

definition demo_broken :: "simdev zbdlib" where
  "demo_broken = demo_dev\<lparr> zl_dev := sim_new 0 64 48 4 \<rparr>"

lemma demo_broken_reset:
  "\<not> ok (fst (fst (be_Reset (zbdlib_backend sim_libzbd) 64 demo_broken)))"
  "fst (be_Reset (zbdlib_backend sim_libzbd) 64 demo_dev) = (OK, False, 48)"
  by code_simp+

theorem raid0_reset_reports_last_witness:
  "\<not> ok (fst (fst (be_Reset (zbdlib_backend sim_libzbd) 64 demo_broken)))
     \<and> fst (raid0_Reset (zbdlib_backend sim_libzbd) 128
         (Raid0ZonedBlockDevice (zbdlib_backend sim_libzbd) [demo_broken, demo_dev])) = (OK, False, 96)"
proof -
  let ?r = "Raid0ZonedBlockDevice (zbdlib_backend sim_libzbd) [demo_broken, demo_dev]"
  have dev: "ra_devices ?r = [demo_broken] @ [demo_dev]" and n: "nr_dev ?r = 2"
    by (simp_all add: Raid0ZonedBlockDevice_def raid0_syncBackendInfo_def raid_syncBackendInfo_def
        AbstractRaidZonedBlockDevice_def nr_dev_def Let_def)
  obtain d' where "be_Reset (zbdlib_backend sim_libzbd) 64 demo_dev = ((OK, False, 48), d')"
    using demo_broken_reset(2) by (metis prod.collapse)
  then show ?thesis
    using raid0_reset_reports_last [OF dev, of "zbdlib_backend sim_libzbd" 128 OK False 48 d'] demo_broken_reset(1) n
    by simp
qed

end
