(* ===== verification/Raid1.thy ===== *)
theory Raid1
  imports Raid
begin

text \<open>
  RAID1 (\<open>fs/raid/zone_raid1.h\<close>, \<open>.cc\<close>).  Zone management visits every member; the loops of
  \<open>Read\<close> and \<open>Write\<close> return at the first member whose call returns anything but 0, so that data
  goes to one member only: over members that make progress the array is its first member, and the
  other members are never written.
\<close>

subsection \<open>Operations\<close>

definition raid1_syncBackendInfo :: "'b backend \<Rightarrow> 'b raid \<Rightarrow> 'b raid" where
  "raid1_syncBackendInfo be r = raid_syncBackendInfo be r"

definition Raid1ZonedBlockDevice :: "'b backend \<Rightarrow> 'b list \<Rightarrow> 'b raid" where
  "Raid1ZonedBlockDevice be devices = raid1_syncBackendInfo be (AbstractRaidZonedBlockDevice devices)"

definition raid1_ListZones :: "'b backend \<Rightarrow> 'b raid \<Rightarrow> ZoneList option" where
  "raid1_ListZones be r = be_ListZones be (def_dev r)"

fun raid1_reset_loop ::
  "'b backend \<Rightarrow> u64 \<Rightarrow> nat list \<Rightarrow> status \<times> bool \<times> u64 \<Rightarrow> 'b raid \<Rightarrow> (status \<times> bool \<times> u64) \<times> 'b raid" where
  "raid1_reset_loop be pos [] res r = (res, r)"
| "raid1_reset_loop be pos (i # is) res r =
     (let ((s, offline, max_capacity), r') = dev_call i (be_Reset be pos) r in
      if \<not> ok s then ((s, offline, max_capacity), r')
      else raid1_reset_loop be pos is (s, offline, max_capacity) r')"

definition raid1_Reset :: "'b backend \<Rightarrow> u64 \<Rightarrow> 'b raid \<Rightarrow> (status \<times> bool \<times> u64) \<times> 'b raid" where
  "raid1_Reset be pos r = raid1_reset_loop be pos [0..<nr_dev r] (OK, False, 0) r"

definition raid1_Finish :: "'b backend \<Rightarrow> u64 \<Rightarrow> 'b raid \<Rightarrow> status \<times> 'b raid" where
  "raid1_Finish be pos r = all_devices_ok (be_Finish be pos) [0..<nr_dev r] OK r"

definition raid1_Close :: "'b backend \<Rightarrow> u64 \<Rightarrow> 'b raid \<Rightarrow> status \<times> 'b raid" where
  "raid1_Close be pos r = all_devices_ok (be_Close be pos) [0..<nr_dev r] OK r"

fun raid1_read_loop ::
  "'b backend \<Rightarrow> int \<Rightarrow> u64 \<Rightarrow> bool \<Rightarrow> nat list \<Rightarrow> int \<times> bytes \<Rightarrow> 'b raid \<Rightarrow> (int \<times> bytes) \<times> 'b raid" where
  "raid1_read_loop be n pos direct [] res r = (res, r)"
| "raid1_read_loop be n pos direct (i # is) res r =
     (let ((k, bs), r') = dev_call i (be_Read be n pos direct) r in
      if k \<noteq> 0 then ((k, bs), r') else raid1_read_loop be n pos direct is (k, bs) r')"

definition raid1_Read :: "'b backend \<Rightarrow> int \<Rightarrow> u64 \<Rightarrow> bool \<Rightarrow> 'b raid \<Rightarrow> (int \<times> bytes) \<times> 'b raid" where
  "raid1_Read be n pos direct r = raid1_read_loop be n pos direct [0..<nr_dev r] (0, []) r"

fun raid1_write_loop ::
  "'b backend \<Rightarrow> bytes \<Rightarrow> u64 \<Rightarrow> nat list \<Rightarrow> int \<Rightarrow> 'b raid \<Rightarrow> int \<times> 'b raid" where
  "raid1_write_loop be data pos [] res r = (res, r)"
| "raid1_write_loop be data pos (i # is) res r =
     (let (k, r') = dev_call i (be_Write be data pos) r in
      if k \<noteq> 0 then (k, r') else raid1_write_loop be data pos is k r')"

definition raid1_Write :: "'b backend \<Rightarrow> bytes \<Rightarrow> u64 \<Rightarrow> 'b raid \<Rightarrow> int \<times> 'b raid" where
  "raid1_Write be data pos r = raid1_write_loop be data pos [0..<nr_dev r] 0 r"

fun raid1_invalidate_loop :: "'b backend \<Rightarrow> u64 \<Rightarrow> u64 \<Rightarrow> nat list \<Rightarrow> int \<Rightarrow> 'b raid \<Rightarrow> int \<times> 'b raid" where
  "raid1_invalidate_loop be pos sz [] res r = (res, r)"
| "raid1_invalidate_loop be pos sz (i # is) res r =
     (let (k, r') = dev_call i (be_InvalidateCache be pos sz) r in
      raid1_invalidate_loop be pos sz is k r')"

definition raid1_InvalidateCache :: "'b backend \<Rightarrow> u64 \<Rightarrow> u64 \<Rightarrow> 'b raid \<Rightarrow> int \<times> 'b raid" where
  "raid1_InvalidateCache be pos sz r = raid1_invalidate_loop be pos sz [0..<nr_dev r] 0 r"

text \<open>The zone queries are the first member's.\<close>

definition raid1_ZoneIsSwr :: "'b backend \<Rightarrow> ZoneList \<Rightarrow> nat \<Rightarrow> 'b raid \<Rightarrow> bool" where
  "raid1_ZoneIsSwr be zones idx r = be_ZoneIsSwr be zones idx (def_dev r)"

definition raid1_ZoneIsOffline :: "'b backend \<Rightarrow> ZoneList \<Rightarrow> nat \<Rightarrow> 'b raid \<Rightarrow> bool" where
  "raid1_ZoneIsOffline be zones idx r = be_ZoneIsOffline be zones idx (def_dev r)"

definition raid1_ZoneIsWritable :: "'b backend \<Rightarrow> ZoneList \<Rightarrow> nat \<Rightarrow> 'b raid \<Rightarrow> bool" where
  "raid1_ZoneIsWritable be zones idx r = be_ZoneIsWritable be zones idx (def_dev r)"

definition raid1_ZoneIsActive :: "'b backend \<Rightarrow> ZoneList \<Rightarrow> nat \<Rightarrow> 'b raid \<Rightarrow> bool" where
  "raid1_ZoneIsActive be zones idx r = be_ZoneIsActive be zones idx (def_dev r)"

definition raid1_ZoneIsOpen :: "'b backend \<Rightarrow> ZoneList \<Rightarrow> nat \<Rightarrow> 'b raid \<Rightarrow> bool" where
  "raid1_ZoneIsOpen be zones idx r = be_ZoneIsOpen be zones idx (def_dev r)"

definition raid1_ZoneStart :: "'b backend \<Rightarrow> ZoneList \<Rightarrow> nat \<Rightarrow> 'b raid \<Rightarrow> u64" where
  "raid1_ZoneStart be zones idx r = be_ZoneStart be zones idx (def_dev r)"

definition raid1_ZoneMaxCapacity :: "'b backend \<Rightarrow> ZoneList \<Rightarrow> nat \<Rightarrow> 'b raid \<Rightarrow> u64" where
  "raid1_ZoneMaxCapacity be zones idx r = be_ZoneMaxCapacity be zones idx (def_dev r)"

definition raid1_ZoneWp :: "'b backend \<Rightarrow> ZoneList \<Rightarrow> nat \<Rightarrow> 'b raid \<Rightarrow> u64" where
  "raid1_ZoneWp be zones idx r = be_ZoneWp be zones idx (def_dev r)"

definition raid1_backend :: "'b backend \<Rightarrow> 'b raid backend" where
  "raid1_backend be = \<lparr> be_Open = raid_Open be (raid1_syncBackendInfo be),
     be_ListZones = raid1_ListZones be, be_Reset = raid1_Reset be, be_Finish = raid1_Finish be,
     be_Close = raid1_Close be, be_Read = raid1_Read be, be_Write = raid1_Write be,
     be_InvalidateCache = raid1_InvalidateCache be,
     be_ZoneIsSwr = raid1_ZoneIsSwr be, be_ZoneIsOffline = raid1_ZoneIsOffline be,
     be_ZoneIsWritable = raid1_ZoneIsWritable be, be_ZoneIsActive = raid1_ZoneIsActive be,
     be_ZoneIsOpen = raid1_ZoneIsOpen be, be_ZoneStart = raid1_ZoneStart be,
     be_ZoneMaxCapacity = raid1_ZoneMaxCapacity be, be_ZoneWp = raid1_ZoneWp be,
     be_GetFilename = raid_GetFilename be RAID1,
     be_block_sz = ra_block_sz, be_zone_sz = ra_zone_sz, be_nr_zones = ra_nr_zones,
     be_IsRAIDEnabled = True, be_setZoneOffline = raid_setZoneOffline (raid1_Close be),
     be_errno = (\<lambda>r. be_errno be (ra_devices r ! ra_last r)), be_strerror = be_strerror be \<rparr>"

subsection \<open>What the loops do\<close>

lemma upt_nr_dev: "ra_devices r \<noteq> [] \<Longrightarrow> [0..<nr_dev r] = 0 # [1..<nr_dev r]"
  by (simp add: nr_dev_def upt_conv_Cons)

lemma raid1_Write_first:
  assumes "ra_devices r \<noteq> []" "fst (be_Write be data pos (def_dev r)) \<noteq> 0"
  shows "raid1_Write be data pos r = dev_call 0 (be_Write be data pos) r"
  using assms by (simp add: raid1_Write_def upt_nr_dev def_dev_def hd_conv_nth split_beta Let_def dev_call_pair)

lemma raid1_Read_first:
  assumes "ra_devices r \<noteq> []" "fst (fst (be_Read be n pos direct (def_dev r))) \<noteq> 0"
  shows "raid1_Read be n pos direct r = dev_call 0 (be_Read be n pos direct) r"
  using assms by (simp add: raid1_Read_def upt_nr_dev def_dev_def hd_conv_nth split_beta Let_def dev_call_pair)

text \<open>Resetting stops at the first member that fails; when it succeeds, every member was reset.\<close>

lemma raid1_reset_loop_all:
  assumes "raid1_reset_loop be pos is res r = ((st, offline, c), r')" "ok st" "distinct is" "\<forall>i\<in>set is. i < nr_dev r"
  shows "(\<forall>i\<in>set is. ok (fst (fst (be_Reset be pos (ra_devices r ! i))))
      \<and> ra_devices r' ! i = snd (be_Reset be pos (ra_devices r ! i)))
    \<and> (\<forall>i. i \<notin> set is \<longrightarrow> ra_devices r' ! i = ra_devices r ! i)"
  using assms
proof (induction "is" arbitrary: res r)
  case (Cons i "is")
  obtain s1 o1 c1 r1 where dc: "dev_call i (be_Reset be pos) r = ((s1, o1, c1), r1)" by (metis prod.collapse)
  have r1: "ra_devices r1 = (ra_devices r)[i := snd (be_Reset be pos (ra_devices r ! i))]" "nr_dev r1 = nr_dev r"
    and s1: "fst (be_Reset be pos (ra_devices r ! i)) = (s1, o1, c1)"
    using dev_call_fields [of i "be_Reset be pos" r] dev_call_result [of i "be_Reset be pos" r] by (simp_all add: dc)
  have ok1: "ok s1" and run: "raid1_reset_loop be pos is (s1, o1, c1) r1 = ((st, offline, c), r')"
    using Cons.prems(1,2) by (auto simp: dc split: if_splits)
  have nth: "ra_devices r1 ! j = (if i = j then snd (be_Reset be pos (ra_devices r ! i)) else ra_devices r ! j)" for j
    using Cons.prems(4) r1(1) by (simp add: nr_dev_def nth_list_update_same_or)
  from Cons.IH [OF run Cons.prems(2)] Cons.prems(3,4) r1(2)
  have IH: "\<forall>j\<in>set is. ok (fst (fst (be_Reset be pos (ra_devices r1 ! j))))
      \<and> ra_devices r' ! j = snd (be_Reset be pos (ra_devices r1 ! j))"
    "\<forall>j. j \<notin> set is \<longrightarrow> ra_devices r' ! j = ra_devices r1 ! j" by simp_all
  show ?case using IH nth Cons.prems(3) ok1 s1 by auto
qed simp

subsection \<open>Properties\<close>

lemma first_member_facts:
  assumes "ra_devices r = d # ds"
  shows "be_Write be data pos d = (k, d') \<Longrightarrow> k \<noteq> 0
      \<Longrightarrow> raid1_Write be data pos r = (k, r\<lparr> ra_devices := d' # ds, ra_last := 0 \<rparr>)"
    "be_Read be n pos direct d = ((j, bs), d'') \<Longrightarrow> j \<noteq> 0
      \<Longrightarrow> raid1_Read be n pos direct r = ((j, bs), r\<lparr> ra_devices := d'' # ds, ra_last := 0 \<rparr>)"
  using assms raid1_Write_first [of r be data pos] raid1_Read_first [of r be n pos direct]
  by (simp_all add: def_dev_def dev_call_def)

text \<open>C33: RAID1 does not mirror.  A write returns at the first member that reports anything but 0: where the
  first member accepts a byte or fails, its result is the result of the array and no other member
  is touched; the read of the array is then that of the first member as well.\<close>

theorem raid1_is_first_member:
  assumes "ra_devices r = d # ds" "be_Write be data pos d = (k, d')" "k \<noteq> 0"
    and "be_Read be n pos direct d = ((j, bs), d'')" "j \<noteq> 0"
  shows "raid1_Write be data pos r = (k, r\<lparr> ra_devices := d' # ds, ra_last := 0 \<rparr>)
    \<and> raid1_Read be n pos direct r = ((j, bs), r\<lparr> ra_devices := d'' # ds, ra_last := 0 \<rparr>)"
  using first_member_facts [OF assms(1)] assms(2-) by blast

definition demo_raid1 :: "simdev zbdlib raid" where
  "demo_raid1 = Raid1ZonedBlockDevice (zbdlib_backend sim_libzbd) [demo_dev, demo_dev]"

lemma demo_raid1_write:
  "fst (be_Write (zbdlib_backend sim_libzbd) [1, 2, 3, 4] 64 demo_dev) = 4"
  by code_simp

lemma demo_raid1_read: "fst (fst (be_Read (zbdlib_backend sim_libzbd) 4 64 False demo_dev)) = 4"
  by code_simp

lemma demo_raid1_members: "ra_devices demo_raid1 = [demo_dev, demo_dev]"
  by (simp add: demo_raid1_def Raid1ZonedBlockDevice_def raid1_syncBackendInfo_def raid_syncBackendInfo_def
      AbstractRaidZonedBlockDevice_def)

theorem raid1_is_first_member_witness:
  "\<exists>r. raid1_Write (zbdlib_backend sim_libzbd) [1, 2, 3, 4] 64 demo_raid1 = (4, r) \<and> ra_devices r ! 1 = demo_dev"
proof -
  obtain d' where "be_Write (zbdlib_backend sim_libzbd) [1, 2, 3, 4] 64 demo_dev = (4, d')"
    using demo_raid1_write by (metis prod.collapse)
  moreover obtain j bs d'' where "be_Read (zbdlib_backend sim_libzbd) 4 64 False demo_dev = ((j, bs), d'')" "j = 4"
    using demo_raid1_read by (metis prod.collapse)
  ultimately show ?thesis
    using raid1_is_first_member [OF demo_raid1_members, of "zbdlib_backend sim_libzbd" "[1, 2, 3, 4]" 64 4 d' 4 False j bs d'']
    by simp
qed

lemma zone_management_facts:
  assumes "i < nr_dev r"
  shows "raid1_Reset be pos r = ((st, offline, c), r') \<Longrightarrow> ok st
      \<Longrightarrow> ok (fst (fst (be_Reset be pos (ra_devices r ! i)))) \<and> ra_devices r' ! i = snd (be_Reset be pos (ra_devices r ! i))"
    "raid1_Finish be pos r = (st, r') \<Longrightarrow> ok st
      \<Longrightarrow> ok (fst (be_Finish be pos (ra_devices r ! i))) \<and> ra_devices r' ! i = snd (be_Finish be pos (ra_devices r ! i))"
    "raid1_Close be pos r = (st, r') \<Longrightarrow> ok st
      \<Longrightarrow> ok (fst (be_Close be pos (ra_devices r ! i))) \<and> ra_devices r' ! i = snd (be_Close be pos (ra_devices r ! i))"
  using assms raid1_reset_loop_all [of be pos "[0..<nr_dev r]" "(OK, False, 0)" r st offline c r']
    all_devices_ok_all [of "be_Finish be pos" "[0..<nr_dev r]" OK r st r']
    all_devices_ok_all [of "be_Close be pos" "[0..<nr_dev r]" OK r st r']
  by (simp_all add: raid1_Reset_def raid1_Finish_def raid1_Close_def)

text \<open>Zone management of RAID1 reaches every member: when a reset, a finish or a close of the array reports
  OK, it was done on every member and every member reported OK.\<close>

theorem raid1_zone_management:
  assumes "i < nr_dev r" "raid1_Reset be pos r = ((st, offline, c), r1)" "ok st"
    and "raid1_Finish be pos r = (st', r2)" "ok st'" "raid1_Close be pos r = (st'', r3)" "ok st''"
  shows "ok (fst (fst (be_Reset be pos (ra_devices r ! i)))) \<and> ra_devices r1 ! i = snd (be_Reset be pos (ra_devices r ! i))
    \<and> ok (fst (be_Finish be pos (ra_devices r ! i))) \<and> ra_devices r2 ! i = snd (be_Finish be pos (ra_devices r ! i))
    \<and> ok (fst (be_Close be pos (ra_devices r ! i))) \<and> ra_devices r3 ! i = snd (be_Close be pos (ra_devices r ! i))"
  using zone_management_facts [OF assms(1)] assms(2-) by blast

lemma demo_raid1_manage:
  "ok (fst (fst (raid1_Reset (zbdlib_backend sim_libzbd) 64 demo_raid1)))"
  "ok (fst (raid1_Finish (zbdlib_backend sim_libzbd) 64 demo_raid1))"
  "ok (fst (raid1_Close (zbdlib_backend sim_libzbd) 64 demo_raid1))"
  by code_simp+

theorem raid1_zone_management_witness:
  "ok (fst (fst (be_Reset (zbdlib_backend sim_libzbd) 64 (ra_devices demo_raid1 ! 1))))
     \<and> ok (fst (be_Finish (zbdlib_backend sim_libzbd) 64 (ra_devices demo_raid1 ! 1)))"
proof -
  let ?be = "zbdlib_backend sim_libzbd"
  obtain st off c r1 st' r2 st'' r3 where run: "raid1_Reset ?be 64 demo_raid1 = ((st, off, c), r1)"
      "raid1_Finish ?be 64 demo_raid1 = (st', r2)" "raid1_Close ?be 64 demo_raid1 = (st'', r3)"
    by (metis prod.collapse)
  have "1 < nr_dev demo_raid1" by (simp add: demo_raid1_members nr_dev_def)
  from raid1_zone_management [OF this run(1) _ run(2) _ run(3)] demo_raid1_manage run show ?thesis by simp
qed

end
