(* ===== verification/RaidC.thy ===== *)
theory RaidC
  imports Raid
begin

text \<open>
  RAID-C (\<open>fs/raid/zone_raidc.h\<close>, \<open>.cc\<close>): the members one after the other.  Every operation walks
  the members, subtracting their sizes from the position until it falls into one; the walk is
  \<open>raidc_locate\<close>, and \<open>raidc_zone\<close> for zone indices.

  A request that stays inside a member reads and writes the bytes of the concatenation.  The zone
  queries do not add the offset of the member to the start and the write pointer they return.
\<close>

subsection \<open>Walking the members\<close>

definition dev_size :: "'b backend \<Rightarrow> 'b \<Rightarrow> u64" where
  "dev_size be d = ucast (be_nr_zones be d) * be_zone_sz be d"

fun raidc_locate :: "'b backend \<Rightarrow> 'b list \<Rightarrow> nat \<Rightarrow> u64 \<Rightarrow> (nat \<times> u64) option" where
  "raidc_locate be [] i pos = None"
| "raidc_locate be (d # ds) i pos =
     (if pos < dev_size be d then Some (i, pos) else raidc_locate be ds (Suc i) (pos - dev_size be d))"

fun raidc_zone :: "'b backend \<Rightarrow> 'b list \<Rightarrow> u32 \<Rightarrow> ('b \<times> u32) option" where
  "raidc_zone be [] idx = None"
| "raidc_zone be (d # ds) idx =
     (if idx < be_nr_zones be d then Some (d, idx) else raidc_zone be ds (idx - be_nr_zones be d))"

subsection \<open>Operations\<close>

definition raidc_syncBackendInfo :: "'b backend \<Rightarrow> 'b raid \<Rightarrow> 'b raid" where
  "raidc_syncBackendInfo be r =
     (let r' = raid_syncBackendInfo be r in r'\<lparr> ra_nr_zones := ra_total_nr_devices_zones r' \<rparr>)"

definition RaidCZonedBlockDevice :: "'b list \<Rightarrow> 'b raid" where
  "RaidCZonedBlockDevice devices = AbstractRaidZonedBlockDevice devices"

definition raidc_ListZones :: "'b backend \<Rightarrow> 'b raid \<Rightarrow> ZoneList option" where
  "raidc_ListZones be r = Some (concat (List.map_filter (be_ListZones be) (ra_devices r)))"

definition raid_unsupported :: status where
  "raid_unsupported = NotSupported (str ''Raid unsupported'') []"

definition raidc_Reset :: "'b backend \<Rightarrow> u64 \<Rightarrow> 'b raid \<Rightarrow> (status \<times> bool \<times> u64) \<times> 'b raid" where
  "raidc_Reset be pos r =
     (case raidc_locate be (ra_devices r) 0 pos of
        None \<Rightarrow> ((IOError_sc kNone, False, 0), r)
      | Some (i, p) \<Rightarrow> dev_call i (be_Reset be p) r)"

definition raidc_Finish :: "'b backend \<Rightarrow> u64 \<Rightarrow> 'b raid \<Rightarrow> status \<times> 'b raid" where
  "raidc_Finish be pos r =
     (case raidc_locate be (ra_devices r) 0 pos of
        None \<Rightarrow> (raid_unsupported, r)
      | Some (i, p) \<Rightarrow> dev_call i (be_Finish be p) r)"

definition raidc_Close :: "'b backend \<Rightarrow> u64 \<Rightarrow> 'b raid \<Rightarrow> status \<times> 'b raid" where
  "raidc_Close be pos r =
     (case raidc_locate be (ra_devices r) 0 pos of
        None \<Rightarrow> (raid_unsupported, r)
      | Some (i, p) \<Rightarrow> dev_call i (be_Close be p) r)"

definition raidc_Read :: "'b backend \<Rightarrow> int \<Rightarrow> u64 \<Rightarrow> bool \<Rightarrow> 'b raid \<Rightarrow> (int \<times> bytes) \<times> 'b raid" where
  "raidc_Read be n pos direct r =
     (case raidc_locate be (ra_devices r) 0 pos of
        None \<Rightarrow> ((- 1, []), r)
      | Some (i, p) \<Rightarrow> dev_call i (be_Read be n p direct) r)"

definition raidc_Write :: "'b backend \<Rightarrow> bytes \<Rightarrow> u64 \<Rightarrow> 'b raid \<Rightarrow> int \<times> 'b raid" where
  "raidc_Write be data pos r =
     (case raidc_locate be (ra_devices r) 0 pos of
        None \<Rightarrow> (- 1, r)
      | Some (i, p) \<Rightarrow> dev_call i (be_Write be data p) r)"

definition raidc_InvalidateCache :: "'b backend \<Rightarrow> u64 \<Rightarrow> u64 \<Rightarrow> 'b raid \<Rightarrow> int \<times> 'b raid" where
  "raidc_InvalidateCache be pos sz r =
     (case raidc_locate be (ra_devices r) 0 pos of
        None \<Rightarrow> (0, r)
      | Some (i, p) \<Rightarrow> dev_call i (be_InvalidateCache be p sz) r)"

definition raidc_ZoneIsSwr :: "'b backend \<Rightarrow> ZoneList \<Rightarrow> nat \<Rightarrow> 'b raid \<Rightarrow> bool" where
  "raidc_ZoneIsSwr be zones idx r =
     (case raidc_zone be (ra_devices r) (of_nat idx) of
        None \<Rightarrow> False | Some (d, j) \<Rightarrow> be_ZoneIsSwr be (listed be d) (unat j) d)"

definition raidc_ZoneIsOffline :: "'b backend \<Rightarrow> ZoneList \<Rightarrow> nat \<Rightarrow> 'b raid \<Rightarrow> bool" where
  "raidc_ZoneIsOffline be zones idx r =
     (case raidc_zone be (ra_devices r) (of_nat idx) of
        None \<Rightarrow> False | Some (d, j) \<Rightarrow> be_ZoneIsOffline be (listed be d) (unat j) d)"

definition raidc_ZoneIsWritable :: "'b backend \<Rightarrow> ZoneList \<Rightarrow> nat \<Rightarrow> 'b raid \<Rightarrow> bool" where
  "raidc_ZoneIsWritable be zones idx r =
     (case raidc_zone be (ra_devices r) (of_nat idx) of
        None \<Rightarrow> False | Some (d, j) \<Rightarrow> be_ZoneIsWritable be (listed be d) (unat j) d)"

definition raidc_ZoneIsActive :: "'b backend \<Rightarrow> ZoneList \<Rightarrow> nat \<Rightarrow> 'b raid \<Rightarrow> bool" where
  "raidc_ZoneIsActive be zones idx r =
     (case raidc_zone be (ra_devices r) (of_nat idx) of
        None \<Rightarrow> False | Some (d, j) \<Rightarrow> be_ZoneIsActive be (listed be d) (unat j) d)"

definition raidc_ZoneIsOpen :: "'b backend \<Rightarrow> ZoneList \<Rightarrow> nat \<Rightarrow> 'b raid \<Rightarrow> bool" where
  "raidc_ZoneIsOpen be zones idx r =
     (case raidc_zone be (ra_devices r) (of_nat idx) of
        None \<Rightarrow> False | Some (d, j) \<Rightarrow> be_ZoneIsOpen be (listed be d) (unat j) d)"

definition raidc_ZoneStart :: "'b backend \<Rightarrow> ZoneList \<Rightarrow> nat \<Rightarrow> 'b raid \<Rightarrow> u64" where
  "raidc_ZoneStart be zones idx r =
     (case raidc_zone be (ra_devices r) (of_nat idx) of
        None \<Rightarrow> 0 | Some (d, j) \<Rightarrow> be_ZoneStart be (listed be d) (unat j) d)"

definition raidc_ZoneMaxCapacity :: "'b backend \<Rightarrow> ZoneList \<Rightarrow> nat \<Rightarrow> 'b raid \<Rightarrow> u64" where
  "raidc_ZoneMaxCapacity be zones idx r =
     (case raidc_zone be (ra_devices r) (of_nat idx) of
        None \<Rightarrow> 0 | Some (d, j) \<Rightarrow> be_ZoneMaxCapacity be (listed be d) (unat j) d)"

definition raidc_ZoneWp :: "'b backend \<Rightarrow> ZoneList \<Rightarrow> nat \<Rightarrow> 'b raid \<Rightarrow> u64" where
  "raidc_ZoneWp be zones idx r =
     (case raidc_zone be (ra_devices r) (of_nat idx) of
        None \<Rightarrow> 0 | Some (d, j) \<Rightarrow> be_ZoneWp be (listed be d) (unat j) d)"

definition raidc_backend :: "'b backend \<Rightarrow> 'b raid backend" where
  "raidc_backend be = \<lparr> be_Open = raid_Open be (raidc_syncBackendInfo be),
     be_ListZones = raidc_ListZones be, be_Reset = raidc_Reset be, be_Finish = raidc_Finish be,
     be_Close = raidc_Close be, be_Read = raidc_Read be, be_Write = raidc_Write be,
     be_InvalidateCache = raidc_InvalidateCache be,
     be_ZoneIsSwr = raidc_ZoneIsSwr be, be_ZoneIsOffline = raidc_ZoneIsOffline be,
     be_ZoneIsWritable = raidc_ZoneIsWritable be, be_ZoneIsActive = raidc_ZoneIsActive be,
     be_ZoneIsOpen = raidc_ZoneIsOpen be, be_ZoneStart = raidc_ZoneStart be,
     be_ZoneMaxCapacity = raidc_ZoneMaxCapacity be, be_ZoneWp = raidc_ZoneWp be,
     be_GetFilename = raid_GetFilename be RAID_C,
     be_block_sz = ra_block_sz, be_zone_sz = ra_zone_sz, be_nr_zones = ra_nr_zones,
     be_IsRAIDEnabled = True, be_setZoneOffline = raid_setZoneOffline (raidc_Close be),
     be_errno = (\<lambda>r. be_errno be (ra_devices r ! ra_last r)), be_strerror = be_strerror be \<rparr>"

subsection \<open>The concatenation\<close>

text \<open>The bytes of the members one after the other, and the total size.\<close>

fun raidc_cont :: "'b backend \<Rightarrow> ('b \<Rightarrow> nat \<Rightarrow> byte) \<Rightarrow> 'b list \<Rightarrow> nat \<Rightarrow> byte" where
  "raidc_cont be cont [] a = 0"
| "raidc_cont be cont (d # ds) a =
     (if a < unat (dev_size be d) then cont d a else raidc_cont be cont ds (a - unat (dev_size be d)))"

definition raidc_base :: "'b backend \<Rightarrow> 'b list \<Rightarrow> nat \<Rightarrow> nat" where
  "raidc_base be ds i = (\<Sum>d\<leftarrow>take i ds. unat (dev_size be d))"

lemma raidc_locate_shift: "raidc_locate be ds i pos = map_option (apfst ((+) i)) (raidc_locate be ds 0 pos)"
proof (induction ds arbitrary: i pos)
  case (Cons d ds)
  show ?case
    by (subst (1 2) raidc_locate.simps, subst (1 2) Cons.IH)
      (cases "raidc_locate be ds 0 (pos - dev_size be d)", auto)
qed simp

text \<open>Where the walk ends: the position is the base of the member and the offset in it.\<close>

lemma raidc_locate_base:
  assumes "raidc_locate be ds 0 pos = Some (i, p)"
  shows "i < length ds \<and> p < dev_size be (ds ! i) \<and> unat pos = raidc_base be ds i + unat p"
  using assms
proof (induction ds arbitrary: pos i p)
  case (Cons d ds)
  show ?case
  proof (cases "pos < dev_size be d")
    case True
    then show ?thesis using Cons.prems by (simp add: raidc_base_def)
  next
    case False
    then obtain j where j: "raidc_locate be ds 0 (pos - dev_size be d) = Some (j, p)" "i = Suc j"
      using Cons.prems raidc_locate_shift [of be ds "Suc 0"] by (auto simp: apfst_def map_prod_def)
    from Cons.IH [OF j(1)] False j(2) show ?thesis
      by (auto simp: raidc_base_def unat_sub_no_wrap word_le_nat_alt not_less)
  qed
qed simp

lemma raidc_cont_at:
  assumes "i < length ds" "p < unat (dev_size be (ds ! i))"
  shows "raidc_cont be cont ds (raidc_base be ds i + p) = cont (ds ! i) p"
  using assms
proof (induction ds arbitrary: i)
  case (Cons d ds)
  then show ?case by (cases i) (simp_all add: raidc_base_def add.assoc)
qed simp

text \<open>Every address of the array is the address of one byte of one member.\<close>

lemma raidc_cont_cases:
  assumes "raidc_base be ds (length ds) \<le> a \<Longrightarrow> thesis"
    and "\<And>i p. i < length ds \<Longrightarrow> p < unat (dev_size be (ds ! i)) \<Longrightarrow> a = raidc_base be ds i + p \<Longrightarrow> thesis"
  shows thesis
  using assms
proof (induction ds arbitrary: a thesis)
  case (Cons d ds)
  show ?case
  proof (cases "a < unat (dev_size be d)")
    case True
    then show ?thesis by (intro Cons.prems(2) [of 0 a]) (simp_all add: raidc_base_def)
  next
    case False
    show ?thesis
    proof (rule Cons.IH [of "a - unat (dev_size be d)"])
      assume "raidc_base be ds (length ds) \<le> a - unat (dev_size be d)"
      then show ?thesis using False by (intro Cons.prems(1)) (simp add: raidc_base_def)
    next
      fix i p assume "i < length ds" "p < unat (dev_size be (ds ! i))" "a - unat (dev_size be d) = raidc_base be ds i + p"
      then show ?thesis using False by (intro Cons.prems(2) [of "Suc i" p]) (simp_all add: raidc_base_def)
    qed
  qed
qed (simp add: raidc_base_def)

lemma raidc_cont_beyond: "raidc_base be ds (length ds) \<le> a \<Longrightarrow> raidc_cont be cont ds a = 0"
  by (induction ds arbitrary: a) (simp_all add: raidc_base_def)

text \<open>Replacing a member by one of the same size moves no byte of another member.\<close>

lemma raidc_base_update:
  assumes "i < length ds" "dev_size be d = dev_size be (ds ! i)"
  shows "raidc_base be (ds[i := d]) j = raidc_base be ds j"
  using assms
proof (induction ds arbitrary: i j)
  case (Cons x ds)
  then show ?case by (cases i; cases j) (simp_all add: raidc_base_def)
qed simp

lemma raidc_base_inj:
  assumes "i < length ds" "p < unat (dev_size be (ds ! i))" "j < length ds" "q < unat (dev_size be (ds ! j))"
    and "raidc_base be ds i + p = raidc_base be ds j + q"
  shows "i = j \<and> p = q"
  using assms
proof (induction ds arbitrary: i j)
  case (Cons d ds)
  then show ?case by (cases i; cases j) (auto simp: raidc_base_def)
qed simp

subsection \<open>Properties\<close>

lemma raidc_write_at:
  assumes dev: "data_device be cont I" "\<forall>d\<in>set (ra_devices r). I d"
    and loc: "raidc_locate be (ra_devices r) 0 pos = Some (i, p)"
    and fits: "unat p + length data \<le> unat (dev_size be (ra_devices r ! i))"
    and geo: "dev_size be (snd (be_Write be data p (ra_devices r ! i))) = dev_size be (ra_devices r ! i)"
    and w: "raidc_Write be data pos r = (k, r')"
  shows "int j < k \<Longrightarrow> raidc_cont be cont (ra_devices r') (unat pos + j) = data ! j"
    "a < unat pos \<or> unat pos + length data \<le> a
      \<Longrightarrow> raidc_cont be cont (ra_devices r') a = raidc_cont be cont (ra_devices r) a"
proof -
  let ?ds = "ra_devices r"
  let ?d = "snd (be_Write be data p (?ds ! i))"
  have i: "i < length ?ds" and pos: "unat pos = raidc_base be ?ds i + unat p" using raidc_locate_base [OF loc] by simp_all
  have I: "I (?ds ! i)" using dev(2) i by simp
  have room: "unat p + length data < 2 ^ 64" using fits unat_lt [of "dev_size be (?ds ! i)"] by simp
  have k: "k = fst (be_Write be data p (?ds ! i))" and r': "ra_devices r' = ?ds[i := ?d]"
    using w loc by (auto simp: raidc_Write_def dev_call_def split: prod.splits)
  have base: "raidc_base be (ra_devices r') j = raidc_base be ?ds j" for j
    unfolding r' by (rule raidc_base_update [OF i geo])
  have size: "dev_size be (ra_devices r' ! j) = dev_size be (?ds ! j)" for j
    using geo i unfolding r' by (cases "i = j") simp_all
  have len: "length (ra_devices r') = length ?ds" by (simp add: r')
  have at: "raidc_cont be cont (ra_devices r') (raidc_base be ?ds j + q) = cont (ra_devices r' ! j) q"
    if "j < length ?ds" "q < unat (dev_size be (?ds ! j))" for j q
    using raidc_cont_at [of j "ra_devices r'" q be cont] that by (simp add: base size len)
  show "raidc_cont be cont (ra_devices r') (unat pos + j) = data ! j" if "int j < k"
  proof -
    have "j < length data" using that data_device.write_result [OF dev(1) I, of data p] k by simp
    then have "unat p + j < unat (dev_size be (?ds ! i))" using fits by simp
    from at [OF i this] show ?thesis
      using data_device.write_stored [OF dev(1) I room, of j] that k i by (simp add: pos r' add.assoc)
  qed
  show "raidc_cont be cont (ra_devices r') a = raidc_cont be cont ?ds a"
    if out: "a < unat pos \<or> unat pos + length data \<le> a"
  proof (rule raidc_cont_cases [of be ?ds a])
    assume "raidc_base be ?ds (length ?ds) \<le> a"
    then show ?thesis using raidc_cont_beyond [of be "ra_devices r'" a] by (simp add: raidc_cont_beyond base len)
  next
    fix j q assume j: "j < length ?ds" "q < unat (dev_size be (?ds ! j))" "a = raidc_base be ?ds j + q"
    have "cont (ra_devices r' ! j) q = cont (?ds ! j) q"
    proof (cases "i = j")
      case True
      then have "q < unat p \<or> unat p + length data \<le> q" using out pos j(3) by auto
      from data_device.write_frame [OF dev(1) I room this] True i show ?thesis by (simp add: r')
    next
      case False
      then show ?thesis by (simp add: r')
    qed
    then show ?thesis using at [OF j(1,2)] raidc_cont_at [OF j(1,2)] by (simp add: j(3))
  qed
qed

lemma raidc_read_at:
  assumes dev: "data_device be cont I" "\<forall>d\<in>set (ra_devices r). I d"
    and loc: "raidc_locate be (ra_devices r) 0 pos = Some (i, p)"
    and fits: "unat p + nat n \<le> unat (dev_size be (ra_devices r ! i))" "0 \<le> n"
    and rd: "raidc_Read be n pos direct r = ((k, bs), r')" "0 \<le> k"
  shows "k \<le> n \<and> bs = map (\<lambda>j. raidc_cont be cont (ra_devices r) (unat pos + j)) [0..<nat k]"
proof -
  let ?d = "ra_devices r ! i"
  have i: "i < length (ra_devices r)" and pos: "unat pos = raidc_base be (ra_devices r) i + unat p"
    using raidc_locate_base [OF loc] by simp_all
  have I: "I ?d" using dev(2) i by simp
  have room: "unat p + nat n < 2 ^ 64" using fits unat_lt [of "dev_size be ?d"] by simp
  have k: "fst (be_Read be n p direct ?d) = (k, bs)" using rd loc by (simp add: raidc_Read_def dev_call_def split: prod.splits)
  have le: "k \<le> n" using data_device.read_result [OF dev(1) I fits(2), of p direct] k by simp
  have "bs = map (\<lambda>j. cont ?d (unat p + j)) [0..<nat k]"
    using data_device.read_data [OF dev(1) I fits(2) room, of direct] k rd(2) by simp
  moreover have "cont ?d (unat p + j) = raidc_cont be cont (ra_devices r) (unat pos + j)" if "j < nat k" for j
    using raidc_cont_at [OF i, of "unat p + j" be cont] that le fits by (simp add: pos add.assoc)
  ultimately show ?thesis using le by simp
qed

lemma write_read_facts:
  assumes "data_device be cont I" "\<forall>d\<in>set (ra_devices r). I d"
    and "raidc_locate be (ra_devices r) 0 pos = Some (i, p)"
    and "unat p + length data \<le> unat (dev_size be (ra_devices r ! i))"
    and "\<And>d. dev_size be (snd (be_Write be data p d)) = dev_size be d"
    and "raidc_Write be data pos r = (int (length data), r1)"
    and "raidc_Read be (int (length data)) pos direct r1 = ((k, bs), r2)" "0 \<le> k"
  shows "bs = take (nat k) data"
    "a < unat pos \<or> unat pos + length data \<le> a
      \<Longrightarrow> raidc_cont be cont (ra_devices r1) a = raidc_cont be cont (ra_devices r) a"
proof -
  let ?d = "snd (be_Write be data p (ra_devices r ! i))"
  note w = raidc_write_at [OF assms(1-4) assms(5) assms(6)]
  have i: "i < length (ra_devices r)" and p: "p < dev_size be (ra_devices r ! i)" using raidc_locate_base [OF assms(3)] by simp_all
  have r1: "ra_devices r1 = (ra_devices r)[i := ?d]"
    using assms(3,6) by (auto simp: raidc_Write_def dev_call_def split: prod.splits)
  have I: "\<forall>d\<in>set (ra_devices r1). I d"
    using assms(2) i data_device.write_inv [OF assms(1), of "ra_devices r ! i" data p] unfolding r1
    by (auto dest!: set_update_subset_insert [THEN subsetD])
  have "raidc_locate be (ds[m := snd (be_Write be data p (ds ! m))]) j q = raidc_locate be ds j q" for ds m j q
    using assms(5) by (induction ds arbitrary: m j q) (auto split: nat.splits)
  then have loc: "raidc_locate be (ra_devices r1) 0 pos = Some (i, p)" using assms(3) by (simp add: r1)
  have "unat p + nat (int (length data)) \<le> unat (dev_size be (ra_devices r1 ! i))" using assms(4,5) i by (simp add: r1)
  from raidc_read_at [OF assms(1) I loc this _ assms(7,8)]
  have k: "k \<le> int (length data)" and bs: "bs = map (\<lambda>j. raidc_cont be cont (ra_devices r1) (unat pos + j)) [0..<nat k]"
    by simp_all
  show "bs = take (nat k) data"
    using w(1) k bs by (intro nth_equalityI) auto
  show "a < unat pos \<or> unat pos + length data \<le> a
      \<Longrightarrow> raidc_cont be cont (ra_devices r1) a = raidc_cont be cont (ra_devices r) a" by (rule w(2))
qed

text \<open>C34: RAID-C stores the bytes of its members one after the other.  A write that stays inside the
  member its position falls into puts the bytes the member accepted at the position and changes no other
  byte of the array, and a later read of the same position returns them: what it delivers is a prefix
  of the data written.\<close>

theorem raidc_write_read:
  assumes "data_device be cont I" "\<forall>d\<in>set (ra_devices r). I d"
    and "raidc_locate be (ra_devices r) 0 pos = Some (i, p)"
    and "unat p + length data \<le> unat (dev_size be (ra_devices r ! i))"
    and "\<And>d. dev_size be (snd (be_Write be data p d)) = dev_size be d"
    and "raidc_Write be data pos r = (int (length data), r1)"
    and "raidc_Read be (int (length data)) pos direct r1 = ((k, bs), r2)" "0 \<le> k"
  shows "bs = take (nat k) data
    \<and> (\<forall>a. a < unat pos \<or> unat pos + length data \<le> a
        \<longrightarrow> raidc_cont be cont (ra_devices r1) a = raidc_cont be cont (ra_devices r) a)"
  using write_read_facts [OF assms] by blast

subsection \<open>A concrete array\<close>

definition demo_raidc :: "simdev zbdlib raid" where
  "demo_raidc = raidc_syncBackendInfo (zbdlib_backend sim_libzbd) (RaidCZonedBlockDevice [demo_dev, demo_dev])"

lemma zbdlib_write_size:
  "dev_size (zbdlib_backend lz) (snd (be_Write (zbdlib_backend lz) data p d)) = dev_size (zbdlib_backend lz) d"
  by (simp add: dev_size_def zbdlib_backend_def zbdlib_Write_def split_beta)

lemma demo_raidc_run:
  "(case raidc_Write (zbdlib_backend sim_libzbd) [1, 2, 3] 320 demo_raidc of (k, r1) \<Rightarrow>
     k = 3 \<and> fst (raidc_Read (zbdlib_backend sim_libzbd) 3 320 False r1) = (3, [1, 2, 3]))"
  "raidc_locate (zbdlib_backend sim_libzbd) (ra_devices demo_raidc) 0 320 = Some (1, 64)"
  "unat (dev_size (zbdlib_backend sim_libzbd) (ra_devices demo_raidc ! 1)) = 256"
  by code_simp+

theorem raidc_write_read_witness:
  "\<exists>r1. raidc_Write (zbdlib_backend sim_libzbd) [1, 2, 3] 320 demo_raidc = (3, r1)
     \<and> snd (fst (raidc_Read (zbdlib_backend sim_libzbd) 3 320 False r1)) = take 3 [1, 2, 3]
     \<and> raidc_cont (zbdlib_backend sim_libzbd) (\<lambda>b. sd_mem (zl_dev b)) (ra_devices r1) 64
       = raidc_cont (zbdlib_backend sim_libzbd) (\<lambda>b. sd_mem (zl_dev b)) (ra_devices demo_raidc) 64"
proof -
  obtain k r1 where w: "raidc_Write (zbdlib_backend sim_libzbd) [1, 2, 3] 320 demo_raidc = (k, r1)" by fastforce
  obtain j bs r2 where rd: "raidc_Read (zbdlib_backend sim_libzbd) 3 320 False r1 = ((j, bs), r2)" by (metis prod.collapse)
  have kj: "k = 3" "j = 3" using demo_raidc_run(1) by (simp_all add: w rd)
  note c = raidc_write_read [OF sim.data_device_axioms _ demo_raidc_run(2), of "[1, 2, 3]" r1 False 3 bs r2]
  show ?thesis using c w rd kj demo_raidc_run(3) by (simp add: zbdlib_write_size)
qed

lemma zones_alias_facts:
  assumes "ra_devices r = d # d' # ds" "idx < be_nr_zones be d" "idx < be_nr_zones be d'"
    and "unat idx + unat (be_nr_zones be d) < 2 ^ 32"
    and "be_ZoneStart be (listed be d') (unat idx) d' = be_ZoneStart be (listed be d) (unat idx) d"
    and "be_ZoneStart be (listed be d) (unat idx) d < dev_size be d"
  shows "raidc_ZoneStart be zl (unat (be_nr_zones be d) + unat idx) r = raidc_ZoneStart be zl (unat idx) r"
    "raidc_locate be (ra_devices r) 0 (raidc_ZoneStart be zl (unat (be_nr_zones be d) + unat idx) r)
      = Some (0, be_ZoneStart be (listed be d) (unat idx) d)"
proof -
  have sum: "(of_nat (unat (be_nr_zones be d) + unat idx) :: u32) = be_nr_zones be d + idx" by simp
  have "unat (be_nr_zones be d + idx) = unat (be_nr_zones be d) + unat idx"
    using assms(4) by (simp add: unat_add_no_wrap)
  then have "\<not> be_nr_zones be d + idx < be_nr_zones be d" by (simp add: word_less_nat_alt)
  then have second: "raidc_zone be (ra_devices r) (be_nr_zones be d + idx) = Some (d', idx)"
    using assms(1,3) by simp
  have start: "raidc_ZoneStart be zl (unat (be_nr_zones be d) + unat idx) r = be_ZoneStart be (listed be d) (unat idx) d"
    unfolding raidc_ZoneStart_def sum second using assms(5) by simp
  show "raidc_ZoneStart be zl (unat (be_nr_zones be d) + unat idx) r = raidc_ZoneStart be zl (unat idx) r"
    unfolding start using assms(1,2) by (simp add: raidc_ZoneStart_def)
  show "raidc_locate be (ra_devices r) 0 (raidc_ZoneStart be zl (unat (be_nr_zones be d) + unat idx) r)
      = Some (0, be_ZoneStart be (listed be d) (unat idx) d)"
    unfolding start using assms(1,6) by simp
qed

text \<open>C35: RAID-C does not shift the start of a zone by the size of the members before it.  Where the second
  member lays out its zones like the first, the array reports for zone \<open>idx\<close> of the second member
  the start of zone \<open>idx\<close> of the first, and a request at the reported start goes to the first
  member: the two zones are one.\<close>

theorem raidc_zones_alias:
  assumes "ra_devices r = d # d' # ds" "idx < be_nr_zones be d" "idx < be_nr_zones be d'"
    and "unat idx + unat (be_nr_zones be d) < 2 ^ 32"
    and "be_ZoneStart be (listed be d') (unat idx) d' = be_ZoneStart be (listed be d) (unat idx) d"
    and "be_ZoneStart be (listed be d) (unat idx) d < dev_size be d"
  shows "raidc_ZoneStart be zl (unat (be_nr_zones be d) + unat idx) r = raidc_ZoneStart be zl (unat idx) r
    \<and> raidc_locate be (ra_devices r) 0 (raidc_ZoneStart be zl (unat (be_nr_zones be d) + unat idx) r)
      = Some (0, be_ZoneStart be (listed be d) (unat idx) d)"
  using zones_alias_facts [OF assms] by blast

lemma demo_raidc_layout:
  "be_nr_zones (zbdlib_backend sim_libzbd) demo_dev = 4"
  "be_ZoneStart (zbdlib_backend sim_libzbd) (listed (zbdlib_backend sim_libzbd) demo_dev) (Suc 0) demo_dev = 64"
  "dev_size (zbdlib_backend sim_libzbd) demo_dev = 256"
  by code_simp+

lemma demo_raidc_members: "ra_devices demo_raidc = [demo_dev, demo_dev]"
  by (simp add: demo_raidc_def raidc_syncBackendInfo_def raid_syncBackendInfo_def RaidCZonedBlockDevice_def
      AbstractRaidZonedBlockDevice_def Let_def)

theorem raidc_zones_alias_witness:
  "raidc_ZoneStart (zbdlib_backend sim_libzbd) [] 5 demo_raidc = raidc_ZoneStart (zbdlib_backend sim_libzbd) [] 1 demo_raidc
     \<and> raidc_locate (zbdlib_backend sim_libzbd) (ra_devices demo_raidc) 0
         (raidc_ZoneStart (zbdlib_backend sim_libzbd) [] 5 demo_raidc) = Some (0, 64)"
  using raidc_zones_alias [OF demo_raidc_members, of 1 "zbdlib_backend sim_libzbd" "[]"]
  by (auto simp: demo_raidc_layout)

end
