(* ===== verification/RaidAllocator.thy ===== *)
theory RaidAllocator
  imports Superblock StdMap
begin

text \<open>
  The allocator of the automatic RAID (\<open>fs/raid/zone_raid_allocator.h\<close>, \<open>.cc\<close>) and the items it
  maps (\<open>RaidMapItem\<close>, \<open>RaidModeItem\<close> of \<open>fs/raid/zone_raid.h\<close>): which zones of which member devices
  an array's zone consists of.  A logical array zone is divided into as many sub-zones as there
  are members; \<open>device_zone_map\<close> gives the member zones of a sub-zone, one for a striped zone and
  two for a mirrored one, and \<open>device_zone_inv_map\<close> the sub-zone of a member zone.

  The map that is traversed in key order is a list of pairs, those that are only looked up are
  functions.
\<close>

subsection \<open>State\<close>

record RaidMapItem =
  mi_device :: u32
  mi_zone :: u32
  mi_invalid :: u16

record RaidModeItem =
  mo_mode :: RaidMode
  mo_option :: u32

definition RaidMapItem_eq :: "RaidMapItem \<Rightarrow> RaidMapItem \<Rightarrow> bool" where
  "RaidMapItem_eq x y = (mi_device x = mi_device y \<and> mi_zone x = mi_zone y)"

definition empty_map_item :: RaidMapItem where
  "empty_map_item = \<lparr> mi_device = 0, mi_zone = 0, mi_invalid = 0 \<rparr>"

definition empty_mode_item :: RaidModeItem where
  "empty_mode_item = \<lparr> mo_mode = RAID_NONE, mo_option = 0 \<rparr>"

record allocator =
  device_zone_map :: "(u32 \<times> RaidMapItem list) list"
  device_zone_inv_map :: "u32 \<times> u32 \<Rightarrow> u32 option"
  mode_map :: "u32 \<Rightarrow> RaidModeItem option"
  offline_zones :: "(u32 \<times> u32) set"
  device_nr :: u32
  zone_nr :: u32

definition new_allocator :: allocator where
  "new_allocator = \<lparr> device_zone_map = [], device_zone_inv_map = (\<lambda>_. None), mode_map = (\<lambda>_. None),
     offline_zones = {}, device_nr = 0, zone_nr = 0 \<rparr>"

definition setInfo :: "u32 \<Rightarrow> u32 \<Rightarrow> allocator \<Rightarrow> allocator" where
  "setInfo dn zn a = a\<lparr> device_nr := dn, zone_nr := zn \<rparr>"

subsection \<open>Operations\<close>

definition addMapping :: "u32 \<Rightarrow> u32 \<Rightarrow> u32 \<Rightarrow> allocator \<Rightarrow> status \<times> allocator" where
  "addMapping sub dev zn a =
     (let (items, m) = map_index sub [] (device_zone_map a) in
      (OK, a\<lparr> device_zone_map := map_assign sub (items @ [\<lparr> mi_device = dev, mi_zone = zn, mi_invalid = 0 \<rparr>]) m,
              device_zone_inv_map := (device_zone_inv_map a)((dev, zn) \<mapsto> sub) \<rparr>))"

definition setMappingMode_item :: "u32 \<Rightarrow> RaidModeItem \<Rightarrow> allocator \<Rightarrow> allocator" where
  "setMappingMode_item idx item a = a\<lparr> mode_map := (mode_map a)(idx \<mapsto> item) \<rparr>"

definition setMappingMode :: "u32 \<Rightarrow> RaidMode \<Rightarrow> allocator \<Rightarrow> allocator" where
  "setMappingMode idx mode a = setMappingMode_item idx \<lparr> mo_mode = mode, mo_option = 0 \<rparr> a"

definition getFreeDeviceZone :: "u32 \<Rightarrow> allocator \<Rightarrow> int" where
  "getFreeDeviceZone device a =
     (case List.find (\<lambda>j. device_zone_inv_map a (device, of_nat j) = None) [0..<unat (zone_nr a)] of
        None \<Rightarrow> - 1 | Some j \<Rightarrow> to_int32 (int j))"

definition getFreeZoneDevice :: "u32 \<Rightarrow> allocator \<Rightarrow> int" where
  "getFreeZoneDevice device_zone a =
     (case List.find (\<lambda>i. device_zone_inv_map a (of_nat i, device_zone) = None) [0..<unat (device_nr a)] of
        None \<Rightarrow> - 1 | Some i \<Rightarrow> to_int32 (int i))"

lemma addMapping_sizes [simp]:
  "zone_nr (snd (addMapping sub dev zn a)) = zone_nr a"
  "device_nr (snd (addMapping sub dev zn a)) = device_nr a"
  by (simp_all add: addMapping_def split_beta Let_def)

text \<open>The inner loop of \<open>createMapping\<close> and \<open>createMappingTwice\<close>: as long as a zone number is free on
  some member, the member zone joins the next sub-zone.  \<open>per\<close> is 1 or 2, the number of member
  zones of a sub-zone; \<open>allocated\<close> counts the member zones taken so far.\<close>

function map_zones ::
  "nat \<Rightarrow> u32 \<Rightarrow> nat \<Rightarrow> nat \<Rightarrow> nat \<Rightarrow> bool \<Rightarrow> allocator \<Rightarrow> (nat \<times> bool) \<times> allocator" where
  "map_zones per idx target zn allocated has_allocated a =
     (if zn < unat (zone_nr a) \<and> allocated < target
      then let d = getFreeZoneDevice (of_nat zn) a in
        if 0 \<le> d
        then map_zones per idx target zn (allocated + 1) True
               (snd (addMapping (idx * device_nr a + of_nat (allocated div per)) (word_of_int d) (of_nat zn) a))
        else map_zones per idx target (zn + 1) allocated has_allocated a
      else ((allocated, has_allocated), a))"
  by auto

termination
  by (relation "measure (\<lambda>(per, idx, target, zn, allocated, has, a). (unat (zone_nr a) - zn) + (target - allocated))")
    (auto simp: Let_def)

declare map_zones.simps [simp del]

lemma map_zones_mono:
  "allocated \<le> fst (fst (map_zones per idx target zn allocated has a))
   \<and> (snd (fst (map_zones per idx target zn allocated has a)) \<longrightarrow> has \<or> allocated < fst (fst (map_zones per idx target zn allocated has a)))
   \<and> (allocated \<le> target \<longrightarrow> fst (fst (map_zones per idx target zn allocated has a)) \<le> target)"
proof (induction per idx target zn allocated has a rule: map_zones.induct)
  case (1 per idx target zn allocated has a)
  show ?case
  proof (cases "zn < unat (zone_nr a) \<and> allocated < target")
    case True
    show ?thesis
    proof (cases "0 \<le> getFreeZoneDevice (of_nat zn) a")
      case free: True
      have eq: "map_zones per idx target zn allocated has a = map_zones per idx target zn (allocated + 1) True
          (snd (addMapping (idx * device_nr a + of_nat (allocated div per))
            (word_of_int (getFreeZoneDevice (of_nat zn) a)) (of_nat zn) a))"
        using True free by (subst map_zones.simps) (simp add: Let_def)
      show ?thesis unfolding eq using 1(1) [OF True refl free] True by auto
    next
      case False
      have eq: "map_zones per idx target zn allocated has a = map_zones per idx target (zn + 1) allocated has a"
        using True False by (subst map_zones.simps) (simp add: Let_def)
      show ?thesis unfolding eq using 1(2) [OF True refl False] by auto
    qed
  next
    case False
    then show ?thesis by (auto simp: map_zones.simps [of per idx target zn])
  qed
qed

text \<open>The outer loop.\<close>

function map_rounds :: "nat \<Rightarrow> u32 \<Rightarrow> nat \<Rightarrow> nat \<Rightarrow> allocator \<Rightarrow> nat \<times> allocator" where
  "map_rounds per idx target allocated a =
     (if allocated < target
      then case map_zones per idx target 0 allocated False a of ((n, has_allocated), a') \<Rightarrow>
        if \<not> has_allocated then (n, a') else map_rounds per idx target n a'
      else (allocated, a))"
  by auto

termination
proof (relation "measure (\<lambda>(per, idx, target, allocated, a). target - allocated)")
  fix per idx target allocated a x a' n has
  assume h: "allocated < target" "(x, a') = map_zones per idx target 0 allocated False a" "(n, has) = x" "\<not> \<not> has"
  then have eq: "map_zones per idx target 0 allocated False a = ((n, has), a')" by simp
  show "((per, idx, target, n, a'), per, idx, target, allocated, a)
      \<in> measure (\<lambda>(per, idx, target, allocated, a). target - allocated)"
    using map_zones_mono [of allocated per idx target 0 False a] h(1,4) unfolding eq by (auto intro: diff_less_mono2)
qed simp

declare map_rounds.simps [simp del]

definition createMapping :: "u32 \<Rightarrow> allocator \<Rightarrow> status \<times> allocator" where
  "createMapping idx a =
     (let (n, a') = map_rounds 1 idx (unat (device_nr a)) 0 a in
      (if n \<noteq> unat (device_nr a) then NoSpace else OK, a'))"

definition createMappingTwice :: "u32 \<Rightarrow> allocator \<Rightarrow> status \<times> allocator" where
  "createMappingTwice idx a =
     (let (n, a') = map_rounds 2 idx (unat (device_nr a * 2)) 0 a in
      (if n \<noteq> unat (device_nr a * 2) then NoSpace else OK, a'))"

definition setOffline :: "u32 \<Rightarrow> u32 \<Rightarrow> allocator \<Rightarrow> allocator" where
  "setOffline device zn a = a\<lparr> offline_zones := insert (device, zn) (offline_zones a) \<rparr>"

text \<open>The result carries the zone that was taken, if any.\<close>

definition createOneMappingAt :: "u32 \<Rightarrow> u32 \<Rightarrow> allocator \<Rightarrow> (status \<times> u32 option) \<times> allocator" where
  "createOneMappingAt sub device a =
     (let z = getFreeDeviceZone device a in
      if 0 \<le> z then ((OK, Some (word_of_int z)), snd (addMapping sub device (word_of_int z) a))
      else ((NoSpace, None), a))"

subsection \<open>No member zone is used twice\<close>

text \<open>The invariant: a member zone that a sub-zone lists is recorded as that sub-zone's, and no list
  has a member zone twice.  As the record is a function, two sub-zones share no member zone.\<close>

abbreviation location :: "RaidMapItem \<Rightarrow> u32 \<times> u32" where
  "location it \<equiv> (mi_device it, mi_zone it)"

definition alloc_ok :: "allocator \<Rightarrow> bool" where
  "alloc_ok a = (sorted_keys (device_zone_map a)
     \<and> (\<forall>sub items. map_of (device_zone_map a) sub = Some items
         \<longrightarrow> distinct (map location items) \<and> (\<forall>it\<in>set items. device_zone_inv_map a (location it) = Some sub)))"

definition sub_zones :: "allocator \<Rightarrow> u32 \<Rightarrow> RaidMapItem list" where
  "sub_zones a sub = (case map_of (device_zone_map a) sub of None \<Rightarrow> [] | Some items \<Rightarrow> items)"

lemma alloc_ok_zones:
  assumes "alloc_ok a"
  shows "distinct (map location (sub_zones a sub))"
    "it \<in> set (sub_zones a sub) \<Longrightarrow> device_zone_inv_map a (location it) = Some sub"
  using assms by (cases "map_of (device_zone_map a) sub"; force simp: alloc_ok_def sub_zones_def)+

lemma alloc_ok_new: "alloc_ok new_allocator"
  by (simp add: alloc_ok_def new_allocator_def sorted_keys_def)

lemma addMapping_effect:
  assumes "sorted_keys (device_zone_map a)"
  shows "sorted_keys (device_zone_map (snd (addMapping sub dev zn a)))"
    "map_of (device_zone_map (snd (addMapping sub dev zn a)))
      = (map_of (device_zone_map a))(sub \<mapsto> sub_zones a sub @ [\<lparr> mi_device = dev, mi_zone = zn, mi_invalid = 0 \<rparr>])"
    "device_zone_inv_map (snd (addMapping sub dev zn a)) = (device_zone_inv_map a)((dev, zn) \<mapsto> sub)"
proof -
  obtain items m where ix: "map_index sub [] (device_zone_map a) = (items, m)" by fastforce
  note k = map_index_keeps [OF assms ix]
  show "sorted_keys (device_zone_map (snd (addMapping sub dev zn a)))"
    "map_of (device_zone_map (snd (addMapping sub dev zn a)))
      = (map_of (device_zone_map a))(sub \<mapsto> sub_zones a sub @ [\<lparr> mi_device = dev, mi_zone = zn, mi_invalid = 0 \<rparr>])"
    "device_zone_inv_map (snd (addMapping sub dev zn a)) = (device_zone_inv_map a)((dev, zn) \<mapsto> sub)"
    using k by (simp_all add: addMapping_def ix sorted_assign map_of_assign sub_zones_def split: option.splits)
qed

lemma alloc_ok_addMapping:
  assumes "alloc_ok a" "device_zone_inv_map a (dev, zn) = None"
  shows "alloc_ok (snd (addMapping sub dev zn a))"
proof -
  have s: "sorted_keys (device_zone_map a)" using assms(1) by (simp add: alloc_ok_def)
  note e = addMapping_effect [OF s, of sub dev zn]
  have free: "location it \<noteq> (dev, zn)" if "it \<in> set (sub_zones a j)" for it j
    using alloc_ok_zones(2) [OF assms(1) that] assms(2) by auto
  have "distinct (map location items) \<and> (\<forall>it\<in>set items. device_zone_inv_map (snd (addMapping sub dev zn a)) (location it) = Some j)"
    if "map_of (device_zone_map (snd (addMapping sub dev zn a))) j = Some items" for j items
  proof (cases "j = sub")
    case True
    then have "items = sub_zones a sub @ [\<lparr> mi_device = dev, mi_zone = zn, mi_invalid = 0 \<rparr>]" using that by (simp add: e)
    then show ?thesis using alloc_ok_zones [OF assms(1), where sub = sub] free [of _ sub] True by (auto simp: e)
  next
    case False
    then have "items = sub_zones a j" using that by (simp add: e sub_zones_def)
    then show ?thesis using alloc_ok_zones [OF assms(1), where sub = j] free [of _ j] by (auto simp: e)
  qed
  then show ?thesis using e(1) by (simp add: alloc_ok_def)
qed

lemma word_of_to_int32: "(word_of_int (to_int32 r) :: u32) = word_of_int r"
  by (simp add: to_int32_def)

lemma free_zone_device:
  assumes "0 \<le> getFreeZoneDevice zn a"
  shows "device_zone_inv_map a (word_of_int (getFreeZoneDevice zn a), zn) = None"
  using assms
  by (cases "List.find (\<lambda>i. device_zone_inv_map a (of_nat i, zn) = None) [0..<unat (device_nr a)]")
    (simp_all add: getFreeZoneDevice_def word_of_to_int32, auto simp: find_Some_iff)

lemma free_device_zone:
  assumes "0 \<le> getFreeDeviceZone device a"
  shows "device_zone_inv_map a (device, word_of_int (getFreeDeviceZone device a)) = None"
  using assms
  by (cases "List.find (\<lambda>j. device_zone_inv_map a (device, of_nat j) = None) [0..<unat (zone_nr a)]")
    (simp_all add: getFreeDeviceZone_def word_of_to_int32, auto simp: find_Some_iff)

lemma map_zones_step:
  "map_zones per idx target zn allocated has a =
     (if zn < unat (zone_nr a) \<and> allocated < target
      then if 0 \<le> getFreeZoneDevice (of_nat zn) a
        then map_zones per idx target zn (allocated + 1) True
               (snd (addMapping (idx * device_nr a + of_nat (allocated div per))
                  (word_of_int (getFreeZoneDevice (of_nat zn) a)) (of_nat zn) a))
        else map_zones per idx target (zn + 1) allocated has a
      else ((allocated, has), a))"
  by (subst map_zones.simps) (simp add: Let_def)

lemma map_zones_ok:
  "alloc_ok a \<Longrightarrow> alloc_ok (snd (map_zones per idx target zn allocated has a))"
proof (induction per idx target zn allocated has a rule: map_zones.induct)
  case (1 per idx target zn allocated has a)
  show ?case
    using 1 alloc_ok_addMapping [OF 1(3) free_zone_device] by (subst map_zones_step) auto
qed

lemma map_rounds_ok: "alloc_ok a \<Longrightarrow> alloc_ok (snd (map_rounds per idx target allocated a))"
proof (induction per idx target allocated a rule: map_rounds.induct)
  case (1 per idx target allocated a)
  obtain n has a' where z: "map_zones per idx target 0 allocated False a = ((n, has), a')" by (metis prod.collapse)
  have "alloc_ok a'" using map_zones_ok [OF 1(2), of per idx target 0 allocated False] by (simp add: z)
  then show ?case using 1 by (subst map_rounds.simps) (simp add: z)
qed

subsection \<open>When there is no space\<close>

lemma map_zones_sizes:
  "zone_nr (snd (map_zones per idx target zn allocated has a)) = zone_nr a
   \<and> device_nr (snd (map_zones per idx target zn allocated has a)) = device_nr a"
proof (induction per idx target zn allocated has a rule: map_zones.induct)
  case (1 per idx target zn allocated has a)
  show ?case
  proof (cases "zn < unat (zone_nr a) \<and> allocated < target")
    case True
    then show ?thesis using 1(1) [OF True refl] 1(2) [OF True refl]
      by (cases "0 \<le> getFreeZoneDevice (of_nat zn) a") (simp_all add: map_zones_step [of per idx target zn allocated])
  next
    case False
    then show ?thesis by (auto simp: map_zones_step [of per idx target zn allocated])
  qed
qed

text \<open>A pass that ends below the target has found every zone number taken on every member.\<close>

lemma none_free:
  assumes "getFreeZoneDevice zn a < 0" "unat (device_nr a) < 2 ^ 31" "i < unat (device_nr a)"
  shows "device_zone_inv_map a (of_nat i, zn) \<noteq> None"
proof
  assume free: "device_zone_inv_map a (of_nat i, zn) = None"
  obtain j where j: "List.find (\<lambda>i. device_zone_inv_map a (of_nat i, zn) = None) [0..<unat (device_nr a)] = Some j"
    using free assms(3) by (fastforce simp: find_None_iff)
  then have "j < unat (device_nr a)" by (auto simp: find_Some_iff)
  then have "to_int32 (int j) = int j" using assms(2) by (intro to_int32_id) auto
  with j assms(1) show False by (simp add: getFreeZoneDevice_def)
qed

lemma addMapping_keeps: "device_zone_inv_map a l \<noteq> None \<Longrightarrow> device_zone_inv_map (snd (addMapping sub dev zn a)) l \<noteq> None"
  by (simp add: addMapping_def split_beta Let_def)

lemma map_zones_keeps:
  "device_zone_inv_map a l \<noteq> None \<Longrightarrow> device_zone_inv_map (snd (map_zones per idx target zn allocated has a)) l \<noteq> None"
proof (induction per idx target zn allocated has a rule: map_zones.induct)
  case (1 per idx target zn allocated has a)
  show ?case using 1 addMapping_keeps [OF 1(3)] by (subst map_zones_step) auto
qed

lemma map_zones_full:
  assumes "map_zones per idx target zn allocated has a = ((n, h), a')" "n < target" "unat (device_nr a) < 2 ^ 31"
    and "zn \<le> z" "z < unat (zone_nr a)" "i < unat (device_nr a)"
  shows "device_zone_inv_map a' (of_nat i, of_nat z) \<noteq> None"
  using assms
proof (induction per idx target zn allocated has a rule: map_zones.induct)
  case (1 per idx target zn allocated has a)
  show ?case
  proof (cases "zn < unat (zone_nr a) \<and> allocated < target")
    case True
    show ?thesis
    proof (cases "0 \<le> getFreeZoneDevice (of_nat zn) a")
      case free: True
      have "map_zones per idx target zn (allocated + 1) True (snd (addMapping (idx * device_nr a + of_nat (allocated div per))
          (word_of_int (getFreeZoneDevice (of_nat zn) a)) (of_nat zn) a)) = ((n, h), a')"
        using "1.prems"(1) True free by (simp add: map_zones_step [of per idx target zn allocated has])
      from 1(1) [OF True refl free this] "1.prems" show ?thesis by simp
    next
      case none: False
      have run: "map_zones per idx target (zn + 1) allocated has a = ((n, h), a')"
        using "1.prems"(1) True none by (simp add: map_zones_step [of per idx target zn allocated has])
      show ?thesis
      proof (cases "z = zn")
        case True
        then have "device_zone_inv_map a (of_nat i, of_nat z) \<noteq> None"
          using none_free [of "of_nat zn" a i] none "1.prems" by simp
        from map_zones_keeps [OF this, of per idx target "zn + 1" allocated has] run show ?thesis by simp
      next
        case False
        then show ?thesis using 1(2) [OF True refl none run] "1.prems" by simp
      qed
    qed
  next
    case False
    then show ?thesis using "1.prems" by (auto simp: map_zones_step [of per idx target zn allocated has])
  qed
qed

lemma map_rounds_full:
  assumes "map_rounds per idx target allocated a = (n, a')" "n < target" "unat (device_nr a) < 2 ^ 31"
    and "z < unat (zone_nr a)" "i < unat (device_nr a)"
  shows "device_zone_inv_map a' (of_nat i, of_nat z) \<noteq> None"
  using assms
proof (induction per idx target allocated a rule: map_rounds.induct)
  case (1 per idx target allocated a)
  obtain m has a1 where z: "map_zones per idx target 0 allocated False a = ((m, has), a1)" by (metis prod.collapse)
  have sizes: "zone_nr a1 = zone_nr a" "device_nr a1 = device_nr a"
    using map_zones_sizes [of per idx target 0 allocated False a] by (simp_all add: z)
  have lt: "allocated < target" using "1.prems"(1,2) by (subst (asm) map_rounds.simps) (simp split: if_splits)
  show ?case
  proof (cases has)
    case True
    then have run: "map_rounds per idx target m a1 = (n, a')" using "1.prems"(1) lt by (subst (asm) map_rounds.simps) (simp add: z)
    from 1(1) [OF lt z [symmetric] refl _ run] True "1.prems" sizes show ?thesis by simp
  next
    case False
    then have "m = n" "a1 = a'" using "1.prems"(1) lt by (subst (asm) map_rounds.simps, simp add: z)+
    then show ?thesis using map_zones_full [OF z] "1.prems" by simp
  qed
qed

lemma map_rounds_le: "allocated \<le> target \<Longrightarrow> fst (map_rounds per idx target allocated a) \<le> target"
proof (induction per idx target allocated a rule: map_rounds.induct)
  case (1 per idx target allocated a)
  obtain n has a' where z: "map_zones per idx target 0 allocated False a = ((n, has), a')" by (metis prod.collapse)
  have "n \<le> target" using map_zones_mono [of allocated per idx target 0 False a] "1.prems" by (simp add: z)
  then show ?case using 1(1) [OF _ z [symmetric] refl] by (subst map_rounds.simps) (auto simp: z "1.prems")
qed

subsection \<open>Properties\<close>

text \<open>C19: No member zone is used twice.  Every operation of the allocator that takes member zones keeps the
  invariant that a member zone belongs to at most one sub-zone of the array and stands in its list
  once, whether or not it finds enough zones.\<close>

theorem allocations_exclusive:
  assumes "alloc_ok a" "a' \<in> {snd (createMapping idx a), snd (createMappingTwice idx a), snd (createOneMappingAt idx d a)}"
    and "it \<in> set (sub_zones a' s)" "it' \<in> set (sub_zones a' s')" "location it = location it'"
  shows "alloc_ok a' \<and> s = s' \<and> distinct (map location (sub_zones a' s))"
proof -
  have "alloc_ok (snd (createOneMappingAt idx d a))"
    using assms(1) alloc_ok_addMapping [OF assms(1) free_device_zone] by (simp add: createOneMappingAt_def Let_def)
  then have ok': "alloc_ok a'"
    using assms(2) map_rounds_ok [OF assms(1)] by (auto simp: createMapping_def createMappingTwice_def split_beta Let_def)
  show ?thesis
    using ok' alloc_ok_zones [OF ok'] assms(3-5) by (metis option.inject)
qed

definition demo_alloc :: allocator where
  "demo_alloc = setInfo 2 3 new_allocator"

lemma demo_alloc_mapped: "sub_zones (snd (createMapping 1 demo_alloc)) 2 = [\<lparr> mi_device = 0, mi_zone = 0, mi_invalid = 0 \<rparr>]"
  by code_simp

theorem allocations_exclusive_witness:
  "alloc_ok (snd (createMapping 1 demo_alloc))
     \<and> sub_zones (snd (createMapping 1 demo_alloc)) 2 = [\<lparr> mi_device = 0, mi_zone = 0, mi_invalid = 0 \<rparr>]"
proof -
  have "alloc_ok demo_alloc" using alloc_ok_new by (simp add: demo_alloc_def setInfo_def alloc_ok_def)
  then show ?thesis
    using allocations_exclusive [of demo_alloc "snd (createMapping 1 demo_alloc)" 1 0
        "\<lparr> mi_device = 0, mi_zone = 0, mi_invalid = 0 \<rparr>" 2 "\<lparr> mi_device = 0, mi_zone = 0, mi_invalid = 0 \<rparr>" 2]
      demo_alloc_mapped by simp
qed

text \<open>C36: Mapping a zone of the array fails only for want of space: when \<open>createMapping\<close> or \<open>createMappingTwice\<close>
  does not return OK, every zone of every member is taken.\<close>

theorem no_space_means_full:
  assumes "createMapping idx a = (st, a') \<or> createMappingTwice idx a = (st, a')" "\<not> ok st"
    and "unat (device_nr a) < 2 ^ 31" "i < unat (device_nr a)" "z < unat (zone_nr a)"
  shows "device_zone_inv_map a' (of_nat i, of_nat z) \<noteq> None"
proof -
  have two: "unat (device_nr a * 2) = unat (device_nr a) * 2"
    using assms(3) by (subst unat_mult_no_wrap) simp_all
  obtain per target n where run: "map_rounds per idx target 0 a = (n, a')" and n: "n \<noteq> target"
    using assms(1,2) by (auto simp: createMapping_def createMappingTwice_def split: prod.splits if_splits)
  have "n < target" using map_rounds_le [of 0 target per idx a] run n by simp
  from map_rounds_full [OF run this assms(3,5,4)] show ?thesis .
qed

lemma demo_alloc_full: "\<not> ok (fst (createMappingTwice 0 (setInfo 2 1 new_allocator)))"
  by code_simp

theorem no_space_means_full_witness:
  "\<not> ok (fst (createMappingTwice 0 (setInfo 2 1 new_allocator)))
     \<and> device_zone_inv_map (snd (createMappingTwice 0 (setInfo 2 1 new_allocator))) (1, 0) \<noteq> None"
  using no_space_means_full [of 0 "setInfo 2 1 new_allocator" "fst (createMappingTwice 0 (setInfo 2 1 new_allocator))"
      "snd (createMappingTwice 0 (setInfo 2 1 new_allocator))" 1 0] demo_alloc_full by (simp add: setInfo_def)

end
