(* ===== verification/RaidAuto.thy ===== *)
theory RaidAuto
  imports Raid RaidAllocator "HOL-Library.Monad_Syntax"
begin

text \<open>
  The automatic RAID (\<open>RaidAutoZonedBlockDevice\<close> of \<open>fs/raid/zone_raid_auto.h\<close>, \<open>.cc\<close>), in its
  synchronous build: every zone of the array has its own RAID mode and is mapped to member zones by
  the allocator.  The array keeps its own zone descriptors (\<open>a_zones_\<close>).

  A result \<open>None\<close> means that the call indexes an empty vector or a device that does not exist,
  dereferences a null zone list, or does not return.  \<open>operator[]\<close> of the allocator's maps inserts a
  default entry for a missing key, so that reads change the state.  The command line flag
  \<open>raid_auto_default\<close> is the argument of \<open>Open\<close>.
\<close>

subsection \<open>State\<close>

record 'b autoraid =
  ar :: "'b raid"
  ar_alloc :: allocator
  ar_zones :: ZoneList

definition adev :: "u32 \<Rightarrow> ('b \<Rightarrow> 'r \<times> 'b) \<Rightarrow> 'b autoraid \<Rightarrow> ('r \<times> 'b autoraid) option" where
  "adev i f s =
     (if unat i < nr_dev (ar s)
      then let (x, r) = dev_call (unat i) f (ar s) in Some (x, s\<lparr> ar := r \<rparr>) else None)"

definition member :: "u32 \<Rightarrow> 'b autoraid \<Rightarrow> 'b option" where
  "member i s = (if unat i < nr_dev (ar s) then Some (ra_devices (ar s) ! unat i) else None)"

abbreviation dev_zone_sz :: "'b backend \<Rightarrow> 'b autoraid \<Rightarrow> u64" where
  "dev_zone_sz be s \<equiv> be_zone_sz be (def_dev (ar s))"

text \<open>\<open>mode_map_[idx]\<close> and \<open>device_zone_map_[sub]\<close> as values.\<close>

definition mode_at :: "u32 \<Rightarrow> 'b autoraid \<Rightarrow> RaidModeItem \<times> 'b autoraid" where
  "mode_at idx s =
     (case mode_map (ar_alloc s) idx of
        Some m \<Rightarrow> (m, s)
      | None \<Rightarrow> (empty_mode_item, s\<lparr> ar_alloc := setMappingMode_item idx empty_mode_item (ar_alloc s) \<rparr>))"

definition zones_at :: "u32 \<Rightarrow> 'b autoraid \<Rightarrow> RaidMapItem list \<times> 'b autoraid" where
  "zones_at sub s =
     (let (items, m) = map_index sub [] (device_zone_map (ar_alloc s)) in
      (items, s\<lparr> ar_alloc := (ar_alloc s)\<lparr> device_zone_map := m \<rparr> \<rparr>))"

subsection \<open>Address translation\<close>

definition getAutoDeviceZoneIdx :: "'b backend \<Rightarrow> u64 \<Rightarrow> 'b autoraid \<Rightarrow> u32 \<times> 'b autoraid" where
  "getAutoDeviceZoneIdx be pos s =
     (let zone_sz = ra_zone_sz (ar s); bs = ucast (ra_block_sz (ar s)); n = of_nat (nr_dev (ar s));
          raid_zone_idx = pos div zone_sz;
          raid_zone_inner_idx = (pos - raid_zone_idx * zone_sz) div dev_zone_sz be s;
          raid_block_idx = pos div bs;
          raid_zone_block_idx = raid_block_idx - raid_zone_idx * (zone_sz div bs);
          (m, s') = mode_at (ucast raid_zone_idx) s in
      if mo_mode m = RAID_NONE \<or> mo_mode m = RAID_C \<or> mo_mode m = RAID1
      then (ucast (raid_zone_idx * n + raid_zone_inner_idx), s')
      else if mo_mode m = RAID0 then (ucast (raid_zone_idx * n + raid_zone_block_idx mod n), s')
      else (0, s'))"

definition getAutoDeviceZone :: "'b backend \<Rightarrow> u64 \<Rightarrow> 'b autoraid \<Rightarrow> (RaidMapItem \<times> 'b autoraid) option" where
  "getAutoDeviceZone be pos s =
     (let (k, s1) = getAutoDeviceZoneIdx be pos s; (items, s2) = zones_at k s1 in
      case items of [] \<Rightarrow> None | it # _ \<Rightarrow> Some (it, s2))"

definition getAutoDeviceZoneFromIdx :: "u32 \<Rightarrow> 'b autoraid \<Rightarrow> RaidMapItem" where
  "getAutoDeviceZoneFromIdx idx s =
     (case map_of (device_zone_map (ar_alloc s)) (idx * of_nat (nr_dev (ar s))) of
        Some (it # _) \<Rightarrow> it | _ \<Rightarrow> empty_map_item)"

definition getAutoMappedDevicePos :: "'b backend \<Rightarrow> u64 \<Rightarrow> 'b autoraid \<Rightarrow> (u64 \<times> 'b autoraid) option" where
  "getAutoMappedDevicePos be pos s =
     do { (it, s) \<leftarrow> getAutoDeviceZone be pos s;
          let zone_sz = ra_zone_sz (ar s); bs = ucast (ra_block_sz (ar s)); dz = dev_zone_sz be s;
              (m, s) = mode_at (ucast (pos div zone_sz)) s; blk_idx = pos div bs; base = ucast (mi_zone it) * dz in
          if mo_mode m = RAID0
          then Some (base + blk_idx mod (zone_sz div bs) div of_nat (nr_dev (ar s)) * bs + pos mod bs, s)
          else if mo_mode m = RAID1 then Some (base + pos mod zone_sz, s)
          else Some (base + blk_idx mod (dz div bs) * bs + pos mod bs, s) }"

subsection \<open>Zone descriptors\<close>

fun auto_items :: "'b backend \<Rightarrow> u64 list \<Rightarrow> 'b autoraid \<Rightarrow> (RaidMapItem list \<times> 'b autoraid) option" where
  "auto_items be [] s = Some ([], s)"
| "auto_items be (p # ps) s =
     do { (it, s) \<leftarrow> getAutoDeviceZone be p s; (its, s) \<leftarrow> auto_items be ps s; Some (it # its, s) }"

text \<open>How far a member zone is written.\<close>

definition zone_fill :: "'b backend \<Rightarrow> RaidMapItem \<Rightarrow> 'b autoraid \<Rightarrow> (u64 \<times> ZoneList) option" where
  "zone_fill be it s =
     do { d \<leftarrow> member (mi_device it) s; zl \<leftarrow> be_ListZones be d;
          Some (be_ZoneWp be zl (unat (mi_zone it)) d - be_ZoneStart be zl (unat (mi_zone it)) d, zl) }"

fun fill_sum :: "'b backend \<Rightarrow> RaidMapItem list \<Rightarrow> 'b autoraid \<Rightarrow> u64 option" where
  "fill_sum be [] s = Some 0"
| "fill_sum be (it # its) s = do { (c, zl) \<leftarrow> zone_fill be it s; t \<leftarrow> fill_sum be its s; Some (c + t) }"

text \<open>The RAID1 branch: sub-zones that are not mapped are skipped, and the zone list that is looked
  at in the end is that of the last one that is.\<close>

fun mirror_fill :: "'b backend \<Rightarrow> u32 list \<Rightarrow> u64 \<Rightarrow> ZoneList option \<Rightarrow> 'b autoraid \<Rightarrow> (u64 \<times> ZoneList option) option" where
  "mirror_fill be [] cnt zl s = Some (cnt, zl)"
| "mirror_fill be (sub # subs) cnt zl s =
     (case map_of (device_zone_map (ar_alloc s)) sub of
        None \<Rightarrow> mirror_fill be subs cnt zl s
      | Some [] \<Rightarrow> None
      | Some (it # _) \<Rightarrow> do { (c, zl') \<leftarrow> zone_fill be it s; mirror_fill be subs (cnt + c) (Some zl') s })"

definition set_zone_info :: "u32 \<Rightarrow> u64 \<Rightarrow> ZoneList option \<Rightarrow> 'b autoraid \<Rightarrow> 'b autoraid option" where
  "set_zone_info idx fill zl s =
     (case zl of Some (z # _) \<Rightarrow>
        let st = ucast idx * ra_zone_sz (ar s) in
        Some (s\<lparr> ar_zones := (ar_zones s)[unat idx := \<lparr> z_start = st, z_len = ra_zone_sz (ar s),
          z_capacity = ra_zone_sz (ar s), z_wp = st + fill, z_flags = z_flags z, z_type = z_type z,
          z_cond = z_cond z \<rparr>] \<rparr>)
      | _ \<Rightarrow> None)"

definition flush_zone :: "'b backend \<Rightarrow> u32 \<Rightarrow> 'b autoraid \<Rightarrow> 'b autoraid option" where
  "flush_zone be idx s =
     (case mode_map (ar_alloc s) idx of
        None \<Rightarrow> Some s
      | Some m \<Rightarrow>
          if mo_mode m = RAID_NONE \<or> mo_mode m = RAID0 \<or> mo_mode m = RAID_C
          then do { (its, s) \<leftarrow> auto_items be (map (\<lambda>i. ucast idx * ra_zone_sz (ar s) + of_nat i * dev_zone_sz be s)
                      [0..<nr_dev (ar s)]) s;
                    d \<leftarrow> member (mi_device (hd its)) s;
                    fill \<leftarrow> fill_sum be its s;
                    set_zone_info idx fill (be_ListZones be d) s }
          else if mo_mode m = RAID1
          then do { (cnt, zl) \<leftarrow> mirror_fill be (map (\<lambda>i. idx * of_nat (nr_dev (ar s)) + of_nat i) [0..<nr_dev (ar s)]) 0 None s;
                    set_zone_info idx cnt zl s }
          else None)"

fun flush_zones :: "'b backend \<Rightarrow> nat list \<Rightarrow> 'b autoraid \<Rightarrow> 'b autoraid option" where
  "flush_zones be [] s = Some s"
| "flush_zones be (i # is) s = do { s \<leftarrow> flush_zone be (of_nat i) s; flush_zones be is s }"

definition flush_zone_info :: "'b backend \<Rightarrow> 'b autoraid \<Rightarrow> 'b autoraid option" where
  "flush_zone_info be s = flush_zones be [0..<unat (ra_nr_zones (ar s))] s"

subsection \<open>Construction and opening\<close>

definition raida_syncBackendInfo :: "'b backend \<Rightarrow> 'b raid \<Rightarrow> 'b raid" where
  "raida_syncBackendInfo be r =
     (let r' = raid_syncBackendInfo be r in r'\<lparr> ra_zone_sz := ra_zone_sz r' * of_nat (nr_dev r') \<rparr>)"

text \<open>The metadata zones are mapped to the first device.\<close>

definition map_meta_zone :: "nat \<Rightarrow> nat \<Rightarrow> allocator \<Rightarrow> allocator" where
  "map_meta_zone n idx a =
     setMappingMode (of_nat idx) RAID_NONE
       (fold (\<lambda>i a. snd (addMapping (of_nat (idx * n + i)) 0 (of_nat (idx * n + i)) a)) [0..<n] a)"

definition RaidAutoZonedBlockDevice :: "'b backend \<Rightarrow> 'b list \<Rightarrow> 'b autoraid" where
  "RaidAutoZonedBlockDevice be devices =
     \<lparr> ar = raida_syncBackendInfo be (AbstractRaidZonedBlockDevice devices),
       ar_alloc = fold (map_meta_zone (length devices)) [0..<AQUAFS_META_ZONES] new_allocator,
       ar_zones = [] \<rparr>"

text \<open>A descriptor of zero bytes; its type is never looked at.\<close>

definition zero_zone :: zbd_zone where
  "zero_zone = \<lparr> z_start = 0, z_len = 0, z_capacity = 0, z_wp = 0, z_flags = 0, z_type = TYPE_CNV,
     z_cond = COND_NOT_WP \<rparr>"

definition scan_offline :: "'b backend \<Rightarrow> 'b autoraid \<Rightarrow> 'b autoraid" where
  "scan_offline be s =
     s\<lparr> ar_alloc := fold (\<lambda>(d, z) a.
          let x = ra_devices (ar s) ! d in
          if be_ZoneIsOffline be (listed be x) z x then setOffline (of_nat d) (of_nat z) a else a)
        (List.product [0..<nr_dev (ar s)] [0..<unat (ra_nr_zones (ar s))]) (ar_alloc s) \<rparr>"

definition default_layout :: "RaidMode \<Rightarrow> nat \<Rightarrow> allocator \<Rightarrow> allocator" where
  "default_layout mode nr a =
     (if mode = RAID0
      then fold (\<lambda>idx a. setMappingMode (of_nat idx) mode (snd (createMapping (of_nat idx) a)))
             [AQUAFS_META_ZONES..<nr div 2] a
      else if mode = RAID1
      then fold (\<lambda>idx a. setMappingMode (of_nat idx) mode (snd (createMappingTwice (of_nat idx) a)))
             [AQUAFS_META_ZONES..<nr div 3] a
      else a)"

definition raida_Open ::
  "'b backend \<Rightarrow> string \<Rightarrow> bool \<Rightarrow> bool \<Rightarrow> 'b autoraid \<Rightarrow> ((status \<times> u32 \<times> u32) \<times> 'b autoraid) option" where
  "raida_Open be raid_auto_default readonly exclusive s =
     (case raid_Open be (raida_syncBackendInfo be) readonly exclusive (ar s) of ((st, max_active, max_open), r) \<Rightarrow>
        let s = s\<lparr> ar := r \<rparr> in
        if \<not> ok st then Some ((st, max_active, max_open), s)
        else
          let s = s\<lparr> ar_alloc := setInfo (of_nat (nr_dev r)) (ra_nr_zones r) (ar_alloc s) \<rparr>;
              s = scan_offline be s;
              s = s\<lparr> ar_zones := replicate (unat (ra_nr_zones r)) zero_zone,
                     ar_alloc := default_layout (raid_mode_from_str raid_auto_default) (unat (ra_nr_zones r)) (ar_alloc s) \<rparr> in
          map_option (Pair (st, max_active, max_open)) (flush_zone_info be s))"

definition raida_ListZones :: "'b autoraid \<Rightarrow> ZoneList option" where
  "raida_ListZones s = Some (take (unat (ra_nr_zones (ar s))) (ar_zones s))"

subsection \<open>Zone management\<close>

text \<open>The loops over the member zones of a sub-zone, and over the sub-zones of a zone.  A result that
  is not good ends both; the flag says so.\<close>

fun items_loop ::
  "('r \<Rightarrow> bool) \<Rightarrow> (RaidMapItem \<Rightarrow> 'b \<Rightarrow> 'r \<times> 'b) \<Rightarrow> RaidMapItem list \<Rightarrow> 'r \<Rightarrow> 'b autoraid
     \<Rightarrow> (('r \<times> bool) \<times> 'b autoraid) option" where
  "items_loop good f [] res s = Some ((res, False), s)"
| "items_loop good f (it # its) res s =
     do { (r, s) \<leftarrow> adev (mi_device it) (f it) s;
          if \<not> good r then Some ((r, True), s) else items_loop good f its r s }"

fun subs_loop ::
  "('r \<Rightarrow> bool) \<Rightarrow> (RaidMapItem \<Rightarrow> 'b \<Rightarrow> 'r \<times> 'b) \<Rightarrow> u32 list \<Rightarrow> 'r \<Rightarrow> 'b autoraid
     \<Rightarrow> (('r \<times> bool) \<times> 'b autoraid) option" where
  "subs_loop good f [] res s = Some ((res, False), s)"
| "subs_loop good f (sub # subs) res s =
     (let (mm, s) = zones_at sub s in
      do { ((r, stop), s) \<leftarrow> items_loop good f mm res s;
           if stop then Some ((r, True), s) else subs_loop good f subs r s })"

definition zone_subs :: "u64 \<Rightarrow> 'b autoraid \<Rightarrow> u32 list" where
  "zone_subs zone_idx s = map (\<lambda>i. ucast (of_nat i + zone_idx * of_nat (nr_dev (ar s)))) [0..<nr_dev (ar s)]"

definition item_start :: "u64 \<Rightarrow> RaidMapItem \<Rightarrow> u64" where
  "item_start dz it = ucast (mi_zone it) * dz"

definition raida_Reset ::
  "'b backend \<Rightarrow> u64 \<Rightarrow> 'b autoraid \<Rightarrow> ((status \<times> bool \<times> u64) \<times> 'b autoraid) option" where
  "raida_Reset be pos s =
     (let dz = dev_zone_sz be s; n = of_nat (nr_dev (ar s)) in
      do { ((r, stop), s) \<leftarrow> subs_loop (\<lambda>(st, _). ok st)
             (\<lambda>it d. case be_Reset be (item_start dz it) d of
                ((st, offline, c), d') \<Rightarrow> ((st, offline, if ok st then c * n else c), d'))
             (zone_subs (pos div ra_zone_sz (ar s)) s) (OK, False, 0) s;
           if stop then Some (r, s) else map_option (Pair r) (flush_zone_info be s) })"

definition raida_Finish :: "'b backend \<Rightarrow> u64 \<Rightarrow> 'b autoraid \<Rightarrow> (status \<times> 'b autoraid) option" where
  "raida_Finish be pos s =
     (let dz = dev_zone_sz be s; zone_idx = pos div ra_zone_sz (ar s); i = unat (ucast zone_idx :: u32) in
      do { ((r, stop), s) \<leftarrow> subs_loop ok (\<lambda>it. be_Finish be (item_start dz it)) (zone_subs zone_idx s) OK s;
           if stop then Some (r, s)
           else if i < length (ar_zones s)
           then Some (r, s\<lparr> ar_zones := (ar_zones s)[i := (ar_zones s ! i)
                  \<lparr> z_wp := z_start (ar_zones s ! i) + z_len (ar_zones s ! i) \<rparr>] \<rparr>)
           else None })"

text \<open>\<open>Close\<close> skips a sub-zone that is not mapped, and one whose index has no entry in the map of modes
  (which is keyed by zones, not by sub-zones).\<close>

fun close_subs ::
  "'b backend \<Rightarrow> u64 \<Rightarrow> u32 list \<Rightarrow> 'b autoraid \<Rightarrow> ((status \<times> bool) \<times> 'b autoraid) option" where
  "close_subs be dz [] s = Some ((OK, False), s)"
| "close_subs be dz (sub # subs) s =
     (case map_of (device_zone_map (ar_alloc s)) sub of
        None \<Rightarrow> close_subs be dz subs s
      | Some mm \<Rightarrow>
          if mode_map (ar_alloc s) sub = None then close_subs be dz subs s
          else do { ((r, stop), s) \<leftarrow> items_loop ok (\<lambda>it. be_Close be (item_start dz it)) mm OK s;
                    if stop then Some ((r, True), s) else close_subs be dz subs s })"

definition raida_Close :: "'b backend \<Rightarrow> u64 \<Rightarrow> 'b autoraid \<Rightarrow> (status \<times> 'b autoraid) option" where
  "raida_Close be pos s =
     (let zone_idx = pos div ra_zone_sz (ar s); i = unat (ucast zone_idx :: u32) in
      do { ((r, stop), s) \<leftarrow> close_subs be (dev_zone_sz be s) (zone_subs zone_idx s) s;
           if stop then map_option (Pair r) (flush_zone_info be s)
           else if i < length (ar_zones s)
           then Some (OK, s\<lparr> ar_zones := (ar_zones s)[i := (ar_zones s ! i)\<lparr> z_cond := COND_CLOSED \<rparr>] \<rparr>)
           else None })"

subsection \<open>Recovery from offline zones\<close>

fun offline_item :: "'b backend \<Rightarrow> RaidMapItem list \<Rightarrow> 'b autoraid \<Rightarrow> RaidMapItem option option" where
  "offline_item be [] s = Some None"
| "offline_item be (it # its) s =
     do { d \<leftarrow> member (mi_device it) s;
          if be_ZoneIsOffline be (listed be d) (unat (mi_zone it)) d then Some (Some it) else offline_item be its s }"

fun find_offline ::
  "'b backend \<Rightarrow> (u32 \<times> RaidMapItem list) list \<Rightarrow> 'b autoraid \<Rightarrow> (u32 \<times> RaidMapItem) option option" where
  "find_offline be [] s = Some None"
| "find_offline be ((sub, its) # rest) s =
     do { f \<leftarrow> offline_item be its s;
          case f of Some it \<Rightarrow> Some (Some (sub, it)) | None \<Rightarrow> find_offline be rest s }"

definition cannot_recover :: status where
  "cannot_recover = IOError (str ''Cannot recover data'') []"

text \<open>Copying the mirror: \<open>restoring\<close> is the new member zone, \<open>fine\<close> the other one.  The read goes to
  the position of the new zone on the member of the other one.  Bytes of the buffer that the read
  does not fill are indeterminate; they are zero here.  That memory can be allocated is taken for
  granted.\<close>

definition restore_mirror ::
  "'b backend \<Rightarrow> RaidMapItem \<Rightarrow> RaidMapItem \<Rightarrow> 'b autoraid \<Rightarrow> (status \<times> 'b autoraid) option" where
  "restore_mirror be restoring fine s =
     do { (sz, zl) \<leftarrow> zone_fill be fine s;
          let at = ucast (mi_zone restoring) * ra_zone_sz (ar s) div of_nat (nr_dev (ar s));
              write_start = item_start (dev_zone_sz be s) restoring;
              dev = mi_device restoring in
          do { ((k, bs), s) \<leftarrow> adev (mi_device fine) (be_Read be (to_int32 (uint sz)) at False) s;
               if k < 0 then Some (cannot_recover, s)
               else do { (_, s) \<leftarrow> adev dev (be_Reset be at) s;
                         (_, s) \<leftarrow> adev dev (be_Open be False False) s;
                         (_, s) \<leftarrow> adev dev (be_Reset be write_start) s;
                         (written, s) \<leftarrow> adev dev (be_Write be (take (unat (ucast sz :: u32))
                            (bs @ replicate (unat sz) 0)) write_start) s;
                         if (word_of_int written :: u64) \<noteq> sz then Some (cannot_recover, s) else Some (OK, s) } } }"

fun erase_first :: "('a \<Rightarrow> bool) \<Rightarrow> 'a list \<Rightarrow> 'a list" where
  "erase_first P [] = []"
| "erase_first P (x # xs) = (if P x then xs else x # erase_first P xs)"

definition set_zones_at :: "u32 \<Rightarrow> RaidMapItem list \<Rightarrow> 'b autoraid \<Rightarrow> 'b autoraid" where
  "set_zones_at sub its s =
     s\<lparr> ar_alloc := (ar_alloc s)\<lparr> device_zone_map := map_assign sub its (device_zone_map (ar_alloc s)) \<rparr> \<rparr>"

text \<open>Taking a new member zone on the device of the one that is offline.  When there is none the
  search for the zone to restore fails, and its end iterator is dereferenced.\<close>

definition replace_zone ::
  "'b backend \<Rightarrow> u32 \<Rightarrow> RaidMapItem \<Rightarrow> 'b autoraid \<Rightarrow> (status \<times> 'b autoraid) option" where
  "replace_zone be sub bad s =
     (let s = s\<lparr> ar_alloc := setOffline (mi_device bad) (mi_zone bad) (ar_alloc s) \<rparr>;
          (mp, s) = zones_at sub s;
          s = set_zones_at sub (erase_first (RaidMapItem_eq bad) mp) s;
          ((st, zn), a) = createOneMappingAt sub (mi_device bad) (ar_alloc s);
          s = s\<lparr> ar_alloc := a \<rparr>; (mp, s) = zones_at sub s;
          new = (case zn of None \<Rightarrow> - 1 | Some z \<Rightarrow> z) in
      do { restoring \<leftarrow> List.find (\<lambda>it. mi_device it = mi_device bad \<and> mi_zone it = new) mp;
           fine \<leftarrow> List.find (\<lambda>it. \<not> RaidMapItem_eq it restoring) mp;
           restore_mirror be restoring fine s })"

definition ScanAndHandleOffline :: "'b backend \<Rightarrow> 'b autoraid \<Rightarrow> (status \<times> 'b autoraid) option" where
  "ScanAndHandleOffline be s =
     do { f \<leftarrow> find_offline be (device_zone_map (ar_alloc s)) s;
          case f of
            None \<Rightarrow> Some (OK, s)
          | Some (sub, bad) \<Rightarrow>
              let (m, s) = mode_at (sub div of_nat (nr_dev (ar s))) s in
              if mo_mode m = RAID1 then replace_zone be sub bad s else Some (cannot_recover, s) }"

definition raida_setZoneOffline :: "'b backend \<Rightarrow> u32 \<Rightarrow> u32 \<Rightarrow> bool \<Rightarrow> 'b autoraid \<Rightarrow> 'b autoraid option" where
  "raida_setZoneOffline be idx idx2 offline s =
     map_option snd (adev idx (\<lambda>d. ((), be_setZoneOffline be idx2 0 offline d)) s)"

subsection \<open>Data\<close>

text \<open>Reading and writing a striped zone, a block at a time.\<close>

function raida_read0_loop ::
  "'b backend \<Rightarrow> int \<Rightarrow> u64 \<Rightarrow> bool \<Rightarrow> int \<Rightarrow> bytes \<Rightarrow> 'b autoraid \<Rightarrow> ((int \<times> bytes) \<times> 'b autoraid) option" where
  "raida_read0_loop be n pos direct sz_read buf s =
     (if n \<le> 0 then Some ((sz_read, buf), s)
      else case getAutoDeviceZone be pos s of None \<Rightarrow> None | Some (it, s1) \<Rightarrow>
        case getAutoMappedDevicePos be pos s1 of None \<Rightarrow> None | Some (p, s2) \<Rightarrow>
          case adev (mi_device it) (be_Read be (min n (to_int32 (uint (ucast (ra_block_sz (ar s2)) - p mod ucast (ra_block_sz (ar s2))))))
              p direct) s2 of None \<Rightarrow> None | Some ((k, bs), s3) \<Rightarrow>
            if 0 < k then raida_read0_loop be (n - k) (pos + word_of_int k) direct (sz_read + k) (buf @ bs) s3
            else Some ((k, []), s3))"
  by auto

termination
  by (relation "measure (\<lambda>(be, n, pos, direct, sz_read, buf, s). nat n)") auto

declare raida_read0_loop.simps [simp del]

function raida_write0_loop ::
  "'b backend \<Rightarrow> bytes \<Rightarrow> u64 \<Rightarrow> int \<Rightarrow> 'b autoraid \<Rightarrow> (int \<times> 'b autoraid) option" where
  "raida_write0_loop be data pos sz_written s =
     (if data = [] then Some (sz_written, s)
      else case getAutoDeviceZone be pos s of None \<Rightarrow> None | Some (it, s1) \<Rightarrow>
        case getAutoMappedDevicePos be pos s1 of None \<Rightarrow> None | Some (p, s2) \<Rightarrow>
          case adev (mi_device it) (be_Write be (take (min (length data)
              (unat (ucast (ucast (ra_block_sz (ar s2)) - p mod ucast (ra_block_sz (ar s2)) :: u64) :: u32))) data) p) s2 of
            None \<Rightarrow> None
          | Some (k, s3) \<Rightarrow>
              if 0 < k then raida_write0_loop be (drop (nat k) data) (pos + word_of_int k) (sz_written + k) s3
              else Some (k, s3))"
  by auto

termination
  by (relation "measure (\<lambda>(be, data, pos, sz_written, s). length data)") auto

declare raida_write0_loop.simps [simp del]

text \<open>\<open>Read\<close> of at most a zone.  In a mirrored zone the first member zone is read; when that fails and
  the scan for offline zones succeeds, the call starts over.\<close>

definition raida_read_mirror ::
  "'b backend \<Rightarrow> int \<Rightarrow> u64 \<Rightarrow> bool \<Rightarrow> 'b autoraid \<Rightarrow> ((int \<times> bytes) \<times> 'b autoraid) option" where
  "raida_read_mirror be n pos direct s =
     (let dz = dev_zone_sz be s; nd = of_nat (nr_dev (ar s));
          (items, s) = zones_at (ucast (pos div ra_zone_sz (ar s)) * nd + ucast (pos div dz mod of_nat (nr_dev (ar s)))) s in
      case items of
        [] \<Rightarrow> Some ((- 1, []), s)
      | it # _ \<Rightarrow> adev (mi_device it) (be_Read be n (item_start dz it + pos mod dz) direct) s)"

partial_function (option) raida_read_zone ::
  "'b backend \<Rightarrow> int \<Rightarrow> u64 \<Rightarrow> bool \<Rightarrow> 'b autoraid \<Rightarrow> ((int \<times> bytes) \<times> 'b autoraid) option" where
  "raida_read_zone be n pos direct s =
     (case mode_at (ucast (pos div ra_zone_sz (ar s))) s of (m, s1) \<Rightarrow>
        if mo_mode m = RAID_C \<or> mo_mode m = RAID_NONE
        then do { (it, s2) \<leftarrow> getAutoDeviceZone be pos s1;
                  (p, s3) \<leftarrow> getAutoMappedDevicePos be pos s2;
                  adev (mi_device it) (be_Read be n p direct) s3 }
        else if mo_mode m = RAID1
        then do { ((r, bs), s2) \<leftarrow> raida_read_mirror be n pos direct s1;
                  if r < 0
                  then do { (st, s3) \<leftarrow> ScanAndHandleOffline be s2;
                            if ok st then raida_read_zone be n pos direct s3 else Some ((r, bs), s3) }
                  else Some ((r, bs), s2) }
        else if mo_mode m = RAID0 then raida_read0_loop be n pos direct 0 [] s1
        else Some ((- 1, []), s1))"

text \<open>A longer read is split at the ends of the zones.  The recursive calls ask for at most a zone.\<close>

function raida_read_split ::
  "'b backend \<Rightarrow> int \<Rightarrow> u64 \<Rightarrow> bool \<Rightarrow> int \<Rightarrow> bytes \<Rightarrow> 'b autoraid \<Rightarrow> ((int \<times> bytes) \<times> 'b autoraid) option" where
  "raida_read_split be n pos direct sz_read buf s =
     (if n \<le> 0 then Some ((sz_read, buf), s)
      else case raida_read_zone be (min n (to_int32 (uint (ra_zone_sz (ar s) - pos mod ra_zone_sz (ar s))))) pos direct s of
        None \<Rightarrow> None
      | Some ((k, bs), s1) \<Rightarrow>
          if 0 < k then raida_read_split be (n - k) (pos + word_of_int k) direct (sz_read + k) (buf @ bs) s1
          else Some ((k, []), s1))"
  by auto

termination
  by (relation "measure (\<lambda>(be, n, pos, direct, sz_read, buf, s). nat n)") auto

declare raida_read_split.simps [simp del]

definition raida_Read ::
  "'b backend \<Rightarrow> int \<Rightarrow> u64 \<Rightarrow> bool \<Rightarrow> 'b autoraid \<Rightarrow> ((int \<times> bytes) \<times> 'b autoraid) option" where
  "raida_Read be n pos direct s =
     (if ra_zone_sz (ar s) < word_of_int n then raida_read_split be n pos direct 0 [] s
      else raida_read_zone be n pos direct s)"

text \<open>\<open>Write\<close> inside one inner zone.  A mirrored write goes to every member zone and stops at the first
  failure; with no member zone the result is indeterminate.\<close>

fun mirror_writes ::
  "'b backend \<Rightarrow> bytes \<Rightarrow> u64 \<Rightarrow> u64 \<Rightarrow> RaidMapItem list \<Rightarrow> 'b autoraid \<Rightarrow> (int \<times> 'b autoraid) option" where
  "mirror_writes be data dz ofst [] s = None"
| "mirror_writes be data dz ofst (it # its) s =
     do { (r, s) \<leftarrow> adev (mi_device it) (be_Write be data (item_start dz it + ofst)) s;
          if r < 0 \<or> its = [] then Some (r, s) else mirror_writes be data dz ofst its s }"

definition raida_write_inner ::
  "'b backend \<Rightarrow> bytes \<Rightarrow> u64 \<Rightarrow> 'b autoraid \<Rightarrow> (int \<times> 'b autoraid) option" where
  "raida_write_inner be data pos s =
     (case mode_at (ucast (pos div ra_zone_sz (ar s))) s of (m, s) \<Rightarrow>
        if mo_mode m = RAID_C \<or> mo_mode m = RAID_NONE
        then do { (it, s) \<leftarrow> getAutoDeviceZone be pos s;
                  (p, s) \<leftarrow> getAutoMappedDevicePos be pos s;
                  adev (mi_device it) (be_Write be data p) s }
        else if mo_mode m = RAID1
        then let dz = dev_zone_sz be s; n = of_nat (nr_dev (ar s)); n' = of_nat (nr_dev (ar s)) in
          do { its \<leftarrow> map_of (device_zone_map (ar_alloc s))
                 (ucast (pos div ra_zone_sz (ar s)) * n + ucast (pos div dz) mod n');
               mirror_writes be data dz (pos mod dz) its s }
        else if mo_mode m = RAID0 then raida_write0_loop be data pos 0 s
        else Some (- 1, s))"

function raida_write_split ::
  "'b backend \<Rightarrow> bytes \<Rightarrow> u64 \<Rightarrow> int \<Rightarrow> 'b autoraid \<Rightarrow> (int \<times> 'b autoraid) option" where
  "raida_write_split be data pos sz_written s =
     (if data = [] then Some (sz_written, s)
      else case raida_write_inner be (take (min (length data)
          (unat (ucast (dev_zone_sz be s - pos mod dev_zone_sz be s) :: u32))) data) pos s of
        None \<Rightarrow> None
      | Some (k, s1) \<Rightarrow>
          if 0 < k then raida_write_split be (drop (nat k) data) (pos + word_of_int k) (sz_written + k) s1
          else Some (k, s1))"
  by auto

termination
  by (relation "measure (\<lambda>(be, data, pos, sz_written, s). length data)") auto

declare raida_write_split.simps [simp del]

definition raida_Write :: "'b backend \<Rightarrow> bytes \<Rightarrow> u64 \<Rightarrow> 'b autoraid \<Rightarrow> (int \<times> 'b autoraid) option" where
  "raida_Write be data pos s =
     (let dz = dev_zone_sz be s; sz = of_nat (length data) in
      if dz < sz \<or> 1 < sz \<and> pos div dz \<noteq> (pos + sz - 1) div dz
      then raida_write_split be data pos 0 s
      else raida_write_inner be data pos s)"

definition raida_invalidate_zone :: "'b backend \<Rightarrow> u64 \<Rightarrow> u64 \<Rightarrow> 'b autoraid \<Rightarrow> (int \<times> 'b autoraid) option" where
  "raida_invalidate_zone be pos sz s =
     do { (it, s) \<leftarrow> getAutoDeviceZone be pos s;
          (p, s) \<leftarrow> getAutoMappedDevicePos be pos s;
          (r, s) \<leftarrow> adev (mi_device it) (be_InvalidateCache be p sz) s;
          map_option (Pair r) (flush_zone_info be s) }"

partial_function (option) raida_invalidate_split ::
  "'b backend \<Rightarrow> u64 \<Rightarrow> u64 \<Rightarrow> 'b autoraid \<Rightarrow> (int \<times> 'b autoraid) option" where
  "raida_invalidate_split be pos sz s =
     (if sz = 0 then Some (0, s)
      else do { (r, s1) \<leftarrow> raida_invalidate_zone be pos (min sz (ra_zone_sz (ar s) - pos mod ra_zone_sz (ar s))) s;
                if r = 0 then raida_invalidate_split be (pos + ra_zone_sz (ar s1)) (sz - ra_zone_sz (ar s1)) s1
                else Some (r, s1) })"

definition raida_InvalidateCache :: "'b backend \<Rightarrow> u64 \<Rightarrow> u64 \<Rightarrow> 'b autoraid \<Rightarrow> (int \<times> 'b autoraid) option" where
  "raida_InvalidateCache be pos sz s =
     (if ra_zone_sz (ar s) < sz then raida_invalidate_split be pos sz s else raida_invalidate_zone be pos sz s)"

subsection \<open>Zone queries\<close>

text \<open>The state of a zone is that of the first member zone of its first sub-zone.\<close>

definition ask_member :: "(ZoneList \<Rightarrow> nat \<Rightarrow> 'b \<Rightarrow> 'r) \<Rightarrow> 'b backend \<Rightarrow> u32 \<Rightarrow> 'b autoraid \<Rightarrow> 'r option" where
  "ask_member q be idx s =
     (let it = getAutoDeviceZoneFromIdx idx s in
      do { d \<leftarrow> member (mi_device it) s; Some (q (listed be d) (unat (mi_zone it)) d) })"

definition raida_ZoneIsSwr :: "'b backend \<Rightarrow> ZoneList \<Rightarrow> u32 \<Rightarrow> 'b autoraid \<Rightarrow> bool option" where
  "raida_ZoneIsSwr be zones idx s = ask_member (be_ZoneIsSwr be) be idx s"

definition raida_ZoneIsOffline :: "'b backend \<Rightarrow> ZoneList \<Rightarrow> u32 \<Rightarrow> 'b autoraid \<Rightarrow> bool option" where
  "raida_ZoneIsOffline be zones idx s = ask_member (be_ZoneIsOffline be) be idx s"

definition raida_ZoneIsWritable :: "'b backend \<Rightarrow> ZoneList \<Rightarrow> u32 \<Rightarrow> 'b autoraid \<Rightarrow> bool option" where
  "raida_ZoneIsWritable be zones idx s = ask_member (be_ZoneIsWritable be) be idx s"

definition raida_ZoneIsActive :: "'b backend \<Rightarrow> ZoneList \<Rightarrow> u32 \<Rightarrow> 'b autoraid \<Rightarrow> bool option" where
  "raida_ZoneIsActive be zones idx s = ask_member (be_ZoneIsActive be) be idx s"

definition raida_ZoneIsOpen :: "'b backend \<Rightarrow> ZoneList \<Rightarrow> u32 \<Rightarrow> 'b autoraid \<Rightarrow> bool option" where
  "raida_ZoneIsOpen be zones idx s = ask_member (be_ZoneIsOpen be) be idx s"

definition raida_ZoneStart :: "ZoneList \<Rightarrow> u32 \<Rightarrow> u64" where
  "raida_ZoneStart zones idx = z_start (zone_at zones (unat idx))"

definition raida_ZoneMaxCapacity :: "ZoneList \<Rightarrow> u32 \<Rightarrow> u64" where
  "raida_ZoneMaxCapacity zones idx = z_capacity (zone_at zones (unat idx))"

definition raida_ZoneWp :: "ZoneList \<Rightarrow> u32 \<Rightarrow> u64" where
  "raida_ZoneWp zones idx = z_wp (zone_at zones (unat idx))"

subsection \<open>Layouts read from metadata\<close>

definition GetFixed32_to :: "bytes \<Rightarrow> u32 \<Rightarrow> u32 \<times> bytes" where
  "GetFixed32_to input old = (case GetFixed32 input of None \<Rightarrow> (old, input) | Some x \<Rightarrow> x)"

definition map_item_DecodeFrom :: "bytes \<Rightarrow> RaidMapItem \<Rightarrow> status \<times> RaidMapItem \<times> bytes" where
  "map_item_DecodeFrom input it =
     (let (d, input) = GetFixed32_to input (mi_device it); (z, input) = GetFixed32_to input (mi_zone it);
          (v, input) = (case GetFixed16 input of None \<Rightarrow> (mi_invalid it, input) | Some x \<Rightarrow> x) in
      (OK, \<lparr> mi_device = d, mi_zone = z, mi_invalid = v \<rparr>, input))"

definition mode_item_DecodeFrom :: "bytes \<Rightarrow> RaidModeItem \<Rightarrow> status \<times> RaidModeItem \<times> bytes" where
  "mode_item_DecodeFrom input m =
     (let (k, input) = GetFixed32_to input (mo_mode m); (opt, input) = GetFixed32_to input (mo_option m) in
      (OK, \<lparr> mo_mode = k, mo_option = opt \<rparr>, input))"

text \<open>An update does not replace what is there; a setup does.\<close>

definition layout_update ::
  "'b backend \<Rightarrow> (u32 \<times> RaidMapItem list) list \<Rightarrow> (u32 \<times> RaidModeItem) list \<Rightarrow> 'b autoraid \<Rightarrow> 'b autoraid option" where
  "layout_update be device_zone modes s =
     flush_zone_info be (s\<lparr> ar_alloc := (ar_alloc s)
       \<lparr> device_zone_map := fold (\<lambda>(k, v). map_insert k v) device_zone (device_zone_map (ar_alloc s)),
         mode_map := fold (\<lambda>(k, v) m. if m k = None then m(k \<mapsto> v) else m) modes (mode_map (ar_alloc s)) \<rparr> \<rparr>)"

definition layout_setup ::
  "'b backend \<Rightarrow> (u32 \<times> RaidMapItem list) list \<Rightarrow> (u32 \<times> RaidModeItem) list \<Rightarrow> 'b autoraid \<Rightarrow> 'b autoraid option" where
  "layout_setup be device_zone modes s =
     flush_zone_info be (s\<lparr> ar_alloc := (ar_alloc s)\<lparr> device_zone_map := device_zone, mode_map := map_of modes \<rparr> \<rparr>)"

text \<open>The metadata records that carry a layout (\<open>AquaFS::DecodeRaidAppendFrom\<close>) and the zones to be taken
  offline (\<open>AquaFS::DecodeBlockingDeviceZones\<close>).  A count that is missing is \<open>-1\<close> for the first map.\<close>

fun decode_map_items ::
  "nat \<Rightarrow> bytes \<Rightarrow> (u32 \<times> RaidMapItem list) list \<Rightarrow> (u32 \<times> RaidMapItem list) list \<times> bytes" where
  "decode_map_items 0 input m = (m, input)"
| "decode_map_items (Suc n) input m =
     (let (k, input) = GetFixed32_to input (- 1); (st, it, input) = map_item_DecodeFrom input empty_map_item;
          (its, m) = map_index k [] m in
      decode_map_items n input (map_assign k (its @ [it]) m))"

fun decode_mode_items ::
  "nat \<Rightarrow> bytes \<Rightarrow> (u32 \<times> RaidModeItem) list \<Rightarrow> (u32 \<times> RaidModeItem) list \<times> bytes" where
  "decode_mode_items 0 input m = (m, input)"
| "decode_mode_items (Suc n) input m =
     (let (k, input) = GetFixed32_to input (- 1); (st, it, input) = mode_item_DecodeFrom input empty_mode_item in
      decode_mode_items n input (map_assign k it m))"

definition DecodeRaidAppendFrom :: "'b backend \<Rightarrow> bytes \<Rightarrow> 'b autoraid \<Rightarrow> (status \<times> 'b autoraid) option" where
  "DecodeRaidAppendFrom be input s =
     (let (n, input) = GetFixed32_to input (- 1); (zones, input) = decode_map_items (unat n) input [];
          (k, input) = GetFixed32_to input 0; (modes, input) = decode_mode_items (unat k) input [] in
      map_option (Pair OK) (layout_update be zones modes s))"

definition DecodeBlockingDeviceZones :: "'b backend \<Rightarrow> bytes \<Rightarrow> 'b autoraid \<Rightarrow> (status \<times> 'b autoraid) option" where
  "DecodeBlockingDeviceZones be input s =
     (case GetFixed32 input of
        None \<Rightarrow> Some (IOError (str ''decode dev idx failed'') [], s)
      | Some (dev_idx, input) \<Rightarrow>
          (case GetFixed32 input of
             None \<Rightarrow> Some (IOError (str ''decode zone idx failed'') [], s)
           | Some (dev_zone_idx, input) \<Rightarrow>
               map_option (Pair OK) (raida_setZoneOffline be dev_idx dev_zone_idx True s)))"

end
