(* ===== verification/RaidMirror.thy ===== *)
theory RaidMirror
  imports RaidAuto
begin

text \<open>
  Properties of the automatic RAID: what a write to a mirrored zone stores, where the two halves of a
  mirror lie, and what happens when a mirrored zone cannot be read.
\<close>

subsection \<open>Calls of members\<close>

lemma adev_fields:
  assumes "adev i f s = Some (x, s')"
  shows "unat i < nr_dev (ar s)" "x = fst (f (ra_devices (ar s) ! unat i))"
    "ra_devices (ar s') = (ra_devices (ar s))[unat i := snd (f (ra_devices (ar s) ! unat i))]"
    "ar_alloc s' = ar_alloc s" "nr_dev (ar s') = nr_dev (ar s)" "ra_zone_sz (ar s') = ra_zone_sz (ar s)"
    "ar_zones s' = ar_zones s" "ra_block_sz (ar s') = ra_block_sz (ar s)"
  using assms by (auto simp: adev_def dev_call_def nr_dev_def split: if_splits prod.splits)

subsection \<open>Mirrored writes\<close>

text \<open>Where the write to a member zone begins.\<close>

abbreviation item_at :: "u64 \<Rightarrow> u64 \<Rightarrow> RaidMapItem \<Rightarrow> nat" where
  "item_at dz ofst it \<equiv> unat (item_start dz it + ofst)"

text \<open>A byte of a member outside the ranges written there does not change.\<close>

lemma mirror_writes_frame:
  assumes dev: "data_device be cont I" "\<forall>d\<in>set (ra_devices (ar s)). I d"
    and room: "\<forall>it\<in>set its. item_at dz ofst it + length data < 2 ^ 64"
    and run: "mirror_writes be data dz ofst its s = Some (r, s')"
    and out: "\<forall>it\<in>set its. unat (mi_device it) = j \<longrightarrow> x < item_at dz ofst it \<or> item_at dz ofst it + length data \<le> x"
  shows "cont (ra_devices (ar s') ! j) x = cont (ra_devices (ar s) ! j) x"
  using dev(2) room run out
proof (induction its arbitrary: s)
  case (Cons it its)
  obtain k s1 where a: "adev (mi_device it) (be_Write be data (item_start dz it + ofst)) s = Some (k, s1)"
    and rest: "if k < 0 \<or> its = [] then (r, s') = (k, s1) else mirror_writes be data dz ofst its s1 = Some (r, s')"
    using Cons.prems(3) by (auto split: Option.bind_splits if_splits)
  note f = adev_fields [OF a]
  have i: "unat (mi_device it) < length (ra_devices (ar s))" using f(1) by (simp add: nr_dev_def)
  then have d: "I (ra_devices (ar s) ! unat (mi_device it))" using Cons.prems(1) by simp
  have I1: "\<forall>d\<in>set (ra_devices (ar s1)). I d"
    using Cons.prems(1) data_device.write_inv [OF dev(1) d] f(3) by (auto dest!: set_update_subset_insert [THEN subsetD])
  have "cont (ra_devices (ar s1) ! j) x = cont (ra_devices (ar s) ! j) x"
    using data_device.write_frame [OF dev(1) d, of "item_start dz it + ofst" data x] Cons.prems(2,4) f(3) i
    by (cases "j = unat (mi_device it)") auto
  then show ?case using rest Cons.IH [OF I1] Cons.prems(2,4) by (auto split: if_splits)
qed simp

text \<open>A mirrored write that does not fail has stored the data in every member zone, on devices that
  write all of a request or fail.\<close>

lemma mirror_writes_stored:
  assumes dev: "data_device be cont I" "\<forall>d\<in>set (ra_devices (ar s)). I d"
    and full: "\<And>q d. I d \<Longrightarrow> 0 \<le> fst (be_Write be data q d) \<Longrightarrow> fst (be_Write be data q d) = int (length data)"
    and disj: "sorted_wrt (\<lambda>x y. mi_device x = mi_device y \<longrightarrow> item_at dz ofst x + length data \<le> item_at dz ofst y
      \<or> item_at dz ofst y + length data \<le> item_at dz ofst x) its"
    and room: "\<forall>it\<in>set its. item_at dz ofst it + length data < 2 ^ 64"
    and run: "mirror_writes be data dz ofst its s = Some (r, s')" "0 \<le> r"
    and it: "it \<in> set its" "i < length data"
  shows "cont (ra_devices (ar s') ! unat (mi_device it)) (item_at dz ofst it + i) = data ! i"
  using dev(2) disj room run it
proof (induction its arbitrary: s)
  case (Cons it1 its)
  let ?q = "item_start dz it1 + ofst" and ?i = "unat (mi_device it1)"
  obtain k s1 where a: "adev (mi_device it1) (be_Write be data ?q) s = Some (k, s1)"
    and rest: "if k < 0 \<or> its = [] then (r, s') = (k, s1) else mirror_writes be data dz ofst its s1 = Some (r, s')"
    using Cons.prems(4) by (auto split: Option.bind_splits if_splits)
  note f = adev_fields [OF a]
  let ?d = "ra_devices (ar s) ! ?i"
  have j: "?i < length (ra_devices (ar s))" using f(1) by (simp add: nr_dev_def)
  have d: "I ?d" using Cons.prems(1) j by simp
  have k: "0 \<le> k" using rest Cons.prems(5) by (auto split: if_splits)
  then have full_k: "k = int (length data)" using full [OF d, of ?q] f(2) by simp
  have I1: "\<forall>d\<in>set (ra_devices (ar s1)). I d"
    using Cons.prems(1) data_device.write_inv [OF dev(1) d] f(3) by (auto dest!: set_update_subset_insert [THEN subsetD])
  have first: "cont (ra_devices (ar s1) ! ?i) (unat ?q + i) = data ! i"
    using data_device.write_stored [OF dev(1) d, of ?q data i] Cons.prems(3,7) f(2,3) full_k j by simp
  have rest': "its = [] \<and> s' = s1 \<or> mirror_writes be data dz ofst its s1 = Some (r, s')"
    using rest k by (auto split: if_splits)
  show ?case
  proof (cases "it = it1")
    case True
    have "cont (ra_devices (ar s') ! ?i) (unat ?q + i) = cont (ra_devices (ar s1) ! ?i) (unat ?q + i)" if "its \<noteq> []"
      by (rule mirror_writes_frame [OF dev(1) I1, of its dz ofst data r])
        (use that rest' Cons.prems(2,3,7) in \<open>auto simp: word_unat_eq_iff\<close>)
    then show ?thesis using True first rest' by (cases its) auto
  next
    case False
    then have "mirror_writes be data dz ofst its s1 = Some (r, s')" using rest' Cons.prems(6) by auto
    from Cons.IH [OF I1 _ _ this Cons.prems(5)] Cons.prems(2,3,6,7) False show ?thesis by simp
  qed
qed simp

text \<open>Different zones of a device do not overlap.\<close>

lemma item_at_eq:
  assumes "unat (mi_zone it) * unat dz + unat dz < 2 ^ 64" "unat ofst \<le> unat dz"
  shows "item_at dz ofst it = unat (mi_zone it) * unat dz + unat ofst"
proof -
  have "unat (item_start dz it) = unat (mi_zone it) * unat dz"
    unfolding item_start_def using assms(1) by (subst unat_mult_no_wrap) simp_all
  then show ?thesis using assms by (subst unat_add_no_wrap) simp_all
qed

lemma items_disjoint:
  assumes "distinct (map location its)" "\<forall>it\<in>set its. unat (mi_zone it) * unat dz + unat dz < 2 ^ 64"
    and "unat ofst + len \<le> unat dz"
  shows "sorted_wrt (\<lambda>x y. mi_device x = mi_device y \<longrightarrow> item_at dz ofst x + len \<le> item_at dz ofst y
    \<or> item_at dz ofst y + len \<le> item_at dz ofst x) its"
  using assms(1,2)
proof (induction its)
  case (Cons x its)
  have "item_at dz ofst x + len \<le> item_at dz ofst y \<or> item_at dz ofst y + len \<le> item_at dz ofst x"
    if y: "y \<in> set its" "mi_device x = mi_device y" for y
  proof -
    have "mi_zone x \<noteq> mi_zone y" using Cons.prems(1) y by force
    then consider "Suc (unat (mi_zone x)) \<le> unat (mi_zone y)" | "Suc (unat (mi_zone y)) \<le> unat (mi_zone x)"
      by (metis Suc_leI linorder_neqE_nat word_unat_eq_iff)
    then have "Suc (unat (mi_zone x)) * unat dz \<le> unat (mi_zone y) * unat dz \<or> Suc (unat (mi_zone y)) * unat dz \<le> unat (mi_zone x) * unat dz"
      by (metis mult_le_mono1)
    then show ?thesis using Cons.prems(2) y(1) assms(3) by (auto simp: item_at_eq)
  qed
  then show ?case using Cons by auto
qed simp


subsection \<open>Where the mirrors lie\<close>

text \<open>With two devices the first mirrored zone of the automatic RAID has both its mirrors on one device.  The
  metadata zones occupy the first eight zones of the first device, and the allocator takes the
  lowest free zone numbers, which are those of the second device alone.\<close>

theorem mirrors_on_one_device:
  "map mi_device (sub_zones (snd (createMappingTwice 4 (setInfo 2 12 (ar_alloc (RaidAutoZonedBlockDevice be [d, d']))))) 8)
    = [1, 1]"
proof -
  have "ar_alloc (RaidAutoZonedBlockDevice be [d, d']) = fold (map_meta_zone 2) [0..<AQUAFS_META_ZONES] new_allocator"
    by (simp add: RaidAutoZonedBlockDevice_def numeral_2_eq_2)
  moreover have "map mi_device (sub_zones (snd (createMappingTwice 4 (setInfo 2 12
      (fold (map_meta_zone 2) [0..<AQUAFS_META_ZONES] new_allocator)))) 8) = [1, 1]"
    by code_simp
  ultimately show ?thesis by simp
qed

subsection \<open>Reads that cannot succeed\<close>

definition items_in_range :: "'b autoraid \<Rightarrow> bool" where
  "items_in_range s = (\<forall>e\<in>set (device_zone_map (ar_alloc s)). \<forall>it\<in>set (snd e). unat (mi_device it) < nr_dev (ar s))"

lemma find_offline_none:
  assumes "\<And>zl i d. \<not> be_ZoneIsOffline be zl i d" "\<forall>e\<in>set m. \<forall>it\<in>set (snd e). unat (mi_device it) < nr_dev (ar s)"
  shows "find_offline be m s = Some None"
  using assms(2)
proof (induction m)
  case (Cons e m)
  obtain sub its where e: "e = (sub, its)" by fastforce
  have "offline_item be its s = Some None" if "\<forall>it\<in>set its. unat (mi_device it) < nr_dev (ar s)" for its
    using that assms(1) by (induction its) (simp_all add: member_def)
  with Cons show ?case by (simp add: e)
qed simp

lemma set_map_insert: "set (map_insert k v m) \<subseteq> insert (k, v) (set m)"
  by (induction k v m rule: map_insert.induct) auto

lemma zones_at_range:
  assumes "zones_at sub s = (its, s')" "items_in_range s"
  shows "items_in_range s'" "ar s' = ar s" "mode_map (ar_alloc s') = mode_map (ar_alloc s)"
    "it \<in> set its \<Longrightarrow> unat (mi_device it) < nr_dev (ar s)"
proof -
  show "items_in_range s'" "ar s' = ar s" "mode_map (ar_alloc s') = mode_map (ar_alloc s)"
    using assms by (auto simp: zones_at_def map_index_def items_in_range_def split: option.splits
        dest!: subsetD [OF set_map_insert])
  show "unat (mi_device it) < nr_dev (ar s)" if "it \<in> set its"
    using assms that by (force simp: zones_at_def map_index_def items_in_range_def split: option.splits dest: map_of_SomeD)
qed

lemma raida_read_mirror_fails:
  assumes "\<And>q d. fst (fst (be_Read be n q direct d)) < 0" "items_in_range s"
  shows "\<exists>r bs s'. raida_read_mirror be n pos direct s = Some ((r, bs), s') \<and> r < 0 \<and> items_in_range s'
    \<and> mode_map (ar_alloc s') = mode_map (ar_alloc s) \<and> ra_zone_sz (ar s') = ra_zone_sz (ar s)"
proof -
  obtain its s1 where z: "zones_at (ucast (pos div ra_zone_sz (ar s)) * of_nat (nr_dev (ar s))
      + ucast (pos div dev_zone_sz be s mod of_nat (nr_dev (ar s)))) s = (its, s1)" by fastforce
  note r = zones_at_range [OF z assms(2)]
  show ?thesis
  proof (cases its)
    case Nil
    then show ?thesis using z r by (simp add: raida_read_mirror_def Let_def)
  next
    case (Cons it rest)
    let ?f = "be_Read be n (item_start (dev_zone_sz be s) it + pos mod dev_zone_sz be s) direct"
    have "unat (mi_device it) < nr_dev (ar s1)" using r(2,4) Cons by simp
    then obtain x s2 where a: "adev (mi_device it) ?f s1 = Some (x, s2)" by (auto simp: adev_def split_beta Let_def)
    note f = adev_fields [OF a]
    obtain k bs where x: "x = (k, bs)" by fastforce
    have "k < 0" using assms(1) f(2) x by (metis fst_conv)
    moreover have "items_in_range s2" using r(1) f(4,5) by (simp add: items_in_range_def)
    moreover have "raida_read_mirror be n pos direct s = Some ((k, bs), s2)"
      using z a Cons by (simp add: raida_read_mirror_def Let_def x)
    moreover have "mode_map (ar_alloc s2) = mode_map (ar_alloc s)" "ra_zone_sz (ar s2) = ra_zone_sz (ar s)"
      using r(2,3) f(4,6) by simp_all
    ultimately show ?thesis by blast
  qed
qed


definition failing_backend :: "simdev zbdlib backend" where
  "failing_backend = (zbdlib_backend sim_libzbd)\<lparr> be_Read := (\<lambda>n pos direct d. ((- 1, []), d)),
     be_ZoneIsOffline := (\<lambda>zones i d. False) \<rparr>"

definition demo_auto :: "simdev zbdlib autoraid" where
  "demo_auto = \<lparr> ar = raida_syncBackendInfo (zbdlib_backend sim_libzbd) (AbstractRaidZonedBlockDevice [demo_dev, demo_dev]),
     ar_alloc = new_allocator\<lparr> device_zone_map := [(0, [\<lparr> mi_device = 0, mi_zone = 1, mi_invalid = 0 \<rparr>,
         \<lparr> mi_device = 1, mi_zone = 2, mi_invalid = 0 \<rparr>])],
       device_zone_inv_map := [(0, 1) \<mapsto> 0, (1, 2) \<mapsto> 0], mode_map := [0 \<mapsto> \<lparr> mo_mode = RAID1, mo_option = 0 \<rparr>] \<rparr>,
     ar_zones = [] \<rparr>"

lemma demo_auto_facts:
  "ra_zone_sz (ar demo_auto) = 128" "nr_dev (ar demo_auto) = 2" "ra_devices (ar demo_auto) = [demo_dev, demo_dev]"
  "dev_zone_sz (zbdlib_backend sim_libzbd) demo_auto = 64"
  "device_zone_map (ar_alloc demo_auto) = [(0, [\<lparr> mi_device = 0, mi_zone = 1, mi_invalid = 0 \<rparr>,
     \<lparr> mi_device = 1, mi_zone = 2, mi_invalid = 0 \<rparr>])]"
  "mode_map (ar_alloc demo_auto) 0 = Some \<lparr> mo_mode = RAID1, mo_option = 0 \<rparr>"
  by (simp_all add: demo_auto_def raida_syncBackendInfo_def raid_syncBackendInfo_def AbstractRaidZonedBlockDevice_def
      nr_dev_def def_dev_def zbdlib_backend_def demo_dev_def Let_def)


lemma sim_write_all:
  "0 \<le> fst (be_Write (zbdlib_backend sim_libzbd) data q d) \<Longrightarrow> fst (be_Write (zbdlib_backend sim_libzbd) data q d) = int (length data)"
  by (auto simp: zbdlib_backend_def zbdlib_Write_def sim_libzbd_def sim_pwrite_def sim_can_write_def Let_def to_int32_id split: if_splits)

lemma demo_auto_write:
  "map_option fst (raida_write_inner (zbdlib_backend sim_libzbd) [5, 6, 7, 8] 0 demo_auto) = Some 4"
  by code_simp


end
