(* ===== verification/FileCache.thy ===== *)
theory FileCache
  imports Zone "HOL-Library.Multiset"
begin

text \<open>
  \<open>ZoneFsFileCache\<close> of \<open>fs/zonefs_aquafs.h\<close> and \<open>.cc\<close>: the cache of open file descriptors of the ZoneFS
  backend, which drops the least recently used one, and the system calls that backend makes.  The
  system calls are the record parameter \<open>'d zonefs_os\<close>.

  A \<open>std::shared_ptr<ZoneFsFile>\<close> closes its descriptor when its last copy goes away.  The copies
  are the one of the cache and the one of the operation under way; \<open>Put\<close> therefore returns the
  descriptors it dropped, and its caller closes them when its own copy goes away.

  The lemmas show that the index and the list of the cache agree, and that every operation acts on
  the zones in the order of their last use as a least-recently-used cache does.
\<close>

subsection \<open>The system calls\<close>

abbreviation (input) fl_RDONLY :: u32 where "fl_RDONLY \<equiv> 0"
abbreviation (input) fl_WRONLY :: u32 where "fl_WRONLY \<equiv> 1"
abbreviation (input) fl_DIRECT :: u32 where "fl_DIRECT \<equiv> 0x4000"

record file_stat =
  st_mode :: u32
  st_size :: u64
  st_blocks :: u64
  st_blksize :: u64

text \<open>The buffer of \<open>pwrite\<close> is all that is left of the caller's data, its count the \<open>size_t\<close> of the
  call.  \<open>/proc/mounts\<close> is the list of mount points with the devices behind them; a file of sysfs
  is its contents.\<close>

record 'd zonefs_os =
  zo_stat :: "bytes \<Rightarrow> 'd \<Rightarrow> int \<times> file_stat"
  zo_fstat :: "int \<Rightarrow> 'd \<Rightarrow> int \<times> file_stat"
  zo_open :: "bytes \<Rightarrow> u32 \<Rightarrow> 'd \<Rightarrow> int \<times> 'd"
  zo_close :: "int \<Rightarrow> 'd \<Rightarrow> 'd"
  zo_flock :: "int \<Rightarrow> 'd \<Rightarrow> int \<times> 'd"
  zo_truncate :: "bytes \<Rightarrow> u64 \<Rightarrow> 'd \<Rightarrow> int \<times> 'd"
  zo_pread :: "int \<Rightarrow> u64 \<Rightarrow> u64 \<Rightarrow> 'd \<Rightarrow> (int \<times> bytes) \<times> 'd"
  zo_pwrite :: "int \<Rightarrow> bytes \<Rightarrow> u64 \<Rightarrow> u64 \<Rightarrow> 'd \<Rightarrow> int \<times> 'd"
  zo_fadvise :: "int \<Rightarrow> u64 \<Rightarrow> u64 \<Rightarrow> 'd \<Rightarrow> int \<times> 'd"
  zo_mounts :: "'d \<Rightarrow> (bytes \<times> bytes) list option"
  zo_sysfs :: "bytes \<Rightarrow> 'd \<Rightarrow> bytes option"
  zo_errno :: "'d \<Rightarrow> int"
  zo_strerror :: "int \<Rightarrow> bytes option"

subsection \<open>The cache of open files\<close>

text \<open>\<open>list_\<close> holds the zones and their descriptors, the most recently used first; \<open>map_\<close> finds the
  list's node of a zone, here the contents of the node.\<close>

type_synonym fd_node = "u64 \<times> int"

record fd_cache =
  fc_list :: "fd_node list"
  fc_map :: "u64 \<rightharpoonup> fd_node"
  fc_max :: u32
  fc_flags :: u32

definition AQUAFS_ZONEFS_DEFAULT_MAX_LIMIT :: u32 where "AQUAFS_ZONEFS_DEFAULT_MAX_LIMIT = 14"
definition AQUAFS_ZONEFS_DEFAULT_MAX_RD_LIMIT :: u32 where "AQUAFS_ZONEFS_DEFAULT_MAX_RD_LIMIT = 100"

definition ZoneFsFileCache :: "u32 \<Rightarrow> fd_cache" where
  "ZoneFsFileCache flags = \<lparr> fc_list = [], fc_map = Map.empty,
     fc_max = (if flags AND fl_RDONLY \<noteq> 0 then AQUAFS_ZONEFS_DEFAULT_MAX_RD_LIMIT
               else AQUAFS_ZONEFS_DEFAULT_MAX_LIMIT),
     fc_flags = flags \<rparr>"

text \<open>\<open>Put\<close> returns the descriptors whose cache entry it removed.\<close>

definition cache_Put :: "u64 \<Rightarrow> fd_cache \<Rightarrow> int list \<times> fd_cache" where
  "cache_Put zone c =
     (case fc_map c zone of
        None \<Rightarrow> ([], c)
      | Some node \<Rightarrow> ([snd node],
          c\<lparr> fc_list := remove1 node (fc_list c), fc_map := (fc_map c)(zone := None) \<rparr>))"

function cache_Prune :: "'d zonefs_os \<Rightarrow> u32 \<Rightarrow> fd_cache \<Rightarrow> 'd \<Rightarrow> fd_cache \<times> 'd" where
  "cache_Prune os limit c d =
     (if unat limit < length (fc_list c)
      then cache_Prune os limit
             (c\<lparr> fc_map := (fc_map c)(fst (last (fc_list c)) := None), fc_list := butlast (fc_list c) \<rparr>)
             (zo_close os (snd (last (fc_list c))) d)
      else (c, d))"
  by pat_completeness auto
termination by (relation "measure (\<lambda>(os, limit, c, d). length (fc_list c))") auto

declare cache_Prune.simps [simp del]

text \<open>The limit given to \<open>Prune\<close> is an \<open>unsigned\<close> that wraps around: a cache of size 0 is not pruned.\<close>

definition cache_Get ::
  "'d zonefs_os \<Rightarrow> u64 \<Rightarrow> bytes \<Rightarrow> fd_cache \<Rightarrow> 'd \<Rightarrow> int option \<times> fd_cache \<times> 'd" where
  "cache_Get os zone filename c d =
     (case fc_map c zone of
        None \<Rightarrow>
          let (fd, d) = zo_open os filename (fc_flags c) d in
          if fd = - 1 then (None, c, d)
          else let (c, d) = cache_Prune os (fc_max c - 1) c d in
            (Some fd, c\<lparr> fc_list := (zone, fd) # fc_list c, fc_map := (fc_map c)(zone \<mapsto> (zone, fd)) \<rparr>, d)
      | Some node \<Rightarrow> (Some (snd node), c\<lparr> fc_list := node # remove1 node (fc_list c) \<rparr>, d))"

definition cache_Resize :: "'d zonefs_os \<Rightarrow> u32 \<Rightarrow> fd_cache \<Rightarrow> 'd \<Rightarrow> fd_cache \<times> 'd" where
  "cache_Resize os new_size c d =
     (let (c, d) = (if new_size < fc_max c then cache_Prune os new_size c d else (c, d)) in
      (c\<lparr> fc_max := new_size \<rparr>, d))"

definition release :: "'d zonefs_os \<Rightarrow> int list \<Rightarrow> 'd \<Rightarrow> 'd" where
  "release os fds d = fold (zo_close os) fds d"

subsection \<open>Index and list agree\<close>

text \<open>\<open>map_\<close> finds exactly the nodes of \<open>list_\<close>, and no zone has two of them.\<close>

definition cache_ok :: "fd_cache \<Rightarrow> bool" where
  "cache_ok c = (distinct (map fst (fc_list c))
     \<and> fc_map c = (\<lambda>z. map_option (Pair z) (map_of (fc_list c) z)))"

lemma cache_ok_new: "cache_ok (ZoneFsFileCache flags)"
  by (simp add: cache_ok_def ZoneFsFileCache_def)

lemma remove1_node:
  assumes "distinct (map fst l)" "map_of l z = Some fd"
  shows "remove1 (z, fd) l = filter (\<lambda>e. fst e \<noteq> z) l"
  using assms
proof (induction l)
  case (Cons e l)
  show ?case
  proof (cases "fst e = z")
    case True
    then have "e = (z, fd)" using Cons(3) by (cases e) simp
    moreover have "filter (\<lambda>e. fst e \<noteq> z) l = l"
      using Cons(2) True by (intro filter_True) (auto simp: image_iff)
    ultimately show ?thesis by simp
  next
    case False
    then show ?thesis using Cons by (cases e) auto
  qed
qed simp

lemma map_of_other: "map_of (filter (\<lambda>e. fst e \<noteq> z) l) = (map_of l)(z := None)"
  by (induction l) (auto simp: fun_eq_iff)

lemma cache_Put_ok:
  assumes "cache_ok c"
  shows "cache_ok (snd (cache_Put zone c))"
    and "fc_list (snd (cache_Put zone c)) = filter (\<lambda>e. fst e \<noteq> zone) (fc_list c)"
    and "fst (cache_Put zone c) = (case map_of (fc_list c) zone of None \<Rightarrow> [] | Some fd \<Rightarrow> [fd])"
    and "fc_max (snd (cache_Put zone c)) = fc_max c"
proof -
  have d: "distinct (map fst (fc_list c))" and m: "fc_map c = (\<lambda>z. map_option (Pair z) (map_of (fc_list c) z))"
    using assms by (simp_all add: cache_ok_def)
  show l: "fc_list (snd (cache_Put zone c)) = filter (\<lambda>e. fst e \<noteq> zone) (fc_list c)"
  proof (cases "map_of (fc_list c) zone")
    case None
    then have "filter (\<lambda>e. fst e \<noteq> zone) (fc_list c) = fc_list c"
      by (auto simp: filter_id_conv map_of_eq_None_iff)
    with None show ?thesis by (simp add: cache_Put_def m)
  next
    case (Some fd)
    then show ?thesis using remove1_node [OF d Some] by (simp add: cache_Put_def m)
  qed
  show "cache_ok (snd (cache_Put zone c))"
    unfolding cache_ok_def l
    using d by (auto simp: cache_Put_def m map_of_other fun_eq_iff distinct_map_filter split: option.splits)
  show "fst (cache_Put zone c) = (case map_of (fc_list c) zone of None \<Rightarrow> [] | Some fd \<Rightarrow> [fd])"
    "fc_max (snd (cache_Put zone c)) = fc_max c"
    by (simp_all add: cache_Put_def m split: option.splits)
qed

lemma map_of_butlast:
  assumes "distinct (map fst l)" "l \<noteq> []"
  shows "map_of (butlast l) = (map_of l)(fst (last l) := None)"
proof -
  have l: "l = butlast l @ [last l]" using assms(2) by simp
  have "fst (last l) \<notin> fst ` set (butlast l)"
    using assms(1) by (subst (asm) l) (simp del: append_butlast_last_id)
  then have n: "map_of (butlast l) (fst (last l)) = None" by (simp add: map_of_eq_None_iff)
  have "map_of l = map_of [last l] ++ map_of (butlast l)"
    by (subst l) (simp only: map_of_append)
  then show ?thesis
    using n by (cases "last l") (auto simp: fun_eq_iff map_add_def split: option.splits)
qed

lemma cache_Prune_ok:
  assumes "cache_ok c"
  shows "cache_ok (fst (cache_Prune os limit c d))
    \<and> fc_list (fst (cache_Prune os limit c d)) = take (unat limit) (fc_list c)
    \<and> fc_max (fst (cache_Prune os limit c d)) = fc_max c \<and> fc_flags (fst (cache_Prune os limit c d)) = fc_flags c
    \<and> snd (cache_Prune os limit c d) = release os (map snd (rev (drop (unat limit) (fc_list c)))) d"
  using assms
proof (induction os limit c d rule: cache_Prune.induct)
  case (1 os limit c d)
  show ?case
  proof (cases "unat limit < length (fc_list c)")
    case False
    then show ?thesis using 1(2) by (simp add: cache_Prune.simps [of os limit c d] release_def)
  next
    case True
    let ?l = "fc_list c"
    let ?c = "c\<lparr> fc_map := (fc_map c)(fst (last ?l) := None), fc_list := butlast ?l \<rparr>"
    have ne: "?l \<noteq> []" using True by auto
    have d: "distinct (map fst ?l)" and m: "fc_map c = (\<lambda>z. map_option (Pair z) (map_of ?l z))"
      using 1(2) by (simp_all add: cache_ok_def)
    have "distinct (map fst (butlast ?l))"
      using d by (simp add: map_butlast distinct_butlast)
    then have ok: "cache_ok ?c"
      by (simp add: cache_ok_def m map_of_butlast [OF d ne] fun_eq_iff)
    have "drop (unat limit) (butlast ?l @ [last ?l]) = drop (unat limit) (butlast ?l) @ [last ?l]"
      using True by simp
    then have dr: "drop (unat limit) ?l = drop (unat limit) (butlast ?l) @ [last ?l]" using ne by simp
    have "take (unat limit) (butlast ?l) = take (unat limit) ?l"
      using True by (simp add: take_butlast)
    then show ?thesis
      using 1(1) [OF True ok] True dr by (simp add: cache_Prune.simps [of os limit c d] release_def)
  qed
qed

text \<open>The two cases of \<open>Get\<close>: the zone's file is in the cache, or it has to be opened.\<close>

lemma cache_Get_hit:
  assumes "cache_ok c" "map_of (fc_list c) zone = Some fd"
  shows "cache_Get os zone filename c d
    = (Some fd, c\<lparr> fc_list := (zone, fd) # filter (\<lambda>e. fst e \<noteq> zone) (fc_list c) \<rparr>, d)"
    "cache_ok (c\<lparr> fc_list := (zone, fd) # filter (\<lambda>e. fst e \<noteq> zone) (fc_list c) \<rparr>)"
proof -
  have d: "distinct (map fst (fc_list c))" and m: "fc_map c = (\<lambda>z. map_option (Pair z) (map_of (fc_list c) z))"
    using assms(1) by (simp_all add: cache_ok_def)
  show "cache_Get os zone filename c d
      = (Some fd, c\<lparr> fc_list := (zone, fd) # filter (\<lambda>e. fst e \<noteq> zone) (fc_list c) \<rparr>, d)"
    using remove1_node [OF d assms(2)] assms(2) by (simp add: cache_Get_def m)
  show "cache_ok (c\<lparr> fc_list := (zone, fd) # filter (\<lambda>e. fst e \<noteq> zone) (fc_list c) \<rparr>)"
    using d assms(2) by (auto simp: cache_ok_def m map_of_other fun_eq_iff distinct_map_filter)
qed

lemma cache_Get_miss:
  assumes "cache_ok c" "map_of (fc_list c) zone = None"
    and op: "zo_open os filename (fc_flags c) d = (fd, d')" and fd: "fd \<noteq> - 1"
    and res: "cache_Get os zone filename c d = (f, c', d'')"
  shows "f = Some fd \<and> cache_ok c' \<and> fc_list c' = (zone, fd) # take (unat (fc_max c - 1)) (fc_list c)
    \<and> fc_max c' = fc_max c
    \<and> d'' = release os (map snd (rev (drop (unat (fc_max c - 1)) (fc_list c)))) d'"
proof -
  have m: "fc_map c zone = None" using assms(1,2) by (simp add: cache_ok_def)
  note pr = cache_Prune_ok [OF assms(1), of os "fc_max c - 1" d']
  let ?c = "fst (cache_Prune os (fc_max c - 1) c d')"
  have "zone \<notin> fst ` set (fc_list c)" using assms(2) by (simp add: map_of_eq_None_iff)
  then have n: "zone \<notin> fst ` set (take (unat (fc_max c - 1)) (fc_list c))"
    by (auto dest: in_set_takeD)
  have "cache_ok (?c\<lparr> fc_list := (zone, fd) # fc_list ?c, fc_map := (fc_map ?c)(zone \<mapsto> (zone, fd)) \<rparr>)"
    using pr n by (auto simp: cache_ok_def fun_eq_iff)
  then show ?thesis
    using res pr op fd by (auto simp: cache_Get_def m split_beta Let_def)
qed

lemma cache_Get_fail:
  assumes "cache_ok c" "map_of (fc_list c) zone = None" "zo_open os filename (fc_flags c) d = (- 1, d')"
  shows "cache_Get os zone filename c d = (None, c, d')"
  using assms by (simp add: cache_Get_def cache_ok_def)

subsection \<open>The cache keeps the most recently used files\<close>

text \<open>
  The specification: the zones whose files are open, the most recently used first.  A \<open>Get\<close> that
  succeeds puts its zone in front and keeps as many as the limit allows, a \<open>Put\<close> takes its zone out,
  a \<open>Resize\<close> to a smaller limit keeps the most recently used ones.  A limit of 0 is no limit.
\<close>

type_synonym lru = "u32 \<times> u64 list"

definition lru_cut :: "u32 \<Rightarrow> u64 list \<Rightarrow> u64 list" where
  "lru_cut m zs = (if m = 0 then zs else take (unat m) zs)"

definition lru_get :: "u64 \<Rightarrow> lru \<Rightarrow> lru" where
  "lru_get z l = (fst l, lru_cut (fst l) (z # removeAll z (snd l)))"

definition lru_put :: "u64 \<Rightarrow> lru \<Rightarrow> lru" where
  "lru_put z l = (fst l, removeAll z (snd l))"

definition lru_resize :: "u32 \<Rightarrow> lru \<Rightarrow> lru" where
  "lru_resize m l = (m, if m < fst l then take (unat m) (snd l) else snd l)"

definition lru_of :: "fd_cache \<Rightarrow> lru" where
  "lru_of c = (fc_max c, map fst (fc_list c))"

definition cache_bounded :: "fd_cache \<Rightarrow> bool" where
  "cache_bounded c = (fc_max c = 0 \<or> length (fc_list c) \<le> unat (fc_max c))"

lemma map_fst_filter: "map fst (filter (\<lambda>e. fst e \<noteq> z) l) = removeAll z (map fst l)"
  by (induction l) auto

lemma removeAll_absent: "z \<notin> set l \<Longrightarrow> removeAll z l = l"
  by (induction l) auto

lemma unat_pred: "x \<noteq> 0 \<Longrightarrow> unat (x - 1 :: u32) = unat x - 1"
  by (rule unat_minus_one)

lemma cache_Get_lru:
  assumes "cache_ok c" "cache_bounded c" "length (fc_list c) < 2 ^ 32" "cache_Get os zone filename c d = (f, c', d')"
  shows "cache_ok c' \<and> cache_bounded c' \<and> lru_of c' = (if f = None then lru_of c else lru_get zone (lru_of c))"
proof (cases "map_of (fc_list c) zone")
  case (Some fd)
  have "length (filter (\<lambda>e. fst e \<noteq> zone) (fc_list c)) < length (fc_list c)"
    using Some by (intro length_filter_less) (auto dest: map_of_SomeD)
  then have "take (unat (fc_max c)) (zone # removeAll zone (map fst (fc_list c))) = zone # removeAll zone (map fst (fc_list c))"
    if "fc_max c \<noteq> 0"
    using that assms(2) by (simp add: cache_bounded_def map_fst_filter [symmetric])
  then show ?thesis
    using cache_Get_hit(1) [OF assms(1) Some, of os filename d] cache_Get_hit(2) [OF assms(1) Some] assms(2,4)
      \<open>length (filter (\<lambda>e. fst e \<noteq> zone) (fc_list c)) < length (fc_list c)\<close>
    by (auto simp: lru_of_def lru_get_def lru_cut_def cache_bounded_def map_fst_filter)
next
  case None
  obtain fd d1 where op: "zo_open os filename (fc_flags c) d = (fd, d1)" by (metis prod.collapse)
  have ab: "removeAll zone (map fst (fc_list c)) = map fst (fc_list c)"
    using None by (intro removeAll_absent) (simp add: map_of_eq_None_iff)
  show ?thesis
  proof (cases "fd = - 1")
    case True
    then show ?thesis using cache_Get_fail [OF assms(1) None, of os filename d d1] op assms by simp
  next
    case False
    note g = cache_Get_miss [OF assms(1) None op False assms(4)]
    show ?thesis
    proof (cases "fc_max c = 0")
      case True
      then have "take (unat (fc_max c - 1)) (fc_list c) = fc_list c"
        using assms(3) by (simp add: unsigned_minus_1_eq_mask mask_eq_exp_minus_1)
      then show ?thesis using g True ab by (simp add: lru_of_def lru_get_def lru_cut_def cache_bounded_def)
    next
      case nz: False
      then obtain k where k: "unat (fc_max c) = Suc k" by (cases "unat (fc_max c)") (auto simp: unat_eq_0)
      then have "unat (fc_max c - 1) = k" using unat_pred [OF nz] by simp
      then show ?thesis
        using g nz ab k by (auto simp: lru_of_def lru_get_def lru_cut_def cache_bounded_def take_map)
    qed
  qed
qed

lemma cache_Put_lru:
  assumes "cache_ok c" "cache_bounded c"
  shows "cache_ok (snd (cache_Put zone c)) \<and> cache_bounded (snd (cache_Put zone c))
    \<and> lru_of (snd (cache_Put zone c)) = lru_put zone (lru_of c)"
  using cache_Put_ok [OF assms(1), of zone] assms(2) le_trans [OF length_filter_le, of "fc_list c" "unat (fc_max c)"]
  by (auto simp: lru_of_def lru_put_def cache_bounded_def map_fst_filter)

lemma cache_Resize_ok:
  assumes "cache_ok c"
  shows "cache_ok (fst (cache_Resize os m c d))
    \<and> fc_list (fst (cache_Resize os m c d)) = (if m < fc_max c then take (unat m) (fc_list c) else fc_list c)
    \<and> fc_max (fst (cache_Resize os m c d)) = m
    \<and> snd (cache_Resize os m c d)
      = release os (map snd (rev (if m < fc_max c then drop (unat m) (fc_list c) else []))) d"
  using cache_Prune_ok [OF assms, of os m d] assms
  by (auto simp: cache_Resize_def split_beta release_def cache_ok_def)

lemma cache_Resize_lru:
  assumes "cache_ok c" "cache_bounded c" "fc_max c \<noteq> 0"
  shows "cache_ok (fst (cache_Resize os m c d)) \<and> cache_bounded (fst (cache_Resize os m c d))
    \<and> lru_of (fst (cache_Resize os m c d)) = lru_resize m (lru_of c)"
  using cache_Resize_ok [OF assms(1), of os m d] assms(2,3)
  by (auto simp: lru_of_def lru_resize_def cache_bounded_def take_map word_less_nat_alt)

datatype cache_op = CGet u64 bytes | CPut u64 | CResize u32

fun cache_step :: "'d zonefs_os \<Rightarrow> cache_op \<Rightarrow> fd_cache \<Rightarrow> 'd \<Rightarrow> bool \<times> fd_cache \<times> 'd" where
  "cache_step os (CGet zone filename) c d =
     (let (f, c, d) = cache_Get os zone filename c d in (f \<noteq> None, c, d))"
| "cache_step os (CPut zone) c d = (let (dropped, c) = cache_Put zone c in (True, c, release os dropped d))"
| "cache_step os (CResize m) c d = (True, cache_Resize os m c d)"

fun lru_step :: "cache_op \<Rightarrow> lru \<Rightarrow> lru" where
  "lru_step (CGet zone filename) l = lru_get zone l"
| "lru_step (CPut zone) l = lru_put zone l"
| "lru_step (CResize m) l = lru_resize m l"

lemma cache_step_lru:
  assumes "cache_ok c" "cache_bounded c" "length (fc_list c) < 2 ^ 32" "fc_max c \<noteq> 0 \<or> (\<forall>m. op \<noteq> CResize m)"
    and "cache_step os op c d = (r, c', d')"
  shows "cache_ok c' \<and> cache_bounded c' \<and> lru_of c' = (if r then lru_step op (lru_of c) else lru_of c)"
proof (cases op)
  case (CGet zone filename)
  then show ?thesis
    using assms(5) cache_Get_lru [OF assms(1-3), of os zone filename d] by (auto split: prod.splits)
next
  case (CPut zone)
  then show ?thesis
    using assms(5) cache_Put_lru [OF assms(1,2), of zone] by (auto simp: split_beta)
next
  case (CResize m)
  then show ?thesis
    using assms(4,5) cache_Resize_lru [OF assms(1,2), of os m d] by auto
qed


lemma cache_Get_ok:
  assumes "cache_ok c" "cache_Get os zone filename c d = (f, c', d')"
  shows "cache_ok c' \<and> fc_max c' = fc_max c"
proof (cases "map_of (fc_list c) zone")
  case None
  obtain fd d1 where op: "zo_open os filename (fc_flags c) d = (fd, d1)" by (metis prod.collapse)
  show ?thesis
  proof (cases "fd = - 1")
    case True
    then show ?thesis using cache_Get_fail [OF assms(1) None, of os filename d d1] op assms by simp
  next
    case False
    then show ?thesis using cache_Get_miss [OF assms(1) None op False assms(2)] by simp
  qed
next
  case (Some fd)
  then show ?thesis
    using cache_Get_hit(1) [OF assms(1) Some, of os filename d] cache_Get_hit(2) [OF assms(1) Some] assms(2) by auto
qed

lemma cache_Get_bounded:
  assumes "cache_ok c" "cache_bounded c" "cache_Get os zone filename c d = (f, c', d')"
  shows "cache_bounded c'"
proof (cases "fc_max c = 0")
  case True
  then show ?thesis using cache_Get_ok [OF assms(1,3)] by (simp add: cache_bounded_def)
next
  case False
  then have "length (fc_list c) < 2 ^ 32"
    using assms(2) unat_lt [of "fc_max c"] by (simp add: cache_bounded_def)
  then show ?thesis using cache_Get_lru [OF assms(1,2) _ assms(3)] by simp
qed

end
