(* ===== verification/ZoneFs.thy ===== *)
theory ZoneFs
  imports FileCache
begin

text \<open>
  The backend for zones that the zonefs file system of the kernel shows as files
  (\<open>fs/zonefs_aquafs.h\<close>, \<open>.cc\<close>): \<open>ZoneFsBackend\<close>, on top of three caches of open files.

  What the backend relies on of the system calls is the locale \<open>zonefs_kernel\<close>: a file descriptor
  refers to the file it was opened on until it is closed, and the transfers behave as their manual
  pages say.  From it follows the contract \<open>zoned_device\<close> that every layer above uses.
\<close>

subsection \<open>\<open>ZoneFsBackend\<close>\<close>

record 'd zonefs =
  zf_mountpoint :: bytes
  zf_zone_zero_fd :: int
  zf_readonly :: bool
  zf_rd_fds :: fd_cache
  zf_direct_rd_fds :: fd_cache
  zf_wr_fds :: fd_cache
  zf_block_sz :: u32
  zf_zone_sz :: u64
  zf_nr_zones :: u32
  zf_sim_offline :: "u32 list"
  zf_os :: 'd

definition ZoneFsBackend :: "bytes \<Rightarrow> 'd \<Rightarrow> 'd zonefs" where
  "ZoneFsBackend mountpoint d = \<lparr> zf_mountpoint = mountpoint, zf_zone_zero_fd = - 1,
     zf_readonly = False, zf_rd_fds = ZoneFsFileCache fl_RDONLY,
     zf_direct_rd_fds = ZoneFsFileCache (fl_RDONLY OR fl_DIRECT),
     zf_wr_fds = ZoneFsFileCache (fl_WRONLY OR fl_DIRECT),
     zf_block_sz = 0, zf_zone_sz = 0, zf_nr_zones = 0, zf_sim_offline = [], zf_os = d \<rparr>"

text \<open>The destructor releases the lock on zone 0; the caches are destroyed after it.\<close>

definition zonefs_destroy :: "'d zonefs_os \<Rightarrow> 'd zonefs \<Rightarrow> 'd" where
  "zonefs_destroy os b =
     (let d = (if zf_zone_zero_fd b \<noteq> - 1 then zo_close os (zf_zone_zero_fd b) (zf_os b) else zf_os b) in
      release os (map snd (fc_list (zf_wr_fds b)) @ map snd (fc_list (zf_direct_rd_fds b))
        @ map snd (fc_list (zf_rd_fds b))) d)"

definition zf_ErrorToString :: "'d zonefs_os \<Rightarrow> int \<Rightarrow> bytes" where
  "zf_ErrorToString os err = (case zo_strerror os err of None \<Rightarrow> [] | Some s \<Rightarrow> s)"

definition zone_file :: "bytes \<Rightarrow> nat \<Rightarrow> bytes" where
  "zone_file mountpoint n = mountpoint @ str ''/seq/'' @ to_string n"

definition LBAToZoneFile :: "u64 \<Rightarrow> 'd zonefs \<Rightarrow> bytes" where
  "LBAToZoneFile zstart b = zone_file (zf_mountpoint b) (unat (zstart div zf_zone_sz b))"

definition LBAToZoneOffset :: "u64 \<Rightarrow> 'd zonefs \<Rightarrow> u64" where
  "LBAToZoneOffset pos b = pos - (pos div zf_zone_sz b) * zf_zone_sz b"

text \<open>The name after the last slash of the device mounted there; an entry whose device has no slash
  in its name is passed over.\<close>

fun backing_device :: "bytes \<Rightarrow> (bytes \<times> bytes) list \<Rightarrow> bytes" where
  "backing_device mountpoint [] = []"
| "backing_device mountpoint ((dir, fsname) # ms) =
     (if dir = mountpoint \<and> 47 \<in> set fsname then rev (takeWhile (\<lambda>c. c \<noteq> 47) (rev fsname))
      else backing_device mountpoint ms)"

definition GetBackingDevice :: "'d zonefs_os \<Rightarrow> bytes \<Rightarrow> 'd \<Rightarrow> bytes" where
  "GetBackingDevice os mountpoint d =
     (case zo_mounts os d of None \<Rightarrow> [] | Some ms \<Rightarrow> backing_device mountpoint ms)"

text \<open>\<open>sysfs >> val\<close> for an \<open>unsigned int\<close>: white space is skipped, and a file with nothing else
  leaves the value alone; then an optional sign and the digits up to the first other character.  No
  digits give 0, a number too large the largest value, a minus sign the negated value.\<close>

definition is_space :: "byte \<Rightarrow> bool" where
  "is_space c = (c = 32 \<or> 9 \<le> c \<and> c \<le> 13)"

definition is_digit :: "byte \<Rightarrow> bool" where
  "is_digit c = (48 \<le> c \<and> c \<le> 57)"

definition digits_value :: "bytes \<Rightarrow> nat" where
  "digits_value ds = foldl (\<lambda>v c. 10 * v + (unat c - 48)) 0 ds"

definition stream_unsigned :: "bytes \<Rightarrow> u32 \<Rightarrow> u32" where
  "stream_unsigned content val =
     (let s = dropWhile is_space content in
      if s = [] then val
      else let neg = (hd s = 45);
               ds = takeWhile is_digit (if hd s = 45 \<or> hd s = 43 then tl s else s);
               v = digits_value ds in
        if 2 ^ 32 \<le> int v then - 1
        else if neg then - of_nat v else of_nat v)"

definition GetSysFsValue :: "'d zonefs_os \<Rightarrow> bytes \<Rightarrow> bytes \<Rightarrow> 'd \<Rightarrow> u32" where
  "GetSysFsValue os dev_name field d =
     (case zo_sysfs os (str ''/sys/fs/zonefs/'' @ dev_name @ str ''/'' @ field) d of
        None \<Rightarrow> AQUAFS_ZONEFS_DEFAULT_MAX_LIMIT
      | Some content \<Rightarrow> stream_unsigned content AQUAFS_ZONEFS_DEFAULT_MAX_LIMIT)"

definition zonefs_open_error :: "'d zonefs_os \<Rightarrow> string \<Rightarrow> 'd \<Rightarrow> status" where
  "zonefs_open_error os what d =
     InvalidArgument (str ''Failed to '' @ str what @ str '': '' @ zf_ErrorToString os (zo_errno os d)) []"

text \<open>The part of \<open>Open\<close> after the geometry is known: the limits, and the size of the cache of files
  open for writing.\<close>

definition zonefs_limits :: "'d zonefs_os \<Rightarrow> 'd zonefs \<Rightarrow> u32 \<times> u32" where
  "zonefs_limits os b =
     (let backing_dev = GetBackingDevice os (zf_mountpoint b) (zf_os b) in
      if backing_dev \<noteq> []
      then (GetSysFsValue os backing_dev (str ''max_active_seq_files'') (zf_os b),
            GetSysFsValue os backing_dev (str ''max_wro_seq_files'') (zf_os b))
      else (AQUAFS_ZONEFS_DEFAULT_MAX_LIMIT, AQUAFS_ZONEFS_DEFAULT_MAX_LIMIT))"

definition zonefs_Open ::
  "'d zonefs_os \<Rightarrow> bool \<Rightarrow> bool \<Rightarrow> 'd zonefs \<Rightarrow> (status \<times> u32 \<times> u32) \<times> 'd zonefs" where
  "zonefs_Open os readonly exclusive b =
     (let (r, st) = zo_stat os (zf_mountpoint b @ str ''/seq'') (zf_os b) in
      if r = - 1
      then ((zonefs_open_error os ''access zonefs sequential zone directory'' (zf_os b), 0, 0), b)
      else let b = b\<lparr> zf_nr_zones := ucast (st_size st) \<rparr>;
               (fd, d) = zo_open os (zf_mountpoint b @ str ''/seq'' @ str ''/0'') fl_RDONLY (zf_os b);
               b = b\<lparr> zf_os := d \<rparr> in
        if fd < 0 then ((zonefs_open_error os ''open zonefs sequential zone 0'' d, 0, 0), b)
        else let (r, d) = zo_flock os fd (zf_os b); b = b\<lparr> zf_os := d \<rparr> in
          if r = - 1
          then let d = zo_close os fd d in
            ((zonefs_open_error os ''lock zonefs sequential zone 0'' d, 0, 0), b\<lparr> zf_os := d \<rparr>)
          else let (r, st) = zo_fstat os fd (zf_os b) in
            if r = - 1
            then let d = zo_close os fd d in
              ((zonefs_open_error os ''access zonefs sequential zone 0'' d, 0, 0), b\<lparr> zf_os := d \<rparr>)
            else let b = b\<lparr> zf_zone_sz := st_blocks st * 512, zf_block_sz := ucast (st_blksize st),
                            zf_zone_zero_fd := fd \<rparr>;
                     (max_active, max_open) = zonefs_limits os b;
                     (c, d) = cache_Resize os max_active (zf_wr_fds b) (zf_os b) in
              ((OK, max_active, max_open), b\<lparr> zf_wr_fds := c, zf_os := d, zf_readonly := readonly \<rparr>))"

text \<open>The zone list of this backend is an array of \<open>struct stat\<close>, the whole of it or nothing.\<close>

fun stat_zones :: "'d zonefs_os \<Rightarrow> bytes \<Rightarrow> nat list \<Rightarrow> 'd \<Rightarrow> file_stat list option" where
  "stat_zones os mountpoint [] d = Some []"
| "stat_zones os mountpoint (i # is) d =
     (let (r, st) = zo_stat os (zone_file mountpoint i) d in
      if r < 0 then None
      else case stat_zones os mountpoint is d of None \<Rightarrow> None | Some zs \<Rightarrow> Some (st # zs))"

definition zonefs_ListZones :: "'d zonefs_os \<Rightarrow> 'd zonefs \<Rightarrow> file_stat list option" where
  "zonefs_ListZones os b = stat_zones os (zf_mountpoint b) [0..<unat (zf_nr_zones b)] (zf_os b)"

definition PutZoneFile :: "u64 \<Rightarrow> u32 \<Rightarrow> 'd zonefs \<Rightarrow> int list \<times> 'd zonefs" where
  "PutZoneFile zstart flags b =
     (let zone_nr = zstart div zf_zone_sz b in
      if flags AND fl_WRONLY \<noteq> 0
      then let (dropped, c) = cache_Put zone_nr (zf_wr_fds b) in (dropped, b\<lparr> zf_wr_fds := c \<rparr>)
      else ([], b))"

text \<open>\<open>PutZoneFile\<close> called while no copy of the descriptor is held.\<close>

definition close_zone_file :: "'d zonefs_os \<Rightarrow> u64 \<Rightarrow> 'd zonefs \<Rightarrow> 'd zonefs" where
  "close_zone_file os zstart b =
     (let (dropped, b) = PutZoneFile zstart fl_WRONLY b in b\<lparr> zf_os := release os dropped (zf_os b) \<rparr>)"

definition AQUAFS_ZONEFS_ZONE_OFFLINE :: "u32 \<Rightarrow> bool" where
  "AQUAFS_ZONEFS_ZONE_OFFLINE mode = (mode AND 0x1B6 = 0)"

definition zonefs_Reset ::
  "'d zonefs_os \<Rightarrow> u64 \<Rightarrow> 'd zonefs \<Rightarrow> (status \<times> bool \<times> u64) \<times> 'd zonefs" where
  "zonefs_Reset os zstart b =
     (let filename = LBAToZoneFile zstart b;
          (r, d) = zo_truncate os filename 0 (zf_os b); b = b\<lparr> zf_os := d \<rparr> in
      if r \<noteq> 0
      then ((IOError (str ''Zone reset failed: '' @ zf_ErrorToString os (zo_errno os d)) [], False, 0), b)
      else let b = close_zone_file os zstart b; (r, st) = zo_stat os filename (zf_os b) in
        if r < 0
        then ((InvalidArgument (str ''Failed to access zonefs sequential zone '' @ filename @ str '': ''
                @ zf_ErrorToString os (zo_errno os (zf_os b))) [], False, 0), b)
        else if AQUAFS_ZONEFS_ZONE_OFFLINE (st_mode st) then ((OK, True, 0), b)
        else ((OK, False, zf_zone_sz b), b))"

definition zonefs_Finish :: "'d zonefs_os \<Rightarrow> u64 \<Rightarrow> 'd zonefs \<Rightarrow> status \<times> 'd zonefs" where
  "zonefs_Finish os zstart b =
     (let (r, d) = zo_truncate os (LBAToZoneFile zstart b) (zf_zone_sz b) (zf_os b); b = b\<lparr> zf_os := d \<rparr> in
      if r \<noteq> 0 then (IOError (str ''Zone finish failed: '' @ zf_ErrorToString os (zo_errno os d)) [], b)
      else (OK, close_zone_file os zstart b))"

definition GetZoneFile ::
  "'d zonefs_os \<Rightarrow> u64 \<Rightarrow> u32 \<Rightarrow> 'd zonefs \<Rightarrow> int option \<times> 'd zonefs" where
  "GetZoneFile os zstart flags b =
     (let zone = zstart div zf_zone_sz b; filename = LBAToZoneFile zstart b in
      if flags AND fl_WRONLY \<noteq> 0
      then let (f, c, d) = cache_Get os zone filename (zf_wr_fds b) (zf_os b) in
        (f, b\<lparr> zf_wr_fds := c, zf_os := d \<rparr>)
      else if flags AND fl_DIRECT \<noteq> 0
      then let (f, c, d) = cache_Get os zone filename (zf_direct_rd_fds b) (zf_os b) in
        (f, b\<lparr> zf_direct_rd_fds := c, zf_os := d \<rparr>)
      else let (f, c, d) = cache_Get os zone filename (zf_rd_fds b) (zf_os b) in
        (f, b\<lparr> zf_rd_fds := c, zf_os := d \<rparr>))"

definition zonefs_Close :: "'d zonefs_os \<Rightarrow> u64 \<Rightarrow> 'd zonefs \<Rightarrow> status \<times> 'd zonefs" where
  "zonefs_Close os zstart b = (OK, close_zone_file os zstart b)"

definition zonefs_InvalidateCache ::
  "'d zonefs_os \<Rightarrow> u64 \<Rightarrow> u64 \<Rightarrow> 'd zonefs \<Rightarrow> int \<times> 'd zonefs" where
  "zonefs_InvalidateCache os pos sz b =
     (case GetZoneFile os pos fl_RDONLY b of
        (None, b) \<Rightarrow> (- 22, b)
      | (Some fd, b') \<Rightarrow>
          let (r, d) = zo_fadvise os fd (LBAToZoneOffset pos b) sz (zf_os b') in (r, b'\<lparr> zf_os := d \<rparr>))"

text \<open>
  The transfer loops.  A transfer longer than asked for, which \<open>pread\<close> and \<open>pwrite\<close> exclude, would
  take the count below zero; the loops end there, so that they are total functions.  A request of
  2 GiB or more makes the count negative from the zstart: the system call is then asked for the
  \<open>size_t\<close> of that negative number.
\<close>

function zonefs_read_loop ::
  "'d zonefs_os \<Rightarrow> int \<Rightarrow> int \<Rightarrow> u64 \<Rightarrow> int \<Rightarrow> bytes \<Rightarrow> 'd \<Rightarrow> (int \<times> bytes) \<times> 'd" where
  "zonefs_read_loop os fd read_from_zone offset rd buf d =
     (if read_from_zone = 0 then ((rd, buf), d)
      else let ((n, bs), d) = zo_pread os fd (word_of_int read_from_zone) offset d; ret = to_int32 n in
        if ret > 0
        then if ret \<le> read_from_zone
             then zonefs_read_loop os fd (read_from_zone - ret) (offset + word_of_int ret) (rd + ret) (buf @ bs) d
             else ((rd + ret, buf @ bs), d)
        else ((if ret < 0 then ret else rd, buf), d))"
  by pat_completeness auto
termination
  by (relation "measure (\<lambda>(os, fd, n, offset, rd, buf, d). nat n)") auto

declare zonefs_read_loop.simps [simp del]

definition zonefs_Read ::
  "'d zonefs_os \<Rightarrow> int \<Rightarrow> u64 \<Rightarrow> bool \<Rightarrow> 'd zonefs \<Rightarrow> (int \<times> bytes) \<times> 'd zonefs" where
  "zonefs_Read os sz pos direct b =
     (let flags = (if direct then fl_RDONLY OR fl_DIRECT else fl_RDONLY);
          offset = LBAToZoneOffset pos b;
          read_from_zone = to_int32 (uint (min (word_of_int sz) (zf_zone_sz b - offset))) in
      case GetZoneFile os pos flags b of
        (None, b) \<Rightarrow> ((- 1, []), b)
      | (Some fd, b) \<Rightarrow>
          let (r, d) = zonefs_read_loop os fd read_from_zone offset 0 [] (zf_os b) in (r, b\<lparr> zf_os := d \<rparr>))"

text \<open>The write loop drops the zone's descriptor from the cache when the zone is full; \<open>Write\<close> still
  holds a copy, so that the descriptor is closed when \<open>Write\<close> returns.\<close>

function zonefs_write_loop ::
  "'d zonefs_os \<Rightarrow> int \<Rightarrow> u64 \<Rightarrow> int \<Rightarrow> bytes \<Rightarrow> u64 \<Rightarrow> int \<Rightarrow> int list \<Rightarrow> 'd zonefs
     \<Rightarrow> int \<times> int list \<times> 'd zonefs" where
  "zonefs_write_loop os fd pos write_to_zone data offset written dropped b =
     (if write_to_zone = 0 then (written, dropped, b)
      else let (n, d) = zo_pwrite os fd data (word_of_int write_to_zone) offset (zf_os b);
               b = b\<lparr> zf_os := d \<rparr>; ret = to_int32 n in
        if ret > 0
        then let offset = offset + word_of_int ret;
                 (closed, b) = (if offset = zf_zone_sz b then PutZoneFile pos fl_WRONLY b else ([], b)) in
             if ret \<le> write_to_zone
             then zonefs_write_loop os fd pos (write_to_zone - ret) (drop (nat ret) data) offset
                    (written + ret) (dropped @ closed) b
             else (written + ret, dropped @ closed, b)
        else (if ret < 0 then ret else written, dropped, b))"
  by pat_completeness auto
termination
  by (relation "measure (\<lambda>(os, fd, pos, n, data, offset, written, dropped, b). nat n)") auto

declare zonefs_write_loop.simps [simp del]

definition zonefs_Write :: "'d zonefs_os \<Rightarrow> bytes \<Rightarrow> u64 \<Rightarrow> 'd zonefs \<Rightarrow> int \<times> 'd zonefs" where
  "zonefs_Write os data pos b =
     (let offset = LBAToZoneOffset pos b;
          write_to_zone = to_int32 (uint (min (ucast (of_nat (length data) :: u32)) (zf_zone_sz b - offset))) in
      if zf_readonly b then (- 1, b)
      else case GetZoneFile os pos (fl_WRONLY OR fl_DIRECT) b of
        (None, b) \<Rightarrow> (- 1, b)
      | (Some fd, b) \<Rightarrow>
          let (written, dropped, b) = zonefs_write_loop os fd pos write_to_zone data offset 0 [] b in
          (written, b\<lparr> zf_os := release os dropped (zf_os b) \<rparr>))"

definition zonefs_setZoneOffline ::
  "'d zonefs_os \<Rightarrow> u32 \<Rightarrow> u32 \<Rightarrow> bool \<Rightarrow> 'd zonefs \<Rightarrow> 'd zonefs" where
  "zonefs_setZoneOffline os idx idx2 offline b =
     (if offline
      then snd (zonefs_Close os (ucast idx * zf_zone_sz b)
             (b\<lparr> zf_sim_offline := List.insert idx (zf_sim_offline b) \<rparr>))
      else b\<lparr> zf_sim_offline := removeAll idx (zf_sim_offline b) \<rparr>)"

text \<open>The zone queries on the array of \<open>struct stat\<close>.\<close>

definition zonefs_ZoneIsOffline :: "file_stat list \<Rightarrow> nat \<Rightarrow> bool" where
  "zonefs_ZoneIsOffline zones idx = AQUAFS_ZONEFS_ZONE_OFFLINE (st_mode (zones ! idx))"

definition zonefs_ZoneIsWritable :: "file_stat list \<Rightarrow> nat \<Rightarrow> 'd zonefs \<Rightarrow> bool" where
  "zonefs_ZoneIsWritable zones idx b =
     (st_size (zones ! idx) < zf_zone_sz b \<and> st_mode (zones ! idx) AND 0x92 \<noteq> 0)"

definition zonefs_ZoneIsActive :: "file_stat list \<Rightarrow> nat \<Rightarrow> 'd zonefs \<Rightarrow> bool" where
  "zonefs_ZoneIsActive zones idx b =
     (0 <s st_size (zones ! idx) \<and> st_size (zones ! idx) < zf_zone_sz b)"

definition zonefs_ZoneStart :: "nat \<Rightarrow> 'd zonefs \<Rightarrow> u64" where
  "zonefs_ZoneStart idx b = of_nat idx * zf_zone_sz b"

definition zonefs_ZoneWp :: "file_stat list \<Rightarrow> nat \<Rightarrow> 'd zonefs \<Rightarrow> u64" where
  "zonefs_ZoneWp zones idx b = of_nat idx * zf_zone_sz b + st_size (zones ! idx)"

text \<open>
  \<open>ZoneList\<close> holds a \<open>void *\<close> that only the backend's own queries look into.  In the record of a
  backend it is a list of zone descriptors; an element of this backend's array travels in one, and
  \<open>zone_stat\<close> gives it back.
\<close>

definition stat_zone :: "file_stat \<Rightarrow> zbd_zone" where
  "stat_zone st = \<lparr> z_start = st_blocks st, z_len = st_blksize st, z_capacity = 0, z_wp = st_size st,
     z_flags = st_mode st, z_type = TYPE_SWR, z_cond = COND_NOT_WP \<rparr>"

definition zone_stat :: "zbd_zone \<Rightarrow> file_stat" where
  "zone_stat z = \<lparr> st_mode = z_flags z, st_size = z_wp z, st_blocks = z_start z, st_blksize = z_len z \<rparr>"

definition zonefs_backend :: "'d zonefs_os \<Rightarrow> 'd zonefs backend" where
  "zonefs_backend os = \<lparr> be_Open = zonefs_Open os,
     be_ListZones = (\<lambda>b. map_option (map stat_zone) (zonefs_ListZones os b)),
     be_Reset = zonefs_Reset os, be_Finish = zonefs_Finish os, be_Close = zonefs_Close os,
     be_Read = zonefs_Read os, be_Write = zonefs_Write os,
     be_InvalidateCache = zonefs_InvalidateCache os,
     be_ZoneIsSwr = (\<lambda>zones i b. True),
     be_ZoneIsOffline = (\<lambda>zones i b. zonefs_ZoneIsOffline (map zone_stat zones) i),
     be_ZoneIsWritable = (\<lambda>zones i b. zonefs_ZoneIsWritable (map zone_stat zones) i b),
     be_ZoneIsActive = (\<lambda>zones i b. zonefs_ZoneIsActive (map zone_stat zones) i b),
     be_ZoneIsOpen = (\<lambda>zones i b. False),
     be_ZoneStart = (\<lambda>zones i b. zonefs_ZoneStart i b),
     be_ZoneMaxCapacity = (\<lambda>zones i b. zf_zone_sz b),
     be_ZoneWp = (\<lambda>zones i b. zonefs_ZoneWp (map zone_stat zones) i b),
     be_GetFilename = zf_mountpoint, be_block_sz = zf_block_sz, be_zone_sz = zf_zone_sz,
     be_nr_zones = zf_nr_zones, be_IsRAIDEnabled = False,
     be_setZoneOffline = zonefs_setZoneOffline os,
     be_errno = (\<lambda>b. zo_errno os (zf_os b)), be_strerror = zf_ErrorToString os \<rparr>"

subsection \<open>Names of zone files\<close>

lemma digits_value_snoc: "digits_value (ds @ [c]) = 10 * digits_value ds + (unat c - 48)"
  by (simp add: digits_value_def)

lemma of_char_digit: "k < 10 \<Longrightarrow> (of_char (char_of (48 + k) :: char) :: byte) = of_nat (48 + k)"
proof -
  have "list_all (\<lambda>k. (of_char (char_of (48 + k) :: char) :: byte) = of_nat (48 + k)) [0..<10]"
    by code_simp
  then show "k < 10 \<Longrightarrow> ?thesis" by (simp add: list_all_iff del: of_nat_add)
qed

lemma to_string_less: "n < 10 \<Longrightarrow> to_string n = [of_nat (48 + n)]"
  using of_char_digit [of n] by (simp add: to_string_def str_def digits.simps [of n])

lemma to_string_step: "10 \<le> n \<Longrightarrow> to_string n = to_string (n div 10) @ [of_nat (48 + n mod 10)]"
  using of_char_digit [of "n mod 10"] by (simp add: to_string_def str_def digits.simps [of n])

lemma unat_digit: "k < 10 \<Longrightarrow> unat (of_nat (48 + k) :: byte) = 48 + k"
  by (rule unat_of_nat_small) simp

lemma digits_value_to_string: "digits_value (to_string n) = n"
proof (induction n rule: less_induct)
  case (less n)
  show ?case
  proof (cases "n < 10")
    case True
    then show ?thesis using unat_digit [of n] by (simp add: to_string_less digits_value_def)
  next
    case False
    then show ?thesis
      using less [of "n div 10"] unat_digit [of "n mod 10"] by (simp add: to_string_step digits_value_snoc)
  qed
qed

lemma to_string_digits: "c \<in> set (to_string n) \<Longrightarrow> is_digit c"
proof (induction n rule: less_induct)
  case (less n)
  have d: "is_digit (of_nat (48 + k))" if "k < 10" for k
    using unat_digit [OF that] that by (simp add: is_digit_def word_le_nat_alt)
  show ?case
  proof (cases "n < 10")
    case True
    then show ?thesis using less(2) d [of n] by (simp add: to_string_less)
  next
    case False
    then show ?thesis using less(1) [of "n div 10"] less(2) d [of "n mod 10"] by (auto simp: to_string_step)
  qed
qed

lemma to_string_Nil: "to_string n \<noteq> []"
  by (cases "n < 10") (simp_all add: to_string_less to_string_step)

lemma zone_file_inject [simp]: "zone_file mp m = zone_file mp n \<longleftrightarrow> m = n"
  by (metis digits_value_to_string same_append_eq zone_file_def)

text \<open>What sysfs shows of a number, the digits and a line feed, is read back.\<close>

lemma stream_unsigned_to_string:
  assumes "n < 2 ^ 32" "\<And>c cs. rest = c # cs \<Longrightarrow> \<not> is_digit c"
  shows "stream_unsigned (to_string n @ rest) val = of_nat n"
proof -
  obtain c cs where s: "to_string n = c # cs" using to_string_Nil by (cases "to_string n") auto
  then have c: "is_digit c" using to_string_digits [of c n] by simp
  then have ns: "\<not> is_space c" "c \<noteq> 45" "c \<noteq> 43"
    by (auto simp: is_digit_def is_space_def word_le_nat_alt)
  have "takeWhile is_digit (to_string n @ rest) = to_string n"
    using to_string_digits assms(2) by (cases rest) (auto simp: takeWhile_append)
  then show ?thesis
    using assms(1) s ns digits_value_to_string [of n] by (simp add: stream_unsigned_def)
qed


subsection \<open>What the backend relies on\<close>

text \<open>
  \<open>fcont\<close> is the byte at every offset of a file, 0 past its end; \<open>fdname\<close> is the file every open
  descriptor refers to.  As the manual pages state it: \<open>open\<close> returns -1 or a descriptor that was not
  open; \<open>close\<close> frees its descriptor; \<open>truncate\<close> changes one file, and no byte below the new
  length; a transfer is never longer than asked for nor than 0x7ffff000 bytes.
\<close>

locale zonefs_kernel =
  fixes os :: "'d zonefs_os"
    and fcont :: "'d \<Rightarrow> bytes \<Rightarrow> nat \<Rightarrow> byte"
    and fdname :: "'d \<Rightarrow> int \<rightharpoonup> bytes"
    and dinv :: "'d \<Rightarrow> bool"
  assumes open_ok: "dinv d \<Longrightarrow> zo_open os nm fl d = (fd, d') \<Longrightarrow> dinv d' \<and> fcont d' = fcont d
      \<and> (if fd = - 1 then fdname d' = fdname d
         else 0 \<le> fd \<and> fdname d fd = None \<and> fdname d' = (fdname d)(fd \<mapsto> nm))"
    and close_ok: "dinv d \<Longrightarrow> fdname d fd = Some nm \<Longrightarrow> dinv (zo_close os fd d)
      \<and> fcont (zo_close os fd d) = fcont d \<and> fdname (zo_close os fd d) = (fdname d)(fd := None)"
    and flock_ok: "dinv d \<Longrightarrow> zo_flock os fd d = (r, d') \<Longrightarrow> dinv d' \<and> fcont d' = fcont d \<and> fdname d' = fdname d"
    and fadvise_ok: "dinv d \<Longrightarrow> zo_fadvise os fd off len d = (r, d')
      \<Longrightarrow> dinv d' \<and> fcont d' = fcont d \<and> fdname d' = fdname d"
    and truncate_ok: "dinv d \<Longrightarrow> zo_truncate os nm len d = (r, d') \<Longrightarrow> dinv d' \<and> fdname d' = fdname d
      \<and> (\<forall>nm' a. nm' \<noteq> nm \<or> a < unat len \<longrightarrow> fcont d' nm' a = fcont d nm' a)"
    and pread_ok: "dinv d \<Longrightarrow> fdname d fd = Some nm \<Longrightarrow> zo_pread os fd n off d = ((r, bs), d')
      \<Longrightarrow> dinv d' \<and> fcont d' = fcont d \<and> fdname d' = fdname d \<and> - 1 \<le> r \<and> r \<le> min (uint n) 0x7ffff000
        \<and> (0 \<le> r \<longrightarrow> bs = map (\<lambda>i. fcont d nm (unat off + i)) [0..<nat r])"
    and pwrite_ok: "dinv d \<Longrightarrow> fdname d fd = Some nm \<Longrightarrow> unat n \<le> length data
      \<Longrightarrow> zo_pwrite os fd data n off d = (r, d')
      \<Longrightarrow> dinv d' \<and> fdname d' = fdname d \<and> - 1 \<le> r \<and> r \<le> min (uint n) 0x7ffff000
        \<and> (\<forall>nm' a. nm' \<noteq> nm \<or> a < unat off \<or> unat off + unat n \<le> a \<longrightarrow> fcont d' nm' a = fcont d nm' a)
        \<and> (\<forall>i. int i < r \<longrightarrow> fcont d' nm (unat off + i) = data ! i)"

text \<open>The descriptors the object holds, with the files they should refer to.\<close>

definition cache_handles :: "bytes \<Rightarrow> fd_cache \<Rightarrow> (int \<times> bytes) list" where
  "cache_handles mp c = map (\<lambda>(z, fd). (fd, zone_file mp (unat z))) (fc_list c)"

definition zf_handles :: "'d zonefs \<Rightarrow> (int \<times> bytes) list" where
  "zf_handles b = (if zf_zone_zero_fd b = - 1 then [] else [(zf_zone_zero_fd b, zone_file (zf_mountpoint b) 0)])
     @ cache_handles (zf_mountpoint b) (zf_rd_fds b) @ cache_handles (zf_mountpoint b) (zf_direct_rd_fds b)
     @ cache_handles (zf_mountpoint b) (zf_wr_fds b)"

definition zf_caches_ok :: "'d zonefs \<Rightarrow> bool" where
  "zf_caches_ok b = (cache_ok (zf_rd_fds b) \<and> cache_ok (zf_direct_rd_fds b) \<and> cache_ok (zf_wr_fds b))"

definition named :: "bytes \<Rightarrow> int list \<Rightarrow> (int \<times> bytes) list" where
  "named nm fds = map (\<lambda>fd. (fd, nm)) fds"

lemma named_simps [simp]: "named nm [] = []" "named nm (xs @ ys) = named nm xs @ named nm ys"
  "map fst (named nm fds) = fds"
  by (simp_all add: named_def comp_def)

lemma cache_Put_handles:
  assumes "cache_ok c" "cache_Put zone c = (dropped, c')"
  shows "mset (cache_handles mp c) = mset (named (zone_file mp (unat zone)) dropped @ cache_handles mp c')"
proof (cases "map_of (fc_list c) zone")
  case None
  then show ?thesis using assms by (auto simp: cache_Put_def cache_ok_def)
next
  case (Some fd)
  then have c': "dropped = [fd]" "fc_list c' = remove1 (zone, fd) (fc_list c)"
    using assms by (auto simp: cache_Put_def cache_ok_def)
  have "mset (fc_list c) = add_mset (zone, fd) (mset (fc_list c'))"
    using c'(2) Some by (simp add: map_of_SomeD)
  then show ?thesis by (simp add: c' cache_handles_def named_def del: mset_remove1)
qed

lemma handles_cut:
  "mset (cache_handles mp c) = mset (map (\<lambda>(z, fd). (fd, zone_file mp (unat z))) (rev (drop n (fc_list c))))
     + mset (map (\<lambda>(z, fd). (fd, zone_file mp (unat z))) (take n (fc_list c)))"
proof -
  have "mset (fc_list c) = mset (drop n (fc_list c)) + mset (take n (fc_list c))"
    by (metis append_take_drop_id mset_append add.commute)
  then show ?thesis by (simp add: cache_handles_def)
qed

lemma snd_handles: "map snd l = map fst (map (\<lambda>(z, fd). (fd, g z)) l)"
  by (induction l) auto

context zonefs_kernel
begin

definition owns :: "'d \<Rightarrow> (int \<times> bytes) list \<Rightarrow> bool" where
  "owns d hs = (dinv d \<and> distinct (map fst hs) \<and> fdname d = map_of hs \<and> (\<forall>fd\<in>set (map fst hs). 0 \<le> fd))"

lemma owns_perm:
  assumes "owns d hs" "mset hs = mset hs'"
  shows "owns d hs'"
proof -
  have d: "distinct (map fst hs')" using assms by (metis mset_map mset_eq_imp_distinct_iff owns_def)
  moreover have "set hs = set hs'" using assms(2) by (rule mset_eq_setD)
  moreover have "map_of hs' = map_of hs"
    using d assms \<open>set hs = set hs'\<close> by (metis map_of_inject_set owns_def)
  ultimately show ?thesis using assms(1) by (auto simp: owns_def)
qed

lemma owns_inv: "owns d hs \<Longrightarrow> dinv d" by (simp add: owns_def)

lemma owns_fdname: "owns d hs \<Longrightarrow> (fd, nm) \<in> set hs \<Longrightarrow> fdname d fd = Some nm"
  by (simp add: owns_def)

lemma owns_step: "owns d hs \<Longrightarrow> dinv d' \<Longrightarrow> fdname d' = fdname d \<Longrightarrow> owns d' hs"
  by (simp add: owns_def)

lemma owns_open:
  assumes "owns d hs" "zo_open os nm fl d = (fd, d')"
  shows "fcont d' = fcont d" "fd = - 1 \<Longrightarrow> owns d' hs" "fd \<noteq> - 1 \<Longrightarrow> owns d' ((fd, nm) # hs)"
  using open_ok [OF owns_inv [OF assms(1)] assms(2)] assms(1)
  by (auto simp: owns_def map_of_eq_None_iff)

lemma owns_close:
  assumes "owns d ((fd, nm) # hs)"
  shows "owns (zo_close os fd d) hs" "fcont (zo_close os fd d) = fcont d"
proof -
  have "map_of hs fd = None" using assms by (auto simp: owns_def map_of_eq_None_iff)
  then show "owns (zo_close os fd d) hs" "fcont (zo_close os fd d) = fcont d"
    using close_ok [OF owns_inv [OF assms] owns_fdname [OF assms, of fd nm]] assms
    by (auto simp: owns_def fun_eq_iff)
qed

lemma owns_release:
  "owns d (gone @ rest) \<Longrightarrow> owns (release os (map fst gone) d) rest
    \<and> fcont (release os (map fst gone) d) = fcont d"
proof (induction gone arbitrary: d)
  case (Cons g gone)
  then show ?case using owns_close [of d "fst g" "snd g" "gone @ rest"] by (simp add: release_def)
qed (simp add: release_def)

lemma cache_Get_owns:
  assumes "cache_ok c" "owns d (cache_handles mp c @ rest)"
    and "cache_Get os zone (zone_file mp (unat zone)) c d = (f, c', d')"
  shows "cache_ok c' \<and> owns d' (cache_handles mp c' @ rest) \<and> fcont d' = fcont d
    \<and> (\<forall>fd. f = Some fd \<longrightarrow> fdname d' fd = Some (zone_file mp (unat zone)))"
proof (cases "map_of (fc_list c) zone")
  case (Some fd)
  note h = cache_Get_hit(1) [OF assms(1) Some, of os "zone_file mp (unat zone)" d]
    and ok = cache_Get_hit(2) [OF assms(1) Some]
  let ?h = "\<lambda>(z, fd). (fd, zone_file mp (unat z))"
  have m: "mset (fc_list c) = add_mset (zone, fd) (mset (filter (\<lambda>e. fst e \<noteq> zone) (fc_list c)))"
    using remove1_node [of "fc_list c" zone fd] Some assms(1)
    by (metis cache_ok_def insert_DiffM map_of_SomeD mset_remove1 set_mset_mset)
  have "image_mset ?h (mset (fc_list c))
      = image_mset ?h (add_mset (zone, fd) (mset (filter (\<lambda>e. fst e \<noteq> zone) (fc_list c))))"
    by (simp only: m)
  then have "mset (cache_handles mp c') = mset (cache_handles mp c)"
    using h assms(3) by (auto simp: cache_handles_def)
  then have "owns d (cache_handles mp c' @ rest)" by (intro owns_perm [OF assms(2)]) simp
  moreover have "(fd, zone_file mp (unat zone)) \<in> set (cache_handles mp c' @ rest)"
    using h assms(3) by (auto simp: cache_handles_def)
  ultimately show ?thesis using h ok assms(3) owns_fdname by auto
next
  case None
  obtain fd d1 where op: "zo_open os (zone_file mp (unat zone)) (fc_flags c) d = (fd, d1)" by (metis prod.collapse)
  show ?thesis
  proof (cases "fd = - 1")
    case True
    then show ?thesis
      using cache_Get_fail [OF assms(1) None, of os "zone_file mp (unat zone)" d d1] op owns_open [OF assms(2) op] assms by simp
  next
    case False
    let ?n = "unat (fc_max c - 1)" and ?h = "\<lambda>(z, fd). (fd, zone_file mp (unat z))"
    note g = cache_Get_miss [OF assms(1) None op False assms(3)]
    have "owns d1 ((fd, zone_file mp (unat zone)) # cache_handles mp c @ rest)"
      using owns_open(3) [OF assms(2) op False] .
    then have "owns d1 (map ?h (rev (drop ?n (fc_list c))) @ cache_handles mp c' @ rest)"
      by (rule owns_perm) (simp add: handles_cut [of mp c ?n] g, simp add: cache_handles_def g)
    from owns_release [OF this]
    have o: "owns d' (cache_handles mp c' @ rest)" "fcont d' = fcont d1"
      using g by (simp_all add: snd_handles [of _ "\<lambda>z. zone_file mp (unat z)"])
    moreover have "(fd, zone_file mp (unat zone)) \<in> set (cache_handles mp c' @ rest)"
      using g by (simp add: cache_handles_def)
    ultimately show ?thesis
      using g owns_fdname owns_open(1) [OF assms(2) op] by auto
  qed
qed

end

subsection \<open>The operations\<close>

definition zf_sized :: "'d zonefs \<Rightarrow> bool" where
  "zf_sized b = (zf_zone_sz b \<noteq> 0 \<and> unat (zf_zone_sz b) < 2 ^ 31)"

text \<open>The parts of the object no operation after \<open>Open\<close> changes.\<close>

definition same_layout :: "'d zonefs \<Rightarrow> 'd zonefs \<Rightarrow> bool" where
  "same_layout b' b = (zf_mountpoint b' = zf_mountpoint b \<and> zf_zone_sz b' = zf_zone_sz b
     \<and> zf_block_sz b' = zf_block_sz b \<and> zf_nr_zones b' = zf_nr_zones b \<and> zf_readonly b' = zf_readonly b
     \<and> zf_zone_zero_fd b' = zf_zone_zero_fd b)"

lemma same_layout_refl [simp]: "same_layout b b"
  by (simp add: same_layout_def)

lemma same_layout_trans: "same_layout a b \<Longrightarrow> same_layout b c \<Longrightarrow> same_layout a c"
  by (simp add: same_layout_def)

lemma same_layout_os [simp]: "same_layout (b\<lparr> zf_os := d \<rparr>) c = same_layout b c"
  by (simp add: same_layout_def)

lemma PutZoneFile_geometry [simp]:
  "same_layout (snd (PutZoneFile pos flags b)) c = same_layout b c" "zf_os (snd (PutZoneFile pos flags b)) = zf_os b"
  by (auto simp: PutZoneFile_def same_layout_def Let_def split_beta)

lemma close_zone_file_geometry [simp]: "same_layout (close_zone_file os pos b) c = same_layout b c"
  by (simp add: close_zone_file_def split_beta)

lemma GetZoneFile_geometry [simp]: "same_layout (snd (GetZoneFile os pos flags b)) c = same_layout b c"
  by (auto simp: GetZoneFile_def same_layout_def Let_def split_beta)

text \<open>The write loop changes the object only by the system calls and by dropping entries of the cache.\<close>

lemma write_loop_keeps:
  assumes os_step: "\<And>b d. P b \<Longrightarrow> P (b\<lparr> zf_os := d \<rparr>)"
    and put_step: "\<And>b pos. P b \<Longrightarrow> P (snd (PutZoneFile pos fl_WRONLY b))"
  shows "zonefs_write_loop os fd pos n data offset w dr b = (w', dr', b') \<Longrightarrow> P b \<Longrightarrow> P b'"
proof (induction os fd pos n data offset w dr b arbitrary: w' dr' b' rule: zonefs_write_loop.induct)
  case (1 os fd pos n data offset w dr b)
  obtain r d where pw: "zo_pwrite os fd data (word_of_int n) offset (zf_os b) = (r, d)" by (metis prod.collapse)
  obtain cl b1 where pz: "(if offset + word_of_int (to_int32 r) = zf_zone_sz (b\<lparr> zf_os := d \<rparr>)
      then PutZoneFile pos fl_WRONLY (b\<lparr> zf_os := d \<rparr>) else ([], b\<lparr> zf_os := d \<rparr>)) = (cl, b1)"
    by (metis prod.collapse)
  have d: "P (b\<lparr> zf_os := d \<rparr>)" by (rule os_step [OF 1(3)])
  have g: "P b1" using put_step [OF d, of pos] d pz by (auto split: if_splits)
  show ?case
  proof (cases "n = 0 \<or> to_int32 r \<le> 0 \<or> n < to_int32 r")
    case True
    then show ?thesis
      using 1(2,3) pw pz g d by (auto simp: zonefs_write_loop.simps [of os fd pos n] Let_def split: if_splits)
  next
    case False
    then have "zonefs_write_loop os fd pos (n - to_int32 r) (drop (nat (to_int32 r)) data)
        (offset + word_of_int (to_int32 r)) (w + to_int32 r) (dr @ cl) b1 = (w', dr', b')"
      using 1(2) pw pz by (simp add: zonefs_write_loop.simps [of os fd pos n] Let_def)
    from 1(1) [OF _ pw [symmetric] refl refl refl _ refl pz [symmetric] refl _ this g] False
    show ?thesis by auto
  qed
qed

lemma write_loop_geometry:
  assumes "zonefs_write_loop os fd pos n data offset w dr b = (w', dr', b')"
  shows "same_layout b' b"
  by (rule write_loop_keeps [where P = "\<lambda>b'. same_layout b' b", OF _ _ assms]) simp_all

lemma zonefs_Read_geometry: "same_layout (snd (zonefs_Read os n pos direct b)) b"
proof -
  let ?fl = "if direct then fl_RDONLY OR fl_DIRECT else fl_RDONLY"
  obtain f b' where g: "GetZoneFile os pos ?fl b = (f, b')" by (metis prod.collapse)
  then have "same_layout b' b" using GetZoneFile_geometry [of os pos ?fl b b] by simp
  then show ?thesis by (cases f) (simp_all add: zonefs_Read_def g Let_def split_beta)
qed

lemma zonefs_Write_geometry: "same_layout (snd (zonefs_Write os data pos b)) b"
proof -
  let ?n = "to_int32 (uint (min (ucast (of_nat (length data) :: u32)) (zf_zone_sz b - LBAToZoneOffset pos b)))"
  obtain f b' where g: "GetZoneFile os pos (fl_WRONLY OR fl_DIRECT) b = (f, b')" by (metis prod.collapse)
  then have s: "same_layout b' b" using GetZoneFile_geometry [of os pos "fl_WRONLY OR fl_DIRECT" b b] by simp
  show ?thesis
  proof (cases f)
    case (Some fd)
    obtain w dr b2 where "zonefs_write_loop os fd pos ?n data (LBAToZoneOffset pos b) 0 [] b' = (w, dr, b2)"
      by (metis prod.collapse)
    then show ?thesis
      using g s write_loop_geometry same_layout_trans by (fastforce simp: zonefs_Write_def Some Let_def)
  qed (use g s in \<open>simp add: zonefs_Write_def Let_def\<close>)
qed

lemma zonefs_zone_geometry:
  "same_layout (snd (zonefs_Reset os pos b)) b" "same_layout (snd (zonefs_Finish os pos b)) b"
  "same_layout (snd (zonefs_Close os pos b)) b"
  by (simp_all add: zonefs_Reset_def zonefs_Finish_def zonefs_Close_def Let_def split_beta)

lemmas zonefs_geometry = zonefs_Read_geometry zonefs_Write_geometry zonefs_zone_geometry

text \<open>Position, zone and offset.\<close>

lemma unat_LBAToZoneOffset:
  assumes "zf_zone_sz b \<noteq> 0"
  shows "unat (LBAToZoneOffset pos b) = unat pos mod unat (zf_zone_sz b)"
    "unat (LBAToZoneOffset pos b) < unat (zf_zone_sz b)"
proof -
  have "pos - pos div zf_zone_sz b * zf_zone_sz b = pos mod zf_zone_sz b"
    by (simp add: minus_div_mult_eq_mod)
  then show "unat (LBAToZoneOffset pos b) = unat pos mod unat (zf_zone_sz b)"
    by (simp add: LBAToZoneOffset_def unat_mod)
  then show "unat (LBAToZoneOffset pos b) < unat (zf_zone_sz b)"
    using assms by (simp add: unat_gt_0)
qed

lemma zone_of_range:
  fixes p z i :: nat
  assumes "p mod z + i < z"
  shows "(p + i) div z = p div z" "(p + i) mod z = p mod z + i"
proof -
  define q r where "q = p div z" and "r = p mod z"
  have p: "p = q * z + r" "r + i < z" using assms by (simp_all add: q_def r_def)
  then show "(p + i) div z = p div z" "(p + i) mod z = p mod z + i"
    by (simp_all add: add.assoc)
qed

lemma unat_add_int:
  assumes "0 \<le> k" "unat off + nat k < 2 ^ 64"
  shows "unat (off + word_of_int k :: u64) = unat off + nat k"
proof -
  have w: "(word_of_int k :: u64) = of_nat (nat k)" by (rule word_of_int_nat [OF assms(1)])
  have "unat (of_nat (nat k) :: u64) = nat k" using assms(2) by (intro unat_of_nat_small) simp
  then show ?thesis unfolding w using assms(2) by (subst unat_add_no_wrap) simp_all
qed

lemma transfer_loops_0 [simp]: "zonefs_read_loop os fd 0 off rd buf d = ((rd, buf), d)"
  "zonefs_write_loop os fd pos 0 data off w dr b = (w, dr, b)"
  by (simp_all add: zonefs_read_loop.simps zonefs_write_loop.simps)

lemma zf_os_simps [simp]: "zf_handles (b\<lparr> zf_os := d \<rparr>) = zf_handles b" "zf_caches_ok (b\<lparr> zf_os := d \<rparr>) = zf_caches_ok b"
  by (simp_all add: zf_handles_def zf_caches_ok_def)

context zonefs_kernel
begin

text \<open>The descriptors that are open are those the object holds and those of \<open>extra\<close>, each on its file.\<close>

definition held :: "(int \<times> bytes) list \<Rightarrow> 'd zonefs \<Rightarrow> bool" where
  "held extra b = (zf_caches_ok b \<and> owns (zf_os b) (extra @ zf_handles b))"

lemma held_owns: "held extra b \<Longrightarrow> owns (zf_os b) (extra @ zf_handles b)"
  by (simp add: held_def)

lemma held_os: "held extra b \<Longrightarrow> dinv d \<Longrightarrow> fdname d = fdname (zf_os b) \<Longrightarrow> held extra (b\<lparr> zf_os := d \<rparr>)"
  by (simp add: held_def owns_def)

lemma held_inv: "held extra b \<Longrightarrow> dinv (zf_os b)"
  using owns_inv [OF held_owns] .

lemma held_release:
  "held (named nm fds) b \<Longrightarrow> held [] (b\<lparr> zf_os := release os fds (zf_os b) \<rparr>)
    \<and> fcont (release os fds (zf_os b)) = fcont (zf_os b)"
  using owns_release [of "zf_os b" "named nm fds" "zf_handles b"] by (simp add: held_def)

lemma get_file_held:
  assumes "held [] b" "cache_ok c" "mset (zf_handles b) = mset (cache_handles (zf_mountpoint b) c @ rest)"
    and "cache_Get os (pos div zf_zone_sz b) (LBAToZoneFile pos b) c (zf_os b) = (f, c', d')"
    and "mset (zf_handles b') = mset (cache_handles (zf_mountpoint b) c' @ rest)"
  shows "cache_ok c' \<and> owns d' (zf_handles b') \<and> fcont d' = fcont (zf_os b)
    \<and> (\<forall>fd. f = Some fd \<longrightarrow> fdname d' fd = Some (LBAToZoneFile pos b))"
proof -
  have o: "owns (zf_os b) (cache_handles (zf_mountpoint b) c @ rest)"
    using owns_perm [OF held_owns [OF assms(1)]] assms(3) by simp
  note h = cache_Get_owns [OF assms(2) o assms(4) [unfolded LBAToZoneFile_def]]
  then have "owns d' (zf_handles b')" by (intro owns_perm [OF _ assms(5) [symmetric]]) simp
  then show ?thesis using h by (simp add: LBAToZoneFile_def)
qed

lemma GetZoneFile_held:
  assumes "held [] b" "GetZoneFile os pos flags b = (f, b')"
  shows "held [] b' \<and> fcont (zf_os b') = fcont (zf_os b)
    \<and> (\<forall>fd. f = Some fd \<longrightarrow> fdname (zf_os b') fd = Some (LBAToZoneFile pos b))"
proof -
  let ?mp = "zf_mountpoint b" and ?get = "cache_Get os (pos div zf_zone_sz b) (LBAToZoneFile pos b)"
  let ?zero = "if zf_zone_zero_fd b = - 1 then [] else [(zf_zone_zero_fd b, zone_file ?mp 0)]"
  have ok: "cache_ok (zf_rd_fds b)" "cache_ok (zf_direct_rd_fds b)" "cache_ok (zf_wr_fds b)"
    using assms(1) by (simp_all add: held_def zf_caches_ok_def)
  consider (w) c d where "?get (zf_wr_fds b) (zf_os b) = (f, c, d)" "b' = b\<lparr> zf_wr_fds := c, zf_os := d \<rparr>"
    | (d) c d where "?get (zf_direct_rd_fds b) (zf_os b) = (f, c, d)" "b' = b\<lparr> zf_direct_rd_fds := c, zf_os := d \<rparr>"
    | (r) c d where "?get (zf_rd_fds b) (zf_os b) = (f, c, d)" "b' = b\<lparr> zf_rd_fds := c, zf_os := d \<rparr>"
    using assms(2) by (auto simp: GetZoneFile_def Let_def split: prod.splits if_splits)
  then show ?thesis
  proof cases
    case w
    from get_file_held [OF assms(1) ok(3) _ w(1), of "?zero @ cache_handles ?mp (zf_rd_fds b)
        @ cache_handles ?mp (zf_direct_rd_fds b)" b'] ok w
    show ?thesis by (simp add: held_def zf_caches_ok_def zf_handles_def)
  next
    case d
    from get_file_held [OF assms(1) ok(2) _ d(1), of "?zero @ cache_handles ?mp (zf_rd_fds b)
        @ cache_handles ?mp (zf_wr_fds b)" b'] ok d
    show ?thesis by (simp add: held_def zf_caches_ok_def zf_handles_def)
  next
    case r
    from get_file_held [OF assms(1) ok(1) _ r(1), of "?zero @ cache_handles ?mp (zf_direct_rd_fds b)
        @ cache_handles ?mp (zf_wr_fds b)" b'] ok r
    show ?thesis by (simp add: held_def zf_caches_ok_def zf_handles_def)
  qed
qed

lemma PutZoneFile_held:
  assumes "held extra b" "PutZoneFile pos fl_WRONLY b = (dropped, b')"
  shows "held (extra @ named (LBAToZoneFile pos b) dropped) b'"
proof -
  let ?mp = "zf_mountpoint b" and ?z = "pos div zf_zone_sz b"
  obtain c where p: "cache_Put ?z (zf_wr_fds b) = (dropped, c)" and b': "b' = b\<lparr> zf_wr_fds := c \<rparr>"
    using assms(2) by (auto simp: PutZoneFile_def Let_def split: prod.splits)
  have ok: "cache_ok (zf_wr_fds b)" using assms(1) by (simp add: held_def zf_caches_ok_def)
  have "owns (zf_os b) ((extra @ named (LBAToZoneFile pos b) dropped) @ zf_handles b')"
    by (rule owns_perm [OF held_owns [OF assms(1)]])
      (simp add: b' zf_handles_def LBAToZoneFile_def cache_Put_handles [OF ok p])
  then show ?thesis
    using assms(1) cache_Put_ok(1) [OF ok, of ?z] p by (simp add: held_def zf_caches_ok_def b')
qed

lemma close_zone_file_held:
  assumes "held [] b"
  shows "held [] (close_zone_file os pos b)" "fcont (zf_os (close_zone_file os pos b)) = fcont (zf_os b)"
proof -
  obtain dropped b1 where p: "PutZoneFile pos fl_WRONLY b = (dropped, b1)" by (metis prod.collapse)
  then have "zf_os b1 = zf_os b" using PutZoneFile_geometry(2) [of pos fl_WRONLY b] by simp
  then show "held [] (close_zone_file os pos b)" "fcont (zf_os (close_zone_file os pos b)) = fcont (zf_os b)"
    using held_release [of "LBAToZoneFile pos b" dropped b1] PutZoneFile_held [OF assms p]
    by (simp_all add: close_zone_file_def p)
qed

lemma pread_int32:
  assumes "dinv d" "fdname d fd = Some nm" "zo_pread os fd n off d = ((r, bs), d')"
  shows "to_int32 r = r"
  using pread_ok [OF assms] by (intro to_int32_id) auto

lemma read_loop_ok:
  assumes "zonefs_read_loop os' fd n off rd buf d = ((r, bs), d')" "os' = os" "dinv d" "fdname d fd = Some nm"
    and "0 \<le> n" "n < 2 ^ 31" "unat off + nat n < 2 ^ 64" "0 \<le> rd"
  shows "dinv d' \<and> fcont d' = fcont d \<and> fdname d' = fdname d \<and> r \<le> rd + n
    \<and> (0 \<le> r \<longrightarrow> rd \<le> r \<and> bs = buf @ map (\<lambda>i. fcont d nm (unat off + i)) [0..<nat (r - rd)])"
  using assms
proof (induction os' fd n off rd buf d arbitrary: r bs d' rule: zonefs_read_loop.induct)
  case (1 os' fd n off rd buf d)
  note a = 1(2-)
  obtain k ks d1 where pr: "zo_pread os fd (word_of_int n) off d = ((k, ks), d1)" by (metis prod.collapse)
  note ok = pread_ok [OF a(3,4) pr]
  have k: "to_int32 k = k" by (rule pread_int32 [OF a(3,4) pr])
  have un: "uint (word_of_int n :: u64) = n" using a(5,6) by (simp add: word_of_int_inverse)
  consider "n = 0" | (stop) "n \<noteq> 0" "k \<le> 0" | (more) "n \<noteq> 0" "0 < k" by linarith
  then show ?case
  proof cases
    case 1
    then show ?thesis using a by simp
  next
    case stop
    then have "(r, bs) = (if k < 0 then k else rd, buf)" "d' = d1"
      using a(1,2) pr k by (simp_all add: zonefs_read_loop.simps [of os fd n] Let_def split: if_splits)
    then show ?thesis using ok stop a(5,8) by (auto split: if_splits)
  next
    case more
    then have False: "\<not> (n = 0 \<or> k \<le> 0)" by simp
    have kn: "k \<le> n" using ok un by simp
    have off: "unat (off + word_of_int k) = unat off + nat k"
      using kn False a(5-7) by (intro unat_add_int) simp_all
    have lp: "zonefs_read_loop os fd (n - k) (off + word_of_int k) (rd + k) (buf @ ks) d1 = ((r, bs), d')"
      using a(1,2) pr k kn False by (simp add: zonefs_read_loop.simps [of os fd n] Let_def)
    have ih: "dinv d' \<and> fcont d' = fcont d1 \<and> fdname d' = fdname d1 \<and> r \<le> rd + k + (n - k)
        \<and> (0 \<le> r \<longrightarrow> rd + k \<le> r
          \<and> bs = (buf @ ks) @ map (\<lambda>i. fcont d1 nm (unat (off + word_of_int k) + i)) [0..<nat (r - (rd + k))])"
      by (rule 1(1) [of "((k, ks), d1)" "(k, ks)" d1 k ks k])
        (use a pr k kn False ok lp off in \<open>simp_all add: nat_diff_distrib\<close>)
    have "map (\<lambda>i. fcont d nm (unat off + i)) [0..<nat (r - rd)]
        = map (\<lambda>i. fcont d nm (unat off + i)) [0..<nat k]
          @ map (\<lambda>i. fcont d nm (unat off + nat k + i)) [0..<nat (r - (rd + k))]" if "rd + k \<le> r"
    proof -
      have e: "nat (r - rd) = nat k + nat (r - (rd + k))" using that more(2) by linarith
      show ?thesis
        unfolding e by (rule nth_equalityI) (auto simp: nth_append)
    qed
    then show ?thesis using ih ok off False by auto
  qed
qed

end

lemma LBAToZoneFile_geometry: "same_layout b' b \<Longrightarrow> LBAToZoneFile pos b' = LBAToZoneFile pos b"
  by (simp add: LBAToZoneFile_def same_layout_def)

context zonefs_kernel
begin

lemma pwrite_int32:
  assumes "dinv d" "fdname d fd = Some nm" "unat n \<le> length data" "zo_pwrite os fd data n off d = (r, d')"
  shows "to_int32 r = r"
  using pwrite_ok [OF assms] by (intro to_int32_id) auto

text \<open>One turn of the write loop: the transfer, and the entry dropped when the zone is full.\<close>

lemma write_turn_held:
  assumes "held (named nm dr) b" "nm = LBAToZoneFile pos b" "dinv d" "fdname d = fdname (zf_os b)"
    and "(if off = zf_zone_sz (b\<lparr> zf_os := d \<rparr>) then PutZoneFile pos fl_WRONLY (b\<lparr> zf_os := d \<rparr>)
      else ([], b\<lparr> zf_os := d \<rparr>)) = (cl, b1)"
  shows "held (named nm (dr @ cl)) b1 \<and> zf_os b1 = d \<and> nm = LBAToZoneFile pos b1"
proof -
  have h: "held (named nm dr) (b\<lparr> zf_os := d \<rparr>)" by (rule held_os [OF assms(1,3,4)])
  show ?thesis
  proof (cases "off = zf_zone_sz b")
    case True
    then have p: "PutZoneFile pos fl_WRONLY (b\<lparr> zf_os := d \<rparr>) = (cl, b1)" using assms(5) by simp
    have "same_layout b1 b" "zf_os b1 = d"
      using PutZoneFile_geometry [of pos fl_WRONLY "b\<lparr> zf_os := d \<rparr>"] p
      by (simp_all del: PutZoneFile_geometry) 
    then show ?thesis
      using PutZoneFile_held [OF h p] assms(2) LBAToZoneFile_geometry [of b1 b pos]
      by (simp add: LBAToZoneFile_def)
  next
    case False
    then show ?thesis using h assms(2,5) by (auto simp: LBAToZoneFile_def)
  qed
qed

lemma write_loop_ok:
  assumes "zonefs_write_loop os' fd pos n data off w dr b = (w', dr', b')" "os' = os"
    and "held (named nm dr) b" "nm = LBAToZoneFile pos b" "fdname (zf_os b) fd = Some nm"
    and "0 \<le> n" "n < 2 ^ 31" "nat n \<le> length data" "unat off + nat n < 2 ^ 64" "0 \<le> w"
  shows "held (named nm dr') b' \<and> w' \<le> w + n
    \<and> (\<forall>nm' a. nm' \<noteq> nm \<or> a < unat off \<or> unat off + nat n \<le> a
        \<longrightarrow> fcont (zf_os b') nm' a = fcont (zf_os b) nm' a)
    \<and> (\<forall>i. int i < w' - w \<longrightarrow> fcont (zf_os b') nm (unat off + i) = data ! i)"
  using assms
proof (induction os' fd pos n data off w dr b arbitrary: w' dr' b' rule: zonefs_write_loop.induct)
  case (1 os' fd pos n data off w dr b)
  note a = 1(2-)
  obtain k d where pw: "zo_pwrite os fd data (word_of_int n) off (zf_os b) = (k, d)" by (metis prod.collapse)
  have un: "uint (word_of_int n :: u64) = n" using a(6,7) by (simp add: word_of_int_inverse)
  then have un2: "unat (word_of_int n :: u64) = nat n" by (metis nat_uint_eq)
  have n: "unat (word_of_int n :: u64) \<le> length data" using un2 a(8) by simp
  note ok = pwrite_ok [OF held_inv [OF a(3)] a(5) n pw]
  have k: "to_int32 k = k" by (rule pwrite_int32 [OF held_inv [OF a(3)] a(5) n pw])
  obtain cl b1 where pz: "(if off + word_of_int k = zf_zone_sz (b\<lparr> zf_os := d \<rparr>)
      then PutZoneFile pos fl_WRONLY (b\<lparr> zf_os := d \<rparr>) else ([], b\<lparr> zf_os := d \<rparr>)) = (cl, b1)"
    by (metis prod.collapse)
  have h1: "held (named nm (dr @ cl)) b1" "zf_os b1 = d" "nm = LBAToZoneFile pos b1"
    using write_turn_held [OF a(3,4) _ _ pz] ok by blast+
  consider "n = 0" | (stop) "n \<noteq> 0" "k \<le> 0" | (more) "n \<noteq> 0" "0 < k" by linarith
  then show ?case
  proof cases
    case 1
    then show ?thesis using a by simp
  next
    case stop
    then have "w' = (if k < 0 then k else w)" "dr' = dr" "b' = b\<lparr> zf_os := d \<rparr>"
      using a(1,2) pw k by (simp_all add: zonefs_write_loop.simps [of os fd pos n] Let_def split: if_splits)
    then show ?thesis using ok held_os [OF a(3)] a(6,10) un un2 stop by auto
  next
    case more
    have kn: "k \<le> n" using ok un by simp
    have off: "unat (off + word_of_int k) = unat off + nat k"
      using kn more a(6-9) by (intro unat_add_int) simp_all
    have lp: "zonefs_write_loop os fd pos (n - k) (drop (nat k) data) (off + word_of_int k) (w + k) (dr @ cl) b1
        = (w', dr', b')"
      using a(1,2) pw pz k kn more by (simp add: zonefs_write_loop.simps [of os fd pos n] Let_def)
    have ih: "held (named nm dr') b' \<and> w' \<le> w + k + (n - k)
        \<and> (\<forall>nm' a. nm' \<noteq> nm \<or> a < unat (off + word_of_int k) \<or> unat (off + word_of_int k) + nat (n - k) \<le> a
            \<longrightarrow> fcont (zf_os b') nm' a = fcont (zf_os b1) nm' a)
        \<and> (\<forall>i. int i < w' - (w + k)
            \<longrightarrow> fcont (zf_os b') nm (unat (off + word_of_int k) + i) = drop (nat k) data ! i)"
      by (rule 1(1) [of "(k, d)" k d "b\<lparr> zf_os := d \<rparr>" k "off + word_of_int k" "(cl, b1)" cl b1])
        (use a pw pz k kn more ok lp off h1 in \<open>simp_all add: nat_diff_distrib\<close>)
    have st: "fcont (zf_os b') nm (unat off + i) = data ! i" if i: "int i < w' - w" for i
    proof (cases "int i < k")
      case True
      then have "unat off + i < unat (off + word_of_int k)" using off by linarith
      then have "fcont (zf_os b') nm (unat off + i) = fcont (zf_os b1) nm (unat off + i)"
        using ih by blast
      then show ?thesis using ok True h1 by simp
    next
      case False
      then have ki: "nat k \<le> i" by linarith
      then have "int (i - nat k) < w' - (w + k)" using i more(2) by linarith
      then have "fcont (zf_os b') nm (unat (off + word_of_int k) + (i - nat k)) = drop (nat k) data ! (i - nat k)"
        using ih by blast
      moreover have "nat k \<le> length data" using kn a(8) by linarith
      ultimately show ?thesis using off ki by simp
    qed
    have "fcont (zf_os b') nm' x = fcont (zf_os b) nm' x"
      if "nm' \<noteq> nm \<or> x < unat off \<or> unat off + nat n \<le> x" for nm' x
    proof -
      have "fcont (zf_os b') nm' x = fcont (zf_os b1) nm' x"
        using ih that off kn more by (auto simp: nat_diff_distrib)
      then show ?thesis using ok that h1 un2 by auto
    qed
    then show ?thesis using ih st by auto
  qed
qed

end

lemma unat_word_of_int_le:
  assumes "0 \<le> n"
  shows "int (unat (word_of_int n :: u64)) \<le> n"
proof -
  have "uint (word_of_int n :: u64) \<le> n" using assms by (simp only: uint_word_of_int) (rule zmod_le_nonneg_dividend)
  then show ?thesis by (simp only: uint_nat)
qed

context zonefs_kernel
begin

definition zf_ok :: "'d zonefs \<Rightarrow> bool" where
  "zf_ok b = (held [] b \<and> zf_sized b)"

definition zf_cont :: "'d zonefs \<Rightarrow> nat \<Rightarrow> byte" where
  "zf_cont b a = fcont (zf_os b) (zone_file (zf_mountpoint b) (a div unat (zf_zone_sz b))) (a mod unat (zf_zone_sz b))"

lemma zf_cont_same: "same_layout b' b \<Longrightarrow> fcont (zf_os b') = fcont (zf_os b) \<Longrightarrow> zf_cont b' = zf_cont b"
  by (simp add: fun_eq_iff zf_cont_def same_layout_def)

lemma zf_sized_same: "same_layout b' b \<Longrightarrow> zf_sized b' = zf_sized b"
  by (simp add: zf_sized_def same_layout_def)

text \<open>The byte at an address of the range a transfer may reach.\<close>

lemma zf_cont_range:
  assumes "zf_sized b" "unat (LBAToZoneOffset pos b) + i < unat (zf_zone_sz b)"
  shows "zf_cont b (unat pos + i) = fcont (zf_os b) (LBAToZoneFile pos b) (unat (LBAToZoneOffset pos b) + i)"
  using assms zone_of_range [of "unat pos" "unat (zf_zone_sz b)" i] unat_LBAToZoneOffset [of b pos]
  by (simp add: zf_cont_def LBAToZoneFile_def zf_sized_def unat_div)

lemma transfer_count:
  assumes "zf_sized b"
  obtains k where "to_int32 (uint (min x (zf_zone_sz b - LBAToZoneOffset pos b))) = int k"
    and "k \<le> unat x" "unat (LBAToZoneOffset pos b) + k \<le> unat (zf_zone_sz b)"
    and "k < 2 ^ 31" "unat (LBAToZoneOffset pos b) + k < 2 ^ 64"
proof -
  let ?k = "unat (min x (zf_zone_sz b - LBAToZoneOffset pos b))"
  have o: "unat (LBAToZoneOffset pos b) < unat (zf_zone_sz b)" "unat (zf_zone_sz b) < 2 ^ 31"
    using assms unat_LBAToZoneOffset [of b pos] by (simp_all add: zf_sized_def)
  have "unat (zf_zone_sz b - LBAToZoneOffset pos b) = unat (zf_zone_sz b) - unat (LBAToZoneOffset pos b)"
    using o by (intro unat_sub_no_wrap) simp
  then have k: "?k \<le> unat x" "?k \<le> unat (zf_zone_sz b) - unat (LBAToZoneOffset pos b)"
    by (auto simp: min_def word_le_nat_alt)
  then have b: "?k < 2 ^ 31" using o by linarith
  have "to_int32 (int ?k) = int ?k" by (rule to_int32_nat [OF b])
  then have "to_int32 (uint (min x (zf_zone_sz b - LBAToZoneOffset pos b))) = int ?k"
    unfolding uint_nat .
  moreover have "unat (zf_zone_sz b) < 2 ^ 64" using unat_lt [of "zf_zone_sz b"] by simp
  ultimately show thesis by (intro that [of ?k]) (use k b o in linarith)+
qed

lemma zonefs_Read_ok:
  assumes "zf_ok b" "zonefs_Read os n pos direct b = ((r, bs), b')"
  shows "zf_ok b' \<and> zf_cont b' = zf_cont b \<and> (0 \<le> n \<longrightarrow> r \<le> n)
    \<and> (0 \<le> r \<longrightarrow> bs = map (\<lambda>i. zf_cont b (unat pos + i)) [0..<nat r])"
proof -
  let ?fl = "if direct then fl_RDONLY OR fl_DIRECT else fl_RDONLY"
  let ?o = "LBAToZoneOffset pos b"
  have sz: "zf_sized b" and h: "held [] b" using assms(1) by (simp_all add: zf_ok_def)
  obtain k where k: "to_int32 (uint (min (word_of_int n) (zf_zone_sz b - ?o))) = int k"
    "k \<le> unat (word_of_int n :: u64)" "unat ?o + k \<le> unat (zf_zone_sz b)" "k < 2 ^ 31" "unat ?o + k < 2 ^ 64"
    by (rule transfer_count [OF sz])
  have geo: "same_layout b' b" using zonefs_Read_geometry [of os n pos direct b] assms(2) by simp
  obtain f b1 where g: "GetZoneFile os pos ?fl b = (f, b1)" by (metis prod.collapse)
  note g1 = GetZoneFile_held [OF h g]
  show ?thesis
  proof (cases f)
    case None
    then have "r = - 1" "b' = b1" using assms(2) g by (simp_all add: zonefs_Read_def Let_def)
    then show ?thesis
      using g1 geo sz zf_sized_same [OF geo] zf_cont_same [OF geo] by (simp add: zf_ok_def)
  next
    case (Some fd)
    have fd: "fdname (zf_os b1) fd = Some (LBAToZoneFile pos b)" using g1 Some by blast
    obtain d where lp: "zonefs_read_loop os fd (int k) ?o 0 [] (zf_os b1) = ((r, bs), d)" and b': "b' = b1\<lparr> zf_os := d \<rparr>"
      using assms(2) g Some k(1) by (auto simp: zonefs_Read_def Let_def split: prod.splits)
    have "dinv d \<and> fcont d = fcont (zf_os b1) \<and> fdname d = fdname (zf_os b1) \<and> r \<le> 0 + int k
      \<and> (0 \<le> r \<longrightarrow> 0 \<le> r \<and> bs = [] @ map (\<lambda>i. fcont (zf_os b1) (LBAToZoneFile pos b) (unat ?o + i)) [0..<nat (r - 0)])"
      by (rule read_loop_ok [OF lp refl held_inv fd]) (use g1 k(4,5) in auto)
    then have l: "dinv d" "fcont d = fcont (zf_os b1)" "fdname d = fdname (zf_os b1)" "r \<le> int k"
      "0 \<le> r \<Longrightarrow> bs = map (\<lambda>i. fcont (zf_os b1) (LBAToZoneFile pos b) (unat ?o + i)) [0..<nat r]" by auto
    have "held [] b'" using held_os [OF _ l(1,3)] g1 b' by blast
    moreover have "zf_cont b' = zf_cont b" using zf_cont_same [OF geo] l(2) g1 b' by simp
    moreover have "r \<le> n" if "0 \<le> n"
      using l(4) k(2) unat_word_of_int_le [OF that] by linarith
    moreover have "zf_cont b (unat pos + i) = fcont (zf_os b1) (LBAToZoneFile pos b) (unat ?o + i)" if "int i < r" for i
      using zf_cont_range [OF sz, of pos i] that l(4) k(3) g1 by simp
    ultimately show ?thesis
      using l(5) sz zf_sized_same [OF geo] by (auto simp: zf_ok_def intro!: map_cong)
  qed
qed

end

context zonefs_kernel
begin

text \<open>An address whose byte lies in the zone file of \<open>pos\<close> at an offset of the transfer is an address of
  the request.\<close>

lemma zf_cont_outside:
  assumes sz: "zf_sized b" and geo: "same_layout b' b"
    and frame: "\<And>nm' x. x < unat (zf_zone_sz b) \<Longrightarrow> nm' \<noteq> LBAToZoneFile pos b \<or> x < unat (LBAToZoneOffset pos b)
      \<or> unat (LBAToZoneOffset pos b) + k \<le> x \<Longrightarrow> fcont (zf_os b') nm' x = fcont (zf_os b) nm' x"
    and a: "a < unat pos \<or> unat pos + k \<le> a"
  shows "zf_cont b' a = zf_cont b a"
proof -
  let ?z = "unat (zf_zone_sz b)" and ?mp = "zf_mountpoint b"
  have "zone_file ?mp (a div ?z) \<noteq> LBAToZoneFile pos b \<or> a mod ?z < unat (LBAToZoneOffset pos b)
      \<or> unat (LBAToZoneOffset pos b) + k \<le> a mod ?z"
  proof (cases "a div ?z = unat pos div ?z")
    case True
    have "a = unat pos div ?z * ?z + a mod ?z" using True by (metis div_mult_mod_eq)
    moreover have "unat pos = unat pos div ?z * ?z + unat pos mod ?z" by simp
    ultimately have "a mod ?z < unat pos mod ?z \<or> unat pos mod ?z + k \<le> a mod ?z" using a by linarith
    then show ?thesis using unat_LBAToZoneOffset(1) [of b pos] sz by (auto simp: zf_sized_def)
  next
    case False
    then show ?thesis by (simp add: LBAToZoneFile_def unat_div)
  qed
  moreover have "a mod ?z < ?z" using sz by (simp add: zf_sized_def unat_gt_0)
  ultimately show ?thesis using frame geo by (simp add: zf_cont_def same_layout_def)
qed

lemma zonefs_Write_ok:
  assumes "zf_ok b" "zonefs_Write os data pos b = (r, b')"
  shows "zf_ok b' \<and> r \<le> int (length data)
    \<and> (\<forall>a. a < unat pos \<or> unat pos + length data \<le> a \<longrightarrow> zf_cont b' a = zf_cont b a)
    \<and> (\<forall>i. int i < r \<longrightarrow> zf_cont b' (unat pos + i) = data ! i)"
proof -
  let ?o = "LBAToZoneOffset pos b" and ?fl = "fl_WRONLY OR fl_DIRECT" and ?nm = "LBAToZoneFile pos b"
  have sz: "zf_sized b" and h: "held [] b" using assms(1) by (simp_all add: zf_ok_def)
  obtain k where k: "to_int32 (uint (min (ucast (of_nat (length data) :: u32)) (zf_zone_sz b - ?o))) = int k"
    "k \<le> unat (ucast (of_nat (length data) :: u32) :: u64)" "unat ?o + k \<le> unat (zf_zone_sz b)"
    "k < 2 ^ 31" "unat ?o + k < 2 ^ 64"
    by (rule transfer_count [OF sz])
  have kd: "k \<le> length data"
    by (rule le_trans [OF k(2)]) (simp only: unat_ucast_u64 unat_of_nat mod_less_eq_dividend)
  have geo: "same_layout b' b" using zonefs_Write_geometry [of os data pos b] assms(2) by simp
  obtain f b1 where g: "GetZoneFile os pos ?fl b = (f, b1)" by (metis prod.collapse)
  note g1 = GetZoneFile_held [OF h g]
  note wr = assms(2) [unfolded zonefs_Write_def Let_def g k(1)]
  have geo1: "same_layout b1 b" using GetZoneFile_geometry [of os pos ?fl b b] unfolding g by simp
  show ?thesis
  proof (cases "zf_readonly b \<or> f = None")
    case True
    then have "r = - 1" "b' = b \<or> b' = b1" using wr by (auto split: if_splits)
    then show ?thesis
      using g1 geo h sz zf_sized_same [OF geo] zf_cont_same [OF geo] by (auto simp: zf_ok_def)
  next
    case False
    then obtain fd where f: "f = Some fd" by auto
    then have fd: "fdname (zf_os b1) fd = Some ?nm" using g1 by blast
    obtain dr b2 where lp: "zonefs_write_loop os fd pos (int k) data ?o 0 [] b1 = (r, dr, b2)"
      and b': "b' = b2\<lparr> zf_os := release os dr (zf_os b2) \<rparr>"
      using wr f False by (auto split: prod.splits)
    have "held (named ?nm dr) b2 \<and> r \<le> 0 + int k
      \<and> (\<forall>nm' a. nm' \<noteq> ?nm \<or> a < unat ?o \<or> unat ?o + nat (int k) \<le> a
          \<longrightarrow> fcont (zf_os b2) nm' a = fcont (zf_os b1) nm' a)
      \<and> (\<forall>i. int i < r - 0 \<longrightarrow> fcont (zf_os b2) ?nm (unat ?o + i) = data ! i)"
      by (rule write_loop_ok [OF lp refl _ _ fd])
        (use g1 k(4,5) kd LBAToZoneFile_geometry [OF geo1] in auto)
    then have l: "held (named ?nm dr) b2" "r \<le> int k"
      "\<And>nm' a. nm' \<noteq> ?nm \<or> a < unat ?o \<or> unat ?o + k \<le> a \<Longrightarrow> fcont (zf_os b2) nm' a = fcont (zf_os b) nm' a"
      "\<And>i. int i < r \<Longrightarrow> fcont (zf_os b2) ?nm (unat ?o + i) = data ! i"
      using g1 by auto
    note rl = held_release [OF l(1)]
    have fc: "fcont (zf_os b') = fcont (zf_os b2)" using rl b' by simp
    have "zf_cont b' a = zf_cont b a" if "a < unat pos \<or> unat pos + length data \<le> a" for a
      by (rule zf_cont_outside [OF sz geo, of pos k]) (use l(3) fc that kd in auto)
    moreover have "zf_cont b' (unat pos + i) = data ! i" if "int i < r" for i
    proof -
      have "LBAToZoneOffset pos b' = ?o" "zf_zone_sz b' = zf_zone_sz b" "zf_sized b'"
        using geo sz by (simp_all add: LBAToZoneOffset_def same_layout_def zf_sized_def)
      then show ?thesis
        using zf_cont_range [of b' pos i] l(2,4) that k(3) fc LBAToZoneFile_geometry [OF geo, of pos] by simp
    qed
    ultimately show ?thesis
      using rl b' l(2) kd sz zf_sized_same [OF geo] by (auto simp: zf_ok_def)
  qed
qed

lemma zonefs_close_ok:
  assumes "zf_ok b"
  shows "zf_ok (close_zone_file os pos b)" "zf_cont (close_zone_file os pos b) = zf_cont b"
  using assms close_zone_file_held [of b pos] zf_sized_same [of "close_zone_file os pos b" b]
    zf_cont_same [of "close_zone_file os pos b" b] by (simp_all add: zf_ok_def)

lemma truncate_zf_ok:
  assumes "zf_ok b" "zo_truncate os nm len (zf_os b) = (r, d)"
  shows "zf_ok (b\<lparr> zf_os := d \<rparr>)"
  using truncate_ok [OF held_inv [of "[]" b] assms(2)] held_os [of "[]" b d] assms(1) by (auto simp: zf_ok_def zf_sized_def)

lemma zonefs_Finish_ok:
  assumes "zf_ok b"
  shows "zf_ok (snd (zonefs_Finish os pos b)) \<and> zf_cont (snd (zonefs_Finish os pos b)) = zf_cont b"
proof -
  obtain r d where t: "zo_truncate os (LBAToZoneFile pos b) (zf_zone_sz b) (zf_os b) = (r, d)" by (metis prod.collapse)
  have ok: "zf_ok (b\<lparr> zf_os := d \<rparr>)" by (rule truncate_zf_ok [OF assms t])
  have "0 < unat (zf_zone_sz b)" using assms by (simp add: zf_ok_def zf_sized_def unat_gt_0)
  then have "zf_cont (b\<lparr> zf_os := d \<rparr>) = zf_cont b"
    using truncate_ok [OF held_inv [of "[]" b] t] assms by (simp add: fun_eq_iff zf_cont_def zf_ok_def)
  then show ?thesis
    using ok zonefs_close_ok [OF ok, of pos] by (simp add: zonefs_Finish_def t Let_def)
qed

lemma zonefs_Reset_ok:
  assumes "zf_ok b"
  shows "zf_ok (snd (zonefs_Reset os pos b))
    \<and> unat (snd (snd (fst (zonefs_Reset os pos b)))) \<le> unat (zf_zone_sz b)
    \<and> (unat (zf_zone_sz b) dvd unat pos \<longrightarrow> a < unat pos \<or> unat pos + unat (zf_zone_sz b) \<le> a
        \<longrightarrow> zf_cont (snd (zonefs_Reset os pos b)) a = zf_cont b a)"
proof -
  obtain r d where t: "zo_truncate os (LBAToZoneFile pos b) 0 (zf_os b) = (r, d)" by (metis prod.collapse)
  let ?b = "b\<lparr> zf_os := d \<rparr>"
  have ok: "zf_ok ?b" by (rule truncate_zf_ok [OF assms t])
  have sz: "zf_sized b" using assms by (simp add: zf_ok_def)
  have "zf_cont ?b a = zf_cont b a" if "unat (zf_zone_sz b) dvd unat pos" "a < unat pos \<or> unat pos + unat (zf_zone_sz b) \<le> a"
  proof (rule zf_cont_outside [OF sz, of _ pos "unat (zf_zone_sz b)"])
    have off: "unat (LBAToZoneOffset pos b) = 0"
      using that(1) unat_LBAToZoneOffset(1) [of b pos] sz by (simp add: zf_sized_def)
    show "fcont (zf_os ?b) nm' x = fcont (zf_os b) nm' x"
      if "x < unat (zf_zone_sz b)" "nm' \<noteq> LBAToZoneFile pos b \<or> x < unat (LBAToZoneOffset pos b)
        \<or> unat (LBAToZoneOffset pos b) + unat (zf_zone_sz b) \<le> x" for nm' x
      using that off truncate_ok [OF held_inv [of "[]" b] t] assms by (auto simp: zf_ok_def)
  qed (use that in simp_all)
  moreover have "same_layout (close_zone_file os pos ?b) b" by simp
  ultimately show ?thesis
    using ok zonefs_close_ok [OF ok, of pos]
    by (auto simp: zonefs_Reset_def t Let_def same_layout_def split_beta)
qed

end

subsection \<open>ZoneFS is a zoned device\<close>

text \<open>On such a kernel the backend meets the contract of the layers above: its byte at an address is the
  byte of the zone's file at the offset in the zone.\<close>

sublocale zonefs_kernel \<subseteq> zoned: zoned_device "zonefs_backend os" zf_cont zf_ok
proof (unfold_locales, goal_cases)
  case (1 b data pos)
  then show ?case using zonefs_Write_ok [of b data pos] by (simp add: zonefs_backend_def prod_eq_iff)
next
  case (2 b data pos)
  then show ?case using zonefs_Write_ok [of b data pos] by (simp add: zonefs_backend_def prod_eq_iff)
next
  case (3 b pos data a)
  then show ?case using zonefs_Write_ok [of b data pos] by (auto simp: zonefs_backend_def prod_eq_iff)
next
  case (4 b pos data i)
  then show ?case using zonefs_Write_ok [of b data pos] by (simp add: zonefs_backend_def prod_eq_iff)
next
  case (5 b n pos direct)
  then show ?case using zonefs_Read_ok [of b n pos direct] by (simp add: zonefs_backend_def prod_eq_iff)
next
  case (6 b n pos direct)
  then show ?case using zonefs_Read_ok [of b n pos direct] by (simp add: zonefs_backend_def prod_eq_iff)
next
  case (7 b n pos direct)
  then show ?case using zonefs_Read_ok [of b n pos direct] by (simp add: zonefs_backend_def prod_eq_iff)
next
  case (8 b n pos direct)
  then show ?case using zonefs_Read_ok [of b n pos direct] by (simp add: zonefs_backend_def prod_eq_iff)
next
  case (9 b pos)
  then show ?case using zonefs_Reset_ok [of b pos] by (simp add: zonefs_backend_def)
next
  case (10 b pos a)
  then show ?case using zonefs_Reset_ok [of b pos a] by (simp add: zonefs_backend_def)
next
  case (11 b pos)
  then show ?case using zonefs_Reset_ok [of b pos] by (simp add: zonefs_backend_def)
next
  case (12 b pos)
  then show ?case using zonefs_Finish_ok [of b pos] by (simp add: zonefs_backend_def)
next
  case (13 b pos)
  then show ?case using zonefs_Finish_ok [of b pos] by (simp add: zonefs_backend_def)
next
  case (14 b pos)
  then show ?case using zonefs_close_ok(1) [of b pos] by (simp add: zonefs_backend_def zonefs_Close_def)
next
  case (15 b pos)
  then show ?case using zonefs_close_ok(2) [of b pos] by (simp add: zonefs_backend_def zonefs_Close_def)
qed (simp_all add: zonefs_backend_def zonefs_geometry [unfolded same_layout_def])

text \<open>The same, over the parameters: the byte at an address, and the states in which the open
  descriptors are exactly those the object holds, each on the file it stands for.\<close>

definition zonefs_cont :: "('d \<Rightarrow> bytes \<Rightarrow> nat \<Rightarrow> byte) \<Rightarrow> 'd zonefs \<Rightarrow> nat \<Rightarrow> byte" where
  "zonefs_cont fcont b a =
     fcont (zf_os b) (zone_file (zf_mountpoint b) (a div unat (zf_zone_sz b))) (a mod unat (zf_zone_sz b))"

definition fds_exact :: "('d \<Rightarrow> int \<rightharpoonup> bytes) \<Rightarrow> 'd zonefs \<Rightarrow> bool" where
  "fds_exact fdname b = (distinct (map fst (zf_handles b)) \<and> fdname (zf_os b) = map_of (zf_handles b)
     \<and> (\<forall>fd\<in>set (map fst (zf_handles b)). 0 \<le> fd))"

definition zonefs_inv :: "('d \<Rightarrow> int \<rightharpoonup> bytes) \<Rightarrow> ('d \<Rightarrow> bool) \<Rightarrow> 'd zonefs \<Rightarrow> bool" where
  "zonefs_inv fdname dinv b = (dinv (zf_os b) \<and> zf_caches_ok b \<and> fds_exact fdname b \<and> zf_sized b)"

context zonefs_kernel
begin

lemma zf_cont_eq: "zf_cont = zonefs_cont fcont"
  by (simp add: fun_eq_iff zf_cont_def zonefs_cont_def)

lemma held_eq: "held [] b \<longleftrightarrow> dinv (zf_os b) \<and> zf_caches_ok b \<and> fds_exact fdname b"
  by (auto simp: held_def owns_def fds_exact_def)

lemma zf_ok_eq: "zf_ok = zonefs_inv fdname dinv"
  by (auto simp: fun_eq_iff zf_ok_def held_eq zonefs_inv_def)

lemma zonefs_zoned_device: "zoned_device (zonefs_backend os) (zonefs_cont fcont) (zonefs_inv fdname dinv)"
  using zoned.zoned_device_axioms by (simp add: zf_cont_eq zf_ok_eq)

end

end
