(* ===== verification/ZoneFsSession.thy ===== *)
theory ZoneFsSession
  imports ZoneFs
begin

text \<open>
  The life of a ZoneFS backend: it is opened, serves requests in any order and is destroyed.  The
  lemmas show that the open descriptors are always exactly those the object holds.  A simulated
  kernel instantiates the parameter; the theorems on the backend and on its cache of open files
  stand at the end.
\<close>

subsection \<open>No descriptor is lost, and no zone too many is open for writing\<close>

text \<open>A life of the object: it is opened, serves requests in any order, and is destroyed.\<close>

datatype zf_request =
    ZRead int u64 bool | ZWrite bytes u64 | ZReset u64 | ZFinish u64 | ZClose u64
  | ZInvalidateCache u64 u64 | ZSetOffline u32 u32 bool

fun zf_serve :: "'d zonefs_os \<Rightarrow> zf_request \<Rightarrow> 'd zonefs \<Rightarrow> 'd zonefs" where
  "zf_serve os (ZRead n pos direct) b = snd (zonefs_Read os n pos direct b)"
| "zf_serve os (ZWrite data pos) b = snd (zonefs_Write os data pos b)"
| "zf_serve os (ZReset pos) b = snd (zonefs_Reset os pos b)"
| "zf_serve os (ZFinish pos) b = snd (zonefs_Finish os pos b)"
| "zf_serve os (ZClose pos) b = snd (zonefs_Close os pos b)"
| "zf_serve os (ZInvalidateCache pos sz) b = snd (zonefs_InvalidateCache os pos sz b)"
| "zf_serve os (ZSetOffline idx idx2 offline) b = zonefs_setZoneOffline os idx idx2 offline b"

text \<open>The cache of files open for writing never holds more than its limit.\<close>

definition wr_bounded :: "u32 \<Rightarrow> 'd zonefs \<Rightarrow> bool" where
  "wr_bounded m b = (cache_ok (zf_wr_fds b) \<and> cache_bounded (zf_wr_fds b) \<and> fc_max (zf_wr_fds b) = m)"

lemma wr_bounded_os [simp]: "wr_bounded m (b\<lparr> zf_os := d \<rparr>) = wr_bounded m b"
  by (simp add: wr_bounded_def)

lemma PutZoneFile_bounded [simp]: "wr_bounded m b \<Longrightarrow> wr_bounded m (snd (PutZoneFile pos flags b))"
  using cache_Put_lru [of "zf_wr_fds b" "pos div zf_zone_sz b"] cache_Put_ok(4) [of "zf_wr_fds b" "pos div zf_zone_sz b"]
  by (auto simp: wr_bounded_def PutZoneFile_def Let_def split_beta)

lemma close_zone_file_bounded [simp]: "wr_bounded m b \<Longrightarrow> wr_bounded m (close_zone_file os pos b)"
  by (simp add: close_zone_file_def split_beta)

lemma GetZoneFile_bounded:
  assumes "wr_bounded m b" "GetZoneFile os pos flags b = (f, b')"
  shows "wr_bounded m b'"
proof -
  obtain f' c d where g: "cache_Get os (pos div zf_zone_sz b) (LBAToZoneFile pos b) (zf_wr_fds b) (zf_os b) = (f', c, d)"
    by (metis prod.collapse)
  have "cache_ok (zf_wr_fds b)" "cache_bounded (zf_wr_fds b)" using assms(1) by (simp_all add: wr_bounded_def)
  then have "cache_ok c" "cache_bounded c" "fc_max c = fc_max (zf_wr_fds b)"
    using cache_Get_ok [OF _ g] cache_Get_bounded [OF _ _ g] by simp_all
  then show ?thesis
    using assms g by (auto simp: wr_bounded_def GetZoneFile_def Let_def split: if_splits prod.splits)
qed

lemma write_loop_bounded:
  assumes "zonefs_write_loop os fd pos n data offset w dr b = (w', dr', b')" "wr_bounded m b"
  shows "wr_bounded m b'"
  by (rule write_loop_keeps [where P = "wr_bounded m", OF _ _ assms]) simp_all

lemma zf_serve_bounded:
  assumes "wr_bounded m b"
  shows "wr_bounded m (zf_serve os r b)"
proof (cases r)
  case (ZRead n pos direct)
  obtain f b' where g: "GetZoneFile os pos (if direct then fl_RDONLY OR fl_DIRECT else fl_RDONLY) b = (f, b')"
    by (metis prod.collapse)
  then show ?thesis
    using GetZoneFile_bounded [OF assms g] by (cases f) (simp_all add: ZRead zonefs_Read_def Let_def split_beta)
next
  case (ZWrite data pos)
  let ?n = "to_int32 (uint (min (ucast (of_nat (length data) :: u32)) (zf_zone_sz b - LBAToZoneOffset pos b)))"
  obtain f b' where g: "GetZoneFile os pos (fl_WRONLY OR fl_DIRECT) b = (f, b')" by (metis prod.collapse)
  note b' = GetZoneFile_bounded [OF assms g]
  show ?thesis
  proof (cases f)
    case (Some fd)
    obtain w dr b2 where lp: "zonefs_write_loop os fd pos ?n data (LBAToZoneOffset pos b) 0 [] b' = (w, dr, b2)"
      by (metis prod.collapse)
    from write_loop_bounded [OF this b'] lp show ?thesis
      using assms unfolding ZWrite zf_serve.simps zonefs_Write_def Let_def g Some by simp
  qed (use b' assms in \<open>simp only: ZWrite zf_serve.simps zonefs_Write_def Let_def g, simp\<close>)
next
  case (ZInvalidateCache pos sz)
  obtain f b' where g: "GetZoneFile os pos fl_RDONLY b = (f, b')" by (metis prod.collapse)
  then show ?thesis
    using GetZoneFile_bounded [OF assms g]
    by (cases f) (simp_all add: ZInvalidateCache zonefs_InvalidateCache_def Let_def split_beta)
next
  case (ZSetOffline idx idx2 offline)
  have "wr_bounded m (b\<lparr> zf_sim_offline := l \<rparr>)" for l using assms by (simp add: wr_bounded_def)
  then show ?thesis by (simp add: ZSetOffline zonefs_setZoneOffline_def zonefs_Close_def)
qed (use assms in \<open>simp_all add: zonefs_Reset_def zonefs_Finish_def zonefs_Close_def Let_def split_beta\<close>)

lemma zf_field_simps [simp]:
  "zf_handles (b\<lparr> zf_nr_zones := n \<rparr>) = zf_handles b" "zf_caches_ok (b\<lparr> zf_nr_zones := n \<rparr>) = zf_caches_ok b"
  "zf_handles (b\<lparr> zf_sim_offline := l \<rparr>) = zf_handles b" "zf_caches_ok (b\<lparr> zf_sim_offline := l \<rparr>) = zf_caches_ok b"
  by (simp_all add: zf_handles_def zf_caches_ok_def)

context zonefs_kernel
begin

lemma zf_serve_held:
  assumes "zf_ok b"
  shows "zf_ok (zf_serve os r b)"
proof (cases r)
  case (ZRead n pos direct)
  then show ?thesis using zonefs_Read_ok [OF assms, of n pos direct] by (simp add: prod_eq_iff)
next
  case (ZWrite data pos)
  then show ?thesis using zonefs_Write_ok [OF assms, of data pos] by (simp add: prod_eq_iff)
next
  case (ZInvalidateCache pos sz)
  obtain f b' where g: "GetZoneFile os pos fl_RDONLY b = (f, b')" by (metis prod.collapse)
  have h: "held [] b'" using GetZoneFile_held [OF _ g] assms by (simp add: zf_ok_def)
  have "same_layout b' b" using GetZoneFile_geometry [of os pos fl_RDONLY b b] unfolding g by simp
  then have ok: "zf_ok b'" using h zf_sized_same [of b' b] assms by (simp add: zf_ok_def)
  have "zf_ok (b'\<lparr> zf_os := snd (zo_fadvise os fd off sz (zf_os b')) \<rparr>)" for fd off
    using fadvise_ok [OF held_inv [OF h], of fd off sz] held_os [OF h] ok
    by (simp add: zf_ok_def zf_sized_def prod_eq_iff)
  then show ?thesis
    using ok g by (cases f) (simp_all add: ZInvalidateCache zonefs_InvalidateCache_def Let_def split_beta)
next
  case (ZSetOffline idx idx2 offline)
  have "zf_ok (b\<lparr> zf_sim_offline := l \<rparr>)" for l
    using assms by (simp add: zf_ok_def zf_sized_def held_def)
  then show ?thesis
    using zonefs_close_ok(1) by (simp add: ZSetOffline zonefs_setZoneOffline_def zonefs_Close_def)
qed (use assms zonefs_Reset_ok zonefs_Finish_ok zonefs_close_ok in \<open>simp_all add: zonefs_Close_def\<close>)

lemma zf_served_held: "zf_ok b \<Longrightarrow> zf_ok (fold (zf_serve os) rs b)"
  by (induction rs arbitrary: b) (simp_all add: zf_serve_held)

lemma new_held: "dinv d \<Longrightarrow> fdname d = Map.empty \<Longrightarrow> held [] (ZoneFsBackend mp d)"
  by (simp add: held_def owns_def zf_caches_ok_def cache_ok_def zf_handles_def ZoneFsBackend_def
      cache_handles_def ZoneFsFileCache_def)

lemma zero_name: "mp @ str ''/seq'' @ str ''/0'' = zone_file mp 0"
  by (simp add: zone_file_def to_string_less str_def)

lemma cache_Resize_owns:
  assumes "cache_ok c" "owns d (cache_handles mp c @ rest)"
  shows "owns (snd (cache_Resize os m c d)) (cache_handles mp (fst (cache_Resize os m c d)) @ rest)"
proof (cases "m < fc_max c")
  case True
  note r = cache_Resize_ok [OF assms(1), of os m d]
  let ?h = "\<lambda>(z, fd). (fd, zone_file mp (unat z))"
  have "owns d (map ?h (rev (drop (unat m) (fc_list c))) @ cache_handles mp (fst (cache_Resize os m c d)) @ rest)"
    by (rule owns_perm [OF assms(2)]) (use r True in \<open>simp add: handles_cut [of mp c "unat m"]\<close>, simp add: cache_handles_def)
  from owns_release [OF this] show ?thesis
    using r True by (simp add: snd_handles [of _ "\<lambda>z. zone_file mp (unat z)"])
next
  case False
  then show ?thesis using assms by (simp add: cache_Resize_def cache_handles_def)
qed

text \<open>\<open>Open\<close> leaves the lock on zone 0 open when it succeeds, and nothing when it fails.\<close>

lemma zonefs_Open_held:
  assumes "held [] b" "zf_zone_zero_fd b = - 1"
  shows "held [] (snd (zonefs_Open os readonly exclusive b))"
proof -
  let ?mp = "zf_mountpoint b"
  obtain r1 st1 where s1: "zo_stat os (?mp @ str ''/seq'') (zf_os b) = (r1, st1)" by (metis prod.collapse)
  obtain fd d1 where op: "zo_open os (zone_file ?mp 0) fl_RDONLY (zf_os b) = (fd, d1)" by (metis prod.collapse)
  obtain r2 d2 where fl: "zo_flock os fd d1 = (r2, d2)" by (metis prod.collapse)
  obtain r3 st3 where s3: "zo_fstat os fd d2 = (r3, st3)" by (metis prod.collapse)
  note defs = zonefs_Open_def s1 op [folded zero_name] fl s3 Let_def prod.case
  let ?hs = "zf_handles b"
  have hs: "owns (zf_os b) ?hs" "zf_caches_ok b" using assms(1) by (simp_all add: held_def)
  have fd: "fd = - 1 \<or> 0 \<le> fd" using open_ok [OF owns_inv [OF hs(1)] op] by (auto split: if_splits)
  have nr: "held [] (b\<lparr> zf_nr_zones := n, zf_os := d \<rparr>)" if "owns d ?hs" for n d
    using that hs by (simp add: held_def)
  consider "r1 = - 1" | "r1 \<noteq> - 1" "fd = - 1" | (opened) "r1 \<noteq> - 1" "fd \<noteq> - 1" by blast
  then show ?thesis
  proof cases
    case 1
    then show ?thesis using assms(1) by (simp add: zonefs_Open_def s1)
  next
    case 2
    then show ?thesis using nr [OF owns_open(2) [OF hs(1) op]] by (simp add: defs)
  next
    case opened
    have o1: "owns d1 ((fd, zone_file ?mp 0) # ?hs)" by (rule owns_open(3) [OF hs(1) op opened(2)])
    have "dinv d2 \<and> fdname d2 = fdname d1" using flock_ok [OF owns_inv [OF o1] fl] by simp
    then have o2: "owns d2 ((fd, zone_file ?mp 0) # ?hs)" using owns_step [OF o1] by blast
    note cl = nr [OF owns_close(1) [OF o2]]
    show ?thesis
    proof (cases "r2 = - 1 \<or> r3 = - 1")
      case True
      then show ?thesis using cl opened fd by (auto simp: defs)
    next
      case False
      define b3 where "b3 = b\<lparr> zf_nr_zones := ucast (st_size st1), zf_os := d2, zf_zone_sz := st_blocks st3 * 512,
        zf_block_sz := ucast (st_blksize st3), zf_zone_zero_fd := fd \<rparr>"
      obtain m1 m2 where lim: "zonefs_limits os b3 = (m1, m2)" by (metis prod.collapse)
      let ?c = "cache_Resize os m1 (zf_wr_fds b) d2"
      have e: "snd (zonefs_Open os readonly exclusive b) = b3\<lparr> zf_wr_fds := fst ?c, zf_os := snd ?c, zf_readonly := readonly \<rparr>"
        using False opened fd lim by (simp add: defs b3_def split_beta)
      let ?rest = "(fd, zone_file ?mp 0) # cache_handles ?mp (zf_rd_fds b) @ cache_handles ?mp (zf_direct_rd_fds b)"
      have "owns d2 (cache_handles ?mp (zf_wr_fds b) @ ?rest)"
        by (rule owns_perm [OF o2]) (simp add: zf_handles_def assms(2))
      moreover have ok: "cache_ok (zf_wr_fds b)" using hs(2) by (simp add: zf_caches_ok_def)
      ultimately have "owns (snd ?c) (cache_handles ?mp (fst ?c) @ ?rest)" by (intro cache_Resize_owns)
      then have "owns (snd ?c) (zf_handles (b3\<lparr> zf_wr_fds := fst ?c, zf_os := snd ?c, zf_readonly := readonly \<rparr>))"
        by (rule owns_perm) (use opened in \<open>simp add: zf_handles_def b3_def\<close>)
      then show ?thesis
        unfolding e using hs(2) cache_Resize_ok [OF ok, of os m1 d2]
        by (simp add: held_def zf_caches_ok_def b3_def)
    qed
  qed
qed

lemma zonefs_destroy_closes:
  assumes "held [] b"
  shows "fdname (zonefs_destroy os b) = Map.empty" "fcont (zonefs_destroy os b) = fcont (zf_os b)"
proof -
  let ?mp = "zf_mountpoint b"
  let ?zero = "if zf_zone_zero_fd b = - 1 then [] else [(zf_zone_zero_fd b, zone_file ?mp 0)]"
  let ?l = "?zero @ cache_handles ?mp (zf_wr_fds b) @ cache_handles ?mp (zf_direct_rd_fds b) @ cache_handles ?mp (zf_rd_fds b)"
  have "owns (zf_os b) (?l @ [])"
    by (rule owns_perm [of _ "zf_handles b"]) (use assms in \<open>simp_all add: held_def zf_handles_def\<close>)
  from owns_release [OF this]
  have "owns (release os (map fst ?l) (zf_os b)) []" "fcont (release os (map fst ?l) (zf_os b)) = fcont (zf_os b)" by auto
  moreover have "zonefs_destroy os b = release os (map fst ?l) (zf_os b)"
    by (simp add: zonefs_destroy_def release_def Let_def cache_handles_def comp_def split_beta)
  ultimately show "fdname (zonefs_destroy os b) = Map.empty" "fcont (zonefs_destroy os b) = fcont (zf_os b)"
    by (simp_all add: owns_def)
qed

end

lemma zonefs_Open_bounded:
  assumes "zonefs_Open os readonly exclusive (ZoneFsBackend mp d) = ((s, m, m2), b)" "ok s"
  shows "wr_bounded m b"
proof -
  have c: "cache_ok (ZoneFsFileCache fl)" "fc_list (ZoneFsFileCache fl) = []" for fl
    by (rule cache_ok_new) (simp add: ZoneFsFileCache_def)
  have "cache_ok (fst (cache_Resize os m (ZoneFsFileCache fl) d)) \<and> cache_bounded (fst (cache_Resize os m (ZoneFsFileCache fl) d))
      \<and> fc_max (fst (cache_Resize os m (ZoneFsFileCache fl) d)) = m" for m fl d
    using cache_Resize_ok [OF c(1), of os m fl d] by (auto simp: cache_bounded_def c(2))
  then show ?thesis
    using assms
    by (auto simp: zonefs_Open_def zonefs_open_error_def ZoneFsBackend_def wr_bounded_def Let_def split_beta
        split: if_splits)
qed

lemma zf_served_bounded: "wr_bounded m b \<Longrightarrow> wr_bounded m (fold (zf_serve os) rs b)"
  by (induction rs arbitrary: b) (simp_all add: zf_serve_bounded)

subsection \<open>A simulated kernel\<close>

text \<open>
  An instance of the parameter: zone files that are written at their end only, with a limit on the
  length of one transfer, so that the loops of the backend have to go round.
\<close>

record simfs =
  sf_mount :: bytes
  sf_zones :: nat
  sf_zsize :: nat
  sf_chunk :: nat
  sf_files :: "(bytes \<times> bytes) list"
  sf_fds :: "(int \<times> bytes) list"
  sf_next :: int

definition sf_content :: "simfs \<Rightarrow> bytes \<Rightarrow> bytes" where
  "sf_content d nm = (case map_of (sf_files d) nm of None \<Rightarrow> [] | Some bs \<Rightarrow> bs)"

definition sf_byte :: "simfs \<Rightarrow> bytes \<Rightarrow> nat \<Rightarrow> byte" where
  "sf_byte d nm a = (if a < length (sf_content d nm) then sf_content d nm ! a else 0)"

definition sf_set :: "bytes \<Rightarrow> bytes \<Rightarrow> simfs \<Rightarrow> simfs" where
  "sf_set nm bs d = d\<lparr> sf_files := (nm, bs) # sf_files d \<rparr>"

definition sf_open :: "bytes \<Rightarrow> u32 \<Rightarrow> simfs \<Rightarrow> int \<times> simfs" where
  "sf_open nm fl d =
     (if list_ex (\<lambda>i. nm = zone_file (sf_mount d) i) [0..<sf_zones d]
      then (sf_next d, d\<lparr> sf_fds := (sf_next d, nm) # sf_fds d, sf_next := sf_next d + 1 \<rparr>)
      else (- 1, d))"

definition sf_pread :: "int \<Rightarrow> u64 \<Rightarrow> u64 \<Rightarrow> simfs \<Rightarrow> (int \<times> bytes) \<times> simfs" where
  "sf_pread fd n off d =
     (case map_of (sf_fds d) fd of
        None \<Rightarrow> ((- 1, []), d)
      | Some nm \<Rightarrow>
          let bs = take (min (sf_chunk d) (unat n)) (drop (unat off) (sf_content d nm)) in
          ((int (length bs), bs), d))"

definition sf_pwrite :: "int \<Rightarrow> bytes \<Rightarrow> u64 \<Rightarrow> u64 \<Rightarrow> simfs \<Rightarrow> int \<times> simfs" where
  "sf_pwrite fd data n off d =
     (case map_of (sf_fds d) fd of
        None \<Rightarrow> (- 1, d)
      | Some nm \<Rightarrow>
          let k = min (sf_chunk d) (unat n); bs = sf_content d nm in
          if unat off = length bs \<and> length bs + k \<le> sf_zsize d
          then (int k, sf_set nm (bs @ take k data) d) else (- 1, d))"

definition sf_truncate :: "bytes \<Rightarrow> u64 \<Rightarrow> simfs \<Rightarrow> int \<times> simfs" where
  "sf_truncate nm len d =
     (if unat len = 0 \<or> unat len = sf_zsize d
      then (0, sf_set nm (take (unat len) (sf_content d nm @ replicate (sf_zsize d) 0)) d) else (- 1, d))"

definition sf_stat :: "bytes \<Rightarrow> simfs \<Rightarrow> int \<times> file_stat" where
  "sf_stat nm d =
     (let st = \<lparr> st_mode = 0x1A0, st_size = of_nat (length (sf_content d nm)),
                 st_blocks = of_nat (sf_zsize d div 512), st_blksize = 512 \<rparr> in
      if nm = sf_mount d @ str ''/seq'' then (0, st\<lparr> st_size := of_nat (sf_zones d) \<rparr>)
      else (if list_ex (\<lambda>i. nm = zone_file (sf_mount d) i) [0..<sf_zones d] then 0 else - 1, st))"

definition sim_zonefs :: "simfs zonefs_os" where
  "sim_zonefs = \<lparr> zo_stat = sf_stat,
     zo_fstat = (\<lambda>fd d. case map_of (sf_fds d) fd of None \<Rightarrow> (- 1, snd (sf_stat [] d)) | Some nm \<Rightarrow> sf_stat nm d),
     zo_open = sf_open, zo_close = (\<lambda>fd d. d\<lparr> sf_fds := filter (\<lambda>e. fst e \<noteq> fd) (sf_fds d) \<rparr>),
     zo_flock = (\<lambda>fd d. (0, d)), zo_truncate = sf_truncate, zo_pread = sf_pread, zo_pwrite = sf_pwrite,
     zo_fadvise = (\<lambda>fd off len d. (0, d)),
     zo_mounts = (\<lambda>d. Some [(str ''/proc'', str ''proc''), (sf_mount d, str ''/dev/nvme0n1'')]),
     zo_sysfs = (\<lambda>path d. Some (str ''2'' @ [10])),
     zo_errno = (\<lambda>d. 5), zo_strerror = (\<lambda>e. Some (str ''Input/output error'')) \<rparr>"

definition sf_ok :: "simfs \<Rightarrow> bool" where
  "sf_ok d = (0 \<le> sf_next d \<and> (\<forall>e\<in>set (sf_fds d). fst e < sf_next d) \<and> sf_chunk d \<le> 0x7ffff000)"

lemma sf_content_set: "sf_content (sf_set nm bs d) nm' = (if nm' = nm then bs else sf_content d nm')"
  by (simp add: sf_content_def sf_set_def)

lemma sf_set_fields [simp]: "sf_fds (sf_set nm bs d) = sf_fds d" "sf_next (sf_set nm bs d) = sf_next d"
  "sf_chunk (sf_set nm bs d) = sf_chunk d"
  by (simp_all add: sf_set_def)

lemma sf_ok_set [simp]: "sf_ok (sf_set nm bs d) = sf_ok d"
  by (simp add: sf_ok_def)

lemma nat_le_uint: "k \<le> unat n \<Longrightarrow> int k \<le> uint n"
  by (metis of_nat_le_iff uint_nat)

interpretation zonefs_sim: zonefs_kernel sim_zonefs sf_byte "\<lambda>d. map_of (sf_fds d)" sf_ok
proof (unfold_locales, goal_cases)
  case (1 d nm fl fd d')
  then have "map_of (sf_fds d) (sf_next d) = None" by (auto simp: sf_ok_def map_of_eq_None_iff)
  with 1 show ?case
    by (force simp: sim_zonefs_def sf_open_def sf_ok_def fun_eq_iff sf_byte_def sf_content_def split: if_splits)
next
  case (2 d fd nm)
  then show ?case
    by (auto simp: sim_zonefs_def sf_ok_def fun_eq_iff sf_byte_def sf_content_def map_of_other)
next
  case (5 d nm len r d')
  then have d': "d' = d \<or> d' = sf_set nm (take (unat len) (sf_content d nm @ replicate (sf_zsize d) 0)) d
      \<and> (unat len = 0 \<or> unat len = sf_zsize d)"
    by (auto simp: sim_zonefs_def sf_truncate_def split: if_splits)
  then show ?case
    using 5(1) by (force simp: sf_ok_def sf_byte_def sf_content_set nth_append split: if_splits)
next
  case (6 d fd nm n off r bs d')
  then have bs: "bs = take (min (sf_chunk d) (unat n)) (drop (unat off) (sf_content d nm))" "r = int (length bs)" "d' = d"
    by (auto simp: sim_zonefs_def sf_pread_def Let_def)
  then have "r \<le> uint n" "r \<le> 0x7ffff000" using 6(1) by (auto simp: sf_ok_def intro: nat_le_uint)
  with 6 bs show ?case by (auto simp: sf_byte_def intro!: nth_equalityI)
next
  case (7 d fd nm n data off r d')
  define k where "k = min (sf_chunk d) (unat n)"
  have k: "k \<le> unat n" "k \<le> length data" "int k \<le> uint n" "int k \<le> 0x7ffff000"
    using 7(1,3) by (auto simp: k_def sf_ok_def intro: nat_le_uint)
  let ?bs = "sf_content d nm"
  have m1: "- 1 \<le> uint n" using uint_ge_0 [of n] by linarith
  have pw: "zo_pwrite sim_zonefs fd data n off d = (if unat off = length ?bs \<and> length ?bs + k \<le> sf_zsize d
      then (int k, sf_set nm (?bs @ take k data) d) else (- 1, d))"
    using 7(2) by (simp add: sim_zonefs_def sf_pwrite_def Let_def k_def)
  consider "r = - 1" "d' = d" | (w) "r = int k" "d' = sf_set nm (?bs @ take k data) d" "unat off = length ?bs"
    using 7(4) pw by (auto split: if_splits)
  then show ?case
  proof cases
    case w
    have "sf_byte d' nm' a = sf_byte d nm' a"
      if "nm' \<noteq> nm \<or> a < unat off \<or> unat off + unat n \<le> a" for nm' a
      using that k w by (auto simp: sf_byte_def sf_content_set nth_append)
    moreover have "sf_byte d' nm (unat off + i) = data ! i" if "int i < r" for i
      using that k w by (simp add: sf_byte_def sf_content_set nth_append)
    ultimately show ?thesis using 7(1) k w by auto
  qed (use 7(1) m1 in auto)
qed (auto simp: sim_zonefs_def)

text \<open>C31: The cache of open files is a least-recently-used cache.  On a cache whose index and list agree
  and whose size is within its limit, every operation keeps that and acts on the zones in the order
  of their last use as the specification says: \<open>Get\<close> brings its zone to the front and drops the
  zones used longest ago, and changes nothing when the file cannot be opened; \<open>Put\<close> drops its zone;
  \<open>Resize\<close> keeps the most recently used.\<close>

theorem file_cache_is_lru:
  assumes "cache_ok c" "cache_bounded c" "length (fc_list c) < 2 ^ 32" "fc_max c \<noteq> 0 \<or> (\<forall>m. op \<noteq> CResize m)"
    and "cache_step os op c d = (r, c', d')"
  shows "cache_ok c' \<and> cache_bounded c' \<and> lru_of c' = (if r then lru_step op (lru_of c) else lru_of c)"
  by (rule cache_step_lru [OF assms])

subsection \<open>A concrete file system of zones\<close>

definition demo_kernel :: simfs where
  "demo_kernel = \<lparr> sf_mount = str ''/m'', sf_zones = 4, sf_zsize = 512, sf_chunk = 5, sf_files = [],
     sf_fds = [], sf_next = 3 \<rparr>"

definition demo_zonefs :: "simfs zonefs" where
  "demo_zonefs = snd (zonefs_Open sim_zonefs False True (ZoneFsBackend (str ''/m'') demo_kernel))"

lemma demo_zonefs_open:
  "fst (zonefs_Open sim_zonefs False True (ZoneFsBackend (str ''/m'') demo_kernel)) = (OK, 2, 2)"
  by code_simp

lemma demo_zonefs_zone_sz: "zf_zone_sz demo_zonefs = 512"
  by code_simp

lemma demo_zonefs_sized: "zf_sized demo_zonefs"
  by (simp add: zf_sized_def demo_zonefs_zone_sz)

lemma demo_kernel_ok: "sf_ok demo_kernel" "map_of (sf_fds demo_kernel) = Map.empty"
  by (simp_all add: sf_ok_def demo_kernel_def)

lemma demo_zonefs_inv: "zonefs_inv (\<lambda>d. map_of (sf_fds d)) sf_ok demo_zonefs"
proof -
  have "zonefs_sim.held [] (ZoneFsBackend (str ''/m'') demo_kernel)"
    by (rule zonefs_sim.new_held [OF demo_kernel_ok])
  then have "zonefs_sim.held [] demo_zonefs"
    unfolding demo_zonefs_def by (rule zonefs_sim.zonefs_Open_held) (simp add: ZoneFsBackend_def)
  then show ?thesis
    using demo_zonefs_sized unfolding zonefs_sim.held_eq by (simp add: zonefs_inv_def)
qed

text \<open>C11: The ZoneFS backend is a zoned device, on a kernel that opens, closes, truncates, reads and writes
  files as documented.  The byte at an address is the byte of the zone's file at the offset in the
  zone; through the caches of open files, evictions and the splitting of transfers, a write stores
  the bytes it reports and no others, a read delivers the bytes at its position, a reset of a zone
  changes no other zone and reports a capacity that fits it, and finishing or closing a zone
  changes no byte.\<close>

theorem zonefs_is_zoned_device:
  assumes "zonefs_kernel os fcont fdname dinv"
  shows "zoned_device (zonefs_backend os) (zonefs_cont fcont) (zonefs_inv fdname dinv)"
  by (rule zonefs_kernel.zonefs_zoned_device [OF assms])

theorem zonefs_is_zoned_device_witness:
  "zoned_device (zonefs_backend sim_zonefs) (zonefs_cont sf_byte) (zonefs_inv (\<lambda>d. map_of (sf_fds d)) sf_ok)
   \<and> zonefs_inv (\<lambda>d. map_of (sf_fds d)) sf_ok demo_zonefs
   \<and> fst (zonefs_Write sim_zonefs (str ''hello zones'') 512 demo_zonefs) = 11"
proof (intro conjI)
  show "zoned_device (zonefs_backend sim_zonefs) (zonefs_cont sf_byte) (zonefs_inv (\<lambda>d. map_of (sf_fds d)) sf_ok)"
    by (rule zonefs_is_zoned_device [OF zonefs_sim.zonefs_kernel_axioms])
  show "zonefs_inv (\<lambda>d. map_of (sf_fds d)) sf_ok demo_zonefs" by (rule demo_zonefs_inv)
  show "fst (zonefs_Write sim_zonefs (str ''hello zones'') 512 demo_zonefs) = 11" by code_simp
qed

text \<open>C12: The ZoneFS backend neither uses a closed descriptor, nor loses an open one, nor opens too many zones
  for writing.  On a kernel where no zone file is open, let the backend open successfully with the
  limit \<open>m\<close> on active zones and a zone size below 2 GiB, and serve any requests in any order.  Then
  the descriptors that are open are exactly those it holds, each on the file it stands for; no more
  than \<open>m\<close> zones are open for writing, unless \<open>m\<close> is 0, which means no limit; and destroying the
  backend leaves no descriptor open and changes no file.\<close>

theorem zonefs_descriptors:
  assumes "zonefs_kernel os fcont fdname dinv" "dinv d" "fdname d = Map.empty"
    and "zonefs_Open os readonly exclusive (ZoneFsBackend mp d) = ((s, m, m2), b)" "ok s" "zf_sized b"
    and "b' = fold (zf_serve os) requests b"
  shows "fds_exact fdname b' \<and> zf_caches_ok b' \<and> (m = 0 \<or> length (fc_list (zf_wr_fds b')) \<le> unat m)
    \<and> fdname (zonefs_destroy os b') = Map.empty \<and> fcont (zonefs_destroy os b') = fcont (zf_os b')"
proof -
  note k = zonefs_kernel.held_eq [OF assms(1)] zonefs_kernel.zf_ok_def [OF assms(1)]
  have "zonefs_kernel.held fdname dinv [] b"
    using zonefs_kernel.zonefs_Open_held [OF assms(1) zonefs_kernel.new_held [OF assms(1-3), of mp], of readonly exclusive]
      assms(4) by (simp add: ZoneFsBackend_def)
  then have "zonefs_kernel.zf_ok fdname dinv b" using assms(6) k(2) by simp
  then have "zonefs_kernel.zf_ok fdname dinv b'"
    unfolding assms(7) by (rule zonefs_kernel.zf_served_held [OF assms(1)])
  then have h: "zonefs_kernel.held fdname dinv [] b'" using k(2) by simp
  have "wr_bounded m b'"
    unfolding assms(7) by (rule zf_served_bounded [OF zonefs_Open_bounded [OF assms(4,5)]])
  then show ?thesis
    using h k(1) zonefs_kernel.zonefs_destroy_closes [OF assms(1) h]
    by (auto simp: wr_bounded_def cache_bounded_def)
qed

definition demo_requests :: "zf_request list" where
  "demo_requests = [ZWrite (str ''abcdefgh'') 0, ZWrite (str ''xyz'') 512, ZWrite (str ''pq'') 1024,
     ZRead 6 1 False, ZRead 3 512 True, ZFinish 512, ZReset 0]"

theorem zonefs_descriptors_witness:
  "let b' = fold (zf_serve sim_zonefs) demo_requests demo_zonefs in
   fds_exact (\<lambda>d. map_of (sf_fds d)) b' \<and> length (fc_list (zf_wr_fds b')) \<le> 2
   \<and> map fst (fc_list (zf_wr_fds b')) = [2]
   \<and> map_of (sf_fds (zonefs_destroy sim_zonefs b')) = Map.empty"
proof -
  let ?b = "fold (zf_serve sim_zonefs) demo_requests demo_zonefs"
  have "zonefs_Open sim_zonefs False True (ZoneFsBackend (str ''/m'') demo_kernel) = ((OK, 2, 2), demo_zonefs)"
    using demo_zonefs_open by (simp add: demo_zonefs_def prod_eq_iff)
  from zonefs_descriptors [OF zonefs_sim.zonefs_kernel_axioms demo_kernel_ok this _ demo_zonefs_sized refl, of demo_requests]
  have "fds_exact (\<lambda>d. map_of (sf_fds d)) ?b" "length (fc_list (zf_wr_fds ?b)) \<le> 2"
    "map_of (sf_fds (zonefs_destroy sim_zonefs ?b)) = Map.empty" by (simp_all add: ok_def)
  moreover have "map fst (fc_list (zf_wr_fds ?b)) = [2]" by code_simp
  ultimately show ?thesis unfolding Let_def by blast
qed

text \<open>Two files in a cache of two; a third is opened.\<close>

definition demo_cache :: "fd_cache \<times> simfs" where
  "demo_cache =
     (let (c, d) = cache_Resize sim_zonefs 2 (ZoneFsFileCache 1) demo_kernel;
          (f, c, d) = cache_Get sim_zonefs 0 (zone_file (str ''/m'') 0) c d in
      snd (cache_Get sim_zonefs 1 (zone_file (str ''/m'') 1) c d))"

lemma demo_cache_ok: "cache_ok (fst demo_cache)"
proof -
  have get: "cache_ok (fst (snd (cache_Get os z f c d)))" if "cache_ok c" for os :: "simfs zonefs_os" and z f c d
    using cache_Get_ok [OF that, of os z f d] by (simp add: prod_eq_iff)
  show ?thesis
    unfolding demo_cache_def split_beta Let_def by (intro get cache_Resize_ok [OF cache_ok_new, THEN conjunct1])
qed

theorem file_cache_is_lru_witness:
  "\<exists>r c' d'. cache_step sim_zonefs (CGet 2 (zone_file (str ''/m'') 2)) (fst demo_cache) (snd demo_cache) = (r, c', d')
     \<and> r \<and> lru_of (fst demo_cache) = (2, [1, 0]) \<and> lru_of c' = (2, [2, 1])"
proof -
  obtain r c' d' where s: "cache_step sim_zonefs (CGet 2 (zone_file (str ''/m'') 2)) (fst demo_cache) (snd demo_cache) = (r, c', d')"
    by (metis prod.collapse)
  have r: "fst (cache_step sim_zonefs (CGet 2 (zone_file (str ''/m'') 2)) (fst demo_cache) (snd demo_cache))" by code_simp
  have l: "fc_max (fst demo_cache) = 2" "map fst (fc_list (fst demo_cache)) = [1, 0]" "length (fc_list (fst demo_cache)) = 2"
    by code_simp+
  have "lru_of c' = lru_step (CGet 2 (zone_file (str ''/m'') 2)) (lru_of (fst demo_cache))"
    using file_cache_is_lru [OF demo_cache_ok _ _ _ s] l r s by (simp add: cache_bounded_def)
  then show ?thesis
    using s r l by (auto simp: lru_of_def lru_get_def lru_cut_def)
qed

end
