(* ===== verification/Spec2Isabelle.thy ===== *)
theory Spec2Isabelle
  imports ZbdInvariant Tokens Crc32c Superblock MetaLog Paths AquaFS FsRecovery NameTable Replay Recovered
    FsWriter ZonedFiles GarbageCollection SparseFiles MetaRoll Raid0 Raid1 RaidC RaidMirror ZoneFsSession
begin

text \<open>
  Verification of AquaFS, a RocksDB file system for zoned block devices
  (\<open>src/aquafs-plugin\<close>; all file names below are relative to it).

  \<^bold>\<open>The program and its model.\<close>  A zoned device has zones that are written only at their write
  pointer and erased as a whole.  AquaFS keeps its metadata in a log in a few metadata zones and the
  data of its files as extents in the other zones.  From the device upwards:

  \<^item> \<open>Backend\<close>: the virtual interface \<open>ZonedBlockDeviceBackend\<close> (\<open>fs/zbd_aquafs.h\<close>) as a record of
    functions over a state, its implementation \<open>ZbdlibBackend\<close> (\<open>fs/zbdlib_aquafs.cc\<close>) over libzbd and
    the system calls, which are parameters, and the contracts the upper layers rely on: the locales
    \<open>data_device\<close>, \<open>progress_device\<close> and \<open>zoned_device\<close>.  A simulated device interprets them.
  \<^item> \<open>FileCache\<close>, \<open>ZoneFs\<close>, \<open>ZoneFsSession\<close> (\<open>fs/zonefs_aquafs.cc\<close>): the backend over the kernel's zonefs, with its
    caches of open file descriptors; the system calls are a parameter, the locale \<open>zonefs_kernel\<close> their
    documented behaviour.
  \<^item> \<open>Zone\<close>, \<open>ZonedBlockDevice\<close>, \<open>ZbdInvariant\<close>, \<open>Tokens\<close> (\<open>fs/zbd_aquafs.cc\<close>): the zone object with its busy
    flag, append, reset, finish and close; the device with its metadata and data zones, zone allocation
    by lifetime hint, open- and active-zone tokens, reads and statistics.  \<open>Tokens\<close> has the interleaving
    of the token calls of several writers.
  \<^item> \<open>ZoneFile\<close>, \<open>FileAppend\<close>, \<open>SparseFiles\<close>, \<open>ZonedFiles\<close> (\<open>fs/io_aquafs.cc\<close>): extents and their encoding, reads, the
    buffered, sparse and direct append paths, recovery of sparse files, and the handles RocksDB uses.
    The locale \<open>metadata_writer\<close> is what a file relies on of the file system that persists its metadata.
  \<^item> \<open>Superblock\<close>, \<open>MetaLog\<close> (\<open>fs/fs_aquafs.cc\<close>), \<open>Crc32c\<close> (\<open>util/util/crc32c.cc\<close>), \<open>Coding\<close>
    (\<open>util/util/coding.cc\<close>), \<open>Status\<close>: superblocks, the log of checksummed records, and the encodings.
  \<^item> \<open>Paths\<close>, \<open>AquaFS\<close>, \<open>NameTable\<close>, \<open>FsWriter\<close>, \<open>MetaRoll\<close> (\<open>fs/fs_aquafs.cc\<close>): the table of files, the records that
    keep it on disk, rolling the log to a new zone, and the operations on names.  \<open>StdMap\<close> is
    \<open>std::map\<close>.
  \<^item> \<open>FsRecovery\<close>, \<open>Replay\<close>, \<open>Recovered\<close> (\<open>fs/fs_aquafs.cc\<close>): decoding the log, mounting and making a
    file system.
  \<^item> \<open>GarbageCollection\<close> (\<open>fs/fs_aquafs.cc\<close>, \<open>fs/snapshot.h\<close>): migration of extents and the worker.
  \<^item> \<open>Raid\<close>, \<open>Raid0\<close>, \<open>Raid1\<close>, \<open>RaidC\<close>, \<open>RaidAllocator\<close>, \<open>RaidAuto\<close>, \<open>RaidMirror\<close> (\<open>fs/raid\<close>): arrays of
    devices as backends over their members.

  \<^bold>\<open>State and effects.\<close>  A class is a record and a method a function from the states it changes to
  their new values.  A \<open>Zone*\<close> is an index into the zones of the device, a \<open>shared_ptr<ZoneFile>\<close> an address
  in the map of objects of the file system.  Machine integers are words of their width, statuses
  values of the type \<open>status\<close>.  The result \<open>None\<close> of a function of option type means that the call does
  not return: it waits for ever, loops for ever, or has undefined behaviour (a null pointer, a vector
  index out of range, a division by zero); each theory says which.  Loops that may not end are partial
  functions in the option type, the others are recursive functions.  The recursions over directories
  (\<open>RenameFileNoLock\<close>, \<open>DeleteDirRecursiveNoLock\<close>) take their depth as fuel: a name has finitely many
  components, and each call goes down one of them.

  \<^bold>\<open>What is shown.\<close>
  \<^item> Data: \<open>Zone\<close> and \<open>FileAppend\<close> show that an append stores exactly the given bytes at the write pointer
    and adds exactly them to the file, over any number of zones; \<open>ZonedFiles\<close> lifts this to whole sessions
    on a handle with the metadata writer of the file system (\<open>FsWriter\<close>), which leaves the data zones
    alone; \<open>ZoneFile\<close> shows that reads return the data of the extents; \<open>GarbageCollection\<close> that
    migration keeps it; \<open>SparseFiles\<close> that a sparse file, the format of write-ahead logs, is recovered
    after a crash with everything that was appended to it.
  \<^item> Metadata: \<open>Coding\<close>, \<open>ZoneFile\<close> and \<open>Superblock\<close> have the round trips of the encodings, \<open>Crc32c\<close> the
    equivalence of the sliced checksum with bitwise division, \<open>MetaLog\<close> the refinement of the log to a
    list of records, and \<open>Recovered\<close> that every acknowledged record is found again after a mount.
    \<open>MetaRoll\<close> shows the same across a change of the log's zone: a roll that succeeds has the whole table in
    the new zone, one that fails at any step leaves the old log readable.
  \<^item> Names: \<open>NameTable\<close> keeps the agreement of table and link names on every path of rename, link, delete
    and open, and has the outcome of each.
  \<^item> Resources: allocation balances busy flags and tokens, the tokens stay within their limits under any
    interleaving, and the loops end, except where a theorem shows that they do not.
  \<^item> ZoneFS: the backend meets the contract of a zoned device, its caches keep the most recently used
    files, and it neither uses a closed descriptor nor loses an open one.
  \<^item> RAID: striping meets the contract of a zoned device, so that everything above holds on it; the
    concatenation stores its members one after the other; the allocator of the automatic RAID uses no
    zone twice, and its mirrored writes reach every mirror.
  \<^item> Defects: theorems of kind \<open>error\<close> show behaviour that the code does not mean to have, among them
    failures reported as success, data lost by an ignored copy error and a flush that cannot be retried.

  \<^bold>\<open>Bounds.\<close>  Lengths that the code keeps in 32 bits are below \<open>2^32\<close> in the theorems, addresses below
  \<open>2^64\<close>, zone sizes of the ZoneFS backend below 2 GiB; a read returns at most \<open>0x7ffff000\<close> bytes, as Linux does.  Garbage collection is shown for block
  sizes that divide 128 KiB.

  \<^bold>\<open>Not modelled.\<close>  The asynchronous builds of the RAID
  code (io_uring), metrics and logging, the timing and the starting of threads, file locks and directory
  creation, which are single calls of the auxiliary file system, the command line tools and benchmarks,
  the code copied from RocksDB that the file system does not use, and the stand-alone copy of the
  sources in \<open>AquaZFS\<close>.  Mutexes are left out where one call holds them throughout.

  \<^bold>\<open>Not shown.\<close>  Modelled, but without a theorem of their own: the data of the direct append path, and
  renames and deletions of whole directories.
\<close>

end
